(* ===== verification/Oxyn_Prelude.thy ===== *)
theory Oxyn_Prelude
  imports Main "HOL-Library.Word"
begin

text \<open>
  Shared material of the development: bytes and the part of Rust's \<open>str\<close>, slice and
  integer API that the modelled code calls, the result type, and the generic lemmas on
  lists and maps that the component theories use.

  A Rust \<open>&str\<close> or \<open>&[u8]\<close> is a \<open>string\<close>, that is, the list of its bytes (HOL's
  \<open>char\<close> is an 8-bit value), so that lengths and indices count bytes as the source does.
  A Rust \<open>Result\<close> is a sum with the error on the left.
\<close>

named_theorems effect_frames "what one operation of the executor may add to the trace"

subsection \<open>Bytes\<close>

definition byte :: "char \<Rightarrow> nat" where
  "byte c = of_char c"

lemma byte_less_256 [simp]: "byte c < 256"
  by (simp add: byte_def)

text \<open>The ASCII predicates of Rust's \<open>u8\<close>; vertical tab is not ASCII whitespace there.\<close>

definition is_ascii_whitespace :: "char \<Rightarrow> bool" where
  "is_ascii_whitespace c \<longleftrightarrow> byte c = 32 \<or> byte c = 9 \<or> byte c = 10 \<or> byte c = 12 \<or> byte c = 13"

definition is_ascii_digit :: "char \<Rightarrow> bool" where
  "is_ascii_digit c \<longleftrightarrow> 48 \<le> byte c \<and> byte c \<le> 57"

definition is_ascii_alphabetic :: "char \<Rightarrow> bool" where
  "is_ascii_alphabetic c \<longleftrightarrow> (65 \<le> byte c \<and> byte c \<le> 90) \<or> (97 \<le> byte c \<and> byte c \<le> 122)"

definition is_ascii_alphanumeric :: "char \<Rightarrow> bool" where
  "is_ascii_alphanumeric c \<longleftrightarrow> is_ascii_alphabetic c \<or> is_ascii_digit c"

definition to_ascii_lower :: "char \<Rightarrow> char" where
  "to_ascii_lower c = (if 65 \<le> byte c \<and> byte c \<le> 90 then char_of (byte c + 32) else c)"

text \<open>\<open>str::eq_ignore_ascii_case\<close>.\<close>

definition eq_ignore_case :: "string \<Rightarrow> string \<Rightarrow> bool" where
  "eq_ignore_case a b \<longleftrightarrow> map to_ascii_lower a = map to_ascii_lower b"

lemma eq_ignore_case_refl [simp]: "eq_ignore_case a a"
  by (simp add: eq_ignore_case_def)

text \<open>The order of \<open>str\<close>, and a list a binary search may be run on: there it is membership.\<close>

fun bytes_less :: "string \<Rightarrow> string \<Rightarrow> bool" where
  "bytes_less [] t = (t \<noteq> [])"
| "bytes_less (a # s) [] = False"
| "bytes_less (a # s) (b # t) = (byte a < byte b \<or> a = b \<and> bytes_less s t)"

fun ascending :: "string list \<Rightarrow> bool" where
  "ascending (s # t # ss) = (bytes_less s t \<and> ascending (t # ss))"
| "ascending ss = True"

subsection \<open>Results\<close>

text \<open>The operator \<open>?\<close>: an error returns, a value goes on.\<close>

definition and_then :: "'e + 'a \<Rightarrow> ('a \<Rightarrow> 'e + 'b) \<Rightarrow> 'e + 'b" where
  "and_then m f = (case m of Inl e \<Rightarrow> Inl e | Inr x \<Rightarrow> f x)"

lemma and_then_simps [simp]: "and_then (Inl e) f = Inl e" "and_then (Inr x) f = f x"
  by (simp_all add: and_then_def)

lemma and_then_Inr_iff: "and_then m f = Inr y \<longleftrightarrow> (\<exists>x. m = Inr x \<and> f x = Inr y)"
  by (cases m) simp_all

lemma and_then_cong [fundef_cong]:
  "m = m' \<Longrightarrow> (\<And>x. m' = Inr x \<Longrightarrow> f x = f' x) \<Longrightarrow> and_then m f = and_then m' f'"
  by (cases m') simp_all

subsection \<open>Slices\<close>

text \<open>\<open>slice::get(i)\<close> and \<open>slice::get(a..b)\<close>: out of range is \<open>None\<close>.\<close>

definition get_at :: "'a list \<Rightarrow> nat \<Rightarrow> 'a option" where
  "get_at xs i = (if i < length xs then Some (xs ! i) else None)"

definition get_range :: "'a list \<Rightarrow> nat \<Rightarrow> nat \<Rightarrow> 'a list option" where
  "get_range xs a b = (if a \<le> b \<and> b \<le> length xs then Some (take (b - a) (drop a xs)) else None)"

lemma get_at_Some_iff: "get_at xs i = Some c \<longleftrightarrow> i < length xs \<and> xs ! i = c"
  by (auto simp: get_at_def)

lemma get_at_SomeD: "get_at xs i = Some c \<Longrightarrow> i < length xs"
  by (simp add: get_at_Some_iff)

lemma get_at_None_iff: "get_at xs i = None \<longleftrightarrow> length xs \<le> i"
  by (auto simp: get_at_def)

lemma get_range_Some_iff:
  "get_range xs a b = Some ys \<longleftrightarrow> a \<le> b \<and> b \<le> length xs \<and> ys = take (b - a) (drop a xs)"
  by (auto simp: get_range_def)

definition starts_with :: "'a list \<Rightarrow> 'a list \<Rightarrow> bool" where
  "starts_with xs p \<longleftrightarrow> take (length p) xs = p"

definition ends_with :: "'a list \<Rightarrow> 'a list \<Rightarrow> bool" where
  "ends_with xs p \<longleftrightarrow> length p \<le> length xs \<and> drop (length xs - length p) xs = p"

lemma starts_with_length: "starts_with xs p \<Longrightarrow> length p \<le> length xs"
  by (metis starts_with_def length_take min.cobounded1)

text \<open>
  \<open>str::trim\<close> removes Unicode \<open>White_Space\<close>; these are the UTF-8 encodings of its members.
  UTF-8 is self-synchronizing: a suffix that equals one of them is that character.
\<close>

definition white_space :: "string list" where
  "white_space =
     [[CHR 0x09], [CHR 0x0A], [CHR 0x0B], [CHR 0x0C], [CHR 0x0D], [CHR 0x20],
      [CHR 0xC2, CHR 0x85], [CHR 0xC2, CHR 0xA0], [CHR 0xE1, CHR 0x9A, CHR 0x80]]
     @ map (\<lambda>b. [CHR 0xE2, CHR 0x80, b])
         [CHR 0x80, CHR 0x81, CHR 0x82, CHR 0x83, CHR 0x84, CHR 0x85, CHR 0x86, CHR 0x87,
          CHR 0x88, CHR 0x89, CHR 0x8A, CHR 0xA8, CHR 0xA9, CHR 0xAF]
     @ [[CHR 0xE2, CHR 0x81, CHR 0x9F], [CHR 0xE3, CHR 0x80, CHR 0x80]]"

definition ws_lead :: "string \<Rightarrow> nat" where
  "ws_lead s = (case find (starts_with s) white_space of None \<Rightarrow> 0 | Some w \<Rightarrow> length w)"

definition ws_trail :: "string \<Rightarrow> nat" where
  "ws_trail s = (case find (ends_with s) white_space of None \<Rightarrow> 0 | Some w \<Rightarrow> length w)"

lemma ws_lead_le: "ws_lead s \<le> length s"
  by (auto simp: ws_lead_def find_Some_iff dest: starts_with_length split: option.splits)

lemma ws_trail_le: "ws_trail s \<le> length s"
  by (auto simp: ws_trail_def find_Some_iff ends_with_def split: option.splits)

lemma ws_lead_pos: "0 < ws_lead s \<Longrightarrow> length s - ws_lead s < length s"
  using ws_lead_le [of s] by linarith

lemma ws_trail_pos: "0 < ws_trail s \<Longrightarrow> length s - ws_trail s < length s"
  using ws_trail_le [of s] by linarith

function trim_start :: "string \<Rightarrow> string" where
  "trim_start s = (if ws_lead s = 0 then s else trim_start (drop (ws_lead s) s))"
  by pat_completeness auto
termination
  by (relation "measure length") (auto dest: ws_lead_pos)

function trim_end :: "string \<Rightarrow> string" where
  "trim_end s = (if ws_trail s = 0 then s else trim_end (take (length s - ws_trail s) s))"
  by pat_completeness auto
termination
  by (relation "measure length") (auto dest: ws_trail_pos)

declare trim_start.simps [simp del] trim_end.simps [simp del]

definition trim :: "string \<Rightarrow> string" where
  "trim s = trim_end (trim_start s)"

text \<open>Trimming keeps a contiguous part: \<open>trim_start\<close> a suffix, \<open>trim_end\<close> a prefix.\<close>

lemma trim_start_suffix: "\<exists>p. s = p @ trim_start s"
proof (induction s rule: trim_start.induct)
  case (1 s)
  show ?case
  proof (cases "ws_lead s = 0")
    case True
    then show ?thesis by (subst trim_start.simps) simp
  next
    case False
    with "1.IH" obtain p where "drop (ws_lead s) s = p @ trim_start (drop (ws_lead s) s)"
      by blast
    then have "s = (take (ws_lead s) s @ p) @ trim_start (drop (ws_lead s) s)"
      by (metis append.assoc append_take_drop_id)
    with False show ?thesis using trim_start.simps [of s] by metis
  qed
qed

lemma trim_end_prefix: "\<exists>q. s = trim_end s @ q"
proof (induction s rule: trim_end.induct)
  case (1 s)
  let ?t = "take (length s - ws_trail s) s"
  show ?case
  proof (cases "ws_trail s = 0")
    case True
    then show ?thesis by (subst trim_end.simps) simp
  next
    case False
    with "1.IH" obtain q where "?t = trim_end ?t @ q" by blast
    then have "s = trim_end ?t @ (q @ drop (length s - ws_trail s) s)"
      by (metis append.assoc append_take_drop_id)
    with False show ?thesis using trim_end.simps [of s] by metis
  qed
qed

lemma length_trim_start_le: "length (trim_start s) \<le> length s"
  using trim_start_suffix [of s] by (metis le_add2 length_append)

lemma length_trim_end_le: "length (trim_end s) \<le> length s"
  using trim_end_prefix [of s] by (metis le_add1 length_append)

lemma length_trim_le: "length (trim s) \<le> length (trim_start s)"
  by (simp add: trim_def length_trim_end_le)

lemma trim_slice:
  "trim s = take (length (trim s)) (drop (length s - length (trim_start s)) s)"
proof -
  obtain p where p: "s = p @ trim_start s" using trim_start_suffix by blast
  obtain q where q: "trim_start s = trim s @ q"
    unfolding trim_def using trim_end_prefix by blast
  have "length s - length (trim_start s) = length p"
    by (subst p) simp
  then have "drop (length s - length (trim_start s)) s = trim_start s"
    by (subst (2) p) simp
  with q show ?thesis by (metis append_eq_conv_conj)
qed

subsection \<open>Machine integers\<close>

type_synonym u8 = "8 word"
type_synonym u64 = "64 word"

text \<open>\<open>u64::saturating_add\<close>.\<close>

definition sat_add :: "u64 \<Rightarrow> u64 \<Rightarrow> u64" where
  "sat_add a b = (if unat a + unat b < 2 ^ 64 then a + b else - 1)"

lemma unat_sat_add: "unat (sat_add a b) = min (unat a + unat b) (2 ^ 64 - 1)"
proof (cases "unat a + unat b < 2 ^ 64")
  case True
  then show ?thesis by (simp add: sat_add_def unat_word_ariths)
next
  case False
  then show ?thesis by (simp add: sat_add_def unsigned_minus_1_eq_mask mask_eq_exp_minus_1)
qed

subsection \<open>Lists and maps\<close>

text \<open>A finite map has as many keys as its \<open>HashMap::len\<close>.\<close>

definition map_len :: "('k \<rightharpoonup> 'v) \<Rightarrow> nat" where
  "map_len m = card (dom m)"

lemma map_len_empty [simp]: "map_len Map.empty = 0"
  by (simp add: map_len_def)

lemma map_len_delete:
  "finite (dom m) \<Longrightarrow> map_len (m(k := None)) = (if m k = None then map_len m else map_len m - 1)"
  by (auto simp: map_len_def domIff)

lemma map_len_insert:
  "finite (dom m) \<Longrightarrow> map_len (m(k \<mapsto> v)) = (if m k = None then Suc (map_len m) else map_len m)"
  by (auto simp: map_len_def card_insert_if domIff)

subsection \<open>Keyed lists\<close>

text \<open>
  A \<open>HashMap\<close> whose values carry their own key, as the list of its values in the order an
  iteration visits them. \<open>get\<close>, \<open>remove\<close> and \<open>insert\<close>; lemmas hold for any list with distinct
  keys, hence for every iteration order.
\<close>

definition find_key :: "('v \<Rightarrow> 'k) \<Rightarrow> 'k \<Rightarrow> 'v list \<Rightarrow> 'v option" where
  "find_key key k es = find (\<lambda>e. key e = k) es"

definition remove_key :: "('v \<Rightarrow> 'k) \<Rightarrow> 'k \<Rightarrow> 'v list \<Rightarrow> 'v list" where
  "remove_key key k es = filter (\<lambda>e. key e \<noteq> k) es"

definition insert_key :: "('v \<Rightarrow> 'k) \<Rightarrow> 'v \<Rightarrow> 'v list \<Rightarrow> 'v list" where
  "insert_key key v es = remove_key key (key v) es @ [v]"

lemma find_key_None_iff: "find_key key i es = None \<longleftrightarrow> i \<notin> key ` set es"
  by (auto simp: find_key_def find_None_iff)

lemma find_key_SomeD: "find_key key i es = Some e \<Longrightarrow> e \<in> set es \<and> key e = i"
  by (auto simp: find_key_def find_Some_iff)

lemma find_key_distinct:
  "distinct (map key es) \<Longrightarrow> find_key key i es = Some e \<longleftrightarrow> e \<in> set es \<and> key e = i"
  by (induction es) (auto simp: find_key_def)

lemma find_key_append:
  "find_key key i (es @ [e]) = (case find_key key i es of None \<Rightarrow> if key e = i then Some e else None | s \<Rightarrow> s)"
  by (induction es) (auto simp: find_key_def split: option.splits)

lemma find_key_remove_key: "find_key key j (remove_key key i es) = (if i = j then None else find_key key j es)"
  by (induction es) (auto simp: find_key_def remove_key_def)

lemma find_key_filter:
  assumes "distinct (map key es)"
  shows "find_key key i (filter P es)
    = (case find_key key i es of None \<Rightarrow> None | Some e \<Rightarrow> if P e then Some e else None)"
proof (cases "find_key key i es")
  case None
  then have "find_key key i (filter P es) = None" by (auto simp: find_key_None_iff)
  with None show ?thesis by simp
next
  case (Some e)
  have same: "x = e" if "x \<in> set es" "key x = i" for x
    using that Some assms by (metis find_key_distinct option.inject)
  show ?thesis
  proof (cases "P e")
    case True
    then have "find_key key i (filter P es) = Some e"
      using Some assms by (simp add: find_key_distinct distinct_map_filter)
    with Some True show ?thesis by simp
  next
    case False
    with Some same show ?thesis by (auto simp: find_key_None_iff)
  qed
qed

lemma distinct_remove_key: "distinct (map key es) \<Longrightarrow> distinct (map key (remove_key key i es))"
  by (simp add: remove_key_def distinct_map_filter)

lemma length_remove_key_le: "length (remove_key key i es) \<le> length es"
  by (simp add: remove_key_def)

lemma find_key_insert_key:
  "find_key key k (insert_key key v es) = (if key v = k then Some v else find_key key k es)"
  by (simp add: insert_key_def find_key_append find_key_remove_key split: option.split)

lemma distinct_insert_key: "distinct (map key es) \<Longrightarrow> distinct (map key (insert_key key v es))"
  by (auto simp: insert_key_def distinct_remove_key) (simp add: remove_key_def)

lemma set_remove_key: "set (remove_key key k es) = {e \<in> set es. key e \<noteq> k}"
  by (auto simp: remove_key_def)

end
