(* ===== verification/Query_Types.thy ===== *)
theory Query_Types
  imports Oxyn_Prelude
begin

text \<open>
  The vocabulary of \<open>crates/oxyn-core\<close>: identifiers (\<open>ids.rs\<close>), errors and their classes
  (\<open>error.rs\<close>), bound values (\<open>value.rs\<close>), and languages, intents, risks, limits and requests
  (\<open>query.rs\<close>).
\<close>

unbundle bit_operations_syntax

subsection \<open>Identifiers\<close>

text \<open>
  An identifier wraps a UUID; the code only compares identifiers and uses them as keys, so
  a UUID is a number. Fresh identifiers are arguments of the operations that mint them.
\<close>

type_synonym uuid = nat

datatype connection_id = ConnectionId uuid
datatype session_id = SessionId uuid
datatype command_id = CommandId uuid
datatype result_id = ResultId uuid
datatype statement_handle = StatementHandle uuid
datatype document_id = DocumentId uuid
datatype workspace_id = WorkspaceId uuid
datatype window_id = WindowId uuid
datatype agent_id = AgentId uuid
datatype agent_session_id = AgentSessionId uuid
datatype driver_id = DriverId string
datatype provider_id = ProviderId string

text \<open>Instants and durations count nanoseconds.\<close>

type_synonym instant = nat
type_synonym duration = nat

definition from_secs :: "nat \<Rightarrow> duration" where
  "from_secs n = n * 1000000000"

record id_parse_error =
  ipe_kind :: string
  ipe_detail :: string

definition is_ascii_lowercase :: "char \<Rightarrow> bool" where
  "is_ascii_lowercase c \<longleftrightarrow> 97 \<le> byte c \<and> byte c \<le> 122"

text \<open>The checks of a stable name; \<open>DriverId::new\<close> and \<open>ProviderId::new\<close> make the same ones.\<close>

definition stable_name :: "string \<Rightarrow> string \<Rightarrow> id_parse_error + string" where
  "stable_name kind name =
     (if name = [] then Inl \<lparr>ipe_kind = kind, ipe_detail = ''the string is empty''\<rparr>
      else if length name > 32 then
        Inl \<lparr>ipe_kind = kind, ipe_detail = ''longer than 32 characters''\<rparr>
      else if \<not> is_ascii_lowercase (hd name) then
        Inl \<lparr>ipe_kind = kind, ipe_detail = ''must start with an ASCII lowercase letter''\<rparr>
      else if \<not> list_all (\<lambda>c. is_ascii_lowercase c \<or> is_ascii_digit c
                          \<or> c = CHR ''-'' \<or> c = CHR ''_'') name then
        Inl \<lparr>ipe_kind = kind, ipe_detail = ''allowed characters: a-z, 0-9, `-`, `_`''\<rparr>
      else Inr name)"

definition driver_id_new :: "string \<Rightarrow> id_parse_error + driver_id" where
  "driver_id_new name = map_sum id DriverId (stable_name ''DriverId'' name)"

definition provider_id_new :: "string \<Rightarrow> id_parse_error + provider_id" where
  "provider_id_new name = map_sum id ProviderId (stable_name ''ProviderId'' name)"

lemma stable_name_ok:
  "stable_name kind name = Inr n \<Longrightarrow> n = name \<and> 0 < length name \<and> length name \<le> 32"
  by (auto simp: stable_name_def split: if_splits)

text \<open>The rejection never repeats the faulty name: it is one of four fixed details.\<close>

lemma stable_name_error_fixed:
  assumes "stable_name kind a = Inl e"
  shows "ipe_kind e = kind \<and> ipe_detail e \<in>
    {''the string is empty'', ''longer than 32 characters'',
     ''must start with an ASCII lowercase letter'', ''allowed characters: a-z, 0-9, `-`, `_`''}"
  using assms by (auto simp: stable_name_def split: if_splits)

subsection \<open>Errors\<close>

datatype error_class = Transient | Permanent | Ambiguous

fun class_is_retryable :: "error_class \<Rightarrow> bool" where
  "class_is_retryable Transient = True"
| "class_is_retryable _ = False"

text \<open>
  The payload of \<open>Driver\<close> is the driver's own error, opaque to the core: its rendering. The
  same holds of \<open>Io\<close>.
\<close>

datatype oxyn_error =
    EConfig string
  | EConnection string
  | EAuthentication string
  | EDriver driver_id error_class string
  | EQuery string
  | EContextTooLong string
  | ETimeout duration
  | EOutcomeUnknown string
  | ECancelled
  | EPolicyDenied string
  | EApprovalRequired string
  | ENotSupported string
  | EIo string
  | ESerialization string
  | ECatalogUnavailable string
  | EInternal string

fun error_class_of :: "oxyn_error \<Rightarrow> error_class" where
  "error_class_of (EDriver _ c _) = c"
| "error_class_of (EConnection _) = Transient"
| "error_class_of (ECatalogUnavailable _) = Transient"
| "error_class_of (ETimeout _) = Ambiguous"
| "error_class_of (EOutcomeUnknown _) = Ambiguous"
| "error_class_of _ = Permanent"

definition is_retryable :: "oxyn_error \<Rightarrow> bool" where
  "is_retryable e = class_is_retryable (error_class_of e)"

fun is_user_error :: "oxyn_error \<Rightarrow> bool" where
  "is_user_error (EConfig _) = True"
| "is_user_error (EAuthentication _) = True"
| "is_user_error (EQuery _) = True"
| "is_user_error (EContextTooLong _) = True"
| "is_user_error (EPolicyDenied _) = True"
| "is_user_error (EApprovalRequired _) = True"
| "is_user_error (ENotSupported _) = True"
| "is_user_error _ = False"

type_synonym 'a result = "oxyn_error + 'a"

text \<open>
  Only a failure that cannot have had an effect may be retried: a timeout, an unknown
  outcome and a cancellation are never retryable.
\<close>

lemma is_retryable_iff:
  "is_retryable e \<longleftrightarrow>
     (\<exists>m. e = EConnection m) \<or> (\<exists>m. e = ECatalogUnavailable m) \<or> (\<exists>d m. e = EDriver d Transient m)"
proof (cases e)
  case (EDriver d c m)
  then show ?thesis by (cases c) (simp_all add: is_retryable_def)
qed (simp_all add: is_retryable_def)

subsection \<open>Languages\<close>

datatype sql_dialect = Ansi | Postgres | MySql | Sqlite | SqlServer | Oracle | ClickHouse
  | DuckDb | Snowflake | BigQuery | Redshift

datatype query_language = Sql sql_dialect | Cypher | Gremlin | MongoQuery | RedisCommand
  | SearchDsl | Cql | PartiQl | InfluxQl | Flux

fun dialect_as_str :: "sql_dialect \<Rightarrow> string" where
  "dialect_as_str Ansi = ''ansi''"
| "dialect_as_str Postgres = ''postgres''"
| "dialect_as_str MySql = ''mysql''"
| "dialect_as_str Sqlite = ''sqlite''"
| "dialect_as_str SqlServer = ''sqlserver''"
| "dialect_as_str Oracle = ''oracle''"
| "dialect_as_str ClickHouse = ''clickhouse''"
| "dialect_as_str DuckDb = ''duckdb''"
| "dialect_as_str Snowflake = ''snowflake''"
| "dialect_as_str BigQuery = ''bigquery''"
| "dialect_as_str Redshift = ''redshift''"

fun language_as_str :: "query_language \<Rightarrow> string" where
  "language_as_str (Sql _) = ''sql''"
| "language_as_str Cypher = ''cypher''"
| "language_as_str Gremlin = ''gremlin''"
| "language_as_str MongoQuery = ''mongo''"
| "language_as_str RedisCommand = ''redis''"
| "language_as_str SearchDsl = ''search-dsl''"
| "language_as_str Cql = ''cql''"
| "language_as_str PartiQl = ''partiql''"
| "language_as_str InfluxQl = ''influxql''"
| "language_as_str Flux = ''flux''"

fun language_display :: "query_language \<Rightarrow> string" where
  "language_display (Sql d) = ''sql/'' @ dialect_as_str d"
| "language_display l = language_as_str l"

fun sql_dialect_of :: "query_language \<Rightarrow> sql_dialect option" where
  "sql_dialect_of (Sql d) = Some d"
| "sql_dialect_of _ = None"

subsection \<open>Intents and risks\<close>

datatype statement_intent = Read | Write | Ddl | Grant | Unknown

fun intent_is_mutating :: "statement_intent \<Rightarrow> bool" where
  "intent_is_mutating Read = False"
| "intent_is_mutating _ = True"

fun intent_is_read_only :: "statement_intent \<Rightarrow> bool" where
  "intent_is_read_only Read = True"
| "intent_is_read_only _ = False"

fun intent_as_str :: "statement_intent \<Rightarrow> string" where
  "intent_as_str Read = ''read''"
| "intent_as_str Write = ''write''"
| "intent_as_str Ddl = ''ddl''"
| "intent_as_str Grant = ''grant''"
| "intent_as_str Unknown = ''unknown''"

datatype mutation_risk = RiskNone | UnboundedUpdate | UnboundedDelete | Truncate | DropObject
  | CopyToServerFile | CopyServerProgram

definition risk_is_some :: "mutation_risk \<Rightarrow> bool" where
  "risk_is_some r \<longleftrightarrow> r \<noteq> RiskNone"

fun risk_reason :: "mutation_risk \<Rightarrow> string option" where
  "risk_reason RiskNone = None"
| "risk_reason UnboundedUpdate = Some ''UPDATE without a WHERE clause: every row''"
| "risk_reason UnboundedDelete = Some ''DELETE without a WHERE clause: every row''"
| "risk_reason Truncate = Some ''TRUNCATE: the table is emptied''"
| "risk_reason DropObject = Some ''DROP: the object and its data are removed''"
| "risk_reason CopyToServerFile = Some ''COPY: writes a file on the database server''"
| "risk_reason CopyServerProgram = Some ''COPY: runs a program on the database server''"

lemma intent_is_mutating_iff [simp]: "intent_is_mutating i \<longleftrightarrow> i \<noteq> Read"
  by (cases i) auto

lemma intent_is_read_only_iff [simp]: "intent_is_read_only i \<longleftrightarrow> i = Read"
  by (cases i) auto

lemma risk_reason_None_iff [simp]: "risk_reason r = None \<longleftrightarrow> r = RiskNone"
  by (cases r) auto

lemma risk_reason_Some: "r \<noteq> RiskNone \<Longrightarrow> \<exists>why. risk_reason r = Some why"
  by (cases r) auto

subsection \<open>Bound values\<close>

text \<open>
  The model carries bound values and never computes with them: a float is its bit pattern, a
  date, a time and an instant the number chrono stores, a JSON document its text.
\<close>

datatype scalar_value =
    SNull
  | SBool bool
  | SInt64 u64
  | SFloat64 u64
  | SDecimal string
  | SText string
  | SBytes string
  | SUuid uuid
  | SDate int
  | STime nat
  | STimestamp int
  | STimestampNaive int
  | SInterval "32 word" "32 word" u64
  | SJson string
  | SArray "scalar_value list"

fun type_name :: "scalar_value \<Rightarrow> string" where
  "type_name SNull = ''null''"
| "type_name (SBool _) = ''bool''"
| "type_name (SInt64 _) = ''int64''"
| "type_name (SFloat64 _) = ''float64''"
| "type_name (SDecimal _) = ''decimal''"
| "type_name (SText _) = ''text''"
| "type_name (SBytes _) = ''bytes''"
| "type_name (SUuid _) = ''uuid''"
| "type_name (SDate _) = ''date''"
| "type_name (STime _) = ''time''"
| "type_name (STimestamp _) = ''timestamptz''"
| "type_name (STimestampNaive _) = ''timestamp''"
| "type_name (SInterval _ _ _) = ''interval''"
| "type_name (SJson _) = ''json''"
| "type_name (SArray _) = ''array''"

subsection \<open>Limits and requests\<close>

record exec_limits =
  max_rows :: "nat option"
  timeout :: "duration option"
  limits_read_only :: bool

definition default_timeout :: duration where
  "default_timeout = from_secs 30"

definition default_max_rows :: nat where
  "default_max_rows = 10000"

definition unbounded :: exec_limits where
  "unbounded = \<lparr>max_rows = None, timeout = None, limits_read_only = False\<rparr>"

definition default_limits :: exec_limits where
  "default_limits =
     \<lparr>max_rows = Some default_max_rows, timeout = Some default_timeout, limits_read_only = True\<rparr>"

definition writable :: "exec_limits \<Rightarrow> exec_limits" where
  "writable l = l\<lparr>limits_read_only := False\<rparr>"

definition with_max_rows :: "nat option \<Rightarrow> exec_limits \<Rightarrow> exec_limits" where
  "with_max_rows n l = l\<lparr>max_rows := n\<rparr>"

definition with_timeout :: "duration option \<Rightarrow> exec_limits \<Rightarrow> exec_limits" where
  "with_timeout t l = l\<lparr>timeout := t\<rparr>"

record exec_request =
  language :: query_language
  req_text :: string
  params :: "scalar_value list"
  req_intent :: statement_intent
  req_risk :: mutation_risk
  limits :: exec_limits
  transaction_control :: bool
  context_change :: bool

definition exec_request_new :: "query_language \<Rightarrow> string \<Rightarrow> exec_request" where
  "exec_request_new l t =
     \<lparr>language = l, req_text = t, params = [], req_intent = Unknown, req_risk = RiskNone,
      limits = default_limits, transaction_control = False, context_change = False\<rparr>"

definition with_intent :: "statement_intent \<Rightarrow> exec_request \<Rightarrow> exec_request" where
  "with_intent i r = r\<lparr>req_intent := i\<rparr>"

definition with_risk :: "mutation_risk \<Rightarrow> exec_request \<Rightarrow> exec_request" where
  "with_risk k r = r\<lparr>req_risk := k\<rparr>"

definition with_params :: "scalar_value list \<Rightarrow> exec_request \<Rightarrow> exec_request" where
  "with_params ps r = r\<lparr>params := ps\<rparr>"

definition with_limits :: "exec_limits \<Rightarrow> exec_request \<Rightarrow> exec_request" where
  "with_limits l r = r\<lparr>limits := l\<rparr>"

definition request_is_mutating :: "exec_request \<Rightarrow> bool" where
  "request_is_mutating r \<longleftrightarrow> intent_is_mutating (req_intent r) \<or> risk_is_some (req_risk r)"

text \<open>The defaults are the cautious ones: an unqualified request is mutating, its limits are
  bounded and read-only.\<close>

lemma exec_request_new_cautious:
  "request_is_mutating (exec_request_new l t) \<and> limits_read_only (limits (exec_request_new l t))"
  by (simp add: request_is_mutating_def exec_request_new_def default_limits_def)

lemma request_is_mutating_with_intent_mono:
  "request_is_mutating (with_intent Unknown r)"
  by (simp add: request_is_mutating_def with_intent_def)

end
