(* ===== verification/Connection_Types.thy ===== *)
theory Connection_Types
  imports Query_Types
begin

text \<open>
  What \<open>crates/oxyn-core\<close> says of a connection: environments, privacy tiers and configurations
  (\<open>connection.rs\<close>), the capabilities a session declares (\<open>capabilities.rs\<close>), the statistics and
  timings of an execution (\<open>stats.rs\<close>) and the transaction state (\<open>transaction.rs\<close>).
\<close>

unbundle bit_operations_syntax

subsection \<open>Environments\<close>

datatype environment = Local | Development | Staging | Production

fun env_rank :: "environment \<Rightarrow> nat" where
  "env_rank Local = 0"
| "env_rank Development = 1"
| "env_rank Staging = 2"
| "env_rank Production = 3"

lemma env_rank_inj: "env_rank a = env_rank b \<Longrightarrow> a = b"
  by (cases a; cases b) auto

text \<open>The derived \<open>Ord\<close>: the order of the variants is that of increasing restriction.\<close>

instantiation environment :: linorder
begin

definition less_eq_environment :: "environment \<Rightarrow> environment \<Rightarrow> bool" where
  "a \<le> b \<longleftrightarrow> env_rank a \<le> env_rank b"

definition less_environment :: "environment \<Rightarrow> environment \<Rightarrow> bool" where
  "a < b \<longleftrightarrow> env_rank a < env_rank b"

instance
  by standard
    (auto simp: less_eq_environment_def less_environment_def dest: env_rank_inj)

end

definition default_environment :: environment where
  "default_environment = Production"

definition is_production :: "environment \<Rightarrow> bool" where
  "is_production e \<longleftrightarrow> e = Production"

fun environment_as_str :: "environment \<Rightarrow> string" where
  "environment_as_str Local = ''local''"
| "environment_as_str Development = ''development''"
| "environment_as_str Staging = ''staging''"
| "environment_as_str Production = ''production''"

definition environment_from_str :: "string \<Rightarrow> id_parse_error + environment" where
  "environment_from_str s =
     (if s = ''local'' then Inr Local
      else if s = ''development'' \<or> s = ''dev'' then Inr Development
      else if s = ''staging'' \<or> s = ''stage'' then Inr Staging
      else if s = ''production'' \<or> s = ''prod'' then Inr Production
      else Inl \<lparr>ipe_kind = ''Environment'',
                ipe_detail = ''expected: local, development, staging or production''\<rparr>)"

lemma environment_le_Production [simp]: "e \<le> Production"
  by (cases e) (simp_all add: less_eq_environment_def)

lemma Production_le_iff [simp]: "Production \<le> e \<longleftrightarrow> e = Production"
  by (cases e) (simp_all add: less_eq_environment_def)

lemma max_Production_iff [simp]: "max a b = Production \<longleftrightarrow> a = Production \<or> b = Production"
  by (auto simp: max_def)

lemma environment_roundtrip: "environment_from_str (environment_as_str e) = Inr e"
  by (cases e) (simp_all add: environment_from_str_def)

subsection \<open>Privacy tiers\<close>

datatype privacy_tier = TierLocal | Metadata | Sampled

fun tier_rank :: "privacy_tier \<Rightarrow> nat" where
  "tier_rank TierLocal = 0"
| "tier_rank Metadata = 1"
| "tier_rank Sampled = 2"

lemma tier_rank_inj: "tier_rank a = tier_rank b \<Longrightarrow> a = b"
  by (cases a; cases b) auto

instantiation privacy_tier :: linorder
begin

definition less_eq_privacy_tier :: "privacy_tier \<Rightarrow> privacy_tier \<Rightarrow> bool" where
  "a \<le> b \<longleftrightarrow> tier_rank a \<le> tier_rank b"

definition less_privacy_tier :: "privacy_tier \<Rightarrow> privacy_tier \<Rightarrow> bool" where
  "a < b \<longleftrightarrow> tier_rank a < tier_rank b"

instance
  by standard
    (auto simp: less_eq_privacy_tier_def less_privacy_tier_def dest: tier_rank_inj)

end

definition default_tier :: privacy_tier where
  "default_tier = Metadata"

fun allows_row_values :: "privacy_tier \<Rightarrow> bool" where
  "allows_row_values Sampled = True"
| "allows_row_values _ = False"

fun allows_remote_provider :: "privacy_tier \<Rightarrow> bool" where
  "allows_remote_provider TierLocal = False"
| "allows_remote_provider _ = True"

definition most_restrictive :: "privacy_tier \<Rightarrow> privacy_tier \<Rightarrow> privacy_tier" where
  "most_restrictive a b = min a b"

fun tier_as_str :: "privacy_tier \<Rightarrow> string" where
  "tier_as_str TierLocal = ''local''"
| "tier_as_str Metadata = ''metadata''"
| "tier_as_str Sampled = ''sampled''"

text \<open>The dash in the middle description is U+2014, three bytes in UTF-8.\<close>

fun tier_describe :: "privacy_tier \<Rightarrow> string" where
  "tier_describe TierLocal = ''nothing leaves this machine; local model only''"
| "tier_describe Metadata = ''schema only: names, types, indexes, cardinalities ''
     @ [CHR 0xE2, CHR 0x80, CHR 0x94] @ '' no row values''"
| "tier_describe Sampled = ''schema, plus row samples you approved column by column''"

definition tier_from_str :: "string \<Rightarrow> id_parse_error + privacy_tier" where
  "tier_from_str s =
     (if s = ''local'' then Inr TierLocal
      else if s = ''metadata'' then Inr Metadata
      else if s = ''sampled'' then Inr Sampled
      else Inl \<lparr>ipe_kind = ''PrivacyTier'', ipe_detail = ''expected: local, metadata or sampled''\<rparr>)"

lemma tier_roundtrip: "tier_from_str (tier_as_str t) = Inr t"
  by (cases t) (simp_all add: tier_from_str_def)

lemma most_restrictive_allows_row_values:
  "allows_row_values (most_restrictive a b) \<longleftrightarrow> allows_row_values a \<and> allows_row_values b"
  by (cases a; cases b) (simp_all add: most_restrictive_def min_def less_eq_privacy_tier_def)

lemma most_restrictive_allows_remote:
  "allows_remote_provider (most_restrictive a b) \<longleftrightarrow>
     allows_remote_provider a \<and> allows_remote_provider b"
  by (cases a; cases b) (simp_all add: most_restrictive_def min_def less_eq_privacy_tier_def)

subsection \<open>Connection configurations\<close>

text \<open>\<open>IndexMap::insert\<close> keeps the position of a key that is already present.\<close>

fun index_map_insert :: "'k \<Rightarrow> 'v \<Rightarrow> ('k \<times> 'v) list \<Rightarrow> ('k \<times> 'v) list" where
  "index_map_insert k v [] = [(k, v)]"
| "index_map_insert k v ((k', v') # m) =
     (if k = k' then (k, v) # m else (k', v') # index_map_insert k v m)"

record connection_config =
  cfg_id :: connection_id
  cfg_name :: string
  cfg_driver :: driver_id
  cfg_environment :: environment
  cfg_privacy_tier :: privacy_tier
  cfg_params :: "(string \<times> string) list"
  cfg_secret_ref :: "string option"
  cfg_read_only :: bool

definition connection_config_new :: "connection_id \<Rightarrow> string \<Rightarrow> driver_id \<Rightarrow> connection_config" where
  "connection_config_new fresh name driver =
     \<lparr>cfg_id = fresh, cfg_name = name, cfg_driver = driver,
      cfg_environment = default_environment, cfg_privacy_tier = default_tier, cfg_params = [],
      cfg_secret_ref = None, cfg_read_only = False\<rparr>"

definition with_environment :: "environment \<Rightarrow> connection_config \<Rightarrow> connection_config" where
  "with_environment e c = c\<lparr>cfg_environment := e\<rparr>"

definition with_privacy_tier :: "privacy_tier \<Rightarrow> connection_config \<Rightarrow> connection_config" where
  "with_privacy_tier t c = c\<lparr>cfg_privacy_tier := t\<rparr>"

definition with_param :: "string \<Rightarrow> string \<Rightarrow> connection_config \<Rightarrow> connection_config" where
  "with_param k v c = c\<lparr>cfg_params := index_map_insert k v (cfg_params c)\<rparr>"

definition with_secret_ref :: "string \<Rightarrow> connection_config \<Rightarrow> connection_config" where
  "with_secret_ref s c = c\<lparr>cfg_secret_ref := Some s\<rparr>"

definition config_read_only :: "connection_config \<Rightarrow> connection_config" where
  "config_read_only c = c\<lparr>cfg_read_only := True\<rparr>"

definition config_is_production :: "connection_config \<Rightarrow> bool" where
  "config_is_production c = is_production (cfg_environment c)"

lemma map_of_index_map_insert: "map_of (index_map_insert k v m) = (map_of m)(k \<mapsto> v)"
  by (induction m) auto

lemma index_map_insert_keys:
  "map fst (index_map_insert k v m) = (if k \<in> set (map fst m) then map fst m else map fst m @ [k])"
  by (induction m) (auto simp del: set_map)

subsection \<open>Capabilities\<close>

text \<open>
  \<open>Capabilities\<close> is a \<open>u64\<close> of flags. The table gives each flag's name and bit, in the order of
  the declaration, which is the order \<open>iter_names\<close> yields them in.
\<close>

type_synonym capabilities = u64

definition flag :: "nat \<Rightarrow> capabilities" where
  "flag n = push_bit n 1"

definition capability_names :: "(string \<times> nat) list" where
  "capability_names =
    [(''SCHEMAS'', 0), (''TABLES'', 1), (''VIEWS'', 2), (''MATERIALIZED_VIEWS'', 3),
     (''INDEXES'', 4), (''CONSTRAINTS'', 5), (''FOREIGN_KEYS'', 6), (''ROUTINES'', 7),
     (''TRIGGERS'', 8), (''SEQUENCES'', 9), (''USER_TYPES'', 10), (''COMMENTS'', 11),
     (''PERMISSIONS'', 12), (''ROW_COUNT_ESTIMATE'', 13), (''INCOMING_FOREIGN_KEYS'', 14),
     (''OBJECT_DEFINITION'', 15), (''TRANSACTIONS'', 16), (''SAVEPOINTS'', 17),
     (''PREPARED_STATEMENTS'', 18), (''NAMED_CURSORS'', 19), (''MULTIPLE_STATEMENTS'', 20),
     (''SERVER_SIDE_CANCEL'', 21), (''STREAMING'', 22), (''AFFECTED_ROWS'', 23), (''EXPLAIN'', 24),
     (''EXPLAIN_ANALYZE'', 25), (''DDL'', 26), (''DML'', 27), (''GRANT_REVOKE'', 28),
     (''BULK_LOAD'', 29), (''READ_ONLY_SESSION'', 30), (''SESSION_CONTEXT'', 31),
     (''PREVIEW_SORT'', 42), (''PREVIEW_FILTER'', 43), (''TRUNCATE'', 44),
     (''TRANSACTIONAL_DDL'', 45), (''RESTRICT_DEPENDENTS'', 46),
     (''SQL'', 32), (''CYPHER'', 33), (''GREMLIN'', 34), (''MONGO_QUERY'', 35),
     (''REDIS_COMMAND'', 36), (''SEARCH_DSL'', 37), (''CQL'', 38), (''PARTIQL'', 39),
     (''INFLUXQL'', 40), (''FLUX'', 41),
     (''RELATIONAL'', 48), (''DOCUMENT'', 49), (''KEY_VALUE'', 50), (''GRAPH'', 51),
     (''TIME_SERIES'', 52), (''SCHEMALESS'', 53), (''INFERRED_SCHEMA'', 54),
     (''VECTOR_SEARCH'', 55), (''FULL_TEXT_SEARCH'', 56)]"

definition TRANSACTIONS :: capabilities where
  "TRANSACTIONS = flag 16"

definition PREVIEW_SORT :: capabilities where
  "PREVIEW_SORT = flag 42"

definition PREVIEW_FILTER :: capabilities where
  "PREVIEW_FILTER = flag 43"

definition SERVER_SIDE_CANCEL :: capabilities where
  "SERVER_SIDE_CANCEL = flag 21"

definition READ_ONLY_SESSION :: capabilities where
  "READ_ONLY_SESSION = flag 30"

definition SESSION_CONTEXT :: capabilities where
  "SESSION_CONTEXT = flag 31"

definition caps_all :: capabilities where
  "caps_all = fold (\<lambda>(_, n) w. w OR flag n) capability_names 0"

definition caps_contains :: "capabilities \<Rightarrow> capabilities \<Rightarrow> bool" where
  "caps_contains c d \<longleftrightarrow> c AND d = d"

definition caps_difference :: "capabilities \<Rightarrow> capabilities \<Rightarrow> capabilities" where
  "caps_difference c d = c AND NOT d"

definition LANGUAGES :: capabilities where
  "LANGUAGES = flag 32 OR flag 33 OR flag 34 OR flag 35 OR flag 36 OR flag 37 OR flag 38
     OR flag 39 OR flag 40 OR flag 41"

fun for_language :: "query_language \<Rightarrow> capabilities" where
  "for_language (Sql _) = flag 32"
| "for_language Cypher = flag 33"
| "for_language Gremlin = flag 34"
| "for_language MongoQuery = flag 35"
| "for_language RedisCommand = flag 36"
| "for_language SearchDsl = flag 37"
| "for_language Cql = flag 38"
| "for_language PartiQl = flag 39"
| "for_language InfluxQl = flag 40"
| "for_language Flux = flag 41"

fun hex_digits :: "nat \<Rightarrow> string" where
  "hex_digits n =
     (let d = char_of (if n mod 16 < 10 then 48 + n mod 16 else 87 + n mod 16)
      in if n < 16 then [d] else hex_digits (n div 16) @ [d])"

declare hex_digits.simps [simp del]

fun join :: "string \<Rightarrow> string list \<Rightarrow> string" where
  "join sep [] = []"
| "join sep [x] = x"
| "join sep (x # y # xs) = x @ sep @ join sep (y # xs)"

definition caps_display :: "capabilities \<Rightarrow> string" where
  "caps_display c =
     (if c = 0 then ''(none)''
      else let named = map fst (filter (\<lambda>(_, n). caps_contains c (flag n)) capability_names);
               unknown = caps_difference c (caps_all AND c)
           in join '' | '' (named @ (if unknown = 0 then []
                                    else [''(unknown: 0x'' @ hex_digits (unat unknown) @ '')''])))"

definition caps_require :: "capabilities \<Rightarrow> capabilities \<Rightarrow> unit result" where
  "caps_require c cap =
     (let missing = caps_difference cap c
      in if missing = 0 then Inr () else Inl (ENotSupported (caps_display missing)))"

definition supports_language :: "capabilities \<Rightarrow> query_language \<Rightarrow> bool" where
  "supports_language c l = caps_contains c (for_language l)"

definition require_language :: "capabilities \<Rightarrow> query_language \<Rightarrow> unit result" where
  "require_language c l = caps_require c (for_language l)"

lemma caps_difference_eq_0_iff: "caps_difference d c = 0 \<longleftrightarrow> caps_contains c d"
proof -
  have test_len: "n < 64" if "bit d n" for n
    using bit_imp_le_length [OF that] by simp
  have "(d AND NOT c = 0) \<longleftrightarrow> (\<forall>n. bit d n \<longrightarrow> bit c n)"
    using test_len by (auto simp: bit_eq_iff bit_and_iff bit_not_iff)
  moreover have "(c AND d = d) \<longleftrightarrow> (\<forall>n. bit d n \<longrightarrow> bit c n)"
    using test_len by (auto simp: bit_eq_iff bit_and_iff)
  ultimately show ?thesis by (simp add: caps_difference_def caps_contains_def)
qed

lemma caps_require_ok_iff: "caps_require c cap = Inr () \<longleftrightarrow> caps_contains c cap"
  by (simp add: caps_require_def Let_def caps_difference_eq_0_iff)

lemma caps_require_error:
  "\<not> caps_contains c cap \<Longrightarrow>
   caps_require c cap = Inl (ENotSupported (caps_display (caps_difference cap c)))"
  by (simp add: caps_require_def Let_def caps_difference_eq_0_iff)

lemma require_language_ok_iff: "require_language c l = Inr () \<longleftrightarrow> supports_language c l"
  by (simp add: require_language_def supports_language_def caps_require_ok_iff)

lemma caps_contains_refl [simp]: "caps_contains c c"
  by (simp add: caps_contains_def)

subsection \<open>Statistics and the transaction state\<close>

record exec_stats =
  stat_rows :: u64
  stat_bytes :: u64
  server_time :: "duration option"
  total_time :: duration
  stat_batches :: u64
  truncated :: bool

definition default_stats :: exec_stats where
  "default_stats = \<lparr>stat_rows = 0, stat_bytes = 0, server_time = None, total_time = 0,
                    stat_batches = 0, truncated = False\<rparr>"

record exec_timings =
  t_prepare :: duration
  t_start :: duration
  t_stream :: duration
  t_cleanup :: duration
  t_total :: duration

definition record_batch :: "u64 \<Rightarrow> u64 \<Rightarrow> exec_stats \<Rightarrow> exec_stats" where
  "record_batch rows bytes s =
     s\<lparr>stat_rows := sat_add (stat_rows s) rows, stat_bytes := sat_add (stat_bytes s) bytes,
       stat_batches := sat_add (stat_batches s) 1\<rparr>"

definition mark_truncated :: "exec_stats \<Rightarrow> exec_stats" where
  "mark_truncated s = s\<lparr>truncated := True\<rparr>"

definition client_time :: "exec_stats \<Rightarrow> duration option" where
  "client_time s = (case server_time s of None \<Rightarrow> None
     | Some server \<Rightarrow> if server \<le> total_time s then Some (total_time s - server) else None)"

definition stats_is_empty :: "exec_stats \<Rightarrow> bool" where
  "stats_is_empty s \<longleftrightarrow> stat_rows s = 0"

datatype transaction_state = TxIdle | TxOpen | TxUnknown

text \<open>The counters never wrap: recording batches adds them up to the width's maximum.\<close>

lemma stat_rows_fold_record_batch:
  "unat (stat_rows (fold (\<lambda>(r, b). record_batch r b) bs s))
     = min (unat (stat_rows s) + sum_list (map (unat \<circ> fst) bs)) (2 ^ 64 - 1)"
proof (induction bs arbitrary: s)
  case Nil
  have "unat (stat_rows s) < 2 ^ 64" using unsigned_less [of "stat_rows s"] by simp
  then show ?case by simp
next
  case (Cons rb bs)
  then show ?case
    by (cases rb) (simp add: record_batch_def unat_sat_add)
qed

lemma stats_is_empty_fold_record_batch:
  "stats_is_empty (fold (\<lambda>(r, b). record_batch r b) bs default_stats)
     \<longleftrightarrow> (\<forall>(r, b) \<in> set bs. r = 0)"
proof -
  let ?t = "fold (\<lambda>(r, b). record_batch r b) bs default_stats"
  have "unat (stat_rows ?t) = 0 \<longleftrightarrow> sum_list (map (unat \<circ> fst) bs) = 0"
    by (simp only: stat_rows_fold_record_batch) (simp add: default_stats_def min_def del: sum_list_eq_0_iff)
  then show ?thesis
    by (auto simp: stats_is_empty_def unat_eq_0 simp flip: unat_eq_0)
qed

end
