(* ===== verification/Float64.thy ===== *)
theory Float64
  imports Complex_Main Oxyn_Prelude
begin

text \<open>
  Rust's \<open>f64\<close> as the code uses it: parsed from a decimal text, compared and negated. A value
  is the rational it stands for, an infinity (\<open>Infinite negative\<close>) or NaN; the sign of zero is
  not kept, since no operation here observes it. A parsed number is the nearest value of 53
  bits of mantissa, ties to even, as \<open>str::parse\<close> rounds it.
\<close>

datatype f64 = Finite rat | Infinite bool | NotANumber

datatype cmp_ordering = CmpLess | CmpEqual | CmpGreater

fun f64_negate :: "f64 \<Rightarrow> f64" where
  "f64_negate (Finite q) = Finite (- q)"
| "f64_negate (Infinite negative) = Infinite (\<not> negative)"
| "f64_negate NotANumber = NotANumber"

definition cmp_of :: "'a::linorder \<Rightarrow> 'a \<Rightarrow> cmp_ordering" where
  "cmp_of a b = (if a < b then CmpLess else if a = b then CmpEqual else CmpGreater)"

text \<open>\<open>f64::partial_cmp\<close>.\<close>

fun f64_compare :: "f64 \<Rightarrow> f64 \<Rightarrow> cmp_ordering option" where
  "f64_compare NotANumber _ = None"
| "f64_compare _ NotANumber = None"
| "f64_compare (Finite a) (Finite b) = Some (cmp_of a b)"
| "f64_compare (Infinite n) (Infinite m) = Some (if n = m then CmpEqual else if n then CmpLess else CmpGreater)"
| "f64_compare (Infinite n) (Finite _) = Some (if n then CmpLess else CmpGreater)"
| "f64_compare (Finite _) (Infinite n) = Some (if n then CmpGreater else CmpLess)"

lemma f64_compare_self: "f64_compare x x = (if x = NotANumber then None else Some CmpEqual)"
  by (cases x) (simp_all add: cmp_of_def)

subsection \<open>Rounding\<close>

text \<open>The number of binary digits of an integer.\<close>

function bit_length :: "int \<Rightarrow> int" where
  "bit_length n = (if n \<le> 0 then 0 else 1 + bit_length (n div 2))"
  by pat_completeness auto
termination
  by (relation "measure nat") auto

declare bit_length.simps [simp del]

definition shift :: "int \<Rightarrow> int \<Rightarrow> int" where
  "shift n k = (if 0 \<le> k then n * 2 ^ nat k else n)"

text \<open>The binary exponent of \<open>a / b\<close>: \<open>2 ^ k \<le> a / b < 2 ^ (k + 1)\<close>.\<close>

definition binary_exponent :: "int \<Rightarrow> int \<Rightarrow> int" where
  "binary_exponent a b =
     (let k = bit_length a - bit_length b in if shift a (- k) < shift b k then k - 1 else k)"

definition divide_half_even :: "int \<Rightarrow> int \<Rightarrow> int" where
  "divide_half_even a b =
     (let q = a div b; r = 2 * (a mod b) in if r < b \<or> (r = b \<and> even q) then q else q + 1)"

definition round_f64 :: "int \<Rightarrow> int \<Rightarrow> f64" where
  "round_f64 a b =
     (if a = 0 then Finite 0
      else (let ulp = max (binary_exponent a b - 52) (- 1074);
                m = divide_half_even (shift a (- ulp)) (shift b ulp)
            in if 1024 < bit_length m + ulp then Infinite False
               else Finite (of_int (shift m ulp) / of_int (shift 1 (- ulp)))))"

subsection \<open>Parsing\<close>

definition digits_value :: "string \<Rightarrow> int" where
  "digits_value ds = foldl (\<lambda>n c. 10 * n + int (byte c - 48)) 0 ds"

text \<open>A sign, then digits to the end: the exponent.\<close>

definition parse_exponent :: "string \<Rightarrow> int option" where
  "parse_exponent s =
     (let (negative, ds) = (case s of
            c # rest \<Rightarrow> if c = CHR ''-'' then (True, rest) else if c = CHR ''+'' then (False, rest)
                        else (False, s)
          | [] \<Rightarrow> (False, []))
      in if ds = [] \<or> \<not> list_all is_ascii_digit ds then None
         else Some (if negative then - digits_value ds else digits_value ds))"

definition parse_unsigned :: "string \<Rightarrow> f64 option" where
  "parse_unsigned s =
     (let whole = takeWhile is_ascii_digit s; after = drop (length whole) s;
          fraction = (if starts_with after ''.'' then takeWhile is_ascii_digit (tl after) else []);
          rest = (if starts_with after ''.'' then drop (length fraction) (tl after) else after);
          scaled = (\<lambda>e. let p = e - int (length fraction); m = digits_value (whole @ fraction)
                       in if 0 \<le> p then round_f64 (m * 10 ^ nat p) 1 else round_f64 m (10 ^ nat (- p)))
      in if whole = [] \<and> fraction = [] then None
         else (case rest of
            [] \<Rightarrow> Some (scaled 0)
          | c # ex \<Rightarrow> if c = CHR ''e'' \<or> c = CHR ''E'' then map_option scaled (parse_exponent ex)
                         else None))"

text \<open>\<open>str::parse::<f64>\<close>.\<close>

definition parse_f64 :: "string \<Rightarrow> f64 option" where
  "parse_f64 s =
     (let (negative, body) = (case s of
            c # rest \<Rightarrow> if c = CHR ''-'' then (True, rest) else if c = CHR ''+'' then (False, rest)
                        else (False, s)
          | [] \<Rightarrow> (False, []));
          value_of = (if eq_ignore_case body ''inf'' \<or> eq_ignore_case body ''infinity''
                      then Some (Infinite False)
                      else if eq_ignore_case body ''nan'' then Some NotANumber
                      else parse_unsigned body)
      in map_option (if negative then f64_negate else id) value_of)"

end
