(* ===== verification/Local_Requests.thy ===== *)
theory Local_Requests
  imports Connection_Types Float64
begin

text \<open>
  The payloads of the commands that stay on the machine and of the preview: \<open>library.rs\<close>,
  \<open>preferences.rs\<close>, \<open>window_layout.rs\<close>, \<open>preview.rs\<close> and the declarations of \<open>ai.rs\<close>, with the
  checks that run before any of them is stored.
\<close>

type_synonym u16 = "16 word"
type_synonym u32 = "32 word"
type_synonym i64 = "64 word"

text \<open>\<open>i64::try_from\<close> of a \<open>u64\<close> succeeds below \<open>2 ^ 63\<close>.\<close>

definition fits_i64 :: "u64 \<Rightarrow> bool" where
  "fits_i64 n \<longleftrightarrow> unat n < 2 ^ 63"

subsection \<open>Declared providers\<close>

datatype ai_provider_kind = Anthropic | OpenAi | Gemini | OpenAiCompatible

fun provider_kind_as_str :: "ai_provider_kind \<Rightarrow> string" where
  "provider_kind_as_str Anthropic = ''anthropic''"
| "provider_kind_as_str OpenAi = ''openai''"
| "provider_kind_as_str Gemini = ''gemini''"
| "provider_kind_as_str OpenAiCompatible = ''openai_compatible''"

definition provider_kind_from_str :: "string \<Rightarrow> id_parse_error + ai_provider_kind" where
  "provider_kind_from_str s =
     (if s = ''anthropic'' then Inr Anthropic
      else if s = ''openai'' then Inr OpenAi
      else if s = ''gemini'' then Inr Gemini
      else if s = ''openai_compatible'' then Inr OpenAiCompatible
      else Inl \<lparr>ipe_kind = ''AiProviderKind'',
                ipe_detail = ''expected: anthropic, openai, gemini or openai_compatible''\<rparr>)"

lemma provider_kind_roundtrip: "provider_kind_from_str (provider_kind_as_str k) = Inr k"
  by (cases k) (simp_all add: provider_kind_from_str_def)

record provenance =
  prov_agent :: agent_id
  prov_session :: agent_session_id
  prov_kind :: ai_provider_kind
  prov_model :: string
  prov_at :: instant

record ai_provider_config =
  prov_cfg_id :: provider_id
  prov_cfg_kind :: ai_provider_kind
  prov_cfg_label :: string
  prov_cfg_base_url :: string
  prov_cfg_model :: string
  prov_cfg_secret_ref :: "string option"
  prov_cfg_created_at :: instant
  prov_cfg_updated_at :: instant

record external_agent_config =
  agent_cfg_id :: provider_id
  agent_cfg_label :: string
  agent_cfg_command :: string
  agent_cfg_args :: "string list"
  agent_cfg_env :: "(string \<times> string) list"
  agent_cfg_env_secret_refs :: "(string \<times> string) list"
  agent_cfg_created_at :: instant
  agent_cfg_updated_at :: instant

subsection \<open>Query documents and history\<close>

definition max_query_document_bytes :: nat where
  "max_query_document_bytes = 1024 * 1024"

record query_document_update =
  doc_id :: document_id
  doc_revision :: u64
  doc_expected_revision :: "u64 option"
  doc_title :: string
  doc_language :: query_language
  doc_text :: string
  doc_connection :: "connection_id option"
  doc_save_named :: bool
  doc_is_open :: bool
  doc_provenance :: "provenance option"

definition document_validate :: "query_document_update \<Rightarrow> unit result" where
  "document_validate u =
     (if doc_revision u = 0 \<or> \<not> fits_i64 (doc_revision u)
         \<or> (case doc_expected_revision u of None \<Rightarrow> False
            | Some expected \<Rightarrow> \<not> fits_i64 expected \<or> doc_revision u \<le> expected)
      then Inl (EConfig ''document revision must be a positive storage integer'')
      else if (doc_save_named u \<and> trim (doc_title u) = []) \<or> length (doc_title u) > 256
      then Inl (EConfig ''document title must fit 256 UTF-8 bytes; a named save requires a nonempty title'')
      else if length (doc_text u) > max_query_document_bytes
      then Inl (EConfig ''query text exceeds the 1 MiB editor limit'')
      else Inr ())"

record document_filter =
  df_saved_only :: bool
  df_open_only :: bool
  df_search :: string
  df_before :: "document_id option"
  df_limit :: u16

definition default_document_filter :: document_filter where
  "default_document_filter = \<lparr>df_saved_only = True, df_open_only = False, df_search = [],
                              df_before = None, df_limit = 100\<rparr>"

definition validate_page :: "u16 \<Rightarrow> string \<Rightarrow> unit result" where
  "validate_page limit search =
     (if \<not> (1 \<le> limit \<and> limit \<le> 200) \<or> length search > 1024
      then Inl (EConfig ''local list limit must be 1..=200 and search at most 1024 bytes'')
      else Inr ())"

definition document_filter_validate :: "document_filter \<Rightarrow> unit result" where
  "document_filter_validate f = validate_page (df_limit f) (df_search f)"

datatype history_status_filter = HAll | HRunning | HSucceeded | HFailed | HCancelled | HDenied
  | HAmbiguous

fun history_status_as_str :: "history_status_filter \<Rightarrow> string" where
  "history_status_as_str HAll = []"
| "history_status_as_str HRunning = ''running''"
| "history_status_as_str HSucceeded = ''succeeded''"
| "history_status_as_str HFailed = ''failed''"
| "history_status_as_str HCancelled = ''cancelled''"
| "history_status_as_str HDenied = ''denied''"
| "history_status_as_str HAmbiguous = ''ambiguous''"

record history_filter =
  hf_results_only :: bool
  hf_connection :: "connection_id option"
  hf_search :: string
  hf_days :: "u16 option"
  hf_status :: history_status_filter
  hf_before :: "i64 option"
  hf_limit :: u16

definition default_history_filter :: history_filter where
  "default_history_filter =
     \<lparr>hf_results_only = False, hf_connection = None, hf_search = [], hf_days = Some 7,
      hf_status = HAll, hf_before = None, hf_limit = 100\<rparr>"

definition history_filter_validate :: "history_filter \<Rightarrow> unit result" where
  "history_filter_validate f =
     (case validate_page (hf_limit f) (hf_search f) of Inl e \<Rightarrow> Inl e
      | Inr _ \<Rightarrow>
        if (case hf_days f of None \<Rightarrow> False | Some days \<Rightarrow> days = 0 \<or> 3650 < days)
           \<or> (case hf_before f of None \<Rightarrow> False | Some entry \<Rightarrow> sint entry \<le> 0)
        then Inl (EConfig ''invalid history date range or cursor'')
        else Inr ())"

record history_connection_filter =
  hcf_before :: "i64 option"
  hcf_limit :: u16

definition history_connection_filter_validate :: "history_connection_filter \<Rightarrow> unit result" where
  "history_connection_filter_validate f =
     (case validate_page (hcf_limit f) [] of Inl e \<Rightarrow> Inl e
      | Inr _ \<Rightarrow>
        if (case hcf_before f of None \<Rightarrow> False | Some entry \<Rightarrow> sint entry \<le> 0)
        then Inl (EConfig ''invalid history cursor'')
        else Inr ())"

lemma validate_page_ok_iff:
  "validate_page limit search = Inr () \<longleftrightarrow> 1 \<le> limit \<and> limit \<le> 200 \<and> length search \<le> 1024"
  by (auto simp: validate_page_def)

text \<open>An accepted document update fits the store: its revision is a positive \<open>i64\<close>, above the
  revision it expects, and both texts are bounded.\<close>

lemma document_validate_ok_iff:
  "document_validate u = Inr () \<longleftrightarrow>
     0 < unat (doc_revision u) \<and> unat (doc_revision u) < 2 ^ 63
     \<and> (\<forall>e. doc_expected_revision u = Some e \<longrightarrow> unat e < unat (doc_revision u))
     \<and> (doc_save_named u \<longrightarrow> trim (doc_title u) \<noteq> []) \<and> length (doc_title u) \<le> 256
     \<and> length (doc_text u) \<le> max_query_document_bytes"
proof (cases "doc_expected_revision u")
  case None
  then show ?thesis
    by (auto simp add: document_validate_def fits_i64_def unat_gt_0 not_less)
next
  case (Some e)
  then show ?thesis
    by (auto simp add: document_validate_def fits_i64_def word_le_nat_alt unat_gt_0 not_less)
qed

subsection \<open>Display preferences\<close>

datatype reading_density = Compact | Comfortable
datatype appearance = Dark | Light
datatype binary_preference = Base64 | BinarySize | Hex
datatype object_section = SectionData | Structure | Indexes | Constraints | Relations
  | IncomingRelations | SectionDefinition

record object_location =
  loc_connection :: connection_id
  loc_path :: string
  loc_section :: object_section

definition max_path_bytes :: nat where
  "max_path_bytes = 512"

definition object_location_new ::
  "connection_id \<Rightarrow> string \<Rightarrow> object_section \<Rightarrow> object_location option" where
  "object_location_new c path section =
     (if path = [] \<or> length path > max_path_bytes then None
      else Some \<lparr>loc_connection = c, loc_path = path, loc_section = section\<rparr>)"

record workspace_preferences =
  pref_version :: u32
  pref_appearance :: appearance
  pref_follow_system_appearance :: bool
  pref_reading_density :: reading_density
  pref_sidebar_collapsed :: bool
  pref_inspector_open :: bool
  pref_inspector_width :: u16
  pref_null_text :: string
  pref_group_thousands :: bool
  pref_binary_display :: binary_preference
  pref_cell_max_chars :: u32
  pref_object_location :: "object_location option"
  pref_semantic_ranking :: bool

text \<open>The default label for absent values starts with U+2205, three bytes in UTF-8.\<close>

definition default_preferences :: workspace_preferences where
  "default_preferences =
     \<lparr>pref_version = 1, pref_appearance = Dark, pref_follow_system_appearance = False,
      pref_reading_density = Compact, pref_sidebar_collapsed = False, pref_inspector_open = True,
      pref_inspector_width = 280,
      pref_null_text = [CHR 0xE2, CHR 0x88, CHR 0x85] @ '' NULL'',
      pref_group_thousands = False, pref_binary_display = Hex, pref_cell_max_chars = 512,
      pref_object_location = None, pref_semantic_ranking = False\<rparr>"

definition bad_location :: "object_location option \<Rightarrow> bool" where
  "bad_location l \<longleftrightarrow> (case l of None \<Rightarrow> False
     | Some location \<Rightarrow> loc_path location = [] \<or> length (loc_path location) > max_path_bytes)"

definition preferences_validate :: "workspace_preferences \<Rightarrow> unit result" where
  "preferences_validate p =
     (if pref_version p \<noteq> 1 then Inl (EConfig ''unsupported preference payload version'')
      else if \<not> (240 \<le> pref_inspector_width p \<and> pref_inspector_width p \<le> 480)
      then Inl (EConfig ''inspector width must be between 240 and 480 pixels'')
      else if \<not> (64 \<le> pref_cell_max_chars p \<and> pref_cell_max_chars p \<le> 16384)
      then Inl (EConfig ''cell truncation length must be between 64 and 16384 characters'')
      else if length (pref_null_text p) > 64
      then Inl (EConfig ''null display label must not exceed 64 UTF-8 bytes'')
      else if bad_location (pref_object_location p)
      then Inl (EConfig ''restored object path is empty or exceeds its byte budget'')
      else Inr ())"

record preferences_snapshot =
  snap_revision :: u64
  snap_preferences :: workspace_preferences

definition snapshot_validate :: "preferences_snapshot \<Rightarrow> unit result" where
  "snapshot_validate s =
     (if \<not> fits_i64 (snap_revision s)
      then Inl (EConfig ''preference revision exceeds the storage range'')
      else preferences_validate (snap_preferences s))"

lemma default_snapshot_valid:
  "snapshot_validate \<lparr>snap_revision = 0, snap_preferences = default_preferences\<rparr> = Inr ()"
  by (simp add: snapshot_validate_def fits_i64_def preferences_validate_def default_preferences_def
      bad_location_def)

lemma object_location_new_not_bad:
  "object_location_new c path section = Some l \<Longrightarrow> \<not> bad_location (Some l)"
  by (auto simp: object_location_new_def bad_location_def split: if_splits)

subsection \<open>Window layouts\<close>

fun f64_extent :: "f64 \<Rightarrow> bool" where
  "f64_extent (Finite q) \<longleftrightarrow> \<bar>q\<bar> \<le> 100000"
| "f64_extent _ \<longleftrightarrow> False"

text \<open>\<open>value <= 0.0\<close>: false on a NaN.\<close>

fun f64_le_zero :: "f64 \<Rightarrow> bool" where
  "f64_le_zero (Finite q) \<longleftrightarrow> q \<le> 0"
| "f64_le_zero (Infinite negative) \<longleftrightarrow> negative"
| "f64_le_zero NotANumber \<longleftrightarrow> False"

record window_geometry =
  geo_x :: "f64 option"
  geo_y :: "f64 option"
  geo_width :: f64
  geo_height :: f64
  geo_maximized :: bool

record window_layout =
  win_window :: window_id
  win_ordinal :: u32
  win_geometry :: window_geometry
  win_object_location :: "object_location option"
  win_active_document :: "document_id option"
  win_consoles :: "document_id list"

definition max_windows :: nat where
  "max_windows = 16"

definition max_consoles :: nat where
  "max_consoles = 256"

text \<open>\<open>HashSet::insert\<close> answers whether the value was new; \<open>all\<close> stops at the first that was not.\<close>

fun all_new :: "'a list \<Rightarrow> 'a list \<Rightarrow> bool" where
  "all_new seen [] \<longleftrightarrow> True"
| "all_new seen (x # xs) \<longleftrightarrow> x \<notin> set seen \<and> all_new (x # seen) xs"

definition layout_validate :: "window_layout \<Rightarrow> unit result" where
  "layout_validate w =
     (let g = win_geometry w in
      if \<not> (f64_extent (geo_width g) \<and> f64_extent (geo_height g))
         \<or> f64_le_zero (geo_width g) \<or> f64_le_zero (geo_height g)
      then Inl (EConfig ''a window's size must be a finite positive number of pixels'')
      else if \<not> pred_option f64_extent (geo_x g) \<or> \<not> pred_option f64_extent (geo_y g)
      then Inl (EConfig ''a window's position must be a finite number of pixels'')
      else if length (win_consoles w) > max_consoles
      then Inl (EConfig ''a window keeps at most 256 consoles'')
      else if \<not> all_new [] (win_consoles w)
      then Inl (EConfig ''a console appears twice in one window'')
      else if (case win_active_document w of None \<Rightarrow> False
               | Some active \<Rightarrow> active \<notin> set (win_consoles w))
      then Inl (EConfig ''the active console is not one of the window's'')
      else if bad_location (win_object_location w)
      then Inl (EConfig ''restored object path is empty or exceeds its byte budget'')
      else Inr ())"

datatype window_layout_change = SaveLayout window_layout | RemoveLayout window_id

lemma all_new_iff: "all_new seen xs \<longleftrightarrow> distinct xs \<and> set xs \<inter> set seen = {}"
  by (induction xs arbitrary: seen) auto

lemma layout_validate_ok:
  assumes "layout_validate w = Inr ()"
  shows "distinct (win_consoles w)" "length (win_consoles w) \<le> max_consoles"
    "\<And>d. win_active_document w = Some d \<Longrightarrow> d \<in> set (win_consoles w)"
  using assms
  by (auto simp: layout_validate_def Let_def all_new_iff split: if_splits option.splits)

subsection \<open>Previews\<close>

record preview_sort =
  ps_column :: string
  ps_descending :: bool

record preview_shape =
  sh_sort :: "preview_sort list"
  sh_predicate :: "string option"
  sh_offset :: u64
  sh_columns :: "string list option"

definition unordered :: preview_shape where
  "unordered = \<lparr>sh_sort = [], sh_predicate = None, sh_offset = 0, sh_columns = None\<rparr>"

definition max_projected_columns :: nat where
  "max_projected_columns = 1024"

definition shape_predicate :: "preview_shape \<Rightarrow> string option" where
  "shape_predicate s = (case sh_predicate s of None \<Rightarrow> None
     | Some p \<Rightarrow> if trim p = [] then None else Some (trim p))"

definition needs_total_order :: "preview_shape \<Rightarrow> bool" where
  "needs_total_order s \<longleftrightarrow> sh_sort s \<noteq> [] \<or> sh_offset s > 0"

definition is_plain :: "preview_shape \<Rightarrow> bool" where
  "is_plain s \<longleftrightarrow> sh_sort s = [] \<and> shape_predicate s = None \<and> sh_offset s = 0"

text \<open>\<open>filter(|name| seen.insert(name))\<close>: each name once, in the order of first mention.\<close>

fun first_mentions :: "'a list \<Rightarrow> 'a list \<Rightarrow> 'a list" where
  "first_mentions seen [] = []"
| "first_mentions seen (x # xs) =
     (if x \<in> set seen then first_mentions seen xs else x # first_mentions (x # seen) xs)"

definition projection :: "preview_shape \<Rightarrow> string list option result" where
  "projection s = (case sh_columns s of None \<Rightarrow> Inr None
     | Some columns \<Rightarrow>
       if columns = [] then Inl (EConfig ''a preview projection must name at least one column'')
       else if length columns > max_projected_columns
       then Inl (EConfig ''a preview projection names at most 1024 columns'')
       else Inr (Some (first_mentions [] columns)))"

lemma set_first_mentions: "set (first_mentions seen xs) = set xs - set seen"
  by (induction xs arbitrary: seen) auto

lemma distinct_first_mentions: "distinct (first_mentions seen xs)"
  by (induction xs arbitrary: seen) (auto simp: set_first_mentions)

lemma length_first_mentions_le: "length (first_mentions seen xs) \<le> length xs"
  by (induction xs arbitrary: seen) (auto intro: le_SucI)

lemma projection_some:
  assumes "projection s = Inr (Some names)"
  obtains columns where "sh_columns s = Some columns" "set names = set columns" "distinct names"
    "names \<noteq> []" "length names \<le> max_projected_columns"
proof -
  from assms obtain columns where c: "sh_columns s = Some columns" "columns \<noteq> []"
    "length columns \<le> max_projected_columns" "names = first_mentions [] columns"
    by (auto simp: projection_def split: option.splits if_splits)
  have sets: "set names = set columns"
    unfolding c(4) by (simp add: set_first_mentions)
  show ?thesis
  proof
    show "sh_columns s = Some columns" "set names = set columns" by fact+
    show "distinct names" unfolding c(4) by (rule distinct_first_mentions)
    show "names \<noteq> []" using sets c(2) by auto
    show "length names \<le> max_projected_columns"
      using length_first_mentions_le [of "[]" columns] c(3,4) by simp
  qed
qed

text \<open>A projection never widens to all columns, and an accepted one is never empty.\<close>

lemma projection_all_iff: "projection s = Inr None \<longleftrightarrow> sh_columns s = None"
  by (auto simp: projection_def split: option.splits)

end
