(* ===== verification/Command_Bus.thy ===== *)
theory Command_Bus
  imports Local_Requests
begin

text \<open>
  The commands of \<open>crates/oxyn-core/src/command.rs\<close>: who asks (\<open>Actor\<close>), what is asked
  (\<open>Command\<close>), and what the policy and the executor read off a command. The constructors are the
  source's, their arguments in the order of the source's fields; \<open>Box\<close> leaves no trace.
\<close>

subsection \<open>Actors, formats, scopes\<close>

datatype actor = Human | Agent agent_id agent_session_id

fun is_agent :: "actor \<Rightarrow> bool" where
  "is_agent (Agent _ _) = True"
| "is_agent Human = False"

fun is_human :: "actor \<Rightarrow> bool" where
  "is_human Human = True"
| "is_human (Agent _ _) = False"

fun actor_display :: "actor \<Rightarrow> string" where
  "actor_display Human = ''human''"
| "actor_display (Agent _ _) = ''agent''"

lemma is_human_iff_not_agent: "is_human a \<longleftrightarrow> \<not> is_agent a"
  by (cases a) auto

lemma is_agentE:
  assumes "is_agent a"
  obtains i s where "a = Agent i s"
  using assms by (cases a) auto

datatype export_format = Csv | Tsv | Json | JsonLines | Parquet | ArrowIpc | SqlInserts | Markdown

fun extension :: "export_format \<Rightarrow> string" where
  "extension Csv = ''csv''"
| "extension Tsv = ''tsv''"
| "extension Json = ''json''"
| "extension JsonLines = ''jsonl''"
| "extension Parquet = ''parquet''"
| "extension ArrowIpc = ''arrow''"
| "extension SqlInserts = ''sql''"
| "extension Markdown = ''md''"

datatype catalog_refresh_scope =
    Root
  | Namespaces "string option"
  | ScopeRelations "string option" "string option"
  | Relation "string option" "string option" string
  | ScopeConstraints "string option" "string option" string
  | IncomingForeignKeys "string option" "string option" string
  | Definition "string option" "string option" string
  | ResolutionPath

definition max_catalog_focus_bytes :: nat where
  "max_catalog_focus_bytes = 256"

subsection \<open>Commands\<close>

datatype command =
    Connect connection_id
  | Disconnect connection_id
  | CloseSession connection_id session_id
  | SetSessionContext connection_id session_id "string option" "string option"
  | Execute connection_id session_id exec_request
  | PreviewRelation connection_id session_id "string option" "string option" string u32 preview_shape
  | Cancel connection_id statement_handle
  | RefreshCatalog connection_id
  | DescribeCatalog connection_id "string option"
  | RefreshCatalogScope connection_id catalog_refresh_scope
  | InspectResultValue connection_id result_id nat nat nat
  | ReadResultPage connection_id result_id nat
  | Export connection_id result_id export_format string
  | ReadWorkspacePreferences workspace_id
  | WriteWorkspacePreferences workspace_id preferences_snapshot
  | WriteWindowLayout workspace_id window_layout_change
  | ListQueryDocuments workspace_id document_filter
  | SaveQueryDocument workspace_id query_document_update
  | CloseQueryDocument "u64 option" workspace_id document_id u64 bool
  | DeleteQueryDocument workspace_id document_id u64
  | ReadHistory history_filter
  | ReadHistoryEntry i64
  | ReconcileHistoryEntry i64
  | ListHistoryConnections workspace_id history_connection_filter
  | OpenRetainedResult connection_id result_id
  | OpenDocument workspace_id document_id
  | WriteDocument workspace_id document_id string
  | CreateConnection connection_config
  | TestConnection connection_config
  | UpdateConnection connection_config
  | DeleteConnection connection_id
  | ListAiProviders
  | SaveAiProvider ai_provider_config
  | ListExternalAgents
  | SaveExternalAgent external_agent_config
  | RemoveExternalAgent provider_id
  | RemoveAiProvider provider_id

fun intent :: "command \<Rightarrow> statement_intent" where
  "intent (Execute _ _ request) = req_intent request"
| "intent (CreateConnection _) = Ddl"
| "intent (UpdateConnection _) = Ddl"
| "intent (DeleteConnection _) = Ddl"
| "intent _ = Read"

fun target_connection :: "command \<Rightarrow> connection_id option" where
  "target_connection (ReadHistory filt) = hf_connection filt"
| "target_connection (Connect c) = Some c"
| "target_connection (Disconnect c) = Some c"
| "target_connection (CloseSession c _) = Some c"
| "target_connection (SetSessionContext c _ _ _) = Some c"
| "target_connection (Execute c _ _) = Some c"
| "target_connection (Cancel c _) = Some c"
| "target_connection (RefreshCatalog c) = Some c"
| "target_connection (DescribeCatalog c _) = Some c"
| "target_connection (RefreshCatalogScope c _) = Some c"
| "target_connection (PreviewRelation c _ _ _ _ _ _) = Some c"
| "target_connection (ReadResultPage c _ _) = Some c"
| "target_connection (OpenRetainedResult c _) = Some c"
| "target_connection (InspectResultValue c _ _ _ _) = Some c"
| "target_connection (Export c _ _ _) = Some c"
| "target_connection (DeleteConnection c) = Some c"
| "target_connection (CreateConnection config) = Some (cfg_id config)"
| "target_connection (UpdateConnection config) = Some (cfg_id config)"
| "target_connection (TestConnection config) = Some (cfg_id config)"
| "target_connection _ = None"

fun mutation_risk_of :: "command \<Rightarrow> mutation_risk" where
  "mutation_risk_of (Execute _ _ request) = req_risk request"
| "mutation_risk_of _ = RiskNone"

fun controls_transaction :: "command \<Rightarrow> bool" where
  "controls_transaction (Execute _ _ request) = transaction_control request"
| "controls_transaction _ = False"

fun changes_context :: "command \<Rightarrow> bool" where
  "changes_context (Execute _ _ request) = context_change request"
| "changes_context _ = False"

fun touches_database :: "command \<Rightarrow> bool" where
  "touches_database (Connect _) = True"
| "touches_database (Disconnect _) = True"
| "touches_database (CloseSession _ _) = True"
| "touches_database (SetSessionContext _ _ _ _) = True"
| "touches_database (Execute _ _ _) = True"
| "touches_database (Cancel _ _) = True"
| "touches_database (RefreshCatalog _) = True"
| "touches_database (RefreshCatalogScope _ _) = True"
| "touches_database (PreviewRelation _ _ _ _ _ _ _) = True"
| "touches_database (Export _ _ _ _) = True"
| "touches_database (TestConnection _) = True"
| "touches_database _ = False"

definition is_mutating :: "command \<Rightarrow> bool" where
  "is_mutating cmd \<longleftrightarrow> intent_is_mutating (intent cmd) \<or> risk_is_some (mutation_risk_of cmd)"

fun command_name :: "command \<Rightarrow> string" where
  "command_name (Connect _) = ''Connect''"
| "command_name (Disconnect _) = ''Disconnect''"
| "command_name (CloseSession _ _) = ''CloseSession''"
| "command_name (SetSessionContext _ _ _ _) = ''SetSessionContext''"
| "command_name (Execute _ _ _) = ''Execute''"
| "command_name (PreviewRelation _ _ _ _ _ _ _) = ''PreviewRelation''"
| "command_name (ReadResultPage _ _ _) = ''ReadResultPage''"
| "command_name (InspectResultValue _ _ _ _ _) = ''InspectResultValue''"
| "command_name (Cancel _ _) = ''Cancel''"
| "command_name (RefreshCatalog _) = ''RefreshCatalog''"
| "command_name (DescribeCatalog _ _) = ''DescribeCatalog''"
| "command_name (RefreshCatalogScope _ _) = ''RefreshCatalogScope''"
| "command_name (Export _ _ _ _) = ''Export''"
| "command_name (OpenDocument _ _) = ''OpenDocument''"
| "command_name (ListQueryDocuments _ _) = ''ListQueryDocuments''"
| "command_name (SaveQueryDocument _ _) = ''SaveQueryDocument''"
| "command_name (CloseQueryDocument _ _ _ _ _) = ''CloseQueryDocument''"
| "command_name (DeleteQueryDocument _ _ _) = ''DeleteQueryDocument''"
| "command_name (ReadHistory _) = ''ReadHistory''"
| "command_name (ReadHistoryEntry _) = ''ReadHistoryEntry''"
| "command_name (ReconcileHistoryEntry _) = ''ReconcileHistoryEntry''"
| "command_name (ListHistoryConnections _ _) = ''ListHistoryConnections''"
| "command_name (OpenRetainedResult _ _) = ''OpenRetainedResult''"
| "command_name (ReadWorkspacePreferences _) = ''ReadWorkspacePreferences''"
| "command_name (WriteWorkspacePreferences _ _) = ''WriteWorkspacePreferences''"
| "command_name (WriteWindowLayout _ _) = ''WriteWindowLayout''"
| "command_name (WriteDocument _ _ _) = ''WriteDocument''"
| "command_name (CreateConnection _) = ''CreateConnection''"
| "command_name (TestConnection _) = ''TestConnection''"
| "command_name (UpdateConnection _) = ''UpdateConnection''"
| "command_name (DeleteConnection _) = ''DeleteConnection''"
| "command_name ListAiProviders = ''ListAiProviders''"
| "command_name (SaveAiProvider _) = ''SaveAiProvider''"
| "command_name (RemoveAiProvider _) = ''RemoveAiProvider''"
| "command_name ListExternalAgents = ''ListExternalAgents''"
| "command_name (SaveExternalAgent _) = ''SaveExternalAgent''"
| "command_name (RemoveExternalAgent _) = ''RemoveExternalAgent''"

fun statement_text :: "command \<Rightarrow> string option" where
  "statement_text (Execute _ _ request) = Some (req_text request)"
| "statement_text _ = None"

subsection \<open>What these readings have in common\<close>

fun is_execute :: "command \<Rightarrow> bool" where
  "is_execute (Execute _ _ _) = True"
| "is_execute _ = False"

fun is_connection_edit :: "command \<Rightarrow> bool" where
  "is_connection_edit (CreateConnection _) = True"
| "is_connection_edit (UpdateConnection _) = True"
| "is_connection_edit (DeleteConnection _) = True"
| "is_connection_edit _ = False"

lemma is_mutating_Execute [simp]:
  "is_mutating (Execute c s r) \<longleftrightarrow> request_is_mutating r"
  by (simp add: is_mutating_def request_is_mutating_def)

lemma is_mutating_not_Execute:
  "\<not> is_execute cmd \<Longrightarrow> is_mutating cmd \<longleftrightarrow> is_connection_edit cmd"
  by (cases cmd) (simp_all add: is_mutating_def risk_is_some_def)

text \<open>Only a statement or an edit of the connections can be mutating, and only a statement
  carries a risk, a transaction control or a typed context change.\<close>

lemma mutating_cases:
  assumes "is_mutating cmd"
  obtains c s r where "cmd = Execute c s r" "request_is_mutating r" | "is_connection_edit cmd"
  using assms is_mutating_not_Execute [of cmd] by (cases cmd) auto

lemma risk_cases:
  assumes "mutation_risk_of cmd \<noteq> RiskNone"
  obtains c s r where "cmd = Execute c s r" "req_risk r \<noteq> RiskNone"
  using assms by (cases cmd) auto

lemma controls_transaction_cases:
  assumes "controls_transaction cmd"
  obtains c s r where "cmd = Execute c s r" "transaction_control r"
  using assms by (cases cmd) auto

lemma changes_context_cases:
  assumes "changes_context cmd"
  obtains c s r where "cmd = Execute c s r" "context_change r"
  using assms by (cases cmd) auto

text \<open>Every command that reaches a server has a target the policy can look up.\<close>

lemma touches_database_target:
  "touches_database cmd \<Longrightarrow> \<exists>c. target_connection cmd = Some c"
  by (cases cmd) auto

lemma mutating_target: "is_mutating cmd \<Longrightarrow> \<exists>c. target_connection cmd = Some c"
  by (erule mutating_cases) (simp, cases cmd, auto)

lemma command_name_nonempty: "command_name cmd \<noteq> []"
  by (cases cmd) simp_all

end
