(* ===== verification/Policy_Gate.thy ===== *)
theory Policy_Gate
  imports Command_Bus
begin

text \<open>
  The policy gate of \<open>crates/oxyn-core/src/policy.rs\<close>: the decision type, the \<open>PolicyGate\<close>
  contract as a locale, and \<open>DefaultPolicy\<close>, which keeps the facts of the registered
  connections and is an interpretation of the contract.
\<close>

subsection \<open>Decisions\<close>

record preview =
  pv_statement :: string
  pv_connection :: string
  pv_estimated_rows :: "u64 option"

definition preview_new :: "string \<Rightarrow> string \<Rightarrow> preview" where
  "preview_new statement connection =
     \<lparr>pv_statement = statement, pv_connection = connection, pv_estimated_rows = None\<rparr>"

datatype decision = Allow | RequireApproval string "preview option" | Deny string

fun is_allowed :: "decision \<Rightarrow> bool" where
  "is_allowed Allow = True"
| "is_allowed _ = False"

fun is_denied :: "decision \<Rightarrow> bool" where
  "is_denied (Deny _) = True"
| "is_denied _ = False"

fun requires_approval :: "decision \<Rightarrow> bool" where
  "requires_approval (RequireApproval _ _) = True"
| "requires_approval _ = False"

fun restrictiveness :: "decision \<Rightarrow> nat" where
  "restrictiveness Allow = 0"
| "restrictiveness (RequireApproval _ _) = 1"
| "restrictiveness (Deny _) = 2"

lemma restrictiveness_le_2 [simp]: "restrictiveness d \<le> 2"
  by (cases d) auto

lemma is_allowed_iff [simp]: "is_allowed d \<longleftrightarrow> d = Allow"
  by (cases d) auto

lemma restrictiveness_eq_0_iff [simp]: "restrictiveness d = 0 \<longleftrightarrow> d = Allow"
  by (cases d) auto

lemma is_denied_iff: "is_denied d \<longleftrightarrow> restrictiveness d = 2"
  by (cases d) auto

subsection \<open>The contract of a gate\<close>

text \<open>
  The environment a caller announces may be raised, never lowered, and the decision rests on
  the raised one; a more restrictive environment never loosens a decision; an agent is never
  better placed than the human, and never changes anything without one.
\<close>

locale policy_gate =
  fixes gate_authorize :: "actor \<Rightarrow> command \<Rightarrow> environment \<Rightarrow> decision"
    and gate_environment :: "command \<Rightarrow> environment \<Rightarrow> environment"
    and gate_read_only :: "command \<Rightarrow> bool \<Rightarrow> bool"
  assumes environment_raised: "e \<le> gate_environment cmd e"
    and environment_idem: "gate_environment cmd (gate_environment cmd e) = gate_environment cmd e"
    and read_only_raised: "ro \<Longrightarrow> gate_read_only cmd ro"
    and decides_on_retained: "gate_authorize a cmd (gate_environment cmd e) = gate_authorize a cmd e"
    and environment_mono: "e \<le> e' \<Longrightarrow>
      restrictiveness (gate_authorize a cmd e) \<le> restrictiveness (gate_authorize a cmd e')"
    and agent_at_least_human:
      "restrictiveness (gate_authorize Human cmd e) \<le> restrictiveness (gate_authorize a cmd e)"
    and agent_mutation_guarded:
      "is_agent a \<Longrightarrow> is_mutating cmd \<Longrightarrow> gate_authorize a cmd e \<noteq> Allow"
    and production_read_only:
      "is_agent a \<Longrightarrow> is_mutating cmd \<Longrightarrow> touches_database cmd \<Longrightarrow>
       is_production (gate_environment cmd e) \<Longrightarrow> is_denied (gate_authorize a cmd e)"
begin

lemma denied_for_human_denied_for_all:
  "is_denied (gate_authorize Human cmd e) \<Longrightarrow> is_denied (gate_authorize a cmd e)"
  using agent_at_least_human [of cmd e a] restrictiveness_le_2 [of "gate_authorize a cmd e"]
  unfolding is_denied_iff by linarith

lemma allowed_for_agent_allowed_for_human:
  "gate_authorize a cmd e = Allow \<Longrightarrow> gate_authorize Human cmd e = Allow"
  using agent_at_least_human [of cmd e a] by simp

lemma allowed_in_production_allowed_everywhere:
  "gate_authorize a cmd Production = Allow \<Longrightarrow> gate_authorize a cmd e = Allow"
  using environment_mono [of e Production a cmd] by simp

lemma allowed_agent_command_is_read:
  "is_agent a \<Longrightarrow> gate_authorize a cmd e = Allow \<Longrightarrow> intent cmd = Read"
  using agent_mutation_guarded [of a cmd e] by (auto simp: is_mutating_def)

text \<open>Announcing a less restrictive environment than the retained one gains nothing.\<close>

lemma lying_gains_nothing:
  "e \<le> gate_environment cmd e' \<Longrightarrow> gate_environment cmd e' \<le> e \<Longrightarrow>
   gate_authorize a cmd e = gate_authorize a cmd e'"
  using decides_on_retained [of a cmd e'] by simp

end

subsection \<open>\<open>DefaultPolicy\<close>\<close>

record connection_facts =
  fact_name :: string
  fact_environment :: environment
  fact_read_only :: bool

definition facts_from :: "connection_config \<Rightarrow> connection_facts" where
  "facts_from cfg = \<lparr>fact_name = cfg_name cfg, fact_environment = cfg_environment cfg,
                     fact_read_only = cfg_read_only cfg\<rparr>"

type_synonym default_policy = "connection_id \<rightharpoonup> connection_facts"

definition register_config :: "connection_config \<Rightarrow> default_policy \<Rightarrow> default_policy" where
  "register_config cfg p = p(cfg_id cfg \<mapsto> facts_from cfg)"

definition register_facts :: "connection_id \<Rightarrow> connection_facts \<Rightarrow> default_policy \<Rightarrow> default_policy" where
  "register_facts c f p = p(c \<mapsto> f)"

definition forget :: "connection_id \<Rightarrow> default_policy \<Rightarrow> default_policy" where
  "forget c p = p(c := None)"

definition facts_for :: "default_policy \<Rightarrow> connection_id \<Rightarrow> connection_facts option" where
  "facts_for p c = p c"

definition target_facts :: "default_policy \<Rightarrow> command \<Rightarrow> connection_facts option" where
  "target_facts p cmd = Option.bind (target_connection cmd) (facts_for p)"

definition retain :: "environment \<Rightarrow> connection_facts option \<Rightarrow> environment" where
  "retain announced fs = (case fs of None \<Rightarrow> announced | Some f \<Rightarrow> max announced (fact_environment f))"

definition retained_environment :: "default_policy \<Rightarrow> command \<Rightarrow> environment \<Rightarrow> environment" where
  "retained_environment p cmd announced = retain announced (target_facts p cmd)"

definition retained_read_only :: "default_policy \<Rightarrow> command \<Rightarrow> bool \<Rightarrow> bool" where
  "retained_read_only p cmd announced \<longleftrightarrow>
     announced \<or> (case target_facts p cmd of None \<Rightarrow> False | Some f \<Rightarrow> fact_read_only f)"

fun display_name :: "command \<Rightarrow> connection_facts option \<Rightarrow> string" where
  "display_name _ (Some f) = fact_name f"
| "display_name (CreateConnection config) None = cfg_name config"
| "display_name (UpdateConnection config) None = cfg_name config"
| "display_name (TestConnection config) None = cfg_name config"
| "display_name _ None = ''unknown connection''"

definition preview_of :: "command \<Rightarrow> connection_facts option \<Rightarrow> preview option" where
  "preview_of cmd fs =
     (let statement = (case statement_text cmd of None \<Rightarrow> command_name cmd | Some t \<Rightarrow> t)
      in Some (preview_new statement (display_name cmd fs)))"

text \<open>The shapes of command that the first refusals match on.\<close>

fun is_preferences_write :: "command \<Rightarrow> bool" where
  "is_preferences_write (WriteWorkspacePreferences _ _) = True"
| "is_preferences_write _ = False"

fun is_layout_write :: "command \<Rightarrow> bool" where
  "is_layout_write (WriteWindowLayout _ _) = True"
| "is_layout_write _ = False"

fun is_provider_declaration :: "command \<Rightarrow> bool" where
  "is_provider_declaration (SaveAiProvider _) = True"
| "is_provider_declaration (RemoveAiProvider _) = True"
| "is_provider_declaration (SaveExternalAgent _) = True"
| "is_provider_declaration (RemoveExternalAgent _) = True"
| "is_provider_declaration _ = False"

fun is_test_connection :: "command \<Rightarrow> bool" where
  "is_test_connection (TestConnection _) = True"
| "is_test_connection _ = False"

fun is_connection_write :: "command \<Rightarrow> bool" where
  "is_connection_write (CreateConnection _) = True"
| "is_connection_write (UpdateConnection _) = True"
| "is_connection_write _ = False"

fun is_reconciliation :: "command \<Rightarrow> bool" where
  "is_reconciliation (ReconcileHistoryEntry _) = True"
| "is_reconciliation _ = False"

fun is_set_context :: "command \<Rightarrow> bool" where
  "is_set_context (SetSessionContext _ _ _ _) = True"
| "is_set_context _ = False"

definition authorize :: "default_policy \<Rightarrow> actor \<Rightarrow> command \<Rightarrow> environment \<Rightarrow> decision" where
  "authorize p actor cmd announced =
    (if is_agent actor \<and> is_preferences_write cmd then
       Deny ''only the human may change workspace display preferences''
     else if is_agent actor \<and> is_layout_write cmd then
       Deny ''only the human may arrange the windows''
     else if is_agent actor \<and> is_provider_declaration cmd then
       Deny ''only the human may declare or remove an AI provider''
     else if is_agent actor \<and> is_test_connection cmd then
       Deny ''only the human may test a connection configuration''
     else if is_agent actor \<and> is_connection_write cmd then
       Deny ''only the human may create or change a connection''
     else if is_agent actor \<and> is_reconciliation cmd then
       Deny ''only the human may declare an interrupted write reconciled''
     else
       let what = intent cmd;
           mutating = is_mutating cmd;
           fs = target_facts p cmd;
           env = retain announced fs
       in
       if is_agent actor \<and> what = Grant then
         Deny ''an agent may not change privileges (GRANT / REVOKE)''
       else if is_agent actor \<and> is_set_context cmd then
         Deny ''an agent may not change the session context: it changes the meaning of the statements that follow''
       else if is_agent actor \<and> changes_context cmd then
         Deny ''an agent may not change the session context by typing it (USE): it changes the meaning of the statements that follow; the user changes it with the context selector''
       else if is_agent actor \<and> controls_transaction cmd then
         Deny ''an agent may not begin, commit or roll back a transaction: the session may hold one the user opened''
       else if mutating \<and> touches_database cmd \<and> target_connection cmd \<noteq> None \<and> fs = None then
         Deny ''connection unknown to the policy: its markings cannot be checked''
       else if mutating \<and> touches_database cmd \<and> target_connection cmd \<noteq> None
               \<and> (case fs of None \<Rightarrow> False | Some f \<Rightarrow> fact_read_only f) then
         Deny (''connection \"'' @ fact_name (the fs) @ ''\" is marked read-only'')
       else if is_agent actor \<and> mutating \<and> is_production env then
         Deny (''an agent is strictly read-only on \"'' @ display_name cmd fs @ ''\" (production)'')
       else case risk_reason (mutation_risk_of cmd) of
         Some reason \<Rightarrow> RequireApproval reason (preview_of cmd fs)
       | None \<Rightarrow>
         if is_agent actor \<and> mutating then
           RequireApproval (''an agent is requesting a '' @ intent_as_str what @ '' operation on \"''
             @ display_name cmd fs @ ''\"'') (preview_of cmd fs)
         else if mutating \<and> is_production env then
           RequireApproval (intent_as_str what @ '' operation on \"'' @ display_name cmd fs
             @ ''\", marked production'') (preview_of cmd fs)
         else Allow)"

subsection \<open>What the decision rests on\<close>

text \<open>An agent is refused these commands whatever the environment and the markings.\<close>

definition agent_forbidden :: "command \<Rightarrow> bool" where
  "agent_forbidden cmd \<longleftrightarrow> is_preferences_write cmd \<or> is_layout_write cmd
     \<or> is_provider_declaration cmd \<or> is_test_connection cmd \<or> is_connection_write cmd
     \<or> is_reconciliation cmd \<or> intent cmd = Grant \<or> is_set_context cmd \<or> changes_context cmd
     \<or> controls_transaction cmd"

text \<open>A server-bound change on a connection that is unknown or marked read-only.\<close>

definition marking_forbids :: "default_policy \<Rightarrow> command \<Rightarrow> bool" where
  "marking_forbids p cmd \<longleftrightarrow> is_mutating cmd \<and> touches_database cmd
     \<and> (case target_facts p cmd of None \<Rightarrow> True | Some f \<Rightarrow> fact_read_only f)"

text \<open>The decision, up to its wording, is the first of three tests that answers.\<close>

lemma restrictiveness_authorize:
  "restrictiveness (authorize p a cmd e) =
    (if is_agent a \<and> agent_forbidden cmd \<or> marking_forbids p cmd
        \<or> is_agent a \<and> is_mutating cmd \<and> is_production (retained_environment p cmd e) then 2
     else if mutation_risk_of cmd \<noteq> RiskNone
        \<or> is_mutating cmd \<and> (is_agent a \<or> is_production (retained_environment p cmd e)) then 1
     else 0)"
proof -
  have target: "\<not> (touches_database cmd \<and> target_connection cmd = None)"
    using touches_database_target [of cmd] by auto
  have read_only: "(case target_facts p cmd of None \<Rightarrow> True | Some f \<Rightarrow> fact_read_only f) \<longleftrightarrow>
      target_facts p cmd = None \<or> (case target_facts p cmd of None \<Rightarrow> False | Some f \<Rightarrow> fact_read_only f)"
    by (cases "target_facts p cmd") simp_all
  have risk: "restrictiveness (case risk_reason k of Some reason \<Rightarrow> RequireApproval reason pv | None \<Rightarrow> d)
      = (if k \<noteq> RiskNone then 1 else restrictiveness d)" for k pv d
    by (cases k) simp_all
  have merge: "(if c then n else if d then n else m) = (if c \<or> d then n else m)" for c d and n m :: nat
    by simp
  show ?thesis
    unfolding authorize_def Let_def if_distrib [of restrictiveness] risk restrictiveness.simps
      marking_forbids_def agent_forbidden_def retained_environment_def read_only merge
    using target
    by (intro if_cong refl; cases "is_agent a"; cases "touches_database cmd"; cases "is_mutating cmd")
      (simp_all add: disj_ac split: option.split)
qed

lemma authorize_allow_iff:
  "authorize p a cmd e = Allow \<longleftrightarrow>
     \<not> (is_agent a \<and> (agent_forbidden cmd \<or> is_mutating cmd))
     \<and> \<not> marking_forbids p cmd \<and> mutation_risk_of cmd = RiskNone
     \<and> \<not> (is_mutating cmd \<and> is_production (retained_environment p cmd e))"
  by (subst restrictiveness_eq_0_iff [symmetric]) (auto simp: restrictiveness_authorize)

lemma authorize_denied_iff:
  "is_denied (authorize p a cmd e) \<longleftrightarrow>
     is_agent a \<and> agent_forbidden cmd \<or> marking_forbids p cmd
     \<or> is_agent a \<and> is_mutating cmd \<and> is_production (retained_environment p cmd e)"
  unfolding is_denied_iff restrictiveness_authorize by auto

lemma retain_ge: "e \<le> retain e fs"
  by (simp add: retain_def split: option.splits)

lemma retain_mono: "e \<le> e' \<Longrightarrow> retain e fs \<le> retain e' fs"
  by (simp add: retain_def max.coboundedI1 split: option.splits)

lemma retain_idem: "retain (retain e fs) fs = retain e fs"
  by (simp add: retain_def split: option.splits)

lemma production_mono: "e \<le> e' \<Longrightarrow> is_production e \<Longrightarrow> is_production e'"
  by (simp add: is_production_def)

lemma authorize_retain: "authorize p a cmd (retained_environment p cmd e) = authorize p a cmd e"
  by (simp only: authorize_def retained_environment_def retain_idem Let_def)

interpretation dp: policy_gate "authorize p" "retained_environment p" "retained_read_only p"
  for p :: default_policy
proof
  fix e e' :: environment and cmd :: command and a :: actor and ro :: bool
  show "e \<le> retained_environment p cmd e"
    by (simp add: retained_environment_def retain_ge)
  show "retained_environment p cmd (retained_environment p cmd e) = retained_environment p cmd e"
    by (simp add: retained_environment_def retain_idem)
  show "ro \<Longrightarrow> retained_read_only p cmd ro"
    by (simp add: retained_read_only_def)
  show "authorize p a cmd (retained_environment p cmd e) = authorize p a cmd e"
    by (rule authorize_retain)
  show "restrictiveness (authorize p a cmd e) \<le> restrictiveness (authorize p a cmd e')"
    if "e \<le> e'"
    using production_mono [OF retain_mono [OF that], of "target_facts p cmd"]
    by (auto simp: restrictiveness_authorize retained_environment_def)
  show "restrictiveness (authorize p Human cmd e) \<le> restrictiveness (authorize p a cmd e)"
    by (auto simp: restrictiveness_authorize)
  show "authorize p a cmd e \<noteq> Allow" if "is_agent a" "is_mutating cmd"
    using that by (simp add: authorize_allow_iff)
  show "is_denied (authorize p a cmd e)"
    if "is_agent a" "is_mutating cmd" "touches_database cmd"
      "is_production (retained_environment p cmd e)"
    using that by (simp add: authorize_denied_iff)
qed

end
