(* ===== verification/Audit_Records.thy ===== *)
theory Audit_Records
  imports Policy_Gate
begin

text \<open>
  What the audit journal and the query history hold (\<open>crates/oxyn-store/src/journal.rs\<close> and
  \<open>history.rs\<close>): how a record is built from a command and a decision, how it is completed, and
  the two tables. The journal is append-only; a row of the history is completed once. The
  redaction of a text is an argument; so is the time.
\<close>

subsection \<open>The journal\<close>

datatype actor_kind = KindHuman | KindAgent

definition actor_kind_of :: "actor \<Rightarrow> actor_kind" where
  "actor_kind_of a = (if is_agent a then KindAgent else KindHuman)"

fun actor_kind_as_str :: "actor_kind \<Rightarrow> string" where
  "actor_kind_as_str KindHuman = ''human''"
| "actor_kind_as_str KindAgent = ''agent''"

definition actor_kind_from_text :: "string \<Rightarrow> actor_kind" where
  "actor_kind_from_text raw = (if raw = ''human'' then KindHuman else KindAgent)"

datatype policy_outcome = Allowed | ApprovalRequired | Denied

fun policy_outcome_of :: "decision \<Rightarrow> policy_outcome" where
  "policy_outcome_of Allow = Allowed"
| "policy_outcome_of (RequireApproval _ _) = ApprovalRequired"
| "policy_outcome_of (Deny _) = Denied"

fun policy_outcome_as_str :: "policy_outcome \<Rightarrow> string" where
  "policy_outcome_as_str Allowed = ''allowed''"
| "policy_outcome_as_str ApprovalRequired = ''approval_required''"
| "policy_outcome_as_str Denied = ''denied''"

definition policy_outcome_from_text :: "string \<Rightarrow> policy_outcome" where
  "policy_outcome_from_text raw =
     (if raw = ''allowed'' then Allowed
      else if raw = ''approval_required'' then ApprovalRequired else Denied)"

record journal_record =
  jr_ts :: instant
  jr_command_id :: "command_id option"
  jr_actor_kind :: actor_kind
  jr_actor_id :: "agent_id option"
  jr_agent_session :: "agent_session_id option"
  jr_connection :: "connection_id option"
  jr_command_kind :: string
  jr_statement :: "string option"
  jr_intent :: statement_intent
  jr_risk :: mutation_risk
  jr_decision :: policy_outcome
  jr_decision_reason :: "string option"
  jr_approved_by :: "string option"
  jr_duration :: "duration option"
  jr_rows_affected :: "u64 option"
  jr_error :: "string option"
  jr_error_class :: "error_class option"

fun actor_ids :: "actor \<Rightarrow> agent_id option \<times> agent_session_id option" where
  "actor_ids Human = (None, None)"
| "actor_ids (Agent i s) = (Some i, Some s)"

fun decision_reason :: "decision \<Rightarrow> string option" where
  "decision_reason Allow = None"
| "decision_reason (RequireApproval reason _) = Some reason"
| "decision_reason (Deny reason) = Some reason"

text \<open>Only \<open>Execute\<close> has a statement text, so the language of the redaction is its own.\<close>

fun redacted_statement :: "(query_language \<Rightarrow> string \<Rightarrow> string) \<Rightarrow> command \<Rightarrow> string option" where
  "redacted_statement redact (Execute _ _ request) = Some (redact (language request) (req_text request))"
| "redacted_statement redact _ = None"

definition journal_record_new ::
  "(query_language \<Rightarrow> string \<Rightarrow> string) \<Rightarrow> instant \<Rightarrow> actor \<Rightarrow> command \<Rightarrow> decision \<Rightarrow> journal_record" where
  "journal_record_new redact now a cmd d =
     \<lparr>jr_ts = now, jr_command_id = None, jr_actor_kind = actor_kind_of a,
      jr_actor_id = fst (actor_ids a), jr_agent_session = snd (actor_ids a),
      jr_connection = target_connection cmd, jr_command_kind = command_name cmd,
      jr_statement = redacted_statement redact cmd, jr_intent = intent cmd,
      jr_risk = mutation_risk_of cmd, jr_decision = policy_outcome_of d,
      jr_decision_reason = decision_reason d, jr_approved_by = None, jr_duration = None,
      jr_rows_affected = None, jr_error = None, jr_error_class = None\<rparr>"

definition journal_with_id :: "command_id \<Rightarrow> journal_record \<Rightarrow> journal_record" where
  "journal_with_id i r = r\<lparr>jr_command_id := Some i\<rparr>"

definition journal_approved_by :: "string \<Rightarrow> journal_record \<Rightarrow> journal_record" where
  "journal_approved_by who r = r\<lparr>jr_approved_by := Some who\<rparr>"

definition journal_completed :: "duration \<Rightarrow> u64 option \<Rightarrow> journal_record \<Rightarrow> journal_record" where
  "journal_completed d rows r =
     r\<lparr>jr_duration := Some d, jr_rows_affected := rows, jr_error := None, jr_error_class := None\<rparr>"

definition journal_failed :: "(oxyn_error \<Rightarrow> string) \<Rightarrow> oxyn_error \<Rightarrow> journal_record \<Rightarrow> journal_record" where
  "journal_failed render e r =
     r\<lparr>jr_error := Some (render e), jr_error_class := Some (error_class_of e)\<rparr>"

subsection \<open>The history\<close>

datatype history_status = HsRunning | HsSucceeded | HsFailed | HsCancelled | HsDenied

fun status_as_str :: "history_status \<Rightarrow> string" where
  "status_as_str HsRunning = ''running''"
| "status_as_str HsSucceeded = ''succeeded''"
| "status_as_str HsFailed = ''failed''"
| "status_as_str HsCancelled = ''cancelled''"
| "status_as_str HsDenied = ''denied''"

definition status_from_text :: "string \<Rightarrow> history_status" where
  "status_from_text raw =
     (if raw = ''running'' then HsRunning else if raw = ''succeeded'' then HsSucceeded
      else if raw = ''failed'' then HsFailed else if raw = ''cancelled'' then HsCancelled
      else if raw = ''denied'' then HsDenied else HsFailed)"

record history_record =
  hr_ts :: instant
  hr_connection :: "connection_id option"
  hr_connection_name :: "string option"
  hr_actor_kind :: actor_kind
  hr_actor_id :: "agent_id option"
  hr_language :: query_language
  hr_statement :: string
  hr_intent :: statement_intent
  hr_duration :: "duration option"
  hr_rows :: "u64 option"
  hr_status :: history_status
  hr_error :: "string option"
  hr_error_class :: "error_class option"
  hr_result :: "result_id option"
  hr_reconciled_at :: "instant option"

definition history_record_new :: "instant \<Rightarrow> actor \<Rightarrow> query_language \<Rightarrow> string \<Rightarrow> history_record" where
  "history_record_new now a l statement =
     \<lparr>hr_ts = now, hr_connection = None, hr_connection_name = None,
      hr_actor_kind = actor_kind_of a, hr_actor_id = fst (actor_ids a), hr_language = l,
      hr_statement = statement, hr_intent = Unknown, hr_duration = None, hr_rows = None,
      hr_status = HsRunning, hr_error = None, hr_error_class = None, hr_result = None,
      hr_reconciled_at = None\<rparr>"

fun history_from_command ::
  "(query_language \<Rightarrow> string \<Rightarrow> string) \<Rightarrow> instant \<Rightarrow> actor \<Rightarrow> command \<Rightarrow> history_record option" where
  "history_from_command redact now a (Execute connection _ request) =
     Some ((history_record_new now a (language request) (redact (language request) (req_text request)))
       \<lparr>hr_connection := Some connection, hr_intent := req_intent request\<rparr>)"
| "history_from_command redact now a _ = None"

definition history_succeeded :: "duration \<Rightarrow> u64 option \<Rightarrow> history_record \<Rightarrow> history_record" where
  "history_succeeded d rows r =
     r\<lparr>hr_status := HsSucceeded, hr_duration := Some d, hr_rows := rows, hr_error := None,
       hr_error_class := None\<rparr>"

fun failure_status :: "oxyn_error \<Rightarrow> history_status" where
  "failure_status ECancelled = HsCancelled"
| "failure_status (EPolicyDenied _) = HsDenied"
| "failure_status _ = HsFailed"

definition history_failed :: "(oxyn_error \<Rightarrow> string) \<Rightarrow> oxyn_error \<Rightarrow> history_record \<Rightarrow> history_record" where
  "history_failed render e r =
     r\<lparr>hr_status := failure_status e, hr_error := Some (render e),
       hr_error_class := Some (error_class_of e)\<rparr>"

definition history_denied :: "string \<Rightarrow> history_record \<Rightarrow> history_record" where
  "history_denied reason r =
     r\<lparr>hr_status := HsDenied, hr_error := Some reason, hr_error_class := Some Permanent\<rparr>"

definition history_is_retryable :: "history_record \<Rightarrow> bool" where
  "history_is_retryable r \<longleftrightarrow> (case hr_error_class r of None \<Rightarrow> False | Some c \<Rightarrow> class_is_retryable c)"

definition unresolved :: "statement_intent \<Rightarrow> history_status \<Rightarrow> error_class option \<Rightarrow> bool" where
  "unresolved i status class \<longleftrightarrow> class = Some Ambiguous
     \<or> intent_is_mutating i
       \<and> (status \<in> {HsRunning, HsCancelled} \<or> status = HsFailed \<and> class = None)"

definition requires_reconciliation :: "history_record \<Rightarrow> bool" where
  "requires_reconciliation r \<longleftrightarrow> hr_reconciled_at r = None
     \<and> unresolved (hr_intent r) (hr_status r) (hr_error_class r)"

subsection \<open>The table of the history\<close>

text \<open>The rows and the identifier last given out: \<open>AUTOINCREMENT\<close> never gives one twice.\<close>

record history_table =
  ht_sequence :: nat
  ht_rows :: "(nat \<times> history_record) list"

definition history_insert :: "history_record \<Rightarrow> history_table \<Rightarrow> nat \<times> history_table" where
  "history_insert r t =
     (let i = Suc (ht_sequence t)
      in (i, t\<lparr>ht_sequence := i, ht_rows := ht_rows t @ [(i, r)]\<rparr>))"

definition history_update ::
  "nat \<Rightarrow> (history_record \<Rightarrow> history_record) \<Rightarrow> history_table \<Rightarrow> history_table" where
  "history_update i f t =
     t\<lparr>ht_rows := map (\<lambda>(j, old). (j, if j = i then f old else old)) (ht_rows t)\<rparr>"

definition history_get :: "nat \<Rightarrow> history_table \<Rightarrow> history_record option" where
  "history_get i t = map_option snd (find_key fst i (ht_rows t))"

definition history_purge_before :: "instant \<Rightarrow> history_table \<Rightarrow> nat \<times> history_table" where
  "history_purge_before cutoff t =
     (length (filter (\<lambda>(_, r). hr_ts r < cutoff) (ht_rows t)),
      t\<lparr>ht_rows := filter (\<lambda>(_, r). \<not> hr_ts r < cutoff) (ht_rows t)\<rparr>)"

definition history_clear :: "history_table \<Rightarrow> nat \<times> history_table" where
  "history_clear t = (length (ht_rows t), t\<lparr>ht_rows := []\<rparr>)"

text \<open>\<open>UPDATE query_history\<close>: what was submitted is not rewritten, a reconciliation is erased.\<close>

definition history_outcome :: "history_record \<Rightarrow> history_record \<Rightarrow> history_record" where
  "history_outcome r old =
     old\<lparr>hr_status := hr_status r, hr_duration := hr_duration r, hr_rows := hr_rows r,
         hr_error := hr_error r, hr_error_class := hr_error_class r, hr_result := hr_result r,
         hr_reconciled_at := None\<rparr>"

definition history_finish :: "nat \<Rightarrow> history_record \<Rightarrow> history_table \<Rightarrow> bool \<times> history_table" where
  "history_finish i r t = (history_get i t \<noteq> None, history_update i (history_outcome r) t)"

datatype reconciliation = Recorded | NotNeeded | StillRunning

definition history_reconcile ::
  "instant \<Rightarrow> nat \<Rightarrow> instant \<Rightarrow> history_table \<Rightarrow> reconciliation \<times> history_table" where
  "history_reconcile now i live_since t =
     (case history_get i t of None \<Rightarrow> (NotNeeded, t)
      | Some r \<Rightarrow>
          if hr_reconciled_at r \<noteq> None then (Recorded, t)
          else if \<not> unresolved (hr_intent r) (hr_status r) (hr_error_class r) then (NotNeeded, t)
          else if hr_status r = HsRunning \<and> live_since \<le> hr_ts r then (StillRunning, t)
          else (Recorded, history_update i (\<lambda>old. old\<lparr>hr_reconciled_at := Some now\<rparr>) t))"

definition history_inv :: "history_table \<Rightarrow> bool" where
  "history_inv t \<longleftrightarrow> distinct (map fst (ht_rows t)) \<and> (\<forall>i \<in> fst ` set (ht_rows t). i \<le> ht_sequence t)"

lemma map_fst_history_update: "map fst (ht_rows (history_update i f t)) = map fst (ht_rows t)"
  by (simp add: history_update_def comp_def case_prod_beta)

lemma history_inv_update: "history_inv t \<Longrightarrow> history_inv (history_update i f t)"
  using map_fst_history_update [of i f t]
  by (auto simp: history_inv_def) (auto simp: history_update_def)

lemma history_inv_insert: "history_inv t \<Longrightarrow> history_inv (snd (history_insert r t))"
  by (fastforce simp: history_inv_def history_insert_def Let_def)

lemma history_inv_purge: "history_inv t \<Longrightarrow> history_inv (snd (history_purge_before cutoff t))"
  by (auto simp: history_inv_def history_purge_before_def distinct_map_filter)

lemma history_get_update:
  "history_get j (history_update i f t) = (if j = i then map_option f (history_get i t) else history_get j t)"
proof -
  have "find_key fst j (map (\<lambda>(j, old). (j, if j = i then f old else old)) rows)
      = map_option (\<lambda>(k, old). (k, if k = i then f old else old)) (find_key fst j rows)" for rows
    by (induction rows) (auto simp: find_key_def)
  then show ?thesis
    by (auto simp: history_get_def history_update_def option.map_comp comp_def case_prod_beta
        dest: find_key_SomeD intro!: option.map_cong0 split: option.split)
qed

lemma history_get_insert:
  assumes "history_inv t" "history_insert r t = (i, t')"
  shows "history_get j t' = (if j = i then Some r else history_get j t)" "history_get i t = None"
proof -
  have i: "i = Suc (ht_sequence t)" and t': "ht_rows t' = ht_rows t @ [(i, r)]"
    using assms(2) by (auto simp: history_insert_def Let_def)
  have none: "find_key fst i (ht_rows t) = None"
    using assms(1) i by (auto simp: history_inv_def find_key_None_iff)
  then show "history_get i t = None" by (simp add: history_get_def)
  show "history_get j t' = (if j = i then Some r else history_get j t)"
    using none by (auto simp: history_get_def t' find_key_append split: option.split)
qed

lemma history_finish_get:
  "history_get j (snd (history_finish i r t))
     = (if j = i then map_option (history_outcome r) (history_get i t) else history_get j t)"
  by (simp add: history_finish_def history_get_update)

text \<open>A failure that leaves the effect unknown is never offered again as it is.\<close>

lemma unresolved_failure_not_retryable:
  "requires_reconciliation (history_failed render e r) \<Longrightarrow> \<not> history_is_retryable (history_failed render e r)"
  by (cases "error_class_of e"; cases e)
    (auto simp: requires_reconciliation_def unresolved_def history_failed_def history_is_retryable_def)

text \<open>Acknowledging settles a row, keeps its outcome, and never settles one that still runs.\<close>

lemma reconcile_recorded:
  assumes "history_reconcile now i live t = (Recorded, t')" "history_get i t = Some r"
  obtains r' where "history_get i t' = Some r'" "\<not> requires_reconciliation r'"
    "hr_status r' = hr_status r" "hr_error_class r' = hr_error_class r"
    "hr_reconciled_at r \<noteq> None \<Longrightarrow> r' = r"
proof (cases "hr_reconciled_at r")
  case None
  then have "t' = history_update i (\<lambda>old. old\<lparr>hr_reconciled_at := Some now\<rparr>) t"
    using assms by (auto simp: history_reconcile_def split: if_splits)
  with that [of "r\<lparr>hr_reconciled_at := Some now\<rparr>"] None assms(2) show thesis
    by (simp add: history_get_update requires_reconciliation_def)
next
  case (Some at)
  then have "t' = t" using assms by (simp add: history_reconcile_def)
  with that [of r] Some assms(2) show thesis by (simp add: requires_reconciliation_def)
qed

lemma reconcile_still_running:
  "history_reconcile now i live t = (StillRunning, t') \<Longrightarrow> t' = t \<and> (\<exists>r. history_get i t = Some r
     \<and> hr_status r = HsRunning \<and> live \<le> hr_ts r)"
  by (auto simp: history_reconcile_def split: option.splits if_splits)

end
