(* ===== verification/Sql_Scanner.thy ===== *)
theory Sql_Scanner
  imports Query_Types
begin

text \<open>
  The scanner of \<open>crates/oxyn-query/src/split.rs\<close>: the lexical profile of a dialect, the
  regions it recognizes (words, comments, quotes, dollar bodies) and the stream of elements it
  yields. Indices count bytes. Every span starts and ends next to an ASCII byte or at an end of
  the text, so \<open>str::get\<close> on it never meets the middle of a character and is \<open>get_range\<close>.
\<close>

subsection \<open>Profiles\<close>

datatype line_comment_end = LineFeed | LineFeedOrCarriageReturn | Unverified

record split_profile =
  backslash_escapes :: bool
  escape_string_prefix :: bool
  backtick_quotes :: bool
  bracket_quotes :: bool
  dollar_quotes :: bool
  hash_line_comments :: bool
  nested_block_comments :: bool
  line_comment_end_of :: line_comment_end
  backtick_backslash_escapes :: bool

definition permissive :: split_profile where
  "permissive =
     \<lparr>backslash_escapes = False, escape_string_prefix = True, backtick_quotes = True,
      bracket_quotes = True, dollar_quotes = True, hash_line_comments = False,
      nested_block_comments = True, line_comment_end_of = Unverified,
      backtick_backslash_escapes = False\<rparr>"

definition postgres_profile :: "line_comment_end \<Rightarrow> split_profile" where
  "postgres_profile ending =
     \<lparr>backslash_escapes = False, escape_string_prefix = True, backtick_quotes = False,
      bracket_quotes = False, dollar_quotes = True, hash_line_comments = False,
      nested_block_comments = True, line_comment_end_of = ending,
      backtick_backslash_escapes = False\<rparr>"

definition warehouse_profile :: "bool \<Rightarrow> split_profile" where
  "warehouse_profile dollars =
     \<lparr>backslash_escapes = True, escape_string_prefix = False, backtick_quotes = True,
      bracket_quotes = False, dollar_quotes = dollars, hash_line_comments = False,
      nested_block_comments = False, line_comment_end_of = Unverified,
      backtick_backslash_escapes = False\<rparr>"

fun for_dialect :: "sql_dialect \<Rightarrow> split_profile" where
  "for_dialect Postgres = postgres_profile LineFeedOrCarriageReturn"
| "for_dialect Redshift = postgres_profile Unverified"
| "for_dialect MySql =
     \<lparr>backslash_escapes = True, escape_string_prefix = False, backtick_quotes = True,
      bracket_quotes = False, dollar_quotes = False, hash_line_comments = True,
      nested_block_comments = False, line_comment_end_of = Unverified,
      backtick_backslash_escapes = False\<rparr>"
| "for_dialect Sqlite =
     \<lparr>backslash_escapes = False, escape_string_prefix = False, backtick_quotes = True,
      bracket_quotes = True, dollar_quotes = False, hash_line_comments = False,
      nested_block_comments = False, line_comment_end_of = LineFeed,
      backtick_backslash_escapes = False\<rparr>"
| "for_dialect SqlServer =
     \<lparr>backslash_escapes = False, escape_string_prefix = False, backtick_quotes = False,
      bracket_quotes = True, dollar_quotes = False, hash_line_comments = False,
      nested_block_comments = True, line_comment_end_of = Unverified,
      backtick_backslash_escapes = False\<rparr>"
| "for_dialect ClickHouse =
     \<lparr>backslash_escapes = True, escape_string_prefix = False, backtick_quotes = True,
      bracket_quotes = False, dollar_quotes = True, hash_line_comments = True,
      nested_block_comments = True, line_comment_end_of = LineFeed,
      backtick_backslash_escapes = True\<rparr>"
| "for_dialect DuckDb =
     \<lparr>backslash_escapes = False, escape_string_prefix = True, backtick_quotes = True,
      bracket_quotes = False, dollar_quotes = True, hash_line_comments = False,
      nested_block_comments = True, line_comment_end_of = Unverified,
      backtick_backslash_escapes = False\<rparr>"
| "for_dialect Snowflake = warehouse_profile True"
| "for_dialect BigQuery = warehouse_profile False"
| "for_dialect Ansi = permissive"
| "for_dialect Oracle = permissive"

subsection \<open>Words\<close>

definition is_word_start :: "char \<Rightarrow> bool" where
  "is_word_start c \<longleftrightarrow> is_ascii_alphabetic c \<or> c = CHR ''_'' \<or> 128 \<le> byte c"

definition is_word_byte :: "char \<Rightarrow> bool" where
  "is_word_byte c \<longleftrightarrow> is_ascii_alphanumeric c \<or> c = CHR ''_'' \<or> 128 \<le> byte c"

text \<open>
  The loops walk an index through the text. What is left to read shrinks at every turn, and
  \<open>get_at\<close> answers \<open>None\<close> at the end.
\<close>

function skip_word_from :: "string \<Rightarrow> nat \<Rightarrow> nat" where
  "skip_word_from b i =
     (case get_at b i of None \<Rightarrow> i
      | Some c \<Rightarrow> if \<not> is_word_byte c then i else skip_word_from b (i + 1))"
  by pat_completeness auto
termination
  by (relation "measure (\<lambda>(b, i). length b - i)") (auto dest: get_at_SomeD)

definition skip_word :: "string \<Rightarrow> nat \<Rightarrow> nat" where
  "skip_word b i = skip_word_from b (i + 1)"

subsection \<open>Comments\<close>

datatype tok = Word | Quoted | SingleQuoted | Comment | UnreadableComment | Semicolon | Symbol

function line_comment_from ::
  "string \<Rightarrow> nat \<Rightarrow> line_comment_end \<Rightarrow> bool \<Rightarrow> bool \<Rightarrow> nat \<times> bool" where
  "line_comment_from b i ending lone_cr unreadable =
     (case get_at b i of None \<Rightarrow> (i, unreadable)
      | Some c \<Rightarrow>
          if c = CHR 0x0A \<or> (c = CHR 0x0D \<and> ending = LineFeedOrCarriageReturn) then (i, unreadable)
          else if c = CHR 0x0D \<and> ending = Unverified
          then line_comment_from b (i + 1) ending True unreadable
          else if ending = Unverified \<and> lone_cr \<and> \<not> is_ascii_whitespace c
          then line_comment_from b (i + 1) ending lone_cr True
          else line_comment_from b (i + 1) ending lone_cr unreadable)"
  by pat_completeness auto
termination
  by (relation "measure (\<lambda>(b, i, _). length b - i)") (auto dest: get_at_SomeD)

definition skip_line_comment :: "string \<Rightarrow> nat \<Rightarrow> line_comment_end \<Rightarrow> nat \<times> tok" where
  "skip_line_comment b i ending =
     (let (e, unreadable) = line_comment_from b i ending False False
      in (e, if unreadable then UnreadableComment else Comment))"

function block_comment_from :: "string \<Rightarrow> nat \<Rightarrow> nat \<Rightarrow> bool \<Rightarrow> nat" where
  "block_comment_from b i depth nested =
     (case get_at b i of None \<Rightarrow> length b
      | Some c \<Rightarrow>
          if nested \<and> c = CHR ''/'' \<and> get_at b (i + 1) = Some (CHR ''*'')
          then block_comment_from b (i + 2) (depth + 1) nested
          else if c = CHR ''*'' \<and> get_at b (i + 1) = Some (CHR ''/'')
          then (if depth - 1 = 0 then i + 2 else block_comment_from b (i + 2) (depth - 1) nested)
          else block_comment_from b (i + 1) depth nested)"
  by pat_completeness auto
termination
  by (relation "measure (\<lambda>(b, i, _). length b - i)") (auto dest: get_at_SomeD)

definition skip_block_comment :: "string \<Rightarrow> nat \<Rightarrow> bool \<Rightarrow> nat" where
  "skip_block_comment b start nested = block_comment_from b (start + 2) 1 nested"

subsection \<open>Quoted regions\<close>

function quoted_from :: "string \<Rightarrow> nat \<Rightarrow> char \<Rightarrow> bool \<Rightarrow> nat" where
  "quoted_from b i quote backslash =
     (case get_at b i of None \<Rightarrow> length b
      | Some c \<Rightarrow>
          if backslash \<and> c = CHR 0x5C then quoted_from b (i + 2) quote backslash
          else if c = quote
          then (if get_at b (i + 1) = Some quote then quoted_from b (i + 2) quote backslash else i + 1)
          else quoted_from b (i + 1) quote backslash)"
  by pat_completeness auto
termination
  by (relation "measure (\<lambda>(b, i, _). length b - i)") (auto dest: get_at_SomeD)

definition skip_quoted :: "string \<Rightarrow> nat \<Rightarrow> char \<Rightarrow> bool \<Rightarrow> nat" where
  "skip_quoted b start quote backslash = quoted_from b (start + 1) quote backslash"

text \<open>The bracket loop of \<open>skip_bracket\<close>: only the closing bracket is doubled.\<close>

function bracket_from :: "string \<Rightarrow> nat \<Rightarrow> nat" where
  "bracket_from b i =
     (case get_at b i of None \<Rightarrow> length b
      | Some c \<Rightarrow>
          if c = CHR '']''
          then (if get_at b (i + 1) = Some (CHR '']'') then bracket_from b (i + 2) else i + 1)
          else bracket_from b (i + 1))"
  by pat_completeness auto
termination
  by (relation "measure (\<lambda>(b, i). length b - i)") (auto dest: get_at_SomeD)

definition skip_bracket :: "string \<Rightarrow> nat \<Rightarrow> nat" where
  "skip_bracket b start = bracket_from b (start + 1)"

function dollar_tag_from :: "string \<Rightarrow> nat \<Rightarrow> nat \<Rightarrow> nat option" where
  "dollar_tag_from b start i =
     (case get_at b i of None \<Rightarrow> None
      | Some c \<Rightarrow>
          if c = CHR ''$'' then Some (i + 1)
          else if \<not> (if i = start + 1 then is_ascii_alphabetic c \<or> c = CHR ''_''
                     else is_ascii_alphanumeric c \<or> c = CHR ''_'') then None
          else dollar_tag_from b start (i + 1))"
  by pat_completeness auto
termination
  by (relation "measure (\<lambda>(b, _, i). length b - i)") (auto dest: get_at_SomeD)

definition dollar_tag_end :: "string \<Rightarrow> nat \<Rightarrow> nat option" where
  "dollar_tag_end b start = dollar_tag_from b start (start + 1)"

text \<open>The tag holds at least its two dollars, so the loop's own bound keeps the index inside.\<close>

function dollar_body_from :: "string \<Rightarrow> string \<Rightarrow> nat \<Rightarrow> nat" where
  "dollar_body_from b tag i =
     (if i + length tag \<le> length b \<and> i < length b
      then (if get_range b i (i + length tag) = Some tag then i + length tag
            else dollar_body_from b tag (i + 1))
      else length b)"
  by pat_completeness auto
termination
  by (relation "measure (\<lambda>(b, _, i). length b - i)") auto

definition skip_dollar_quoted :: "string \<Rightarrow> nat \<Rightarrow> nat option" where
  "skip_dollar_quoted b start =
     (case dollar_tag_end b start of None \<Rightarrow> None
      | Some tag_end \<Rightarrow>
          (case get_range b start tag_end of None \<Rightarrow> None
           | Some tag \<Rightarrow> Some (dollar_body_from b tag tag_end)))"

definition has_escape_prefix :: "string \<Rightarrow> nat \<Rightarrow> bool" where
  "has_escape_prefix b start =
     (case (if 1 \<le> start then get_at b (start - 1) else None) of None \<Rightarrow> False
      | Some previous \<Rightarrow>
          if \<not> (previous = CHR ''e'' \<or> previous = CHR ''E'') then False
          else (case (if 2 \<le> start then get_at b (start - 2) else None) of
                  Some earlier \<Rightarrow> \<not> is_word_byte earlier
                | None \<Rightarrow> True))"

function next_visible_byte :: "string \<Rightarrow> nat \<Rightarrow> char option" where
  "next_visible_byte b i =
     (case get_at b i of None \<Rightarrow> None
      | Some c \<Rightarrow> if \<not> is_ascii_whitespace c then Some c else next_visible_byte b (i + 1))"
  by pat_completeness auto
termination
  by (relation "measure (\<lambda>(b, i). length b - i)") (auto dest: get_at_SomeD)

declare skip_word_from.simps [simp del] line_comment_from.simps [simp del]
  block_comment_from.simps [simp del] quoted_from.simps [simp del] bracket_from.simps [simp del]
  dollar_tag_from.simps [simp del] dollar_body_from.simps [simp del] next_visible_byte.simps [simp del]

subsection \<open>One element\<close>

definition lex :: "string \<Rightarrow> nat \<Rightarrow> char \<Rightarrow> split_profile \<Rightarrow> tok \<times> nat" where
  "lex b i c p =
     (if c = CHR ''-'' \<and> get_at b (i + 1) = Some (CHR ''-'') then
        prod.swap (skip_line_comment b (i + 2) (line_comment_end_of p))
      else if c = CHR ''#'' \<and> hash_line_comments p then
        prod.swap (skip_line_comment b (i + 1) (line_comment_end_of p))
      else if c = CHR ''/'' \<and> get_at b (i + 1) = Some (CHR ''*'') then
        (Comment, skip_block_comment b i (nested_block_comments p))
      else if c = CHR 0x27 then
        (SingleQuoted, skip_quoted b i (CHR 0x27)
           (backslash_escapes p \<or> (escape_string_prefix p \<and> has_escape_prefix b i)))
      else if c = CHR 0x22 then (Quoted, skip_quoted b i (CHR 0x22) (backslash_escapes p))
      else if c = CHR 0x60 \<and> backtick_quotes p then
        (Quoted, skip_quoted b i (CHR 0x60) (backtick_backslash_escapes p))
      else if c = CHR ''['' \<and> bracket_quotes p then (Quoted, skip_bracket b i)
      else if c = CHR ''$'' \<and> dollar_quotes p then
        (case skip_dollar_quoted b i of None \<Rightarrow> (Symbol, i + 1) | Some e \<Rightarrow> (Quoted, e))
      else if is_word_start c then (Word, skip_word b i)
      else (Symbol, i + 1))"

subsection \<open>Where a region ends\<close>

lemma skip_word_from_bounds:
  "i \<le> length b \<Longrightarrow> i \<le> skip_word_from b i \<and> skip_word_from b i \<le> length b"
proof (induction b i rule: skip_word_from.induct)
  case (1 b i)
  then show ?case
    by (subst (1 2) skip_word_from.simps) (auto simp: get_at_Some_iff Suc_le_eq split: option.split)
qed

lemma line_comment_from_bounds:
  "i \<le> length b \<Longrightarrow> i \<le> fst (line_comment_from b i ending lone unread)
     \<and> fst (line_comment_from b i ending lone unread) \<le> length b"
proof (induction b i ending lone unread rule: line_comment_from.induct)
  case (1 b i ending lone unread)
  then show ?case
    by (subst (1 2) line_comment_from.simps) (auto simp: get_at_Some_iff Suc_le_eq split: option.split)
qed

lemma block_comment_from_bounds:
  "i \<le> length b \<Longrightarrow> i \<le> block_comment_from b i depth nested
     \<and> block_comment_from b i depth nested \<le> length b"
proof (induction b i depth nested rule: block_comment_from.induct)
  case (1 b i depth nested)
  then show ?case
    by (subst (1 2) block_comment_from.simps) (auto simp: get_at_Some_iff Suc_le_eq split: option.split)
qed

lemma quoted_from_bounds:
  "i \<le> length b \<Longrightarrow> i \<le> quoted_from b i quote backslash \<and> quoted_from b i quote backslash \<le> length b"
proof (induction b i quote backslash rule: quoted_from.induct)
  case (1 b i quote backslash)
  have end_b: "quoted_from b (Suc (Suc i)) quote backslash = length b" if "\<not> Suc (Suc i) \<le> length b"
    using that by (subst quoted_from.simps) (simp add: get_at_def)
  with 1 show ?case
    by (subst (1 2) quoted_from.simps)
      (cases "Suc (Suc i) \<le> length b"; auto simp: get_at_Some_iff Suc_le_eq split: option.split)
qed

lemma bracket_from_bounds: "i \<le> length b \<Longrightarrow> i \<le> bracket_from b i \<and> bracket_from b i \<le> length b"
proof (induction b i rule: bracket_from.induct)
  case (1 b i)
  show ?case
  proof (cases "get_at b i")
    case None
    with "1.prems" show ?thesis by (simp add: bracket_from.simps [of b i])
  next
    case (Some c)
    then have i: "i < length b" by (rule get_at_SomeD)
    show ?thesis
    proof (cases "c = CHR '']'' \<and> get_at b (i + 1) = Some (CHR '']'')")
      case True
      then have "i + 2 \<le> length b" using get_at_SomeD [of b "i + 1"] by simp
      with "1.IH"(1) Some True show ?thesis by (simp add: bracket_from.simps [of b i])
    next
      case False
      with "1.IH"(2) Some i show ?thesis by (auto simp add: bracket_from.simps [of b i])
    qed
  qed
qed

lemma dollar_tag_from_bounds:
  "dollar_tag_from b start i = Some e \<Longrightarrow> i < e \<and> e \<le> length b"
proof (induction b start i rule: dollar_tag_from.induct)
  case (1 b start i)
  note prems = "1.prems" [unfolded dollar_tag_from.simps [of b start i]]
  then obtain c where c: "get_at b i = Some c" by (auto split: option.splits)
  show ?case
  proof (cases "c = CHR ''$''")
    case True
    with prems c show ?thesis by (auto simp: get_at_Some_iff)
  next
    case False
    with prems c have "dollar_tag_from b start (i + 1) = Some e" by (simp split: if_splits)
    then show ?thesis using "1.IH" [OF c False] prems c False by (simp split: if_splits)
  qed
qed

lemma dollar_body_from_bounds:
  "i \<le> length b \<Longrightarrow> i \<le> dollar_body_from b tag i \<and> dollar_body_from b tag i \<le> length b"
proof (induction b tag i rule: dollar_body_from.induct)
  case (1 b tag i)
  then show ?case
    by (subst (1 2) dollar_body_from.simps) auto
qed

text \<open>The element consumes at least its first byte and never passes the end of the text.\<close>

lemma lex_bounds:
  assumes "get_at b i = Some c"
  shows "i < snd (lex b i c p)" "snd (lex b i c p) \<le> length b"
proof -
  have i: "i < length b" using assms by (rule get_at_SomeD)
  have two: "i + 2 \<le> length b" if "get_at b (i + 1) = Some d" for d
    using get_at_SomeD [OF that] by simp
  have comment: "i < fst (skip_line_comment b j e) \<and> fst (skip_line_comment b j e) \<le> length b"
    if "i < j" "j \<le> length b" for j e
    using line_comment_from_bounds [OF that(2), of e False False] that(1)
    by (auto simp: skip_line_comment_def split: prod.split)
  have block: "i < skip_block_comment b i n \<and> skip_block_comment b i n \<le> length b"
    if "i + 2 \<le> length b" for n
    using block_comment_from_bounds [OF that, of 1 n] by (simp add: skip_block_comment_def)
  have quoted: "i < skip_quoted b i q e \<and> skip_quoted b i q e \<le> length b" for q e
    using quoted_from_bounds [of "i + 1" b q e] i by (simp add: skip_quoted_def)
  have bracket: "i < skip_bracket b i \<and> skip_bracket b i \<le> length b"
    using bracket_from_bounds [of "i + 1" b] i by (simp add: skip_bracket_def)
  have dollar: "i < e \<and> e \<le> length b" if some: "skip_dollar_quoted b i = Some e" for e
  proof -
    from some obtain tag_end tag where tag: "dollar_tag_end b i = Some tag_end"
      "e = dollar_body_from b tag tag_end"
      by (auto simp: skip_dollar_quoted_def split: option.splits)
    have "i + 1 < tag_end \<and> tag_end \<le> length b"
      using tag(1) dollar_tag_from_bounds unfolding dollar_tag_end_def by blast
    with dollar_body_from_bounds [of tag_end b tag] tag(2) show ?thesis by simp
  qed
  have word: "i < skip_word b i \<and> skip_word b i \<le> length b"
    using skip_word_from_bounds [of "i + 1" b] i by (simp add: skip_word_def)
  have "i < snd (lex b i c p) \<and> snd (lex b i c p) \<le> length b"
    unfolding lex_def
    using comment [of "i + 2"] comment [of "i + 1"] two block quoted bracket dollar word i
    by (auto split: option.split)
  then show "i < snd (lex b i c p)" "snd (lex b i c p) \<le> length b" by simp_all
qed

subsection \<open>The stream of elements\<close>

text \<open>\<open>Scanner::next\<close>: skip blanks, look for the terminator, then for an element.\<close>

function scanner_next ::
  "string \<Rightarrow> split_profile \<Rightarrow> string \<Rightarrow> nat \<Rightarrow> (tok \<times> nat \<times> nat) option" where
  "scanner_next b p terminator i =
     (case get_at b i of None \<Rightarrow> None
      | Some c \<Rightarrow>
          if is_ascii_whitespace c then scanner_next b p terminator (i + 1)
          else if terminator \<noteq> [] \<and> starts_with (drop i b) terminator
          then Some (Semicolon, i, i + length terminator)
          else let (token, e) = lex b i c p in Some (token, i, e))"
  by pat_completeness auto
termination
  by (relation "measure (\<lambda>(b, _, _, i). length b - i)") (auto dest: get_at_SomeD)

declare scanner_next.simps [simp del]

lemma scanner_next_bounds:
  "scanner_next b p terminator i = Some (t, s, e) \<Longrightarrow> i \<le> s \<and> s < e \<and> e \<le> length b"
proof (induction b p terminator i rule: scanner_next.induct)
  case (1 b p terminator i)
  from "1.prems" show ?case
    using "1.IH" lex_bounds [of b i _ p] starts_with_length [of "drop i b" terminator]
    by (subst (asm) scanner_next.simps)
      (fastforce simp: get_at_Some_iff split: option.splits if_splits prod.splits)
qed

function scan_from ::
  "string \<Rightarrow> split_profile \<Rightarrow> string \<Rightarrow> nat \<Rightarrow> (tok \<times> nat \<times> nat) list" where
  "scan_from b p terminator i =
     (case scanner_next b p terminator i of None \<Rightarrow> []
      | Some (t, s, e) \<Rightarrow> (t, s, e) # scan_from b p terminator e)"
  by pat_completeness auto
termination
  by (relation "measure (\<lambda>(b, _, _, i). length b - i)") (auto dest: scanner_next_bounds)

declare scan_from.simps [simp del]

definition scan :: "string \<Rightarrow> split_profile \<Rightarrow> (tok \<times> nat \<times> nat) list" where
  "scan sql p = scan_from sql p '';'' 0"

subsection \<open>The contract of the stream\<close>

text \<open>Non-empty spans, one after the other, between two bounds.\<close>

fun ordered_spans :: "nat \<Rightarrow> nat \<Rightarrow> ('t \<times> nat \<times> nat) list \<Rightarrow> bool" where
  "ordered_spans lo hi [] \<longleftrightarrow> lo \<le> hi"
| "ordered_spans lo hi ((t, s, e) # spans) \<longleftrightarrow> lo \<le> s \<and> s < e \<and> ordered_spans e hi spans"

lemma ordered_spans_le: "ordered_spans lo hi spans \<Longrightarrow> lo \<le> hi"
  by (induction lo hi spans rule: ordered_spans.induct) auto

lemma ordered_spans_mem:
  "ordered_spans lo hi spans \<Longrightarrow> (t, s, e) \<in> set spans \<Longrightarrow> lo \<le> s \<and> s < e \<and> e \<le> hi"
  by (induction lo hi spans rule: ordered_spans.induct) (auto dest: ordered_spans_le)

lemma ordered_spans_weaken:
  "ordered_spans lo hi spans \<Longrightarrow> lo' \<le> lo \<Longrightarrow> ordered_spans lo' hi spans"
  by (cases spans) auto

lemma scan_from_ordered: "i \<le> length b \<Longrightarrow> ordered_spans i (length b) (scan_from b p terminator i)"
proof (induction b p terminator i rule: scan_from.induct)
  case (1 b p terminator i)
  show ?case
  proof (cases "scanner_next b p terminator i")
    case None
    with "1.prems" show ?thesis by (subst scan_from.simps) simp
  next
    case (Some tse)
    obtain t s e where tse: "tse = (t, s, e)" by (metis prod_cases3)
    note bounds = scanner_next_bounds [OF Some [unfolded tse]]
    with "1.IH" [OF Some] tse have "ordered_spans e (length b) (scan_from b p terminator e)" by simp
    with Some tse bounds show ?thesis by (subst scan_from.simps) simp
  qed
qed

end
