(* ===== verification/Sql_Split.thy ===== *)
theory Sql_Split
  imports Sql_Scanner
begin

text \<open>
  The readers of the scanner's stream in \<open>crates/oxyn-query/src/split.rs\<close>: the split of a batch
  into fragments, its bare words and tokens, and the view in which the executable comments of
  MySQL are code. The contract every splitter keeps is a locale.
\<close>

subsection \<open>Fragments\<close>

record fragment =
  frag_text :: string
  frag_start :: nat
  frag_end :: nat
  frag_has_comment :: bool
  frag_terminated :: bool
  frag_unreadable :: bool

definition push_fragment ::
  "string \<Rightarrow> nat \<Rightarrow> nat \<Rightarrow> bool \<Rightarrow> bool \<Rightarrow> bool \<Rightarrow> fragment list \<Rightarrow> fragment list" where
  "push_fragment sql start finish has_comment terminated unreadable out =
     (case get_range sql start finish of None \<Rightarrow> out
      | Some raw \<Rightarrow>
          (let text = trim raw in
           if text = [] then out
           else (let lead = length raw - length (trim_start raw); from = start + lead
                 in out @ [\<lparr>frag_text = text, frag_start = from, frag_end = from + length text,
                            frag_has_comment = has_comment, frag_terminated = terminated,
                            frag_unreadable = unreadable\<rparr>])))"

subsection \<open>The plain split\<close>

record split_state =
  sp_start :: nat
  sp_has_comment :: bool
  sp_has_code :: bool
  sp_unreadable :: bool
  sp_out :: "fragment list"

definition split_init :: split_state where
  "split_init = \<lparr>sp_start = 0, sp_has_comment = False, sp_has_code = False,
                 sp_unreadable = False, sp_out = []\<rparr>"

definition split_flush :: "string \<Rightarrow> nat \<Rightarrow> bool \<Rightarrow> split_state \<Rightarrow> fragment list" where
  "split_flush sql finish terminated s =
     (if sp_has_code s
      then push_fragment sql (sp_start s) finish (sp_has_comment s) terminated (sp_unreadable s) (sp_out s)
      else sp_out s)"

fun split_step :: "string \<Rightarrow> tok \<times> nat \<times> nat \<Rightarrow> split_state \<Rightarrow> split_state" where
  "split_step sql (Comment, s, e) st = st\<lparr>sp_has_comment := True\<rparr>"
| "split_step sql (UnreadableComment, s, e) st =
     st\<lparr>sp_has_comment := True, sp_has_code := True, sp_unreadable := True\<rparr>"
| "split_step sql (Semicolon, s, e) st =
     \<lparr>sp_start = e, sp_has_comment = False, sp_has_code = False, sp_unreadable = False,
      sp_out = split_flush sql s True st\<rparr>"
| "split_step sql (t, s, e) st = st\<lparr>sp_has_code := True\<rparr>"

definition split_with :: "string \<Rightarrow> split_profile \<Rightarrow> fragment list" where
  "split_with sql p =
     split_flush sql (length sql) False (fold (split_step sql) (scan sql p) split_init)"

subsection \<open>Words, tokens, comments\<close>

definition contains_comment :: "string \<Rightarrow> sql_dialect \<Rightarrow> bool" where
  "contains_comment sql d =
     list_ex (\<lambda>(t, _). t = Comment \<or> t = UnreadableComment) (scan sql (for_dialect d))"

record sql_word =
  word_text :: string
  word_start :: nat
  word_end :: nat
  word_call :: bool

definition word_of :: "string \<Rightarrow> tok \<times> nat \<times> nat \<Rightarrow> sql_word option" where
  "word_of sql tse = (case tse of (t, s, e) \<Rightarrow>
     if t \<noteq> Word then None
     else (case get_range sql s e of None \<Rightarrow> None
           | Some text \<Rightarrow> Some \<lparr>word_text = text, word_start = s, word_end = e,
                               word_call = (next_visible_byte sql e = Some (CHR ''(''))\<rparr>))"

definition words_with :: "string \<Rightarrow> split_profile \<Rightarrow> sql_word list" where
  "words_with sql p = List.map_filter (word_of sql) (scan sql p)"

definition words :: "string \<Rightarrow> sql_dialect \<Rightarrow> sql_word list" where
  "words sql d = words_with sql (for_dialect d)"

datatype token_kind = KWord | KQuoted | KString | KSymbol | KSeparator

record sql_token =
  token_kind :: token_kind
  token_text :: string
  token_start :: nat
  token_end :: nat

fun kind_of :: "tok \<Rightarrow> token_kind option" where
  "kind_of Word = Some KWord"
| "kind_of Quoted = Some KQuoted"
| "kind_of SingleQuoted = Some KString"
| "kind_of Symbol = Some KSymbol"
| "kind_of Semicolon = Some KSeparator"
| "kind_of Comment = None"
| "kind_of UnreadableComment = None"

definition token_of :: "string \<Rightarrow> tok \<times> nat \<times> nat \<Rightarrow> sql_token option" where
  "token_of sql tse = (case tse of (t, s, e) \<Rightarrow>
     (case kind_of t of None \<Rightarrow> None
      | Some k \<Rightarrow> (case get_range sql s e of None \<Rightarrow> None
          | Some text \<Rightarrow> Some \<lparr>token_kind = k, token_text = text, token_start = s, token_end = e\<rparr>)))"

definition tokens :: "string \<Rightarrow> sql_dialect \<Rightarrow> sql_token list" where
  "tokens sql d = List.map_filter (token_of sql) (scan sql (for_dialect d))"

subsection \<open>The text as MySQL runs it\<close>

text \<open>\<open>bytes.get_mut(a..b)\<close> filled with spaces.\<close>

definition blank :: "nat \<Rightarrow> nat \<Rightarrow> string \<Rightarrow> string" where
  "blank a b s = (if a \<le> b \<and> b \<le> length s then take a s @ replicate (b - a) (CHR '' '') @ drop b s else s)"

definition executable_prefix :: "string \<Rightarrow> nat option" where
  "executable_prefix comment =
     (if starts_with comment ''/*!'' then Some 3
      else if starts_with comment ''/*M!'' then Some 4 else None)"

definition unmask :: "string \<Rightarrow> tok \<times> nat \<times> nat \<Rightarrow> string option \<Rightarrow> string option" where
  "unmask sql tse unmasked = (case tse of (t, s, e) \<Rightarrow>
     (case get_range sql s e of None \<Rightarrow> unmasked
      | Some comment \<Rightarrow>
          if t \<noteq> Comment then unmasked
          else (case executable_prefix comment of None \<Rightarrow> unmasked
            | Some prefix_len \<Rightarrow>
                (let gate_len = length (takeWhile is_ascii_digit (drop prefix_len comment));
                     bytes = (case unmasked of None \<Rightarrow> sql | Some bs \<Rightarrow> bs);
                     opened = blank s (s + prefix_len + gate_len) bytes
                 in Some (if ends_with comment ''*/'' then blank (e - 2) e opened else opened)))))"

text \<open>\<open>None\<close> is \<open>Cow::Borrowed\<close>: no executable comment, the text itself.\<close>

definition executable_sql :: "string \<Rightarrow> split_profile \<Rightarrow> string option" where
  "executable_sql sql p = fold (unmask sql) (scan sql p) None"

subsection \<open>The contract of a splitter\<close>

text \<open>Fragments are slices of the text, trimmed, not empty, in order and disjoint.\<close>

definition fragment_ok :: "string \<Rightarrow> fragment \<Rightarrow> bool" where
  "fragment_ok sql f \<longleftrightarrow> get_range sql (frag_start f) (frag_end f) = Some (frag_text f)
     \<and> frag_text f \<noteq> [] \<and> trim (frag_text f) = frag_text f"

definition frag_spans :: "fragment list \<Rightarrow> (fragment \<times> nat \<times> nat) list" where
  "frag_spans fs = map (\<lambda>f. (f, frag_start f, frag_end f)) fs"

definition fragments_ok :: "string \<Rightarrow> nat \<Rightarrow> fragment list \<Rightarrow> bool" where
  "fragments_ok sql hi fs \<longleftrightarrow> ordered_spans 0 hi (frag_spans fs) \<and> (\<forall>f \<in> set fs. fragment_ok sql f)"

lemma get_range_length: "get_range xs a b = Some ys \<Longrightarrow> length ys = b - a"
  by (auto simp: get_range_Some_iff)

locale splitter =
  fixes split_text :: "string \<Rightarrow> fragment list"
  assumes split_ok: "fragments_ok sql (length sql) (split_text sql)"
begin

lemma fragment_slice:
  "f \<in> set (split_text sql) \<Longrightarrow> get_range sql (frag_start f) (frag_end f) = Some (frag_text f)"
  using split_ok [of sql] by (auto simp: fragments_ok_def fragment_ok_def)

lemma fragment_bounds:
  "f \<in> set (split_text sql) \<Longrightarrow> frag_start f < frag_end f \<and> frag_end f \<le> length sql"
  using split_ok [of sql] ordered_spans_mem [of 0 "length sql" "frag_spans (split_text sql)" f]
  by (auto simp: fragments_ok_def frag_spans_def)

lemma fragment_trimmed:
  "f \<in> set (split_text sql) \<Longrightarrow> trim (frag_text f) = frag_text f \<and> frag_text f \<noteq> []"
  using split_ok [of sql] by (auto simp: fragments_ok_def fragment_ok_def)

lemma fragments_fit: "sum_list (map (\<lambda>f. length (frag_text f)) (split_text sql)) \<le> length sql"
proof -
  have "sum_list (map (\<lambda>f. frag_end f - frag_start f) fs) + lo \<le> hi"
    if "ordered_spans lo hi (frag_spans fs)" for lo hi fs
    using that
  proof (induction fs arbitrary: lo)
    case (Cons f fs)
    then show ?case by (fastforce simp: frag_spans_def)
  qed (simp add: frag_spans_def)
  then have "sum_list (map (\<lambda>f. frag_end f - frag_start f) (split_text sql)) \<le> length sql"
    using split_ok [of sql] by (fastforce simp: fragments_ok_def)
  moreover have "map (\<lambda>f. length (frag_text f)) (split_text sql)
      = map (\<lambda>f. frag_end f - frag_start f) (split_text sql)"
    using fragment_slice by (auto dest!: get_range_length)
  ultimately show ?thesis by (simp only:)
qed

end

subsection \<open>What \<open>push_fragment\<close> adds\<close>

lemma starts_with_append: "starts_with xs p \<Longrightarrow> starts_with (xs @ ys) p"
  by (auto simp: starts_with_def) (metis append_take_drop_id diff_is_0_eq' length_take linear
      min.absorb_iff2 take0 append_Nil2 take_append)

lemma ws_lead_prefix: "ws_lead (xs @ ys) = 0 \<Longrightarrow> ws_lead xs = 0"
proof -
  assume "ws_lead (xs @ ys) = 0"
  moreover have "length w > 0" if "w \<in> set white_space" for w
    using that by (auto simp: white_space_def)
  ultimately have "find (starts_with (xs @ ys)) white_space = None"
    by (auto simp: ws_lead_def find_Some_iff split: option.splits) (metis nth_mem less_numeral_extra(3))
  then have "find (starts_with xs) white_space = None"
    by (auto simp: find_None_iff dest: starts_with_append)
  then show "ws_lead xs = 0" by (simp add: ws_lead_def)
qed

lemma ws_lead_trim_start: "ws_lead (trim_start s) = 0"
proof (induction s rule: trim_start.induct)
  case (1 s)
  then show ?case by (cases "ws_lead s = 0") (simp_all add: trim_start.simps [of s])
qed

lemma ws_trail_trim_end: "ws_trail (trim_end s) = 0"
proof (induction s rule: trim_end.induct)
  case (1 s)
  then show ?case by (cases "ws_trail s = 0") (simp_all add: trim_end.simps [of s])
qed

lemma trim_idem [simp]: "trim (trim s) = trim s"
proof -
  obtain q where "trim_start s = trim s @ q" unfolding trim_def using trim_end_prefix by blast
  then have "ws_lead (trim s) = 0" using ws_lead_trim_start [of s] ws_lead_prefix by metis
  moreover have "ws_trail (trim s) = 0" by (simp add: trim_def ws_trail_trim_end)
  ultimately show ?thesis
    using trim_start.simps [of "trim s"] trim_end.simps [of "trim s"] by (simp add: trim_def [of "trim s"])
qed

lemma ordered_spans_snoc:
  "ordered_spans lo hi (spans @ [(t, s, e)]) \<longleftrightarrow> ordered_spans lo s spans \<and> s < e \<and> e \<le> hi"
  by (induction lo hi spans rule: ordered_spans.induct) auto

lemma ordered_spans_extend: "ordered_spans lo hi spans \<Longrightarrow> hi \<le> hi' \<Longrightarrow> ordered_spans lo hi' spans"
  by (induction lo hi spans rule: ordered_spans.induct) auto

lemma fragments_ok_extend: "fragments_ok sql hi fs \<Longrightarrow> hi \<le> hi' \<Longrightarrow> fragments_ok sql hi' fs"
  by (auto simp: fragments_ok_def intro: ordered_spans_extend)

lemma get_range_sub:
  assumes "get_range s a b = Some raw" "i + n \<le> length raw"
  shows "get_range s (a + i) (a + i + n) = Some (take n (drop i raw))"
proof -
  have raw: "raw = take (b - a) (drop a s)" "a \<le> b" "b \<le> length s"
    using assms(1) by (auto simp: get_range_Some_iff)
  then have len: "i + n \<le> b - a" using assms(2) by simp
  then have "take n (drop i raw) = take n (drop (a + i) s)"
    unfolding raw(1) by (simp add: drop_take min_def add.commute)
  with raw len show ?thesis by (simp add: get_range_def)
qed

lemma fragments_ok_push:
  assumes "fragments_ok sql start fs" "start \<le> finish" "finish \<le> length sql"
  shows "fragments_ok sql finish (push_fragment sql start finish hc te un fs)"
proof -
  obtain raw where raw: "get_range sql start finish = Some raw" "length raw = finish - start"
    using assms(2,3) by (auto simp: get_range_def)
  show ?thesis
  proof (cases "trim raw = []")
    case True
    with raw show ?thesis
      using fragments_ok_extend [OF assms(1,2)] by (simp add: push_fragment_def Let_def)
  next
    case False
    let ?lead = "length raw - length (trim_start raw)"
    have fit: "?lead + length (trim raw) \<le> length raw"
      using length_trim_le [of raw] length_trim_start_le [of raw] by linarith
    have slice: "get_range sql (start + ?lead) (start + ?lead + length (trim raw)) = Some (trim raw)"
      using get_range_sub [OF raw(1) fit] trim_slice [of raw] by simp
    have "ordered_spans 0 (start + ?lead) (frag_spans fs)"
      using assms(1) by (auto simp: fragments_ok_def intro: ordered_spans_extend)
    with raw fit False slice assms show ?thesis
      by (auto simp: push_fragment_def Let_def fragments_ok_def frag_spans_def ordered_spans_snoc
          fragment_ok_def)
  qed
qed

subsection \<open>The plain split keeps the contract\<close>

definition split_inv :: "string \<Rightarrow> nat \<Rightarrow> split_state \<Rightarrow> bool" where
  "split_inv sql lo st \<longleftrightarrow> sp_start st \<le> lo \<and> fragments_ok sql (sp_start st) (sp_out st)"

lemma fragments_ok_flush:
  assumes "split_inv sql lo st" "lo \<le> finish" "finish \<le> length sql"
  shows "fragments_ok sql finish (split_flush sql finish terminated st)"
  using assms fragments_ok_push [of sql "sp_start st" "sp_out st" finish] fragments_ok_extend
  by (auto simp: split_inv_def split_flush_def)

lemma split_inv_step:
  assumes "split_inv sql lo st" "lo \<le> s" "s < e" "e \<le> length sql"
  shows "split_inv sql e (split_step sql (t, s, e) st)"
proof (cases "t = Semicolon")
  case True
  with assms fragments_ok_flush [of sql lo st s True] show ?thesis
    by (auto simp: split_inv_def intro: fragments_ok_extend)
next
  case False
  with assms show ?thesis by (cases t) (auto simp: split_inv_def)
qed

lemma split_inv_fold:
  "ordered_spans lo hi ts \<Longrightarrow> hi \<le> length sql \<Longrightarrow> split_inv sql lo st
   \<Longrightarrow> split_inv sql hi (fold (split_step sql) ts st)"
proof (induction lo hi ts arbitrary: st rule: ordered_spans.induct)
  case (1 lo hi)
  then show ?case by (auto simp: split_inv_def)
next
  case (2 lo hi t s e ts)
  then have "e \<le> length sql" using ordered_spans_le by fastforce
  with 2 show ?case using split_inv_step [of sql lo st s e t] by simp
qed

lemma scan_ordered: "ordered_spans 0 (length sql) (scan sql p)"
  by (simp add: scan_def scan_from_ordered)

lemma split_with_ok: "fragments_ok sql (length sql) (split_with sql p)"
proof -
  have "split_inv sql 0 split_init"
    by (simp add: split_inv_def split_init_def fragments_ok_def frag_spans_def)
  from split_inv_fold [OF scan_ordered order_refl this]
  have "split_inv sql (length sql) (fold (split_step sql) (scan sql p) split_init)" .
  then show ?thesis unfolding split_with_def by (rule fragments_ok_flush) simp_all
qed

interpretation plain: splitter "\<lambda>sql. split_with sql p" for p
  by unfold_locales (rule split_with_ok)

subsection \<open>The split as a grouping of the stream\<close>

text \<open>
  The reference reading of a batch: the stream cut at its semicolons. A segment is where it
  starts, where it ends, whether a semicolon ended it, and its elements.
\<close>

fun segments :: "nat \<Rightarrow> nat \<Rightarrow> tok list \<Rightarrow> (tok \<times> nat \<times> nat) list
    \<Rightarrow> (nat \<times> nat \<times> bool \<times> tok list) list" where
  "segments len start acc [] = [(start, len, False, acc)]"
| "segments len start acc ((t, s, e) # ts) =
     (if t = Semicolon then (start, s, True, acc) # segments len e [] ts
      else segments len start (acc @ [t]) ts)"

definition segment_fragments :: "string \<Rightarrow> nat \<times> nat \<times> bool \<times> tok list \<Rightarrow> fragment list" where
  "segment_fragments sql seg = (case seg of (start, finish, terminated, ts) \<Rightarrow>
     if list_ex (\<lambda>t. t \<noteq> Comment) ts
     then push_fragment sql start finish (list_ex (\<lambda>t. t = Comment \<or> t = UnreadableComment) ts)
            terminated (list_ex (\<lambda>t. t = UnreadableComment) ts) []
     else [])"

lemma push_fragment_append: "push_fragment sql a b hc te un out = out @ push_fragment sql a b hc te un []"
  by (simp add: push_fragment_def Let_def split: option.split)

lemma split_flush_segment:
  "split_flush sql finish terminated
     \<lparr>sp_start = start, sp_has_comment = list_ex (\<lambda>t. t = Comment \<or> t = UnreadableComment) acc,
      sp_has_code = list_ex (\<lambda>t. t \<noteq> Comment) acc,
      sp_unreadable = list_ex (\<lambda>t. t = UnreadableComment) acc, sp_out = out\<rparr>
   = out @ segment_fragments sql (start, finish, terminated, acc)"
  unfolding split_flush_def segment_fragments_def
  by (simp, subst push_fragment_append) simp

lemma split_fold_segments:
  "split_flush sql len False (fold (split_step sql) ts
     \<lparr>sp_start = start, sp_has_comment = list_ex (\<lambda>t. t = Comment \<or> t = UnreadableComment) acc,
      sp_has_code = list_ex (\<lambda>t. t \<noteq> Comment) acc,
      sp_unreadable = list_ex (\<lambda>t. t = UnreadableComment) acc, sp_out = out\<rparr>)
   = out @ concat (map (segment_fragments sql) (segments len start acc ts))"
proof (induction ts arbitrary: start acc out)
  case Nil
  show ?case by (simp add: split_flush_segment)
next
  case (Cons tse ts)
  obtain t s e where tse: "tse = (t, s, e)" by (metis prod_cases3)
  show ?case
  proof (cases "t = Semicolon")
    case True
    then show ?thesis
      using Cons.IH [of e "[]" "out @ segment_fragments sql (start, s, True, acc)"]
      by (simp add: tse split_flush_segment)
  next
    case False
    then show ?thesis using Cons.IH [of start "acc @ [t]" out] by (cases t) (simp_all add: tse)
  qed
qed

lemma split_with_segments:
  "split_with sql p = concat (map (segment_fragments sql) (segments (length sql) 0 [] (scan sql p)))"
  using split_fold_segments [of sql "length sql" "scan sql p" 0 "[]" "[]"]
  by (simp add: split_with_def split_init_def)

lemma segments_length: "length (segments len start acc ts) = Suc (length (filter (\<lambda>(t, _). t = Semicolon) ts))"
  by (induction len start acc ts rule: segments.induct) auto

lemma segment_fragments_le: "length (segment_fragments sql seg) \<le> 1"
  by (simp add: segment_fragments_def push_fragment_def Let_def split: prod.split option.split)

lemma split_with_count:
  "length (split_with sql p) \<le> Suc (length (filter (\<lambda>(t, _). t = Semicolon) (scan sql p)))"
proof -
  have "length (concat (map (segment_fragments sql) segs)) \<le> length segs" for segs
    by (induction segs) (use segment_fragments_le [of sql] in \<open>auto intro: order_trans [OF add_mono]\<close>)
  then show ?thesis unfolding split_with_segments using segments_length by metis
qed

subsection \<open>The executable view keeps every offset\<close>

text \<open>
  Same length, and a byte changes, into a space, only inside a comment that opens with an
  executable marker: a byte index means the same place in both texts.
\<close>

definition masked_at :: "string \<Rightarrow> (tok \<times> nat \<times> nat) list \<Rightarrow> string \<Rightarrow> bool" where
  "masked_at sql ts bs \<longleftrightarrow> length bs = length sql \<and>
     (\<forall>i < length sql. bs ! i = sql ! i
        \<or> bs ! i = CHR '' '' \<and> (\<exists>s e. (Comment, s, e) \<in> set ts \<and> s \<le> i \<and> i < e))"

lemma length_blank [simp]: "length (blank a b s) = length s"
  by (simp add: blank_def)

lemma nth_blank:
  "i < length s \<Longrightarrow> blank a b s ! i = (if b \<le> length s \<and> a \<le> i \<and> i < b then CHR '' '' else s ! i)"
  by (auto simp: blank_def nth_append)

lemma masked_at_blank:
  "masked_at sql ts bs \<Longrightarrow> (Comment, s, e) \<in> set ts \<Longrightarrow> s \<le> a \<Longrightarrow> b \<le> e \<Longrightarrow> masked_at sql ts (blank a b bs)"
  by (auto simp: masked_at_def nth_blank) (meson le_trans less_le_trans)

lemma executable_prefix_le: "executable_prefix comment = Some n \<Longrightarrow> n \<le> length comment"
  by (auto simp: executable_prefix_def dest!: starts_with_length split: if_splits)

lemma masked_at_unmask:
  assumes "(t, s, e) \<in> set ts" "\<forall>bs. unmasked = Some bs \<longrightarrow> masked_at sql ts bs"
    and "unmask sql (t, s, e) unmasked = Some bs"
  shows "masked_at sql ts bs"
proof (cases "t = Comment \<and> (\<exists>comment n. get_range sql s e = Some comment \<and> executable_prefix comment = Some n)")
  case False
  with assms(2,3) show ?thesis by (auto simp: unmask_def split: option.splits if_splits)
next
  case True
  then obtain comment n where *: "t = Comment" "get_range sql s e = Some comment"
    "executable_prefix comment = Some n" by blast
  let ?gate = "length (takeWhile is_ascii_digit (drop n comment))"
  let ?bytes = "case unmasked of None \<Rightarrow> sql | Some bs \<Rightarrow> bs"
  have "masked_at sql ts ?bytes" using assms(2) by (simp add: masked_at_def split: option.split)
  moreover have "s + n + ?gate \<le> e"
  proof -
    have "?gate \<le> length comment - n"
      using length_takeWhile_le [of is_ascii_digit "drop n comment"] by simp
    moreover have "s \<le> e" "length comment = e - s"
      using *(2) get_range_length by (auto simp: get_range_Some_iff)
    ultimately show ?thesis using executable_prefix_le [OF *(3)] by linarith
  qed
  ultimately have opened: "masked_at sql ts (blank s (s + n + ?gate) ?bytes)"
    using assms(1) * masked_at_blank by blast
  have "masked_at sql ts (blank (e - 2) e (blank s (s + n + ?gate) ?bytes))" if "ends_with comment ''*/''"
  proof -
    have "s \<le> e - 2"
      using that get_range_length [OF *(2)] by (auto simp: ends_with_def)
    with opened assms(1) * masked_at_blank show ?thesis by blast
  qed
  with opened show ?thesis using assms(3) * by (auto simp: unmask_def Let_def split: if_splits)
qed

lemma masked_at_fold:
  "set us \<subseteq> set ts \<Longrightarrow> \<forall>bs. unmasked = Some bs \<longrightarrow> masked_at sql ts bs
   \<Longrightarrow> fold (unmask sql) us unmasked = Some bs \<Longrightarrow> masked_at sql ts bs"
proof (induction us arbitrary: unmasked)
  case (Cons tse us)
  obtain t s e where tse: "tse = (t, s, e)" by (metis prod_cases3)
  have "\<forall>bs. unmask sql tse unmasked = Some bs \<longrightarrow> masked_at sql ts bs"
    using Cons.prems(1,2) masked_at_unmask tse by auto
  with Cons show ?case by simp
qed simp

lemma executable_sql_masked: "executable_sql sql p = Some bs \<Longrightarrow> masked_at sql (scan sql p) bs"
  unfolding executable_sql_def by (rule masked_at_fold) auto

end
