(* ===== verification/Mysql_Split.thy ===== *)
theory Mysql_Split
  imports Sql_Split
begin

text \<open>
  The MySQL batch (\<open>crates/oxyn-query/src/split/mysql.rs\<close>): the bodies of stored programs,
  whose semicolons end no statement, and the \<open>DELIMITER\<close> line of the \<open>mysql\<close> client. A scanner
  is its text, its terminator and its position; \<open>scanner.clone().next()\<close> looks ahead.
\<close>

definition mysql_next :: "string \<Rightarrow> string \<Rightarrow> nat \<Rightarrow> (tok \<times> nat \<times> nat) option" where
  "mysql_next sql terminator i = scanner_next sql (for_dialect MySql) terminator i"

lemma mysql_next_bounds:
  "mysql_next sql terminator i = Some (t, s, e) \<Longrightarrow> i \<le> s \<and> s < e \<and> e \<le> length sql"
  unfolding mysql_next_def by (rule scanner_next_bounds)

subsection \<open>The delimiter directive\<close>

record directive =
  dir_delimiter :: string
  dir_end :: nat

definition is_newline :: "char \<Rightarrow> bool" where
  "is_newline c \<longleftrightarrow> c = CHR 0x0A"

text \<open>\<open>split_ascii_whitespace().next()\<close>: the first run without a blank.\<close>

definition first_blank_separated :: "string \<Rightarrow> string option" where
  "first_blank_separated line =
     (let word = takeWhile (\<lambda>c. \<not> is_ascii_whitespace c) (dropWhile is_ascii_whitespace line)
      in if word = [] then None else Some word)"

definition directive_at :: "string \<Rightarrow> nat \<Rightarrow> nat \<Rightarrow> directive option" where
  "directive_at sql s e =
     (case get_range sql s e of None \<Rightarrow> None
      | Some word \<Rightarrow>
          if \<not> eq_ignore_case word ''delimiter'' then None
          else (let prior = take s sql;
                    line_before = rev (takeWhile (\<lambda>c. \<not> is_newline c) (rev prior))
                in if \<not> list_all is_ascii_whitespace line_before then None
                   else (let rest = drop e sql; line = takeWhile (\<lambda>c. \<not> is_newline c) rest
                         in if \<not> (starts_with line '' '' \<or> starts_with line [CHR 0x09]) then None
                            else (case first_blank_separated line of None \<Rightarrow> None
                              | Some delimiter \<Rightarrow>
                                  if CHR 0x5C \<in> set delimiter then None
                                  else Some \<lparr>dir_delimiter = delimiter, dir_end = e + length line\<rparr>))))"

lemma directive_at_bounds:
  assumes "directive_at sql s e = Some d" "s < e" "e \<le> length sql"
  shows "e \<le> dir_end d" "dir_end d \<le> length sql" "dir_delimiter d \<noteq> []"
proof -
  have "length (takeWhile (\<lambda>c. \<not> is_newline c) (drop e sql)) \<le> length sql - e"
    using length_takeWhile_le [of _ "drop e sql"] by simp
  then show "e \<le> dir_end d" "dir_end d \<le> length sql" "dir_delimiter d \<noteq> []"
    using assms by (auto simp: directive_at_def first_blank_separated_def Let_def
        split: option.splits if_splits)
qed

subsection \<open>Stored program bodies\<close>

datatype header = HStart | HCreate | HProgram | HOther

datatype frame = FBegin | FCaseStatement | FCaseExpression | FIf | FLoop | FWhile | FRepeat | FFor

datatype keyword = KwBegin | KwCase | KwIf | KwLoop | KwWhile | KwRepeat | KwFor | KwEnd | KwThen
  | KwElse | KwDo

fun closed_by :: "frame \<Rightarrow> keyword \<Rightarrow> bool" where
  "closed_by FCaseStatement KwCase = True"
| "closed_by FCaseExpression KwCase = True"
| "closed_by FIf KwIf = True"
| "closed_by FLoop KwLoop = True"
| "closed_by FWhile KwWhile = True"
| "closed_by FRepeat KwRepeat = True"
| "closed_by FFor KwFor = True"
| "closed_by _ _ = False"

definition keyword_table :: "(string \<times> keyword) list" where
  "keyword_table =
     [(''begin'', KwBegin), (''case'', KwCase), (''if'', KwIf), (''loop'', KwLoop),
      (''while'', KwWhile), (''repeat'', KwRepeat), (''for'', KwFor), (''end'', KwEnd),
      (''then'', KwThen), (''else'', KwElse), (''do'', KwDo)]"

definition keyword_of :: "string \<Rightarrow> keyword option" where
  "keyword_of word = map_option snd (find (\<lambda>(text, _). eq_ignore_case word text) keyword_table)"

definition is_qualifier :: "keyword \<Rightarrow> bool" where
  "is_qualifier k \<longleftrightarrow> k \<in> {KwCase, KwIf, KwLoop, KwWhile, KwRepeat, KwFor}"

definition programs :: "string list" where
  "programs = [''procedure'', ''function'', ''trigger'', ''event'']"

record body =
  body_header :: header
  body_frames :: "frame list"
  body_confused :: bool
  body_statement_start :: bool

definition body_default :: body where
  "body_default = \<lparr>body_header = HStart, body_frames = [], body_confused = False,
                   body_statement_start = False\<rparr>"

definition body_is_open :: "body \<Rightarrow> bool" where
  "body_is_open b \<longleftrightarrow> body_confused b \<or> body_frames b \<noteq> []"

definition body_is_program :: "body \<Rightarrow> bool" where
  "body_is_program b \<longleftrightarrow> body_header b = HProgram"

definition body_separator :: "body \<Rightarrow> body" where
  "body_separator b = b\<lparr>body_statement_start := True\<rparr>"

definition body_other :: "bool \<Rightarrow> body \<Rightarrow> body" where
  "body_other colon b =
     b\<lparr>body_header := (if body_header b = HStart then HOther else body_header b),
       body_statement_start := colon\<rparr>"

definition top_frame :: "body \<Rightarrow> frame option" where
  "top_frame b = (if body_frames b = [] then None else Some (last (body_frames b)))"

definition push_frame :: "frame \<Rightarrow> body \<Rightarrow> body" where
  "push_frame f b = b\<lparr>body_frames := body_frames b @ [f]\<rparr>"

definition pop_frame :: "body \<Rightarrow> body" where
  "pop_frame b = b\<lparr>body_frames := butlast (body_frames b)\<rparr>"

definition open_frame :: "frame \<Rightarrow> bool \<Rightarrow> body \<Rightarrow> body" where
  "open_frame f body_follows b = (push_frame f b)\<lparr>body_statement_start := body_follows\<rparr>"

text \<open>Every operation that reads ahead answers where the scanner stands after it.\<close>

definition expect_word :: "string \<Rightarrow> string \<Rightarrow> nat \<Rightarrow> string \<Rightarrow> nat option" where
  "expect_word sql terminator i kw =
     (case mysql_next sql terminator i of
        Some (Word, s, e) \<Rightarrow>
          (case get_range sql s e of
             Some word \<Rightarrow> if eq_ignore_case word kw then Some e else None
           | None \<Rightarrow> None)
      | _ \<Rightarrow> None)"

definition skip_not_atomic :: "string \<Rightarrow> string \<Rightarrow> nat \<Rightarrow> nat option" where
  "skip_not_atomic sql terminator i =
     (case expect_word sql terminator i ''not'' of None \<Rightarrow> None
      | Some j \<Rightarrow> expect_word sql terminator j ''atomic'')"

definition opens_block :: "string \<Rightarrow> string \<Rightarrow> nat \<Rightarrow> bool \<Rightarrow> bool \<Rightarrow> bool" where
  "opens_block sql terminator i at_start exists_clause =
     (if at_start then True
      else (case mysql_next sql terminator i of
              Some (Symbol, s, e) \<Rightarrow> get_at sql s \<noteq> Some (CHR ''('')
            | Some (Word, s, e) \<Rightarrow>
                (let word = (case get_range sql s e of Some w \<Rightarrow> w | None \<Rightarrow> [])
                 in \<not> (exists_clause \<and> (eq_ignore_case word ''exists'' \<or> eq_ignore_case word ''not'')))
            | _ \<Rightarrow> True))"

definition end_qualifier :: "string \<Rightarrow> string \<Rightarrow> nat \<Rightarrow> (keyword \<times> nat) option" where
  "end_qualifier sql terminator i =
     (case mysql_next sql terminator i of
        Some (Word, s, e) \<Rightarrow>
          (case get_range sql s e of None \<Rightarrow> None
           | Some word \<Rightarrow> (case keyword_of word of
                None \<Rightarrow> None
              | Some k \<Rightarrow> if is_qualifier k then Some (k, e) else None))
      | _ \<Rightarrow> None)"

definition close_frame :: "bool \<Rightarrow> body \<Rightarrow> body" where
  "close_frame closes b = (if closes then pop_frame b else b\<lparr>body_confused := True\<rparr>)"

definition body_close :: "string \<Rightarrow> string \<Rightarrow> bool \<Rightarrow> nat \<Rightarrow> body \<Rightarrow> body \<times> nat" where
  "body_close sql terminator at_start i b =
     (case end_qualifier sql terminator i of
        Some (k, j) \<Rightarrow>
          (close_frame (case top_frame b of None \<Rightarrow> False | Some f \<Rightarrow> closed_by f k) b, j)
      | None \<Rightarrow>
          if at_start then (close_frame (top_frame b = Some FBegin) b, i)
          else if top_frame b = Some FCaseExpression then (close_frame True b, i)
          else (b, i))"

definition first_word :: "string \<Rightarrow> string \<Rightarrow> string \<Rightarrow> nat \<Rightarrow> body \<Rightarrow> body \<times> nat" where
  "first_word sql terminator word i b =
     (if eq_ignore_case word ''create'' \<or> eq_ignore_case word ''alter''
      then (b\<lparr>body_header := HCreate\<rparr>, i)
      else if eq_ignore_case word ''begin''
      then (case skip_not_atomic sql terminator i of
              Some j \<Rightarrow> ((open_frame FBegin True b)\<lparr>body_header := HProgram\<rparr>, j)
            | None \<Rightarrow> (b\<lparr>body_header := HOther\<rparr>, i))
      else (b\<lparr>body_header := HOther\<rparr>, i))"

definition body_word :: "string \<Rightarrow> string \<Rightarrow> string \<Rightarrow> nat \<Rightarrow> body \<Rightarrow> body \<times> nat" where
  "body_word sql terminator word i b0 =
     (let at_start = body_statement_start b0; b = b0\<lparr>body_statement_start := False\<rparr> in
      case keyword_of word of
        None \<Rightarrow> (b, i)
      | Some k \<Rightarrow> (case k of
            KwBegin \<Rightarrow> (open_frame FBegin True b, i)
          | KwCase \<Rightarrow> (push_frame (if at_start then FCaseStatement else FCaseExpression) b, i)
          | KwIf \<Rightarrow> (if opens_block sql terminator i at_start True then open_frame FIf False b else b, i)
          | KwRepeat \<Rightarrow>
              (if opens_block sql terminator i at_start False then open_frame FRepeat True b else b, i)
          | KwLoop \<Rightarrow> (open_frame FLoop True b, i)
          | KwWhile \<Rightarrow> (open_frame FWhile False b, i)
          | KwFor \<Rightarrow> (if at_start then open_frame FFor False b else b, i)
          | KwEnd \<Rightarrow> body_close sql terminator at_start i b
          | KwThen \<Rightarrow> (b\<lparr>body_statement_start := (top_frame b \<noteq> Some FCaseExpression)\<rparr>, i)
          | KwElse \<Rightarrow> (b\<lparr>body_statement_start := (top_frame b \<noteq> Some FCaseExpression)\<rparr>, i)
          | KwDo \<Rightarrow> (b\<lparr>body_statement_start := True\<rparr>, i)))"

text \<open>\<open>Body::word\<close>; \<open>i\<close> is where the scanner stands, the end of the word.\<close>

definition take_word :: "string \<Rightarrow> string \<Rightarrow> nat \<Rightarrow> nat \<Rightarrow> body \<Rightarrow> body \<times> nat" where
  "take_word sql terminator s i b =
     (case get_range sql s i of None \<Rightarrow> (b, i)
      | Some word \<Rightarrow> (case body_header b of
            HStart \<Rightarrow> first_word sql terminator word i b
          | HCreate \<Rightarrow>
              (if list_ex (eq_ignore_case word) programs then b\<lparr>body_header := HProgram\<rparr> else b, i)
          | HProgram \<Rightarrow> body_word sql terminator word i b
          | HOther \<Rightarrow> (b, i)))"

lemma expect_word_bounds:
  "expect_word sql terminator i kw = Some j \<Longrightarrow> i < j \<and> j \<le> length sql"
  by (auto simp: expect_word_def dest: mysql_next_bounds split: option.splits prod.splits tok.splits if_splits)

lemma skip_not_atomic_bounds:
  "skip_not_atomic sql terminator i = Some j \<Longrightarrow> i < j \<and> j \<le> length sql"
  by (auto simp: skip_not_atomic_def dest!: expect_word_bounds split: option.splits)

lemma end_qualifier_bounds: "end_qualifier sql terminator i = Some (k, j) \<Longrightarrow> i < j \<and> j \<le> length sql"
  by (auto simp: end_qualifier_def dest: mysql_next_bounds split: option.splits prod.splits tok.splits if_splits)

lemma body_close_bounds:
  "i \<le> length sql \<Longrightarrow> i \<le> snd (body_close sql terminator at_start i b)
     \<and> snd (body_close sql terminator at_start i b) \<le> length sql"
  by (auto simp: body_close_def dest: end_qualifier_bounds split: option.split)

lemma take_word_bounds:
  "i \<le> length sql \<Longrightarrow> i \<le> snd (take_word sql terminator s i b) \<and> snd (take_word sql terminator s i b) \<le> length sql"
  using body_close_bounds [of i sql terminator]
  by (auto simp: take_word_def first_word_def body_word_def Let_def dest: skip_not_atomic_bounds
      split: option.split header.split keyword.split)

subsection \<open>The split\<close>

record pending =
  pend_start :: nat
  pend_has_comment :: bool
  pend_has_code :: bool
  pend_unreadable :: bool
  pend_body :: body

definition pending_at :: "nat \<Rightarrow> pending" where
  "pending_at start = \<lparr>pend_start = start, pend_has_comment = False, pend_has_code = False,
                      pend_unreadable = False, pend_body = body_default\<rparr>"

definition pending_flush :: "string \<Rightarrow> nat \<Rightarrow> bool \<Rightarrow> pending \<Rightarrow> fragment list \<Rightarrow> fragment list" where
  "pending_flush sql finish terminated pd out =
     (if pend_has_code pd
      then push_fragment sql (pend_start pd) finish (pend_has_comment pd) terminated
             (pend_unreadable pd) out
      else out)"

definition is_colon :: "string \<Rightarrow> tok \<Rightarrow> nat \<Rightarrow> bool" where
  "is_colon sql t s \<longleftrightarrow> t = Symbol \<and> get_at sql s = Some (CHR '':'')"

text \<open>One turn of the loop of \<open>split\<close>: the terminator, the position, the pending statement and the
  fragments after the element \<open>(t, s, e)\<close>.\<close>

definition mysql_step :: "string \<Rightarrow> tok \<times> nat \<times> nat \<Rightarrow> string \<times> pending \<times> fragment list
    \<Rightarrow> (string \<times> nat) \<times> pending \<times> fragment list" where
  "mysql_step sql tse st = (case (tse, st) of ((t, s, e), terminator, pd, out) \<Rightarrow>
     (case t of
        Comment \<Rightarrow> ((terminator, e), pd\<lparr>pend_has_comment := True\<rparr>, out)
      | UnreadableComment \<Rightarrow>
          ((terminator, e),
           pd\<lparr>pend_has_comment := True, pend_has_code := True, pend_unreadable := True\<rparr>, out)
      | Semicolon \<Rightarrow>
          if body_is_open (pend_body pd)
          then ((terminator, e), pd\<lparr>pend_body := body_separator (pend_body pd)\<rparr>, out)
          else ((terminator, e), pending_at e, pending_flush sql s True pd out)
      | Word \<Rightarrow>
          (case directive_at sql s e of
             Some d \<Rightarrow>
               ((dir_delimiter d, dir_end d), pending_at (dir_end d), pending_flush sql s False pd out)
           | None \<Rightarrow>
               if terminator = '';''
               then (let (b, j) = take_word sql terminator s e (pend_body pd)
                     in ((terminator, j), pd\<lparr>pend_has_code := True, pend_body := b\<rparr>, out))
               else ((terminator, e), pd\<lparr>pend_has_code := True\<rparr>, out))
      | _ \<Rightarrow> ((terminator, e),
             pd\<lparr>pend_has_code := True, pend_body := body_other (is_colon sql t s) (pend_body pd)\<rparr>, out)))"

lemma mysql_step_bounds:
  assumes "s < e" "e \<le> length sql" "mysql_step sql (t, s, e) st = ((terminator', j), pd', out')"
  shows "e \<le> j \<and> j \<le> length sql"
proof -
  have d: "e \<le> dir_end d \<and> dir_end d \<le> length sql" if "directive_at sql s e = Some d" for d
    using directive_at_bounds [OF that assms(1,2)] by simp
  have w: "e \<le> j \<and> j \<le> length sql" if "take_word sql q s e b = (b', j)" for q b b' j
    using take_word_bounds [OF assms(2), of q s b] that by simp
  show ?thesis
    using assms d w unfolding mysql_step_def
    by (auto split: prod.splits tok.splits option.splits if_splits)
qed

function mysql_loop :: "string \<Rightarrow> string \<Rightarrow> nat \<Rightarrow> pending \<Rightarrow> fragment list \<Rightarrow> fragment list" where
  "mysql_loop sql terminator i pd out =
     (case mysql_next sql terminator i of
        None \<Rightarrow> pending_flush sql (length sql) False pd out
      | Some tse \<Rightarrow>
          (case mysql_step sql tse (terminator, pd, out) of ((terminator', j), pd', out') \<Rightarrow>
             mysql_loop sql terminator' j pd' out'))"
  by pat_completeness auto
termination
proof (relation "measure (\<lambda>(sql, _, i, _). length sql - i)", goal_cases)
  case 1
  show ?case by simp
next
  case (2 sql terminator i pd out tse x y xa ya xb yb)
  obtain t s e where tse: "tse = (t, s, e)" by (metis prod_cases3)
  then have "i \<le> s \<and> s < e \<and> e \<le> length sql" using 2(1) mysql_next_bounds by metis
  moreover from this have "e \<le> ya \<and> ya \<le> length sql"
    using 2 mysql_step_bounds [of s e sql t "(terminator, pd, out)"] tse by metis
  ultimately show ?case by (simp add: diff_less_mono2)
qed

declare mysql_loop.simps [simp del]

definition mysql_split :: "string \<Rightarrow> fragment list" where
  "mysql_split sql = mysql_loop sql '';'' 0 (pending_at 0) []"

definition split :: "string \<Rightarrow> sql_dialect \<Rightarrow> fragment list" where
  "split sql d = (if d = MySql then mysql_split sql else split_with sql (for_dialect d))"

subsection \<open>Is a stored program complete?\<close>

function program_loop :: "string \<Rightarrow> nat \<Rightarrow> body \<Rightarrow> bool \<Rightarrow> body \<times> bool" where
  "program_loop sql i b single =
     (case mysql_next sql '';'' i of
        None \<Rightarrow> (b, single)
      | Some (t, s, e) \<Rightarrow>
          (case t of
             Semicolon \<Rightarrow>
               if body_is_open b then program_loop sql e (body_separator b) single
               else program_loop sql e b False
           | Word \<Rightarrow>
               (case take_word sql '';'' s e b of (b', j) \<Rightarrow> program_loop sql j b' single)
           | Comment \<Rightarrow> program_loop sql e b single
           | UnreadableComment \<Rightarrow> program_loop sql e b single
           | _ \<Rightarrow> program_loop sql e (body_other (is_colon sql t s) b) single))"
  by pat_completeness auto
termination
proof (relation "measure (\<lambda>(sql, i, _). length sql - i)", goal_cases)
  case (2 sql i b single tse t se s e b' j)
  then have "i \<le> s \<and> s < e \<and> e \<le> length sql" using mysql_next_bounds by metis
  moreover from this have "e \<le> j \<and> j \<le> length sql" using 2 take_word_bounds [of e sql _ s b] by (metis snd_conv)
  ultimately show ?case by (simp add: diff_less_mono2)
qed (auto dest: mysql_next_bounds)

declare program_loop.simps [simp del]

definition program_is_complete :: "string \<Rightarrow> bool option" where
  "program_is_complete sql =
     (case program_loop sql 0 body_default True of (b, single) \<Rightarrow>
        if body_is_program b then Some (single \<and> \<not> body_is_open b) else None)"

subsection \<open>The MySQL split keeps the contract\<close>

definition pending_inv :: "string \<Rightarrow> nat \<Rightarrow> pending \<Rightarrow> fragment list \<Rightarrow> bool" where
  "pending_inv sql lo pd out \<longleftrightarrow> pend_start pd \<le> lo \<and> fragments_ok sql (pend_start pd) out"

lemma pending_inv_flush:
  assumes "pending_inv sql lo pd out" "lo \<le> finish" "finish \<le> length sql"
  shows "fragments_ok sql finish (pending_flush sql finish terminated pd out)"
  using assms fragments_ok_push [of sql "pend_start pd" out finish] fragments_ok_extend
  by (auto simp: pending_inv_def pending_flush_def)

lemma pending_inv_restart:
  assumes "pending_inv sql lo pd out" "lo \<le> s" "s \<le> j" "j \<le> length sql"
  shows "pending_inv sql j (pending_at j) (pending_flush sql s terminated pd out)"
proof -
  have "fragments_ok sql s (pending_flush sql s terminated pd out)"
    using pending_inv_flush assms by (meson le_trans)
  then show ?thesis using assms(3)
    by (auto simp: pending_inv_def pending_at_def intro: fragments_ok_extend)
qed

lemma pending_inv_step:
  assumes inv: "pending_inv sql lo pd out" and se: "lo \<le> s" "s < e" "e \<le> length sql"
    and st: "mysql_step sql (t, s, e) (terminator, pd, out) = ((terminator', j), pd', out')"
  shows "pending_inv sql j pd' out'"
proof -
  have j: "e \<le> j \<and> j \<le> length sql" using mysql_step_bounds [OF se(2,3) st] .
  have same: "pending_inv sql j pd' out" if "pend_start pd' = pend_start pd"
    using that inv se j by (auto simp: pending_inv_def)
  consider "pend_start pd' = pend_start pd" "out' = out"
    | tm where "pd' = pending_at j" "out' = pending_flush sql s tm pd out"
    using st by (auto simp: mysql_step_def split: prod.splits tok.splits option.splits if_splits)
  then show ?thesis
    using same pending_inv_restart [OF inv se(1), of j] se j by cases auto
qed

lemma mysql_loop_ok:
  "i \<le> length sql \<Longrightarrow> pending_inv sql i pd out
   \<Longrightarrow> fragments_ok sql (length sql) (mysql_loop sql terminator i pd out)"
proof (induction sql terminator i pd out rule: mysql_loop.induct)
  case (1 sql terminator i pd out)
  show ?case
  proof (cases "mysql_next sql terminator i")
    case None
    with 1 show ?thesis using pending_inv_flush [of sql i pd out "length sql" False]
      by (subst mysql_loop.simps) simp
  next
    case (Some tse)
    obtain t s e where tse: "tse = (t, s, e)" by (metis prod_cases3)
    obtain terminator' j pd' out' where st:
      "mysql_step sql tse (terminator, pd, out) = ((terminator', j), pd', out')"
      by (metis prod.exhaust)
    have se: "i \<le> s" "s < e" "e \<le> length sql" using mysql_next_bounds Some tse by blast+
    have "pending_inv sql j pd' out'" "j \<le> length sql"
      using pending_inv_step [OF "1.prems"(2) se] mysql_step_bounds [OF se(2,3)] st tse by blast+
    then have "fragments_ok sql (length sql) (mysql_loop sql terminator' j pd' out')"
      using "1.IH" [OF Some st [symmetric] refl refl] by blast
    with Some st show ?thesis by (subst mysql_loop.simps) simp
  qed
qed

lemma mysql_split_ok: "fragments_ok sql (length sql) (mysql_split sql)"
  unfolding mysql_split_def
  by (rule mysql_loop_ok) (simp_all add: pending_inv_def pending_at_def fragments_ok_def frag_spans_def)

lemma split_ok: "fragments_ok sql (length sql) (split sql d)"
  by (simp add: split_def mysql_split_ok split_with_ok)

interpretation mysql: splitter mysql_split
  by unfold_locales (rule mysql_split_ok)

interpretation batch: splitter "\<lambda>sql. split sql d" for d
  by unfold_locales (rule split_ok)

subsection \<open>A batch without a program word is split plainly\<close>

definition program_words :: "string list" where
  "program_words = [''delimiter'', ''create'', ''alter'', ''begin'']"

definition plain_element :: "string \<Rightarrow> tok \<times> nat \<times> nat \<Rightarrow> bool" where
  "plain_element sql tse = (case word_of sql tse of None \<Rightarrow> True
     | Some w \<Rightarrow> \<not> list_ex (eq_ignore_case (word_text w)) program_words)"

definition plain_body :: "body \<Rightarrow> bool" where
  "plain_body b \<longleftrightarrow> \<not> body_is_open b \<and> body_header b \<in> {HStart, HOther}"

definition split_view :: "pending \<Rightarrow> fragment list \<Rightarrow> split_state" where
  "split_view pd out = \<lparr>sp_start = pend_start pd, sp_has_comment = pend_has_comment pd,
     sp_has_code = pend_has_code pd, sp_unreadable = pend_unreadable pd, sp_out = out\<rparr>"

lemma pending_flush_view: "pending_flush sql finish tm pd out = split_flush sql finish tm (split_view pd out)"
  by (simp add: pending_flush_def split_flush_def split_view_def)

lemma plain_element_word:
  "plain_element sql (Word, s, e) \<Longrightarrow> get_range sql s e = Some w \<Longrightarrow>
   \<not> eq_ignore_case w ''delimiter'' \<and> \<not> eq_ignore_case w ''create''
   \<and> \<not> eq_ignore_case w ''alter'' \<and> \<not> eq_ignore_case w ''begin''"
  by (simp add: plain_element_def word_of_def program_words_def)

lemma plain_take_word:
  "plain_element sql (Word, s, e) \<Longrightarrow> plain_body b
   \<Longrightarrow> \<exists>b'. take_word sql q s e b = (b', e) \<and> plain_body b'"
  by (auto simp: take_word_def first_word_def plain_body_def body_is_open_def
      dest: plain_element_word split: option.split header.split)

lemma plain_step:
  assumes "plain_element sql (t, s, e)" "plain_body (pend_body pd)"
  shows "\<exists>pd' out'. mysql_step sql (t, s, e) ('';'', pd, out) = (('';'', e), pd', out')
     \<and> plain_body (pend_body pd') \<and> split_view pd' out' = split_step sql (t, s, e) (split_view pd out)"
proof (cases t)
  case Word
  have "directive_at sql s e = None"
    using assms(1) Word by (auto simp: directive_at_def dest: plain_element_word split: option.split)
  moreover obtain b' where "take_word sql '';'' s e (pend_body pd) = (b', e)" "plain_body b'"
    using plain_take_word assms Word by blast
  ultimately show ?thesis using Word by (simp add: mysql_step_def split_view_def)
next
  case Semicolon
  with assms(2) show ?thesis
    by (simp add: mysql_step_def split_view_def plain_body_def pending_at_def pending_flush_view)
      (simp add: body_default_def body_is_open_def)
qed (use assms(2) in \<open>auto simp: mysql_step_def split_view_def plain_body_def body_other_def body_is_open_def\<close>)

lemma plain_loop:
  "list_all (plain_element sql) (scan_from sql (for_dialect MySql) '';'' i) \<Longrightarrow> plain_body (pend_body pd)
   \<Longrightarrow> mysql_loop sql '';'' i pd out
     = split_flush sql (length sql) False
         (fold (split_step sql) (scan_from sql (for_dialect MySql) '';'' i) (split_view pd out))"
proof (induction "length sql - i" arbitrary: i pd out rule: less_induct)
  case less
  show ?case
  proof (cases "mysql_next sql '';'' i")
    case None
    then show ?thesis
      by (subst mysql_loop.simps, subst scan_from.simps) (simp add: pending_flush_view mysql_next_def)
  next
    case (Some tse)
    obtain t s e where tse: "tse = (t, s, e)" by (metis prod_cases3)
    have se: "i \<le> s" "s < e" "e \<le> length sql" using mysql_next_bounds Some tse by blast+
    have scan: "scan_from sql (for_dialect MySql) '';'' i
        = (t, s, e) # scan_from sql (for_dialect MySql) '';'' e"
      using Some tse by (subst scan_from.simps) (simp add: mysql_next_def)
    obtain pd' out' where st: "mysql_step sql tse ('';'', pd, out) = (('';'', e), pd', out')"
      "plain_body (pend_body pd')" "split_view pd' out' = split_step sql tse (split_view pd out)"
      using plain_step [of sql t s e pd out] less.prems scan tse by auto
    have "mysql_loop sql '';'' e pd' out' = split_flush sql (length sql) False
         (fold (split_step sql) (scan_from sql (for_dialect MySql) '';'' e) (split_view pd' out'))"
      by (rule less.hyps) (use se less.prems st scan in auto)
    with Some st tse scan show ?thesis by (subst mysql_loop.simps) simp
  qed
qed

lemma words_with_mem:
  "tse \<in> set (scan sql p) \<Longrightarrow> word_of sql tse = Some w \<Longrightarrow> w \<in> set (words_with sql p)"
  by (force simp: words_with_def map_filter_def)

lemma mysql_split_plain:
  assumes "list_all (\<lambda>w. \<not> list_ex (eq_ignore_case (word_text w)) program_words) (words sql MySql)"
  shows "mysql_split sql = split_with sql (for_dialect MySql)"
proof -
  have "list_all (plain_element sql) (scan sql (for_dialect MySql))"
    using assms words_with_mem unfolding words_def
    by (fastforce simp: list_all_iff plain_element_def split: option.split)
  then show ?thesis
    using plain_loop [of sql 0 "pending_at 0" "[]"]
    by (simp add: mysql_split_def split_with_def scan_def pending_at_def plain_body_def body_default_def
        body_is_open_def split_view_def split_init_def)
qed

subsection \<open>A misread body only merges\<close>

lemma confused_take_word: "body_confused b \<Longrightarrow> body_confused (fst (take_word sql q s e b))"
  by (auto simp: take_word_def first_word_def body_word_def body_close_def close_frame_def pop_frame_def
      open_frame_def push_frame_def Let_def split: option.split header.split keyword.split)

lemma confused_step:
  assumes "body_confused (pend_body pd)" "directive_at sql s e = None"
    and "mysql_step sql (t, s, e) ('';'', pd, out) = ((q, j), pd', out')"
  shows "q = '';'' \<and> body_confused (pend_body pd') \<and> pend_start pd' = pend_start pd \<and> out' = out"
proof -
  have "body_confused b" if "take_word sql q s e (pend_body pd) = (b, j)" for q b j
    using confused_take_word [OF assms(1)] that by (metis fst_conv)
  then show ?thesis using assms
    by (auto simp: mysql_step_def body_is_open_def body_separator_def body_other_def
        split: prod.splits tok.splits)
qed

lemma confused_loop:
  "body_confused (pend_body pd) \<Longrightarrow> \<forall>s e. i \<le> s \<longrightarrow> directive_at sql s e = None \<Longrightarrow> i \<le> length sql
   \<Longrightarrow> \<exists>pd'. pend_start pd' = pend_start pd
        \<and> mysql_loop sql '';'' i pd out = pending_flush sql (length sql) False pd' out"
proof (induction "length sql - i" arbitrary: i pd out rule: less_induct)
  case less
  show ?case
  proof (cases "mysql_next sql '';'' i")
    case None
    then show ?thesis by (subst mysql_loop.simps) auto
  next
    case (Some tse)
    obtain t s e where tse: "tse = (t, s, e)" by (metis prod_cases3)
    obtain q j pd' out' where st: "mysql_step sql tse ('';'', pd, out) = ((q, j), pd', out')"
      by (metis prod.exhaust)
    have se: "i \<le> s" "s < e" "e \<le> length sql" using mysql_next_bounds Some tse by blast+
    have j: "e \<le> j" "j \<le> length sql" using mysql_step_bounds [OF se(2,3)] st tse by blast+
    have next_pd: "q = '';'' \<and> body_confused (pend_body pd') \<and> pend_start pd' = pend_start pd \<and> out' = out"
      using confused_step [OF less.prems(1)] less.prems(2) se(1) st tse by blast
    then have "\<exists>pd''. pend_start pd'' = pend_start pd'
        \<and> mysql_loop sql '';'' j pd' out' = pending_flush sql (length sql) False pd'' out'"
      by (intro less.hyps) (use se j less.prems in auto)
    with Some st next_pd show ?thesis by (subst mysql_loop.simps) simp
  qed
qed

end
