(* ===== verification/Sql_Ast.thy ===== *)
theory Sql_Ast
  imports Query_Types Float64
begin

text \<open>
  What \<open>crates/oxyn-query\<close> reads of the syntax tree of \<open>sqlparser\<close>, a third-party crate. A form
  the code tests is a constructor of the same name with the fields the code reads; forms that
  one arm of a match treats alike and reads nothing of are an enumeration; every other form is
  \<open>Other\<close>. The parser and the rendering of an expression are parameters (\<open>sql_library\<close>).
\<close>

subsection \<open>Grammars\<close>

datatype grammar = GenericGrammar | PostgreSqlGrammar | MySqlGrammar | SQLiteGrammar | MsSqlGrammar
  | ClickHouseGrammar | DuckDbGrammar | SnowflakeGrammar | BigQueryGrammar

fun parser_dialect :: "sql_dialect \<Rightarrow> grammar" where
  "parser_dialect Postgres = PostgreSqlGrammar"
| "parser_dialect Redshift = PostgreSqlGrammar"
| "parser_dialect MySql = MySqlGrammar"
| "parser_dialect Sqlite = SQLiteGrammar"
| "parser_dialect SqlServer = MsSqlGrammar"
| "parser_dialect ClickHouse = ClickHouseGrammar"
| "parser_dialect DuckDb = DuckDbGrammar"
| "parser_dialect Snowflake = SnowflakeGrammar"
| "parser_dialect BigQuery = BigQueryGrammar"
| "parser_dialect _ = GenericGrammar"

definition dialect_for :: "driver_id \<Rightarrow> sql_dialect" where
  "dialect_for d = (case d of DriverId name \<Rightarrow>
     if name = ''postgres'' then Postgres
     else if name = ''mysql'' then MySql
     else if name = ''sqlite'' \<or> name = ''turso'' then Sqlite
     else if name = ''sqlserver'' \<or> name = ''mssql'' then SqlServer
     else if name = ''oracle'' then Oracle
     else if name = ''clickhouse'' then ClickHouse
     else if name = ''duckdb'' then DuckDb
     else if name = ''snowflake'' then Snowflake
     else if name = ''bigquery'' then BigQuery
     else if name = ''redshift'' then Redshift
     else Ansi)"

subsection \<open>Expressions\<close>

datatype sql_value = VBoolean bool | VNumber string | VOther string

datatype unary_operator = OpNot | OpMinus | OpPlus | OpOtherUnary string

datatype binary_operator = OpOr | OpAnd | OpEq | OpNotEq | OpGt | OpLt | OpGtEq | OpLtEq
  | OpOtherBinary string

datatype sql_expr =
    ExNested sql_expr
  | ExValue sql_value
  | ExUnaryOp unary_operator sql_expr
  | ExBinaryOp sql_expr binary_operator sql_expr
  | ExIdentifier string
  | ExCompoundIdentifier "string list"
  | ExOther string

subsection \<open>Statements\<close>

datatype show_form = ShowFunctions | ShowVariable | ShowStatus | ShowVariables | ShowCreate
  | ShowColumns | ShowCatalogs | ShowDatabases | ShowProcessList | ShowSchemas | ShowCharset
  | ShowObjects | ShowTables | ShowViews | ShowCollation

datatype transaction_form = Commit | Rollback | Savepoint | ReleaseSavepoint

datatype copy_target = CopyStdin | CopyStdout | CopyFile string | CopyProgram string

datatype copy_into_kind = CopyIntoTable | CopyIntoLocation

datatype object_type = ObjRole | ObjUser | ObjOther string

datatype drop_form = DropFunction | DropDomain | DropProcedure | DropSecret | DropPolicy
  | DropConnector | DropExtension | DropOperator | DropOperatorFamily | DropOperatorClass
  | DropTrigger

datatype create_form = CreateView | CreateTable | CreateVirtualTable | CreateIndex | CreateSecret
  | CreateServer | CreatePolicy | CreateConnector | CreateOperator | CreateOperatorFamily
  | CreateOperatorClass | CreateExtension | CreateCollation | CreateSchema | CreateDatabase
  | CreateFunction | CreateTrigger | CreateProcedure | CreateMacro | CreateStage | CreateSequence
  | CreateDomain | CreateType

datatype alter_form = AlterTable | AlterSchema | AlterIndex | AlterView | AlterFunction | AlterType
  | AlterCollation | AlterOperator | AlterOperatorFamily | AlterOperatorClass | AlterPolicy
  | AlterConnector | RenameTable | CommentOn | AttachDatabase | AttachDuckDBDatabase
  | DetachDuckDBDatabase

datatype rights_form = GrantRights | RevokeRights | DenyRights | CreateRole | AlterRole | CreateUser
  | AlterUser

datatype set_form = SetRole | SetSessionAuthorization | SetOther string

datatype sql_statement =
    StQuery sql_query
  | StExplain bool "string list option" sql_statement
  | StExplainTable
  | StShow show_form
  | StStartTransaction "sql_statement list" "string list option" bool
  | StTransaction transaction_form
  | StInsert "sql_query option"
  | StUpdate "sql_expr option"
  | StDelete "sql_expr option"
  | StMerge
  | StCopy copy_source bool copy_target
  | StCopyIntoSnowflake copy_into_kind
  | StTruncate
  | StDrop object_type
  | StDropForm drop_form
  | StCreateForm create_form
  | StAlterForm alter_form
  | StRights rights_form
  | StSet set_form
  | StUse
  | StOther string
and sql_query = SqlQuery "sql_query list option" sql_set_expr
and sql_set_expr =
    SeSelect bool
  | SeValues
  | SeTable
  | SeQuery sql_query
  | SeSetOperation sql_set_expr sql_set_expr
  | SeInsert sql_statement
  | SeUpdate sql_statement
  | SeDelete sql_statement
  | SeMerge sql_statement
and copy_source = CopyTable | CopyQuery sql_query

text \<open>
  What the code calls of \<open>sqlparser\<close>: \<open>Parser::parse_sql\<close>, the error as its rendering, and the
  \<open>Display\<close> of an expression.
\<close>

record sql_library =
  parse_sql :: "grammar \<Rightarrow> string \<Rightarrow> string + sql_statement list"
  render_expr :: "sql_expr \<Rightarrow> string"

end
