(* ===== verification/Classify.thy ===== *)
theory Classify
  imports Mysql_Split Sql_Ast
begin

text \<open>
  Intent classification (\<open>crates/oxyn-query/src/classify.rs\<close>): what a text does, from its
  syntax tree, with a lexical net under it. The parser is a parameter: the results hold for
  whatever it answers.
\<close>

subsection \<open>Facts\<close>

record facts =
  f_intent :: statement_intent
  f_risk :: mutation_risk

definition facts_of :: "statement_intent \<Rightarrow> mutation_risk \<Rightarrow> facts" where
  "facts_of i r = \<lparr>f_intent = i, f_risk = r\<rparr>"

abbreviation "READ \<equiv> facts_of Read RiskNone"
abbreviation "WRITE \<equiv> facts_of Write RiskNone"
abbreviation "DDL \<equiv> facts_of Ddl RiskNone"
abbreviation "GRANT \<equiv> facts_of Grant RiskNone"
abbreviation "UNKNOWN \<equiv> facts_of Unknown RiskNone"

fun intent_rank :: "statement_intent \<Rightarrow> nat" where
  "intent_rank Read = 0"
| "intent_rank Write = 1"
| "intent_rank Ddl = 2"
| "intent_rank Unknown = 2"
| "intent_rank Grant = 3"

definition max_intent :: "statement_intent \<Rightarrow> statement_intent \<Rightarrow> statement_intent" where
  "max_intent a b =
     (if intent_rank b < intent_rank a then a
      else if intent_rank a < intent_rank b then b
      else if a = Unknown \<or> b = Unknown then Unknown
      else a)"

fun risk_rank :: "mutation_risk \<Rightarrow> nat" where
  "risk_rank RiskNone = 0"
| "risk_rank UnboundedUpdate = 1"
| "risk_rank UnboundedDelete = 2"
| "risk_rank Truncate = 3"
| "risk_rank DropObject = 4"
| "risk_rank CopyToServerFile = 5"
| "risk_rank CopyServerProgram = 6"

definition max_risk :: "mutation_risk \<Rightarrow> mutation_risk \<Rightarrow> mutation_risk" where
  "max_risk a b = (if risk_rank a < risk_rank b then b else a)"

definition merge :: "facts \<Rightarrow> facts \<Rightarrow> facts" where
  "merge a b = facts_of (max_intent (f_intent a) (f_intent b)) (max_risk (f_risk a) (f_risk b))"

text \<open>\<open>iter().reduce(Facts::merge)\<close>.\<close>

fun merge_all :: "facts list \<Rightarrow> facts option" where
  "merge_all [] = None"
| "merge_all (f # fs) = Some (foldl merge f fs)"

text \<open>
  At least as serious, field by field: the order in which a batch takes the worst of its
  statements.
\<close>

definition milder :: "facts \<Rightarrow> facts \<Rightarrow> bool" where
  "milder a b \<longleftrightarrow> intent_rank (f_intent a) \<le> intent_rank (f_intent b)
     \<and> risk_rank (f_risk a) \<le> risk_rank (f_risk b)"

lemma facts_of_sel [simp]: "f_intent (facts_of i r) = i" "f_risk (facts_of i r) = r"
  by (simp_all add: facts_of_def)

lemma facts_of_eq_iff [simp]: "facts_of i r = facts_of i' r' \<longleftrightarrow> i = i' \<and> r = r'"
  by (simp add: facts_of_def)

lemma facts_of_fields [simp]: "facts_of (f_intent f) (f_risk f) = f"
  by (simp add: facts_of_def)

lemma intent_rank_max: "intent_rank (max_intent a b) = max (intent_rank a) (intent_rank b)"
  by (cases a; cases b) (simp_all add: max_intent_def)

lemma risk_rank_max: "risk_rank (max_risk a b) = max (risk_rank a) (risk_rank b)"
  by (simp add: max_risk_def)

lemma intent_rank_zero [simp]: "intent_rank i = 0 \<longleftrightarrow> i = Read"
  by (cases i) simp_all

lemma risk_rank_zero [simp]: "risk_rank r = 0 \<longleftrightarrow> r = RiskNone"
  by (cases r) simp_all

lemma risk_rank_inj: "risk_rank a = risk_rank b \<longleftrightarrow> a = b"
  by (cases a; cases b) simp_all

lemma milder_refl [simp]: "milder f f"
  by (simp add: milder_def)

lemma milder_trans: "milder a b \<Longrightarrow> milder b c \<Longrightarrow> milder a c"
  by (auto simp: milder_def)

lemma milder_merge1 [simp]: "milder a (merge a b)"
  by (simp add: milder_def merge_def intent_rank_max risk_rank_max)

lemma milder_merge2 [simp]: "milder b (merge a b)"
  by (simp add: milder_def merge_def intent_rank_max risk_rank_max)

lemma merge_least: "milder a c \<Longrightarrow> milder b c \<Longrightarrow> milder (merge a b) c"
  by (simp add: milder_def merge_def intent_rank_max risk_rank_max)

lemma milder_READ: "milder f READ \<longleftrightarrow> f = READ"
  by (metis facts_of_fields facts_of_sel intent_rank.simps(1) intent_rank_zero le_zero_eq milder_def
      milder_refl risk_rank.simps(1) risk_rank_zero)

lemma merge_READ_iff: "merge a b = READ \<longleftrightarrow> a = READ \<and> b = READ"
  by (metis merge_least milder_READ milder_merge1 milder_merge2 milder_refl)

lemma milder_intent_mutating:
  "milder a b \<Longrightarrow> intent_is_mutating (f_intent a) \<Longrightarrow> intent_is_mutating (f_intent b)"
  by (auto simp: milder_def)

lemma milder_foldl_merge: "milder a (foldl merge a fs)"
  by (induction fs arbitrary: a) (auto intro: milder_trans [OF milder_merge1])

lemma milder_foldl_merge_mem: "f \<in> set fs \<Longrightarrow> milder f (foldl merge a fs)"
  by (induction fs arbitrary: a)
    (auto intro: milder_trans [OF milder_merge2 milder_foldl_merge])

lemma foldl_merge_least: "milder a c \<Longrightarrow> \<forall>f \<in> set fs. milder f c \<Longrightarrow> milder (foldl merge a fs) c"
  by (induction fs arbitrary: a) (auto intro: merge_least)

lemma merge_all_bounds: "merge_all fs = Some m \<Longrightarrow> f \<in> set fs \<Longrightarrow> milder f m"
  by (cases fs) (auto intro: milder_foldl_merge milder_foldl_merge_mem)

lemma merge_all_least: "merge_all fs = Some m \<Longrightarrow> \<forall>f \<in> set fs. milder f c \<Longrightarrow> milder m c"
  by (cases fs) (auto intro: foldl_merge_least)

lemma merge_all_None_iff [simp]: "merge_all fs = None \<longleftrightarrow> fs = []"
  by (cases fs) simp_all

subsection \<open>The scope of a mutation\<close>

fun numeric_literal :: "sql_expr \<Rightarrow> f64 option" where
  "numeric_literal (ExNested e) = numeric_literal e"
| "numeric_literal (ExUnaryOp OpMinus e) = map_option f64_negate (numeric_literal e)"
| "numeric_literal (ExUnaryOp OpPlus e) = numeric_literal e"
| "numeric_literal (ExValue (VNumber t)) = parse_f64 t"
| "numeric_literal _ = None"

definition compare_numbers :: "sql_expr \<Rightarrow> sql_expr \<Rightarrow> cmp_ordering option" where
  "compare_numbers l r =
     (case numeric_literal l of None \<Rightarrow> None
      | Some a \<Rightarrow> (case numeric_literal r of None \<Rightarrow> None | Some b \<Rightarrow> f64_compare a b))"

fun is_pure :: "sql_expr \<Rightarrow> bool" where
  "is_pure (ExIdentifier _) = True"
| "is_pure (ExCompoundIdentifier _) = True"
| "is_pure (ExValue _) = True"
| "is_pure (ExNested e) = is_pure e"
| "is_pure _ = False"

definition same_pure_expr :: "sql_library \<Rightarrow> sql_expr \<Rightarrow> sql_expr \<Rightarrow> bool" where
  "same_pure_expr lib l r \<longleftrightarrow> is_pure l \<and> is_pure r \<and> render_expr lib l = render_expr lib r"

text \<open>\<open>number != 0.0\<close>: true on NaN.\<close>

fun literal_truth :: "sql_value \<Rightarrow> bool option" where
  "literal_truth (VBoolean b) = Some b"
| "literal_truth (VNumber t) = map_option (\<lambda>x. x \<noteq> Finite 0) (parse_f64 t)"
| "literal_truth (VOther _) = None"

fun is_trivially_true :: "sql_library \<Rightarrow> sql_expr \<Rightarrow> bool"
  and is_trivially_false :: "sql_library \<Rightarrow> sql_expr \<Rightarrow> bool" where
  "is_trivially_true lib (ExNested e) = is_trivially_true lib e"
| "is_trivially_true lib (ExValue v) = (literal_truth v = Some True)"
| "is_trivially_true lib (ExUnaryOp OpNot e) = is_trivially_false lib e"
| "is_trivially_true lib (ExBinaryOp l OpOr r) = (is_trivially_true lib l \<or> is_trivially_true lib r)"
| "is_trivially_true lib (ExBinaryOp l OpAnd r) = (is_trivially_true lib l \<and> is_trivially_true lib r)"
| "is_trivially_true lib (ExBinaryOp l OpEq r) =
     (same_pure_expr lib l r \<or> compare_numbers l r = Some CmpEqual)"
| "is_trivially_true lib (ExBinaryOp l OpNotEq r) = (compare_numbers l r \<in> {Some CmpLess, Some CmpGreater})"
| "is_trivially_true lib (ExBinaryOp l OpGt r) = (compare_numbers l r = Some CmpGreater)"
| "is_trivially_true lib (ExBinaryOp l OpLt r) = (compare_numbers l r = Some CmpLess)"
| "is_trivially_true lib (ExBinaryOp l OpGtEq r) = (compare_numbers l r \<in> {Some CmpGreater, Some CmpEqual})"
| "is_trivially_true lib (ExBinaryOp l OpLtEq r) = (compare_numbers l r \<in> {Some CmpLess, Some CmpEqual})"
| "is_trivially_true lib _ = False"
| "is_trivially_false lib (ExNested e) = is_trivially_false lib e"
| "is_trivially_false lib (ExValue v) = (literal_truth v = Some False)"
| "is_trivially_false lib (ExUnaryOp OpNot e) = is_trivially_true lib e"
| "is_trivially_false lib (ExBinaryOp l OpOr r) = (is_trivially_false lib l \<and> is_trivially_false lib r)"
| "is_trivially_false lib (ExBinaryOp l OpAnd r) = (is_trivially_false lib l \<or> is_trivially_false lib r)"
| "is_trivially_false lib (ExBinaryOp l OpEq r) = (compare_numbers l r \<in> {Some CmpLess, Some CmpGreater})"
| "is_trivially_false lib (ExBinaryOp l OpNotEq r) =
     (same_pure_expr lib l r \<or> compare_numbers l r = Some CmpEqual)"
| "is_trivially_false lib _ = False"

definition where_is_unbounded :: "sql_library \<Rightarrow> sql_expr option \<Rightarrow> bool" where
  "where_is_unbounded lib selection =
     (case selection of None \<Rightarrow> True | Some e \<Rightarrow> is_trivially_true lib e)"

subsection \<open>What a statement does\<close>

definition plan_only_explain_options :: "string list" where
  "plan_only_explain_options =
     [''verbose'', ''costs'', ''settings'', ''generic_plan'', ''buffers'', ''serialize'', ''wal'',
      ''timing'', ''summary'', ''memory'', ''format'']"

definition explain_executes :: "bool \<Rightarrow> string list option \<Rightarrow> bool" where
  "explain_executes analyze options \<longleftrightarrow> analyze
     \<or> (case options of None \<Rightarrow> False
        | Some names \<Rightarrow> list_ex (\<lambda>name. \<not> list_ex (eq_ignore_case name) plan_only_explain_options) names)"

fun copy_target_facts :: "bool \<Rightarrow> copy_target \<Rightarrow> facts" where
  "copy_target_facts True CopyStdout = READ"
| "copy_target_facts True (CopyFile _) = facts_of Write CopyToServerFile"
| "copy_target_facts _ (CopyProgram _) = facts_of Write CopyServerProgram"
| "copy_target_facts _ _ = WRITE"

fun statement_facts :: "sql_library \<Rightarrow> sql_statement \<Rightarrow> facts"
  and query_facts :: "sql_library \<Rightarrow> sql_query \<Rightarrow> facts"
  and set_expr_facts :: "sql_library \<Rightarrow> sql_set_expr \<Rightarrow> facts"
  and copy_source_facts :: "sql_library \<Rightarrow> facts \<Rightarrow> copy_source \<Rightarrow> facts" where
  "statement_facts lib (StQuery q) = query_facts lib q"
| "statement_facts lib (StExplain analyze options inner) =
     (if explain_executes analyze options then statement_facts lib inner else READ)"
| "statement_facts lib StExplainTable = READ"
| "statement_facts lib (StShow _) = READ"
| "statement_facts lib (StStartTransaction _ _ _) = READ"
| "statement_facts lib (StTransaction _) = READ"
| "statement_facts lib (StInsert source) =
     (case source of Some q \<Rightarrow> merge WRITE (query_facts lib q) | None \<Rightarrow> WRITE)"
| "statement_facts lib (StUpdate selection) =
     facts_of Write (if where_is_unbounded lib selection then UnboundedUpdate else RiskNone)"
| "statement_facts lib (StDelete selection) =
     facts_of Write (if where_is_unbounded lib selection then UnboundedDelete else RiskNone)"
| "statement_facts lib StMerge = WRITE"
| "statement_facts lib (StCopy source to target) =
     copy_source_facts lib (copy_target_facts to target) source"
| "statement_facts lib (StCopyIntoSnowflake kind) =
     (case kind of CopyIntoTable \<Rightarrow> WRITE | CopyIntoLocation \<Rightarrow> READ)"
| "statement_facts lib StTruncate = facts_of Ddl Truncate"
| "statement_facts lib (StDrop object) =
     (case object of ObjRole \<Rightarrow> GRANT | ObjUser \<Rightarrow> GRANT | ObjOther _ \<Rightarrow> facts_of Ddl DropObject)"
| "statement_facts lib (StDropForm _) = facts_of Ddl DropObject"
| "statement_facts lib (StCreateForm _) = DDL"
| "statement_facts lib (StAlterForm _) = DDL"
| "statement_facts lib (StRights _) = GRANT"
| "statement_facts lib (StSet form) =
     (case form of SetRole \<Rightarrow> GRANT | SetSessionAuthorization \<Rightarrow> GRANT | SetOther _ \<Rightarrow> UNKNOWN)"
| "statement_facts lib StUse = UNKNOWN"
| "statement_facts lib (StOther _) = UNKNOWN"
| "query_facts lib (SqlQuery ctes body) =
     merge (case ctes of None \<Rightarrow> READ | Some qs \<Rightarrow> foldl merge READ (map (query_facts lib) qs))
       (set_expr_facts lib body)"
| "set_expr_facts lib (SeSelect into) = (if into then DDL else READ)"
| "set_expr_facts lib SeValues = READ"
| "set_expr_facts lib SeTable = READ"
| "set_expr_facts lib (SeQuery q) = query_facts lib q"
| "set_expr_facts lib (SeSetOperation l r) = merge (set_expr_facts lib l) (set_expr_facts lib r)"
| "set_expr_facts lib (SeInsert s) = statement_facts lib s"
| "set_expr_facts lib (SeUpdate s) = statement_facts lib s"
| "set_expr_facts lib (SeDelete s) = statement_facts lib s"
| "set_expr_facts lib (SeMerge s) = statement_facts lib s"
| "copy_source_facts lib target (CopyQuery q) = merge target (query_facts lib q)"
| "copy_source_facts lib target CopyTable = target"

subsection \<open>The net under the tree\<close>

definition mutating_words :: "string list" where
  "mutating_words =
     [''delete'', ''update'', ''insert'', ''merge'', ''truncate'', ''drop'', ''grant'', ''revoke'']"

definition locked_for_update :: "sql_word list \<Rightarrow> nat \<Rightarrow> bool" where
  "locked_for_update ws i =
     list_ex (\<lambda>w. eq_ignore_case (word_text w) ''for'') (drop (i - 3) (take i ws))"

definition copies_to_program :: "sql_word list \<Rightarrow> bool" where
  "copies_to_program ws \<longleftrightarrow> list_ex (\<lambda>w. eq_ignore_case (word_text w) ''copy'') ws
     \<and> list_ex (\<lambda>(a, b). eq_ignore_case (word_text a) ''to'' \<and> eq_ignore_case (word_text b) ''program'')
         (zip ws (drop 1 ws))"

definition mutating_word_at :: "sql_word list \<Rightarrow> nat \<Rightarrow> bool" where
  "mutating_word_at ws i =
     (let w = ws ! i in
      \<not> word_call w \<and> list_ex (eq_ignore_case (word_text w)) mutating_words
      \<and> \<not> (eq_ignore_case (word_text w) ''update'' \<and> locked_for_update ws i))"

definition hides_a_mutation :: "string \<Rightarrow> sql_dialect \<Rightarrow> bool" where
  "hides_a_mutation sql d =
     (let ws = words sql d
      in copies_to_program ws \<or> list_ex (mutating_word_at ws) [0..<length ws])"

definition transaction_verbs :: "string list" where
  "transaction_verbs =
     [''begin'', ''commit'', ''end'', ''rollback'', ''abort'', ''savepoint'', ''release'', ''xa'']"

definition controls_a_transaction :: "string \<Rightarrow> sql_dialect \<Rightarrow> bool" where
  "controls_a_transaction sql d =
     (case map word_text (words sql d) of [] \<Rightarrow> False
      | verb # leading \<Rightarrow>
          if list_ex (eq_ignore_case verb) transaction_verbs then True
          else list_ex (eq_ignore_case verb) [''start'', ''prepare'', ''save'']
               \<and> (case leading of [] \<Rightarrow> False
                  | second # _ \<Rightarrow> list_ex (eq_ignore_case second) [''transaction'', ''tran'']))"

definition leads_with_use :: "string \<Rightarrow> sql_dialect \<Rightarrow> bool" where
  "leads_with_use sql d =
     (case words sql d of [] \<Rightarrow> False | verb # _ \<Rightarrow> eq_ignore_case (word_text verb) ''use'')"

subsection \<open>One fragment\<close>

datatype basis = Ast | Unparsed | KeywordSweep

fun basis_is_certain :: "basis \<Rightarrow> bool" where
  "basis_is_certain Ast = True"
| "basis_is_certain _ = False"

fun basis_as_str :: "basis \<Rightarrow> string" where
  "basis_as_str Ast = ''ast''"
| "basis_as_str Unparsed = ''unparsed''"
| "basis_as_str KeywordSweep = ''keyword-sweep''"

record statement_info =
  info_text :: string
  info_start :: nat
  info_end :: nat
  info_intent :: statement_intent
  info_risk :: mutation_risk
  info_basis :: basis
  info_error :: "string option"
  info_transaction_control :: bool
  info_context_change :: bool

definition unreadable_comment_reason :: string where
  "unreadable_comment_reason =
     ''a line comment contains a carriage return followed by text; ''
     @ ''whether it ends there depends on the server, so the statements it holds cannot be known''"

fun sweepable :: "sql_statement \<Rightarrow> bool" where
  "sweepable (StExplain analyze options _) = explain_executes analyze options"
| "sweepable StExplainTable = False"
| "sweepable _ = True"

definition parsed_facts :: "sql_library \<Rightarrow> string \<Rightarrow> sql_dialect \<Rightarrow> sql_statement list \<Rightarrow> facts \<times> basis" where
  "parsed_facts lib sql d stmts =
     (let fs = (case merge_all (map (statement_facts lib) stmts) of None \<Rightarrow> UNKNOWN | Some f \<Rightarrow> f)
      in if fs = READ \<and> list_all sweepable stmts \<and> hides_a_mutation sql d
         then (UNKNOWN, KeywordSweep) else (fs, Ast))"

definition fragment_facts :: "sql_library \<Rightarrow> fragment \<Rightarrow> sql_dialect \<Rightarrow> facts \<times> basis \<times> string option" where
  "fragment_facts lib f d =
     (case parse_sql lib (parser_dialect d) (frag_text f) of
        Inr stmts \<Rightarrow>
          if stmts \<noteq> [] then (case parsed_facts lib (frag_text f) d stmts of (fs, b) \<Rightarrow> (fs, b, None))
          else (UNKNOWN, Unparsed, Some ''no statement was read'')
      | Inl err \<Rightarrow> (UNKNOWN, Unparsed, Some err))"

definition classify_fragment :: "sql_library \<Rightarrow> fragment \<Rightarrow> sql_dialect \<Rightarrow> statement_info" where
  "classify_fragment lib f d =
     (if frag_unreadable f
      then \<lparr>info_text = frag_text f, info_start = frag_start f, info_end = frag_end f,
            info_intent = Unknown, info_risk = RiskNone, info_basis = Unparsed,
            info_error = Some unreadable_comment_reason,
            info_transaction_control = True, info_context_change = True\<rparr>
      else (case fragment_facts lib f d of (fs, b, err) \<Rightarrow>
           \<lparr>info_text = frag_text f, info_start = frag_start f, info_end = frag_end f,
            info_intent = f_intent fs, info_risk = f_risk fs, info_basis = b, info_error = err,
            info_transaction_control = controls_a_transaction (frag_text f) d,
            info_context_change = leads_with_use (frag_text f) d\<rparr>))"

subsection \<open>A batch\<close>

record classification =
  class_intent :: statement_intent
  class_risk :: mutation_risk
  class_transaction_control :: bool
  class_context_change :: bool
  class_statements :: "statement_info list"

definition class_is_mutating :: "classification \<Rightarrow> bool" where
  "class_is_mutating c \<longleftrightarrow> intent_is_mutating (class_intent c) \<or> risk_is_some (class_risk c)"

definition class_is_read_only :: "classification \<Rightarrow> bool" where
  "class_is_read_only c \<longleftrightarrow> intent_is_read_only (class_intent c) \<and> \<not> risk_is_some (class_risk c)"

definition is_fully_understood :: "classification \<Rightarrow> bool" where
  "is_fully_understood c \<longleftrightarrow> class_statements c \<noteq> []
     \<and> list_all (\<lambda>s. basis_is_certain (info_basis s)) (class_statements c)"

definition risky :: "classification \<Rightarrow> statement_info list" where
  "risky c = filter (\<lambda>s. risk_is_some (info_risk s)) (class_statements c)"

definition class_facts :: "classification \<Rightarrow> facts" where
  "class_facts c = facts_of (class_intent c) (class_risk c)"

definition info_facts :: "statement_info \<Rightarrow> facts" where
  "info_facts s = facts_of (info_intent s) (info_risk s)"

definition qualify :: "classification \<Rightarrow> exec_request \<Rightarrow> exec_request" where
  "qualify c r = (with_risk (class_risk c) (with_intent (class_intent c) r))
     \<lparr>transaction_control := class_transaction_control c, context_change := class_context_change c\<rparr>"

definition at_least :: "classification \<Rightarrow> classification \<Rightarrow> classification" where
  "at_least c other =
     (let fs = (if class_statements other \<noteq> [] then merge (class_facts c) (class_facts other)
                else class_facts c)
      in c\<lparr>class_intent := f_intent fs, class_risk := f_risk fs,
           class_transaction_control := class_transaction_control c \<or> class_transaction_control other,
           class_context_change := class_context_change c \<or> class_context_change other\<rparr>)"

definition opaque :: "string \<Rightarrow> string \<Rightarrow> classification" where
  "opaque sql err =
     (let trimmed = trim sql; start = length sql - length (trim_start sql)
      in \<lparr>class_intent = Unknown, class_risk = RiskNone, class_transaction_control = False,
          class_context_change = False,
          class_statements =
            [\<lparr>info_text = trimmed, info_start = start, info_end = start + length trimmed,
              info_intent = Unknown, info_risk = RiskNone, info_basis = Unparsed,
              info_error = Some err, info_transaction_control = False, info_context_change = False\<rparr>]\<rparr>)"

definition classify_text :: "sql_library \<Rightarrow> string \<Rightarrow> sql_dialect \<Rightarrow> classification" where
  "classify_text lib sql d =
     (let infos = map (\<lambda>f. classify_fragment lib f d) (split sql d);
          fs = (case merge_all (map info_facts infos) of None \<Rightarrow> UNKNOWN | Some f \<Rightarrow> f)
      in \<lparr>class_intent = f_intent fs, class_risk = f_risk fs,
          class_transaction_control = list_ex info_transaction_control infos,
          class_context_change = list_ex info_context_change infos,
          class_statements = infos\<rparr>)"

text \<open>\<open>Cow::Borrowed\<close> is \<open>None\<close>, as in \<open>executable_sql\<close>.\<close>

definition runnable_text :: "string \<Rightarrow> sql_dialect \<Rightarrow> string option" where
  "runnable_text sql d = (if d = MySql then executable_sql sql (for_dialect d) else None)"

definition as_typed :: "string \<Rightarrow> statement_info \<Rightarrow> statement_info" where
  "as_typed sql info = (case get_range sql (info_start info) (info_end info) of
     Some typed \<Rightarrow> info\<lparr>info_text := typed\<rparr> | None \<Rightarrow> info)"

definition classify :: "sql_library \<Rightarrow> string \<Rightarrow> sql_dialect \<Rightarrow> classification" where
  "classify lib sql d =
     (case runnable_text sql d of
        None \<Rightarrow> classify_text lib sql d
      | Some runnable \<Rightarrow>
          (let outcome = classify_text lib runnable d;
               typed = outcome\<lparr>class_statements := map (as_typed sql) (class_statements outcome)\<rparr>
           in at_least typed (classify_text lib sql d)))"

definition text_changes_context :: "string \<Rightarrow> sql_dialect \<Rightarrow> bool" where
  "text_changes_context sql d =
     (let leads = (\<lambda>t. list_ex (\<lambda>f. leads_with_use (frag_text f) d) (split t d))
      in leads (case runnable_text sql d of None \<Rightarrow> sql | Some r \<Rightarrow> r) \<or> leads sql)"

definition classify_language :: "sql_library \<Rightarrow> query_language \<Rightarrow> string \<Rightarrow> classification" where
  "classify_language lib l sql =
     (case sql_dialect_of l of
        Some d \<Rightarrow> classify lib sql d
      | None \<Rightarrow> opaque sql (''language not parsed by oxyn-query: '' @ language_display l))"

definition reclassify :: "sql_library \<Rightarrow> exec_request \<Rightarrow> classification" where
  "reclassify lib r = classify_language lib (language r) (req_text r)"

fun is_bare_transaction_verb :: "sql_statement \<Rightarrow> bool" where
  "is_bare_transaction_verb (StStartTransaction statements exception has_end) =
     (statements = [] \<and> exception = None \<and> \<not> has_end)"
| "is_bare_transaction_verb (StTransaction _) = True"
| "is_bare_transaction_verb _ = False"

definition only_controls_transactions :: "sql_library \<Rightarrow> exec_request \<Rightarrow> bool" where
  "only_controls_transactions lib r =
     (case sql_dialect_of (language r) of None \<Rightarrow> False
      | Some d \<Rightarrow>
          (let fragments = split (req_text r) d
           in fragments \<noteq> []
              \<and> list_all (\<lambda>f. \<not> frag_unreadable f
                  \<and> (case parse_sql lib (parser_dialect d) (frag_text f) of
                       Inl _ \<Rightarrow> False
                     | Inr stmts \<Rightarrow> stmts \<noteq> [] \<and> list_all is_bare_transaction_verb stmts)) fragments))"

subsection \<open>Validation\<close>

datatype query_error =
    QSelection nat string
  | QSyntax string nat nat
  | QUnsupportedLanguage query_language
  | QRequest query_language string

fun validate_fragments :: "sql_library \<Rightarrow> sql_dialect \<Rightarrow> fragment list \<Rightarrow> query_error + unit" where
  "validate_fragments lib d [] = Inr ()"
| "validate_fragments lib d (f # fs) =
     (if frag_unreadable f then Inl (QSyntax unreadable_comment_reason (frag_start f) (frag_end f))
      else (case parse_sql lib (parser_dialect d) (frag_text f) of
              Inl err \<Rightarrow> Inl (QSyntax err (frag_start f) (frag_end f))
            | Inr _ \<Rightarrow> validate_fragments lib d fs))"

definition validate :: "sql_library \<Rightarrow> string \<Rightarrow> sql_dialect \<Rightarrow> query_error + unit" where
  "validate lib sql d = validate_fragments lib d (split sql d)"

end
