(* ===== verification/Classify_Safety.thy ===== *)
theory Classify_Safety
  imports Classify
begin

text \<open>
  What the classification promises the policy gate: a batch is read-only only when every
  fragment of it was read and recognized as a read; it is at least as serious as everything it
  runs; the declared intent of a request has no say.
\<close>

subsection \<open>What a statement runs\<close>

text \<open>
  The statements the server executes when it executes one: itself, what an \<open>EXPLAIN\<close> that
  executes explains, the queries of its \<open>WITH\<close>, its source, and both sides of a set operation.
\<close>

inductive runs :: "sql_statement \<Rightarrow> sql_statement \<Rightarrow> bool"
  and query_runs :: "sql_query \<Rightarrow> sql_statement \<Rightarrow> bool"
  and set_expr_runs :: "sql_set_expr \<Rightarrow> sql_statement \<Rightarrow> bool" where
  itself: "runs s s"
| explained: "explain_executes analyze options \<Longrightarrow> runs inner t \<Longrightarrow> runs (StExplain analyze options inner) t"
| query: "query_runs q t \<Longrightarrow> runs (StQuery q) t"
| insert_source: "query_runs q t \<Longrightarrow> runs (StInsert (Some q)) t"
| copied: "query_runs q t \<Longrightarrow> runs (StCopy (CopyQuery q) to target) t"
| common_table: "c \<in> set ctes \<Longrightarrow> query_runs c t \<Longrightarrow> query_runs (SqlQuery (Some ctes) body) t"
| query_body: "set_expr_runs body t \<Longrightarrow> query_runs (SqlQuery ctes body) t"
| nested: "query_runs q t \<Longrightarrow> set_expr_runs (SeQuery q) t"
| left_side: "set_expr_runs l t \<Longrightarrow> set_expr_runs (SeSetOperation l r) t"
| right_side: "set_expr_runs r t \<Longrightarrow> set_expr_runs (SeSetOperation l r) t"
| inserted: "runs s t \<Longrightarrow> set_expr_runs (SeInsert s) t"
| updated: "runs s t \<Longrightarrow> set_expr_runs (SeUpdate s) t"
| deleted: "runs s t \<Longrightarrow> set_expr_runs (SeDelete s) t"
| merged: "runs s t \<Longrightarrow> set_expr_runs (SeMerge s) t"

lemma runs_milder:
  "runs s t \<Longrightarrow> milder (statement_facts lib t) (statement_facts lib s)"
  "query_runs q t \<Longrightarrow> milder (statement_facts lib t) (query_facts lib q)"
  "set_expr_runs e t \<Longrightarrow> milder (statement_facts lib t) (set_expr_facts lib e)"
proof (induction rule: runs_query_runs_set_expr_runs.inducts)
  case (common_table c ctes t body)
  then have "query_facts lib c \<in> set (map (query_facts lib) ctes)" by simp
  then have "milder (query_facts lib c) (foldl merge READ (map (query_facts lib) ctes))"
    by (rule milder_foldl_merge_mem)
  with common_table show ?case by (auto intro: milder_trans)
qed (auto intro: milder_trans)

subsection \<open>One fragment\<close>

definition fragment_reads :: "sql_library \<Rightarrow> sql_dialect \<Rightarrow> fragment \<Rightarrow> bool" where
  "fragment_reads lib d f \<longleftrightarrow> \<not> frag_unreadable f
     \<and> (\<exists>stmts. parse_sql lib (parser_dialect d) (frag_text f) = Inr stmts \<and> stmts \<noteq> []
         \<and> list_all (\<lambda>s. statement_facts lib s = READ) stmts
         \<and> \<not> (list_all sweepable stmts \<and> hides_a_mutation (frag_text f) d))"

lemma foldl_merge_READ_iff: "foldl merge a fs = READ \<longleftrightarrow> a = READ \<and> list_all (\<lambda>f. f = READ) fs"
  by (induction fs arbitrary: a) (auto simp: merge_READ_iff)

lemma merge_all_READ_iff: "merge_all fs = Some READ \<longleftrightarrow> fs \<noteq> [] \<and> list_all (\<lambda>f. f = READ) fs"
  by (cases fs) (auto simp: foldl_merge_READ_iff)

lemma info_facts_fragment:
  "info_facts (classify_fragment lib f d)
     = (if frag_unreadable f then UNKNOWN else fst (fragment_facts lib f d))"
  by (simp add: classify_fragment_def info_facts_def split: prod.split)

lemma parsed_facts_READ_iff:
  assumes "stmts \<noteq> []"
  shows "fst (parsed_facts lib sql d stmts) = READ
    \<longleftrightarrow> list_all (\<lambda>s. statement_facts lib s = READ) stmts \<and> \<not> (list_all sweepable stmts \<and> hides_a_mutation sql d)"
proof -
  obtain m where m: "merge_all (map (statement_facts lib) stmts) = Some m"
    using assms by (cases "merge_all (map (statement_facts lib) stmts)") auto
  then have "m = READ \<longleftrightarrow> list_all (\<lambda>s. statement_facts lib s = READ) stmts"
    using merge_all_READ_iff [of "map (statement_facts lib) stmts"] assms by (simp add: list_all_iff)
  with m show ?thesis by (auto simp: parsed_facts_def Let_def)
qed

lemma info_facts_READ_iff: "info_facts (classify_fragment lib f d) = READ \<longleftrightarrow> fragment_reads lib d f"
proof (cases "parse_sql lib (parser_dialect d) (frag_text f)")
  case (Inl err)
  then show ?thesis by (simp add: info_facts_fragment fragment_reads_def fragment_facts_def)
next
  case (Inr stmts)
  then show ?thesis
    using parsed_facts_READ_iff [of stmts lib "frag_text f" d]
    by (auto simp: info_facts_fragment fragment_reads_def fragment_facts_def split: prod.splits)
qed

text \<open>The net only restricts: the facts of a fragment are at least those of its tree.\<close>

lemma parsed_facts_milder:
  assumes "s \<in> set stmts"
  shows "milder (statement_facts lib s) (fst (parsed_facts lib sql d stmts))"
proof -
  from assms obtain m where m: "merge_all (map (statement_facts lib) stmts) = Some m"
    by (cases "merge_all (map (statement_facts lib) stmts)") auto
  with assms have "milder (statement_facts lib s) m" by (auto intro: merge_all_bounds)
  moreover have "milder READ UNKNOWN" by (simp add: milder_def)
  ultimately show ?thesis
    using m by (auto simp: parsed_facts_def Let_def intro: milder_trans)
qed

lemma fragment_milder:
  assumes "parse_sql lib (parser_dialect d) (frag_text f) = Inr stmts" "s \<in> set stmts" "runs s t"
    "\<not> frag_unreadable f"
  shows "milder (statement_facts lib t) (info_facts (classify_fragment lib f d))"
proof -
  have "milder (statement_facts lib s) (info_facts (classify_fragment lib f d))"
    using parsed_facts_milder [OF assms(2), of lib "frag_text f" d] assms
    by (auto simp: classify_fragment_def fragment_facts_def info_facts_def split: prod.split)
  with runs_milder(1) [OF assms(3)] show ?thesis by (rule milder_trans)
qed

lemma classify_fragment_unparsed:
  "frag_unreadable f \<or> (\<forall>stmts. parse_sql lib (parser_dialect d) (frag_text f) = Inr stmts \<longrightarrow> stmts = [])
   \<Longrightarrow> info_intent (classify_fragment lib f d) = Unknown \<and> info_basis (classify_fragment lib f d) = Unparsed"
  by (auto simp: classify_fragment_def fragment_facts_def split: sum.split)

subsection \<open>One reading of a batch\<close>

lemma class_is_read_only_iff: "class_is_read_only c \<longleftrightarrow> class_facts c = READ"
  by (simp add: class_is_read_only_def class_facts_def risk_is_some_def)

lemma class_is_mutating_iff: "class_is_mutating c \<longleftrightarrow> \<not> class_is_read_only c"
  by (simp add: class_is_read_only_def class_is_mutating_def)

lemma classify_text_facts:
  "class_facts (classify_text lib sql d)
     = (case merge_all (map (\<lambda>f. info_facts (classify_fragment lib f d)) (split sql d)) of
          None \<Rightarrow> UNKNOWN | Some f \<Rightarrow> f)"
  by (simp add: classify_text_def class_facts_def Let_def comp_def)

lemma classify_text_milder:
  "f \<in> set (split sql d) \<Longrightarrow> milder (info_facts (classify_fragment lib f d)) (class_facts (classify_text lib sql d))"
  unfolding classify_text_facts by (auto intro: merge_all_bounds split: option.split)

lemma classify_text_read_only_iff:
  "class_is_read_only (classify_text lib sql d)
     \<longleftrightarrow> split sql d \<noteq> [] \<and> list_all (fragment_reads lib d) (split sql d)"
proof -
  have "(case merge_all fs of None \<Rightarrow> UNKNOWN | Some f \<Rightarrow> f) = READ \<longleftrightarrow> merge_all fs = Some READ" for fs
    by (simp split: option.split)
  then show ?thesis
    by (auto simp: class_is_read_only_iff classify_text_facts merge_all_READ_iff list_all_iff
        info_facts_READ_iff)
qed

lemma classify_text_statements [simp]:
  "class_statements (classify_text lib sql d) = map (\<lambda>f. classify_fragment lib f d) (split sql d)"
  by (simp add: classify_text_def Let_def)

subsection \<open>Both readings\<close>

text \<open>The text as the server runs it.\<close>

definition runnable :: "string \<Rightarrow> sql_dialect \<Rightarrow> string" where
  "runnable sql d = (case runnable_text sql d of None \<Rightarrow> sql | Some r \<Rightarrow> r)"

lemma class_facts_at_least:
  "class_facts (at_least c other)
     = (if class_statements other \<noteq> [] then merge (class_facts c) (class_facts other) else class_facts c)"
  by (simp add: at_least_def class_facts_def Let_def)

lemma classify_facts:
  "class_facts (classify lib sql d)
     = (if runnable_text sql d \<noteq> None \<and> split sql d \<noteq> []
        then merge (class_facts (classify_text lib (runnable sql d) d)) (class_facts (classify_text lib sql d))
        else class_facts (classify_text lib (runnable sql d) d))"
proof (cases "runnable_text sql d")
  case None
  then show ?thesis by (simp add: classify_def runnable_def)
next
  case (Some r)
  moreover have "class_facts (c\<lparr>class_statements := infos\<rparr>) = class_facts c" for c infos
    by (simp add: class_facts_def)
  ultimately show ?thesis by (simp add: classify_def runnable_def class_facts_at_least)
qed

lemma classify_read_only_iff:
  "class_is_read_only (classify lib sql d)
     \<longleftrightarrow> split (runnable sql d) d \<noteq> [] \<and> list_all (fragment_reads lib d) (split (runnable sql d) d)
       \<and> list_all (fragment_reads lib d) (split sql d)"
proof (cases "runnable_text sql d \<noteq> None \<and> split sql d \<noteq> []")
  case True
  then show ?thesis
    using classify_text_read_only_iff [of lib sql d] classify_text_read_only_iff [of lib "runnable sql d" d]
    by (auto simp: class_is_read_only_iff classify_facts merge_READ_iff)
next
  case False
  then have "split sql d = [] \<or> runnable sql d = sql" by (auto simp: runnable_def)
  then show ?thesis
    using False classify_text_read_only_iff [of lib "runnable sql d" d]
    by (auto simp: class_is_read_only_iff classify_facts)
qed

lemma classify_milder_runnable:
  "milder (class_facts (classify_text lib (runnable sql d) d)) (class_facts (classify lib sql d))"
  by (simp add: classify_facts)

lemma classify_milder_typed:
  "split sql d \<noteq> [] \<Longrightarrow> milder (class_facts (classify_text lib sql d)) (class_facts (classify lib sql d))"
  by (cases "runnable_text sql d = None") (simp_all add: classify_facts runnable_def)

text \<open>Whatever a statement of the batch, in either reading, runs is no worse than the batch.\<close>

lemma classify_covers:
  assumes "f \<in> set (split sql d) \<union> set (split (runnable sql d) d)" "\<not> frag_unreadable f"
    and "parse_sql lib (parser_dialect d) (frag_text f) = Inr stmts" "s \<in> set stmts" "runs s t"
  shows "milder (statement_facts lib t) (class_facts (classify lib sql d))"
proof -
  have f: "milder (statement_facts lib t) (info_facts (classify_fragment lib f d))"
    using fragment_milder [OF assms(3,4,5,2)] .
  from assms(1) show ?thesis
  proof
    assume *: "f \<in> set (split sql d)"
    then have "split sql d \<noteq> []" by auto
    from f classify_text_milder [OF *] classify_milder_typed [OF this] show ?thesis
      by (blast intro: milder_trans)
  next
    assume "f \<in> set (split (runnable sql d) d)"
    from f classify_text_milder [OF this] classify_milder_runnable show ?thesis
      by (blast intro: milder_trans)
  qed
qed

subsection \<open>What the caller declares has no say\<close>

text \<open>Two requests that differ only by what their caller declares of them.\<close>

definition same_text :: "exec_request \<Rightarrow> exec_request \<Rightarrow> bool" where
  "same_text r r' \<longleftrightarrow> r' = r\<lparr>req_intent := req_intent r', req_risk := req_risk r',
     transaction_control := transaction_control r', context_change := context_change r'\<rparr>"

lemma qualify_fields [simp]:
  "req_intent (qualify c r) = class_intent c" "req_risk (qualify c r) = class_risk c"
  "transaction_control (qualify c r) = class_transaction_control c"
  "context_change (qualify c r) = class_context_change c"
  "req_text (qualify c r) = req_text r" "language (qualify c r) = language r"
  "limits (qualify c r) = limits r" "params (qualify c r) = params r"
  by (simp_all add: qualify_def with_intent_def with_risk_def)

lemma request_is_mutating_qualify: "request_is_mutating (qualify c r) \<longleftrightarrow> class_is_mutating c"
  by (simp add: request_is_mutating_def class_is_mutating_def)

lemma reclassify_declared:
  assumes "same_text r r'"
  shows "qualify (reclassify lib r') r' = qualify (reclassify lib r) r"
  by (subst (1 2) assms [unfolded same_text_def])
    (simp add: qualify_def with_intent_def with_risk_def reclassify_def)

lemma reclassify_not_sql:
  "sql_dialect_of (language r) = None \<Longrightarrow> class_intent (reclassify lib r) = Unknown"
  by (simp add: reclassify_def classify_language_def opaque_def Let_def)

lemma reclassify_sql:
  "sql_dialect_of (language r) = Some d \<Longrightarrow> reclassify lib r = classify lib (req_text r) d"
  by (simp add: reclassify_def classify_language_def)

subsection \<open>Validation and classification agree\<close>

lemma validate_fragments_ok_iff:
  "validate_fragments lib d fs = Inr () \<longleftrightarrow>
     list_all (\<lambda>f. \<not> frag_unreadable f \<and> (\<exists>stmts. parse_sql lib (parser_dialect d) (frag_text f) = Inr stmts)) fs"
  by (induction fs) (auto split: sum.splits)

lemma fragment_reads_valid:
  "list_all (fragment_reads lib d) fs \<Longrightarrow> validate_fragments lib d fs = Inr ()"
  by (auto simp: validate_fragments_ok_iff list_all_iff fragment_reads_def)

lemma read_only_valid: "class_is_read_only (classify lib sql d) \<Longrightarrow> validate lib sql d = Inr ()"
  by (simp add: classify_read_only_iff validate_def fragment_reads_valid)

lemma validate_fragments_span:
  "validate_fragments lib d fs = Inl e \<Longrightarrow> \<exists>f \<in> set fs. \<exists>m. e = QSyntax m (frag_start f) (frag_end f)"
  by (induction fs) (auto split: sum.splits if_splits)

subsection \<open>Session context and transactions\<close>

lemma info_context_change_iff:
  "info_context_change (classify_fragment lib f d) \<longleftrightarrow> frag_unreadable f \<or> leads_with_use (frag_text f) d"
  by (simp add: classify_fragment_def split: prod.split)

lemma classify_text_context_change:
  "class_context_change (classify_text lib sql d)
     \<longleftrightarrow> list_ex (\<lambda>f. frag_unreadable f \<or> leads_with_use (frag_text f) d) (split sql d)"
  by (simp add: classify_text_def Let_def list_ex_iff info_context_change_iff)

lemma classify_context_change:
  "class_context_change (classify lib sql d)
     \<longleftrightarrow> text_changes_context sql d \<or> list_ex frag_unreadable (split sql d)
       \<or> list_ex frag_unreadable (split (runnable sql d) d)"
  by (cases "runnable_text sql d")
    (auto simp: classify_def runnable_def text_changes_context_def at_least_def Let_def
      classify_text_context_change list_ex_iff)

lemma info_transaction_control_iff:
  "info_transaction_control (classify_fragment lib f d)
     \<longleftrightarrow> frag_unreadable f \<or> controls_a_transaction (frag_text f) d"
  by (simp add: classify_fragment_def split: prod.split)

lemma classify_transaction_control:
  "class_transaction_control (classify lib sql d)
     \<longleftrightarrow> list_ex (\<lambda>f. frag_unreadable f \<or> controls_a_transaction (frag_text f) d) (split sql d)
       \<or> list_ex (\<lambda>f. frag_unreadable f \<or> controls_a_transaction (frag_text f) d) (split (runnable sql d) d)"
  by (cases "runnable_text sql d")
    (auto simp: classify_def runnable_def at_least_def Let_def classify_text_def list_ex_iff
      info_transaction_control_iff)

lemma bare_transaction_facts: "is_bare_transaction_verb s \<Longrightarrow> statement_facts lib s = READ"
  by (cases s) simp_all

lemma only_controls_transactions_reads:
  assumes "only_controls_transactions lib r" "sql_dialect_of (language r) = Some d"
    and "f \<in> set (split (req_text r) d)"
  shows "fragment_reads lib d f \<or> hides_a_mutation (frag_text f) d"
proof -
  from assms obtain stmts where "\<not> frag_unreadable f"
    "parse_sql lib (parser_dialect d) (frag_text f) = Inr stmts" "stmts \<noteq> []"
    "list_all is_bare_transaction_verb stmts"
    by (cases "parse_sql lib (parser_dialect d) (frag_text f)")
      (auto simp: only_controls_transactions_def Let_def list_all_iff)
  then show ?thesis
    by (auto simp: fragment_reads_def list_all_iff bare_transaction_facts)
qed

subsection \<open>A trivial condition is not both\<close>

text \<open>A rendering that tells two numbers apart: what \<open>same_pure_expr\<close> expects of \<open>Display\<close>.\<close>

definition renders_numbers :: "sql_library \<Rightarrow> bool" where
  "renders_numbers lib \<longleftrightarrow> (\<forall>a b. is_pure a \<longrightarrow> is_pure b \<longrightarrow> render_expr lib a = render_expr lib b
     \<longrightarrow> numeric_literal a = numeric_literal b)"

lemma compare_numbers_same:
  "numeric_literal l = numeric_literal r \<Longrightarrow> compare_numbers l r \<in> {None, Some CmpEqual}"
  by (auto simp: compare_numbers_def f64_compare_self split: option.split)

lemma same_pure_expr_numbers:
  "renders_numbers lib \<Longrightarrow> same_pure_expr lib l r \<Longrightarrow> compare_numbers l r \<in> {None, Some CmpEqual}"
  by (rule compare_numbers_same) (auto simp: renders_numbers_def same_pure_expr_def)

lemma trivially_exclusive:
  assumes "renders_numbers lib"
  shows "\<not> (is_trivially_true lib e \<and> is_trivially_false lib e)"
proof (induction e)
  case (ExUnaryOp op e)
  then show ?case by (cases op) auto
next
  case (ExBinaryOp l op r)
  then show ?case using same_pure_expr_numbers [OF assms, of l r] by (cases op) auto
qed auto

subsection \<open>Spans lead back to the text\<close>

lemma classify_text_span:
  assumes "info \<in> set (class_statements (classify_text lib sql d))"
  shows "get_range sql (info_start info) (info_end info) = Some (info_text info)"
proof -
  from assms obtain f where f: "f \<in> set (split sql d)" "info = classify_fragment lib f d" by auto
  then have "info_start info = frag_start f" "info_end info = frag_end f" "info_text info = frag_text f"
    by (simp_all add: classify_fragment_def split: prod.splits)
  with batch.fragment_slice [OF f(1)] show ?thesis by simp
qed

lemma runnable_length: "length (runnable sql d) = length sql"
  using executable_sql_masked by (auto simp: runnable_def runnable_text_def masked_at_def split: option.split)

lemma classify_span:
  assumes "info \<in> set (class_statements (classify lib sql d))"
  shows "get_range sql (info_start info) (info_end info) = Some (info_text info)"
proof (cases "runnable_text sql d")
  case None
  with assms have "info \<in> set (class_statements (classify_text lib sql d))" by (simp add: classify_def)
  then show ?thesis by (rule classify_text_span)
next
  case (Some r)
  with assms obtain i where i: "i \<in> set (class_statements (classify_text lib r d))" "info = as_typed sql i"
    by (auto simp: classify_def at_least_def Let_def)
  have "get_range r (info_start i) (info_end i) \<noteq> None" using classify_text_span [OF i(1)] by simp
  moreover have "length r = length sql" using runnable_length [of sql d] Some by (simp add: runnable_def)
  ultimately obtain typed where "get_range sql (info_start i) (info_end i) = Some typed"
    by (auto simp: get_range_def split: if_splits)
  with i(2) show ?thesis by (simp add: as_typed_def)
qed

end
