(* ===== verification/Cancel_Token.thy ===== *)
theory Cancel_Token
  imports Oxyn_Prelude
begin

text \<open>
  The hierarchical cancellation token of \<open>crates/oxyn-core/src/cancel.rs\<close>. The shared \<open>Inner\<close>
  values are the cells of a heap, a token is the index of its cell, and a clone of it is one
  more strong reference; the children are the parent's weak references, which upgrade as long
  as a strong reference remains. Each operation is atomic; waiting for the signal is the
  runtime's and is not modelled.
\<close>

subsection \<open>Tokens and their operations\<close>

type_synonym token = nat

record token_inner =
  tk_cancelled :: bool
  tk_children :: "token list"
  tk_strong :: nat

type_synonym token_heap = "token_inner list"

definition inner_new :: token_inner where
  "inner_new = \<lparr>tk_cancelled = False, tk_children = [], tk_strong = 1\<rparr>"

text \<open>\<open>Weak::upgrade\<close> succeeds.\<close>

definition alive :: "token_heap \<Rightarrow> token \<Rightarrow> bool" where
  "alive h t \<longleftrightarrow> t < length h \<and> 0 < tk_strong (h ! t)"

definition token_new :: "token_heap \<Rightarrow> token \<times> token_heap" where
  "token_new h = (length h, h @ [inner_new])"

definition token_clone :: "token \<Rightarrow> token_heap \<Rightarrow> token_heap" where
  "token_clone t h = h[t := (h ! t)\<lparr>tk_strong := tk_strong (h ! t) + 1\<rparr>]"

definition token_drop :: "token \<Rightarrow> token_heap \<Rightarrow> token_heap" where
  "token_drop t h = h[t := (h ! t)\<lparr>tk_strong := tk_strong (h ! t) - 1\<rparr>]"

definition is_cancelled :: "token_heap \<Rightarrow> token \<Rightarrow> bool" where
  "is_cancelled h t \<longleftrightarrow> t < length h \<and> tk_cancelled (h ! t)"

text \<open>
  \<open>cancel_inner\<close>: the flag is swapped first, the children are taken out of the cell, and each
  one that still upgrades is cancelled in turn. The list is the stack of the recursion: the
  children taken, then what the callers have left to visit.
\<close>

definition take_children :: "token \<Rightarrow> token_heap \<Rightarrow> token_heap" where
  "take_children t h = h[t := (h ! t)\<lparr>tk_cancelled := True, tk_children := []\<rparr>]"

definition pending_cells :: "token_heap \<Rightarrow> nat" where
  "pending_cells h = length (filter (\<lambda>i. \<not> tk_cancelled i) h)"

lemma length_take_children [simp]: "length (take_children t h) = length h"
  by (simp add: take_children_def)

lemma pending_cells_take_children:
  assumes "t < length h" "\<not> tk_cancelled (h ! t)"
  shows "pending_cells (take_children t h) < pending_cells h"
proof -
  have "h = take t h @ h ! t # drop (Suc t) h"
    using assms(1) by (rule id_take_nth_drop)
  then have "pending_cells h = pending_cells (take t h) + 1 + pending_cells (drop (Suc t) h)"
    using assms(2) unfolding pending_cells_def
    by (metis (no_types, lifting) One_nat_def add.assoc filter.simps(2) filter_append length_Cons
        length_append plus_1_eq_Suc)
  then show ?thesis
    using assms(1) by (simp add: pending_cells_def take_children_def upd_conv_take_nth_drop)
qed

function cancel_work :: "token list \<Rightarrow> token_heap \<Rightarrow> token_heap" where
  "cancel_work [] h = h"
| "cancel_work (t # ts) h =
     (if \<not> alive h t then cancel_work ts h
      else if tk_cancelled (h ! t) then cancel_work ts h
      else cancel_work (tk_children (h ! t) @ ts) (take_children t h))"
  by pat_completeness auto
termination
  by (relation "measures [\<lambda>(ts, h). pending_cells h, \<lambda>(ts, h). length ts]")
    (auto simp: alive_def pending_cells_take_children)

declare cancel_work.simps [simp del]

definition cancel_token :: "token \<Rightarrow> token_heap \<Rightarrow> token_heap" where
  "cancel_token t h = cancel_work [t] h"

definition token_child :: "token \<Rightarrow> token_heap \<Rightarrow> token \<times> token_heap" where
  "token_child t h =
     (let c = length h;
          h' = h @ [inner_new];
          kept = filter (alive h') (tk_children (h' ! t))
      in if is_cancelled h' t
         then (c, (h'[t := (h' ! t)\<lparr>tk_children := kept\<rparr>])[c := inner_new\<lparr>tk_cancelled := True\<rparr>])
         else (c, h'[t := (h' ! t)\<lparr>tk_children := kept @ [c]\<rparr>]))"

definition live_children :: "token \<Rightarrow> token_heap \<Rightarrow> nat" where
  "live_children t h = length (filter (alive h) (tk_children (h ! t)))"

subsection \<open>What a cancellation reaches\<close>

text \<open>The tokens reached from a set along the live children of tokens not cancelled before.\<close>

inductive reaches :: "token_heap \<Rightarrow> token set \<Rightarrow> token \<Rightarrow> bool" for h S where
  start: "t \<in> S \<Longrightarrow> alive h t \<Longrightarrow> reaches h S t"
| step: "reaches h S t \<Longrightarrow> \<not> tk_cancelled (h ! t) \<Longrightarrow> c \<in> set (tk_children (h ! t)) \<Longrightarrow>
         alive h c \<Longrightarrow> reaches h S c"

lemma reaches_alive: "reaches h S u \<Longrightarrow> alive h u"
  by (induction rule: reaches.induct) auto

lemma reaches_empty [simp]: "\<not> reaches h {} u"
proof
  assume "reaches h {} u"
  then show False by induction auto
qed

lemma reaches_mono: "reaches h S u \<Longrightarrow> S \<subseteq> T \<Longrightarrow> reaches h T u"
  by (induction rule: reaches.induct) (auto intro: reaches.intros)

lemma reaches_dead: "\<not> alive h t \<Longrightarrow> reaches h (insert t S) u \<longleftrightarrow> reaches h S u"
proof
  assume "reaches h (insert t S) u" "\<not> alive h t"
  then show "reaches h S u"
    by (induction rule: reaches.induct) (auto intro: reaches.intros)
qed (auto elim: reaches_mono)

lemma reaches_cancelled:
  assumes "tk_cancelled (h ! t)"
  shows "reaches h (insert t S) u \<longleftrightarrow> reaches h S u \<or> (u = t \<and> alive h t)"
proof
  show "reaches h S u \<or> (u = t \<and> alive h t)" if "reaches h (insert t S) u"
    using that assms by (induction rule: reaches.induct) (auto intro: reaches.intros)
qed (auto intro: reaches.intros elim: reaches_mono)

lemma alive_take_children [simp]: "alive (take_children t h) u \<longleftrightarrow> alive h u"
  by (cases "u = t") (auto simp: alive_def take_children_def nth_list_update)

lemma take_children_other: "u \<noteq> t \<Longrightarrow> take_children t h ! u = h ! u"
  by (simp add: take_children_def)

lemma take_children_self: "t < length h \<Longrightarrow> tk_cancelled (take_children t h ! t)"
  by (simp add: take_children_def)

text \<open>Marking a token and visiting its children in its place reaches the same tokens.\<close>

lemma reaches_take_children:
  assumes "alive h t" "\<not> tk_cancelled (h ! t)"
  shows "reaches h (insert t S) u \<longleftrightarrow>
    u = t \<or> reaches (take_children t h) (set (tk_children (h ! t)) \<union> S) u"
proof
  let ?h = "take_children t h" and ?S = "set (tk_children (h ! t)) \<union> S"
  show "u = t \<or> reaches ?h ?S u" if "reaches h (insert t S) u"
    using that
  proof induction
    case (start v)
    then show ?case by (auto intro: reaches.start)
  next
    case (step v c)
    show ?case
    proof (cases "v = t")
      case True
      with step show ?thesis by (auto intro: reaches.start)
    next
      case False
      with step show ?thesis by (auto intro!: reaches.step [of ?h ?S v c] simp: take_children_other)
    qed
  qed
  have via: "reaches h (insert t S) t" using assms(1) by (auto intro: reaches.start)
  show "reaches h (insert t S) u" if "u = t \<or> reaches ?h ?S u"
  proof (cases "u = t")
    case False
    with that have "reaches ?h ?S u" by simp
    then show ?thesis
    proof induction
      case (start v)
      then show ?case using via assms by (auto intro: reaches.intros)
    next
      case (step v c)
      have "v \<noteq> t"
        using step.hyps(2) assms(1) take_children_self [of t h] by (auto simp: alive_def)
      with step show ?case by (auto intro: reaches.step simp: take_children_other)
    qed
  qed (use via in simp)
qed

lemma is_cancelled_take_children:
  "t < length h \<Longrightarrow> is_cancelled (take_children t h) u \<longleftrightarrow> u = t \<or> is_cancelled h u"
  by (cases "u = t") (auto simp: is_cancelled_def take_children_def)

lemma cancel_work_reaches:
  "is_cancelled (cancel_work ts h) u \<longleftrightarrow> is_cancelled h u \<or> reaches h (set ts) u"
proof (induction ts h rule: cancel_work.induct)
  case (1 h)
  then show ?case by (simp add: cancel_work.simps)
next
  case (2 t ts h)
  show ?case
  proof (cases "alive h t \<and> \<not> tk_cancelled (h ! t)")
    case True
    with 2(3) reaches_take_children [of h t "set ts" u] show ?thesis
      by (auto simp: cancel_work.simps is_cancelled_take_children alive_def)
  next
    case False
    then show ?thesis
      using 2(1,2) reaches_dead [of h t "set ts" u] reaches_cancelled [of h t "set ts" u]
      by (cases "alive h t") (auto simp: cancel_work.simps is_cancelled_def alive_def)
  qed
qed

text \<open>Cancelling a list of tokens is cancelling its parts in turn.\<close>

lemma cancel_work_append: "cancel_work (ts @ us) h = cancel_work us (cancel_work ts h)"
proof (induction ts h rule: cancel_work.induct)
  case (2 t ts h)
  then show ?case by (simp add: cancel_work.simps)
qed (simp add: cancel_work.simps)

text \<open>Cancelling changes no cell but by setting flags and emptying the children of what it sets.\<close>

lemma cancel_work_cells:
  "length (cancel_work ts h) = length h
   \<and> tk_strong (cancel_work ts h ! u) = tk_strong (h ! u)
   \<and> (cancel_work ts h ! u = h ! u \<or> tk_cancelled (cancel_work ts h ! u))"
proof (induction ts h rule: cancel_work.induct)
  case (2 t ts h)
  then show ?case
    by (cases "u = t")
      (auto simp: cancel_work.simps take_children_other, auto simp: take_children_def alive_def)
qed (simp add: cancel_work.simps)

lemma cancel_work_idem: "is_cancelled h t \<Longrightarrow> cancel_work [t] h = h"
  by (simp add: cancel_work.simps is_cancelled_def)

subsection \<open>The shape of the tree\<close>

text \<open>A child is younger than its parent, and a cancelled token has no children left to tell.\<close>

definition cell_ok :: "nat \<Rightarrow> token \<Rightarrow> token_inner \<Rightarrow> bool" where
  "cell_ok n t i \<longleftrightarrow> (\<forall>c \<in> set (tk_children i). t < c \<and> c < n)
     \<and> (tk_cancelled i \<longrightarrow> tk_children i = [])"

definition token_inv :: "token_heap \<Rightarrow> bool" where
  "token_inv h \<longleftrightarrow> (\<forall>t < length h. cell_ok (length h) t (h ! t))"

lemma token_invD: "token_inv h \<Longrightarrow> t < length h \<Longrightarrow> cell_ok (length h) t (h ! t)"
  by (simp add: token_inv_def)

lemma cell_ok_mono: "cell_ok n t i \<Longrightarrow> n \<le> m \<Longrightarrow> cell_ok m t i"
  by (fastforce simp: cell_ok_def)

lemma cell_ok_new: "cell_ok n t (inner_new\<lparr>tk_cancelled := b\<rparr>)" "cell_ok n t inner_new"
  by (simp_all add: cell_ok_def inner_new_def)

datatype token_op = TNew | TChild token | TClone token | TDrop token | TCancel token

text \<open>An operation needs a strong reference to the token it works on.\<close>

fun token_step :: "token_op \<Rightarrow> token_heap \<Rightarrow> token_heap" where
  "token_step TNew h = snd (token_new h)"
| "token_step (TChild t) h = (if alive h t then snd (token_child t h) else h)"
| "token_step (TClone t) h = (if alive h t then token_clone t h else h)"
| "token_step (TDrop t) h = (if alive h t then token_drop t h else h)"
| "token_step (TCancel t) h = (if alive h t then cancel_token t h else h)"

definition run_tokens :: "token_op list \<Rightarrow> token_heap \<Rightarrow> token_heap" where
  "run_tokens ops h = fold token_step ops h"

lemma token_invI:
  "(\<And>t. t < length h \<Longrightarrow> cell_ok (length h) t (h ! t)) \<Longrightarrow> token_inv h"
  by (simp add: token_inv_def)

lemma token_inv_take_children:
  assumes "token_inv h"
  shows "token_inv (take_children t h)"
proof (rule token_invI)
  fix u assume "u < length (take_children t h)"
  then have u: "u < length h" by simp
  show "cell_ok (length (take_children t h)) u (take_children t h ! u)"
  proof (cases "u = t")
    case True
    with u show ?thesis by (simp add: take_children_def cell_ok_def)
  next
    case False
    with token_invD [OF assms u] show ?thesis by (simp add: take_children_def)
  qed
qed

lemma token_inv_cancel_work: "token_inv h \<Longrightarrow> token_inv (cancel_work ts h)"
  by (induction ts h rule: cancel_work.induct) (auto simp: cancel_work.simps token_inv_take_children)

lemma token_child_length: "length (snd (token_child t h)) = Suc (length h)"
  by (simp add: token_child_def Let_def)

lemma token_child_fst: "fst (token_child t h) = length h"
  by (simp add: token_child_def Let_def)

lemma token_child_nth:
  assumes "t < length h" "u \<le> length h"
  shows "snd (token_child t h) ! u =
    (if u = t then (h ! t)\<lparr>tk_children := filter (alive (h @ [inner_new])) (tk_children (h ! t))
         @ (if tk_cancelled (h ! t) then [] else [length h])\<rparr>
     else if u = length h then inner_new\<lparr>tk_cancelled := tk_cancelled (h ! t)\<rparr>
     else h ! u)"
  using assms
  by (auto simp: token_child_def Let_def is_cancelled_def nth_append nth_list_update inner_new_def)

lemma token_inv_child:
  assumes "token_inv h" "t < length h"
  shows "token_inv (snd (token_child t h))"
  unfolding token_inv_def token_child_length
proof (intro allI impI)
  fix u assume "u < Suc (length h)"
  then consider "u = length h" | "u = t" | "u < length h" "u \<noteq> t" by linarith
  then show "cell_ok (Suc (length h)) u (snd (token_child t h) ! u)"
  proof cases
    case 1
    with assms(2) show ?thesis by (simp add: token_child_nth cell_ok_new)
  next
    case 2
    with token_invD [OF assms] assms(2) show ?thesis
      by (auto simp add: token_child_nth cell_ok_def less_SucI)
  next
    case 3
    with token_invD [OF assms(1) 3(1)] assms(2) show ?thesis
      by (simp add: token_child_nth cell_ok_mono)
  qed
qed

lemma token_inv_same_links:
  assumes "token_inv h" "length h' = length h"
    "\<And>u. tk_children (h' ! u) = tk_children (h ! u) \<and> tk_cancelled (h' ! u) = tk_cancelled (h ! u)"
  shows "token_inv h'"
proof (rule token_invI)
  fix u assume "u < length h'"
  then have "cell_ok (length h) u (h ! u)" using token_invD [OF assms(1)] assms(2) by metis
  then show "cell_ok (length h') u (h' ! u)"
    unfolding cell_ok_def using assms(2,3) by metis
qed

lemma token_inv_new:
  assumes "token_inv h"
  shows "token_inv (h @ [inner_new])"
proof (rule token_invI)
  fix u assume "u < length (h @ [inner_new])"
  then consider "u = length h" | "u < length h" by fastforce
  then show "cell_ok (length (h @ [inner_new])) u ((h @ [inner_new]) ! u)"
    by cases (simp_all add: nth_append cell_ok_new cell_ok_mono [OF token_invD [OF assms]])
qed

text \<open>Counting references moves no link.\<close>

lemma token_clone_links:
  "tk_children (token_clone t h ! u) = tk_children (h ! u)
   \<and> tk_cancelled (token_clone t h ! u) = tk_cancelled (h ! u)"
  by (cases "u = t"; cases "t < length h") (simp_all add: token_clone_def list_update_beyond)

lemma token_drop_links:
  "tk_children (token_drop t h ! u) = tk_children (h ! u)
   \<and> tk_cancelled (token_drop t h ! u) = tk_cancelled (h ! u)"
  by (cases "u = t"; cases "t < length h") (simp_all add: token_drop_def list_update_beyond)

lemma length_clone_drop [simp]:
  "length (token_clone t h) = length h" "length (token_drop t h) = length h"
  by (simp_all add: token_clone_def token_drop_def)

lemma token_inv_step:
  assumes "token_inv h"
  shows "token_inv (token_step op h)"
proof (cases op)
  case TNew
  with assms show ?thesis by (simp add: token_new_def token_inv_new)
next
  case (TChild t)
  with assms show ?thesis by (simp add: token_inv_child alive_def)
next
  case (TClone t)
  have "token_inv (token_clone t h)"
    by (rule token_inv_same_links [OF assms]) (simp_all add: token_clone_links)
  with TClone assms show ?thesis by simp
next
  case (TDrop t)
  have "token_inv (token_drop t h)"
    by (rule token_inv_same_links [OF assms]) (simp_all add: token_drop_links)
  with TDrop assms show ?thesis by simp
next
  case (TCancel t)
  with assms show ?thesis by (simp add: token_inv_cancel_work cancel_token_def)
qed

lemma token_inv_run: "token_inv h \<Longrightarrow> token_inv (run_tokens ops h)"
  by (induction ops arbitrary: h) (simp_all add: run_tokens_def token_inv_step)

lemma reaches_younger:
  "reaches h S u \<Longrightarrow> token_inv h \<Longrightarrow> \<exists>t \<in> S. t \<le> u"
proof (induction rule: reaches.induct)
  case (step t c)
  have "t < length h" using reaches_alive [OF step.hyps(1)] by (simp add: alive_def)
  from token_invD [OF step.prems this] step.hyps(3) have "t < c" by (simp add: cell_ok_def)
  with step.IH [OF step.prems] show ?case by (meson less_imp_le order_trans)
qed auto

subsection \<open>Parents and children over a run\<close>

text \<open>What holds of a child for as long as somebody holds it.\<close>

definition linked :: "token_heap \<Rightarrow> token \<Rightarrow> token \<Rightarrow> bool" where
  "linked h p c \<longleftrightarrow> is_cancelled h c \<or> (\<not> is_cancelled h p \<and> c \<in> set (tk_children (h ! p)))"

lemma length_cancel_token [simp]: "length (cancel_token t h) = length h"
  using cancel_work_cells [of "[t]" h] by (simp add: cancel_token_def)

lemma alive_cancel_token [simp]: "alive (cancel_token t h) u \<longleftrightarrow> alive h u"
  using cancel_work_cells [of "[t]" h u] by (simp add: alive_def cancel_token_def)

lemma is_cancelled_cancel_token:
  "is_cancelled (cancel_token t h) u \<longleftrightarrow> is_cancelled h u \<or> reaches h {t} u"
  using cancel_work_reaches [of "[t]" h u] by (simp add: cancel_token_def)

lemma cancel_token_children:
  "p < length h \<Longrightarrow> \<not> is_cancelled (cancel_token t h) p \<Longrightarrow>
   tk_children (cancel_token t h ! p) = tk_children (h ! p)"
  using cancel_work_cells [of "[t]" h p] by (auto simp: is_cancelled_def cancel_token_def)

lemma alive_step_back:
  assumes "alive (token_step op h) c" "c < length h"
  shows "alive h c"
proof (cases op)
  case TNew
  with assms show ?thesis by (simp add: alive_def token_new_def nth_append)
next
  case (TChild t)
  with assms show ?thesis by (auto simp: alive_def token_child_nth split: if_splits)
next
  case (TClone t)
  with assms show ?thesis
    by (cases "c = t") (auto simp: alive_def token_clone_def split: if_splits)
next
  case (TDrop t)
  with assms show ?thesis
    by (cases "c = t") (auto simp: alive_def token_drop_def split: if_splits)
next
  case (TCancel t)
  with assms show ?thesis by (simp split: if_splits)
qed

lemma length_step: "length h \<le> length (token_step op h)"
  by (cases op) (simp_all add: token_new_def token_child_length token_clone_def token_drop_def)

lemma linked_cancel:
  assumes "linked h p c" "p < length h" "alive h c"
  shows "linked (cancel_token t h) p c"
proof (cases "is_cancelled h c \<or> reaches h {t} p")
  case True
  have "reaches h {t} c" if "\<not> is_cancelled h c" "reaches h {t} p"
    using that assms by (auto simp: linked_def is_cancelled_def intro: reaches.step)
  with True have "is_cancelled (cancel_token t h) c"
    unfolding is_cancelled_cancel_token by blast
  then show ?thesis by (simp add: linked_def)
next
  case False
  then have "\<not> is_cancelled (cancel_token t h) p"
    using assms(1) by (auto simp: linked_def is_cancelled_cancel_token)
  then show ?thesis
    using assms(1,2) False cancel_token_children [of p h t] by (auto simp: linked_def)
qed

lemma linked_child_other:
  assumes "linked h p c" "p < length h" "c < length h" "alive h c" "t < length h"
  shows "linked (snd (token_child t h)) p c"
  using assms
  by (auto simp: linked_def is_cancelled_def token_child_nth token_child_length alive_def nth_append)

lemma linked_step:
  assumes "linked h p c" "p < length h" "c < length h" "alive (token_step op h) c"
  shows "linked (token_step op h) p c"
proof -
  have c: "alive h c" using alive_step_back [OF assms(4,3)] .
  show ?thesis
  proof (cases op)
    case TNew
    with assms(1-3) show ?thesis
      by (auto simp: linked_def is_cancelled_def token_new_def nth_append)
  next
    case (TClone t)
    with assms(1-3) show ?thesis
      by (auto simp: linked_def is_cancelled_def token_clone_links)
  next
    case (TDrop t)
    with assms(1-3) show ?thesis
      by (auto simp: linked_def is_cancelled_def token_drop_links)
  qed (use assms(1-3) c linked_cancel linked_child_other in \<open>auto simp: alive_def\<close>)
qed

lemma linked_run:
  assumes "linked h p c" "p < length h" "c < length h" "alive (run_tokens ops h) c"
  shows "linked (run_tokens ops h) p c"
proof -
  have held: "alive h c" if "alive (run_tokens ops h) c" "c < length h" for ops h
    using that
  proof (induction ops arbitrary: h)
    case (Cons op ops)
    then show ?case
      using length_step [of h op] alive_step_back [of op h c] by (simp add: run_tokens_def)
  qed (simp add: run_tokens_def)
  show ?thesis
    using assms
  proof (induction ops arbitrary: h)
    case (Cons op ops)
    have "p < length (token_step op h)" "c < length (token_step op h)"
      using Cons.prems(2,3) length_step [of h op] by simp_all
    moreover have "alive (run_tokens ops (token_step op h)) c"
      using Cons.prems(4) by (simp add: run_tokens_def)
    ultimately show ?case
      using Cons.IH [of "token_step op h"] linked_step [OF Cons.prems(1-3), of op] held
      by (simp add: run_tokens_def)
  qed (simp add: run_tokens_def)
qed

lemma linked_child:
  assumes "p < length h" "token_child p h = (c, h')"
  shows "linked h' p c" "p < length h'" "c < length h'"
proof -
  have h': "h' = snd (token_child p h)" "c = length h"
    using assms(2) token_child_fst [of p h] by simp_all
  show "linked h' p c"
    using assms(1) by (auto simp: h' linked_def is_cancelled_def token_child_nth token_child_length)
  show "p < length h'" "c < length h'"
    using assms(1) by (simp_all add: h' token_child_length)
qed

end
