(* ===== verification/Sessions.thy ===== *)
theory Sessions
  imports Connection_Types Cancel_Token
begin

text \<open>
  The open sessions (\<open>crates/oxyn-exec/src/sessions.rs\<close>) and the executions in progress with
  their cancellation (\<open>crates/oxyn-exec/src/cancel.rs\<close>). A slot holds the driver's session, of
  a type the model leaves open; what a driver answers is an argument of the operation that
  asks it. The slot's lock is free at each step, so waiting for it is not modelled.
\<close>

subsection \<open>Session slots\<close>

record 'drv session_slot =
  slot_id :: session_id
  slot_connection :: connection_id
  slot_capabilities :: capabilities
  slot_opened_at :: instant
  slot_session :: "'drv option"
  slot_closing :: bool

definition session_closed :: oxyn_error where
  "session_closed = EConnection ''the session has been closed''"

definition slot_new ::
  "session_id \<Rightarrow> instant \<Rightarrow> ('drv \<Rightarrow> capabilities) \<Rightarrow> connection_id \<Rightarrow> 'drv \<Rightarrow> 'drv session_slot" where
  "slot_new fresh now capabilities_of connection session =
     \<lparr>slot_id = fresh, slot_connection = connection, slot_capabilities = capabilities_of session,
      slot_opened_at = now, slot_session = Some session, slot_closing = False\<rparr>"

definition slot_is_open :: "'drv session_slot \<Rightarrow> bool" where
  "slot_is_open s \<longleftrightarrow> \<not> slot_closing s \<and> slot_session s \<noteq> None"

definition slot_classify_intent ::
  "('drv \<Rightarrow> exec_request \<Rightarrow> statement_intent option) \<Rightarrow> 'drv session_slot \<Rightarrow> exec_request
   \<Rightarrow> statement_intent option" where
  "slot_classify_intent classify s request =
     (if slot_closing s then None
      else Option.bind (slot_session s) (\<lambda>d. classify d request))"

definition slot_classify_risk ::
  "('drv \<Rightarrow> exec_request \<Rightarrow> mutation_risk option) \<Rightarrow> 'drv session_slot \<Rightarrow> exec_request
   \<Rightarrow> mutation_risk option" where
  "slot_classify_risk classify s request =
     (if slot_closing s then None
      else Option.bind (slot_session s) (\<lambda>d. classify d request))"

text \<open>
  \<open>execute\<close>, \<open>preview_request\<close>, \<open>set_context\<close>, \<open>context\<close> and \<open>read_catalog\<close> begin the same
  way: a closing session first, then the caller's token, then the session itself.
\<close>

definition with_session ::
  "bool \<Rightarrow> 'drv session_slot \<Rightarrow> ('drv \<Rightarrow> 'a result) \<Rightarrow> 'a result" where
  "with_session caller_cancelled s operation =
     (if slot_closing s then Inl session_closed
      else if caller_cancelled then Inl ECancelled
      else case slot_session s of None \<Rightarrow> Inl session_closed | Some d \<Rightarrow> operation d)"

definition slot_execute ::
  "('drv \<Rightarrow> exec_request \<Rightarrow> 'c result) \<Rightarrow> bool \<Rightarrow> exec_request \<Rightarrow> 'drv session_slot \<Rightarrow> 'c result" where
  "slot_execute drv_execute caller_cancelled request s =
     with_session caller_cancelled s (\<lambda>d. drv_execute d request)"

definition slot_transaction_state ::
  "('drv \<Rightarrow> transaction_state) \<Rightarrow> 'drv session_slot \<Rightarrow> transaction_state" where
  "slot_transaction_state report s =
     (if slot_closing s then TxUnknown
      else case slot_session s of None \<Rightarrow> TxUnknown | Some d \<Rightarrow> report d)"

definition cancel_statement ::
  "('drv \<Rightarrow> statement_handle \<Rightarrow> unit result) \<Rightarrow> statement_handle \<Rightarrow> 'drv session_slot \<Rightarrow> unit result" where
  "cancel_statement drv_cancel statement s =
     (case slot_session s of None \<Rightarrow> Inr () | Some d \<Rightarrow> drv_cancel d statement)"

definition begin_close :: "'drv session_slot \<Rightarrow> 'drv session_slot" where
  "begin_close s = s\<lparr>slot_closing := True\<rparr>"

definition slot_close ::
  "('drv \<Rightarrow> unit result) \<Rightarrow> 'drv session_slot \<Rightarrow> unit result \<times> 'drv session_slot" where
  "slot_close drv_close s =
     (let s' = (begin_close s)\<lparr>slot_session := None\<rparr>
      in (case slot_session s of None \<Rightarrow> Inr () | Some d \<Rightarrow> drv_close d, s'))"

text \<open>Once closing has begun nothing runs on the slot, and closing twice is harmless.\<close>

lemma with_session_Inr:
  "with_session cancelled s f = Inr r \<longleftrightarrow>
     (\<exists>d. \<not> cancelled \<and> slot_is_open s \<and> slot_session s = Some d \<and> f d = Inr r)"
  by (auto simp: with_session_def slot_is_open_def split: option.splits)

lemma closing_refuses: "slot_closing s \<Longrightarrow> with_session cancelled s f = Inl session_closed"
  by (simp add: with_session_def)

lemma slot_close_closed:
  "\<not> slot_is_open (snd (slot_close drv_close s))"
  "fst (slot_close other (snd (slot_close drv_close s))) = Inr ()"
  "slot_id (snd (slot_close drv_close s)) = slot_id s"
  by (simp_all add: slot_close_def Let_def slot_is_open_def begin_close_def)

lemma transaction_state_known_open:
  "slot_transaction_state report s \<noteq> TxUnknown \<Longrightarrow> slot_is_open s"
  by (auto simp: slot_transaction_state_def slot_is_open_def split: if_splits option.splits)

subsection \<open>The registry of sessions\<close>

type_synonym 'drv session_registry = "'drv session_slot list"

definition insert_session :: "'drv session_slot \<Rightarrow> 'drv session_registry \<Rightarrow> 'drv session_registry" where
  "insert_session s r = insert_key slot_id s r"

definition get_session :: "session_id \<Rightarrow> 'drv session_registry \<Rightarrow> 'drv session_slot option" where
  "get_session i r = find_key slot_id i r"

definition remove_session ::
  "session_id \<Rightarrow> 'drv session_registry \<Rightarrow> 'drv session_slot option \<times> 'drv session_registry" where
  "remove_session i r = (find_key slot_id i r, remove_key slot_id i r)"

definition sessions_for_connection ::
  "connection_id \<Rightarrow> 'drv session_registry \<Rightarrow> 'drv session_slot list" where
  "sessions_for_connection c r = filter (\<lambda>s. slot_connection s = c) r"

fun remove_sessions ::
  "session_id list \<Rightarrow> 'drv session_registry \<Rightarrow> 'drv session_slot list \<times> 'drv session_registry" where
  "remove_sessions [] r = ([], r)"
| "remove_sessions (i # ids) r =
     (let (found, r') = remove_session i r; (rest, r'') = remove_sessions ids r'
      in (case found of None \<Rightarrow> rest | Some s \<Rightarrow> s # rest, r''))"

definition drain_connection ::
  "connection_id \<Rightarrow> 'drv session_registry \<Rightarrow> 'drv session_slot list \<times> 'drv session_registry" where
  "drain_connection c r =
     remove_sessions (map slot_id (filter (\<lambda>s. slot_connection s = c) r)) r"

definition drain_all :: "'drv session_registry \<Rightarrow> 'drv session_slot list \<times> 'drv session_registry" where
  "drain_all r = (r, [])"

lemma remove_sessions_Cons:
  "fst (remove_sessions (i # ids) r) =
     (case find_key slot_id i r of None \<Rightarrow> [] | Some s \<Rightarrow> [s])
     @ fst (remove_sessions ids (remove_key slot_id i r))"
  "snd (remove_sessions (i # ids) r) = snd (remove_sessions ids (remove_key slot_id i r))"
  by (auto simp: remove_session_def Let_def split: prod.split option.split)

lemma remove_sessions_registry:
  "snd (remove_sessions ids r) = filter (\<lambda>s. slot_id s \<notin> set ids) r"
proof (induction ids arbitrary: r)
  case (Cons i ids)
  have "snd (remove_sessions (i # ids) r) = filter (\<lambda>s. slot_id s \<notin> set ids) (remove_key slot_id i r)"
    unfolding remove_sessions_Cons Cons.IH ..
  then show ?case unfolding remove_key_def filter_filter by simp
qed simp

text \<open>Draining a connection hands over exactly its sessions and leaves the others in place.\<close>

lemma remove_sessions_found:
  "distinct (map slot_id r) \<Longrightarrow> distinct (map slot_id xs) \<Longrightarrow> set xs \<subseteq> set r
     \<Longrightarrow> fst (remove_sessions (map slot_id xs) r) = xs"
proof (induction xs arbitrary: r)
  case (Cons x xs)
  have "find_key slot_id (slot_id x) r = Some x" using Cons.prems by (simp add: find_key_distinct)
  moreover have "fst (remove_sessions (map slot_id xs) (remove_key slot_id (slot_id x) r)) = xs"
    using Cons.prems by (intro Cons.IH) (auto simp: distinct_remove_key set_remove_key image_iff)
  ultimately show ?case by (simp only: list.map remove_sessions_Cons option.case append_Cons append_Nil)
qed simp

lemma drain_connection_spec:
  assumes "distinct (map slot_id r)"
  shows "drain_connection c r = (filter (\<lambda>s. slot_connection s = c) r, filter (\<lambda>s. slot_connection s \<noteq> c) r)"
proof -
  have same: "s = s'" if "s \<in> set r" "s' \<in> set r" "slot_id s = slot_id s'" for s s'
    using that assms by (metis find_key_distinct option.inject)
  have "fst (drain_connection c r) = filter (\<lambda>s. slot_connection s = c) r"
    unfolding drain_connection_def using assms by (intro remove_sessions_found) (simp_all add: distinct_map_filter)
  moreover have "snd (drain_connection c r) = filter (\<lambda>s. slot_connection s \<noteq> c) r"
    unfolding drain_connection_def remove_sessions_registry
    by (intro filter_cong refl) (use same in auto)
  ultimately show ?thesis by (metis prod.collapse)
qed

subsection \<open>Executions in progress\<close>

record running_statement =
  rs_statement :: statement_handle
  rs_command :: command_id
  rs_connection :: connection_id
  rs_session :: session_id
  rs_capabilities :: capabilities
  rs_started_at :: instant
  rs_token :: token

definition supports_server_cancel :: "running_statement \<Rightarrow> bool" where
  "supports_server_cancel e = caps_contains (rs_capabilities e) SERVER_SIDE_CANCEL"

datatype server_cancel = NotAttempted | Unsupported | Requested | CancelFailed

definition reached_server :: "server_cancel \<Rightarrow> bool" where
  "reached_server c \<longleftrightarrow> c = Requested"

record cancel_report =
  cr_statement :: statement_handle
  cr_was_running :: bool
  cr_client :: bool
  cr_server :: server_cancel

type_synonym cancel_registry = "running_statement list"

definition register_running :: "running_statement \<Rightarrow> cancel_registry \<Rightarrow> cancel_registry" where
  "register_running e r = insert_key rs_statement e r"

definition finish_running ::
  "statement_handle \<Rightarrow> cancel_registry \<Rightarrow> running_statement option \<times> cancel_registry" where
  "finish_running h r = (find_key rs_statement h r, remove_key rs_statement h r)"

definition running_for_connection :: "connection_id \<Rightarrow> cancel_registry \<Rightarrow> running_statement list" where
  "running_for_connection c r = filter (\<lambda>e. rs_connection e = c) r"

definition running_for_session :: "session_id \<Rightarrow> cancel_registry \<Rightarrow> running_statement list" where
  "running_for_session i r = filter (\<lambda>e. rs_session e = i) r"

text \<open>What a cancellation does, in order: it fires a token, then perhaps asks the server.\<close>

datatype cancel_effect = TokenFired token | ServerAsked session_id statement_handle

definition cancel_client ::
  "statement_handle \<Rightarrow> cancel_registry \<Rightarrow> token_heap
   \<Rightarrow> running_statement option \<times> token_heap \<times> cancel_effect list" where
  "cancel_client h r heap =
     (case find_key rs_statement h r of None \<Rightarrow> (None, heap, [])
      | Some e \<Rightarrow> (Some e, cancel_token (rs_token e) heap, [TokenFired (rs_token e)]))"

text \<open>What \<open>cancel_statement\<close> sends: nothing when the session of the slot is gone.\<close>

definition slot_asks :: "statement_handle \<Rightarrow> 'drv session_slot \<Rightarrow> cancel_effect list" where
  "slot_asks statement s = (case slot_session s of None \<Rightarrow> [] | Some _ \<Rightarrow> [ServerAsked (slot_id s) statement])"

definition cancel_running ::
  "('drv \<Rightarrow> statement_handle \<Rightarrow> unit result) \<Rightarrow> 'drv session_registry \<Rightarrow> statement_handle
   \<Rightarrow> cancel_registry \<Rightarrow> token_heap \<Rightarrow> cancel_report \<times> token_heap \<times> cancel_effect list" where
  "cancel_running drv_cancel sessions h r heap =
     (case cancel_client h r heap of
        (None, heap', effects) \<Rightarrow>
          (\<lparr>cr_statement = h, cr_was_running = False, cr_client = False, cr_server = NotAttempted\<rparr>,
           heap', effects)
      | (Some e, heap', effects) \<Rightarrow>
          (let (server, asked) =
             (if supports_server_cancel e then
                (case get_session (rs_session e) sessions of
                   Some slot \<Rightarrow>
                     (case cancel_statement drv_cancel h slot of
                        Inr _ \<Rightarrow> (Requested, slot_asks h slot)
                      | Inl _ \<Rightarrow> (CancelFailed, slot_asks h slot))
                 | None \<Rightarrow> (CancelFailed, []))
              else (Unsupported, []))
           in (\<lparr>cr_statement = h, cr_was_running = True, cr_client = True, cr_server = server\<rparr>,
               heap', effects @ asked)))"

fun cancel_each ::
  "('drv \<Rightarrow> statement_handle \<Rightarrow> unit result) \<Rightarrow> 'drv session_registry \<Rightarrow> running_statement list
   \<Rightarrow> cancel_registry \<Rightarrow> token_heap \<Rightarrow> cancel_report list \<times> token_heap \<times> cancel_effect list" where
  "cancel_each drv_cancel sessions [] r heap = ([], heap, [])"
| "cancel_each drv_cancel sessions (e # es) r heap =
     (let (report, heap', effects) = cancel_running drv_cancel sessions (rs_statement e) r heap;
          (reports, heap'', effects') = cancel_each drv_cancel sessions es r heap'
      in (report # reports, heap'', effects @ effects'))"

definition cancel_connection ::
  "('drv \<Rightarrow> statement_handle \<Rightarrow> unit result) \<Rightarrow> 'drv session_registry \<Rightarrow> connection_id
   \<Rightarrow> cancel_registry \<Rightarrow> token_heap \<Rightarrow> cancel_report list \<times> token_heap \<times> cancel_effect list" where
  "cancel_connection drv_cancel sessions c r heap =
     cancel_each drv_cancel sessions (running_for_connection c r) r heap"

subsection \<open>What a cancellation guarantees\<close>

lemma cancel_token_fires: "alive heap t \<Longrightarrow> is_cancelled (cancel_token t heap) t"
  by (simp add: is_cancelled_cancel_token reaches.start)

lemma cancel_running_heap:
  "fst (snd (cancel_running drv_cancel sessions h r heap)) =
     (case find_key rs_statement h r of None \<Rightarrow> heap | Some e \<Rightarrow> cancel_token (rs_token e) heap)"
  by (auto simp: cancel_running_def cancel_client_def Let_def split: option.splits sum.splits if_splits)

text \<open>The server is asked when the session is registered, still there, and of a driver that can.\<close>

definition server_asks :: "'drv session_registry \<Rightarrow> running_statement \<Rightarrow> cancel_effect list" where
  "server_asks sessions e =
     (case get_session (rs_session e) sessions of
        None \<Rightarrow> []
      | Some slot \<Rightarrow>
          if supports_server_cancel e \<and> slot_session slot \<noteq> None
          then [ServerAsked (rs_session e) (rs_statement e)] else [])"

lemma server_asks_slot:
  "get_session (rs_session e) sessions = Some slot \<Longrightarrow> supports_server_cancel e
     \<Longrightarrow> slot_asks (rs_statement e) slot = server_asks sessions e"
  by (auto simp: server_asks_def slot_asks_def get_session_def dest: find_key_SomeD split: option.split)

lemma cancel_running_found:
  assumes "find_key rs_statement h r = Some e"
    "cancel_running drv_cancel sessions h r heap = (report, heap', effects)"
  shows "cr_was_running report" "cr_client report" "heap' = cancel_token (rs_token e) heap"
    "effects = TokenFired (rs_token e) # server_asks sessions e"
    "reached_server (cr_server report) \<longleftrightarrow> supports_server_cancel e \<and>
       (\<exists>slot. get_session (rs_session e) sessions = Some slot \<and>
               cancel_statement drv_cancel h slot = Inr ())"
proof -
  have h: "rs_statement e = h" using find_key_SomeD [OF assms(1)] by simp
  show "cr_was_running report" "cr_client report" "heap' = cancel_token (rs_token e) heap"
    "effects = TokenFired (rs_token e) # server_asks sessions e"
    "reached_server (cr_server report) \<longleftrightarrow> supports_server_cancel e \<and>
       (\<exists>slot. get_session (rs_session e) sessions = Some slot \<and>
               cancel_statement drv_cancel h slot = Inr ())"
    using assms
    by (auto simp: cancel_running_def cancel_client_def Let_def reached_server_def server_asks_def h
        server_asks_slot [of e sessions, unfolded h]
        split: option.splits sum.splits if_splits)
qed

text \<open>Cancelling a list of running statements fires all their tokens, and asks for each in turn.\<close>

lemma cancel_each_result:
  assumes "distinct (map rs_statement r)" "set es \<subseteq> set r"
    and "cancel_each drv_cancel sessions es r heap = (reports, heap', effects)"
  shows "heap' = cancel_work (map rs_token es) heap"
    and "effects = concat (map (\<lambda>e. TokenFired (rs_token e) # server_asks sessions e) es)"
proof -
  have "heap' = cancel_work (map rs_token es) heap
    \<and> effects = concat (map (\<lambda>e. TokenFired (rs_token e) # server_asks sessions e) es)"
    using assms(2,3)
  proof (induction es arbitrary: heap reports effects)
    case Nil
    then show ?case by (simp add: cancel_work.simps)
  next
    case (Cons e es)
    obtain report heap1 effects1 where one:
      "cancel_running drv_cancel sessions (rs_statement e) r heap = (report, heap1, effects1)"
      by (metis prod_cases3)
    obtain reports2 effects2 where two: "cancel_each drv_cancel sessions es r heap1 = (reports2, heap', effects2)"
      "effects = effects1 @ effects2"
      using Cons.prems(2) one by (auto simp: Let_def split: prod.splits)
    have "find_key rs_statement (rs_statement e) r = Some e"
      using assms(1) Cons.prems(1) by (simp add: find_key_distinct)
    note found = cancel_running_found [OF this one]
    have rest: "heap' = cancel_work (map rs_token es) heap1"
      "effects2 = concat (map (\<lambda>e. TokenFired (rs_token e) # server_asks sessions e) es)"
      using Cons.IH [OF _ two(1)] Cons.prems(1) by simp_all
    have "cancel_work (map rs_token (e # es)) heap = cancel_work (map rs_token es) (cancel_work [rs_token e] heap)"
      using cancel_work_append [of "[rs_token e]" "map rs_token es" heap] by simp
    with found(3,4) rest two(2) show ?case by (simp add: cancel_token_def)
  qed
  then show "heap' = cancel_work (map rs_token es) heap"
    "effects = concat (map (\<lambda>e. TokenFired (rs_token e) # server_asks sessions e) es)" by simp_all
qed

end
