(* ===== verification/Request_Bounds.thy ===== *)
theory Request_Bounds
  imports Classify_Safety Policy_Gate Sessions
begin

text \<open>
  What the executor does to a command before the policy sees it
  (\<open>crates/oxyn-exec/src/executor.rs\<close>): \<open>reclassified\<close> replaces what the caller declares by what
  the text does, \<open>bounded_to\<close> bounds the reads of a production or read-only connection.
\<close>

text \<open>What a driver can prove of a request in a language that is not SQL.\<close>

record 'drv prover =
  prove_intent :: "'drv \<Rightarrow> exec_request \<Rightarrow> statement_intent option"
  prove_risk :: "'drv \<Rightarrow> exec_request \<Rightarrow> mutation_risk option"

definition proven_risk ::
  "'drv prover \<Rightarrow> 'drv session_slot \<Rightarrow> statement_intent \<Rightarrow> exec_request \<Rightarrow> mutation_risk" where
  "proven_risk pv slot i r =
     (if i \<in> {Write, Ddl, Grant}
      then (case slot_classify_risk (prove_risk pv) slot r of Some risk \<Rightarrow> risk | None \<Rightarrow> RiskNone)
      else RiskNone)"

definition reclassified_request ::
  "sql_library \<Rightarrow> 'drv prover \<Rightarrow> exec_request \<Rightarrow> 'drv session_slot option \<Rightarrow> exec_request" where
  "reclassified_request lib pv request slot =
     (let r = qualify (reclassify lib request) request in
      if sql_dialect_of (language r) \<noteq> None then r
      else (case slot of None \<Rightarrow> r
        | Some s \<Rightarrow> (case slot_classify_intent (prove_intent pv) s r of
            None \<Rightarrow> r
          | Some i \<Rightarrow>
              (with_risk (proven_risk pv s i r) (with_intent i r))
                \<lparr>transaction_control := False, context_change := False\<rparr>)))"

definition target_slot :: "connection_id \<Rightarrow> session_id \<Rightarrow> 'drv session_registry \<Rightarrow> 'drv session_slot option" where
  "target_slot c s sessions =
     (case get_session s sessions of None \<Rightarrow> None
      | Some slot \<Rightarrow> if slot_connection slot = c then Some slot else None)"

fun reclassified ::
  "sql_library \<Rightarrow> 'drv prover \<Rightarrow> 'drv session_registry \<Rightarrow> command \<Rightarrow> command" where
  "reclassified lib pv sessions (Execute c s request) =
     Execute c s (reclassified_request lib pv request (target_slot c s sessions))"
| "reclassified lib pv sessions cmd = cmd"

fun bounded_to :: "sql_library \<Rightarrow> environment \<Rightarrow> bool \<Rightarrow> command \<Rightarrow> command" where
  "bounded_to lib env read_only (Execute c s request) =
     Execute c s
       (if (is_production env \<or> read_only) \<and> \<not> request_is_mutating request
           \<and> \<not> (transaction_control request \<and> only_controls_transactions lib request)
        then request\<lparr>limits := (limits request)\<lparr>limits_read_only := True\<rparr>\<rparr>
        else request)"
| "bounded_to lib env read_only cmd = cmd"

subsection \<open>What they keep\<close>

lemma is_execute_reclassified [simp]: "is_execute (reclassified lib pv sessions cmd) = is_execute cmd"
  by (cases cmd) simp_all

lemma target_connection_reclassified [simp]:
  "target_connection (reclassified lib pv sessions cmd) = target_connection cmd"
  by (cases cmd) simp_all

lemma bounded_to_reads [simp]:
  "intent (bounded_to lib env ro cmd) = intent cmd"
  "mutation_risk_of (bounded_to lib env ro cmd) = mutation_risk_of cmd"
  "target_connection (bounded_to lib env ro cmd) = target_connection cmd"
  "touches_database (bounded_to lib env ro cmd) = touches_database cmd"
  "controls_transaction (bounded_to lib env ro cmd) = controls_transaction cmd"
  "changes_context (bounded_to lib env ro cmd) = changes_context cmd"
  "statement_text (bounded_to lib env ro cmd) = statement_text cmd"
  "is_mutating (bounded_to lib env ro cmd) = is_mutating cmd"
  by (cases cmd; simp add: is_mutating_def)+

lemma bounded_to_other: "\<not> is_execute cmd \<Longrightarrow> bounded_to lib env ro cmd = cmd"
  by (cases cmd) simp_all

lemma reclassified_other: "\<not> is_execute cmd \<Longrightarrow> reclassified lib pv sessions cmd = cmd"
  by (cases cmd) simp_all

lemma only_controls_transactions_limits [simp]:
  "only_controls_transactions lib (r\<lparr>limits := l\<rparr>) = only_controls_transactions lib r"
  by (simp add: only_controls_transactions_def split: option.split)

lemma bounded_to_idem: "bounded_to lib env ro (bounded_to lib env ro cmd) = bounded_to lib env ro cmd"
  by (cases cmd) (auto simp: request_is_mutating_def)

text \<open>The declared intent, risk and flags never survive a reclassification.\<close>

lemma same_text_reclassify: "same_text r r' \<Longrightarrow> language r' = language r \<and> req_text r' = req_text r"
  unfolding same_text_def by (metis exec_request.select_convs(1,2) exec_request.surjective exec_request.update_convs)

lemma reclassified_request_declared:
  "same_text r r' \<Longrightarrow> reclassified_request lib pv r' slot = reclassified_request lib pv r slot"
  unfolding reclassified_request_def using reclassify_declared [of r r' lib] by simp

lemma reclassified_request_sql:
  "sql_dialect_of (language r) = Some d \<Longrightarrow>
   reclassified_request lib pv r slot = qualify (classify lib (req_text r) d) r"
  by (simp add: reclassified_request_def Let_def reclassify_sql)

lemma reclassified_request_text [simp]:
  "req_text (reclassified_request lib pv r slot) = req_text r"
  "language (reclassified_request lib pv r slot) = language r"
  "limits (reclassified_request lib pv r slot) = limits r"
  by (auto simp: reclassified_request_def Let_def with_intent_def with_risk_def split: option.split)

text \<open>In a language that is not SQL, only the driver of the target session can make a request a
  read; without a proof it is mutating.\<close>

lemma reclassified_request_not_sql:
  assumes "sql_dialect_of (language r) = None"
    and "\<not> request_is_mutating (reclassified_request lib pv r slot)"
  shows "\<exists>s d. slot = Some s \<and> slot_is_open s \<and> slot_session s = Some d
    \<and> prove_intent pv d (qualify (reclassify lib r) r) = Some Read"
proof -
  let ?r = "qualify (reclassify lib r) r"
  have unknown: "request_is_mutating ?r"
    using reclassify_not_sql [OF assms(1), of lib]
    by (simp add: request_is_mutating_qualify class_is_mutating_def)
  with assms obtain s i where s: "slot = Some s" "slot_classify_intent (prove_intent pv) s ?r = Some i"
    by (auto simp: reclassified_request_def Let_def split: option.splits)
  then have "i = Read"
    using assms by (auto simp: reclassified_request_def Let_def request_is_mutating_def with_intent_def with_risk_def)
  moreover obtain d where "slot_is_open s" "slot_session s = Some d" "prove_intent pv d ?r = Some i"
    using s(2) by (auto simp: slot_classify_intent_def slot_is_open_def bind_eq_Some_conv split: if_splits)
  ultimately show ?thesis using s(1) by auto
qed

lemma reclassified_request_read_sql:
  assumes "sql_dialect_of (language r) = Some d"
    and "\<not> request_is_mutating (reclassified_request lib pv r slot)"
  shows "class_is_read_only (classify lib (req_text r) d)"
  using assms by (simp add: reclassified_request_sql request_is_mutating_qualify class_is_mutating_iff)

text \<open>A read of a production or read-only connection leaves bounded, but for a bare transaction
  verb.\<close>

lemma bounded_to_bounds:
  assumes "bounded_to lib env ro cmd = Execute c s r" "is_production env \<or> ro"
  shows "request_is_mutating r \<or> limits_read_only (limits r)
    \<or> transaction_control r \<and> only_controls_transactions lib r"
  using assms by (cases cmd) (auto split: if_splits)

end
