(* ===== verification/Retained.thy ===== *)
theory Retained
  imports Connection_Types
begin

text \<open>
  The retained results of \<open>crates/oxyn-exec/src/retained.rs\<close>: a map of buffers and the order
  they were stored in. A buffer is its three measured sizes and the strong count of its \<open>Arc\<close>,
  the registry's own reference included; a buffer somebody else holds is pinned.
\<close>

subsection \<open>Stored results\<close>

record result_buffer =
  resident_bytes :: u64
  cached_bytes :: u64
  spilled_bytes :: u64
  strong_count :: nat

record stored_result =
  sr_connection :: connection_id
  sr_buffer :: result_buffer

definition max_idle_results :: nat where
  "max_idle_results = 16"

definition max_idle_memory :: u64 where
  "max_idle_memory = 256 * 1024 * 1024"

definition max_idle_spill :: u64 where
  "max_idle_spill = 1024 * 1024 * 1024"

record retained_results =
  rr_entries :: "result_id \<rightharpoonup> stored_result"
  rr_order :: "result_id list"

definition retained_new :: retained_results where
  "retained_new = \<lparr>rr_entries = Map.empty, rr_order = []\<rparr>"

definition retained_insert :: "result_id \<Rightarrow> stored_result \<Rightarrow> retained_results \<Rightarrow> retained_results" where
  "retained_insert i s r =
     \<lparr>rr_entries = (rr_entries r)(i \<mapsto> s), rr_order = filter (\<lambda>j. j \<noteq> i) (rr_order r) @ [i]\<rparr>"

definition retained_get :: "result_id \<Rightarrow> retained_results \<Rightarrow> stored_result option" where
  "retained_get i r = rr_entries r i"

definition retained_remove ::
  "result_id \<Rightarrow> retained_results \<Rightarrow> stored_result option \<times> retained_results" where
  "retained_remove i r =
     (rr_entries r i,
      \<lparr>rr_entries = (rr_entries r)(i := None), rr_order = filter (\<lambda>j. j \<noteq> i) (rr_order r)\<rparr>)"

definition retained_len :: "retained_results \<Rightarrow> nat" where
  "retained_len r = map_len (rr_entries r)"

subsection \<open>Pruning\<close>

text \<open>\<open>saturating_sub\<close>.\<close>

definition sat_sub :: "u64 \<Rightarrow> u64 \<Rightarrow> u64" where
  "sat_sub a b = (if b \<le> a then a - b else 0)"

definition idle_item :: "retained_results \<Rightarrow> result_id \<Rightarrow> (result_id \<times> u64 \<times> u64) option" where
  "idle_item r i =
     (case rr_entries r i of None \<Rightarrow> None
      | Some entry \<Rightarrow>
          if strong_count (sr_buffer entry) \<noteq> 1 then None
          else Some (i, sat_add (resident_bytes (sr_buffer entry)) (cached_bytes (sr_buffer entry)),
                     spilled_bytes (sr_buffer entry)))"

definition idle :: "retained_results \<Rightarrow> (result_id \<times> u64 \<times> u64) list" where
  "idle r = List.map_filter (idle_item r) (rr_order r)"

fun evict ::
  "nat \<Rightarrow> u64 \<Rightarrow> u64 \<Rightarrow> (result_id \<times> u64 \<times> u64) list \<Rightarrow> nat \<Rightarrow> u64 \<Rightarrow> u64
   \<Rightarrow> (result_id \<rightharpoonup> stored_result) \<Rightarrow> stored_result list \<times> (result_id \<rightharpoonup> stored_result)" where
  "evict count_limit memory_limit spill_limit [] count memory spill entries = ([], entries)"
| "evict count_limit memory_limit spill_limit ((i, bytes, disk) # items) count memory spill entries =
     (if count \<le> count_limit \<and> memory \<le> memory_limit \<and> spill \<le> spill_limit then ([], entries)
      else case entries i of
        None \<Rightarrow> evict count_limit memory_limit spill_limit items count memory spill entries
      | Some entry \<Rightarrow>
          (let (evicted, entries') =
             evict count_limit memory_limit spill_limit items (count - 1) (sat_sub memory bytes)
               (sat_sub spill disk) (entries(i := None))
           in (entry # evicted, entries')))"

definition prune_to ::
  "nat \<Rightarrow> u64 \<Rightarrow> u64 \<Rightarrow> retained_results \<Rightarrow> stored_result list \<times> retained_results" where
  "prune_to count_limit memory_limit spill_limit r =
     (let items = idle r;
          (evicted, entries) =
            evict count_limit memory_limit spill_limit items (length items)
              (fold (\<lambda>item sum. sat_add sum (fst (snd item))) items 0)
              (fold (\<lambda>item sum. sat_add sum (snd (snd item))) items 0) (rr_entries r)
      in (evicted, \<lparr>rr_entries = entries,
                    rr_order = filter (\<lambda>i. entries i \<noteq> None) (rr_order r)\<rparr>))"

definition prune :: "retained_results \<Rightarrow> stored_result list \<times> retained_results" where
  "prune r = prune_to max_idle_results max_idle_memory max_idle_spill r"

subsection \<open>The registry's invariant\<close>

definition retained_inv :: "retained_results \<Rightarrow> bool" where
  "retained_inv r \<longleftrightarrow> distinct (rr_order r) \<and> set (rr_order r) = dom (rr_entries r)"

lemma retained_inv_new: "retained_inv retained_new"
  by (simp add: retained_inv_def retained_new_def)

lemma retained_inv_insert: "retained_inv r \<Longrightarrow> retained_inv (retained_insert i s r)"
  by (auto simp: retained_inv_def retained_insert_def)

lemma retained_inv_remove: "retained_inv r \<Longrightarrow> retained_inv (snd (retained_remove i r))"
  by (auto simp: retained_inv_def retained_remove_def)

lemma retained_len_order: "retained_inv r \<Longrightarrow> retained_len r = length (rr_order r)"
  by (metis distinct_card map_len_def retained_inv_def retained_len_def)

subsection \<open>What pruning removes\<close>

text \<open>The measures of a list of idle results, as numbers.\<close>

definition memory_of :: "(result_id \<times> u64 \<times> u64) list \<Rightarrow> nat" where
  "memory_of items = sum_list (map (\<lambda>item. unat (fst (snd item))) items)"

definition spill_of :: "(result_id \<times> u64 \<times> u64) list \<Rightarrow> nat" where
  "spill_of items = sum_list (map (\<lambda>item. unat (snd (snd item))) items)"

definition within_limits :: "nat \<Rightarrow> u64 \<Rightarrow> u64 \<Rightarrow> (result_id \<times> u64 \<times> u64) list \<Rightarrow> bool" where
  "within_limits count_limit memory_limit spill_limit items \<longleftrightarrow>
     length items \<le> count_limit \<and> memory_of items \<le> unat memory_limit
     \<and> spill_of items \<le> unat spill_limit"

lemma unat_fold_sat_add:
  "unat (fold (\<lambda>item sum. sat_add sum (f item)) items a)
     = min (unat a + sum_list (map (\<lambda>item. unat (f item)) items)) (2 ^ 64 - 1)"
proof (induction items arbitrary: a)
  case Nil
  have "unat a < 2 ^ 64" using unsigned_less [of a] by simp
  then show ?case by simp
next
  case (Cons x items)
  then show ?case by (simp add: unat_sat_add)
qed

lemma unat_sat_sub: "unat (sat_sub a b) = unat a - unat b"
  by (simp add: sat_sub_def unat_sub word_le_nat_alt)

lemma memory_of_Cons [simp]: "memory_of ((i, b, d) # items) = unat b + memory_of items"
  by (simp add: memory_of_def)

lemma spill_of_Cons [simp]: "spill_of ((i, b, d) # items) = unat d + spill_of items"
  by (simp add: spill_of_def)

text \<open>
  The loop evicts the shortest prefix after which the rest is within the limits.
\<close>

lemma evict_prefix:
  assumes "distinct (map fst items)" "\<And>item. item \<in> set items \<Longrightarrow> fst item \<in> dom entries"
    "unat memory = memory_of items" "unat spill = spill_of items"
    "evict cl ml sl items (length items) memory spill entries = (evicted, entries')"
  shows "\<exists>k \<le> length items.
      map Some evicted = map (entries \<circ> fst) (take k items)
    \<and> entries' = (\<lambda>i. if i \<in> fst ` set (take k items) then None else entries i)
    \<and> within_limits cl ml sl (drop k items)
    \<and> (\<forall>j < k. \<not> within_limits cl ml sl (drop j items))"
  using assms
proof (induction items arbitrary: memory spill entries evicted entries')
  case Nil
  then show ?case by (simp add: within_limits_def memory_of_def spill_of_def)
next
  case (Cons item items)
  obtain i bytes disk where item: "item = (i, bytes, disk)" by (metis prod_cases3)
  let ?stop = "length (item # items) \<le> cl \<and> memory \<le> ml \<and> spill \<le> sl"
  have stop: "?stop \<longleftrightarrow> within_limits cl ml sl (item # items)"
    using Cons.prems(3,4) by (simp add: within_limits_def word_le_nat_alt)
  show ?case
  proof (cases ?stop)
    case True
    with Cons.prems(5) item have "evicted = []" "entries' = entries" by auto
    with True stop show ?thesis by (intro exI [of _ 0]) simp
  next
    case False
    obtain entry where entry: "entries i = Some entry"
      using Cons.prems(2) [of item] item by auto
    let ?entries = "entries(i := None)"
    obtain evicted' where rec:
      "evict cl ml sl items (length items) (sat_sub memory bytes) (sat_sub spill disk) ?entries
         = (evicted', entries')" "evicted = entry # evicted'"
      using Cons.prems(5) False item entry by (auto split: prod.splits)
    have other: "fst item' \<noteq> i" if "item' \<in> set items" for item'
      using that Cons.prems(1) item by (metis distinct.simps(2) fst_conv image_eqI list.simps(9) set_map)
    have "\<exists>k \<le> length items. map Some evicted' = map (?entries \<circ> fst) (take k items)
        \<and> entries' = (\<lambda>j. if j \<in> fst ` set (take k items) then None else ?entries j)
        \<and> within_limits cl ml sl (drop k items) \<and> (\<forall>j < k. \<not> within_limits cl ml sl (drop j items))"
    proof (rule Cons.IH [OF _ _ _ _ rec(1)])
      show "distinct (map fst items)" using Cons.prems(1) by simp
      show "fst item' \<in> dom ?entries" if "item' \<in> set items" for item'
        using that Cons.prems(2) [of item'] other [OF that] by simp
      show "unat (sat_sub memory bytes) = memory_of items"
        using Cons.prems(3) item by (simp add: unat_sat_sub)
      show "unat (sat_sub spill disk) = spill_of items"
        using Cons.prems(4) item by (simp add: unat_sat_sub)
    qed
    then obtain k where k: "k \<le> length items"
      "map Some evicted' = map (?entries \<circ> fst) (take k items)"
      "entries' = (\<lambda>j. if j \<in> fst ` set (take k items) then None else ?entries j)"
      "within_limits cl ml sl (drop k items)" "\<And>j. j < k \<Longrightarrow> \<not> within_limits cl ml sl (drop j items)"
      by blast
    have same: "map (?entries \<circ> fst) (take k items) = map (entries \<circ> fst) (take k items)"
      using other by (auto dest: in_set_takeD)
    have before: "\<not> within_limits cl ml sl (drop j (item # items))" if "j < Suc k" for j
      using that False stop k(5) by (cases j) auto
    show ?thesis
    proof (intro exI [of _ "Suc k"] conjI)
      show "map Some evicted = map (entries \<circ> fst) (take (Suc k) (item # items))"
        using k(2) rec(2) entry item same by simp
      show "entries' = (\<lambda>j. if j \<in> fst ` set (take (Suc k) (item # items)) then None else entries j)"
        using k(3) item by (auto simp: fun_eq_iff)
    qed (use k(1,4) before in auto)
  qed
qed

lemma idle_items:
  assumes "retained_inv r"
  shows "distinct (map fst (idle r))"
    "item \<in> set (idle r) \<Longrightarrow> \<exists>entry. rr_entries r (fst item) = Some entry
       \<and> strong_count (sr_buffer entry) = 1 \<and> fst item \<in> set (rr_order r)"
proof -
  have fst_item: "idle_item r i = Some item \<Longrightarrow> fst item = i" for i item
    by (auto simp: idle_item_def split: option.splits if_splits)
  have "distinct (map fst (List.map_filter (idle_item r) is)) \<and>
      fst ` set (List.map_filter (idle_item r) is) \<subseteq> set is" if "distinct is" for "is"
    using that by (induction "is") (auto simp: map_filter_simps fst_item split: option.splits)
  then show "distinct (map fst (idle r))"
    using assms by (simp add: idle_def retained_inv_def)
  show "\<exists>entry. rr_entries r (fst item) = Some entry
       \<and> strong_count (sr_buffer entry) = 1 \<and> fst item \<in> set (rr_order r)" if "item \<in> set (idle r)"
    using that unfolding idle_def map_filter_def
    by (auto simp: idle_item_def split: option.splits if_splits)
qed

lemma prune_to_spec:
  assumes "retained_inv r" "memory_of (idle r) < 2 ^ 64" "spill_of (idle r) < 2 ^ 64"
    "prune_to cl ml sl r = (evicted, r')"
  shows "\<exists>k. map Some evicted = map (rr_entries r \<circ> fst) (take k (idle r))
    \<and> rr_entries r' = (\<lambda>i. if i \<in> fst ` set (take k (idle r)) then None else rr_entries r i)
    \<and> within_limits cl ml sl (drop k (idle r))
    \<and> (\<forall>j < k. \<not> within_limits cl ml sl (drop j (idle r)))"
proof -
  obtain entries' where ev: "evict cl ml sl (idle r) (length (idle r))
      (fold (\<lambda>item sum. sat_add sum (fst (snd item))) (idle r) 0)
      (fold (\<lambda>item sum. sat_add sum (snd (snd item))) (idle r) 0) (rr_entries r) = (evicted, entries')"
    "rr_entries r' = entries'"
    using assms(4) by (auto simp: prune_to_def Let_def split: prod.splits)
  have "\<exists>k \<le> length (idle r). map Some evicted = map (rr_entries r \<circ> fst) (take k (idle r))
    \<and> entries' = (\<lambda>i. if i \<in> fst ` set (take k (idle r)) then None else rr_entries r i)
    \<and> within_limits cl ml sl (drop k (idle r)) \<and> (\<forall>j < k. \<not> within_limits cl ml sl (drop j (idle r)))"
  proof (rule evict_prefix [OF idle_items(1) [OF assms(1)] _ _ _ ev(1)])
    show "fst item \<in> dom (rr_entries r)" if "item \<in> set (idle r)" for item
      using idle_items(2) [OF assms(1) that] by blast
  qed (use assms(2,3) in \<open>auto simp: unat_fold_sat_add memory_of_def spill_of_def\<close>)
  with ev(2) show ?thesis by blast
qed

text \<open>
  The same, on the registry itself: a result is idle when the registry holds the only reference to its
  buffer, and the idle ones go in the order they were stored in.
\<close>

definition only_held_here :: "retained_results \<Rightarrow> result_id \<Rightarrow> bool" where
  "only_held_here r i \<longleftrightarrow> (\<exists>s. rr_entries r i = Some s \<and> strong_count (sr_buffer s) = 1)"

definition memory_held :: "retained_results \<Rightarrow> result_id list \<Rightarrow> nat" where
  "memory_held r ids = (\<Sum>i\<leftarrow>ids. case rr_entries r i of None \<Rightarrow> 0
     | Some s \<Rightarrow> unat (resident_bytes (sr_buffer s)) + unat (cached_bytes (sr_buffer s)))"

definition file_held :: "retained_results \<Rightarrow> result_id list \<Rightarrow> nat" where
  "file_held r ids = (\<Sum>i\<leftarrow>ids. case rr_entries r i of None \<Rightarrow> 0 | Some s \<Rightarrow> unat (spilled_bytes (sr_buffer s)))"

lemma idle_ids: "map fst (idle r) = filter (only_held_here r) (rr_order r)"
proof -
  have "map fst (List.map_filter (idle_item r) ids) = filter (only_held_here r) ids" for ids
    by (induction ids) (auto simp: map_filter_simps idle_item_def only_held_here_def split: option.split)
  then show ?thesis by (simp add: idle_def)
qed

lemma idle_held:
  assumes "set items \<subseteq> set (idle r)" "memory_held r (map fst items) < 2 ^ 64"
  shows "memory_of items = memory_held r (map fst items)" "spill_of items = file_held r (map fst items)"
proof -
  have "memory_of items = memory_held r (map fst items) \<and> spill_of items = file_held r (map fst items)"
    using assms
  proof (induction items)
    case Nil
    then show ?case by (simp add: memory_of_def spill_of_def memory_held_def file_held_def)
  next
    case (Cons item items)
    obtain i b d where item: "item = (i, b, d)" by (metis prod_cases3)
    then have "idle_item r i = Some (i, b, d)"
      using Cons.prems(1) by (auto simp: idle_def List.map_filter_def idle_item_def split: option.splits if_splits)
    then obtain s where s: "rr_entries r i = Some s" "b = sat_add (resident_bytes (sr_buffer s)) (cached_bytes (sr_buffer s))"
      "d = spilled_bytes (sr_buffer s)" by (auto simp: idle_item_def split: option.splits if_splits)
    have le: "unat (resident_bytes (sr_buffer s)) + unat (cached_bytes (sr_buffer s)) + memory_held r (map fst items) < 2 ^ 64"
      using Cons.prems(2) by (simp add: item s(1) memory_held_def)
    then have "unat b = unat (resident_bytes (sr_buffer s)) + unat (cached_bytes (sr_buffer s))"
      by (simp add: s(2) unat_sat_add)
    moreover have "memory_of items = memory_held r (map fst items) \<and> spill_of items = file_held r (map fst items)"
      using Cons.IH Cons.prems(1) le by simp
    ultimately show ?case by (simp add: item s memory_held_def file_held_def)
  qed
  then show "memory_of items = memory_held r (map fst items)" "spill_of items = file_held r (map fst items)"
    by simp_all
qed

lemma sum_list_part_le: "set ys \<subseteq> set xs \<Longrightarrow> distinct ys \<Longrightarrow> sum_list (map f ys) \<le> sum_list (map f xs)" for f :: "'a \<Rightarrow> nat"
proof (induction ys arbitrary: xs)
  case (Cons y ys)
  then obtain us vs where xs: "xs = us @ y # vs" by (metis insert_subset list.set(2) split_list)
  have "set ys \<subseteq> set (us @ vs)" using Cons.prems xs by auto
  with Cons.IH [of "us @ vs"] Cons.prems(2) show ?case by (simp add: xs)
qed simp

definition holds_within :: "nat \<Rightarrow> u64 \<Rightarrow> u64 \<Rightarrow> retained_results \<Rightarrow> result_id list \<Rightarrow> bool" where
  "holds_within cl ml sl r ids \<longleftrightarrow>
     length ids \<le> cl \<and> memory_held r ids \<le> unat ml \<and> file_held r ids \<le> unat sl"

lemma prune_to_ids:
  assumes "retained_inv r" "prune_to cl ml sl r = (evicted, r')"
    and "idle_ids = filter (only_held_here r) (rr_order r)"
    and "memory_held r idle_ids < 2 ^ 64" "file_held r idle_ids < 2 ^ 64"
  shows "\<exists>k. map Some evicted = map (rr_entries r) (take k idle_ids)
    \<and> rr_entries r' = (\<lambda>i. if i \<in> set (take k idle_ids) then None else rr_entries r i)
    \<and> rr_order r' = filter (\<lambda>i. i \<notin> set (take k idle_ids)) (rr_order r)
    \<and> holds_within cl ml sl r (drop k idle_ids)
    \<and> (\<forall>j < k. \<not> holds_within cl ml sl r (drop j idle_ids))"
proof -
  have ids: "map fst (idle r) = idle_ids" by (simp add: idle_ids assms(3))
  have part: "holds_within cl ml sl r (drop j idle_ids) \<longleftrightarrow> within_limits cl ml sl (drop j (idle r))" for j
  proof -
    have "map fst (drop j (idle r)) = drop j idle_ids" by (simp add: drop_map ids [symmetric])
    moreover have "memory_held r (drop j idle_ids) \<le> memory_held r idle_ids"
      unfolding memory_held_def using assms(1,3)
      by (intro sum_list_part_le) (auto simp: retained_inv_def set_drop_subset distinct_drop dest: in_set_dropD)
    ultimately show ?thesis
      using idle_held [of "drop j (idle r)" r] assms(4)
      by (simp add: holds_within_def within_limits_def set_drop_subset ids [symmetric])
  qed
  have "memory_of (idle r) < 2 ^ 64" "spill_of (idle r) < 2 ^ 64"
    using idle_held [of "idle r" r] assms(4,5) by (simp_all add: ids)
  from prune_to_spec [OF assms(1) this assms(2)] obtain k where
    k: "map Some evicted = map (rr_entries r \<circ> fst) (take k (idle r))"
      "rr_entries r' = (\<lambda>i. if i \<in> fst ` set (take k (idle r)) then None else rr_entries r i)"
      "within_limits cl ml sl (drop k (idle r))" "\<forall>j < k. \<not> within_limits cl ml sl (drop j (idle r))"
    by blast
  have gone: "fst ` set (take k (idle r)) = set (take k idle_ids)"
    by (simp add: ids [symmetric] take_map)
  have kept: "\<forall>i \<in> set (rr_order r). rr_entries r i \<noteq> None" using assms(1) by (auto simp: retained_inv_def)
  have "rr_order r' = filter (\<lambda>i. rr_entries r' i \<noteq> None) (rr_order r)"
    using assms(2) by (auto simp: prune_to_def Let_def split: prod.splits)
  then have "rr_order r' = filter (\<lambda>i. i \<notin> set (take k idle_ids)) (rr_order r)"
    unfolding k(2) gone using kept by (auto intro!: filter_cong)
  moreover have "map (rr_entries r \<circ> fst) (take k (idle r)) = map (rr_entries r) (take k idle_ids)"
    by (simp add: ids [symmetric] take_map)
  ultimately show ?thesis using k unfolding gone part by auto
qed

lemma retained_inv_prune_to:
  assumes "retained_inv r" "memory_of (idle r) < 2 ^ 64" "spill_of (idle r) < 2 ^ 64"
  shows "retained_inv (snd (prune_to cl ml sl r))"
proof (cases "prune_to cl ml sl r")
  case (Pair evicted r')
  from prune_to_spec [OF assms Pair] obtain k where
    k: "rr_entries r' = (\<lambda>i. if i \<in> fst ` set (take k (idle r)) then None else rr_entries r i)" by blast
  have "rr_order r' = filter (\<lambda>i. rr_entries r' i \<noteq> None) (rr_order r)"
    using Pair by (auto simp: prune_to_def Let_def split: prod.splits)
  with assms(1) Pair show ?thesis
    by (auto simp: retained_inv_def k dom_def)
qed

end
