(* ===== verification/Catalog_Path.thy ===== *)
theory Catalog_Path
  imports Connection_Types Sql_Scanner
begin

text \<open>
  Qualified names (\<open>crates/oxyn-catalog/src/path.rs\<close>): the three levels of a path, its rendering
  and parsing, and the quoting of an identifier for a dialect, the only way the product composes
  a name into a query. Quoting is related to the scanner of \<open>oxyn-query\<close>.
\<close>

subsection \<open>Levels\<close>

type_synonym catalog_path_error = string

definition path_error_display :: "catalog_path_error \<Rightarrow> string" where
  "path_error_display detail = ''invalid catalog path: '' @ detail"

text \<open>\<open>char::is_control\<close>, the Unicode category Cc, on UTF-8 bytes.\<close>

fun has_control :: "string \<Rightarrow> bool" where
  "has_control [] = False"
| "has_control (c # s) =
     (byte c < 32 \<or> byte c = 127
      \<or> (byte c = 194 \<and> (case s of d # _ \<Rightarrow> 128 \<le> byte d \<and> byte d \<le> 159 | [] \<Rightarrow> False))
      \<or> has_control s)"

definition validate_segment :: "string \<Rightarrow> catalog_path_error + unit" where
  "validate_segment name =
     (if name = [] then Inl ''a named level cannot be empty''
      else if has_control name then Inl ''a level name contains a control character''
      else Inr ())"

record catalog_path =
  cp_catalog :: "string option"
  cp_namespace :: "string option"
  cp_relation :: "string option"

definition path_empty :: catalog_path where
  "path_empty = \<lparr>cp_catalog = None, cp_namespace = None, cp_relation = None\<rparr>"

fun validate_segments :: "string list \<Rightarrow> catalog_path_error + unit" where
  "validate_segments [] = Inr ()"
| "validate_segments (s # ss) = (case validate_segment s of Inl e \<Rightarrow> Inl e | Inr _ \<Rightarrow> validate_segments ss)"

definition present :: "'a option list \<Rightarrow> 'a list" where
  "present os = List.map_filter id os"

lemma set_present: "s \<in> set (present os) \<longleftrightarrow> Some s \<in> set os"
  by (auto simp: present_def map_filter_def image_iff)

definition from_levels ::
  "string option \<Rightarrow> string option \<Rightarrow> string option \<Rightarrow> catalog_path_error + catalog_path" where
  "from_levels c n r =
     map_sum id (\<lambda>_. \<lparr>cp_catalog = c, cp_namespace = n, cp_relation = r\<rparr>)
       (validate_segments (present [c, n, r]))"

definition path_for_relation ::
  "string option \<Rightarrow> string option \<Rightarrow> string \<Rightarrow> catalog_path_error + catalog_path" where
  "path_for_relation c n name = from_levels c n (Some name)"

definition path_segments :: "catalog_path \<Rightarrow> string list" where
  "path_segments p = present [cp_catalog p, cp_namespace p, cp_relation p]"

datatype catalog_level = LevelServer | LevelCatalog | LevelNamespace | LevelRelation

definition path_level :: "catalog_path \<Rightarrow> catalog_level" where
  "path_level p =
     (if cp_relation p \<noteq> None then LevelRelation else if cp_namespace p \<noteq> None then LevelNamespace
      else if cp_catalog p \<noteq> None then LevelCatalog else LevelServer)"

definition path_depth :: "catalog_path \<Rightarrow> nat" where
  "path_depth p = (if cp_catalog p \<noteq> None then 1 else 0) + (if cp_namespace p \<noteq> None then 1 else 0)
     + (if cp_relation p \<noteq> None then 1 else 0)"

definition path_parent :: "catalog_path \<Rightarrow> catalog_path option" where
  "path_parent p =
     (case path_level p of
        LevelServer \<Rightarrow> None
      | LevelCatalog \<Rightarrow> Some (p\<lparr>cp_catalog := None\<rparr>)
      | LevelNamespace \<Rightarrow> Some (p\<lparr>cp_namespace := None\<rparr>)
      | LevelRelation \<Rightarrow> Some (p\<lparr>cp_relation := None\<rparr>))"

definition with_namespace :: "string \<Rightarrow> catalog_path \<Rightarrow> catalog_path_error + catalog_path" where
  "with_namespace name p = map_sum id (\<lambda>_. p\<lparr>cp_namespace := Some name\<rparr>) (validate_segment name)"

definition with_relation :: "string \<Rightarrow> catalog_path \<Rightarrow> catalog_path_error + catalog_path" where
  "with_relation name p = map_sum id (\<lambda>_. p\<lparr>cp_relation := Some name\<rparr>) (validate_segment name)"

definition level_matches :: "string option \<Rightarrow> string option \<Rightarrow> bool" where
  "level_matches required actual = (case required of None \<Rightarrow> True | Some x \<Rightarrow> actual = Some x)"

definition path_starts_with :: "catalog_path \<Rightarrow> catalog_path \<Rightarrow> bool" where
  "path_starts_with p prefix \<longleftrightarrow> level_matches (cp_catalog prefix) (cp_catalog p)
     \<and> level_matches (cp_namespace prefix) (cp_namespace p)
     \<and> level_matches (cp_relation prefix) (cp_relation p)"

definition path_ok :: "catalog_path \<Rightarrow> bool" where
  "path_ok p \<longleftrightarrow> (\<forall>s \<in> set (path_segments p). validate_segment s = Inr ())"

lemma validate_segment_ok_iff: "validate_segment s = Inr () \<longleftrightarrow> s \<noteq> [] \<and> \<not> has_control s"
  by (simp add: validate_segment_def)

lemma validate_segments_ok_iff: "validate_segments ss = Inr () \<longleftrightarrow> (\<forall>s \<in> set ss. validate_segment s = Inr ())"
  by (induction ss) (auto split: sum.split)

lemma from_levels_ok: "from_levels c n r = Inr p \<Longrightarrow> path_ok p"
proof -
  assume "from_levels c n r = Inr p"
  then have "validate_segments (present [c, n, r]) = Inr ()"
    "p = \<lparr>cp_catalog = c, cp_namespace = n, cp_relation = r\<rparr>"
    by (cases "validate_segments (present [c, n, r])"; simp add: from_levels_def)+
  then show "path_ok p" by (simp add: path_ok_def path_segments_def validate_segments_ok_iff)
qed

lemma path_parent_depth: "path_parent p = Some q \<Longrightarrow> path_depth p = Suc (path_depth q) \<and> path_starts_with p q"
  by (cases "cp_catalog p"; cases "cp_namespace p"; cases "cp_relation p")
    (auto simp: path_parent_def path_level_def path_depth_def path_starts_with_def level_matches_def)

subsection \<open>Rendering and parsing\<close>

definition double_char :: "char \<Rightarrow> string \<Rightarrow> string" where
  "double_char q s = concat (map (\<lambda>c. if c = q then [c, c] else [c]) s)"

definition write_segment :: "string \<Rightarrow> string" where
  "write_segment ident =
     (if CHR ''.'' \<notin> set ident \<and> CHR 0x22 \<notin> set ident then ident
      else CHR 0x22 # double_char (CHR 0x22) ident @ [CHR 0x22])"

definition write_tier :: "string option \<Rightarrow> string" where
  "write_tier t = (case t of None \<Rightarrow> [] | Some ident \<Rightarrow> write_segment ident)"

definition path_display :: "catalog_path \<Rightarrow> string" where
  "path_display p =
     join ''.'' (map write_tier (dropWhile (\<lambda>t. t = None) [cp_catalog p, cp_namespace p, cp_relation p]))"

datatype read_state = ReadNormal | ReadCite | ReadAfterQuote

definition finish_segment :: "string \<Rightarrow> bool \<Rightarrow> catalog_path_error + string option" where
  "finish_segment raw was_quoted =
     (if raw = [] then (if was_quoted then Inl ''a quoted level cannot be empty'' else Inr None)
      else map_sum id (\<lambda>_. Some raw) (validate_segment raw))"

definition push_segment ::
  "catalog_path_error + string option \<Rightarrow> catalog_path_error + string option list
   \<Rightarrow> catalog_path_error + string option list" where
  "push_segment seg rest = (case seg of Inl e \<Rightarrow> Inl e | Inr s \<Rightarrow> map_sum id (\<lambda>ss. s # ss) rest)"

fun split_segments_from ::
  "read_state \<Rightarrow> string \<Rightarrow> string \<Rightarrow> catalog_path_error + string option list" where
  "split_segments_from ReadCite current [] = Inl ''unterminated quote''"
| "split_segments_from ReadAfterQuote current [] = push_segment (finish_segment current True) (Inr [])"
| "split_segments_from ReadNormal current [] = push_segment (finish_segment current False) (Inr [])"
| "split_segments_from ReadCite current (c # cs) =
     (if c = CHR 0x22
      then (case cs of
              d # ds \<Rightarrow> if d = CHR 0x22 then split_segments_from ReadCite (current @ [CHR 0x22]) ds
                       else split_segments_from ReadAfterQuote current (d # ds)
            | [] \<Rightarrow> split_segments_from ReadAfterQuote current [])
      else split_segments_from ReadCite (current @ [c]) cs)"
| "split_segments_from ReadAfterQuote current (c # cs) =
     (if c \<noteq> CHR ''.'' then Inl ''a quoted level must be followed by a separator''
      else push_segment (finish_segment current True) (split_segments_from ReadNormal [] cs))"
| "split_segments_from ReadNormal current (c # cs) =
     (if c = CHR 0x22
      then (if current = [] then split_segments_from ReadCite [] cs
            else Inl ''a quote cannot start in the middle of a level'')
      else if c = CHR ''.''
      then push_segment (finish_segment current False) (split_segments_from ReadNormal [] cs)
      else split_segments_from ReadNormal (current @ [c]) cs)"

definition split_segments :: "string \<Rightarrow> catalog_path_error + string option list" where
  "split_segments s = split_segments_from ReadNormal [] s"

definition path_from_str :: "string \<Rightarrow> catalog_path_error + catalog_path" where
  "path_from_str s =
     (case split_segments s of
        Inl e \<Rightarrow> Inl e
      | Inr segments \<Rightarrow>
          if 3 < length segments then Inl ''more than three levels''
          else (let tiers = replicate (3 - length segments) None @ segments
                in Inr \<lparr>cp_catalog = tiers ! 0, cp_namespace = tiers ! 1, cp_relation = tiers ! 2\<rparr>))"

text \<open>A written segment is read back, whatever follows it.\<close>

definition at_separator :: "string \<Rightarrow> bool" where
  "at_separator rest \<longleftrightarrow> rest = [] \<or> (\<exists>cs. rest = CHR ''.'' # cs)"

definition read_rest :: "string \<Rightarrow> catalog_path_error + string option list" where
  "read_rest rest = (case rest of [] \<Rightarrow> Inr [] | _ # cs \<Rightarrow> split_segments_from ReadNormal [] cs)"

lemma read_plain:
  "CHR ''.'' \<notin> set s \<Longrightarrow> CHR 0x22 \<notin> set s \<Longrightarrow> at_separator rest \<Longrightarrow>
   split_segments_from ReadNormal current (s @ rest)
     = push_segment (finish_segment (current @ s) False) (read_rest rest)"
proof (induction s arbitrary: current)
  case Nil
  then show ?case by (auto simp: at_separator_def read_rest_def)
qed auto

lemma read_cited:
  "at_separator rest \<Longrightarrow>
   split_segments_from ReadCite current (double_char (CHR 0x22) s @ CHR 0x22 # rest)
     = push_segment (finish_segment (current @ s) True) (read_rest rest)"
proof (induction s arbitrary: current)
  case Nil
  then show ?case by (auto simp: at_separator_def read_rest_def double_char_def)
next
  case (Cons c s)
  then show ?case by (simp add: double_char_def)
qed

lemma read_write_segment:
  assumes "validate_segment s = Inr ()" "at_separator rest"
  shows "split_segments_from ReadNormal [] (write_segment s @ rest) = push_segment (Inr (Some s)) (read_rest rest)"
proof -
  have "finish_segment s q = Inr (Some s)" for q
    using assms(1) validate_segment_ok_iff [of s] by (simp add: finish_segment_def)
  then show ?thesis
    using read_plain [OF _ _ assms(2), of s "[]"] read_cited [OF assms(2), of "[]" s]
    by (auto simp: write_segment_def)
qed

lemma read_write_tier:
  assumes "\<forall>s. t = Some s \<longrightarrow> validate_segment s = Inr ()" "at_separator rest"
  shows "split_segments_from ReadNormal [] (write_tier t @ rest) = push_segment (Inr t) (read_rest rest)"
proof (cases t)
  case None
  then show ?thesis
    using read_plain [OF _ _ assms(2), of "[]" "[]"] by (simp add: write_tier_def finish_segment_def)
next
  case (Some s)
  then show ?thesis using read_write_segment [of s rest] assms by (simp add: write_tier_def)
qed

lemma read_tiers:
  assumes "\<forall>t \<in> set ts. \<forall>s. t = Some s \<longrightarrow> validate_segment s = Inr ()" "ts \<noteq> []"
  shows "split_segments (join ''.'' (map write_tier ts)) = Inr ts"
  using assms
proof (induction ts)
  case (Cons t ts)
  show ?case
  proof (cases ts)
    case Nil
    then show ?thesis
      using read_write_tier [of t "[]"] Cons.prems
      by (simp add: split_segments_def at_separator_def push_segment_def read_rest_def)
  next
    case (Cons u us)
    define rest where "rest = CHR ''.'' # join ''.'' (map write_tier ts)"
    have "join ''.'' (map write_tier (t # ts)) = write_tier t @ rest"
      using Cons by (simp add: rest_def)
    moreover have "at_separator rest" "read_rest rest = split_segments (join ''.'' (map write_tier ts))"
      by (simp_all add: rest_def at_separator_def read_rest_def split_segments_def)
    moreover have "split_segments (join ''.'' (map write_tier ts)) = Inr ts"
      using Cons.IH Cons.prems Cons by simp
    ultimately show ?thesis
      using read_write_tier [of t rest] Cons.prems by (simp add: split_segments_def push_segment_def)
  qed
qed simp

lemma pad_dropWhile:
  "replicate (length ts - length (dropWhile (\<lambda>t. t = None) ts)) None @ dropWhile (\<lambda>t. t = None) ts = ts"
  by (induction ts) (simp_all add: Suc_diff_le length_dropWhile_le)

lemma path_display_roundtrip:
  assumes "path_ok p"
  shows "path_from_str (path_display p) = Inr p"
proof -
  define tiers where "tiers = [cp_catalog p, cp_namespace p, cp_relation p]"
  define ts where "ts = dropWhile (\<lambda>t. t = None) tiers"
  have shown: "path_display p = join ''.'' (map write_tier ts)"
    by (simp only: path_display_def ts_def tiers_def)
  have "set ts \<subseteq> set tiers" unfolding ts_def using set_dropWhileD by fastforce
  then have valid: "\<forall>t \<in> set ts. \<forall>s. t = Some s \<longrightarrow> validate_segment s = Inr ()"
    using assms by (auto simp: tiers_def path_ok_def path_segments_def set_present)
  have len: "length ts \<le> 3"
    using length_dropWhile_le [of "\<lambda>t. t = None" tiers] by (simp add: ts_def tiers_def)
  have tiers: "replicate (3 - length ts) None @ ts = tiers"
    using pad_dropWhile [of tiers] unfolding ts_def [symmetric] by (simp add: tiers_def numeral_3_eq_3)
  have p: "p = \<lparr>cp_catalog = tiers ! 0, cp_namespace = tiers ! 1, cp_relation = tiers ! 2\<rparr>"
    by (simp add: tiers_def numeral_2_eq_2)
  show ?thesis
  proof (cases "ts = []")
    case True
    then have "split_segments (path_display p) = Inr [None]"
      by (simp add: shown split_segments_def push_segment_def finish_segment_def)
    moreover have "replicate 2 None @ [None] = tiers" using tiers True by (simp add: numeral_eq_Suc)
    ultimately show ?thesis using p by (simp add: path_from_str_def Let_def)
  next
    case False
    with read_tiers [OF valid] shown have "split_segments (path_display p) = Inr ts" by simp
    with len tiers p show ?thesis by (simp add: path_from_str_def Let_def)
  qed
qed

subsection \<open>Quoting\<close>

datatype quote_style = QuoteDouble | QuoteBacktick | QuoteBracket | QuoteBare | QuoteBacktickBackslash

fun quote_style_for :: "sql_dialect \<Rightarrow> quote_style" where
  "quote_style_for MySql = QuoteBacktick"
| "quote_style_for BigQuery = QuoteBacktick"
| "quote_style_for SqlServer = QuoteBracket"
| "quote_style_for ClickHouse = QuoteBacktickBackslash"
| "quote_style_for _ = QuoteDouble"

definition escape_backtick :: "string \<Rightarrow> string" where
  "escape_backtick s =
     concat (map (\<lambda>c. if c = CHR 0x60 \<or> c = CHR 0x5C then [CHR 0x5C, c] else [c]) s)"

fun quote_identifier :: "string \<Rightarrow> quote_style \<Rightarrow> string" where
  "quote_identifier name QuoteDouble = CHR 0x22 # double_char (CHR 0x22) name @ [CHR 0x22]"
| "quote_identifier name QuoteBacktick = CHR 0x60 # double_char (CHR 0x60) name @ [CHR 0x60]"
| "quote_identifier name QuoteBracket = CHR ''['' # double_char (CHR '']'') name @ [CHR '']'']"
| "quote_identifier name QuoteBare = name"
| "quote_identifier name QuoteBacktickBackslash = CHR 0x60 # escape_backtick name @ [CHR 0x60]"

definition qualify_path :: "catalog_path \<Rightarrow> quote_style \<Rightarrow> string" where
  "qualify_path p style = join ''.'' (map (\<lambda>s. quote_identifier s style) (path_segments p))"

definition qualify_sql :: "catalog_path \<Rightarrow> sql_dialect \<Rightarrow> string" where
  "qualify_sql p d = qualify_path p (quote_style_for d)"

text \<open>The loops that skip a quoted region, on what quoting writes.\<close>

lemma get_at_append:
  "get_at (xs @ ys) (length xs) = (case ys of [] \<Rightarrow> None | y # _ \<Rightarrow> Some y)"
  "get_at (xs @ y # ys) (Suc (length xs)) = (case ys of [] \<Rightarrow> None | z # _ \<Rightarrow> Some z)"
  by (cases ys; simp add: get_at_def nth_append)+

lemma quoted_from_doubled:
  assumes "\<not> starts_with rest [q]" "\<not> backslash \<or> q \<noteq> CHR 0x5C \<and> CHR 0x5C \<notin> set name"
  shows "quoted_from (pre @ double_char q name @ q # rest) (length pre) q backslash
    = length pre + length (double_char q name) + 1"
  using assms(2)
proof (induction name arbitrary: pre)
  case Nil
  have "get_at (pre @ q # rest) (Suc (length pre)) \<noteq> Some q"
    using assms(1) by (auto simp: get_at_append starts_with_def split: list.split)
  with Nil show ?case
    by (subst quoted_from.simps) (auto simp: double_char_def get_at_append)
next
  case (Cons c name)
  show ?case
  proof (cases "c = q")
    case True
    have eq: "pre @ double_char q (c # name) @ q # rest = pre @ q # q # double_char q name @ q # rest"
      "(pre @ [q, q]) @ double_char q name @ q # rest = pre @ q # q # double_char q name @ q # rest"
      using True by (simp_all add: double_char_def)
    have "quoted_from (pre @ q # q # double_char q name @ q # rest) (length pre) q backslash
        = quoted_from (pre @ q # q # double_char q name @ q # rest) (length (pre @ [q, q])) q backslash"
      using Cons.prems by (subst quoted_from.simps) (auto simp: get_at_append)
    also have "\<dots> = length (pre @ [q, q]) + length (double_char q name) + 1"
      using Cons.IH [of "pre @ [q, q]"] Cons.prems unfolding eq(2) by auto
    finally show ?thesis unfolding eq(1) using True by (simp add: double_char_def)
  next
    case False
    have eq: "pre @ double_char q (c # name) @ q # rest = pre @ c # double_char q name @ q # rest"
      "(pre @ [c]) @ double_char q name @ q # rest = pre @ c # double_char q name @ q # rest"
      using False by (simp_all add: double_char_def)
    have "quoted_from (pre @ c # double_char q name @ q # rest) (length pre) q backslash
        = quoted_from (pre @ c # double_char q name @ q # rest) (length (pre @ [c])) q backslash"
      using False Cons.prems by (subst quoted_from.simps) (auto simp: get_at_append)
    also have "\<dots> = length (pre @ [c]) + length (double_char q name) + 1"
      using Cons.IH [of "pre @ [c]"] Cons.prems unfolding eq(2) by auto
    finally show ?thesis unfolding eq(1) using False by (simp add: double_char_def)
  qed
qed

lemma quoted_from_escaped:
  assumes "\<not> starts_with rest [CHR 0x60]"
  shows "quoted_from (pre @ escape_backtick name @ CHR 0x60 # rest) (length pre) (CHR 0x60) True
    = length pre + length (escape_backtick name) + 1"
proof (induction name arbitrary: pre)
  case Nil
  have "get_at (pre @ CHR 0x60 # rest) (Suc (length pre)) \<noteq> Some (CHR 0x60)"
    using assms by (auto simp: get_at_append starts_with_def split: list.split)
  then show ?case
    by (subst quoted_from.simps) (simp add: escape_backtick_def get_at_append)
next
  case (Cons c name)
  show ?case
  proof (cases "c = CHR 0x60 \<or> c = CHR 0x5C")
    case True
    have eq: "pre @ escape_backtick (c # name) @ CHR 0x60 # rest
        = pre @ CHR 0x5C # c # escape_backtick name @ CHR 0x60 # rest"
      "(pre @ [CHR 0x5C, c]) @ escape_backtick name @ CHR 0x60 # rest
        = pre @ CHR 0x5C # c # escape_backtick name @ CHR 0x60 # rest"
      using True by (simp_all add: escape_backtick_def)
    have "quoted_from (pre @ CHR 0x5C # c # escape_backtick name @ CHR 0x60 # rest) (length pre) (CHR 0x60) True
        = quoted_from (pre @ CHR 0x5C # c # escape_backtick name @ CHR 0x60 # rest)
            (length (pre @ [CHR 0x5C, c])) (CHR 0x60) True"
      by (subst quoted_from.simps) (simp add: get_at_append)
    also have "\<dots> = length (pre @ [CHR 0x5C, c]) + length (escape_backtick name) + 1"
      using Cons.IH [of "pre @ [CHR 0x5C, c]"] unfolding eq(2) .
    finally show ?thesis unfolding eq(1) using True by (simp add: escape_backtick_def)
  next
    case False
    have eq: "pre @ escape_backtick (c # name) @ CHR 0x60 # rest
        = pre @ c # escape_backtick name @ CHR 0x60 # rest"
      "(pre @ [c]) @ escape_backtick name @ CHR 0x60 # rest
        = pre @ c # escape_backtick name @ CHR 0x60 # rest"
      using False by (simp_all add: escape_backtick_def)
    have "quoted_from (pre @ c # escape_backtick name @ CHR 0x60 # rest) (length pre) (CHR 0x60) True
        = quoted_from (pre @ c # escape_backtick name @ CHR 0x60 # rest) (length (pre @ [c])) (CHR 0x60) True"
      using False by (subst quoted_from.simps) (simp add: get_at_append)
    also have "\<dots> = length (pre @ [c]) + length (escape_backtick name) + 1"
      using Cons.IH [of "pre @ [c]"] unfolding eq(2) .
    finally show ?thesis unfolding eq(1) using False by (simp add: escape_backtick_def)
  qed
qed

lemma bracket_from_doubled:
  assumes "\<not> starts_with rest [CHR '']'']"
  shows "bracket_from (pre @ double_char (CHR '']'') name @ CHR '']'' # rest) (length pre)
    = length pre + length (double_char (CHR '']'') name) + 1"
proof -
  have "bracket_from b i = quoted_from b i (CHR '']'') False" for b i
  proof (induction b i rule: bracket_from.induct)
    case (1 b i)
    then show ?case
      by (subst bracket_from.simps, subst quoted_from.simps) (auto split: option.split)
  qed
  then show ?thesis using quoted_from_doubled [OF assms] by simp
qed

subsection \<open>A quoted name is one element\<close>

text \<open>The character that ends a quoted name in a dialect.\<close>

fun closing_quote :: "quote_style \<Rightarrow> char" where
  "closing_quote QuoteDouble = CHR 0x22"
| "closing_quote QuoteBracket = CHR '']''"
| "closing_quote _ = CHR 0x60"

text \<open>
  Whatever the name holds, what quoting writes is one quoted element for the scanner of the
  dialect, from its first byte to its last: no byte of the name is read as code. In Snowflake
  the scanner takes a backslash for an escape, so the name must hold none.
\<close>

lemma lex_quote_identifier:
  assumes "d \<noteq> Snowflake \<or> CHR 0x5C \<notin> set name"
    and "\<not> starts_with rest [closing_quote (quote_style_for d)]"
    and "quoted = quote_identifier name (quote_style_for d)"
  shows "lex (pre @ quoted @ rest) (length pre) (hd quoted) (for_dialect d)
    = (Quoted, length pre + length quoted)"
proof -
  have body: "skip_quoted (pre @ (q # double_char q name @ [q]) @ rest) (length pre) q backslash
      = length pre + length (q # double_char q name @ [q])"
    if "\<not> starts_with rest [q]" "\<not> backslash \<or> q \<noteq> CHR 0x5C \<and> CHR 0x5C \<notin> set name" for q backslash
    using quoted_from_doubled [OF that, of "pre @ [q]"] by (simp add: skip_quoted_def)
  have bracket: "skip_bracket (pre @ (CHR ''['' # double_char (CHR '']'') name @ [CHR '']'']) @ rest) (length pre)
      = length pre + length (CHR ''['' # double_char (CHR '']'') name @ [CHR '']''])"
    if "\<not> starts_with rest [CHR '']'']"
    using bracket_from_doubled [OF that, of "pre @ [CHR ''['']" name] by (simp add: skip_bracket_def)
  have escaped: "skip_quoted (pre @ (CHR 0x60 # escape_backtick name @ [CHR 0x60]) @ rest) (length pre) (CHR 0x60) True
      = length pre + length (CHR 0x60 # escape_backtick name @ [CHR 0x60])"
    if "\<not> starts_with rest [CHR 0x60]"
    using quoted_from_escaped [OF that, of "pre @ [CHR 0x60]" name] by (simp add: skip_quoted_def)
  show ?thesis
    using assms
    by (cases d; simp only: quote_style_for.simps quote_identifier.simps list.sel closing_quote.simps)
      (simp_all add: lex_def body bracket escaped postgres_profile_def warehouse_profile_def
        permissive_def del: append.simps append_assoc)
qed

end
