(* ===== verification/Approvals.thy ===== *)
theory Approvals
  imports Policy_Gate
begin

text \<open>
  The commands awaiting approval: \<open>crates/oxyn-exec/src/approval.rs\<close>. The pending commands are a
  list in the order the \<open>HashMap\<close> iterates; the lemmas hold for every list with distinct
  identifiers, hence for every iteration order. The current instant is an argument.
\<close>

subsection \<open>Pending commands and the registry\<close>

definition default_ttl :: duration where
  "default_ttl = from_secs (5 * 60)"

definition default_capacity :: nat where
  "default_capacity = 64"

record pending_command =
  pc_id :: command_id
  pc_actor :: actor
  pc_command :: command
  pc_reason :: string
  pc_preview :: "preview option"
  pc_requested_at :: instant
  pc_expires_at :: instant

definition is_expired_at :: "instant \<Rightarrow> pending_command \<Rightarrow> bool" where
  "is_expired_at now e \<longleftrightarrow> pc_expires_at e \<le> now"

definition waiting_for :: "instant \<Rightarrow> pending_command \<Rightarrow> duration" where
  "waiting_for now e = now - pc_requested_at e"

datatype approval_error = AEUnknown | AEExpired duration | AEQueueFull nat | AEAlreadyPending

text \<open>
  The conversion into \<open>PolicyDenied\<close>; rendering the numbers of a message is the standard
  library's.
\<close>

fun approval_message :: "(duration \<Rightarrow> string) \<Rightarrow> (nat \<Rightarrow> string) \<Rightarrow> approval_error \<Rightarrow> string" where
  "approval_message show_duration show_count AEUnknown =
     ''no command is awaiting approval under this identifier''"
| "approval_message show_duration show_count (AEExpired after) =
     ''the approval request expired after '' @ show_duration after @ '': nothing was executed''"
| "approval_message show_duration show_count (AEQueueFull limit) =
     ''too many commands are awaiting approval ('' @ show_count limit
       @ ''): answer the pending requests''"
| "approval_message show_duration show_count AEAlreadyPending =
     ''a command is already awaiting approval under this identifier''"

definition approval_to_oxyn ::
  "(duration \<Rightarrow> string) \<Rightarrow> (nat \<Rightarrow> string) \<Rightarrow> approval_error \<Rightarrow> oxyn_error" where
  "approval_to_oxyn show_duration show_count e =
     EPolicyDenied (approval_message show_duration show_count e)"

record approval_registry =
  reg_ttl :: duration
  reg_capacity :: nat
  reg_pending :: "pending_command list"
  reg_expired :: "command_id list"

definition registry_with_ttl :: "duration \<Rightarrow> approval_registry" where
  "registry_with_ttl ttl =
     \<lparr>reg_ttl = ttl, reg_capacity = default_capacity, reg_pending = [], reg_expired = []\<rparr>"

definition registry_new :: approval_registry where
  "registry_new = registry_with_ttl default_ttl"

definition registry_with_capacity :: "nat \<Rightarrow> approval_registry \<Rightarrow> approval_registry" where
  "registry_with_capacity n q = q\<lparr>reg_capacity := n\<rparr>"

subsection \<open>Operations\<close>

text \<open>\<open>while expired.len() >= capacity { expired.pop_front(); }\<close>, for a positive capacity.\<close>

fun pop_front_until :: "nat \<Rightarrow> 'a list \<Rightarrow> 'a list" where
  "pop_front_until cap [] = []"
| "pop_front_until cap (x # xs) =
     (if cap \<le> length (x # xs) then pop_front_until cap xs else x # xs)"

definition remember_expired :: "command_id \<Rightarrow> nat \<Rightarrow> command_id list \<Rightarrow> command_id list" where
  "remember_expired i cap xs = (if cap = 0 then xs else pop_front_until cap xs @ [i])"

fun purge_ids ::
  "nat \<Rightarrow> command_id list \<Rightarrow> pending_command list \<Rightarrow> command_id list \<Rightarrow>
   pending_command list \<times> pending_command list \<times> command_id list" where
  "purge_ids cap [] pending expired = ([], pending, expired)"
| "purge_ids cap (i # stale) pending expired =
     (case find_key pc_id i pending of
        None \<Rightarrow> purge_ids cap stale pending expired
      | Some e \<Rightarrow>
          (let (removed, rest) = purge_ids cap stale (remove_key pc_id i pending) (remember_expired i cap expired)
           in (e # removed, rest)))"

definition purge :: "instant \<Rightarrow> approval_registry \<Rightarrow> pending_command list \<times> approval_registry" where
  "purge now q =
     (let stale = map pc_id (filter (is_expired_at now) (reg_pending q));
          (removed, pending, expired) = purge_ids (reg_capacity q) stale (reg_pending q) (reg_expired q)
      in (removed, q\<lparr>reg_pending := pending, reg_expired := expired\<rparr>))"

definition forget_expired :: "command_id \<Rightarrow> command_id list \<Rightarrow> bool \<times> command_id list" where
  "forget_expired i xs = (let kept = filter (\<lambda>j. j \<noteq> i) xs in (length kept \<noteq> length xs, kept))"

definition submit ::
  "instant \<Rightarrow> command_id \<Rightarrow> actor \<Rightarrow> command \<Rightarrow> string \<Rightarrow> preview option \<Rightarrow> approval_registry
   \<Rightarrow> (approval_error + pending_command) \<times> approval_registry" where
  "submit now i a cmd reason pv q =
     (let entry = \<lparr>pc_id = i, pc_actor = a, pc_command = cmd, pc_reason = reason, pc_preview = pv,
                   pc_requested_at = now, pc_expires_at = now + reg_ttl q\<rparr>;
          q' = snd (purge now q)
      in if reg_capacity q' \<le> length (reg_pending q') then (Inl (AEQueueFull (reg_capacity q')), q')
         else if find_key pc_id i (reg_pending q') \<noteq> None then (Inl AEAlreadyPending, q')
         else (Inr entry, q'\<lparr>reg_pending := reg_pending q' @ [entry]\<rparr>))"

definition take_at ::
  "command_id \<Rightarrow> instant \<Rightarrow> approval_registry \<Rightarrow> (approval_error + pending_command) \<times> approval_registry" where
  "take_at i now q =
     (case find_key pc_id i (reg_pending q) of
        None \<Rightarrow> (let (was, kept) = forget_expired i (reg_expired q)
                  in (Inl (if was then AEExpired (reg_ttl q) else AEUnknown), q\<lparr>reg_expired := kept\<rparr>))
      | Some entry \<Rightarrow>
          (let q' = q\<lparr>reg_pending := remove_key pc_id i (reg_pending q)\<rparr>
           in if is_expired_at now entry then (Inl (AEExpired (reg_ttl q)), q') else (Inr entry, q')))"

definition reject :: "command_id \<Rightarrow> approval_registry \<Rightarrow> pending_command option \<times> approval_registry" where
  "reject i q = (find_key pc_id i (reg_pending q), q\<lparr>reg_pending := remove_key pc_id i (reg_pending q)\<rparr>)"

definition expire :: "command_id \<Rightarrow> approval_registry \<Rightarrow> pending_command option \<times> approval_registry" where
  "expire i q =
     (case find_key pc_id i (reg_pending q) of None \<Rightarrow> (None, q)
      | Some entry \<Rightarrow>
          (Some entry, q\<lparr>reg_pending := remove_key pc_id i (reg_pending q),
                         reg_expired := remember_expired i (reg_capacity q) (reg_expired q)\<rparr>))"

definition was_expired :: "command_id \<Rightarrow> approval_registry \<Rightarrow> bool" where
  "was_expired i q \<longleftrightarrow> i \<in> set (reg_expired q)"

definition peek :: "command_id \<Rightarrow> approval_registry \<Rightarrow> pending_command option" where
  "peek i q = find_key pc_id i (reg_pending q)"

definition sweep :: "instant \<Rightarrow> approval_registry \<Rightarrow> pending_command list \<times> approval_registry" where
  "sweep now q = purge now q"

subsection \<open>The lists behind the registry\<close>

lemma set_pop_front_until: "set (pop_front_until cap xs) \<subseteq> set xs"
  by (induction xs) auto

lemma length_pop_front_until: "0 < cap \<Longrightarrow> length (pop_front_until cap xs) < cap"
  by (induction xs) auto

lemma length_remember_expired:
  "length xs \<le> cap \<Longrightarrow> length (remember_expired i cap xs) \<le> cap"
  using length_pop_front_until [of cap xs] by (auto simp: remember_expired_def)

text \<open>The newest expired identifiers are the ones kept.\<close>

lemma pop_front_until_suffix: "\<exists>dropped. xs = dropped @ pop_front_until cap xs"
proof (induction xs)
  case (Cons x xs)
  then obtain dropped where "xs = dropped @ pop_front_until cap xs" by blast
  then have "x # xs = (x # dropped) @ pop_front_until cap xs" by simp
  then show ?case by (metis append_Nil pop_front_until.simps(2))
qed simp

lemma remember_expired_suffix:
  assumes "0 < cap"
  shows "\<exists>dropped. xs @ [i] = dropped @ remember_expired i cap xs"
  using pop_front_until_suffix [of xs cap] assms
  by (metis append.assoc remember_expired_def less_numeral_extra(3))

text \<open>Purging splits the pending commands by staleness and remembers the removed ones.\<close>

lemma purge_ids_spec:
  assumes "distinct (map pc_id es)" "length xs \<le> cap" "set es' \<subseteq> set es" "distinct (map pc_id es')"
    "purge_ids cap (map pc_id (filter P es')) es xs = (removed, pending, expired)"
  shows "removed = filter P es' \<and> pending = filter (\<lambda>e. \<not> (P e \<and> e \<in> set es')) es
    \<and> length expired \<le> cap"
  using assms
proof (induction es' arbitrary: es xs removed pending expired)
  case Nil
  then show ?case by simp
next
  case (Cons e es')
  show ?case
  proof (cases "P e")
    case False
    then have "purge_ids cap (map pc_id (filter P es')) es xs = (removed, pending, expired)"
      using Cons.prems by simp
    with Cons.IH [OF Cons.prems(1,2) _ _ this] Cons.prems(3,4)
    have "removed = filter P es' \<and> pending = filter (\<lambda>e. \<not> (P e \<and> e \<in> set es')) es
        \<and> length expired \<le> cap" by simp
    with False show ?thesis by (auto intro!: filter_cong)
  next
    case True
    have found: "find_key pc_id (pc_id e) es = Some e"
      using Cons.prems(1,3) by (simp add: find_key_distinct)
    obtain removed' where r: "removed = e # removed'"
      "purge_ids cap (map pc_id (filter P es')) (remove_key pc_id (pc_id e) es)
         (remember_expired (pc_id e) cap xs) = (removed', pending, expired)"
      using Cons.prems(5) True found by (auto split: prod.splits)
    have others: "pc_id x \<noteq> pc_id e" if "x \<in> set es'" for x
      using that Cons.prems(4) by (metis distinct.simps(2) image_eqI list.simps(9) set_map)
    then have "set es' \<subseteq> set (remove_key pc_id (pc_id e) es)"
      using Cons.prems(3) by (auto simp: remove_key_def)
    with Cons.IH [OF distinct_remove_key [OF Cons.prems(1)] length_remember_expired [OF Cons.prems(2)]
        this _ r(2)] Cons.prems(4)
    have ih: "removed' = filter P es' \<and> length expired \<le> cap
        \<and> pending = filter (\<lambda>x. \<not> (P x \<and> x \<in> set es')) (remove_key pc_id (pc_id e) es)" by simp
    have "x = e" if "x \<in> set es" "pc_id x = pc_id e" for x
      using that Cons.prems(1,3) by (metis found find_key_distinct option.inject)
    with others have "filter (\<lambda>x. \<not> (P x \<and> x \<in> set es')) (remove_key pc_id (pc_id e) es)
        = filter (\<lambda>x. \<not> (P x \<and> x \<in> set (e # es'))) es"
      using True unfolding remove_key_def filter_filter by (intro filter_cong refl) (metis set_ConsD list.set_intros)
    with ih r(1) True show ?thesis by (simp only: filter.simps if_True)
  qed
qed

definition registry_inv :: "approval_registry \<Rightarrow> bool" where
  "registry_inv q \<longleftrightarrow> distinct (map pc_id (reg_pending q))
     \<and> length (reg_pending q) \<le> reg_capacity q \<and> length (reg_expired q) \<le> reg_capacity q"

lemma purge_spec:
  assumes "registry_inv q"
  shows "fst (purge now q) = filter (is_expired_at now) (reg_pending q)"
    "reg_pending (snd (purge now q)) = filter (\<lambda>e. \<not> is_expired_at now e) (reg_pending q)"
    "reg_capacity (snd (purge now q)) = reg_capacity q" "reg_ttl (snd (purge now q)) = reg_ttl q"
    "length (reg_expired (snd (purge now q))) \<le> reg_capacity q"
proof -
  obtain removed pending expired where p:
    "purge_ids (reg_capacity q) (map pc_id (filter (is_expired_at now) (reg_pending q)))
       (reg_pending q) (reg_expired q) = (removed, pending, expired)"
    by (metis prod_cases3)
  have "removed = filter (is_expired_at now) (reg_pending q)
      \<and> pending = filter (\<lambda>e. \<not> (is_expired_at now e \<and> e \<in> set (reg_pending q))) (reg_pending q)
      \<and> length expired \<le> reg_capacity q"
    using assms by (intro purge_ids_spec [OF _ _ _ _ p]) (auto simp: registry_inv_def)
  with p show "fst (purge now q) = filter (is_expired_at now) (reg_pending q)"
    "reg_pending (snd (purge now q)) = filter (\<lambda>e. \<not> is_expired_at now e) (reg_pending q)"
    "reg_capacity (snd (purge now q)) = reg_capacity q" "reg_ttl (snd (purge now q)) = reg_ttl q"
    "length (reg_expired (snd (purge now q))) \<le> reg_capacity q"
    by (auto simp: purge_def intro!: filter_cong)
qed

lemma purge_inv:
  assumes "registry_inv q"
  shows "registry_inv (snd (purge now q))"
  using assms purge_spec [OF assms, of now]
  by (auto simp: registry_inv_def distinct_map_filter intro: order_trans [OF length_filter_le])

lemma lookup_purge:
  "registry_inv q \<Longrightarrow> find_key pc_id i (reg_pending (snd (purge now q)))
     = (case find_key pc_id i (reg_pending q) of None \<Rightarrow> None
        | Some e \<Rightarrow> if is_expired_at now e then None else Some e)"
  by (auto simp: purge_spec(2) find_key_filter registry_inv_def split: option.splits)

subsection \<open>Each operation keeps the invariant\<close>

lemma registry_new_inv: "registry_inv (registry_with_capacity n registry_new)"
  by (simp add: registry_inv_def registry_with_capacity_def registry_new_def registry_with_ttl_def)

lemma submit_inv: "registry_inv q \<Longrightarrow> registry_inv (snd (submit now i a cmd reason pv q))"
  using purge_inv [of q now]
  by (auto simp: submit_def Let_def registry_inv_def find_key_None_iff)

lemma take_at_inv: "registry_inv q \<Longrightarrow> registry_inv (snd (take_at i now q))"
  by (auto simp: take_at_def Let_def registry_inv_def forget_expired_def distinct_remove_key
      intro: order_trans [OF length_remove_key_le] order_trans [OF length_filter_le] split: option.splits)

lemma take_at_inv_snd: "take_at i now q = (r, q') \<Longrightarrow> registry_inv q \<Longrightarrow> registry_inv q'"
  using take_at_inv [of q i now] by simp

lemma reject_inv: "registry_inv q \<Longrightarrow> registry_inv (snd (reject i q))"
  by (auto simp: reject_def registry_inv_def distinct_remove_key
      intro: order_trans [OF length_remove_key_le])

lemma expire_inv: "registry_inv q \<Longrightarrow> registry_inv (snd (expire i q))"
  by (auto simp: expire_def registry_inv_def distinct_remove_key length_remember_expired
      intro: order_trans [OF length_remove_key_le] split: option.splits)

subsection \<open>What an approval may draw on\<close>

text \<open>The contract the executor relies on: taking removes, and grants only what is held and
  still valid.\<close>

locale approval_queue =
  fixes q_inv :: "'q \<Rightarrow> bool"
    and held :: "'q \<Rightarrow> command_id \<Rightarrow> pending_command option"
    and take_q :: "command_id \<Rightarrow> instant \<Rightarrow> 'q \<Rightarrow> (approval_error + pending_command) \<times> 'q"
  assumes take_inv: "q_inv q \<Longrightarrow> q_inv (snd (take_q i now q))"
    and take_held: "q_inv q \<Longrightarrow>
      held (snd (take_q i now q)) j = (if j = i then None else held q j)"
    and take_result: "q_inv q \<Longrightarrow>
      fst (take_q i now q) = Inr e \<longleftrightarrow> held q i = Some e \<and> now < pc_expires_at e"
begin

lemma taken_once:
  assumes "q_inv q"
  shows "\<exists>err. fst (take_q i later (snd (take_q i now q))) = Inl err"
proof (cases "fst (take_q i later (snd (take_q i now q)))")
  case (Inr e)
  with assms show ?thesis by (simp add: take_result take_inv take_held)
qed simp

lemma expiry_boundary:
  "q_inv q \<Longrightarrow> held q i = Some e \<Longrightarrow> pc_expires_at e \<le> now \<Longrightarrow>
   \<exists>err. fst (take_q i now q) = Inl err"
  by (cases "fst (take_q i now q)") (simp_all add: take_result)

lemma granted_is_held:
  "q_inv q \<Longrightarrow> fst (take_q i now q) = Inr e \<Longrightarrow> held q i = Some e"
  by (simp add: take_result)

end

interpretation aq: approval_queue registry_inv "\<lambda>q i. peek i q" take_at
proof
  fix q :: approval_registry and i j :: command_id and now :: instant and e :: pending_command
  assume inv: "registry_inv q"
  show "registry_inv (snd (take_at i now q))"
    using inv by (rule take_at_inv)
  show "peek j (snd (take_at i now q)) = (if j = i then None else peek j q)"
    by (auto simp: take_at_def peek_def Let_def forget_expired_def find_key_remove_key split: option.splits)
  show "fst (take_at i now q) = Inr e \<longleftrightarrow> peek i q = Some e \<and> now < pc_expires_at e"
    by (auto simp: take_at_def peek_def Let_def forget_expired_def is_expired_at_def
        split: option.splits)
qed

subsection \<open>Histories of operations\<close>

datatype approval_op =
    OpSubmit command_id actor command string "preview option"
  | OpTake command_id
  | OpReject command_id
  | OpExpire command_id
  | OpSweep

fun approval_step ::
  "instant \<times> approval_op \<Rightarrow> approval_registry \<Rightarrow> pending_command option \<times> approval_registry" where
  "approval_step (now, OpSubmit i a cmd reason pv) q = (None, snd (submit now i a cmd reason pv q))"
| "approval_step (now, OpTake i) q =
     (case take_at i now q of (Inr e, q') \<Rightarrow> (Some e, q') | (Inl _, q') \<Rightarrow> (None, q'))"
| "approval_step (now, OpReject i) q = (None, snd (reject i q))"
| "approval_step (now, OpExpire i) q = (None, snd (expire i q))"
| "approval_step (now, OpSweep) q = (None, snd (sweep now q))"

fun run_approvals ::
  "(instant \<times> approval_op) list \<Rightarrow> approval_registry \<Rightarrow> (instant \<times> pending_command) list \<times> approval_registry" where
  "run_approvals [] q = ([], q)"
| "run_approvals (op # ops) q =
     (let (granted, q') = approval_step op q; (rest, q'') = run_approvals ops q'
      in ((case granted of None \<Rightarrow> [] | Some e \<Rightarrow> [(fst op, e)]) @ rest, q''))"

fun submits :: "command_id \<Rightarrow> instant \<times> approval_op \<Rightarrow> nat" where
  "submits i (_, OpSubmit j _ _ _ _) = (if i = j then 1 else 0)"
| "submits i _ = 0"

definition waiting :: "command_id \<Rightarrow> approval_registry \<Rightarrow> nat" where
  "waiting i q = (if peek i q = None then 0 else 1)"

lemma approval_step_inv: "registry_inv q \<Longrightarrow> registry_inv (snd (approval_step op q))"
  by (cases "(op, q)" rule: approval_step.cases)
    (auto simp: submit_inv reject_inv expire_inv sweep_def purge_inv
      split: prod.splits sum.splits dest!: take_at_inv_snd)

lemma run_approvals_inv: "registry_inv q \<Longrightarrow> registry_inv (snd (run_approvals ops q))"
proof (induction ops arbitrary: q)
  case (Cons op ops)
  then show ?case
    using approval_step_inv [of q op] by (auto simp: Let_def split: prod.splits) (metis snd_conv)
qed simp

text \<open>What a step does to one identifier: a grant uses up what was waiting, and only a
  submission makes something wait.\<close>

lemma approval_step_balance:
  assumes "registry_inv q"
  shows "(case fst (approval_step op q) of None \<Rightarrow> 0 | Some e \<Rightarrow> if pc_id e = i then 1 else 0)
      + waiting i (snd (approval_step op q)) \<le> waiting i q + submits i op"
  using assms
proof (cases "(op, q)" rule: approval_step.cases)
  case (1 now j a cmd reason pv q')
  then show ?thesis
    using assms lookup_purge [of q i now]
    by (auto simp: waiting_def peek_def submit_def Let_def find_key_append split: option.splits)
next
  case (2 now j q')
  show ?thesis
  proof (cases "take_at j now q")
    case (Pair r q'')
    then show ?thesis
      using 2 aq.take_held [OF assms, where i = j and now = now and j = i] aq.take_result [OF assms, where i = j and now = now]
      by (cases r) (auto simp: waiting_def peek_def dest: find_key_SomeD)
  qed
next
  case (3 now j q')
  then show ?thesis by (auto simp: waiting_def peek_def reject_def find_key_remove_key)
next
  case (4 now j q')
  then show ?thesis
    by (auto simp: waiting_def peek_def expire_def find_key_remove_key split: option.splits)
next
  case (5 now q')
  then show ?thesis
    using lookup_purge [OF assms, where i = i and now = now]
    by (auto simp: waiting_def peek_def sweep_def split: option.splits)
qed

text \<open>
  An approval is used only once: however operations interleave, an identifier is granted at
  most as often as it was submitted.
\<close>

lemma grants_bounded_by_submissions:
  assumes "registry_inv q"
  shows "length (filter (\<lambda>g. pc_id (snd g) = i) (fst (run_approvals ops q)))
      \<le> waiting i q + sum_list (map (submits i) ops)"
  using assms
proof (induction ops arbitrary: q)
  case (Cons op ops)
  obtain granted q' where step: "approval_step op q = (granted, q')" by fastforce
  have "registry_inv q'" using approval_step_inv [OF Cons.prems, of op] step by simp
  from Cons.IH [OF this] approval_step_balance [OF Cons.prems, where i = i and op = op] step show ?case
    by (auto simp: Let_def split: prod.splits option.splits)
qed simp

end
