(* ===== verification/Execution.thy ===== *)
theory Execution
  imports Audit_Records Request_Bounds Retained Catalog_Path Approvals
begin

text \<open>
  One execution (\<open>crates/oxyn-exec/src/executor.rs\<close>, \<open>abandon.rs\<close>, \<open>events.rs\<close>,
  \<open>crates/oxyn-core/src/event.rs\<close>): the state of the executor, its events, and the path of a
  statement from the last barrier before the driver to its terminal event.

  The state keeps a trace of what leaves the executor: audit writes, published events, and calls
  to a driver, a store or a file, in the order they happen. A handler is one step of the state;
  what a driver, the store or the clock answers during it is an argument. The race between the
  end of a drain and its deadline is part of that answer.
\<close>

subsection \<open>Events and outcomes\<close>

datatype event =
    SchemaReady result_id
  | BatchReady result_id nat
  | Progress u64
  | Completed result_id exec_stats statement_intent
  | Failed string bool
  | ApprovalRequested command_id string "preview option"
  | EvCancelled
  | CatalogUpdated
  | TransactionStateEv session_id transaction_state
  | HistoryRecorded

definition event_failed :: "(oxyn_error \<Rightarrow> string) \<Rightarrow> oxyn_error \<Rightarrow> event" where
  "event_failed render e = Failed (render e) (is_retryable e)"

fun event_is_terminal :: "event \<Rightarrow> bool" where
  "event_is_terminal (Completed _ _ _) = True"
| "event_is_terminal (Failed _ _) = True"
| "event_is_terminal EvCancelled = True"
| "event_is_terminal _ = False"

fun event_result :: "event \<Rightarrow> result_id option" where
  "event_result (SchemaReady r) = Some r"
| "event_result (BatchReady r _) = Some r"
| "event_result (Completed r _ _) = Some r"
| "event_result _ = None"

datatype sink_outcome = Exhausted | RowLimit | RowLimitUnverified | Saturated | SinkCancelled

fun sink_is_complete :: "sink_outcome \<Rightarrow> bool" where
  "sink_is_complete Exhausted = True"
| "sink_is_complete _ = False"

text \<open>A row of the store's documents.\<close>

record stored_document =
  sd_id :: document_id
  sd_workspace :: workspace_id
  sd_title :: string
  sd_language :: query_language
  sd_content :: string
  sd_connection :: "connection_id option"
  sd_revision :: u64
  sd_saved_revision :: u64
  sd_is_saved :: bool
  sd_is_open :: bool

text \<open>Pages, previews of values, preferences and a driver's context have the type \<open>'v\<close>, which the
  model leaves open.\<close>

datatype 'v outcome =
    Connected connection_id session_id transaction_state
  | SessionClosed session_id
  | SessionContextSet session_id 'v
  | Disconnected connection_id nat
  | CatalogRefreshed connection_id catalog_refresh_scope
  | CatalogDescribed connection_id
  | Executed result_id statement_handle result_buffer exec_stats exec_timings sink_outcome
  | ValueInspected 'v
  | ResultPageRead result_id nat
  | WorkspacePreferences 'v
  | WindowLayoutWritten
  | QueryDocumentsListed 'v
  | HistoryListed 'v
  | HistoryEntryRead history_record
  | HistoryEntryReconciled i64
  | HistoryConnectionsListed 'v
  | DocumentClosed document_id
  | RetainedResultOpened result_id result_buffer
  | OutCancelled cancel_report
  | Exported result_id nat u64
  | DocumentOpened stored_document
  | DocumentWritten document_id
  | ConnectionTested connection_id
  | ConnectionSaved connection_id
  | AiProvidersListed 'v
  | AiProviderSaved provider_id
  | AiProviderRemoved provider_id bool
  | ExternalAgentsListed 'v
  | ExternalAgentSaved provider_id
  | ExternalAgentRemoved provider_id bool
  | ConnectionDeleted connection_id bool
  | NeedsApproval command_id string "preview option"
  | OutDenied command_id string

fun outcome_is_denied :: "'v outcome \<Rightarrow> bool" where
  "outcome_is_denied (OutDenied _ _) = True"
| "outcome_is_denied _ = False"

fun outcome_needs_approval :: "'v outcome \<Rightarrow> bool" where
  "outcome_needs_approval (NeedsApproval _ _ _) = True"
| "outcome_needs_approval _ = False"

fun took_effect :: "'v outcome \<Rightarrow> bool" where
  "took_effect (NeedsApproval _ _ _) = False"
| "took_effect (OutDenied _ _) = False"
| "took_effect _ = True"

fun outcome_rows :: "'v outcome \<Rightarrow> u64 option" where
  "outcome_rows (Executed _ _ _ stats _ _) = Some (stat_rows stats)"
| "outcome_rows (Exported _ rows _) = (if rows < 2 ^ 64 then Some (of_nat rows) else None)"
| "outcome_rows _ = None"

lemma took_effect_iff: "took_effect out \<longleftrightarrow> \<not> outcome_is_denied out \<and> \<not> outcome_needs_approval out"
  by (cases out) simp_all

subsection \<open>The state\<close>

text \<open>The cache of a connection's catalog is what was done to it, in order.\<close>

datatype cache_op = CacheInvalidated | CachePatched catalog_refresh_scope

record connection_catalog =
  cc_session :: "session_id option"
  cc_cache :: "cache_op list"

definition connection_catalog_new :: connection_catalog where
  "connection_catalog_new = \<lparr>cc_session = None, cc_cache = []\<rparr>"

datatype exec_effect =
    Journaled journal_record
  | HistoryInserted nat history_record
  | HistoryFinished nat history_record
  | Published command_id "connection_id option" event
  | DriverConnected connection_id
  | DriverExecuted session_id exec_request
  | DriverPrepared session_id
  | DriverContext session_id
  | DriverCatalogRead session_id
  | DriverCancelAsked session_id statement_handle
  | DriverClosed session_id
  | StoreCalled string
  | FileWritten string

text \<open>Audit writes and announcements, as opposed to what reaches a driver, the store or a file.\<close>

fun is_external :: "exec_effect \<Rightarrow> bool" where
  "is_external (Journaled _) = False"
| "is_external (HistoryInserted _ _) = False"
| "is_external (HistoryFinished _ _) = False"
| "is_external (Published _ _ _) = False"
| "is_external _ = True"

text \<open>\<open>AbandonedOutcomes\<close>: the outcomes waiting for a thread allowed to write them, and how many
  were lost.\<close>

record abandoned_outcomes =
  ab_queue :: "journal_record list"
  ab_lost :: nat

record 'drv executor =
  ex_sessions :: "'drv session_registry"
  ex_running :: cancel_registry
  ex_approvals :: approval_registry
  ex_results :: retained_results
  ex_catalogs :: "connection_id \<rightharpoonup> connection_catalog"
  ex_connections :: "connection_id \<rightharpoonup> connection_config"
  ex_workspace :: workspace_id
  ex_tokens :: token_heap
  ex_abandoned :: abandoned_outcomes
  ex_history :: history_table
  ex_started_at :: instant
  ex_trace :: "exec_effect list"

definition emit :: "exec_effect list \<Rightarrow> 'drv executor \<Rightarrow> 'drv executor" where
  "emit effects ex = ex\<lparr>ex_trace := ex_trace ex @ effects\<rparr>"

definition publish ::
  "command_id \<Rightarrow> connection_id option \<Rightarrow> event \<Rightarrow> 'drv executor \<Rightarrow> 'drv executor" where
  "publish i c ev ex = emit [Published i c ev] ex"

subsection \<open>Deadlines and runs\<close>

record deadline =
  dl_after :: duration
  dl_at :: instant

text \<open>The last instant the clock counts: \<open>i64\<close> seconds.\<close>

definition instant_limit :: instant where
  "instant_limit = from_secs (2 ^ 63)"

definition deadline_starting_at :: "instant \<Rightarrow> duration \<Rightarrow> deadline option" where
  "deadline_starting_at start after =
     (if start + after < instant_limit then Some \<lparr>dl_after = after, dl_at = start + after\<rparr> else None)"

record run =
  run_preview_limit :: "nat option"
  run_started :: instant

definition write_settle_grace :: duration where
  "write_settle_grace = from_secs 10"

subsection \<open>What the outside answers during an execution\<close>

text \<open>How the drain ends: the sink stops by itself, the deadline passes first (at the row limit or
  not), or a stopped write does not settle within its grace.\<close>

datatype ending = SinkEnds "sink_outcome result" | Expired bool | Unsettled

record 'drv run_world =
  rw_execute :: "'drv \<Rightarrow> exec_request \<Rightarrow> statement_handle result"
  rw_execute_late :: bool
  rw_cancel :: "'drv \<Rightarrow> statement_handle \<Rightarrow> unit result"
  rw_transaction :: "'drv \<Rightarrow> transaction_state"
  rw_result :: result_id
  rw_buffer :: result_buffer
  rw_batches :: "nat list"
  rw_ending :: ending
  rw_stats :: exec_stats
  rw_called :: instant
  rw_streaming :: instant
  rw_drained :: instant
  rw_ended :: instant

record drained =
  dr_result :: result_id
  dr_statement :: statement_handle
  dr_buffer :: result_buffer
  dr_outcome :: "sink_outcome result"
  dr_timings :: exec_timings
  dr_settled_from :: instant

subsection \<open>The drain\<close>

definition unsettled_message :: string where
  "unsettled_message =
     ''the write was stopped, and its driver did not say within 10 s whether the ''
     @ ''server applied it; check the data before running it again''"

definition drain_outcome :: "deadline option \<Rightarrow> bool \<Rightarrow> ending \<Rightarrow> sink_outcome result" where
  "drain_outcome dl confirm_end e =
     (case e of
        SinkEnds r \<Rightarrow> r
      | Expired at_limit \<Rightarrow>
          if at_limit \<and> confirm_end then Inr RowLimitUnverified
          else Inl (ETimeout (case dl of None \<Rightarrow> 0 | Some d \<Rightarrow> dl_after d))
      | Unsettled \<Rightarrow> Inl (EOutcomeUnknown unsettled_message))"

definition drain ::
  "'drv run_world \<Rightarrow> command_id \<Rightarrow> connection_id \<Rightarrow> result_id \<Rightarrow> deadline option \<Rightarrow> bool
   \<Rightarrow> 'drv executor \<Rightarrow> sink_outcome result \<times> 'drv executor" where
  "drain rw i c result dl confirm_end ex =
     (drain_outcome dl confirm_end (rw_ending rw),
      emit (map (\<lambda>rows. Published i (Some c) (BatchReady result rows)) (rw_batches rw)) ex)"

text \<open>\<open>SlotClose\<close> and \<open>Cancel\<close> both ask the server through the registry of executions.\<close>

fun cancel_trace :: "cancel_effect list \<Rightarrow> exec_effect list" where
  "cancel_trace [] = []"
| "cancel_trace (TokenFired t # es) = cancel_trace es"
| "cancel_trace (ServerAsked s h # es) = DriverCancelAsked s h # cancel_trace es"

definition cancel_in ::
  "('drv \<Rightarrow> statement_handle \<Rightarrow> unit result) \<Rightarrow> statement_handle \<Rightarrow> 'drv executor
   \<Rightarrow> cancel_report \<times> 'drv executor" where
  "cancel_in drv_cancel h ex =
     (case cancel_running drv_cancel (ex_sessions ex) h (ex_running ex) (ex_tokens ex) of
        (report, heap, effects) \<Rightarrow> (report, emit (cancel_trace effects) (ex\<lparr>ex_tokens := heap\<rparr>)))"

text \<open>\<open>execute_within\<close>: a deadline that passes first cancels the execution's token.\<close>

definition execute_within ::
  "'drv run_world \<Rightarrow> 'drv session_slot \<Rightarrow> exec_request \<Rightarrow> token \<Rightarrow> deadline option
   \<Rightarrow> 'drv executor \<Rightarrow> statement_handle result \<times> 'drv executor" where
  "execute_within rw slot request ct dl ex =
     (let answer = slot_execute (rw_execute rw) (is_cancelled (ex_tokens ex) ct) request slot;
          ex' = (if slot_is_open slot \<and> \<not> is_cancelled (ex_tokens ex) ct
                 then emit [DriverExecuted (slot_id slot) request] ex else ex)
      in case dl of
           None \<Rightarrow> (answer, ex')
         | Some d \<Rightarrow>
             if rw_execute_late rw
             then (Inl (ETimeout (dl_after d)), ex'\<lparr>ex_tokens := cancel_token ct (ex_tokens ex')\<rparr>)
             else (answer, ex'))"

definition interrupted :: "bool \<Rightarrow> sink_outcome result \<Rightarrow> bool" where
  "interrupted confirm_end out \<longleftrightarrow>
     (case out of
        Inr SinkCancelled \<Rightarrow> True
      | Inl (ETimeout _) \<Rightarrow> True
      | Inl (EOutcomeUnknown _) \<Rightarrow> True
      | Inr RowLimitUnverified \<Rightarrow> confirm_end
      | _ \<Rightarrow> False)"

definition run_statement ::
  "'drv run_world \<Rightarrow> 'drv session_slot \<Rightarrow> command_id \<Rightarrow> exec_request \<Rightarrow> token \<Rightarrow> run
   \<Rightarrow> 'drv executor \<Rightarrow> drained result \<times> 'drv executor" where
  "run_statement rw slot i request ct scope ex =
     (let c = slot_connection slot;
          confirm_end = (run_preview_limit scope \<noteq> None \<or> \<not> request_is_mutating request);
          dl = Option.bind (timeout (limits request)) (deadline_starting_at (run_started scope))
      in case execute_within rw slot request ct dl ex of
           (Inl err, ex1) \<Rightarrow> (Inl err, ex1)
         | (Inr statement, ex1) \<Rightarrow>
             (let entry = \<lparr>rs_statement = statement, rs_command = i, rs_connection = c,
                           rs_session = slot_id slot, rs_capabilities = slot_capabilities slot,
                           rs_started_at = rw_called rw, rs_token = ct\<rparr>;
                  result = rw_result rw;
                  ex2 = ex1\<lparr>ex_running := register_running entry (ex_running ex1),
                            ex_results := retained_insert result
                              \<lparr>sr_connection = c, sr_buffer = rw_buffer rw\<rparr> (ex_results ex1)\<rparr>;
                  ex3 = publish i (Some c) (SchemaReady result) ex2;
                  (out, ex4) = drain rw i c result dl confirm_end ex3;
                  ex5 = (if interrupted confirm_end out then snd (cancel_in (rw_cancel rw) statement ex4)
                         else ex4)
              in (Inr \<lparr>dr_result = result, dr_statement = statement, dr_buffer = rw_buffer rw,
                       dr_outcome = out,
                       dr_timings = \<lparr>t_prepare = rw_called rw - run_started scope,
                                     t_start = rw_streaming rw - rw_called rw,
                                     t_stream = rw_drained rw - rw_streaming rw,
                                     t_cleanup = 0, t_total = 0\<rparr>,
                       dr_settled_from = rw_drained rw\<rparr>, ex5)))"

definition publish_transaction_state ::
  "'drv run_world \<Rightarrow> command_id \<Rightarrow> 'drv session_slot \<Rightarrow> 'drv executor \<Rightarrow> 'drv executor" where
  "publish_transaction_state rw i slot ex =
     (if \<not> caps_contains (slot_capabilities slot) TRANSACTIONS then ex
      else publish i (Some (slot_connection slot))
             (TransactionStateEv (slot_id slot) (slot_transaction_state (rw_transaction rw) slot)) ex)"

text \<open>\<open>AbandonGuard::settle\<close>: the statement leaves the executions in progress.\<close>

definition settle_guard :: "drained result \<Rightarrow> 'drv executor \<Rightarrow> 'drv executor" where
  "settle_guard r ex =
     (case r of Inl _ \<Rightarrow> ex
      | Inr d \<Rightarrow> ex\<lparr>ex_running := snd (finish_running (dr_statement d) (ex_running ex))\<rparr>)"

definition prune_results :: "'drv executor \<Rightarrow> 'drv executor" where
  "prune_results ex = ex\<lparr>ex_results := snd (prune (ex_results ex))\<rparr>"

definition invalidate_catalog :: "connection_id \<Rightarrow> 'drv executor \<Rightarrow> 'drv executor" where
  "invalidate_catalog c ex =
     (case ex_catalogs ex c of None \<Rightarrow> ex
      | Some state \<Rightarrow> ex\<lparr>ex_catalogs := (ex_catalogs ex)(c \<mapsto> state\<lparr>cc_cache := cc_cache state @ [CacheInvalidated]\<rparr>)\<rparr>)"

definition conclude ::
  "(oxyn_error \<Rightarrow> string) \<Rightarrow> 'drv run_world \<Rightarrow> command_id \<Rightarrow> connection_id \<Rightarrow> statement_intent
   \<Rightarrow> drained result \<Rightarrow> instant \<Rightarrow> 'drv executor \<Rightarrow> 'v outcome result \<times> 'drv executor" where
  "conclude render rw i c what r started ex0 =
     (case r of
        Inl err \<Rightarrow> (Inl err, ex0)
      | Inr d \<Rightarrow>
          (let timings = (dr_timings d)\<lparr>t_cleanup := rw_ended rw - dr_settled_from d,
                                        t_total := rw_ended rw - started\<rparr>;
               ex = prune_results ex0
           in case dr_outcome d of
                Inr sink \<Rightarrow>
                  (let ex1 = (if sink \<noteq> SinkCancelled \<and> what = Ddl
                              then publish i (Some c) CatalogUpdated (invalidate_catalog c ex) else ex);
                       ev = (if sink = SinkCancelled then EvCancelled
                             else Completed (dr_result d) (rw_stats rw) what)
                   in (Inr (Executed (dr_result d) (dr_statement d) (dr_buffer d) (rw_stats rw) timings sink),
                       publish i (Some c) ev ex1))
              | Inl err \<Rightarrow> (Inl err, publish i (Some c) (event_failed render err) ex)))"

text \<open>The last barrier before the driver, then the whole path to the terminal event.\<close>

definition execute_statement ::
  "(oxyn_error \<Rightarrow> string) \<Rightarrow> 'drv run_world \<Rightarrow> command_id \<Rightarrow> connection_id \<Rightarrow> session_id
   \<Rightarrow> exec_request \<Rightarrow> token \<Rightarrow> run \<Rightarrow> 'drv executor \<Rightarrow> 'v outcome result \<times> 'drv executor" where
  "execute_statement render rw i c s request cancel scope ex =
     (if request_is_mutating request \<and> limits_read_only (limits request)
      then (Inl (EPolicyDenied (''this execution is bounded to read-only: ''
              @ ''a write must lift that bound explicitly'')), ex)
      else (case get_session s (ex_sessions ex) of
          None \<Rightarrow> (Inl (EConnection ''no session is open under this identifier''), ex)
        | Some slot \<Rightarrow>
            if slot_connection slot \<noteq> c
            then (Inl (EInternal ''the target session does not belong to the command's connection''), ex)
            else (let what = req_intent request;
                      (ct, heap) = token_child cancel (ex_tokens ex);
                      (r, ex1) = run_statement rw slot i request ct scope (ex\<lparr>ex_tokens := heap\<rparr>);
                      ex2 = publish_transaction_state rw i slot ex1;
                      ex3 = settle_guard r ex2
                  in conclude render rw i c what r (run_started scope) ex3)))"

subsection \<open>What an execution adds to the trace\<close>

text \<open>The trace only grows, here by effects that satisfy \<open>P\<close>.\<close>

definition grows :: "(exec_effect \<Rightarrow> bool) \<Rightarrow> 'drv executor \<Rightarrow> 'drv executor \<Rightarrow> bool" where
  "grows P ex ex' \<longleftrightarrow> (\<exists>t. ex_trace ex' = ex_trace ex @ t \<and> list_all P t)"

lemma grows_same: "ex_trace ex' = ex_trace ex \<Longrightarrow> grows P ex ex'"
  by (simp add: grows_def)

lemma grows_refl [simp]: "grows P ex ex"
  by (simp add: grows_def)

lemma grows_trans: "grows P ex ex' \<Longrightarrow> grows P ex' ex'' \<Longrightarrow> grows P ex ex''"
  by (auto simp: grows_def)

lemma grows_mono: "grows P ex ex' \<Longrightarrow> (\<And>e. P e \<Longrightarrow> Q e) \<Longrightarrow> grows Q ex ex'"
  by (auto simp: grows_def list_all_iff)

lemma emit_trace [simp]: "ex_trace (emit es ex) = ex_trace ex @ es"
  by (simp add: emit_def)

lemma grows_emit: "ex_trace ex' = ex_trace ex \<Longrightarrow> list_all P es \<Longrightarrow> grows P ex (emit es ex')"
  by (simp add: grows_def)

lemma list_all_cancel_trace:
  "(\<And>s h. P (DriverCancelAsked s h)) \<Longrightarrow> list_all P (cancel_trace effects)"
  by (induction effects rule: cancel_trace.induct) simp_all

lemma cancel_in_grows:
  "(\<And>s h. P (DriverCancelAsked s h)) \<Longrightarrow> grows P ex (snd (cancel_in drv_cancel h ex))"
  by (auto simp: cancel_in_def grows_def list_all_cancel_trace split: prod.split)

definition statement_effect ::
  "'drv session_registry \<Rightarrow> connection_id \<Rightarrow> session_id \<Rightarrow> exec_request \<Rightarrow> exec_effect \<Rightarrow> bool" where
  "statement_effect sessions c s request e \<longleftrightarrow>
     (case e of
        Published _ _ _ \<Rightarrow> True
      | DriverCancelAsked _ _ \<Rightarrow> True
      | DriverExecuted s' r \<Rightarrow> s' = s \<and> r = request
          \<and> \<not> (request_is_mutating request \<and> limits_read_only (limits request))
          \<and> (\<exists>slot. get_session s sessions = Some slot \<and> slot_connection slot = c \<and> slot_is_open slot)
      | _ \<Rightarrow> False)"

lemma execute_within_grows:
  "(slot_is_open slot \<Longrightarrow> P (DriverExecuted (slot_id slot) request))
   \<Longrightarrow> grows P ex (snd (execute_within rw slot request ct dl ex))"
  by (auto simp: execute_within_def Let_def grows_def split: option.split)

lemma drain_grows:
  "(\<And>i c ev. \<not> event_is_terminal ev \<Longrightarrow> P (Published i c ev))
   \<Longrightarrow> grows P ex (snd (drain rw i c result dl confirm_end ex))"
  by (auto simp: drain_def grows_def list_all_iff)

lemma run_statement_grows:
  assumes "\<And>i c ev. \<not> event_is_terminal ev \<Longrightarrow> P (Published i c ev)"
    and "\<And>s h. P (DriverCancelAsked s h)"
    and "slot_is_open slot \<Longrightarrow> P (DriverExecuted (slot_id slot) request)"
  shows "grows P ex (snd (run_statement rw slot i request ct scope ex))"
proof -
  define dl where "dl = Option.bind (timeout (limits request)) (deadline_starting_at (run_started scope))"
  obtain r ex1 where within: "execute_within rw slot request ct dl ex = (r, ex1)" by fastforce
  have step1: "grows P ex ex1" using execute_within_grows [of slot P request ex rw ct dl] assms(3) within by simp
  show ?thesis
  proof (cases r)
    case (Inl err)
    with within step1 show ?thesis
      unfolding run_statement_def Let_def dl_def [symmetric] by simp
  next
    case (Inr h)
    have later: "grows P ex1 (snd (case drain rw i c res dl ce (publish i cc ev ex2) of
        (out, ex4) \<Rightarrow> (f out, if interrupted ce out then snd (cancel_in (rw_cancel rw) h ex4) else ex4)))"
      if "ex_trace ex2 = ex_trace ex1" "\<not> event_is_terminal ev" for ex2 c cc ev res ce f
    proof -
      have "grows P ex1 (publish i cc ev ex2)"
        unfolding publish_def by (rule grows_emit) (simp_all add: that assms(1))
      moreover have "grows P (publish i cc ev ex2) (snd (drain rw i c res dl ce (publish i cc ev ex2)))"
        by (rule drain_grows) (rule assms(1))
      ultimately have base: "grows P ex1 (snd (drain rw i c res dl ce (publish i cc ev ex2)))"
        by (rule grows_trans)
      then show ?thesis
        using grows_trans [OF base cancel_in_grows [of P, OF assms(2)]] by (simp add: case_prod_beta)
    qed
    show ?thesis
      unfolding run_statement_def Let_def dl_def [symmetric] within Inr prod.case sum.case
      by (rule grows_trans [OF step1 later]) simp_all
  qed
qed

lemma publish_transaction_state_grows:
  "(\<And>i c ev. \<not> event_is_terminal ev \<Longrightarrow> P (Published i c ev))
   \<Longrightarrow> grows P ex (publish_transaction_state rw i slot ex)"
  by (simp add: publish_transaction_state_def publish_def grows_emit)

lemma settle_guard_trace [simp]: "ex_trace (settle_guard r ex) = ex_trace ex"
  by (simp add: settle_guard_def split: sum.split)

lemma invalidate_catalog_trace [simp]: "ex_trace (invalidate_catalog c ex) = ex_trace ex"
  by (simp add: invalidate_catalog_def split: option.split)

lemma prune_results_trace [simp]: "ex_trace (prune_results ex) = ex_trace ex"
  by (simp add: prune_results_def)

lemma conclude_grows:
  "(\<And>i c ev. P (Published i c ev)) \<Longrightarrow> grows P ex (snd (conclude render rw i c what r started ex))"
  by (auto simp: conclude_def Let_def publish_def grows_def split: sum.split)

text \<open>Past the barrier and the lookup, an execution is these four steps.\<close>

definition executed_run ::
  "'drv run_world \<Rightarrow> 'drv session_slot \<Rightarrow> command_id \<Rightarrow> exec_request \<Rightarrow> token \<Rightarrow> run
   \<Rightarrow> 'drv executor \<Rightarrow> drained result \<times> 'drv executor" where
  "executed_run rw slot i request cancel scope ex =
     (case token_child cancel (ex_tokens ex) of
        (ct, heap) \<Rightarrow> run_statement rw slot i request ct scope (ex\<lparr>ex_tokens := heap\<rparr>))"

lemma execute_statement_run:
  assumes "\<not> (request_is_mutating request \<and> limits_read_only (limits request))"
    and "get_session s (ex_sessions ex) = Some slot" "slot_connection slot = c"
    and "executed_run rw slot i request cancel scope ex = (r, ex1)"
  shows "execute_statement render rw i c s request cancel scope ex =
    conclude render rw i c (req_intent request) r (run_started scope)
      (settle_guard r (publish_transaction_state rw i slot ex1))"
proof -
  from assms(1) have bar: "(request_is_mutating request \<and> limits_read_only (limits request)) = False"
    by blast
  show ?thesis
    using assms(4) unfolding execute_statement_def executed_run_def Let_def
    by (simp only: bar assms(2,3) if_False option.case not_not simp_thms case_prod_beta fst_conv snd_conv)
qed

lemma execute_statement_refused:
  assumes "\<not> (\<not> (request_is_mutating request \<and> limits_read_only (limits request))
    \<and> (\<exists>slot. get_session s (ex_sessions ex) = Some slot \<and> slot_connection slot = c))"
  shows "\<exists>e. execute_statement render rw i c s request cancel scope ex = (Inl e, ex)"
  using assms by (auto simp: execute_statement_def split: option.split)

lemma executed_run_grows:
  assumes "\<And>i c ev. \<not> event_is_terminal ev \<Longrightarrow> P (Published i c ev)"
    and "\<And>s h. P (DriverCancelAsked s h)"
    and "slot_is_open slot \<Longrightarrow> P (DriverExecuted (slot_id slot) request)"
    and "executed_run rw slot i request cancel scope ex = (r, ex1)"
  shows "grows P ex ex1"
proof -
  obtain ct heap where ct: "token_child cancel (ex_tokens ex) = (ct, heap)" by fastforce
  have "grows P (ex\<lparr>ex_tokens := heap\<rparr>) (snd (run_statement rw slot i request ct scope (ex\<lparr>ex_tokens := heap\<rparr>)))"
    by (rule run_statement_grows) (use assms(1-3) in auto)
  with ct assms(4) show ?thesis by (simp add: executed_run_def grows_def)
qed

lemma execute_statement_grows:
  "grows (statement_effect (ex_sessions ex) c s request) ex
     (snd (execute_statement render rw i c s request cancel scope ex :: 'v outcome result \<times> _))"
  (is "grows ?P ex (snd ?run)")
proof (cases "\<not> (request_is_mutating request \<and> limits_read_only (limits request))
    \<and> (\<exists>slot. get_session s (ex_sessions ex) = Some slot \<and> slot_connection slot = c)")
  case True
  then obtain slot where slot: "get_session s (ex_sessions ex) = Some slot" "slot_connection slot = c"
    by blast
  then have id: "slot_id slot = s" by (auto simp: get_session_def dest: find_key_SomeD)
  obtain r ex1 where run: "executed_run rw slot i request cancel scope ex = (r, ex1)" by fastforce
  have pub: "?P (Published j d ev)" and ask: "?P (DriverCancelAsked u h)" for j d ev u h
    by (simp_all add: statement_effect_def)
  have "slot_is_open slot \<Longrightarrow> ?P (DriverExecuted (slot_id slot) request)"
    using True slot id by (auto simp: statement_effect_def)
  with run have a: "grows ?P ex ex1" by (intro executed_run_grows) (auto intro: pub ask)
  define ex2 where "ex2 = publish_transaction_state rw i slot ex1"
  have b: "grows ?P ex1 (settle_guard r ex2)"
    unfolding ex2_def by (rule grows_trans [OF publish_transaction_state_grows grows_same]) (simp_all add: pub)
  have "grows ?P (settle_guard r ex2)
      (snd (conclude render rw i c (req_intent request) r (run_started scope) (settle_guard r ex2)
         :: 'v outcome result \<times> _))"
    by (rule conclude_grows) (rule pub)
  with True slot run show ?thesis
    using grows_trans [OF a b] by (auto simp: execute_statement_run ex2_def intro: grows_trans)
next
  case False
  then have "snd ?run = ex" using execute_statement_refused by (metis snd_conv)
  then show ?thesis by simp
qed

text \<open>
  The terminal event comes last and once. It is due as soon as a cursor is announced, and not before: an
  execution that fails without one says so to its caller only.
\<close>

definition is_terminal_effect :: "exec_effect \<Rightarrow> bool" where
  "is_terminal_effect e \<longleftrightarrow> (case e of Published _ _ ev \<Rightarrow> event_is_terminal ev | _ \<Rightarrow> False)"

definition announces_cursor :: "exec_effect \<Rightarrow> bool" where
  "announces_cursor e \<longleftrightarrow> (case e of Published _ _ (SchemaReady _) \<Rightarrow> True | _ \<Rightarrow> False)"

definition quiet_effect :: "exec_effect \<Rightarrow> bool" where
  "quiet_effect e \<longleftrightarrow> \<not> is_terminal_effect e \<and> \<not> announces_cursor e"

lemma quiet_simps [simp]:
  "quiet_effect (DriverExecuted s q)" "quiet_effect (Published i c (TransactionStateEv s x))"
  by (simp_all add: quiet_effect_def is_terminal_effect_def announces_cursor_def)

lemma quiet_not_terminal: "list_all quiet_effect t \<Longrightarrow> list_all (\<lambda>e. \<not> is_terminal_effect e) t"
  by (auto simp: list_all_iff quiet_effect_def)

definition event_of_end ::
  "(oxyn_error \<Rightarrow> string) \<Rightarrow> exec_stats \<Rightarrow> statement_intent \<Rightarrow> drained \<Rightarrow> event" where
  "event_of_end render stats what d =
     (case dr_outcome d of
        Inl e \<Rightarrow> event_failed render e
      | Inr sink \<Rightarrow> if sink = SinkCancelled then EvCancelled else Completed (dr_result d) stats what)"

lemma event_of_end_terminal: "event_is_terminal (event_of_end render stats what d)"
  by (simp add: event_of_end_def event_failed_def split: sum.split)

lemma conclude_terminal:
  assumes "conclude render rw i c what r started ex = (res, ex')"
  shows "case r of
      Inl e \<Rightarrow> res = Inl e \<and> ex' = ex
    | Inr d \<Rightarrow> (\<exists>t. ex_trace ex' = ex_trace ex @ t @ [Published i (Some c) (event_of_end render (rw_stats rw) what d)]
          \<and> list_all (\<lambda>e. \<not> is_terminal_effect e) t)
        \<and> (case dr_outcome d of
             Inl e \<Rightarrow> res = Inl e
           | Inr sink \<Rightarrow> \<exists>timings. res = Inr (Executed (dr_result d) (dr_statement d) (dr_buffer d)
                             (rw_stats rw) timings sink))"
  using assms
  by (auto simp: conclude_def Let_def publish_def is_terminal_effect_def event_of_end_def
      split: sum.splits if_splits)

text \<open>A run that gives no cursor announces none; one that gives one announced it.\<close>

lemma run_statement_announces:
  assumes "run_statement rw slot i request ct scope ex = (r, ex')"
  shows "case r of
      Inl e \<Rightarrow> grows quiet_effect ex ex'
    | Inr d \<Rightarrow> \<exists>t. ex_trace ex' = ex_trace ex @ t
        \<and> Published i (Some (slot_connection slot)) (SchemaReady (dr_result d)) \<in> set t"
proof -
  define dl where "dl = Option.bind (timeout (limits request)) (deadline_starting_at (run_started scope))"
  obtain q ex1 where within: "execute_within rw slot request ct dl ex = (q, ex1)" by fastforce
  have step1: "grows quiet_effect ex ex1"
    using execute_within_grows [of slot quiet_effect request ex rw ct dl] within by simp
  show ?thesis
  proof (cases q)
    case (Inl e)
    with assms within step1 show ?thesis unfolding run_statement_def Let_def dl_def [symmetric] by auto
  next
    case (Inr h)
    have later: "\<exists>t. ex_trace (snd (case drain rw i c res dl ce (publish i cc ev ex2) of
        (out, ex4) \<Rightarrow> (f out, if interrupted ce out then snd (cancel_in (rw_cancel rw) h ex4) else ex4)))
          = ex_trace ex @ t \<and> Published i cc ev \<in> set t"
      if same: "ex_trace ex2 = ex_trace ex1" for ex2 c cc ev res ce f
    proof -
      obtain out ex4 where d: "drain rw i c res dl ce (publish i cc ev ex2) = (out, ex4)" by fastforce
      obtain t1 where "ex_trace ex1 = ex_trace ex @ t1" using step1 by (auto simp: grows_def)
      moreover have "ex_trace ex4 = ex_trace ex1 @ Published i cc ev
          # map (\<lambda>rows. Published i (Some c) (BatchReady res rows)) (rw_batches rw)"
        using d same by (auto simp: drain_def publish_def)
      moreover obtain t3 where "ex_trace (snd (cancel_in (rw_cancel rw) h ex4)) = ex_trace ex4 @ t3"
        using cancel_in_grows [of "\<lambda>_. True" ex4 "rw_cancel rw" h] by (auto simp: grows_def)
      ultimately show ?thesis by (simp add: d)
    qed
    obtain d where d: "r = Inr d" "dr_result d = rw_result rw"
      using assms unfolding run_statement_def Let_def dl_def [symmetric] within Inr prod.case sum.case
      by (auto split: prod.splits)
    have "ex' = snd (run_statement rw slot i request ct scope ex)" by (simp add: assms)
    then show ?thesis
      unfolding d sum.case run_statement_def Let_def dl_def [symmetric] within Inr prod.case
      by (simp only:) (rule later, simp)
  qed
qed

lemma execute_statement_terminal:
  fixes res :: "'v outcome result"
  assumes "execute_statement render rw i c s request cancel scope ex = (res, ex')"
  obtains (silent) e t where "res = Inl e" "ex_trace ex' = ex_trace ex @ t" "list_all quiet_effect t"
    | (announced) t r ev where "ex_trace ex' = ex_trace ex @ t @ [Published i (Some c) ev]"
      "Published i (Some c) (SchemaReady r) \<in> set t" "event_is_terminal ev"
      "list_all (\<lambda>e. \<not> is_terminal_effect e) t"
      "(\<exists>e. res = Inl e \<and> ev = event_failed render e)
       \<or> (\<exists>h buffer stats timings sink. res = Inr (Executed r h buffer stats timings sink)
            \<and> ev = (if sink = SinkCancelled then EvCancelled else Completed r stats (req_intent request)))"
proof (cases "\<not> (request_is_mutating request \<and> limits_read_only (limits request))
    \<and> (\<exists>slot. get_session s (ex_sessions ex) = Some slot \<and> slot_connection slot = c)")
  case True
  then obtain slot where slot: "get_session s (ex_sessions ex) = Some slot" "slot_connection slot = c"
    by blast
  let ?Q = "\<lambda>e. \<not> is_terminal_effect e"
  obtain r ex1 where run: "executed_run rw slot i request cancel scope ex = (r, ex1)" by fastforce
  define ex2 where "ex2 = settle_guard r (publish_transaction_state rw i slot ex1)"
  have first: "grows ?Q ex ex1"
    by (rule executed_run_grows [OF _ _ _ run]) (simp_all add: is_terminal_effect_def)
  have second: "grows quiet_effect ex1 ex2"
    unfolding ex2_def publish_transaction_state_def publish_def by (simp add: grows_def)
  obtain ct heap where ct: "token_child cancel (ex_tokens ex) = (ct, heap)" by fastforce
  have ran: "run_statement rw slot i request ct scope (ex\<lparr>ex_tokens := heap\<rparr>) = (r, ex1)"
    using run ct by (simp add: executed_run_def)
  note said = run_statement_announces [OF ran]
  have fin: "conclude render rw i c (req_intent request) r (run_started scope) ex2 = (res, ex')"
    using assms True slot run by (simp add: execute_statement_run ex2_def)
  show thesis
  proof (cases r)
    case (Inl e)
    with said second have "grows quiet_effect ex ex2" by (auto simp: grows_def)
    with conclude_terminal [OF fin] Inl show thesis by (auto simp: grows_def intro: silent)
  next
    case (Inr d)
    obtain t1 where t1: "ex_trace ex1 = ex_trace ex @ t1" "Published i (Some c) (SchemaReady (dr_result d)) \<in> set t1"
      using said slot(2) by (auto simp: Inr)
    moreover from this first have "list_all ?Q t1" by (auto simp: grows_def)
    moreover obtain t2 where "ex_trace ex2 = ex_trace ex1 @ t2" "list_all ?Q t2"
      using second quiet_not_terminal by (auto simp: grows_def)
    moreover obtain t3 where "ex_trace ex' = ex_trace ex2 @ t3
        @ [Published i (Some c) (event_of_end render (rw_stats rw) (req_intent request) d)]" "list_all ?Q t3"
      using conclude_terminal [OF fin] Inr by auto
    ultimately show thesis
    proof (intro announced [of "t1 @ t2 @ t3" "event_of_end render (rw_stats rw) (req_intent request) d" "dr_result d"])
      show "(\<exists>e. res = Inl e \<and> event_of_end render (rw_stats rw) (req_intent request) d = event_failed render e)
        \<or> (\<exists>h buffer stats timings sink. res = Inr (Executed (dr_result d) h buffer stats timings sink)
             \<and> event_of_end render (rw_stats rw) (req_intent request) d
               = (if sink = SinkCancelled then EvCancelled else Completed (dr_result d) stats (req_intent request)))"
      proof (cases "dr_outcome d")
        case sunk: (Inr sink)
        then obtain timings where "res = Inr (Executed (dr_result d) (dr_statement d) (dr_buffer d) (rw_stats rw) timings sink)"
          using conclude_terminal [OF fin] Inr by auto
        with sunk show ?thesis by (auto simp: event_of_end_def simp del: if_split)
      qed (use conclude_terminal [OF fin] Inr in \<open>simp add: event_of_end_def\<close>)
    qed (simp_all add: event_of_end_terminal)
  qed
next
  case False
  then obtain e where
    "execute_statement render rw i c s request cancel scope ex = (Inl e :: 'v outcome result, ex)"
    using execute_statement_refused by blast
  with assms show thesis by (intro silent [of e "[]"]) simp_all
qed

text \<open>Nothing that ended stays among the executions in progress.\<close>

lemma conclude_running:
  "ex_running (snd (conclude render rw i c what r started ex)) = ex_running ex"
  by (auto simp: conclude_def Let_def publish_def emit_def prune_results_def invalidate_catalog_def
      split: sum.split option.split)

lemma execute_statement_settled:
  assumes "execute_statement render rw i c s request cancel scope ex
    = (Inr (Executed r h buffer stats timings sink) :: 'v outcome result, ex')"
  shows "find_key rs_statement h (ex_running ex') = None"
proof (cases "\<not> (request_is_mutating request \<and> limits_read_only (limits request))
    \<and> (\<exists>slot. get_session s (ex_sessions ex) = Some slot \<and> slot_connection slot = c)")
  case True
  then obtain slot where slot: "get_session s (ex_sessions ex) = Some slot" "slot_connection slot = c"
    by blast
  obtain d ex1 where run: "executed_run rw slot i request cancel scope ex = (d, ex1)" by fastforce
  have fin: "conclude render rw i c (req_intent request) d (run_started scope)
      (settle_guard d (publish_transaction_state rw i slot ex1))
      = (Inr (Executed r h buffer stats timings sink) :: 'v outcome result, ex')"
    using assms True slot run by (simp add: execute_statement_run)
  obtain dr where dr: "d = Inr dr" "dr_statement dr = h"
  proof (cases d)
    case (Inr x)
    with conclude_terminal [OF fin] that show ?thesis by (cases "dr_outcome x") auto
  qed (use conclude_terminal [OF fin] in auto)
  show ?thesis
    using conclude_running [where 'b = 'v, of render rw i c "req_intent request" d "run_started scope"
        "settle_guard d (publish_transaction_state rw i slot ex1)"] fin dr
    by (simp add: settle_guard_def finish_running_def find_key_remove_key)
next
  case False
  then obtain e where
    "execute_statement render rw i c s request cancel scope ex = (Inl e :: 'v outcome result, ex)"
    using execute_statement_refused by blast
  with assms show ?thesis by simp
qed

end
