(* ===== verification/Declarations.thy ===== *)
theory Declarations
  imports Local_Requests
begin

text \<open>
  The checks a declared AI provider and a declared external agent go through before they are
  stored (\<open>AiProviderConfig::validate\<close>, \<open>ExternalAgentConfig::validate\<close> and
  \<open>validate_stored_environment\<close> in \<open>crates/oxyn-core/src/ai.rs\<close>). Parsing a URL belongs to the
  \<open>url\<close> crate and is an argument.
\<close>

subsection \<open>Providers\<close>

record parsed_url =
  url_host :: "string option"
  url_username :: string
  url_password :: "string option"
  url_query :: "string option"
  url_fragment :: "string option"

definition max_provider_label_bytes :: nat where
  "max_provider_label_bytes = 128"

definition max_provider_model_bytes :: nat where
  "max_provider_model_bytes = 128"

definition max_provider_base_url_bytes :: nat where
  "max_provider_base_url_bytes = 2048"

definition validate_base_url :: "(string \<Rightarrow> parsed_url option) \<Rightarrow> string \<Rightarrow> unit result" where
  "validate_base_url parse raw =
     (case parse raw of None \<Rightarrow> Inl (EConfig ''provider base URL is not a valid absolute URL'')
      | Some url \<Rightarrow>
        if url_host url = None \<or> url_host url = Some []
        then Inl (EConfig ''provider base URL must name a host'')
        else if url_username url \<noteq> [] \<or> url_password url \<noteq> None
        then Inl (EConfig (''provider base URL must not carry credentials; ''
               @ ''keep the key in the system keychain and reference it''))
        else if url_query url \<noteq> None \<or> url_fragment url \<noteq> None
        then Inl (EConfig (''provider base URL must not carry a query string or a fragment; ''
               @ ''enter the key in its own field, it is kept in the system keychain''))
        else Inr ())"

definition provider_validate :: "(string \<Rightarrow> parsed_url option) \<Rightarrow> ai_provider_config \<Rightarrow> unit result" where
  "provider_validate parse p =
     (if trim (prov_cfg_label p) = [] \<or> length (prov_cfg_label p) > max_provider_label_bytes
      then Inl (EConfig ''provider label must be nonempty and fit 128 UTF-8 bytes'')
      else if trim (prov_cfg_model p) = [] \<or> length (prov_cfg_model p) > max_provider_model_bytes
      then Inl (EConfig ''provider model must be nonempty and fit 128 UTF-8 bytes'')
      else if length (prov_cfg_base_url p) > max_provider_base_url_bytes
      then Inl (EConfig ''provider base URL exceeds 2048 bytes'')
      else if (case prov_cfg_secret_ref p of None \<Rightarrow> False | Some reference \<Rightarrow> trim reference = [])
      then Inl (EConfig ''provider secret reference must not be blank; omit it instead'')
      else validate_base_url parse (prov_cfg_base_url p))"

lemma validate_base_url_ok_iff:
  "validate_base_url parse raw = Inr () \<longleftrightarrow>
     (\<exists>url. parse raw = Some url \<and> url_host url \<notin> {None, Some []} \<and> url_username url = []
        \<and> url_password url = None \<and> url_query url = None \<and> url_fragment url = None)"
  by (auto simp: validate_base_url_def split: option.splits)

text \<open>An accepted provider names a host and leaves no place in its URL for a key.\<close>

lemma provider_validate_ok:
  assumes "provider_validate parse p = Inr ()"
  shows "trim (prov_cfg_label p) \<noteq> []" "trim (prov_cfg_model p) \<noteq> []"
    "prov_cfg_secret_ref p = Some reference \<Longrightarrow> trim reference \<noteq> []"
    "\<exists>url. parse (prov_cfg_base_url p) = Some url \<and> url_username url = [] \<and> url_password url = None
       \<and> url_query url = None \<and> url_fragment url = None"
  using assms by (auto simp: provider_validate_def validate_base_url_ok_iff split: if_splits option.splits)

subsection \<open>Characters that hide a declaration\<close>

text \<open>The code points of a UTF-8 string: \<open>need\<close> continuation bytes are missing.\<close>

fun decode_utf8 :: "nat \<Rightarrow> nat \<Rightarrow> nat list \<Rightarrow> nat list" where
  "decode_utf8 need acc [] = []"
| "decode_utf8 0 acc (b # bs) =
     (if b < 128 then b # decode_utf8 0 0 bs
      else if b < 224 then decode_utf8 1 (b mod 32) bs
      else if b < 240 then decode_utf8 2 (b mod 16) bs
      else decode_utf8 3 (b mod 8) bs)"
| "decode_utf8 (Suc need) acc (b # bs) =
     (if need = 0 then (acc * 64 + b mod 64) # decode_utf8 0 0 bs
      else decode_utf8 need (acc * 64 + b mod 64) bs)"

definition code_points :: "string \<Rightarrow> nat list" where
  "code_points s = decode_utf8 0 0 (map byte s)"

definition obscuring_ranges :: "(nat \<times> nat) list" where
  "obscuring_ranges =
     [(0x00AD, 0x00AD), (0x034F, 0x034F), (0x0600, 0x0605), (0x061C, 0x061C),
      (0x06DD, 0x06DD), (0x070F, 0x070F), (0x0890, 0x0891), (0x08E2, 0x08E2),
      (0x115F, 0x1160), (0x17B4, 0x17B5), (0x180B, 0x180F), (0x200B, 0x200F),
      (0x2028, 0x202E), (0x2060, 0x206F), (0x3164, 0x3164), (0xFE00, 0xFE0F), (0xFEFF, 0xFEFF),
      (0xFFA0, 0xFFA0), (0xFFF9, 0xFFFB), (0x110BD, 0x110BD), (0x110CD, 0x110CD),
      (0x13430, 0x1343F), (0x1BCA0, 0x1BCA3), (0x1D173, 0x1D17A), (0xE0000, 0xE0FFF)]"

text \<open>\<open>char::is_control\<close> is the category Cc.\<close>

definition obscures_agent_declaration :: "nat \<Rightarrow> bool" where
  "obscures_agent_declaration c \<longleftrightarrow>
     c < 32 \<or> 127 \<le> c \<and> c < 160 \<or> list_ex (\<lambda>(first, last). first \<le> c \<and> c \<le> last) obscuring_ranges"

definition obscured :: "string \<Rightarrow> bool" where
  "obscured s \<longleftrightarrow> list_ex obscures_agent_declaration (code_points s)"

lemma decode_utf8_ascii:
  "(\<And>b. b \<in> set bs \<Longrightarrow> b < 128) \<Longrightarrow> decode_utf8 0 0 bs = bs"
  by (induction bs) auto

subsection \<open>External agents\<close>

definition max_agent_args :: nat where
  "max_agent_args = 32"

definition max_agent_command_bytes :: nat where
  "max_agent_command_bytes = 4096"

definition max_agent_argument_bytes :: nat where
  "max_agent_argument_bytes = 4096"

definition max_agent_env :: nat where
  "max_agent_env = 32"

definition max_agent_env_value_bytes :: nat where
  "max_agent_env_value_bytes = 4096"

definition agent_validate :: "external_agent_config \<Rightarrow> unit result" where
  "agent_validate a =
     (if trim (agent_cfg_label a) = [] \<or> length (agent_cfg_label a) > max_provider_label_bytes
      then Inl (EConfig ''agent label must be nonempty and fit 128 UTF-8 bytes'')
      else if obscured (agent_cfg_label a)
      then Inl (EConfig ''agent label must not contain control or invisible characters'')
      else if trim (agent_cfg_command a) = [] then Inl (EConfig ''agent command must be nonempty'')
      else if length (agent_cfg_command a) > max_agent_command_bytes
         \<or> list_ex (\<lambda>arg. length arg > max_agent_argument_bytes) (agent_cfg_args a)
      then Inl (EConfig ''agent command and each argument must fit 4096 UTF-8 bytes'')
      else if obscured (agent_cfg_command a) \<or> list_ex obscured (agent_cfg_args a)
      then Inl (EConfig ''agent command and arguments must not contain control or invisible characters'')
      else if length (agent_cfg_args a) > max_agent_args
      then Inl (EConfig ''agent has too many arguments'')
      else if length (agent_cfg_env a) > max_agent_env
      then Inl (EConfig ''agent has too many environment variables'')
      else if list_ex (\<lambda>(name, _). trim name = [] \<or> CHR ''='' \<in> set name \<or> obscured name) (agent_cfg_env a)
      then Inl (EConfig (''agent environment variable names must be nonempty and free of '' @ [CHR 0x27]
             @ ''='' @ [CHR 0x27] @ '' and control or invisible characters''))
      else if list_ex (\<lambda>(_, value). length value > max_agent_env_value_bytes) (agent_cfg_env a)
      then Inl (EConfig ''agent environment variable value is too long'')
      else if list_ex (\<lambda>(_, value). obscured value) (agent_cfg_env a)
      then Inl (EConfig ''agent environment variable values must not contain control or invisible characters'')
      else Inr ())"

definition ascii_upper :: "char \<Rightarrow> char" where
  "ascii_upper c = (if 97 \<le> byte c \<and> byte c \<le> 122 then char_of (byte c - 32) else c)"

definition to_ascii_uppercase :: "string \<Rightarrow> string" where
  "to_ascii_uppercase s = map ascii_upper s"

fun contains_part :: "string \<Rightarrow> string \<Rightarrow> bool" where
  "contains_part part [] \<longleftrightarrow> part = []"
| "contains_part part (c # s) \<longleftrightarrow> take (length part) (c # s) = part \<or> contains_part part s"

definition agent_env_is_secret :: "string \<Rightarrow> bool" where
  "agent_env_is_secret raw =
     (let name = to_ascii_uppercase raw
      in ends_with name ''_API_KEY'' \<or> ends_with name ''_TOKEN'' \<or> ends_with name ''_SECRET''
         \<or> contains_part ''PASSWORD'' name \<or> name \<in> {''API_KEY'', ''TOKEN'', ''SECRET''})"

definition is_hex_digit :: "char \<Rightarrow> bool" where
  "is_hex_digit c \<longleftrightarrow> 48 \<le> byte c \<and> byte c \<le> 57 \<or> 65 \<le> byte c \<and> byte c \<le> 70
     \<or> 97 \<le> byte c \<and> byte c \<le> 102"

definition is_agent_secret_reference :: "string \<Rightarrow> bool" where
  "is_agent_secret_reference reference \<longleftrightarrow>
     take 15 reference = ''oxyn:agent-env:'' \<and> length (drop 15 reference) = 32
     \<and> list_all is_hex_digit (drop 15 reference)"

definition validate_stored_environment :: "external_agent_config \<Rightarrow> unit result" where
  "validate_stored_environment a =
     (if length (agent_cfg_env a) + length (agent_cfg_env_secret_refs a) > max_agent_env
      then Inl (EConfig ''agent has too many environment variables'')
      else if list_ex (\<lambda>(name, _). agent_env_is_secret name) (agent_cfg_env a)
      then Inl (EConfig ''agent tokens must use the system keychain'')
      else let combined = a\<lparr>agent_cfg_env := agent_cfg_env a @ agent_cfg_env_secret_refs a\<rparr>
      in case agent_validate combined of Inl e \<Rightarrow> Inl e
      | Inr _ \<Rightarrow>
        if \<not> all_new [] (map (\<lambda>(name, _). to_ascii_uppercase name) (agent_cfg_env combined))
        then Inl (EConfig ''agent environment names must be unique'')
        else if list_ex (\<lambda>(_, reference). \<not> is_agent_secret_reference reference) (agent_cfg_env_secret_refs a)
        then Inl (EConfig ''invalid agent secret reference'')
        else Inr ())"

lemma agent_validate_env:
  assumes "agent_validate a = Inr ()" "(name, v) \<in> set (agent_cfg_env a)"
  shows "trim name \<noteq> []" "CHR ''='' \<notin> set name" "\<not> obscured name" "\<not> obscured v"
    "length v \<le> max_agent_env_value_bytes"
  using assms by (auto simp: agent_validate_def list_ex_iff not_less split: if_splits)

text \<open>An accepted stored environment has no token in the clear, distinct names whatever their
  case, and only references the keychain gave out.\<close>

lemma validate_stored_environment_ok:
  assumes "validate_stored_environment a = Inr ()"
  shows "distinct (map (\<lambda>(name, _). to_ascii_uppercase name)
      (agent_cfg_env a @ agent_cfg_env_secret_refs a))"
    "(name, v) \<in> set (agent_cfg_env a) \<Longrightarrow> \<not> agent_env_is_secret name \<and> \<not> obscured v"
    "(name, reference) \<in> set (agent_cfg_env_secret_refs a) \<Longrightarrow> is_agent_secret_reference reference"
proof -
  let ?c = "a\<lparr>agent_cfg_env := agent_cfg_env a @ agent_cfg_env_secret_refs a\<rparr>"
  have ok: "\<not> list_ex (\<lambda>(name, _). agent_env_is_secret name) (agent_cfg_env a)"
    "agent_validate ?c = Inr ()"
    "all_new [] (map (\<lambda>(name, _). to_ascii_uppercase name) (agent_cfg_env ?c))"
    "\<not> list_ex (\<lambda>(_, reference). \<not> is_agent_secret_reference reference) (agent_cfg_env_secret_refs a)"
    using assms by (auto simp: validate_stored_environment_def Let_def split: if_splits sum.splits)
  show "distinct (map (\<lambda>(name, _). to_ascii_uppercase name)
      (agent_cfg_env a @ agent_cfg_env_secret_refs a))"
    using ok(3) by (simp add: all_new_iff)
  show "\<not> agent_env_is_secret name \<and> \<not> obscured v" if "(name, v) \<in> set (agent_cfg_env a)"
    using ok(1) agent_validate_env(4) [OF ok(2), of name v] that by (auto simp: list_ex_iff)
  show "is_agent_secret_reference reference" if "(name, reference) \<in> set (agent_cfg_env_secret_refs a)"
    using ok(4) that by (auto simp: list_ex_iff)
qed

end
