(* ===== verification/Executor.thy ===== *)
theory Executor
  imports Execution Declarations
begin

text \<open>
  The commands the executor runs (\<open>Executor::execute_command\<close> and the operations it calls in
  \<open>crates/oxyn-exec/src/executor.rs\<close>). One definition per branch that does more than hand an
  answer on, and \<open>execute_command\<close> that dispatches over the whole command type. What is outside
  the program (drivers, keyring, blocking pool, clock, tables of the store) answers through a
  \<open>world\<close>, one per command. A worker of the blocking pool that stops has done nothing.
\<close>

subsection \<open>What the outside answers to a command\<close>

text \<open>One write to the audit trail: whether its append fails, whether its history write succeeds,
  and whether the task stops before it reports.\<close>

record audit_answer =
  aa_append :: "oxyn_error option"
  aa_history :: bool
  aa_stopped :: bool

record gate =
  g_authorize :: "actor \<Rightarrow> command \<Rightarrow> environment \<Rightarrow> decision"
  g_environment :: "command \<Rightarrow> environment \<Rightarrow> environment"
  g_read_only :: "command \<Rightarrow> bool \<Rightarrow> bool"

definition default_gate :: "default_policy \<Rightarrow> gate" where
  "default_gate p = \<lparr>g_authorize = authorize p, g_environment = retained_environment p,
                     g_read_only = retained_read_only p\<rparr>"

record ('drv, 'v) world =
  w_run :: "'drv run_world"
  w_lib :: sql_library
  w_prover :: "'drv prover"
  w_gate :: gate
  w_redact :: "query_language \<Rightarrow> string \<Rightarrow> string"
  w_render :: "oxyn_error \<Rightarrow> string"
  w_show_duration :: "duration \<Rightarrow> string"
  w_show_count :: "nat \<Rightarrow> string"
  w_url :: "string \<Rightarrow> parsed_url option"
  w_now :: instant
  w_clock :: instant
  w_elapsed :: duration
  w_decision_write :: audit_answer
  w_outcome_write :: audit_answer
  w_runtime :: bool
  w_stopped :: bool
  w_require :: "driver_id \<Rightarrow> unit result"
  w_resolve :: "connection_config \<Rightarrow> unit result"
  w_connect :: "connection_config \<Rightarrow> 'drv result"
  w_capabilities :: "'drv \<Rightarrow> capabilities"
  w_close :: "'drv \<Rightarrow> unit result"
  w_session :: session_id
  w_set_context :: "'drv \<Rightarrow> string option \<Rightarrow> string option \<Rightarrow> unit result"
  w_context :: "'drv \<Rightarrow> 'v result"
  w_read_catalog :: "'drv \<Rightarrow> catalog_refresh_scope \<Rightarrow> unit result"
  w_catalog_gone :: bool
  w_budget :: "unit result"
  w_patch :: "unit result"
  w_preview :: "'drv \<Rightarrow> catalog_path \<Rightarrow> u32 \<Rightarrow> preview_shape \<Rightarrow> exec_request result"
  w_prepare_late :: bool
  w_value :: "'v result"
  w_inspected :: "'v option option result"
  w_loaded :: "bool result"
  w_exportable :: "unit result"
  w_exported :: "(nat \<times> u64) result"
  w_done :: "unit result"
  w_existed :: "bool result"
  w_config :: "connection_config option result"
  w_configs :: "connection_config list result"
  w_document :: "stored_document option result"
  w_update :: "query_document_update \<Rightarrow> stored_document result"
  w_corrupted :: "string \<Rightarrow> string \<Rightarrow> oxyn_error"

subsection \<open>The blocking pool\<close>

definition blocking ::
  "('drv, 'v) world \<Rightarrow> string \<Rightarrow> string \<Rightarrow> 'a result \<Rightarrow> 'a result" where
  "blocking w no_runtime worker_stopped answer =
     (if \<not> w_runtime w then Inl (EConfig no_runtime)
      else if w_stopped w then Inl (EInternal worker_stopped) else answer)"

definition local_worker :: "('drv, 'v) world \<Rightarrow> 'a result \<Rightarrow> 'a result" where
  "local_worker w = blocking w ''local library operations require the application runtime''
                      ''local library worker stopped''"

definition pool_runs :: "('drv, 'v) world \<Rightarrow> bool" where
  "pool_runs w \<longleftrightarrow> w_runtime w \<and> \<not> w_stopped w"

text \<open>A task of the store runs on the pool, and is then part of the trace.\<close>

definition store_call :: "('drv, 'v) world \<Rightarrow> string \<Rightarrow> 'drv executor \<Rightarrow> 'drv executor" where
  "store_call w name ex = (if pool_runs w then emit [StoreCalled name] ex else ex)"

definition store_answer ::
  "('drv, 'v) world \<Rightarrow> string \<Rightarrow> 'a result \<Rightarrow> ('a \<Rightarrow> 'v outcome) \<Rightarrow> 'drv executor
   \<Rightarrow> 'v outcome result \<times> 'drv executor" where
  "store_answer w name answer f ex =
     (map_sum id f (local_worker w answer), store_call w name ex)"

lemma blocking_Inr: "blocking w a b answer = Inr x \<longleftrightarrow> pool_runs w \<and> answer = Inr x"
  by (auto simp: blocking_def pool_runs_def)

lemma local_worker_Inr: "local_worker w answer = Inr x \<longleftrightarrow> pool_runs w \<and> answer = Inr x"
  by (simp add: local_worker_def blocking_Inr)

definition check_workspace :: "'drv executor \<Rightarrow> workspace_id \<Rightarrow> unit result" where
  "check_workspace ex workspace =
     (if workspace \<noteq> ex_workspace ex then Inl (EConfig ''workspace does not match this executor'')
      else Inr ())"

text \<open>\<open>check?; then\<close>.\<close>

definition guarded ::
  "unit result \<Rightarrow> ('drv executor \<Rightarrow> 'a result \<times> 'drv executor) \<Rightarrow> 'drv executor
   \<Rightarrow> 'a result \<times> 'drv executor" where
  "guarded check f ex = (case check of Inl e \<Rightarrow> (Inl e, ex) | Inr _ \<Rightarrow> f ex)"

lemma check_workspace_ok: "check_workspace ex ws = Inr () \<longleftrightarrow> ws = ex_workspace ex"
  by (simp add: check_workspace_def)

subsection \<open>Connections\<close>

text \<open>\<open>drivers.require\<close>, the credentials on the blocking pool, then \<open>Driver::connect\<close>.\<close>

definition open_driver_session ::
  "('drv, 'v) world \<Rightarrow> connection_config \<Rightarrow> 'drv executor \<Rightarrow> 'drv result \<times> 'drv executor" where
  "open_driver_session w config ex =
     (case w_require w (cfg_driver config) of Inl e \<Rightarrow> (Inl e, ex)
      | Inr _ \<Rightarrow>
        (case blocking w ''connecting requires the application runtime'' ''credential worker stopped''
                (w_resolve w config) of Inl e \<Rightarrow> (Inl e, ex)
         | Inr _ \<Rightarrow> (w_connect w config, emit [DriverConnected (cfg_id config)] ex)))"

definition connection_config_of ::
  "('drv, 'v) world \<Rightarrow> connection_id \<Rightarrow> 'drv executor \<Rightarrow> connection_config result \<times> 'drv executor" where
  "connection_config_of w c ex =
     (case ex_connections ex c of Some config \<Rightarrow> (Inr config, ex)
      | None \<Rightarrow>
        (let ex1 = store_call w ''connections.get'' ex in
         case local_worker w (w_config w) of Inl e \<Rightarrow> (Inl e, ex1)
         | Inr None \<Rightarrow> (Inl (EConfig ''this connection does not exist in the workspace''), ex1)
         | Inr (Some config) \<Rightarrow>
             (Inr config, ex1\<lparr>ex_connections := (ex_connections ex1)(cfg_id config \<mapsto> config)\<rparr>)))"

text \<open>The catalog keeps the first session that is open; a later one only replaces a closed one.\<close>

definition prefer_session :: "'drv session_slot \<Rightarrow> 'drv executor \<Rightarrow> 'drv executor" where
  "prefer_session slot ex =
     (let c = slot_connection slot;
          catalog = (case ex_catalogs ex c of Some state \<Rightarrow> state | None \<Rightarrow> connection_catalog_new);
          kept = (case Option.bind (cc_session catalog) (\<lambda>i. get_session i (ex_sessions ex)) of
                    None \<Rightarrow> False | Some s \<Rightarrow> slot_is_open s)
      in ex\<lparr>ex_catalogs := (ex_catalogs ex)
              (c \<mapsto> (if kept then catalog else catalog\<lparr>cc_session := Some (slot_id slot)\<rparr>))\<rparr>)"

definition connect ::
  "('drv, 'v) world \<Rightarrow> connection_id \<Rightarrow> 'drv executor \<Rightarrow> 'v outcome result \<times> 'drv executor" where
  "connect w c ex =
     (case connection_config_of w c ex of (Inl e, ex1) \<Rightarrow> (Inl e, ex1)
      | (Inr config, ex1) \<Rightarrow>
        (case open_driver_session w config ex1 of (Inl e, ex2) \<Rightarrow> (Inl e, ex2)
         | (Inr session, ex2) \<Rightarrow>
           (let slot = slot_new (w_session w) (w_now w) (w_capabilities w) c session;
                ex3 = ex2\<lparr>ex_sessions := insert_session slot (ex_sessions ex2)\<rparr>
            in (Inr (Connected c (slot_id slot)
                       (slot_transaction_state (rw_transaction (w_run w)) slot)),
                prefer_session slot ex3))))"

text \<open>The session of a test never enters the registry.\<close>

definition test_connection ::
  "('drv, 'v) world \<Rightarrow> connection_config \<Rightarrow> 'drv executor \<Rightarrow> 'v outcome result \<times> 'drv executor" where
  "test_connection w config ex =
     (case open_driver_session w config ex of (Inl e, ex1) \<Rightarrow> (Inl e, ex1)
      | (Inr session, ex1) \<Rightarrow>
          (Inr (ConnectionTested (cfg_id config)), emit [DriverClosed (w_session w)] ex1))"

text \<open>Closing each drained slot; what the server answers is only logged.\<close>

definition close_slots :: "'drv session_slot list \<Rightarrow> 'drv executor \<Rightarrow> 'drv executor" where
  "close_slots slots ex =
     emit (map (\<lambda>s. DriverClosed (slot_id s)) (filter (\<lambda>s. slot_session s \<noteq> None) slots)) ex"

definition cancel_connection_in ::
  "('drv, 'v) world \<Rightarrow> connection_id \<Rightarrow> 'drv executor \<Rightarrow> 'drv executor" where
  "cancel_connection_in w c ex =
     (case cancel_connection (rw_cancel (w_run w)) (ex_sessions ex) c (ex_running ex) (ex_tokens ex) of
        (reports, heap, effects) \<Rightarrow> emit (cancel_trace effects) (ex\<lparr>ex_tokens := heap\<rparr>))"

definition disconnect ::
  "('drv, 'v) world \<Rightarrow> connection_id \<Rightarrow> 'drv executor \<Rightarrow> 'v outcome result \<times> 'drv executor" where
  "disconnect w c ex =
     (let ex1 = cancel_connection_in w c ex;
          ex2 = ex1\<lparr>ex_catalogs := (ex_catalogs ex1)(c := None)\<rparr>;
          (slots, rest) = drain_connection c (ex_sessions ex2)
      in (Inr (Disconnected c (length slots)), close_slots slots (ex2\<lparr>ex_sessions := rest\<rparr>)))"

definition close_session ::
  "('drv, 'v) world \<Rightarrow> connection_id \<Rightarrow> session_id \<Rightarrow> 'drv executor
   \<Rightarrow> 'v outcome result \<times> 'drv executor" where
  "close_session w c s ex =
     (case get_session s (ex_sessions ex) of None \<Rightarrow> (Inr (SessionClosed s), ex)
      | Some slot \<Rightarrow>
        if slot_connection slot \<noteq> c
        then (Inl (EPolicyDenied ''session does not belong to this connection''), ex)
        else
          (let closing = insert_session (begin_close slot) (ex_sessions ex);
               (reports, heap, effects) =
                 cancel_each (rw_cancel (w_run w)) closing (running_for_session s (ex_running ex))
                   (ex_running ex) (ex_tokens ex);
               ex1 = emit (cancel_trace effects)
                       (ex\<lparr>ex_sessions := snd (remove_session s closing), ex_tokens := heap\<rparr>);
               ex2 = close_slots [begin_close slot] ex1
           in case fst (slot_close (w_close w) (begin_close slot)) of
                Inl e \<Rightarrow> (Inl e, ex2)
              | Inr _ \<Rightarrow> (Inr (SessionClosed s), ex2)))"

definition save_connection ::
  "('drv, 'v) world \<Rightarrow> connection_config \<Rightarrow> 'drv executor \<Rightarrow> 'v outcome result \<times> 'drv executor" where
  "save_connection w config ex =
     (let ex1 = store_call w ''connections.save'' ex in
      case local_worker w (w_done w) of Inl e \<Rightarrow> (Inl e, ex1)
      | Inr _ \<Rightarrow> (Inr (ConnectionSaved (cfg_id config)),
                 ex1\<lparr>ex_connections := (ex_connections ex1)(cfg_id config \<mapsto> config)\<rparr>))"

definition delete_connection ::
  "('drv, 'v) world \<Rightarrow> connection_id \<Rightarrow> 'drv executor \<Rightarrow> 'v outcome result \<times> 'drv executor" where
  "delete_connection w c ex =
     (let ex1 = cancel_connection_in w c ex;
          (slots, rest) = drain_connection c (ex_sessions ex1);
          ex2 = close_slots slots (ex1\<lparr>ex_sessions := rest\<rparr>);
          ex3 = store_call w ''connections.delete'' ex2
      in case local_worker w (w_existed w) of Inl e \<Rightarrow> (Inl e, ex3)
         | Inr existed \<Rightarrow> (Inr (ConnectionDeleted c existed),
                           ex3\<lparr>ex_connections := (ex_connections ex3)(c := None)\<rparr>))"

text \<open>The cache of configurations outside any command.\<close>

definition register_connection :: "connection_config \<Rightarrow> 'drv executor \<Rightarrow> 'drv executor" where
  "register_connection config ex = ex\<lparr>ex_connections := (ex_connections ex)(cfg_id config \<mapsto> config)\<rparr>"

definition forget_connection :: "connection_id \<Rightarrow> 'drv executor \<Rightarrow> 'drv executor" where
  "forget_connection c ex = ex\<lparr>ex_connections := (ex_connections ex)(c := None)\<rparr>"

definition load_connections ::
  "('drv, 'v) world \<Rightarrow> 'drv executor \<Rightarrow> nat result \<times> 'drv executor" where
  "load_connections w ex =
     (case w_configs w of Inl e \<Rightarrow> (Inl e, ex)
      | Inr configs \<Rightarrow> (Inr (length configs), fold register_connection configs ex))"

subsection \<open>Session context and catalog\<close>

definition config_error :: "catalog_path_error \<Rightarrow> oxyn_error" where
  "config_error e = EConfig (path_error_display e)"

definition set_session_context ::
  "('drv, 'v) world \<Rightarrow> token \<Rightarrow> connection_id \<Rightarrow> session_id \<Rightarrow> string option \<Rightarrow> string option
   \<Rightarrow> 'drv executor \<Rightarrow> 'v outcome result \<times> 'drv executor" where
  "set_session_context w cancel c s catalog namespace ex =
     (case get_session s (ex_sessions ex) of None \<Rightarrow> (Inl (EPolicyDenied ''unknown session''), ex)
      | Some slot \<Rightarrow>
        if slot_connection slot \<noteq> c
        then (Inl (EPolicyDenied ''session does not belong to this connection''), ex)
        else if \<not> caps_contains (slot_capabilities slot) SESSION_CONTEXT
        then (Inl (ENotSupported ''session context''), ex)
        else if Option.bind (ex_catalogs ex c) cc_session = Some s
        then (Inl (EPolicyDenied (''this session serves the catalog and previews; ''
                @ ''open a console to change context'')), ex)
        else (case from_levels catalog namespace None of Inl e \<Rightarrow> (Inl (config_error e), ex)
        | Inr path \<Rightarrow>
          (let stopped = is_cancelled (ex_tokens ex) cancel;
               reached = slot_is_open slot \<and> \<not> stopped;
               ex1 = (if reached then emit [DriverContext s] ex else ex)
           in case with_session stopped slot
                     (\<lambda>d. w_set_context w d (cp_catalog path) (cp_namespace path)) of
                Inl e \<Rightarrow> (Inl e, ex1)
              | Inr _ \<Rightarrow> (map_sum id (SessionContextSet s) (with_session stopped slot (w_context w)), ex1))))"

definition catalog_slot :: "connection_id \<Rightarrow> connection_catalog \<Rightarrow> 'drv session_registry \<Rightarrow> 'drv session_slot option" where
  "catalog_slot c state sessions =
     (case (case cc_session state of
              Some i \<Rightarrow> get_session i sessions
            | None \<Rightarrow> find slot_is_open (sessions_for_connection c sessions)) of
        None \<Rightarrow> None
      | Some slot \<Rightarrow> if slot_is_open slot then Some slot else None)"

text \<open>A refresh publishes only while its connection still has the catalog it read for
  (\<open>w_catalog_gone\<close>: cancelled, closed or replaced during the read).\<close>

definition refresh_catalog ::
  "('drv, 'v) world \<Rightarrow> token \<Rightarrow> command_id \<Rightarrow> connection_id \<Rightarrow> catalog_refresh_scope
   \<Rightarrow> 'drv executor \<Rightarrow> 'v outcome result \<times> 'drv executor" where
  "refresh_catalog w cancel i c scope ex =
     (case ex_catalogs ex c of None \<Rightarrow> (Inl (EConnection ''no open catalog session''), ex)
      | Some state \<Rightarrow>
        if is_cancelled (ex_tokens ex) cancel then (Inl ECancelled, ex)
        else (case catalog_slot c state (ex_sessions ex) of
          None \<Rightarrow> (Inl (EConnection ''no open catalog session''), ex)
        | Some slot \<Rightarrow>
          (let ex1 = emit [DriverCatalogRead (slot_id slot)] ex in
           case with_session False slot (\<lambda>d. w_read_catalog w d scope) of Inl e \<Rightarrow> (Inl e, ex1)
           | Inr _ \<Rightarrow>
             if w_catalog_gone w then (Inl ECancelled, ex1)
             else (case w_budget w of Inl e \<Rightarrow> (Inl e, ex1)
             | Inr _ \<Rightarrow>
               (case w_patch w of Inl e \<Rightarrow> (Inl e, ex1)
                | Inr _ \<Rightarrow>
                  (Inr (CatalogRefreshed c scope),
                   publish i (Some c) CatalogUpdated
                     (ex1\<lparr>ex_catalogs := (ex_catalogs ex1)
                        (c \<mapsto> state\<lparr>cc_cache := cc_cache state @ [CachePatched scope]\<rparr>)\<rparr>)))))))"

definition describe_catalog ::
  "connection_id \<Rightarrow> string option \<Rightarrow> 'drv executor \<Rightarrow> 'v outcome result" where
  "describe_catalog c focus ex =
     (if (case focus of None \<Rightarrow> False | Some f \<Rightarrow> length f > max_catalog_focus_bytes)
      then Inl (EConfig ''a catalog focus is limited to 256 bytes'')
      else if ex_catalogs ex c = None
      then Inl (EConfig (''this connection is not open, so it has no catalog: the user must ''
                  @ ''connect to it first''))
      else Inr (CatalogDescribed c))"

subsection \<open>Previews\<close>

definition prepare_within ::
  "('drv, 'v) world \<Rightarrow> 'drv session_slot \<Rightarrow> catalog_path \<Rightarrow> u32 \<Rightarrow> preview_shape \<Rightarrow> token
   \<Rightarrow> deadline option \<Rightarrow> 'drv executor \<Rightarrow> exec_request result \<times> 'drv executor" where
  "prepare_within w slot path limit shape cancel dl ex =
     (let stopped = is_cancelled (ex_tokens ex) cancel;
          answer = with_session stopped slot (\<lambda>d. w_preview w d path limit shape);
          ex1 = (if slot_is_open slot \<and> \<not> stopped then emit [DriverPrepared (slot_id slot)] ex else ex)
      in case dl of None \<Rightarrow> (answer, ex1)
         | Some d \<Rightarrow>
             (let (ct, heap) = token_child cancel (ex_tokens ex1) in
              if w_prepare_late w
              then (Inl (ETimeout (dl_after d)), ex1\<lparr>ex_tokens := cancel_token ct heap\<rparr>)
              else (answer, ex1\<lparr>ex_tokens := heap\<rparr>)))"

definition preview_refusal :: "exec_request \<Rightarrow> oxyn_error" where
  "preview_refusal request =
     EPolicyDenied
       (if req_intent request = Unknown
        then ''this preview filter could not be read as a condition; check its syntax''
        else ''driver preview request is not read-only'')"

text \<open>What a preview runs, whatever limits the driver asked for: a read, within the budget, with
  one row more than the limit.\<close>

definition preview_bounds :: "u32 \<Rightarrow> exec_request \<Rightarrow> exec_request" where
  "preview_bounds limit request =
     request\<lparr>limits := \<lparr>max_rows = Some (unat limit + 1),
                         timeout = Some (case timeout (limits request) of None \<Rightarrow> default_timeout
                                         | Some asked \<Rightarrow> min asked default_timeout),
                         limits_read_only = True\<rparr>\<rparr>"

definition preview_relation ::
  "('drv, 'v) world \<Rightarrow> token \<Rightarrow> command_id \<Rightarrow> connection_id \<Rightarrow> session_id \<Rightarrow> string option
   \<Rightarrow> string option \<Rightarrow> string \<Rightarrow> u32 \<Rightarrow> preview_shape \<Rightarrow> 'drv executor
   \<Rightarrow> 'v outcome result \<times> 'drv executor" where
  "preview_relation w cancel i c s catalog namespace relation limit shape ex =
     (if \<not> (1 \<le> limit \<and> limit \<le> 1000)
      then (Inl (EConfig ''preview limit must be in 1..=1000''), ex)
      else (case path_for_relation catalog namespace relation of Inl e \<Rightarrow> (Inl (config_error e), ex)
      | Inr path \<Rightarrow>
        (case get_session s (ex_sessions ex) of
          None \<Rightarrow> (Inl (EConnection ''preview session is not open''), ex)
        | Some slot \<Rightarrow>
          if slot_connection slot \<noteq> c
          then (Inl (EConfig ''preview session belongs to another connection''), ex)
          else if sh_sort shape \<noteq> [] \<and> \<not> caps_contains (slot_capabilities slot) PREVIEW_SORT
          then (Inl (ENotSupported ''preview sort''), ex)
          else if shape_predicate shape \<noteq> None \<and> \<not> caps_contains (slot_capabilities slot) PREVIEW_FILTER
          then (Inl (ENotSupported ''preview filter''), ex)
          else
            (case prepare_within w slot path limit shape cancel
                    (deadline_starting_at (w_now w) default_timeout) ex of
               (Inl e, ex1) \<Rightarrow> (Inl e, ex1)
             | (Inr prepared, ex1) \<Rightarrow>
               (let request = reclassified_request (w_lib w) (w_prover w) prepared (Some slot) in
                if request_is_mutating request then (Inl (preview_refusal request), ex1)
                else execute_statement (w_render w) (w_run w) i c s (preview_bounds limit request) cancel
                       \<lparr>run_preview_limit = Some (unat limit), run_started = w_now w\<rparr> ex1)))))"

subsection \<open>Results\<close>

definition result_on ::
  "connection_id \<Rightarrow> result_id \<Rightarrow> 'drv executor \<Rightarrow> result_buffer option result" where
  "result_on c r ex =
     (case retained_get r (ex_results ex) of None \<Rightarrow> Inr None
      | Some entry \<Rightarrow>
        if sr_connection entry \<noteq> c
        then Inl (EPolicyDenied ''result does not belong to this connection'')
        else Inr (Some (sr_buffer entry)))"

definition result_on_connection ::
  "connection_id \<Rightarrow> result_id \<Rightarrow> 'drv executor \<Rightarrow> result_buffer result" where
  "result_on_connection c r ex =
     (case result_on c r ex of Inl e \<Rightarrow> Inl e
      | Inr None \<Rightarrow> Inl (EConfig ''result is no longer available'')
      | Inr (Some buffer) \<Rightarrow> Inr buffer)"

definition forget_result ::
  "result_id \<Rightarrow> 'drv executor \<Rightarrow> result_buffer option \<times> 'drv executor" where
  "forget_result r ex =
     (case retained_remove r (ex_results ex) of (entry, results) \<Rightarrow>
        (map_option sr_buffer entry, ex\<lparr>ex_results := results\<rparr>))"

definition inspect_result_value ::
  "('drv, 'v) world \<Rightarrow> connection_id \<Rightarrow> result_id \<Rightarrow> 'drv executor \<Rightarrow> 'v outcome result" where
  "inspect_result_value w c r ex =
     (case result_on_connection c r ex of Inl e \<Rightarrow> Inl e
      | Inr buffer \<Rightarrow>
        (case blocking w ''value inspection requires the application runtime''
                ''value inspection worker stopped'' (w_inspected w) of Inl e \<Rightarrow> Inl e
         | Inr None \<Rightarrow> Inl (EConfig ''selected row is no longer available'')
         | Inr (Some None) \<Rightarrow> Inl (EConfig ''selected column is no longer available'')
         | Inr (Some (Some page)) \<Rightarrow> Inr (ValueInspected page)))"

definition read_result_page ::
  "('drv, 'v) world \<Rightarrow> connection_id \<Rightarrow> result_id \<Rightarrow> nat \<Rightarrow> 'drv executor \<Rightarrow> 'v outcome result" where
  "read_result_page w c r batch ex =
     (case result_on_connection c r ex of Inl e \<Rightarrow> Inl e
      | Inr buffer \<Rightarrow>
        (case blocking w ''result page loading requires the application runtime''
                ''result page worker stopped'' (w_loaded w) of Inl e \<Rightarrow> Inl e
         | Inr loaded \<Rightarrow>
             if \<not> loaded then Inl (EConfig ''result page is no longer available'')
             else Inr (ResultPageRead r batch)))"

fun is_supported :: "export_format \<Rightarrow> bool" where
  "is_supported Csv = True"
| "is_supported Tsv = True"
| "is_supported Json = True"
| "is_supported JsonLines = True"
| "is_supported ArrowIpc = True"
| "is_supported _ = False"

definition export_result ::
  "('drv, 'v) world \<Rightarrow> connection_id \<Rightarrow> result_id \<Rightarrow> export_format \<Rightarrow> string \<Rightarrow> 'drv executor
   \<Rightarrow> 'v outcome result \<times> 'drv executor" where
  "export_result w c r format destination ex =
     (case result_on_connection c r ex of Inl e \<Rightarrow> (Inl e, ex)
      | Inr buffer \<Rightarrow>
        if \<not> is_supported format then (Inl (ENotSupported (''export:'' @ extension format)), ex)
        else (case w_exportable w of Inl e \<Rightarrow> (Inl e, ex)
        | Inr _ \<Rightarrow>
          (map_sum id (\<lambda>(rows, bytes). Exported r rows bytes)
             (blocking w ''export requires the application runtime'' ''export worker stopped''
                (w_exported w)),
           if pool_runs w then emit [FileWritten destination] ex else ex)))"

subsection \<open>Documents and history\<close>

definition validate_layout_change :: "window_layout_change \<Rightarrow> unit result" where
  "validate_layout_change change =
     (case change of SaveLayout layout \<Rightarrow> layout_validate layout | RemoveLayout _ \<Rightarrow> Inr ())"

definition open_document ::
  "('drv, 'v) world \<Rightarrow> workspace_id \<Rightarrow> 'drv executor \<Rightarrow> 'v outcome result \<times> 'drv executor" where
  "open_document w workspace ex =
     (case local_worker w (w_document w) of Inl e \<Rightarrow> Inl e
      | Inr found \<Rightarrow>
        (case found of None \<Rightarrow> Inl (EConfig ''document does not exist in this workspace'')
         | Some doc \<Rightarrow>
             if sd_workspace doc \<noteq> workspace
             then Inl (EConfig ''document does not exist in this workspace'')
             else Inr (DocumentOpened doc)),
      store_call w ''documents.get'' ex)"

text \<open>\<open>checked_add(1)\<close> on \<open>u64\<close>.\<close>

definition next_revision :: "stored_document \<Rightarrow> u64 option" where
  "next_revision doc =
     (let latest = max (sd_revision doc) (sd_saved_revision doc)
      in if latest = - 1 then None else Some (latest + 1))"

definition document_write ::
  "('drv, 'v) world \<Rightarrow> workspace_id \<Rightarrow> document_id \<Rightarrow> string \<Rightarrow> document_id result" where
  "document_write w workspace document written =
     (case w_document w of Inl e \<Rightarrow> Inl e
      | Inr found \<Rightarrow>
        (case Option.bind found (\<lambda>doc. if sd_workspace doc = workspace then Some doc else None) of
          None \<Rightarrow> Inl (w_corrupted w ''documents'' ''document is not in this workspace'')
        | Some doc \<Rightarrow>
          (case next_revision doc of
            None \<Rightarrow> Inl (w_corrupted w ''documents.revision'' ''revision exhausted'')
          | Some revision \<Rightarrow>
            (let update = \<lparr>doc_id = document, doc_revision = revision, doc_expected_revision = None,
                           doc_title = sd_title doc, doc_language = sd_language doc,
                           doc_text = written, doc_connection = sd_connection doc,
                           doc_save_named = sd_is_saved doc, doc_is_open = sd_is_open doc,
                           doc_provenance = None\<rparr>
             in case w_update w update of Inl e \<Rightarrow> Inl e
                | Inr saved \<Rightarrow>
                  if sd_content saved \<noteq> doc_text update \<or> sd_revision saved \<noteq> doc_revision update
                  then Inl (w_corrupted w ''documents.revision'' ''document changed while writing'')
                  else Inr (sd_id saved)))))"

definition read_history_entry ::
  "('drv, 'v) world \<Rightarrow> i64 \<Rightarrow> 'drv executor \<Rightarrow> 'v outcome result \<times> 'drv executor" where
  "read_history_entry w entry ex =
     (case local_worker w (w_done w) of Inl e \<Rightarrow> Inl e
      | Inr _ \<Rightarrow>
        (case history_get (unat entry) (ex_history ex) of
           None \<Rightarrow> Inl (EConfig ''history entry is no longer available'')
         | Some r \<Rightarrow> Inr (HistoryEntryRead r)),
      store_call w ''history.get'' ex)"

definition reconcile_history_entry ::
  "('drv, 'v) world \<Rightarrow> i64 \<Rightarrow> 'drv executor \<Rightarrow> 'v outcome result \<times> 'drv executor" where
  "reconcile_history_entry w entry ex =
     (let ex1 = store_call w ''history.reconcile'' ex in
      case local_worker w (w_done w) of Inl e \<Rightarrow> (Inl e, ex1)
      | Inr _ \<Rightarrow>
        (case history_reconcile (w_clock w) (unat entry) (ex_started_at ex1) (ex_history ex1) of
          (verdict, table) \<Rightarrow>
            ((case verdict of
                Recorded \<Rightarrow> Inr (HistoryEntryReconciled entry)
              | StillRunning \<Rightarrow>
                  Inl (EConfig ''this write is still running; wait for its outcome before reconciling it'')
              | NotNeeded \<Rightarrow> Inl (EConfig ''history entry is gone or has no unresolved outcome'')),
             ex1\<lparr>ex_history := table\<rparr>)))"

definition unless_cancelled ::
  "token \<Rightarrow> ('drv executor \<Rightarrow> 'a result \<times> 'drv executor) \<Rightarrow> 'drv executor
   \<Rightarrow> 'a result \<times> 'drv executor" where
  "unless_cancelled cancel f ex =
     (if is_cancelled (ex_tokens ex) cancel then (Inl ECancelled, ex) else f ex)"

subsection \<open>The dispatch over the commands\<close>

fun execute_command ::
  "('drv, 'v) world \<Rightarrow> token \<Rightarrow> command_id \<Rightarrow> command \<Rightarrow> 'drv executor
   \<Rightarrow> 'v outcome result \<times> 'drv executor" where
  "execute_command w cancel i (Connect c) ex = connect w c ex"
| "execute_command w cancel i (TestConnection config) ex = test_connection w config ex"
| "execute_command w cancel i (Disconnect c) ex = disconnect w c ex"
| "execute_command w cancel i (CloseSession c s) ex = unless_cancelled cancel (close_session w c s) ex"
| "execute_command w cancel i (SetSessionContext c s catalog namespace) ex =
     unless_cancelled cancel (set_session_context w cancel c s catalog namespace) ex"
| "execute_command w cancel i (Execute c s request) ex =
     execute_statement (w_render w) (w_run w) i c s request cancel
       \<lparr>run_preview_limit = None, run_started = w_now w\<rparr> ex"
| "execute_command w cancel i (PreviewRelation c s catalog namespace relation limit shape) ex =
     preview_relation w cancel i c s catalog namespace relation limit shape ex"
| "execute_command w cancel i (Cancel c statement) ex =
     (case cancel_in (rw_cancel (w_run w)) statement ex of (report, ex1) \<Rightarrow> (Inr (OutCancelled report), ex1))"
| "execute_command w cancel i (RefreshCatalog c) ex = refresh_catalog w cancel i c Root ex"
| "execute_command w cancel i (RefreshCatalogScope c scope) ex = refresh_catalog w cancel i c scope ex"
| "execute_command w cancel i (DescribeCatalog c focus) ex = (describe_catalog c focus ex, ex)"
| "execute_command w cancel i (InspectResultValue c r row column offset) ex =
     (inspect_result_value w c r ex, ex)"
| "execute_command w cancel i (ReadResultPage c r batch) ex = (read_result_page w c r batch ex, ex)"
| "execute_command w cancel i (Export c r format destination) ex =
     export_result w c r format destination ex"
| "execute_command w cancel i (ReadWorkspacePreferences ws) ex =
     guarded (check_workspace ex ws) (\<lambda>ex.
       (map_sum id WorkspacePreferences
          (blocking w ''preference loading requires the application runtime''
             ''preference worker stopped'' (w_value w)),
        store_call w ''preferences.load'' ex)) ex"
| "execute_command w cancel i (WriteWorkspacePreferences ws snapshot) ex =
     guarded (check_workspace ex ws) (guarded (snapshot_validate snapshot) (\<lambda>ex.
       (map_sum id WorkspacePreferences
          (blocking w ''preference saving requires the application runtime''
             ''preference worker stopped'' (w_value w)),
        store_call w ''preferences.save'' ex))) ex"
| "execute_command w cancel i (WriteWindowLayout ws change) ex =
     guarded (check_workspace ex ws) (guarded (validate_layout_change change) (\<lambda>ex.
       (map_sum id (\<lambda>_. WindowLayoutWritten)
          (blocking w ''window layout saving requires the application runtime''
             ''window layout worker stopped'' (w_done w)),
        store_call w ''windows.write'' ex))) ex"
| "execute_command w cancel i (ListQueryDocuments ws filt) ex =
     guarded (check_workspace ex ws) (guarded (document_filter_validate filt)
       (store_answer w ''documents.page'' (w_value w) QueryDocumentsListed)) ex"
| "execute_command w cancel i (SaveQueryDocument ws update) ex =
     guarded (check_workspace ex ws) (guarded (document_validate update)
       (store_answer w ''documents.update'' (w_update w update) DocumentOpened)) ex"
| "execute_command w cancel i (CloseQueryDocument expected ws document revision discard) ex =
     guarded (check_workspace ex ws)
       (store_answer w ''documents.close'' (w_done w) (\<lambda>_. DocumentClosed document)) ex"
| "execute_command w cancel i (DeleteQueryDocument ws document revision) ex =
     guarded (check_workspace ex ws)
       (store_answer w ''documents.delete'' (w_done w) (\<lambda>_. DocumentClosed document)) ex"
| "execute_command w cancel i (ReadHistory filt) ex =
     guarded (history_filter_validate filt)
       (store_answer w ''history.page'' (w_value w) HistoryListed) ex"
| "execute_command w cancel i (ReadHistoryEntry entry) ex = read_history_entry w entry ex"
| "execute_command w cancel i (ReconcileHistoryEntry entry) ex = reconcile_history_entry w entry ex"
| "execute_command w cancel i (ListHistoryConnections ws filt) ex =
     guarded (check_workspace ex ws) (guarded (history_connection_filter_validate filt)
       (store_answer w ''history.connections'' (w_value w) HistoryConnectionsListed)) ex"
| "execute_command w cancel i (OpenRetainedResult c r) ex =
     (map_sum id (RetainedResultOpened r) (result_on_connection c r ex), ex)"
| "execute_command w cancel i (OpenDocument ws document) ex =
     guarded (check_workspace ex ws) (open_document w ws) ex"
| "execute_command w cancel i (WriteDocument ws document written) ex =
     guarded (check_workspace ex ws)
       (store_answer w ''documents.write'' (document_write w ws document written) DocumentWritten) ex"
| "execute_command w cancel i (CreateConnection config) ex = save_connection w config ex"
| "execute_command w cancel i (UpdateConnection config) ex = save_connection w config ex"
| "execute_command w cancel i (DeleteConnection c) ex = delete_connection w c ex"
| "execute_command w cancel i ListAiProviders ex =
     store_answer w ''providers.list'' (w_value w) AiProvidersListed ex"
| "execute_command w cancel i (SaveAiProvider config) ex =
     guarded (provider_validate (w_url w) config)
       (store_answer w ''providers.save'' (w_done w) (\<lambda>_. AiProviderSaved (prov_cfg_id config))) ex"
| "execute_command w cancel i (RemoveAiProvider p) ex =
     store_answer w ''providers.remove'' (w_existed w) (AiProviderRemoved p) ex"
| "execute_command w cancel i ListExternalAgents ex =
     store_answer w ''external_agents.list'' (w_value w) ExternalAgentsListed ex"
| "execute_command w cancel i (SaveExternalAgent agent) ex =
     guarded (agent_validate agent)
       (store_answer w ''external_agents.save'' (w_done w) (\<lambda>_. ExternalAgentSaved (agent_cfg_id agent))) ex"
| "execute_command w cancel i (RemoveExternalAgent p) ex =
     store_answer w ''external_agents.remove'' (w_existed w) (ExternalAgentRemoved p) ex"

end
