(* ===== verification/Command_Effects.thy ===== *)
theory Command_Effects
  imports Executor
begin

text \<open>
  What each command of the executor may do outside: the frame of \<open>execute_command\<close>. A command
  reaches the driver, the store or a file only as \<open>may_cause\<close> says, and never writes the audit
  trail itself.
\<close>

subsection \<open>The frame of a command\<close>

text \<open>A preview runs a read under a read-only limit, within the budget, on the session it names.\<close>

definition preview_runs :: "command \<Rightarrow> session_id \<Rightarrow> exec_request \<Rightarrow> bool" where
  "preview_runs cmd s request \<longleftrightarrow>
     (case cmd of
        PreviewRelation c s' catalog namespace relation limit shape \<Rightarrow>
          s' = s \<and> \<not> request_is_mutating request \<and> limits_read_only (limits request)
          \<and> max_rows (limits request) = Some (unat limit + 1) \<and> limit \<le> 1000
          \<and> (\<exists>t \<le> default_timeout. timeout (limits request) = Some t)
      | _ \<Rightarrow> False)"

definition execute_runs :: "command \<Rightarrow> session_id \<Rightarrow> exec_request \<Rightarrow> bool" where
  "execute_runs cmd s request \<longleftrightarrow>
     (\<exists>c. cmd = Execute c s request) \<and> \<not> (request_is_mutating request \<and> limits_read_only (limits request))"

fun stops_executions :: "command \<Rightarrow> bool" where
  "stops_executions (Execute _ _ _) = True"
| "stops_executions (PreviewRelation _ _ _ _ _ _ _) = True"
| "stops_executions (Cancel _ _) = True"
| "stops_executions cmd = False"

fun closes_sessions :: "command \<Rightarrow> bool" where
  "closes_sessions (Disconnect _) = True"
| "closes_sessions (CloseSession _ _) = True"
| "closes_sessions (DeleteConnection _) = True"
| "closes_sessions (TestConnection _) = True"
| "closes_sessions cmd = False"

fun reads_catalog :: "command \<Rightarrow> bool" where
  "reads_catalog (RefreshCatalog _) = True"
| "reads_catalog (RefreshCatalogScope _ _) = True"
| "reads_catalog cmd = False"

fun opens_connection :: "command \<Rightarrow> bool" where
  "opens_connection (Connect _) = True"
| "opens_connection (TestConnection _) = True"
| "opens_connection cmd = False"

text \<open>Connecting looks its configuration up in the store when the executor does not hold it.\<close>

fun reads_configuration :: "command \<Rightarrow> bool" where
  "reads_configuration (Connect _) = True"
| "reads_configuration cmd = False"

fun exports_to :: "command \<Rightarrow> string option" where
  "exports_to (Export _ _ _ destination) = Some destination"
| "exports_to cmd = None"

definition may_cause :: "'drv session_registry \<Rightarrow> command \<Rightarrow> exec_effect \<Rightarrow> bool" where
  "may_cause sessions cmd e \<longleftrightarrow>
     (case e of
        Published _ _ _ \<Rightarrow> True
      | DriverConnected _ \<Rightarrow> opens_connection cmd
      | DriverExecuted s request \<Rightarrow>
          (execute_runs cmd s request \<or> preview_runs cmd s request)
          \<and> (\<exists>slot. get_session s sessions = Some slot \<and> slot_is_open slot
               \<and> target_connection cmd = Some (slot_connection slot))
      | DriverPrepared s \<Rightarrow> (\<exists>c k n r l sh. cmd = PreviewRelation c s k n r l sh)
      | DriverContext s \<Rightarrow> is_set_context cmd
      | DriverCatalogRead _ \<Rightarrow> reads_catalog cmd
      | DriverCancelAsked _ _ \<Rightarrow> stops_executions cmd \<or> closes_sessions cmd
      | DriverClosed _ \<Rightarrow> closes_sessions cmd
      | StoreCalled _ \<Rightarrow> \<not> touches_database cmd \<or> reads_configuration cmd
      | FileWritten destination \<Rightarrow> exports_to cmd = Some destination
      | _ \<Rightarrow> False)"

subsection \<open>Each operation stays within it\<close>

lemma store_call_grows [effect_frames]:
  "\<not> touches_database cmd \<or> reads_configuration cmd \<Longrightarrow>
   grows (may_cause sessions cmd) ex (store_call w name ex)"
  by (auto simp: store_call_def grows_def may_cause_def)

lemma store_answer_grows [effect_frames]:
  "\<not> touches_database cmd \<Longrightarrow>
   grows (may_cause sessions cmd) ex (snd (store_answer w name answer f ex))"
  by (simp add: store_answer_def store_call_grows)

lemma guarded_grows [effect_frames]:
  "grows P ex (snd (f ex)) \<Longrightarrow> grows P ex (snd (guarded check f ex))"
  by (simp add: guarded_def split: sum.split)

lemma unless_cancelled_grows [effect_frames]:
  "grows P ex (snd (f ex)) \<Longrightarrow> grows P ex (snd (unless_cancelled cancel f ex))"
  by (simp add: unless_cancelled_def)

lemma open_driver_session_grows:
  "opens_connection cmd \<Longrightarrow>
   grows (may_cause sessions cmd) ex (snd (open_driver_session w config ex))"
  by (auto simp: open_driver_session_def grows_def may_cause_def split: sum.split)

lemma connection_config_of_grows:
  assumes "reads_configuration cmd"
  shows "grows (may_cause sessions cmd) ex (snd (connection_config_of w c ex))"
proof -
  have "grows (may_cause sessions cmd) ex (store_call w ''connections.get'' ex)"
    by (rule store_call_grows) (simp add: assms)
  then show ?thesis
    by (auto simp: connection_config_of_def Let_def grows_def split: option.split sum.split)
qed

lemma prefer_session_trace [simp]: "ex_trace (prefer_session slot ex) = ex_trace ex"
  by (simp add: prefer_session_def Let_def)

lemma connect_grows [effect_frames]: "grows (may_cause sessions (Connect c)) ex (snd (connect w c ex))"
proof -
  obtain r ex1 where a: "connection_config_of w c ex = (r, ex1)" by fastforce
  have g: "grows (may_cause sessions (Connect c)) ex ex1"
    using connection_config_of_grows [of "Connect c" sessions ex w c] a by simp
  show ?thesis
  proof (cases r)
    case (Inr config)
    obtain r' ex2 where b: "open_driver_session w config ex1 = (r', ex2)" by fastforce
    have "grows (may_cause sessions (Connect c)) ex1 ex2"
      using open_driver_session_grows [of "Connect c" sessions ex1 w config] b by simp
    with g have "grows (may_cause sessions (Connect c)) ex ex2" by (rule grows_trans)
    then show ?thesis
      using a b Inr by (cases r') (auto simp: connect_def Let_def grows_def)
  qed (use a g in \<open>simp add: connect_def\<close>)
qed

lemma close_slots_grows:
  "closes_sessions cmd \<Longrightarrow> grows (may_cause sessions cmd) ex (close_slots slots ex)"
  by (auto simp: close_slots_def grows_def may_cause_def list_all_iff)

lemma cancel_trace_may_cause:
  "stops_executions cmd \<or> closes_sessions cmd \<Longrightarrow>
   list_all (may_cause sessions cmd) (cancel_trace effects)"
  by (rule list_all_cancel_trace) (simp add: may_cause_def)

lemma cancel_connection_in_grows:
  "closes_sessions cmd \<Longrightarrow> grows (may_cause sessions cmd) ex (cancel_connection_in w c ex)"
  by (auto simp: cancel_connection_in_def grows_def cancel_trace_may_cause split: prod.split)

lemma test_connection_grows [effect_frames]:
  "grows (may_cause sessions (TestConnection config)) ex (snd (test_connection w config ex))"
  using open_driver_session_grows [of "TestConnection config" sessions ex w config]
  by (auto simp: test_connection_def grows_def may_cause_def split: prod.split sum.split)

lemma disconnect_grows [effect_frames]:
  "grows (may_cause sessions (Disconnect c)) ex (snd (disconnect w c ex))"
proof -
  obtain slots rest where d: "drain_connection c (ex_sessions (cancel_connection_in w c ex)) = (slots, rest)"
    by fastforce
  let ?ex2 = "(cancel_connection_in w c ex)\<lparr>ex_catalogs := (ex_catalogs (cancel_connection_in w c ex))(c := None),
    ex_sessions := rest\<rparr>"
  have "grows (may_cause sessions (Disconnect c)) ex ?ex2"
    using cancel_connection_in_grows [of "Disconnect c" sessions ex w c] by (simp add: grows_def)
  then have "grows (may_cause sessions (Disconnect c)) ex (close_slots slots ?ex2)"
    by (rule grows_trans) (simp add: close_slots_grows)
  then show ?thesis using d by (simp add: disconnect_def Let_def)
qed

lemma delete_connection_grows [effect_frames]:
  "grows (may_cause sessions (DeleteConnection c)) ex (snd (delete_connection w c ex))"
proof -
  let ?P = "may_cause sessions (DeleteConnection c)"
  obtain slots rest where d: "drain_connection c (ex_sessions (cancel_connection_in w c ex)) = (slots, rest)"
    by fastforce
  let ?ex2 = "(cancel_connection_in w c ex)\<lparr>ex_sessions := rest\<rparr>"
  have "grows ?P ex ?ex2"
    using cancel_connection_in_grows [of "DeleteConnection c" sessions ex w c] by (simp add: grows_def)
  then have "grows ?P ex (close_slots slots ?ex2)"
    by (rule grows_trans) (simp add: close_slots_grows)
  then have "grows ?P ex (store_call w ''connections.delete'' (close_slots slots ?ex2))"
    by (rule grows_trans) (rule store_call_grows, simp)
  then show ?thesis
    using d by (auto simp: delete_connection_def Let_def grows_def split: sum.split)
qed

lemma close_session_grows [effect_frames]:
  "grows (may_cause sessions (CloseSession c s)) ex (snd (close_session w c s ex))"
proof (cases "get_session s (ex_sessions ex)")
  case (Some slot)
  let ?P = "may_cause sessions (CloseSession c s)"
  let ?closing = "insert_session (begin_close slot) (ex_sessions ex)"
  obtain reports heap effects where cancelled:
    "cancel_each (rw_cancel (w_run w)) ?closing (running_for_session s (ex_running ex))
       (ex_running ex) (ex_tokens ex) = (reports, heap, effects)"
    by (metis prod_cases3)
  let ?ex1 = "emit (cancel_trace effects)
    (ex\<lparr>ex_sessions := snd (remove_session s ?closing), ex_tokens := heap\<rparr>)"
  have "grows ?P ex ?ex1"
    by (rule grows_emit) (simp_all add: cancel_trace_may_cause)
  then have "grows ?P ex (close_slots [begin_close slot] ?ex1)"
    by (rule grows_trans) (simp add: close_slots_grows)
  then show ?thesis
    using Some cancelled by (simp add: close_session_def Let_def split: sum.split)
qed (simp add: close_session_def)

lemma save_connection_grows [effect_frames]:
  assumes "is_connection_edit cmd"
  shows "grows (may_cause sessions cmd) ex (snd (save_connection w config ex))"
proof -
  have "\<not> touches_database cmd" using assms by (cases cmd) simp_all
  then have "grows (may_cause sessions cmd) ex (store_call w ''connections.save'' ex)"
    by (intro store_call_grows) simp
  then show ?thesis by (auto simp: save_connection_def Let_def grows_def split: sum.split)
qed

lemma set_session_context_grows [effect_frames]:
  "grows (may_cause sessions (SetSessionContext c s k n)) ex
     (snd (set_session_context w cancel c s k n ex))"
  by (auto simp: set_session_context_def Let_def grows_def may_cause_def split: option.split sum.split)

lemma refresh_catalog_grows [effect_frames]:
  assumes "reads_catalog cmd"
  shows "grows (may_cause sessions cmd) ex (snd (refresh_catalog w cancel i c scope ex))"
  using assms
  by (auto simp: refresh_catalog_def Let_def publish_def grows_def may_cause_def
      split: option.split sum.split)

lemma export_result_grows [effect_frames]:
  "grows (may_cause sessions (Export c r format destination)) ex
     (snd (export_result w c r format destination ex))"
  by (auto simp: export_result_def grows_def may_cause_def split: sum.split)

lemma reconcile_history_entry_grows [effect_frames]:
  "grows (may_cause sessions (ReconcileHistoryEntry entry)) ex
     (snd (reconcile_history_entry w entry ex))"
  using store_call_grows [of "ReconcileHistoryEntry entry" sessions ex w "''history.reconcile''"]
  by (auto simp: reconcile_history_entry_def Let_def grows_def split: sum.split prod.split)

subsection \<open>Statements and previews\<close>

lemma execute_statement_may_cause:
  assumes "\<And>r'. r' = request \<and> \<not> (request_is_mutating r' \<and> limits_read_only (limits r')) \<Longrightarrow>
      execute_runs cmd s r' \<or> preview_runs cmd s r'"
    and "target_connection cmd = Some c" "stops_executions cmd" "sessions = ex_sessions ex"
  shows "grows (may_cause sessions cmd) ex
    (snd (execute_statement render rw i c s request cancel scope ex :: 'v outcome result \<times> _))"
  by (rule grows_mono [OF execute_statement_grows])
    (use assms in \<open>auto simp: statement_effect_def may_cause_def split: exec_effect.splits\<close>)

lemma prepare_within_grows:
  assumes "cmd = PreviewRelation c (slot_id slot) k n r l sh"
  shows "grows (may_cause sessions cmd) ex (snd (prepare_within w slot path limit shape cancel dl ex))"
  by (auto simp: prepare_within_def Let_def grows_def may_cause_def assms split: option.split prod.split)

lemma prepare_within_sessions:
  "ex_sessions (snd (prepare_within w slot path limit shape cancel dl ex)) = ex_sessions ex"
  by (auto simp: prepare_within_def Let_def emit_def split: option.split prod.split)

lemma preview_bounds_reads:
  "request_is_mutating (preview_bounds limit request) = request_is_mutating request"
  by (simp add: preview_bounds_def request_is_mutating_def)

lemma preview_runs_bounds:
  assumes "\<not> request_is_mutating request" "limit \<le> 1000"
  shows "preview_runs (PreviewRelation c s k n relation limit shape) s (preview_bounds limit request)"
  using assms
  by (auto simp: preview_runs_def preview_bounds_reads) (auto simp: preview_bounds_def split: option.split)

lemma preview_relation_grows [effect_frames]:
  fixes w :: "('drv, 'v) world"
  assumes "sessions = ex_sessions ex"
  shows "grows (may_cause sessions (PreviewRelation c s k n relation limit shape)) ex
    (snd (preview_relation w cancel i c s k n relation limit shape ex))"
    (is "grows ?P ex (snd ?run)")
proof -
  consider (refused) e where "?run = (Inl e, ex)"
    | (prepared) path slot where "limit \<le> 1000" "get_session s (ex_sessions ex) = Some slot"
      "?run = (case prepare_within w slot path limit shape cancel
                  (deadline_starting_at (w_now w) default_timeout) ex of
               (Inl e, ex1) \<Rightarrow> (Inl e, ex1)
             | (Inr prepared, ex1) \<Rightarrow>
               (let request = reclassified_request (w_lib w) (w_prover w) prepared (Some slot) in
                if request_is_mutating request then (Inl (preview_refusal request), ex1)
                else execute_statement (w_render w) (w_run w) i c s (preview_bounds limit request) cancel
                       \<lparr>run_preview_limit = Some (unat limit), run_started = w_now w\<rparr> ex1))"
    unfolding preview_relation_def by (fastforce split: sum.splits option.splits if_splits)
  then show ?thesis
  proof cases
    case (prepared path slot)
    have id: "slot_id slot = s" using prepared(2) by (auto simp: get_session_def dest: find_key_SomeD)
    obtain r ex1 where prep: "prepare_within w slot path limit shape cancel
        (deadline_starting_at (w_now w) default_timeout) ex = (r, ex1)" by fastforce
    have one: "grows ?P ex ex1"
      using prepare_within_grows [of "PreviewRelation c s k n relation limit shape" c slot k n relation
          limit shape sessions ex w path limit shape cancel
          "deadline_starting_at (w_now w) default_timeout"] id prep by simp
    have same: "ex_sessions ex1 = ex_sessions ex"
      using prepare_within_sessions [of w slot path limit shape cancel
          "deadline_starting_at (w_now w) default_timeout" ex] prep by simp
    show ?thesis
    proof (cases r)
      case (Inr answer)
      let ?request = "reclassified_request (w_lib w) (w_prover w) answer (Some slot)"
      show ?thesis
      proof (cases "request_is_mutating ?request")
        case False
        have "grows ?P ex1 (snd (execute_statement (w_render w) (w_run w) i c s
            (preview_bounds limit ?request) cancel
            \<lparr>run_preview_limit = Some (unat limit), run_started = w_now w\<rparr> ex1 :: 'v outcome result \<times> _))"
          by (rule execute_statement_may_cause)
            (use preview_runs_bounds [OF False prepared(1)] assms same in auto)
        with one Inr False prep prepared(3) show ?thesis by (auto simp: Let_def intro: grows_trans)
      qed (use one prep Inr prepared(3) in simp)
    qed (use one prep prepared(3) in simp)
  qed simp
qed

subsection \<open>Every command\<close>

theorem execute_command_grows:
  "grows (may_cause (ex_sessions ex) cmd) ex (snd (execute_command w cancel i cmd ex))"
proof (cases cmd)
  case (Execute c s request)
  show ?thesis
    unfolding Execute execute_command.simps
    by (rule execute_statement_may_cause) (auto simp: execute_runs_def)
next
  case (Cancel c h)
  have "grows (may_cause (ex_sessions ex) (Cancel c h)) ex (snd (cancel_in (rw_cancel (w_run w)) h ex))"
    by (rule cancel_in_grows) (simp add: may_cause_def)
  then show ?thesis by (simp add: Cancel case_prod_beta)
qed (simp_all add: effect_frames open_document_def read_history_entry_def)

subsection \<open>What a preview was read as\<close>

text \<open>The driver of the session a statement runs on proved the text to be a read.\<close>

definition proven_read :: "'drv prover \<Rightarrow> 'drv session_registry \<Rightarrow> session_id \<Rightarrow> exec_request \<Rightarrow> bool" where
  "proven_read pv sessions s r \<longleftrightarrow>
     (\<exists>slot d q. get_session s sessions = Some slot \<and> slot_session slot = Some d
       \<and> prove_intent pv d q = Some Read \<and> req_text q = req_text r \<and> language q = language r)"

text \<open>Understood as a read: a SQL text by every statement of it, another by its driver.\<close>

definition understood_read ::
  "sql_library \<Rightarrow> 'drv prover \<Rightarrow> 'drv session_registry \<Rightarrow> session_id \<Rightarrow> exec_request \<Rightarrow> bool" where
  "understood_read lib pv sessions s r \<longleftrightarrow>
     (case sql_dialect_of (language r) of
        None \<Rightarrow> proven_read pv sessions s r
      | Some d \<Rightarrow> class_is_read_only (classify lib (req_text r) d))"

lemma reclassified_request_understood:
  assumes "\<not> request_is_mutating (reclassified_request lib pv r slot)"
    and "\<And>sl. slot = Some sl \<Longrightarrow> get_session s sessions = Some sl"
    and "req_text r' = req_text r" "language r' = language r"
  shows "understood_read lib pv sessions s r'"
proof (cases "sql_dialect_of (language r)")
  case None
  from reclassified_request_not_sql [OF this assms(1)] obtain sl d where
    "slot = Some sl" "slot_session sl = Some d" "prove_intent pv d (qualify (reclassify lib r) r) = Some Read" by blast
  moreover have "req_text (qualify q r) = req_text r" "language (qualify q r) = language r" for q
    by (simp_all add: qualify_def with_intent_def with_risk_def)
  ultimately show ?thesis using assms(2-4) None unfolding understood_read_def proven_read_def by auto
next
  case (Some d)
  from reclassified_request_read_sql [OF this assms(1)] Some assms(3,4) show ?thesis
    by (simp add: understood_read_def)
qed

text \<open>What a command runs besides the statement it carries was understood as a read.\<close>

definition runs_understood ::
  "sql_library \<Rightarrow> 'drv prover \<Rightarrow> 'drv session_registry \<Rightarrow> command \<Rightarrow> exec_effect \<Rightarrow> bool" where
  "runs_understood lib pv sessions cmd e \<longleftrightarrow>
     (case e of DriverExecuted s r \<Rightarrow> is_execute cmd \<or> understood_read lib pv sessions s r | _ \<Rightarrow> True)"

lemma preview_relation_understood:
  fixes w :: "('drv, 'v) world"
  shows "grows (runs_understood (w_lib w) (w_prover w) (ex_sessions ex) (PreviewRelation c s k n relation limit shape)) ex
    (snd (preview_relation w cancel i c s k n relation limit shape ex))"
    (is "grows ?P ex (snd ?run)")
proof -
  have other: "?P e" if "\<And>s r. e \<noteq> DriverExecuted s r" for e
    using that by (auto simp: runs_understood_def split: exec_effect.split)
  consider (refused) e where "?run = (Inl e, ex)"
    | (prepared) path slot where "get_session s (ex_sessions ex) = Some slot"
      "?run = (case prepare_within w slot path limit shape cancel
                  (deadline_starting_at (w_now w) default_timeout) ex of
               (Inl e, ex1) \<Rightarrow> (Inl e, ex1)
             | (Inr prepared, ex1) \<Rightarrow>
               (let request = reclassified_request (w_lib w) (w_prover w) prepared (Some slot) in
                if request_is_mutating request then (Inl (preview_refusal request), ex1)
                else execute_statement (w_render w) (w_run w) i c s (preview_bounds limit request) cancel
                       \<lparr>run_preview_limit = Some (unat limit), run_started = w_now w\<rparr> ex1))"
    unfolding preview_relation_def by (fastforce split: sum.splits option.splits if_splits)
  then show ?thesis
  proof cases
    case (prepared path slot)
    obtain r ex1 where prep: "prepare_within w slot path limit shape cancel
        (deadline_starting_at (w_now w) default_timeout) ex = (r, ex1)" by fastforce
    have "grows ?P ex (snd (prepare_within w slot path limit shape cancel
        (deadline_starting_at (w_now w) default_timeout) ex))"
      by (auto simp: prepare_within_def Let_def grows_def other split: option.split prod.split)
    with prep have one: "grows ?P ex ex1" by simp
    show ?thesis
    proof (cases r)
      case (Inr answer)
      let ?request = "reclassified_request (w_lib w) (w_prover w) answer (Some slot)"
      show ?thesis
      proof (cases "request_is_mutating ?request")
        case False
        have read: "understood_read (w_lib w) (w_prover w) (ex_sessions ex) s (preview_bounds limit ?request)"
          by (rule reclassified_request_understood [OF False]) (simp_all add: prepared(1) preview_bounds_def)
        have "grows ?P ex1 (snd (execute_statement (w_render w) (w_run w) i c s
            (preview_bounds limit ?request) cancel
            \<lparr>run_preview_limit = Some (unat limit), run_started = w_now w\<rparr> ex1 :: 'v outcome result \<times> _))"
          by (rule grows_mono [OF execute_statement_grows])
            (auto simp: statement_effect_def runs_understood_def read split: exec_effect.splits)
        with one Inr False prep prepared(2) show ?thesis by (auto simp: Let_def intro: grows_trans)
      qed (use one prep Inr prepared(2) in simp)
    qed (use one prep prepared(2) in simp)
  qed simp
qed

lemma grows_conj: "grows P ex ex' \<Longrightarrow> grows Q ex ex' \<Longrightarrow> grows (\<lambda>e. P e \<and> Q e) ex ex'"
  by (auto simp: grows_def list_all_iff)

text \<open>The frame of a command, with what it was read as.\<close>

lemma execute_command_understood:
  "grows (\<lambda>e. may_cause (ex_sessions ex) cmd e \<and> runs_understood (w_lib w) (w_prover w) (ex_sessions ex) cmd e) ex
     (snd (execute_command w cancel i cmd ex))"
proof (rule grows_conj [OF execute_command_grows])
  show "grows (runs_understood (w_lib w) (w_prover w) (ex_sessions ex) cmd) ex (snd (execute_command w cancel i cmd ex))"
  proof (cases "\<exists>c s k n relation limit shape. cmd = PreviewRelation c s k n relation limit shape")
    case True
    then show ?thesis using preview_relation_understood by auto
  next
    case False
    show ?thesis
    proof (rule grows_mono [OF execute_command_grows])
      show "runs_understood (w_lib w) (w_prover w) (ex_sessions ex) cmd e" if "may_cause (ex_sessions ex) cmd e" for e
        using that False
        by (auto simp: runs_understood_def may_cause_def execute_runs_def preview_runs_def
            split: exec_effect.splits command.splits)
    qed
  qed
qed

subsection \<open>What disconnecting stops\<close>

text \<open>What is asked of the server for a running statement.\<close>

definition cancel_asks :: "'drv session_registry \<Rightarrow> running_statement \<Rightarrow> exec_effect list" where
  "cancel_asks sessions e =
     (case get_session (rs_session e) sessions of
        None \<Rightarrow> []
      | Some slot \<Rightarrow>
          if supports_server_cancel e \<and> slot_session slot \<noteq> None
          then [DriverCancelAsked (rs_session e) (rs_statement e)] else [])"

lemma cancel_trace_asks:
  "cancel_trace (concat (map (\<lambda>e. TokenFired (rs_token e) # server_asks sessions e) es))
     = concat (map (cancel_asks sessions) es)"
  by (induction es) (auto simp: server_asks_def cancel_asks_def split: option.split)

lemma disconnect_result:
  assumes "distinct (map rs_statement (ex_running ex))" "distinct (map slot_id (ex_sessions ex))"
    and "disconnect w c ex = (res, ex')"
  shows "res = Inr (Disconnected c (length (filter (\<lambda>s. slot_connection s = c) (ex_sessions ex))))"
    and "ex_sessions ex' = filter (\<lambda>s. slot_connection s \<noteq> c) (ex_sessions ex)"
    and "is_cancelled (ex_tokens ex') u \<longleftrightarrow> is_cancelled (ex_tokens ex) u
      \<or> reaches (ex_tokens ex) (rs_token ` {e \<in> set (ex_running ex). rs_connection e = c}) u"
    and "ex_trace ex' = ex_trace ex
      @ concat (map (cancel_asks (ex_sessions ex)) (filter (\<lambda>e. rs_connection e = c) (ex_running ex)))
      @ map (DriverClosed \<circ> slot_id)
          (filter (\<lambda>s. slot_connection s = c \<and> slot_session s \<noteq> None) (ex_sessions ex))"
proof -
  let ?here = "filter (\<lambda>e. rs_connection e = c) (ex_running ex)"
  obtain reports heap effects where run: "cancel_connection (rw_cancel (w_run w)) (ex_sessions ex) c (ex_running ex)
      (ex_tokens ex) = (reports, heap, effects)" by (metis prod_cases3)
  note each = cancel_each_result [OF assms(1) _ run [unfolded cancel_connection_def running_for_connection_def]]
  have heap: "heap = cancel_work (map rs_token ?here) (ex_tokens ex)"
    and effects: "cancel_trace effects = concat (map (cancel_asks (ex_sessions ex)) ?here)"
    using each cancel_trace_asks by (auto simp del: map_map)
  have cancelled: "cancel_connection_in w c ex = emit (cancel_trace effects) (ex\<lparr>ex_tokens := heap\<rparr>)"
    by (simp add: cancel_connection_in_def run)
  have parts: "res = Inr (Disconnected c (length (filter (\<lambda>s. slot_connection s = c) (ex_sessions ex))))
    \<and> ex_sessions ex' = filter (\<lambda>s. slot_connection s \<noteq> c) (ex_sessions ex) \<and> ex_tokens ex' = heap
    \<and> ex_trace ex' = ex_trace ex @ cancel_trace effects @ map (DriverClosed \<circ> slot_id)
          (filter (\<lambda>s. slot_connection s = c \<and> slot_session s \<noteq> None) (ex_sessions ex))"
    using assms(3) drain_connection_spec [OF assms(2), of c]
    by (auto simp: disconnect_def Let_def cancelled close_slots_def emit_def conj_commute comp_def)
  then show "res = Inr (Disconnected c (length (filter (\<lambda>s. slot_connection s = c) (ex_sessions ex))))"
    "ex_sessions ex' = filter (\<lambda>s. slot_connection s \<noteq> c) (ex_sessions ex)"
    "ex_trace ex' = ex_trace ex @ concat (map (cancel_asks (ex_sessions ex)) ?here)
      @ map (DriverClosed \<circ> slot_id)
          (filter (\<lambda>s. slot_connection s = c \<and> slot_session s \<noteq> None) (ex_sessions ex))"
    by (simp_all only: effects)
  have "set (map rs_token ?here) = rs_token ` {e \<in> set (ex_running ex). rs_connection e = c}" by auto
  with parts heap show "is_cancelled (ex_tokens ex') u \<longleftrightarrow> is_cancelled (ex_tokens ex) u
      \<or> reaches (ex_tokens ex) (rs_token ` {e \<in> set (ex_running ex). rs_connection e = c}) u"
    using cancel_work_reaches [of "map rs_token ?here" "ex_tokens ex" u] by simp
qed

end
