(* ===== verification/Dispatch.thy ===== *)
theory Dispatch
  imports Command_Effects
begin

text \<open>
  The single passage point (\<open>Executor::dispatch_as\<close>, \<open>approve\<close>, \<open>reject\<close>, \<open>run\<close> and \<open>shutdown\<close>
  in \<open>crates/oxyn-exec/src/executor.rs\<close>, the two guards of \<open>abandon.rs\<close>): a command is
  reclassified, bounded, decided on, journaled, and only then executed.
\<close>

subsection \<open>What is written to the audit trail\<close>

definition decision_record ::
  "('drv, 'v) world \<Rightarrow> command_id \<Rightarrow> actor \<Rightarrow> command \<Rightarrow> decision \<Rightarrow> string option \<Rightarrow> journal_record" where
  "decision_record w i a cmd d approved =
     (let r = journal_with_id i (journal_record_new (w_redact w) (w_clock w) a cmd d)
      in case approved of None \<Rightarrow> r | Some who \<Rightarrow> journal_approved_by who r)"

definition outcome_record ::
  "('drv, 'v) world \<Rightarrow> command_id \<Rightarrow> actor \<Rightarrow> command \<Rightarrow> duration \<Rightarrow> u64 option \<Rightarrow> string option
   \<Rightarrow> journal_record" where
  "outcome_record w i a cmd elapsed rows approved =
     (let d = (case approved of
                 Some _ \<Rightarrow> RequireApproval ''command executed after explicit approval'' None
               | None \<Rightarrow> Allow);
          r = journal_completed elapsed rows
                (journal_with_id i (journal_record_new (w_redact w) (w_clock w) a cmd d))
      in case approved of None \<Rightarrow> r | Some who \<Rightarrow> journal_approved_by who r)"

definition history_record_of ::
  "('drv, 'v) world \<Rightarrow> 'drv executor \<Rightarrow> actor \<Rightarrow> command \<Rightarrow> history_record option" where
  "history_record_of w ex a cmd =
     map_option (\<lambda>r. r\<lparr>hr_connection_name :=
         Option.bind (hr_connection r) (\<lambda>c. map_option cfg_name (ex_connections ex c))\<rparr>)
       (history_from_command (w_redact w) (w_clock w) a cmd)"

definition finished_record ::
  "(oxyn_error \<Rightarrow> string) \<Rightarrow> 'v outcome result \<Rightarrow> duration \<Rightarrow> history_record \<Rightarrow> history_record" where
  "finished_record render res elapsed r =
     (case res of
        Inl e \<Rightarrow> (history_failed render e r)\<lparr>hr_duration := Some elapsed\<rparr>
      | Inr (Executed result _ _ stats _ SinkCancelled) \<Rightarrow>
          (history_failed render ECancelled (history_succeeded elapsed (Some (stat_rows stats)) r))
            \<lparr>hr_result := Some result\<rparr>
      | Inr (Executed result h b stats timings sink) \<Rightarrow>
          (history_succeeded elapsed (Some (stat_rows stats)) r)\<lparr>hr_result := Some result\<rparr>
      | Inr out \<Rightarrow> history_succeeded elapsed (outcome_rows out) r)"

definition finished_history_record ::
  "(oxyn_error \<Rightarrow> string) \<Rightarrow> (nat \<times> history_record) option \<Rightarrow> 'v outcome result \<Rightarrow> duration
   \<Rightarrow> (nat \<times> history_record) option" where
  "finished_history_record render in_progress res elapsed =
     map_option (\<lambda>(entry, r). (entry, finished_record render res elapsed r)) in_progress"

subsection \<open>The writes themselves\<close>

definition audit_append :: "audit_answer \<Rightarrow> journal_record \<Rightarrow> 'drv executor \<Rightarrow> 'drv executor" where
  "audit_append answer r ex = (if aa_append answer = None then emit [Journaled r] ex else ex)"

definition audit_insert ::
  "audit_answer \<Rightarrow> history_record option \<Rightarrow> 'drv executor
   \<Rightarrow> (nat \<times> history_record) option \<times> 'drv executor" where
  "audit_insert answer entry ex =
     (case entry of None \<Rightarrow> (None, ex)
      | Some r \<Rightarrow>
          if aa_history answer
          then (case history_insert r (ex_history ex) of (row, table) \<Rightarrow>
                  (Some (row, r), emit [HistoryInserted row r] (ex\<lparr>ex_history := table\<rparr>)))
          else (None, ex))"

definition audit_stopped :: oxyn_error where
  "audit_stopped = EInternal ''audit writer stopped''"

text \<open>The decision, then, only if it was written, the entry in progress.\<close>

definition write_decision ::
  "audit_answer \<Rightarrow> journal_record \<Rightarrow> history_record option \<Rightarrow> 'drv executor
   \<Rightarrow> (nat \<times> history_record) option result \<times> 'drv executor" where
  "write_decision answer r starting ex =
     (case aa_append answer of
        Some e \<Rightarrow> (Inl (if aa_stopped answer then audit_stopped else e), ex)
      | None \<Rightarrow>
          (case audit_insert answer starting (audit_append answer r ex) of (in_progress, ex1) \<Rightarrow>
             (if aa_stopped answer then Inl audit_stopped else Inr in_progress, ex1)))"

text \<open>The outcome and the finished entry; the status is reported when the row was found.\<close>

definition write_outcome ::
  "audit_answer \<Rightarrow> journal_record \<Rightarrow> (nat \<times> history_record) option \<Rightarrow> 'drv executor
   \<Rightarrow> history_status option \<times> 'drv executor" where
  "write_outcome answer r finishing ex =
     (let ex1 = audit_append answer r ex in
      case finishing of None \<Rightarrow> (None, ex1)
      | Some (row, entry) \<Rightarrow>
          if \<not> aa_history answer then (None, ex1)
          else (case history_finish row entry (ex_history ex1) of (found, table) \<Rightarrow>
                  (if found \<and> \<not> aa_stopped answer then Some (hr_status entry) else None,
                   emit [HistoryFinished row entry] (ex1\<lparr>ex_history := table\<rparr>))))"

subsection \<open>What the executor knows of a connection\<close>

fun environment_of :: "'drv executor \<Rightarrow> command \<Rightarrow> environment" where
  "environment_of ex (CreateConnection config) = cfg_environment config"
| "environment_of ex (UpdateConnection config) = cfg_environment config"
| "environment_of ex (TestConnection config) = cfg_environment config"
| "environment_of ex cmd =
     (case Option.bind (target_connection cmd) (ex_connections ex) of
        None \<Rightarrow> default_environment | Some config \<Rightarrow> cfg_environment config)"

definition marked_read_only :: "'drv executor \<Rightarrow> command \<Rightarrow> bool" where
  "marked_read_only ex cmd =
     (case Option.bind (target_connection cmd) (ex_connections ex) of
        None \<Rightarrow> False | Some config \<Rightarrow> cfg_read_only config)"

text \<open>The bound put on a command before it is decided on, at dispatch and again at approval.\<close>

definition bounded_command :: "('drv, 'v) world \<Rightarrow> 'drv executor \<Rightarrow> command \<Rightarrow> command" where
  "bounded_command w ex cmd =
     bounded_to (w_lib w) (g_environment (w_gate w) cmd (environment_of ex cmd))
       (g_read_only (w_gate w) cmd (marked_read_only ex cmd)) cmd"

definition decide :: "('drv, 'v) world \<Rightarrow> 'drv executor \<Rightarrow> actor \<Rightarrow> command \<Rightarrow> decision" where
  "decide w ex a cmd = g_authorize (w_gate w) a (bounded_command w ex cmd) (environment_of ex cmd)"

subsection \<open>Running, denying, setting aside\<close>

definition deny ::
  "('drv, 'v) world \<Rightarrow> command_id \<Rightarrow> actor \<Rightarrow> command \<Rightarrow> string \<Rightarrow> 'drv executor
   \<Rightarrow> 'v outcome result \<times> 'drv executor" where
  "deny w i a cmd reason ex =
     (let r = decision_record w i a cmd (Deny reason) None;
          denied = map_option (history_denied reason) (history_record_of w ex a cmd);
          ex1 = audit_append (w_decision_write w) r ex;
          ex2 = snd (audit_insert (w_decision_write w) denied ex1)
      in (Inr (OutDenied i reason),
          publish i (target_connection cmd) (event_failed (w_render w) (EPolicyDenied reason)) ex2))"

text \<open>After the command: its outcome in the journal, the end of its entry in the history.\<close>

definition run_outcome ::
  "('drv, 'v) world \<Rightarrow> command_id \<Rightarrow> actor \<Rightarrow> command \<Rightarrow> string option \<Rightarrow> 'v outcome result
   \<Rightarrow> journal_record" where
  "run_outcome w i a cmd approved res =
     (case res of
        Inl e \<Rightarrow> journal_failed (w_render w) e (outcome_record w i a cmd (w_elapsed w) None approved)
      | Inr out \<Rightarrow> outcome_record w i a cmd (w_elapsed w) (outcome_rows out) approved)"

definition finish_run ::
  "('drv, 'v) world \<Rightarrow> command_id \<Rightarrow> actor \<Rightarrow> command \<Rightarrow> string option
   \<Rightarrow> (nat \<times> history_record) option \<Rightarrow> 'v outcome result \<Rightarrow> 'drv executor \<Rightarrow> 'drv executor" where
  "finish_run w i a cmd approved in_progress res ex =
     (case write_outcome (w_outcome_write w) (run_outcome w i a cmd approved res)
             (finished_history_record (w_render w) in_progress res (w_elapsed w)) ex of
        (written, ex1) \<Rightarrow>
          if written = Some HsSucceeded
          then publish i (target_connection cmd) HistoryRecorded ex1 else ex1)"

definition run_command ::
  "('drv, 'v) world \<Rightarrow> command_id \<Rightarrow> actor \<Rightarrow> command \<Rightarrow> decision \<Rightarrow> token \<Rightarrow> string option
   \<Rightarrow> 'drv executor \<Rightarrow> 'v outcome result \<times> 'drv executor" where
  "run_command w i a cmd d cancel approved ex =
     (case write_decision (w_decision_write w) (decision_record w i a cmd d approved)
             (history_record_of w ex a cmd) ex of
        (Inl e, ex1) \<Rightarrow> (Inl e, ex1)
      | (Inr in_progress, ex1) \<Rightarrow>
          (case execute_command w cancel i cmd ex1 of (res, ex2) \<Rightarrow>
             (res, finish_run w i a cmd approved in_progress res ex2)))"

definition ask_approval ::
  "('drv, 'v) world \<Rightarrow> command_id \<Rightarrow> actor \<Rightarrow> command \<Rightarrow> string \<Rightarrow> preview option \<Rightarrow> 'drv executor
   \<Rightarrow> 'v outcome result \<times> 'drv executor" where
  "ask_approval w i a cmd reason pv ex =
     (case write_decision (w_decision_write w)
             (decision_record w i a cmd (RequireApproval reason pv) None) None ex of
        (Inl e, ex1) \<Rightarrow> (Inl e, ex1)
      | (Inr _, ex1) \<Rightarrow>
          (case submit (w_now w) i a cmd reason pv (ex_approvals ex1) of
             (Inl e, q) \<Rightarrow> (Inl (approval_to_oxyn (w_show_duration w) (w_show_count w) e),
                            ex1\<lparr>ex_approvals := q\<rparr>)
           | (Inr entry, q) \<Rightarrow>
               (Inr (NeedsApproval i (pc_reason entry) (pc_preview entry)),
                publish i (target_connection cmd)
                  (ApprovalRequested i (pc_reason entry) (pc_preview entry))
                  (ex1\<lparr>ex_approvals := q\<rparr>))))"

definition dispatch_as ::
  "('drv, 'v) world \<Rightarrow> command_id \<Rightarrow> actor \<Rightarrow> command \<Rightarrow> token \<Rightarrow> 'drv executor
   \<Rightarrow> 'v outcome result \<times> 'drv executor" where
  "dispatch_as w i a cmd cancel ex =
     (let seen = reclassified (w_lib w) (w_prover w) (ex_sessions ex) cmd;
          bound = bounded_command w ex seen
      in case decide w ex a seen of
           Deny reason \<Rightarrow> deny w i a bound reason ex
         | RequireApproval reason pv \<Rightarrow> ask_approval w i a bound reason pv ex
         | Allow \<Rightarrow> run_command w i a bound Allow cancel None ex)"

definition approve ::
  "('drv, 'v) world \<Rightarrow> string \<Rightarrow> command_id \<Rightarrow> token \<Rightarrow> 'drv executor
   \<Rightarrow> 'v outcome result \<times> 'drv executor" where
  "approve w who i cancel ex =
     (case take_at i (w_now w) (ex_approvals ex) of
        (Inl e, q) \<Rightarrow> (Inl (approval_to_oxyn (w_show_duration w) (w_show_count w) e),
                       ex\<lparr>ex_approvals := q\<rparr>)
      | (Inr entry, q) \<Rightarrow>
          (let ex1 = ex\<lparr>ex_approvals := q\<rparr>;
               bound = bounded_command w ex1 (pc_command entry)
           in case decide w ex1 (pc_actor entry) (pc_command entry) of
                Deny reason \<Rightarrow> deny w i (pc_actor entry) bound reason ex1
              | d \<Rightarrow> run_command w i (pc_actor entry) bound d cancel (Some who) ex1))"

definition reject_command ::
  "command_id \<Rightarrow> 'drv executor \<Rightarrow> pending_command option \<times> 'drv executor" where
  "reject_command i ex =
     (case reject i (ex_approvals ex) of (entry, q) \<Rightarrow> (entry, ex\<lparr>ex_approvals := q\<rparr>))"

subsection \<open>What a dropped future leaves\<close>

definition max_pending_outcomes :: nat where
  "max_pending_outcomes = 256"

text \<open>\<open>try_lock\<close> never waits: a held lock loses the record, as a full queue does.\<close>

definition abandoned_push :: "bool \<Rightarrow> journal_record \<Rightarrow> abandoned_outcomes \<Rightarrow> abandoned_outcomes" where
  "abandoned_push locked r q =
     (if locked \<or> max_pending_outcomes \<le> length (ab_queue q) then q\<lparr>ab_lost := ab_lost q + 1\<rparr>
      else q\<lparr>ab_queue := ab_queue q @ [r]\<rparr>)"

definition abandoned_outcome :: string where
  "abandoned_outcome = ''abandoned by its caller; outcome unknown''"

definition abandoned_record ::
  "('drv, 'v) world \<Rightarrow> command_id \<Rightarrow> actor \<Rightarrow> command \<Rightarrow> string option \<Rightarrow> journal_record" where
  "abandoned_record w i a cmd approved =
     (outcome_record w i a cmd (w_elapsed w) None approved)
       \<lparr>jr_error := Some abandoned_outcome, jr_error_class := Some Ambiguous\<rparr>"

definition abandon_command ::
  "('drv, 'v) world \<Rightarrow> bool \<Rightarrow> command_id \<Rightarrow> actor \<Rightarrow> command \<Rightarrow> string option
   \<Rightarrow> 'drv executor \<Rightarrow> 'drv executor" where
  "abandon_command w locked i a cmd approved ex =
     ex\<lparr>ex_abandoned := abandoned_push locked (abandoned_record w i a cmd approved) (ex_abandoned ex)\<rparr>"

definition abandoned_message :: string where
  "abandoned_message = ''the write was abandoned before its driver said whether the server applied ''
     @ ''it; check the data before running it again''"

text \<open>\<open>Drop\<close> of an armed \<open>AbandonGuard\<close>; the buffer it closes is not part of the state.\<close>

definition abandon_end :: "(oxyn_error \<Rightarrow> string) \<Rightarrow> bool \<Rightarrow> event" where
  "abandon_end render mutating =
     (if mutating then event_failed render (EOutcomeUnknown abandoned_message) else EvCancelled)"

definition abandon_statement ::
  "('drv, 'v) world \<Rightarrow> command_id \<Rightarrow> connection_id \<Rightarrow> token \<Rightarrow> bool \<Rightarrow> statement_handle option
   \<Rightarrow> 'drv executor \<Rightarrow> 'drv executor" where
  "abandon_statement w i c ct mutating tracked ex =
     publish i (Some c) (abandon_end (w_render w) mutating)
       (ex\<lparr>ex_tokens := cancel_token ct (ex_tokens ex),
           ex_running := (case tracked of None \<Rightarrow> ex_running ex
                          | Some h \<Rightarrow> snd (finish_running h (ex_running ex)))\<rparr>)"

subsection \<open>Shutdown\<close>

definition append_outcomes ::
  "(journal_record \<Rightarrow> bool) \<Rightarrow> journal_record list \<Rightarrow> 'drv executor \<Rightarrow> nat \<times> 'drv executor" where
  "append_outcomes appends rs ex =
     (length (filter appends rs), emit (map Journaled (filter appends rs)) ex)"

definition journal_abandoned ::
  "(journal_record \<Rightarrow> bool) \<Rightarrow> 'drv executor \<Rightarrow> nat \<times> 'drv executor" where
  "journal_abandoned appends ex =
     append_outcomes appends (ab_queue (ex_abandoned ex))
       (ex\<lparr>ex_abandoned := (ex_abandoned ex)\<lparr>ab_queue := []\<rparr>\<rparr>)"

text \<open>The tokens of what runs on a session fire, then the session is closed.\<close>

definition shut_slot :: "'drv session_slot \<Rightarrow> 'drv executor \<Rightarrow> 'drv executor" where
  "shut_slot slot ex =
     close_slots [slot]
       (ex\<lparr>ex_tokens := fold cancel_token
              (map rs_token (running_for_session (slot_id slot) (ex_running ex))) (ex_tokens ex)\<rparr>)"

text \<open>\<open>late\<close> is what was abandoned while the sessions closed.\<close>

definition shutdown ::
  "(journal_record \<Rightarrow> bool) \<Rightarrow> journal_record list \<Rightarrow> 'drv executor \<Rightarrow> nat \<times> 'drv executor" where
  "shutdown appends late ex =
     (let ex1 = (snd (journal_abandoned appends ex))\<lparr>ex_catalogs := Map.empty\<rparr>;
          (slots, rest) = drain_all (ex_sessions ex1);
          ex2 = fold shut_slot slots (ex1\<lparr>ex_sessions := rest\<rparr>);
          ex3 = ex2\<lparr>ex_abandoned := fold (abandoned_push False) late (ex_abandoned ex2)\<rparr>
      in (length slots, snd (journal_abandoned appends ex3)))"

end
