(* ===== verification/Dispatch_Safety.thy ===== *)
theory Dispatch_Safety
  imports Dispatch
begin

text \<open>
  What the passage point guarantees: nothing outside happens unless the decision allowed it and
  was journaled first; what a driver receives was classified, decided on and bounded; an approval
  is asked of the command that would run, and used once.
\<close>

subsection \<open>The audit writes\<close>

definition is_audit :: "exec_effect \<Rightarrow> bool" where
  "is_audit e \<longleftrightarrow> \<not> is_external e"

lemma is_audit_simps [simp]:
  "is_audit (Journaled r)" "is_audit (HistoryInserted n h)" "is_audit (HistoryFinished n h)"
  "is_audit (Published i c ev)"
  by (simp_all add: is_audit_def)

lemma audit_append_grows: "P (Journaled r) \<Longrightarrow> grows P ex (audit_append answer r ex)"
  by (simp add: audit_append_def grows_emit)

lemma audit_insert_grows:
  "(\<And>n h. P (HistoryInserted n h)) \<Longrightarrow> grows P ex (snd (audit_insert answer entry ex))"
  by (auto simp: audit_insert_def grows_def split: option.split prod.split)

lemma audit_state:
  "ex_sessions (audit_append answer r ex) = ex_sessions ex"
  "ex_approvals (audit_append answer r ex) = ex_approvals ex"
  "ex_connections (audit_append answer r ex) = ex_connections ex"
  "ex_sessions (snd (audit_insert answer entry ex)) = ex_sessions ex"
  "ex_approvals (snd (audit_insert answer entry ex)) = ex_approvals ex"
  "ex_connections (snd (audit_insert answer entry ex)) = ex_connections ex"
  by (simp_all add: audit_append_def audit_insert_def emit_def split: option.split prod.split)

lemma write_decision_state:
  "ex_sessions (snd (write_decision answer r starting ex)) = ex_sessions ex"
  "ex_approvals (snd (write_decision answer r starting ex)) = ex_approvals ex"
  "ex_connections (snd (write_decision answer r starting ex)) = ex_connections ex"
  by (auto simp: write_decision_def audit_state case_prod_beta split: option.split)

lemma write_decision_grows:
  assumes "P (Journaled r)" "\<And>n h. P (HistoryInserted n h)"
  shows "grows P ex (snd (write_decision answer r starting ex))"
proof -
  have "grows P ex (snd (audit_insert answer starting (audit_append answer r ex)))"
    by (rule grows_trans [OF audit_append_grows audit_insert_grows]) (rule assms)+
  then show ?thesis by (auto simp: write_decision_def case_prod_beta split: option.split)
qed

text \<open>A decision that was written is the first new entry of the trace.\<close>

lemma write_decision_first:
  assumes "write_decision answer r starting ex = (Inr in_progress, ex1)"
  obtains t where "ex_trace ex1 = ex_trace ex @ Journaled r # t" "list_all is_audit t"
proof -
  from assms have none: "aa_append answer = None" by (auto simp: write_decision_def split: option.splits)
  have "grows is_audit (audit_append answer r ex) ex1"
    using assms none audit_insert_grows [of is_audit "audit_append answer r ex" answer starting]
    by (auto simp: write_decision_def split: prod.splits if_splits)
  then obtain t where "ex_trace ex1 = ex_trace (audit_append answer r ex) @ t" "list_all is_audit t"
    by (auto simp: grows_def)
  with none that show thesis by (simp add: audit_append_def)
qed

lemma write_outcome_grows:
  assumes "P (Journaled r)" "\<And>n h. P (HistoryFinished n h)"
  shows "grows P ex (snd (write_outcome answer r finishing ex))"
  using assms audit_append_grows [of P r ex answer]
  by (auto simp: write_outcome_def Let_def grows_def split: option.split prod.split)

lemma finish_run_grows: "grows is_audit ex (finish_run w i a cmd approved in_progress res ex)"
proof -
  obtain written ex1 where wo: "write_outcome (w_outcome_write w) (run_outcome w i a cmd approved res)
      (finished_history_record (w_render w) in_progress res (w_elapsed w)) ex = (written, ex1)"
    by fastforce
  have "grows is_audit ex ex1"
    using write_outcome_grows [of is_audit "run_outcome w i a cmd approved res" ex] wo by (metis is_audit_simps(1,3) snd_conv)
  with wo show ?thesis by (auto simp: finish_run_def publish_def grows_def)
qed

lemma deny_grows:
  assumes "\<And>r. P (Journaled r)" "\<And>n h. P (HistoryInserted n h)" "\<And>i c ev. P (Published i c ev)"
  shows "grows P ex (snd (deny w i a cmd reason ex))"
proof -
  let ?ex1 = "audit_append (w_decision_write w) (decision_record w i a cmd (Deny reason) None) ex"
  let ?entry = "map_option (history_denied reason) (history_record_of w ex a cmd)"
  have "grows P ex (snd (audit_insert (w_decision_write w) ?entry ?ex1))"
    by (rule grows_trans [OF audit_append_grows audit_insert_grows]) (rule assms)+
  then show ?thesis by (auto simp: deny_def Let_def publish_def grows_def assms)
qed

lemma ask_approval_grows:
  assumes "\<And>r. P (Journaled r)" "\<And>n h. P (HistoryInserted n h)" "\<And>i c ev. P (Published i c ev)"
  shows "grows P ex (snd (ask_approval w i a cmd reason pv ex))"
proof -
  let ?wd = "write_decision (w_decision_write w)
    (decision_record w i a cmd (RequireApproval reason pv) None) None ex"
  have "grows P ex (snd ?wd)" by (rule write_decision_grows) (rule assms)+
  then show ?thesis
    by (cases ?wd)
      (auto simp: ask_approval_def publish_def grows_def assms split: sum.split prod.split)
qed

subsection \<open>Running a command\<close>

text \<open>The three parts of a run: the decision written first, the command, the outcome.\<close>

lemma run_command_parts:
  assumes "run_command w i a cmd d cancel approved ex = (res, ex')"
  obtains (refused) "grows is_audit ex ex'" "\<exists>e. res = Inl e"
    | (ran) in_progress ex1 ex2 where
      "write_decision (w_decision_write w) (decision_record w i a cmd d approved)
         (history_record_of w ex a cmd) ex = (Inr in_progress, ex1)"
      "execute_command w cancel i cmd ex1 = (res, ex2)" "grows is_audit ex2 ex'"
proof -
  let ?wd = "write_decision (w_decision_write w) (decision_record w i a cmd d approved)
         (history_record_of w ex a cmd) ex"
  show thesis
  proof (cases "fst ?wd")
    case (Inl e)
    with assms have "ex' = snd ?wd" "res = Inl e"
      by (auto simp: run_command_def split: prod.splits)
    with write_decision_grows [of is_audit "decision_record w i a cmd d approved" ex] show thesis
      by (intro refused) auto
  next
    case (Inr in_progress)
    then obtain ex1 where wd: "?wd = (Inr in_progress, ex1)" by (metis prod.collapse)
    obtain res2 ex2 where run: "execute_command w cancel i cmd ex1 = (res2, ex2)" by fastforce
    with assms wd have eq: "res = res2" "ex' = finish_run w i a cmd approved in_progress res ex2"
      by (auto simp: run_command_def)
    with finish_run_grows have "grows is_audit ex2 ex'" by blast
    with wd run eq(1) show thesis by (intro ran) auto
  qed
qed

lemma run_command_grows:
  assumes "\<And>e. is_audit e \<Longrightarrow> P e"
    and "\<And>e. may_cause (ex_sessions ex) cmd e
      \<Longrightarrow> runs_understood (w_lib w) (w_prover w) (ex_sessions ex) cmd e \<Longrightarrow> P e"
  shows "grows P ex (snd (run_command w i a cmd d cancel approved ex))"
proof -
  obtain res ex' where run: "run_command w i a cmd d cancel approved ex = (res, ex')" by fastforce
  from this have "grows P ex ex'"
  proof (cases rule: run_command_parts)
    case refused
    then show ?thesis using assms(1) by (blast intro: grows_mono)
  next
    case (ran in_progress ex1 ex2)
    have "grows P ex ex1"
      using write_decision_grows [of P "decision_record w i a cmd d approved" ex "w_decision_write w"
          "history_record_of w ex a cmd"] ran(1) assms(1) by simp
    moreover have "grows P ex1 ex2"
    proof -
      have "ex_sessions ex1 = ex_sessions ex"
        using write_decision_state(1) [of "w_decision_write w" _ "history_record_of w ex a cmd" ex]
          ran(1) by (metis snd_conv)
      then show ?thesis
        using execute_command_understood [of ex1 cmd w cancel i] ran(2) assms(2)
        by (auto intro: grows_mono)
    qed
    moreover have "grows P ex2 ex'" using ran(3) assms(1) by (blast intro: grows_mono)
    ultimately show ?thesis by (blast intro: grows_trans)
  qed
  with run show ?thesis by simp
qed

text \<open>Whatever reaches the outside was journaled first, under the command's identifier.\<close>

lemma run_command_journaled:
  assumes "run_command w i a cmd d cancel approved ex = (res, ex')"
  shows "\<exists>t. ex_trace ex' = ex_trace ex @ t \<and>
    (list_all is_audit t \<or> hd t = Journaled (decision_record w i a cmd d approved) \<and> t \<noteq> [])"
  using assms
proof (cases rule: run_command_parts)
  case refused
  then show ?thesis by (auto simp: grows_def)
next
  case (ran in_progress ex1 ex2)
  from write_decision_first [OF ran(1)] obtain t where
    "ex_trace ex1 = ex_trace ex @ Journaled (decision_record w i a cmd d approved) # t" by blast
  moreover obtain t2 where "ex_trace ex2 = ex_trace ex1 @ t2"
    using execute_command_grows [of ex1 cmd w cancel i] ran(2) by (auto simp: grows_def)
  moreover obtain t3 where "ex_trace ex' = ex_trace ex2 @ t3" using ran(3) by (auto simp: grows_def)
  ultimately show ?thesis by auto
qed

subsection \<open>Dispatching\<close>

lemma dispatch_as_not_allowed:
  assumes "decide w ex a (reclassified (w_lib w) (w_prover w) (ex_sessions ex) cmd) \<noteq> Allow"
  shows "grows is_audit ex (snd (dispatch_as w i a cmd cancel ex))"
  using assms by (auto simp: dispatch_as_def Let_def intro!: deny_grows ask_approval_grows split: decision.split)

lemma dispatch_as_allowed:
  assumes "decide w ex a (reclassified (w_lib w) (w_prover w) (ex_sessions ex) cmd) = Allow"
  shows "dispatch_as w i a cmd cancel ex = run_command w i a
    (bounded_command w ex (reclassified (w_lib w) (w_prover w) (ex_sessions ex) cmd)) Allow cancel None ex"
  using assms by (simp add: dispatch_as_def Let_def)

lemma decision_record_fields:
  "jr_command_id (decision_record w i a cmd d approved) = Some i"
  "jr_actor_kind (decision_record w i a cmd d approved) = actor_kind_of a"
  "jr_decision (decision_record w i a cmd d approved) = policy_outcome_of d"
  "jr_connection (decision_record w i a cmd d approved) = target_connection cmd"
  "jr_command_kind (decision_record w i a cmd d approved) = command_name cmd"
  "jr_approved_by (decision_record w i a cmd d approved) = approved"
  by (simp_all add: decision_record_def Let_def journal_with_id_def journal_record_new_def
      journal_approved_by_def split: option.split)

text \<open>A trace of effects is audited when anything external in it comes after the journaled
  decision that allowed it.\<close>

definition audited :: "command_id \<Rightarrow> actor \<Rightarrow> exec_effect list \<Rightarrow> bool" where
  "audited i a t \<longleftrightarrow> list_all is_audit t
     \<or> (\<exists>r t'. t = Journaled r # t' \<and> jr_command_id r = Some i
          \<and> jr_actor_kind r = actor_kind_of a \<and> jr_decision r \<noteq> Denied)"

lemma run_command_audited:
  assumes "\<not> is_denied d"
  shows "\<exists>t. ex_trace (snd (run_command w i a cmd d cancel approved ex)) = ex_trace ex @ t \<and> audited i a t"
proof -
  obtain res ex' where run: "run_command w i a cmd d cancel approved ex = (res, ex')" by fastforce
  from run_command_journaled [OF run] obtain t where t: "ex_trace ex' = ex_trace ex @ t"
    "list_all is_audit t \<or> hd t = Journaled (decision_record w i a cmd d approved) \<and> t \<noteq> []" by blast
  have "policy_outcome_of d \<noteq> Denied" using assms by (cases d) simp_all
  with t(2) have "audited i a t"
    by (cases t) (auto simp: audited_def decision_record_fields)
  with t(1) run show ?thesis by auto
qed

lemma grows_audit_audited:
  "grows is_audit ex ex' \<Longrightarrow> \<exists>t. ex_trace ex' = ex_trace ex @ t \<and> audited i a t"
  by (auto simp: grows_def audited_def)

lemma dispatch_as_audited:
  "\<exists>t. ex_trace (snd (dispatch_as w i a cmd cancel ex)) = ex_trace ex @ t \<and> audited i a t"
proof (cases "decide w ex a (reclassified (w_lib w) (w_prover w) (ex_sessions ex) cmd) = Allow")
  case True
  then show ?thesis by (simp add: dispatch_as_allowed run_command_audited)
next
  case False
  then show ?thesis by (intro grows_audit_audited dispatch_as_not_allowed)
qed

subsection \<open>Under the default policy\<close>

lemma decide_default:
  "w_gate w = default_gate p \<Longrightarrow> decide w ex a cmd = authorize p a (bounded_command w ex cmd) (environment_of ex cmd)"
  by (simp add: decide_def default_gate_def)

lemma bounded_command_reads [simp]:
  "intent (bounded_command w ex cmd) = intent cmd"
  "is_mutating (bounded_command w ex cmd) = is_mutating cmd"
  "target_connection (bounded_command w ex cmd) = target_connection cmd"
  "touches_database (bounded_command w ex cmd) = touches_database cmd"
  by (simp_all add: bounded_command_def)

lemma bounded_command_Execute:
  assumes "bounded_command w ex cmd = Execute c s r"
  obtains r' where "cmd = Execute c s r'" "req_text r = req_text r'" "language r = language r'"
    "request_is_mutating r = request_is_mutating r'"
proof -
  from assms obtain r' where r': "cmd = Execute c s r'" by (cases cmd) (simp_all add: bounded_command_def)
  with assms that show thesis by (auto simp: bounded_command_def request_is_mutating_def split: if_splits)
qed

lemma reclassified_Execute:
  assumes "reclassified lib pv sessions cmd = Execute c s r"
  obtains r' where "cmd = Execute c s r'" "r = reclassified_request lib pv r' (target_slot c s sessions)"
  using assms by (cases cmd) auto

text \<open>What an agent's command may run: what was understood as a read.\<close>

definition agent_effect ::
  "sql_library \<Rightarrow> 'drv prover \<Rightarrow> 'drv session_registry \<Rightarrow> exec_effect \<Rightarrow> bool" where
  "agent_effect lib pv sessions e \<longleftrightarrow>
     (case e of
        DriverExecuted s r \<Rightarrow> \<not> request_is_mutating r \<and> understood_read lib pv sessions s r
      | DriverContext _ \<Rightarrow> False
      | _ \<Rightarrow> True)"

lemma is_audit_agent: "is_audit e \<Longrightarrow> agent_effect lib pv sessions e"
  by (cases e) (simp_all add: is_audit_def agent_effect_def)

lemma is_execute_bounded [simp]: "is_execute (bounded_command w ex cmd) = is_execute cmd"
  by (cases cmd) (simp_all add: bounded_command_def)

lemma preview_runs_reads: "preview_runs cmd s r \<Longrightarrow> \<not> request_is_mutating r \<and> \<not> is_execute cmd"
  by (auto simp: preview_runs_def split: command.splits)

lemma dispatch_as_agent:
  assumes gate: "w_gate w = default_gate p" and agent: "is_agent a"
  shows "grows (agent_effect (w_lib w) (w_prover w) (ex_sessions ex)) ex
    (snd (dispatch_as w i a cmd cancel ex))"
proof -
  let ?effect = "agent_effect (w_lib w) (w_prover w) (ex_sessions ex)"
  let ?seen = "reclassified (w_lib w) (w_prover w) (ex_sessions ex) cmd"
  let ?bound = "bounded_command w ex ?seen"
  show ?thesis
  proof (cases "decide w ex a ?seen = Allow")
    case False
    then show ?thesis using dispatch_as_not_allowed is_audit_agent by (blast intro: grows_mono)
  next
    case True
    then have allow: "\<not> agent_forbidden ?bound" "\<not> is_mutating ?bound"
      using agent by (simp_all add: decide_default [OF gate] authorize_allow_iff)
    have effect: "?effect e" if e: "may_cause (ex_sessions ex) ?bound e"
        "runs_understood (w_lib w) (w_prover w) (ex_sessions ex) ?bound e" for e
    proof (cases e)
      case (DriverExecuted s r)
      consider (execute) c where "?bound = Execute c s r" | (preview) "preview_runs ?bound s r"
        using e(1) DriverExecuted by (auto simp: may_cause_def execute_runs_def)
      then show ?thesis
      proof cases
        case execute
        then obtain r1 where r1: "?seen = Execute c s r1" "req_text r = req_text r1"
          "language r = language r1" "request_is_mutating r = request_is_mutating r1"
          by (rule bounded_command_Execute)
        from r1(1) obtain r0 where r0: "r1 = reclassified_request (w_lib w) (w_prover w) r0
            (target_slot c s (ex_sessions ex))" by (rule reclassified_Execute)
        have read: "\<not> request_is_mutating r1" using allow(2) r1(1) by simp
        have target: "target_slot c s (ex_sessions ex) = Some slot \<Longrightarrow> get_session s (ex_sessions ex) = Some slot" for slot
          by (auto simp: target_slot_def split: option.splits if_splits)
        have "understood_read (w_lib w) (w_prover w) (ex_sessions ex) s r"
          by (rule reclassified_request_understood [OF read [unfolded r0] target]) (simp_all add: r1(2,3) r0)
        with read r1(4) show ?thesis by (simp add: DriverExecuted agent_effect_def)
      next
        case preview
        with preview_runs_reads [OF this] e(2) show ?thesis
          by (auto simp: DriverExecuted agent_effect_def runs_understood_def)
      qed
    next
      case (DriverContext s)
      then show ?thesis using e(1) allow(1) by (simp add: may_cause_def agent_forbidden_def)
    qed (simp_all add: agent_effect_def)
    have "grows ?effect ex (snd (run_command w i a ?bound Allow cancel None ex))"
      by (rule run_command_grows [OF is_audit_agent effect])
    then show ?thesis by (simp only: dispatch_as_allowed [OF True])
  qed
qed

text \<open>
  What a human's approval runs of an agent's command: the text that was held, in its language, a change
  only on a connection known not to be read-only and not of production, never a change of context.
\<close>

definition may_change :: "default_policy \<Rightarrow> 'drv executor \<Rightarrow> command \<Rightarrow> bool" where
  "may_change p ex cmd \<longleftrightarrow> (\<exists>f. target_facts p cmd = Some f \<and> \<not> fact_read_only f)
     \<and> \<not> is_production (retained_environment p cmd (environment_of ex cmd))"

definition held_runs ::
  "default_policy \<Rightarrow> sql_library \<Rightarrow> 'drv prover \<Rightarrow> 'drv executor \<Rightarrow> command \<Rightarrow> exec_effect \<Rightarrow> bool" where
  "held_runs p lib pv ex cmd e \<longleftrightarrow>
     (case e of
        DriverExecuted s r \<Rightarrow>
          (request_is_mutating r \<longrightarrow> may_change p ex cmd)
          \<and> ((\<exists>c r0. cmd = Execute c s r0 \<and> req_text r = req_text r0 \<and> language r = language r0)
             \<or> \<not> is_execute cmd \<and> \<not> request_is_mutating r \<and> understood_read lib pv (ex_sessions ex) s r)
      | DriverContext _ \<Rightarrow> False
      | _ \<Rightarrow> True)"

definition approved_effect ::
  "default_policy \<Rightarrow> sql_library \<Rightarrow> 'drv prover \<Rightarrow> 'drv executor \<Rightarrow> command_id \<Rightarrow> exec_effect \<Rightarrow> bool" where
  "approved_effect p lib pv ex i e \<longleftrightarrow> is_audit e
     \<or> (\<exists>held \<in> set (reg_pending (ex_approvals ex)). pc_id held = i
          \<and> (is_agent (pc_actor held) \<longrightarrow> held_runs p lib pv ex (pc_command held) e))"

lemma run_held_agent:
  assumes gate: "w_gate w = default_gate p" and agent: "is_agent a"
    and decided: "\<not> is_denied (decide w ex a cmd)"
  shows "grows (\<lambda>e. is_audit e \<or> held_runs p (w_lib w) (w_prover w) ex cmd e) ex
    (snd (run_command w i a (bounded_command w ex cmd) d cancel approved ex))"
proof (rule run_command_grows)
  let ?bound = "bounded_command w ex cmd"
  have allow: "\<not> agent_forbidden ?bound" "\<not> marking_forbids p ?bound"
    "\<not> (is_mutating ?bound \<and> is_production (retained_environment p ?bound (environment_of ex cmd)))"
    using decided agent by (auto simp: decide_default [OF gate] authorize_denied_iff)
  have same: "target_facts p ?bound = target_facts p cmd" by (simp add: target_facts_def)
  fix e
  assume e: "may_cause (ex_sessions ex) ?bound e" "runs_understood (w_lib w) (w_prover w) (ex_sessions ex) ?bound e"
  show "is_audit e \<or> held_runs p (w_lib w) (w_prover w) ex cmd e"
  proof (cases e)
    case (DriverExecuted s r)
    consider (execute) c where "?bound = Execute c s r" | (preview) "preview_runs ?bound s r"
      using e(1) DriverExecuted by (auto simp: may_cause_def execute_runs_def)
    then show ?thesis
    proof cases
      case execute
      then obtain r0 where r0: "cmd = Execute c s r0" "req_text r = req_text r0" "language r = language r0"
        by (rule bounded_command_Execute)
      have changes: "is_mutating ?bound \<longleftrightarrow> request_is_mutating r" "touches_database cmd"
        unfolding execute by (simp_all add: r0(1))
      have "may_change p ex cmd" if "request_is_mutating r"
        using allow(2,3) that
        unfolding may_change_def marking_forbids_def retained_environment_def same changes(1)
        by (cases "target_facts p cmd") (auto simp: changes(2))
      with r0 show ?thesis by (simp add: DriverExecuted held_runs_def)
    next
      case preview
      with preview_runs_reads [OF this] e(2) show ?thesis
        by (auto simp: DriverExecuted held_runs_def runs_understood_def)
    qed
  next
    case (DriverContext s)
    then show ?thesis using e(1) allow(1) by (simp add: may_cause_def agent_forbidden_def)
  qed (simp_all add: held_runs_def)
qed simp

lemma take_at_held: "take_at i now q = (Inr entry, q') \<Longrightarrow> entry \<in> set (reg_pending q) \<and> pc_id entry = i"
  by (auto simp: take_at_def Let_def dest: find_key_SomeD split: option.splits if_splits prod.splits)

lemma approve_agent:
  assumes gate: "w_gate w = default_gate p"
  shows "grows (approved_effect p (w_lib w) (w_prover w) ex i) ex (snd (approve w who i cancel ex))"
proof (cases "take_at i (w_now w) (ex_approvals ex)")
  case (Pair r q)
  show ?thesis
  proof (cases r)
    case (Inl e)
    with Pair show ?thesis by (simp add: approve_def grows_same)
  next
    case (Inr entry)
    note held = take_at_held [OF Pair [unfolded Inr]]
    let ?ex1 = "ex\<lparr>ex_approvals := q\<rparr>"
    let ?P = "\<lambda>e. is_audit e \<or> (is_agent (pc_actor entry) \<longrightarrow> held_runs p (w_lib w) (w_prover w) ?ex1 (pc_command entry) e)"
    let ?cmd = "pc_command entry" and ?a = "pc_actor entry"
    have env: "environment_of ?ex1 c = environment_of ex c" for c by (cases c) simp_all
    have "grows ?P ?ex1 (snd (approve w who i cancel ex))"
    proof (cases "decide w ?ex1 ?a ?cmd")
      case (Deny reason)
      then show ?thesis by (simp add: approve_def Pair Inr Let_def deny_grows)
    next
      case Allow
      then have "\<not> is_denied (decide w ?ex1 ?a ?cmd)" by simp
      from run_held_agent [OF gate _ this] Allow run_command_grows [of ?P] show ?thesis
        by (cases "is_agent ?a") (auto simp: approve_def Pair Inr Let_def intro: run_command_grows)
    next
      case (RequireApproval reason pv)
      then have "\<not> is_denied (decide w ?ex1 ?a ?cmd)" by simp
      from run_held_agent [OF gate _ this] RequireApproval show ?thesis
        by (cases "is_agent ?a") (auto simp: approve_def Pair Inr Let_def intro: run_command_grows)
    qed
    then have "grows ?P ex (snd (approve w who i cancel ex))" by (simp add: grows_def)
    then show ?thesis
      by (rule grows_mono) (use held in \<open>auto simp: approved_effect_def held_runs_def may_change_def env
          split: exec_effect.splits\<close>)
  qed
qed

text \<open>What a connection marked read-only may run, whoever asks and whether it was approved.\<close>

definition read_only_effect :: "sql_library \<Rightarrow> exec_effect \<Rightarrow> bool" where
  "read_only_effect lib e \<longleftrightarrow>
     (case e of
        DriverExecuted s r \<Rightarrow> \<not> request_is_mutating r
          \<and> (limits_read_only (limits r) \<or> transaction_control r \<and> only_controls_transactions lib r)
      | _ \<Rightarrow> True)"

lemma is_audit_read_only: "is_audit e \<Longrightarrow> read_only_effect lib e"
  by (cases e) (simp_all add: is_audit_def read_only_effect_def)

lemma run_command_read_only:
  assumes gate: "w_gate w = default_gate p" and facts: "target_facts p cmd = Some f" "fact_read_only f"
    and decided: "\<not> is_denied (decide w ex0 a cmd)"
  shows "grows (read_only_effect (w_lib w)) ex
    (snd (run_command w i a (bounded_command w ex0 cmd) d cancel approved ex))"
proof (rule run_command_grows)
  let ?bound = "bounded_command w ex0 cmd"
  fix e
  assume e: "may_cause (ex_sessions ex) ?bound e"
  show "read_only_effect (w_lib w) e"
  proof (cases e)
    case (DriverExecuted s r)
    consider (execute) c where "?bound = Execute c s r" | (preview) "preview_runs ?bound s r"
      using e DriverExecuted by (auto simp: may_cause_def execute_runs_def)
    then show ?thesis
    proof cases
      case execute
      have "target_facts p ?bound = Some f" using facts(1) by (simp add: target_facts_def)
      then have "\<not> is_mutating ?bound"
        using decided facts(2) execute
        by (auto simp: decide_default [OF gate] authorize_denied_iff marking_forbids_def)
      then have "\<not> request_is_mutating r" using execute by simp
      moreover have "g_read_only (w_gate w) cmd (marked_read_only ex0 cmd)"
        using facts by (simp add: gate default_gate_def retained_read_only_def)
      then have "request_is_mutating r \<or> limits_read_only (limits r)
          \<or> transaction_control r \<and> only_controls_transactions (w_lib w) r"
        using execute unfolding bounded_command_def by (metis bounded_to_bounds)
      ultimately show ?thesis using DriverExecuted by (auto simp: read_only_effect_def)
    next
      case preview
      then show ?thesis
        using DriverExecuted by (auto simp: read_only_effect_def preview_runs_def split: command.splits)
    qed
  qed (simp_all add: read_only_effect_def)
qed (rule is_audit_read_only)

lemma target_facts_reclassified [simp]:
  "target_facts p (reclassified lib pv sessions cmd) = target_facts p cmd"
  by (simp add: target_facts_def)

lemma dispatch_as_read_only:
  assumes "w_gate w = default_gate p" "target_facts p cmd = Some f" "fact_read_only f"
  shows "grows (read_only_effect (w_lib w)) ex (snd (dispatch_as w i a cmd cancel ex))"
proof (cases "decide w ex a (reclassified (w_lib w) (w_prover w) (ex_sessions ex) cmd) = Allow")
  case True
  then show ?thesis
    unfolding dispatch_as_allowed [OF True]
    by (intro run_command_read_only [OF assms(1) _ assms(3)]) (simp_all add: assms(2))
next
  case False
  then show ?thesis using dispatch_as_not_allowed is_audit_read_only by (blast intro: grows_mono)
qed

end
