(* ===== verification/Result_Buffer.thy ===== *)
theory Result_Buffer
  imports Connection_Types
begin

text \<open>
  The buffer of a result (\<open>crates/oxyn-data/src/buffer.rs\<close>), the file it spills to and the cache
  of pages read back (\<open>spill.rs\<close>), and the errors of the data layer (\<open>error.rs\<close>). A batch is an
  Arrow value: what the code asks of one is a record of operations, and \<open>arrow_ok\<close> states what
  Arrow documents of them. Rows and memory are counted in \<open>usize\<close>, a number with its saturation
  written out; each method takes its lock once or twice, and is one step.
\<close>

subsection \<open>Errors\<close>

datatype data_error =
    DSchemaMismatch string string
  | DAlreadyComplete
  | DFull string
  | DSpill string
  | DArrow string
  | DIo string
  | DUnsupportedFormat string
  | DIncompleteResult
  | DTruncatedResult
  | DDuplicateColumnNames string "string list"
  | DCancelled

definition data_is_retryable :: "data_error \<Rightarrow> bool" where
  "data_is_retryable e \<longleftrightarrow> (case e of DSpill _ \<Rightarrow> True | _ \<Rightarrow> False)"

text \<open>\<open>show\<close> renders the error.\<close>

fun data_to_oxyn :: "(data_error \<Rightarrow> string) \<Rightarrow> data_error \<Rightarrow> oxyn_error" where
  "data_to_oxyn show DCancelled = ECancelled"
| "data_to_oxyn show (DIo source) = EIo source"
| "data_to_oxyn show (DSpill source) = EIo source"
| "data_to_oxyn show (DUnsupportedFormat format) = ENotSupported (''export:'' @ format)"
| "data_to_oxyn show (DArrow source) = ESerialization (show (DArrow source))"
| "data_to_oxyn show (DSchemaMismatch a b) = ESerialization (show (DSchemaMismatch a b))"
| "data_to_oxyn show DTruncatedResult = EConfig (show DTruncatedResult)"
| "data_to_oxyn show (DDuplicateColumnNames f ns) = EConfig (show (DDuplicateColumnNames f ns))"
| "data_to_oxyn show e = EInternal (show e)"

subsection \<open>Machine sizes\<close>

definition usize_max :: nat where
  "usize_max = 2 ^ 64 - 1"

text \<open>\<open>usize::saturating_add\<close> and \<open>saturating_mul\<close>; a number of the code is at most \<open>usize_max\<close>.\<close>

definition usat_add :: "nat \<Rightarrow> nat \<Rightarrow> nat" where
  "usat_add a b = min (a + b) usize_max"

definition usat_mul :: "nat \<Rightarrow> nat \<Rightarrow> nat" where
  "usat_mul a b = min (a * b) usize_max"

lemma usat_add_mono: "b \<le> c \<Longrightarrow> usat_add a b \<le> usat_add a c"
  by (simp add: usat_add_def min_def)

lemma usat_add_exact: "a + b \<le> usize_max \<Longrightarrow> usat_add a b = a + b"
  by (simp add: usat_add_def)

text \<open>\<open>slice::get\<close>.\<close>

definition get_nth :: "'a list \<Rightarrow> nat \<Rightarrow> 'a option" where
  "get_nth xs i = (if i < length xs then Some (xs ! i) else None)"

subsection \<open>What Arrow does with a batch\<close>

record ('b, 'r) arrow =
  ar_rows :: "'b \<Rightarrow> 'r list"
  ar_fields :: "'b \<Rightarrow> string"
  ar_columns :: "'b \<Rightarrow> nat"
  ar_memory :: "'b \<Rightarrow> nat"
  ar_slice :: "'b \<Rightarrow> nat \<Rightarrow> 'b"
  ar_encode :: "'b \<Rightarrow> data_error + string"
  ar_decode :: "string \<Rightarrow> data_error + 'b option"
  ar_handle :: nat
  ar_column_handle :: nat

definition num_rows :: "('b, 'r) arrow \<Rightarrow> 'b \<Rightarrow> nat" where
  "num_rows a b = length (ar_rows a b)"

text \<open>A slice holds the first rows and no more memory, and a stream reads back as its batch.\<close>

definition arrow_ok :: "('b, 'r) arrow \<Rightarrow> bool" where
  "arrow_ok a \<longleftrightarrow> (\<forall>b n. ar_rows a (ar_slice a b n) = take n (ar_rows a b))
     \<and> (\<forall>b n. ar_memory a (ar_slice a b n) \<le> ar_memory a b)
     \<and> (\<forall>b s. ar_encode a b = Inr s \<longrightarrow> (\<exists>b'. ar_decode a s = Inr (Some b') \<and> ar_rows a b' = ar_rows a b))"

text \<open>Arrow buffers plus the cache entry and column handles.\<close>

definition retained_size :: "('b, 'r) arrow \<Rightarrow> 'b \<Rightarrow> nat" where
  "retained_size a b =
     usat_add (usat_add (ar_memory a b) (ar_handle a)) (usat_mul (ar_columns a b) (ar_column_handle a))"

subsection \<open>The spill file\<close>

record spill_ref =
  sr_offset :: nat
  sr_len :: nat
  sr_rows :: nat
  sr_retained :: nat

record spill_file =
  sf_bytes :: string
  sf_next :: nat

text \<open>How the disk answers a write: done, or failed after some bytes.\<close>

datatype disk = DiskWrites | DiskFails string string

definition write_at :: "nat \<Rightarrow> string \<Rightarrow> string \<Rightarrow> string" where
  "write_at offset bytes old = take offset old @ bytes @ drop (offset + length bytes) old"

definition spill_append ::
  "('b, 'r) arrow \<Rightarrow> disk \<Rightarrow> 'b \<Rightarrow> spill_file \<Rightarrow> (data_error + spill_ref) \<times> spill_file" where
  "spill_append a answer b f =
     (case ar_encode a b of
        Inl e \<Rightarrow> (Inl e, f)
      | Inr stream \<Rightarrow>
          (case answer of
             DiskFails why written \<Rightarrow>
               (Inl (DSpill why), f\<lparr>sf_bytes := write_at (sf_next f) written (sf_bytes f)\<rparr>)
           | DiskWrites \<Rightarrow>
               (Inr \<lparr>sr_offset = sf_next f, sr_len = length stream, sr_rows = num_rows a b,
                     sr_retained = retained_size a b\<rparr>,
                f\<lparr>sf_bytes := write_at (sf_next f) stream (sf_bytes f),
                  sf_next := sf_next f + length stream\<rparr>)))"

text \<open>The buffer is filled chunk by chunk; \<open>poll k\<close> is what the token answers at its \<open>k\<close>-th check,
  one before the file is read, one before each chunk, two after.\<close>

fun chunk_sizes :: "nat \<Rightarrow> nat list" where
  "chunk_sizes len = (if len = 0 then [] else min len (64 * 1024) # chunk_sizes (len - 64 * 1024))"

declare chunk_sizes.simps [simp del]

fun read_chunks :: "(nat \<Rightarrow> bool) \<Rightarrow> nat \<Rightarrow> nat list \<Rightarrow> nat \<Rightarrow> string \<Rightarrow> data_error + nat" where
  "read_chunks poll k [] offset bytes = Inr k"
| "read_chunks poll k (n # ns) offset bytes =
     (if poll k then Inl DCancelled
      else if length bytes < offset + n then Inl (DSpill ''failed to fill whole buffer'')
      else read_chunks poll (k + 1) ns (offset + n) bytes)"

definition spill_read ::
  "('b, 'r) arrow \<Rightarrow> (nat \<Rightarrow> bool) \<Rightarrow> spill_ref \<Rightarrow> spill_file \<Rightarrow> data_error + 'b" where
  "spill_read a poll ref f =
     (if poll 0 then Inl DCancelled
      else case read_chunks poll 1 (chunk_sizes (sr_len ref)) (sr_offset ref) (sf_bytes f) of
        Inl e \<Rightarrow> Inl e
      | Inr k \<Rightarrow>
          if poll k then Inl DCancelled
          else (case ar_decode a (take (sr_len ref) (drop (sr_offset ref) (sf_bytes f))) of
              Inl e \<Rightarrow> Inl e
            | Inr None \<Rightarrow> Inl (DSpill ''spilled batch is missing from the temporary file'')
            | Inr (Some b) \<Rightarrow>
                if num_rows a b \<noteq> sr_rows ref then Inl (DSpill ''spilled batch has other rows'')
                else if poll (k + 1) then Inl DCancelled
                else Inr b))"

lemma sum_chunk_sizes: "sum_list (chunk_sizes len) = len"
  by (induction len rule: chunk_sizes.induct) (subst chunk_sizes.simps, simp add: min_def)

lemma read_chunks_within:
  "offset + sum_list ns \<le> length bytes \<Longrightarrow>
   read_chunks poll k ns offset bytes
     = (if list_ex poll [k ..< k + length ns] then Inl DCancelled else Inr (k + length ns))"
  by (induction ns arbitrary: k offset) (simp_all add: upt_conv_Cons del: upt_Suc)

text \<open>What a reference reads when nothing stops it.\<close>

definition spilled_rows :: "('b, 'r) arrow \<Rightarrow> spill_file \<Rightarrow> spill_ref \<Rightarrow> 'r list" where
  "spilled_rows a f ref =
     (case spill_read a (\<lambda>_. False) ref f of Inl _ \<Rightarrow> [] | Inr b \<Rightarrow> ar_rows a b)"

definition ref_ok :: "('b, 'r) arrow \<Rightarrow> spill_file \<Rightarrow> spill_ref \<Rightarrow> bool" where
  "ref_ok a f ref \<longleftrightarrow> sr_offset ref + sr_len ref \<le> sf_next f
     \<and> (\<exists>b. spill_read a (\<lambda>_. False) ref f = Inr b \<and> length (ar_rows a b) = sr_rows ref)"

text \<open>A write leaves what was stored before as it was.\<close>

lemma write_at_before:
  "offset \<le> length old \<Longrightarrow> i + n \<le> offset \<Longrightarrow>
   take n (drop i (write_at offset bytes old)) = take n (drop i old)"
  by (simp add: write_at_def take_drop min_def)

lemma length_write_at: "offset \<le> length old \<Longrightarrow> offset + length bytes \<le> length (write_at offset bytes old)"
  by (simp add: write_at_def)

lemma length_write_at_ge: "offset \<le> length old \<Longrightarrow> length old \<le> length (write_at offset bytes old)"
  by (simp add: write_at_def)

lemma spill_read_frame:
  assumes "sr_offset ref + sr_len ref \<le> sf_next f" "sf_next f \<le> length (sf_bytes f)"
    "sf_bytes f' = write_at (sf_next f) bytes (sf_bytes f)"
  shows "spill_read a poll ref f' = spill_read a poll ref f"
proof -
  have "length (sf_bytes f) \<le> length (sf_bytes f')"
    using assms length_write_at_ge by metis
  then have chunks: "read_chunks poll 1 (chunk_sizes (sr_len ref)) (sr_offset ref) (sf_bytes f')
      = read_chunks poll 1 (chunk_sizes (sr_len ref)) (sr_offset ref) (sf_bytes f)"
    using assms(1,2) by (simp add: read_chunks_within sum_chunk_sizes)
  have bytes: "take (sr_len ref) (drop (sr_offset ref) (sf_bytes f'))
      = take (sr_len ref) (drop (sr_offset ref) (sf_bytes f))"
    using assms write_at_before by metis
  show ?thesis by (simp only: spill_read_def chunks bytes)
qed

lemma ref_ok_frame:
  assumes "ref_ok a f ref" "sf_next f \<le> length (sf_bytes f)"
    "sf_bytes f' = write_at (sf_next f) bytes (sf_bytes f)" "sf_next f \<le> sf_next f'"
  shows "ref_ok a f' ref" "spilled_rows a f' ref = spilled_rows a f ref"
  using assms spill_read_frame [of ref f f' bytes a "\<lambda>_. False"]
  by (auto simp: ref_ok_def spilled_rows_def)

lemma spill_append_ok:
  assumes "arrow_ok a" "sf_next f \<le> length (sf_bytes f)" "spill_append a answer b f = (Inr ref, f')"
  shows "ref_ok a f' ref" "spilled_rows a f' ref = ar_rows a b" "sr_rows ref = num_rows a b"
    "sf_next f' \<le> length (sf_bytes f')"
    "\<exists>stream. sf_bytes f' = write_at (sf_next f) stream (sf_bytes f)" "sf_next f \<le> sf_next f'"
proof -
  from assms(3) obtain stream where s: "ar_encode a b = Inr stream"
      "f' = f\<lparr>sf_bytes := write_at (sf_next f) stream (sf_bytes f), sf_next := sf_next f + length stream\<rparr>"
      "ref = \<lparr>sr_offset = sf_next f, sr_len = length stream, sr_rows = num_rows a b,
              sr_retained = retained_size a b\<rparr>"
    by (auto simp: spill_append_def split: sum.splits disk.splits)
  from assms(1) s(1) obtain b' where b': "ar_decode a stream = Inr (Some b')" "ar_rows a b' = ar_rows a b"
    unfolding arrow_ok_def by blast
  have stored: "take (length stream) (drop (sf_next f) (write_at (sf_next f) stream (sf_bytes f))) = stream"
    using assms(2) by (simp add: write_at_def)
  have len: "sf_next f + length stream \<le> length (sf_bytes f')"
    using length_write_at [OF assms(2), of stream] s(2) by simp
  have "spill_read a (\<lambda>_. False) ref f' = Inr b'"
    using len stored b' s(2,3)
    by (simp add: spill_read_def read_chunks_within sum_chunk_sizes list_ex_iff num_rows_def)
  with b' s(2,3) show "ref_ok a f' ref" "spilled_rows a f' ref = ar_rows a b"
    by (simp_all add: ref_ok_def spilled_rows_def num_rows_def)
  show "sr_rows ref = num_rows a b" "sf_next f' \<le> length (sf_bytes f')"
    "\<exists>stream. sf_bytes f' = write_at (sf_next f) stream (sf_bytes f)" "sf_next f \<le> sf_next f'"
    using s(2,3) len by auto
qed

lemma spill_append_failed:
  assumes "spill_append a answer b f = (Inl e, f')"
  shows "\<exists>stream. sf_bytes f' = write_at (sf_next f) stream (sf_bytes f) \<and> sf_next f' = sf_next f"
proof (cases "ar_encode a b")
  case Inl
  with assms have "f' = f" by (simp add: spill_append_def)
  then show ?thesis by (intro exI [of _ "[]"]) (simp add: write_at_def)
next
  case (Inr stream)
  with assms show ?thesis by (cases answer) (auto simp: spill_append_def)
qed

subsection \<open>The cache of pages read back\<close>

text \<open>\<open>pc_allocated\<close> is the capacity of the queue: \<open>reserve_exact(1)\<close> makes room for one more
  entry, \<open>shrink_to_fit\<close> keeps none to spare.\<close>

record 'b page_cache =
  pc_entries :: "(nat \<times> 'b) list"
  pc_allocated :: nat
  pc_capacity :: nat
  pc_bytes :: nat

definition page_cache_new :: "nat \<Rightarrow> 'b page_cache" where
  "page_cache_new n = \<lparr>pc_entries = [], pc_allocated = 0, pc_capacity = n, pc_bytes = 0\<rparr>"

definition pages_retained :: "('b, 'r) arrow \<Rightarrow> 'b page_cache \<Rightarrow> nat" where
  "pages_retained a c = usat_add (pc_bytes c) (usat_mul (pc_allocated c) (ar_handle a))"

definition page_get :: "nat \<Rightarrow> 'b page_cache \<Rightarrow> 'b option \<times> 'b page_cache" where
  "page_get i c =
     (case find_key fst i (pc_entries c) of
        None \<Rightarrow> (None, c)
      | Some e \<Rightarrow> (Some (snd e), c\<lparr>pc_entries := remove_key fst i (pc_entries c) @ [e]\<rparr>))"

definition page_bytes :: "('b, 'r) arrow \<Rightarrow> 'b \<Rightarrow> nat" where
  "page_bytes a b = retained_size a b - ar_handle a"

function evict_pages :: "('b, 'r) arrow \<Rightarrow> nat \<Rightarrow> 'b page_cache \<Rightarrow> bool \<times> 'b page_cache" where
  "evict_pages a bytes c =
     (if usat_add (pages_retained a c) bytes \<le> pc_capacity c then (True, c)
      else (case pc_entries c of
          [] \<Rightarrow> (False, c)
        | (_, oldest) # rest \<Rightarrow>
            evict_pages a bytes (c\<lparr>pc_entries := rest, pc_bytes := pc_bytes c - page_bytes a oldest,
                                   pc_allocated := length rest + 1\<rparr>)))"
  by pat_completeness auto
termination
  by (relation "measure (\<lambda>(_, _, c). length (pc_entries c))") auto

declare evict_pages.simps [simp del]

definition page_insert :: "('b, 'r) arrow \<Rightarrow> nat \<Rightarrow> 'b \<Rightarrow> 'b page_cache \<Rightarrow> 'b page_cache" where
  "page_insert a i b c =
     (let bytes = page_bytes a b in
      if pc_capacity c < usat_add bytes (ar_handle a) then c
      else if find_key fst i (pc_entries c) \<noteq> None then c
      else case evict_pages a bytes (c\<lparr>pc_allocated := max (pc_allocated c) (length (pc_entries c) + 1)\<rparr>) of
        (False, c') \<Rightarrow> c'
      | (True, c') \<Rightarrow>
          c'\<lparr>pc_bytes := usat_add (pc_bytes c') bytes, pc_entries := pc_entries c' @ [(i, b)],
             pc_allocated := max (pc_allocated c') (length (pc_entries c') + 1)\<rparr>)"

definition pages_total :: "('b, 'r) arrow \<Rightarrow> 'b page_cache \<Rightarrow> nat" where
  "pages_total a c = sum_list (map (page_bytes a \<circ> snd) (pc_entries c))"

text \<open>The accounting is exact, and what is retained fits.\<close>

definition page_cache_ok :: "('b, 'r) arrow \<Rightarrow> 'b page_cache \<Rightarrow> bool" where
  "page_cache_ok a c \<longleftrightarrow> distinct (map fst (pc_entries c)) \<and> pc_bytes c = pages_total a c
     \<and> pc_allocated c = length (pc_entries c) \<and> pc_capacity c < usize_max
     \<and> pages_total a c + length (pc_entries c) * ar_handle a \<le> pc_capacity c"

lemma usat_add_le_iff: "c < usize_max \<Longrightarrow> usat_add a b \<le> c \<longleftrightarrow> a + b \<le> c"
  by (auto simp: usat_add_def min_def)

lemma room_iff:
  assumes "pc_capacity c < usize_max"
  shows "usat_add (pages_retained a c) bytes \<le> pc_capacity c
    \<longleftrightarrow> pc_bytes c + pc_allocated c * ar_handle a + bytes \<le> pc_capacity c"
  using assms by (auto simp: pages_retained_def usat_add_def usat_mul_def min_def)

lemma evict_pages_ok:
  assumes "distinct (map fst (pc_entries c))" "pc_bytes c = pages_total a c"
    "pc_allocated c = length (pc_entries c) + 1" "pc_capacity c < usize_max"
    "bytes + ar_handle a \<le> pc_capacity c"
  shows "\<exists>k. evict_pages a bytes c = (True, c\<lparr>pc_entries := drop k (pc_entries c),
       pc_bytes := sum_list (map (page_bytes a \<circ> snd) (drop k (pc_entries c))),
       pc_allocated := length (drop k (pc_entries c)) + 1\<rparr>)
     \<and> sum_list (map (page_bytes a \<circ> snd) (drop k (pc_entries c))) + bytes
        + (length (drop k (pc_entries c)) + 1) * ar_handle a \<le> pc_capacity c"
  using assms
proof (induction "pc_entries c" arbitrary: c)
  case Nil
  then have "usat_add (pages_retained a c) bytes \<le> pc_capacity c"
    by (subst room_iff) (simp_all add: pages_total_def)
  with Nil show ?case
    by (intro exI [of _ 0]) (simp add: evict_pages.simps [of a bytes c] pages_total_def)
next
  case (Cons e rest)
  show ?case
  proof (cases "usat_add (pages_retained a c) bytes \<le> pc_capacity c")
    case True
    then have "pc_bytes c + pc_allocated c * ar_handle a + bytes \<le> pc_capacity c"
      using room_iff Cons.prems(4) by blast
    with True Cons.prems show ?thesis
      by (intro exI [of _ 0]) (simp add: evict_pages.simps [of a bytes c] pages_total_def)
  next
    case False
    let ?c = "c\<lparr>pc_entries := rest, pc_bytes := pc_bytes c - page_bytes a (snd e),
                pc_allocated := length rest + 1\<rparr>"
    have step: "evict_pages a bytes c = evict_pages a bytes ?c"
      using False Cons.hyps(2) [symmetric]
      by (subst evict_pages.simps) (simp add: case_prod_beta)
    have "rest = pc_entries ?c" "distinct (map fst (pc_entries ?c))" "pc_bytes ?c = pages_total a ?c"
      using Cons.prems(1,2) Cons.hyps(2) [symmetric] by (simp_all add: pages_total_def)
    from Cons.hyps(1) [OF this] Cons.prems(4,5) obtain k where
      "evict_pages a bytes ?c = (True, c\<lparr>pc_entries := drop k rest,
         pc_bytes := sum_list (map (page_bytes a \<circ> snd) (drop k rest)),
         pc_allocated := length (drop k rest) + 1\<rparr>)"
      "sum_list (map (page_bytes a \<circ> snd) (drop k rest)) + bytes
        + (length (drop k rest) + 1) * ar_handle a \<le> pc_capacity c"
      by auto
    with step Cons.hyps(2) [symmetric] show ?thesis by (intro exI [of _ "Suc k"]) simp
  qed
qed

lemma page_insert_ok:
  assumes "page_cache_ok a c"
  shows "page_cache_ok a (page_insert a i b c)"
proof (cases "pc_capacity c < usat_add (page_bytes a b) (ar_handle a) \<or> find_key fst i (pc_entries c) \<noteq> None")
  case True
  then have "page_insert a i b c = c" by (auto simp: page_insert_def Let_def)
  with assms show ?thesis by simp
next
  case False
  let ?bytes = "page_bytes a b"
  let ?c = "c\<lparr>pc_allocated := length (pc_entries c) + 1\<rparr>"
  have ok: "distinct (map fst (pc_entries c))" "pc_bytes c = pages_total a c"
    "pc_allocated c = length (pc_entries c)" "pc_capacity c < usize_max"
    using assms by (simp_all add: page_cache_ok_def)
  have "?bytes + ar_handle a \<le> pc_capacity c"
    using False ok(4) by (metis linorder_not_less usat_add_le_iff)
  then obtain k where
    k: "evict_pages a ?bytes ?c = (True, c\<lparr>pc_entries := drop k (pc_entries c),
       pc_bytes := sum_list (map (page_bytes a \<circ> snd) (drop k (pc_entries c))),
       pc_allocated := length (drop k (pc_entries c)) + 1\<rparr>)"
    and room: "sum_list (map (page_bytes a \<circ> snd) (drop k (pc_entries c))) + ?bytes
        + (length (drop k (pc_entries c)) + 1) * ar_handle a \<le> pc_capacity c"
    using evict_pages_ok [of ?c a ?bytes] ok by (auto simp: pages_total_def)
  have "i \<notin> set (drop k (map fst (pc_entries c)))"
    using False by (auto simp: find_key_None_iff dest!: in_set_dropD)
  moreover have "usat_add (sum_list (map (page_bytes a \<circ> snd) (drop k (pc_entries c)))) ?bytes
      = sum_list (map (page_bytes a \<circ> snd) (drop k (pc_entries c))) + ?bytes"
    using room ok(4) by (intro usat_add_exact) linarith
  ultimately show ?thesis
    using False k room ok
    by (simp add: page_insert_def Let_def page_cache_ok_def pages_total_def drop_map [symmetric] distinct_drop)
qed

lemma page_get_ok:
  assumes "page_cache_ok a c"
  shows "page_cache_ok a (snd (page_get i c))"
proof (cases "find_key fst i (pc_entries c)")
  case None
  with assms show ?thesis by (simp add: page_get_def)
next
  case (Some e)
  then obtain xs ys where split: "pc_entries c = xs @ e # ys" "fst e = i"
    by (metis find_key_SomeD split_list)
  have distinct: "distinct (map fst (xs @ e # ys))" "fst e = i"
    using assms split by (simp_all add: page_cache_ok_def)
  then have "i \<notin> fst ` set xs" "i \<notin> fst ` set ys" by auto
  then have "\<forall>x \<in> set xs. fst x \<noteq> i" "\<forall>x \<in> set ys. fst x \<noteq> i" by (metis image_eqI)+
  then have kept: "remove_key fst i (pc_entries c) = xs @ ys"
    using split by (simp add: remove_key_def filter_id_conv)
  have get: "snd (page_get i c) = c\<lparr>pc_entries := (xs @ ys) @ [e]\<rparr>"
    using Some kept by (simp add: page_get_def)
  have "pages_total a (snd (page_get i c)) = pages_total a c"
    by (simp add: get pages_total_def split(1))
  with assms show ?thesis
    by (simp add: page_cache_ok_def get split(1))
qed

subsection \<open>Bounds and pressure\<close>

record buffer_limits =
  bl_memory :: nat
  bl_max_rows :: "nat option"
  bl_max_spill :: "nat option"
  bl_allow_spill :: bool

definition default_buffer_limits :: buffer_limits where
  "default_buffer_limits =
     \<lparr>bl_memory = 256 * 1024 * 1024, bl_max_rows = None, bl_max_spill = None, bl_allow_spill = True\<rparr>"

definition cache_budget :: "buffer_limits \<Rightarrow> nat" where
  "cache_budget l = (if bl_allow_spill l then bl_memory l div 4 else 0)"

definition resident_budget :: "buffer_limits \<Rightarrow> nat" where
  "resident_budget l = bl_memory l - cache_budget l"

datatype pressure = PReady | PRowLimit | PSaturated | PComplete

definition pressure_accepts :: "pressure \<Rightarrow> bool" where
  "pressure_accepts p \<longleftrightarrow> p = PReady"

subsection \<open>The index of the batches\<close>

datatype 'b slot = Resident 'b | Spilled spill_ref

record 'b buffer_index =
  bi_starts :: "nat list"
  bi_slots :: "'b slot list"
  bi_rows :: nat
  bi_resident :: nat
  bi_spilled :: nat
  bi_spilled_batches :: nat
  bi_complete :: bool
  bi_stats :: exec_stats

definition buffer_index_new :: "'b buffer_index" where
  "buffer_index_new =
     \<lparr>bi_starts = [], bi_slots = [], bi_rows = 0, bi_resident = 0, bi_spilled = 0,
      bi_spilled_batches = 0, bi_complete = False, bi_stats = default_stats\<rparr>"

record push_plan =
  pp_keep_rows :: "nat option"
  pp_truncated :: bool
  pp_spill :: bool

text \<open>The fate of an incoming batch, decided without changing anything.\<close>

definition plan_rows :: "buffer_limits \<Rightarrow> nat \<Rightarrow> nat \<Rightarrow> data_error + nat option \<times> bool" where
  "plan_rows l held rows =
     (case bl_max_rows l of None \<Rightarrow> Inr (None, False)
      | Some most \<Rightarrow>
          let rest = most - held in
          if rest = 0 then Inl (DFull ''row limit reached'')
          else if rest < rows then Inr (Some rest, True) else Inr (None, False))"

definition plan_spill :: "buffer_limits \<Rightarrow> 'b buffer_index \<Rightarrow> nat \<Rightarrow> data_error + bool" where
  "plan_spill l ix bytes =
     (if usat_add (bi_resident ix) bytes \<le> bl_memory l then Inr False
      else if \<not> bl_allow_spill l then Inl (DFull ''memory budget reached and spilling is disabled'')
      else (case bl_max_spill l of None \<Rightarrow> Inr True
        | Some quota \<Rightarrow>
            if quota < usat_add (bi_spilled ix) bytes then Inl (DFull ''spill quota reached'')
            else Inr True))"

definition plan :: "buffer_limits \<Rightarrow> 'b buffer_index \<Rightarrow> nat \<Rightarrow> nat \<Rightarrow> data_error + push_plan" where
  "plan l ix rows bytes =
     (if bi_complete ix then Inl DAlreadyComplete
      else case plan_rows l (bi_rows ix) rows of Inl e \<Rightarrow> Inl e
      | Inr (keep, trimmed) \<Rightarrow>
          (case plan_spill l ix bytes of Inl e \<Rightarrow> Inl e
           | Inr spill \<Rightarrow> Inr \<lparr>pp_keep_rows = keep, pp_truncated = trimmed, pp_spill = spill\<rparr>))"

definition index_append :: "'b slot \<Rightarrow> nat \<Rightarrow> nat \<Rightarrow> 'b buffer_index \<Rightarrow> nat \<times> 'b buffer_index" where
  "index_append sl rows bytes ix =
     (length (bi_slots ix),
      (case sl of
         Resident _ \<Rightarrow> ix\<lparr>bi_resident := usat_add (bi_resident ix) bytes\<rparr>
       | Spilled ref \<Rightarrow> ix\<lparr>bi_spilled := usat_add (bi_spilled ix) (sr_len ref),
                         bi_spilled_batches := usat_add (bi_spilled_batches ix) 1\<rparr>)
        \<lparr>bi_starts := bi_starts ix @ [bi_rows ix], bi_slots := bi_slots ix @ [sl],
         bi_rows := usat_add (bi_rows ix) rows\<rparr>)"

subsection \<open>The buffer\<close>

record 'b data_buffer =
  db_fields :: string
  db_limits :: buffer_limits
  db_index :: "'b buffer_index"
  db_spill :: "spill_file option"
  db_cache :: "'b page_cache"

definition buffer_with_limits :: "string \<Rightarrow> buffer_limits \<Rightarrow> 'b data_buffer" where
  "buffer_with_limits columns l =
     \<lparr>db_fields = columns, db_limits = l, db_index = buffer_index_new, db_spill = None,
      db_cache = page_cache_new (cache_budget l)\<rparr>"

definition buffer_pressure :: "'b data_buffer \<Rightarrow> pressure" where
  "buffer_pressure b =
     (let ix = db_index b; l = db_limits b in
      if bi_complete ix then PComplete
      else if (case bl_max_rows l of None \<Rightarrow> False | Some most \<Rightarrow> most \<le> bi_rows ix) then PRowLimit
      else if resident_budget l \<le> bi_resident ix \<and> \<not> bl_allow_spill l then PSaturated
      else if resident_budget l \<le> bi_resident ix
           \<and> (case bl_max_spill l of None \<Rightarrow> False | Some quota \<Rightarrow> quota \<le> bi_spilled ix) then PSaturated
      else PReady)"

definition remaining_rows :: "'b data_buffer \<Rightarrow> nat option" where
  "remaining_rows b = map_option (\<lambda>most. most - bi_rows (db_index b)) (bl_max_rows (db_limits b))"

definition check_schema :: "('b, 'r) arrow \<Rightarrow> 'b \<Rightarrow> 'b data_buffer \<Rightarrow> data_error + unit" where
  "check_schema a batch b =
     (if ar_fields a batch = db_fields b then Inr ()
      else Inl (DSchemaMismatch (db_fields b) (ar_fields a batch)))"

text \<open>How the disk answers a push: whether the file can be created, and how the write goes.\<close>

record disk_answer =
  da_create :: "string option"
  da_write :: disk

definition spill_file_of :: "disk_answer \<Rightarrow> 'b data_buffer \<Rightarrow> data_error + spill_file" where
  "spill_file_of d b =
     (case db_spill b of Some f \<Rightarrow> Inr f
      | None \<Rightarrow> (case da_create d of Some why \<Rightarrow> Inl (DSpill why) | None \<Rightarrow> Inr \<lparr>sf_bytes = [], sf_next = 0\<rparr>))"

text \<open>Places a kept batch: in memory, or in the spill file.\<close>

definition place ::
  "('b, 'r) arrow \<Rightarrow> disk_answer \<Rightarrow> bool \<Rightarrow> 'b \<Rightarrow> 'b data_buffer \<Rightarrow> (data_error + 'b slot) \<times> 'b data_buffer" where
  "place a d spill batch b =
     (if \<not> spill then (Inr (Resident batch), b)
      else case spill_file_of d b of Inl e \<Rightarrow> (Inl e, b)
      | Inr f \<Rightarrow>
          (case spill_append a (da_write d) batch f of
             (answer, f') \<Rightarrow> (map_sum id Spilled answer, b\<lparr>db_spill := Some f'\<rparr>)))"

definition push ::
  "('b, 'r) arrow \<Rightarrow> disk_answer \<Rightarrow> 'b \<Rightarrow> 'b data_buffer \<Rightarrow> (data_error + nat option) \<times> 'b data_buffer" where
  "push a d batch b =
     (if num_rows a batch = 0 then (Inr None, b)
      else case check_schema a batch b of Inl e \<Rightarrow> (Inl e, b)
      | Inr _ \<Rightarrow>
        (case plan ((db_limits b)\<lparr>bl_memory := resident_budget (db_limits b)\<rparr>) (db_index b)
                (num_rows a batch) (ar_memory a batch) of
           Inl e \<Rightarrow> (Inl e, b)
         | Inr p \<Rightarrow>
             (let kept = (case pp_keep_rows p of None \<Rightarrow> batch | Some n \<Rightarrow> ar_slice a batch n);
                  rows = num_rows a kept; bytes = ar_memory a kept
              in case place a d (pp_spill p) kept b of
                   (Inl e, b1) \<Rightarrow> (Inl e, b1)
                 | (Inr sl, b1) \<Rightarrow>
                     if bi_complete (db_index b1) then (Inl DAlreadyComplete, b1)
                     else
                     (case index_append sl rows bytes (db_index b1) of
                        (position, ix) \<Rightarrow>
                          (let stats = record_batch (of_nat rows) (of_nat bytes) (bi_stats ix)
                           in (Inr (Some position),
                               b1\<lparr>db_index := ix\<lparr>bi_stats :=
                                 (if pp_truncated p then mark_truncated stats else stats)\<rparr>\<rparr>))))))"

definition mark_complete :: "exec_stats \<Rightarrow> 'b data_buffer \<Rightarrow> 'b data_buffer" where
  "mark_complete stats b =
     (let count = bi_stats (db_index b);
          filled = stats\<lparr>stat_rows := (if stat_rows stats = 0 then stat_rows count else stat_rows stats),
                         stat_bytes := (if stat_bytes stats = 0 then stat_bytes count else stat_bytes stats),
                         stat_batches := (if stat_batches stats = 0 then stat_batches count
                                          else stat_batches stats)\<rparr>
      in b\<lparr>db_index := (db_index b)\<lparr>bi_stats := (if truncated count then mark_truncated filled else filled),
                                    bi_complete := True\<rparr>\<rparr>)"

definition buffer_mark_truncated :: "'b data_buffer \<Rightarrow> 'b data_buffer" where
  "buffer_mark_truncated b =
     b\<lparr>db_index := (db_index b)\<lparr>bi_stats := mark_truncated (bi_stats (db_index b))\<rparr>\<rparr>"

subsection \<open>Reading\<close>

text \<open>\<open>slice::partition_point\<close>: how many elements the predicate holds of, when it holds of a prefix.\<close>

definition partition_point :: "('a \<Rightarrow> bool) \<Rightarrow> 'a list \<Rightarrow> nat" where
  "partition_point p xs = length (takeWhile p xs)"

definition locate :: "nat \<Rightarrow> 'b data_buffer \<Rightarrow> (nat \<times> nat) option" where
  "locate row b =
     (let ix = db_index b in
      if bi_rows ix \<le> row then None
      else let found = partition_point (\<lambda>start. start \<le> row) (bi_starts ix) in
        if found = 0 then None
        else (case get_nth (bi_starts ix) (found - 1) of None \<Rightarrow> None
          | Some start \<Rightarrow> Some (found - 1, row - start)))"

definition batch_rows :: "nat \<Rightarrow> 'b data_buffer \<Rightarrow> nat option" where
  "batch_rows i b =
     (case get_nth (bi_starts (db_index b)) i of None \<Rightarrow> None
      | Some start \<Rightarrow>
          Some ((case get_nth (bi_starts (db_index b)) (i + 1) of None \<Rightarrow> bi_rows (db_index b)
                 | Some next \<Rightarrow> next) - start))"

definition batch_start :: "nat \<Rightarrow> 'b data_buffer \<Rightarrow> nat option" where
  "batch_start i b = get_nth (bi_starts (db_index b)) i"

definition is_resident :: "nat \<Rightarrow> 'b data_buffer \<Rightarrow> bool" where
  "is_resident i b \<longleftrightarrow> (case get_nth (bi_slots (db_index b)) i of Some (Resident _) \<Rightarrow> True | _ \<Rightarrow> False)"

text \<open>Polls of the token: \<open>c1\<close> first, then those of the read, \<open>c2\<close> before the page is kept.\<close>

definition batch_cancellable ::
  "('b, 'r) arrow \<Rightarrow> bool \<Rightarrow> (nat \<Rightarrow> bool) \<Rightarrow> bool \<Rightarrow> nat \<Rightarrow> 'b data_buffer
   \<Rightarrow> (data_error + 'b option) \<times> 'b data_buffer" where
  "batch_cancellable a c1 poll c2 i b =
     (if c1 then (Inl DCancelled, b)
      else case get_nth (bi_slots (db_index b)) i of
        None \<Rightarrow> (Inr None, b)
      | Some (Resident batch) \<Rightarrow> (Inr (Some batch), b)
      | Some (Spilled ref) \<Rightarrow>
          (case page_get i (db_cache b) of
             (Some batch, cache) \<Rightarrow> (Inr (Some batch), b\<lparr>db_cache := cache\<rparr>)
           | (None, _) \<Rightarrow>
               (case db_spill b of
                  None \<Rightarrow> (Inl (DSpill ''spill file is missing while a batch claims to live in it''), b)
                | Some f \<Rightarrow>
                    (case spill_read a poll ref f of
                       Inl e \<Rightarrow> (Inl e, b)
                     | Inr batch \<Rightarrow>
                         (case check_schema a batch b of Inl e \<Rightarrow> (Inl e, b)
                          | Inr _ \<Rightarrow>
                              if c2 then (Inl DCancelled, b)
                              else (Inr (Some batch),
                                    b\<lparr>db_cache := page_insert a i batch (db_cache b)\<rparr>))))))"

text \<open>\<open>try_read\<close> and \<open>try_lock\<close> give up at once when the lock is held.\<close>

definition cached_batch :: "bool \<Rightarrow> bool \<Rightarrow> nat \<Rightarrow> 'b data_buffer \<Rightarrow> 'b option \<times> 'b data_buffer" where
  "cached_batch index_held cache_held i b =
     (if index_held then (None, b)
      else case get_nth (bi_slots (db_index b)) i of
        None \<Rightarrow> (None, b)
      | Some (Resident batch) \<Rightarrow> (Some batch, b)
      | Some (Spilled _) \<Rightarrow>
          if cache_held then (None, b)
          else (case page_get i (db_cache b) of (found, cache) \<Rightarrow> (found, b\<lparr>db_cache := cache\<rparr>)))"

definition load_page ::
  "('b, 'r) arrow \<Rightarrow> bool \<Rightarrow> bool \<Rightarrow> (nat \<Rightarrow> bool) \<Rightarrow> bool \<Rightarrow> bool \<Rightarrow> nat \<Rightarrow> 'b data_buffer
   \<Rightarrow> (data_error + bool) \<times> 'b data_buffer" where
  "load_page a c0 c1 poll c2 c3 i b =
     (if c0 then (Inl DCancelled, b)
      else case get_nth (bi_slots (db_index b)) i of
        None \<Rightarrow> (Inr False, b)
      | Some (Resident _) \<Rightarrow> (Inr True, b)
      | Some (Spilled ref) \<Rightarrow>
          if cache_budget (db_limits b) < sr_retained ref
          then (Inl (DFull ''result page exceeds the display cache budget; exporting remains available''), b)
          else (case batch_cancellable a c1 poll c2 i b of
              (Inl e, b1) \<Rightarrow> (Inl e, b1)
            | (Inr None, b1) \<Rightarrow> (Inr False, b1)
            | (Inr (Some batch), b1) \<Rightarrow>
                if c3 then (Inl DCancelled, b1)
                else if pc_capacity (db_cache b1) < retained_size a batch
                then (Inl (DFull ''decoded result page exceeds the display cache budget; exporting remains available''), b1)
                else (Inr True, b1)))"

definition read_row ::
  "('b, 'r) arrow \<Rightarrow> bool \<Rightarrow> (nat \<Rightarrow> bool) \<Rightarrow> bool \<Rightarrow> nat \<Rightarrow> 'b data_buffer
   \<Rightarrow> (data_error + ('b \<times> nat) option) \<times> 'b data_buffer" where
  "read_row a c1 poll c2 row b =
     (case locate row b of None \<Rightarrow> (Inr None, b)
      | Some (i, offset) \<Rightarrow>
          (case batch_cancellable a c1 poll c2 i b of
             (answer, b1) \<Rightarrow> (map_sum id (map_option (\<lambda>batch. (batch, offset))) answer, b1)))"

subsection \<open>What a buffer holds\<close>

definition slot_rows :: "('b, 'r) arrow \<Rightarrow> 'b data_buffer \<Rightarrow> 'b slot \<Rightarrow> 'r list" where
  "slot_rows a b sl =
     (case sl of Resident batch \<Rightarrow> ar_rows a batch
      | Spilled ref \<Rightarrow> (case db_spill b of None \<Rightarrow> [] | Some f \<Rightarrow> spilled_rows a f ref))"

text \<open>The result as the list of its rows, from the first batch received to the last.\<close>

definition buffer_rows :: "('b, 'r) arrow \<Rightarrow> 'b data_buffer \<Rightarrow> 'r list" where
  "buffer_rows a b = concat (map (slot_rows a b) (bi_slots (db_index b)))"

text \<open>Where each batch begins, counted from \<open>n\<close>.\<close>

fun starts_from :: "nat \<Rightarrow> nat list \<Rightarrow> nat list" where
  "starts_from n [] = []"
| "starts_from n (m # ms) = n # starts_from (n + m) ms"

definition slot_ok :: "('b, 'r) arrow \<Rightarrow> 'b data_buffer \<Rightarrow> 'b slot \<Rightarrow> bool" where
  "slot_ok a b sl \<longleftrightarrow> slot_rows a b sl \<noteq> []
     \<and> (case sl of Resident _ \<Rightarrow> True
        | Spilled ref \<Rightarrow> (case db_spill b of None \<Rightarrow> False | Some f \<Rightarrow> ref_ok a f ref))"

definition limits_ok :: "buffer_limits \<Rightarrow> bool" where
  "limits_ok l \<longleftrightarrow> bl_memory l \<le> usize_max
     \<and> (case bl_max_rows l of None \<Rightarrow> True | Some n \<Rightarrow> n \<le> usize_max)"

definition file_ok :: "'b data_buffer \<Rightarrow> bool" where
  "file_ok b \<longleftrightarrow> (case db_spill b of None \<Rightarrow> True | Some f \<Rightarrow> sf_next f \<le> length (sf_bytes f))"

definition at_most_rows :: "nat option \<Rightarrow> nat \<Rightarrow> bool" where
  "at_most_rows most n \<longleftrightarrow> (case most of None \<Rightarrow> True | Some m \<Rightarrow> n \<le> m)"

definition buffer_inv :: "('b, 'r) arrow \<Rightarrow> 'b data_buffer \<Rightarrow> bool" where
  "buffer_inv a b \<longleftrightarrow> arrow_ok a \<and> limits_ok (db_limits b)
     \<and> (\<forall>sl \<in> set (bi_slots (db_index b)). slot_ok a b sl)
     \<and> bi_starts (db_index b) = starts_from 0 (map (length \<circ> slot_rows a b) (bi_slots (db_index b)))
     \<and> bi_rows (db_index b) = length (buffer_rows a b) \<and> bi_rows (db_index b) \<le> usize_max
     \<and> at_most_rows (bl_max_rows (db_limits b)) (bi_rows (db_index b))
     \<and> bi_resident (db_index b) \<le> resident_budget (db_limits b)
     \<and> file_ok b \<and> page_cache_ok a (db_cache b) \<and> pc_capacity (db_cache b) = cache_budget (db_limits b)"

lemma starts_from_append: "starts_from n (ms @ [m]) = starts_from n ms @ [n + sum_list ms]"
  by (induction ms arbitrary: n) (simp_all add: add.assoc)

lemma length_starts_from [simp]: "length (starts_from n ms) = length ms"
  by (induction ms arbitrary: n) simp_all

lemma starts_from_ge: "s \<in> set (starts_from n ms) \<Longrightarrow> n \<le> s"
  by (induction ms arbitrary: n) force+

lemma nth_starts_from: "i < length ms \<Longrightarrow> starts_from n ms ! i = n + sum_list (take i ms)"
  by (induction ms arbitrary: n i) (auto simp: nth_Cons' take_Cons' add.assoc)

text \<open>The starts not after a row are those of its batch and of the ones before.\<close>

lemma partition_point_starts:
  assumes "\<forall>m \<in> set ms. 0 < m" "n \<le> row" "row < n + sum_list ms"
  shows "\<exists>i. partition_point (\<lambda>s. s \<le> row) (starts_from n ms) = Suc i \<and> i < length ms
    \<and> n + sum_list (take i ms) \<le> row \<and> row < n + sum_list (take i ms) + ms ! i"
  using assms
proof (induction ms arbitrary: n)
  case (Cons m ms)
  show ?case
  proof (cases "row < n + m")
    case True
    have "takeWhile (\<lambda>s. s \<le> row) (starts_from (n + m) ms) = []"
      using True by (cases ms) auto
    with True Cons.prems show ?thesis by (intro exI [of _ 0]) (simp add: partition_point_def)
  next
    case False
    with Cons.prems Cons.IH [of "n + m"] obtain i where
      "partition_point (\<lambda>s. s \<le> row) (starts_from (n + m) ms) = Suc i" "i < length ms"
      "n + m + sum_list (take i ms) \<le> row" "row < n + m + sum_list (take i ms) + ms ! i"
      by (auto simp: add.assoc)
    with Cons.prems show ?thesis
      by (intro exI [of _ "Suc i"]) (simp add: partition_point_def add.assoc)
  qed
qed simp

lemma concat_nth_prefix:
  assumes "i < length xss" "off < length (xss ! i)"
  shows "concat xss ! (sum_list (map length (take i xss)) + off) = xss ! i ! off"
proof -
  have "concat xss = concat (take i xss) @ xss ! i @ concat (drop (Suc i) xss)"
    using assms(1) by (metis concat.simps(2) concat_append id_take_nth_drop)
  moreover have "length (concat (take i xss)) = sum_list (map length (take i xss))"
    by (simp add: length_concat)
  ultimately show ?thesis using assms(2) by (simp add: nth_append)
qed

text \<open>A located row is the one that stands there in the result.\<close>

lemma locate_spec:
  assumes "buffer_inv a b"
  shows "locate row b = None \<longleftrightarrow> length (buffer_rows a b) \<le> row"
    and "locate row b = Some (i, off) \<Longrightarrow> i < length (bi_slots (db_index b))
      \<and> off < length (slot_rows a b (bi_slots (db_index b) ! i))
      \<and> slot_rows a b (bi_slots (db_index b) ! i) ! off = buffer_rows a b ! row"
proof -
  let ?slots = "bi_slots (db_index b)"
  let ?ms = "map (length \<circ> slot_rows a b) ?slots"
  have inv: "\<forall>sl \<in> set ?slots. slot_ok a b sl" "bi_starts (db_index b) = starts_from 0 ?ms"
    "bi_rows (db_index b) = length (buffer_rows a b)"
    using assms by (simp_all add: buffer_inv_def)
  have pos: "\<forall>m \<in> set ?ms. 0 < m" using inv(1) by (auto simp: slot_ok_def)
  have total: "sum_list ?ms = length (buffer_rows a b)"
    by (simp add: buffer_rows_def length_concat comp_def)
  have found: "\<exists>i. locate row b = Some (i, row - sum_list (take i ?ms)) \<and> i < length ?slots
      \<and> sum_list (take i ?ms) \<le> row \<and> row < sum_list (take i ?ms) + ?ms ! i"
    if "row < length (buffer_rows a b)"
  proof -
    from partition_point_starts [OF pos, of 0 row] that total obtain i where
      i: "partition_point (\<lambda>s. s \<le> row) (starts_from 0 ?ms) = Suc i" "i < length ?ms"
        "sum_list (take i ?ms) \<le> row" "row < sum_list (take i ?ms) + ?ms ! i" by auto
    then have "locate row b = Some (i, row - sum_list (take i ?ms))"
      using that inv by (simp add: locate_def get_nth_def nth_starts_from)
    with i show ?thesis by auto
  qed
  show "locate row b = None \<longleftrightarrow> length (buffer_rows a b) \<le> row"
    using found inv(3) by (fastforce simp: locate_def)
  show "i < length ?slots \<and> off < length (slot_rows a b (?slots ! i))
      \<and> slot_rows a b (?slots ! i) ! off = buffer_rows a b ! row"
    if l: "locate row b = Some (i, off)"
  proof -
    have "row < length (buffer_rows a b)" using l inv(3) by (auto simp: locate_def Let_def split: if_splits)
    from found [OF this] l have i: "i < length ?slots" "off = row - sum_list (take i ?ms)"
      "sum_list (take i ?ms) \<le> row" "row < sum_list (take i ?ms) + ?ms ! i" by auto
    then have off: "off < length (slot_rows a b (?slots ! i))" by simp
    have "sum_list (map length (take i (map (slot_rows a b) ?slots))) + off = row"
      using i by (simp add: take_map comp_def)
    with concat_nth_prefix [of i "map (slot_rows a b) ?slots" off] i(1) off show ?thesis
      by (simp add: buffer_rows_def)
  qed
qed

subsection \<open>What a push adds\<close>

text \<open>Placing a batch keeps every slot readable, and the new one reads as the batch.\<close>

lemma place_spec:
  assumes "arrow_ok a" "file_ok b" "place a d spill batch b = (r, b')"
  shows "b' = b\<lparr>db_spill := db_spill b'\<rparr>" "file_ok b'"
    and "slot_ok a b sl \<Longrightarrow> slot_ok a b' sl \<and> slot_rows a b' sl = slot_rows a b sl"
    and "r = Inr new \<Longrightarrow> slot_rows a b' new = ar_rows a batch
      \<and> (ar_rows a batch \<noteq> [] \<longrightarrow> slot_ok a b' new) \<and> (\<not> spill \<longrightarrow> new = Resident batch)
      \<and> (spill \<longrightarrow> (\<exists>ref. new = Spilled ref))"
proof -
  consider (kept) "\<not> spill" | (none) e where "spill" "spill_file_of d b = Inl e"
    | (written) f r' f' where "spill" "spill_file_of d b = Inr f"
        "spill_append a (da_write d) batch f = (r', f')"
    by (cases "spill_file_of d b") (auto, metis surj_pair)
  then have "b' = b\<lparr>db_spill := db_spill b'\<rparr> \<and> file_ok b'
    \<and> (slot_ok a b sl \<longrightarrow> slot_ok a b' sl \<and> slot_rows a b' sl = slot_rows a b sl)
    \<and> (r = Inr new \<longrightarrow> slot_rows a b' new = ar_rows a batch
        \<and> (ar_rows a batch \<noteq> [] \<longrightarrow> slot_ok a b' new) \<and> (\<not> spill \<longrightarrow> new = Resident batch)
        \<and> (spill \<longrightarrow> (\<exists>ref. new = Spilled ref)))"
  proof cases
    case kept
    with assms show ?thesis by (auto simp: place_def slot_rows_def slot_ok_def)
  next
    case none
    with assms show ?thesis by (auto simp: place_def)
  next
    case written
    have b': "b' = b\<lparr>db_spill := Some f'\<rparr>" "r = map_sum id Spilled r'"
      using assms(3) written by (simp_all add: place_def)
    have f: "sf_next f \<le> length (sf_bytes f)" "db_spill b = Some f \<or> db_spill b = None"
      using assms(2) written(2) by (auto simp: file_ok_def spill_file_of_def split: option.splits)
    have frame: "(\<exists>stream. sf_bytes f' = write_at (sf_next f) stream (sf_bytes f)) \<and> sf_next f \<le> sf_next f'
        \<and> sf_next f' \<le> length (sf_bytes f')"
    proof (cases r')
      case (Inl e)
      with written(3) spill_append_failed [of a "da_write d" batch f e f'] f(1) length_write_at_ge
      show ?thesis by (metis order_refl order_trans)
    next
      case (Inr ref)
      with written(3) spill_append_ok [OF assms(1) f(1), of "da_write d" batch ref f'] show ?thesis by auto
    qed
    then have old: "slot_ok a b sl \<longrightarrow> slot_ok a b' sl \<and> slot_rows a b' sl = slot_rows a b sl"
      using f ref_ok_frame [of a f _ f'] b'(1)
      by (auto simp: slot_ok_def slot_rows_def split: slot.splits option.splits)
    have new: "r = Inr new \<longrightarrow> slot_rows a b' new = ar_rows a batch
        \<and> (ar_rows a batch \<noteq> [] \<longrightarrow> slot_ok a b' new) \<and> (\<exists>ref. new = Spilled ref)"
      using b' written(3) spill_append_ok [OF assms(1) f(1), of "da_write d" batch _ f']
      by (cases r') (auto simp: slot_rows_def slot_ok_def)
    show ?thesis using b' old new frame written(1) by (simp add: file_ok_def)
  qed
  then show "b' = b\<lparr>db_spill := db_spill b'\<rparr>" "file_ok b'"
    and "slot_ok a b sl \<Longrightarrow> slot_ok a b' sl \<and> slot_rows a b' sl = slot_rows a b sl"
    and "r = Inr new \<Longrightarrow> slot_rows a b' new = ar_rows a batch
      \<and> (ar_rows a batch \<noteq> [] \<longrightarrow> slot_ok a b' new) \<and> (\<not> spill \<longrightarrow> new = Resident batch)
      \<and> (spill \<longrightarrow> (\<exists>ref. new = Spilled ref))" by blast+
qed

text \<open>The rows of a batch the limit leaves room for.\<close>

definition accepted :: "('b, 'r) arrow \<Rightarrow> 'b data_buffer \<Rightarrow> 'b \<Rightarrow> 'r list" where
  "accepted a b batch =
     (case bl_max_rows (db_limits b) of None \<Rightarrow> ar_rows a batch
      | Some most \<Rightarrow> take (most - bi_rows (db_index b)) (ar_rows a batch))"

lemma plan_spec:
  assumes "plan l ix rows bytes = Inr p"
  shows "\<not> bi_complete ix"
    and "pp_keep_rows p = (case bl_max_rows l of None \<Rightarrow> None
           | Some most \<Rightarrow> if most - bi_rows ix < rows then Some (most - bi_rows ix) else None)"
    and "pp_truncated p \<longleftrightarrow> pp_keep_rows p \<noteq> None"
    and "bl_max_rows l = Some most \<Longrightarrow> bi_rows ix < most"
    and "\<not> pp_spill p \<Longrightarrow> usat_add (bi_resident ix) bytes \<le> bl_memory l"
  using assms
  by (auto simp: plan_def plan_rows_def plan_spill_def Let_def split: if_splits sum.splits option.splits)

lemma plan_placement:
  assumes "plan l ix rows bytes = Inr p"
  shows "if pp_spill p
    then bl_memory l < usat_add (bi_resident ix) bytes \<and> bl_allow_spill l
      \<and> (\<forall>quota. bl_max_spill l = Some quota \<longrightarrow> usat_add (bi_spilled ix) bytes \<le> quota)
    else usat_add (bi_resident ix) bytes \<le> bl_memory l"
  using assms by (auto simp: plan_def plan_spill_def split: if_splits sum.splits option.splits prod.splits)

definition bounded_limits :: "'b data_buffer \<Rightarrow> buffer_limits" where
  "bounded_limits b = (db_limits b)\<lparr>bl_memory := resident_budget (db_limits b)\<rparr>"

definition kept_batch :: "('b, 'r) arrow \<Rightarrow> push_plan \<Rightarrow> 'b \<Rightarrow> 'b" where
  "kept_batch a p batch = (case pp_keep_rows p of None \<Rightarrow> batch | Some n \<Rightarrow> ar_slice a batch n)"

lemma index_append_frame [simp]:
  "bi_stats (snd (index_append sl m n ix)) = bi_stats ix"
  "fst (index_append sl m n ix) = length (bi_slots ix)"
  "bi_slots (snd (index_append sl m n ix)) = bi_slots ix @ [sl]"
  "bi_starts (snd (index_append sl m n ix)) = bi_starts ix @ [bi_rows ix]"
  "bi_rows (snd (index_append sl m n ix)) = usat_add (bi_rows ix) m"
  "bi_complete (snd (index_append sl m n ix)) = bi_complete ix"
  by (simp_all add: index_append_def split: slot.split)

lemma place_index: "place a d spill batch b = (r, b1) \<Longrightarrow> db_index b1 = db_index b"
  by (auto simp: place_def split: if_splits sum.splits prod.splits)

lemma push_cases:
  assumes "push a d batch b = (res, b')"
  obtains (unchanged) "b' = b" "res = Inr None" "num_rows a batch = 0"
  | (refused) e where "b' = b" "res = Inl e"
  | (unplaced) e p where "plan (bounded_limits b) (db_index b) (num_rows a batch) (ar_memory a batch) = Inr p"
      "place a d (pp_spill p) (kept_batch a p batch) b = (Inl e, b')" "res = Inl e"
  | (stored) p sl b1 where
      "plan (bounded_limits b) (db_index b) (num_rows a batch) (ar_memory a batch) = Inr p"
      "place a d (pp_spill p) (kept_batch a p batch) b = (Inr sl, b1)" "num_rows a batch \<noteq> 0"
      "res = Inr (Some (length (bi_slots (db_index b1))))"
      "b' = b1\<lparr>db_index :=
         (snd (index_append sl (num_rows a (kept_batch a p batch)) (ar_memory a (kept_batch a p batch))
            (db_index b1)))
           \<lparr>bi_stats := (if pp_truncated p then mark_truncated else id)
              (record_batch (of_nat (num_rows a (kept_batch a p batch)))
                 (of_nat (ar_memory a (kept_batch a p batch))) (bi_stats (db_index b1)))\<rparr>\<rparr>"
proof (cases "num_rows a batch = 0")
  case True
  with assms unchanged show thesis by (simp add: push_def)
next
  case False
  show thesis
  proof (cases "check_schema a batch b")
    case (Inl e)
    with False assms refused [of e] show thesis by (auto simp: push_def)
  next
    case schema: (Inr u)
    show thesis
    proof (cases "plan (bounded_limits b) (db_index b) (num_rows a batch) (ar_memory a batch)")
      case (Inl e)
      with False schema assms refused [of e] show thesis by (auto simp: push_def bounded_limits_def)
    next
      case p: (Inr p)
      obtain r b1 where place: "place a d (pp_spill p) (kept_batch a p batch) b = (r, b1)" by fastforce
      show thesis
      proof (cases r)
        case (Inl e)
        with False schema p place assms unplaced [of p e] show thesis
          by (simp add: push_def bounded_limits_def kept_batch_def Let_def)
      next
        case (Inr sl)
        have "res = Inr (Some (length (bi_slots (db_index b1)))) \<and> b' = b1\<lparr>db_index :=
           (snd (index_append sl (num_rows a (kept_batch a p batch)) (ar_memory a (kept_batch a p batch))
              (db_index b1)))
             \<lparr>bi_stats := (if pp_truncated p then mark_truncated else id)
                (record_batch (of_nat (num_rows a (kept_batch a p batch)))
                   (of_nat (ar_memory a (kept_batch a p batch))) (bi_stats (db_index b1)))\<rparr>\<rparr>"
          using False schema p place assms Inr plan_spec(1) [OF p] place_index [OF place]
          by (cases "pp_truncated p")
            (auto simp: push_def bounded_limits_def kept_batch_def Let_def case_prod_beta)
        then show thesis using stored [OF p place [unfolded Inr] False] by blast
      qed
    qed
  qed
qed

lemma kept_batch_accepted:
  assumes "arrow_ok a" "plan (bounded_limits b) (db_index b) (num_rows a batch) bytes = Inr p"
  shows "ar_rows a (kept_batch a p batch) = accepted a b batch"
    and "ar_memory a (kept_batch a p batch) \<le> ar_memory a batch"
    and "pp_truncated p \<longleftrightarrow> length (accepted a b batch) < num_rows a batch"
    and "num_rows a batch \<noteq> 0 \<Longrightarrow> accepted a b batch \<noteq> []"
proof -
  have limit: "bl_max_rows (bounded_limits b) = bl_max_rows (db_limits b)" by (simp add: bounded_limits_def)
  note p = plan_spec(2,3,4) [OF assms(2), unfolded limit]
  have "ar_rows a (kept_batch a p batch) = accepted a b batch
    \<and> ar_memory a (kept_batch a p batch) \<le> ar_memory a batch
    \<and> (pp_truncated p \<longleftrightarrow> length (accepted a b batch) < num_rows a batch)
    \<and> (num_rows a batch \<noteq> 0 \<longrightarrow> accepted a b batch \<noteq> [])"
  proof (cases "bl_max_rows (db_limits b)")
    case None
    with p(1,2) show ?thesis by (simp add: kept_batch_def accepted_def num_rows_def)
  next
    case (Some most)
    with p assms(1) show ?thesis
      by (cases "most - bi_rows (db_index b) < num_rows a batch")
        (simp_all add: kept_batch_def accepted_def num_rows_def arrow_ok_def)
  qed
  then show "ar_rows a (kept_batch a p batch) = accepted a b batch"
    and "ar_memory a (kept_batch a p batch) \<le> ar_memory a batch"
    and "pp_truncated p \<longleftrightarrow> length (accepted a b batch) < num_rows a batch"
    and "num_rows a batch \<noteq> 0 \<Longrightarrow> accepted a b batch \<noteq> []" by simp_all
qed

text \<open>Rows and slots only depend on the file.\<close>

lemma slot_rows_file: "db_spill b' = db_spill b \<Longrightarrow> slot_rows a b' = slot_rows a b"
  by (auto simp: slot_rows_def fun_eq_iff split: slot.split)

lemma slot_ok_file: "db_spill b' = db_spill b \<Longrightarrow> slot_ok a b' = slot_ok a b"
  by (simp add: slot_ok_def fun_eq_iff slot_rows_file [of b' b] split: slot.split)

lemma place_inv:
  assumes "buffer_inv a b" "place a d spill batch b = (r, b1)"
  shows "buffer_inv a b1" "buffer_rows a b1 = buffer_rows a b" "db_index b1 = db_index b"
    "db_limits b1 = db_limits b" "db_fields b1 = db_fields b" "db_cache b1 = db_cache b"
proof -
  have inv: "arrow_ok a" "file_ok b" using assms(1) by (simp_all add: buffer_inv_def)
  note place = place_spec [OF inv assms(2)]
  show fields: "db_index b1 = db_index b" "db_limits b1 = db_limits b" "db_fields b1 = db_fields b"
    "db_cache b1 = db_cache b"
    using arg_cong [OF place(1), of db_index] arg_cong [OF place(1), of db_limits]
      arg_cong [OF place(1), of db_fields] arg_cong [OF place(1), of db_cache] by simp_all
  have slots: "\<forall>sl \<in> set (bi_slots (db_index b)). slot_ok a b1 sl \<and> slot_rows a b1 sl = slot_rows a b sl"
    using assms(1) place(3) by (simp add: buffer_inv_def)
  then have "map (slot_rows a b1) (bi_slots (db_index b)) = map (slot_rows a b) (bi_slots (db_index b))"
    by simp
  then show rows: "buffer_rows a b1 = buffer_rows a b" by (simp only: buffer_rows_def fields)
  have "map (length \<circ> slot_rows a b1) (bi_slots (db_index b)) = map (length \<circ> slot_rows a b) (bi_slots (db_index b))"
    using slots by simp
  with assms(1) place(2) slots rows show "buffer_inv a b1"
    unfolding buffer_inv_def fields by metis
qed

text \<open>A push adds the accepted rows at the end of the result, or leaves it as it was; it keeps the
  invariant, and a trimmed batch marks the result.\<close>

lemma push_frame:
  assumes "buffer_inv a b" "push a d batch b = (res, b')"
  shows "db_limits b' = db_limits b \<and> db_fields b' = db_fields b \<and> db_cache b' = db_cache b
    \<and> bi_complete (db_index b') = bi_complete (db_index b)"
  using assms(2)
proof (cases rule: push_cases)
  case unplaced
  with place_inv [OF assms(1)] show ?thesis by simp
next
  case (stored p sl b1)
  with place_inv [OF assms(1) stored(2)] show ?thesis by simp
qed simp_all

lemma push_rows:
  assumes "buffer_inv a b" "push a d batch b = (res, b')"
  shows "buffer_rows a b' = buffer_rows a b @ (case res of Inr (Some _) \<Rightarrow> accepted a b batch | _ \<Rightarrow> [])"
  using assms(2)
proof (cases rule: push_cases)
  case (unplaced e p)
  with place_inv [OF assms(1)] show ?thesis by simp
next
  case (stored p sl b1)
  have arrow: "arrow_ok a" "file_ok b" using assms(1) by (simp_all add: buffer_inv_def)
  have rows: "slot_rows a b1 sl = accepted a b batch"
    using place_spec(4) [OF arrow stored(2) refl] kept_batch_accepted(1) [OF arrow(1) stored(1)] by simp
  have same: "db_spill b' = db_spill b1" by (simp only: stored(5)) simp
  have slots: "bi_slots (db_index b') = bi_slots (db_index b1) @ [sl]" by (simp only: stored(5)) simp
  have "buffer_rows a b' = buffer_rows a b1 @ slot_rows a b1 sl"
    by (simp add: buffer_rows_def slots slot_rows_file [OF same])
  with place_inv(2) [OF assms(1) stored(2)] rows stored(4) show ?thesis by simp
qed simp_all

text \<open>Where a batch goes: in memory while the budget has room for it; otherwise in the file, when spilling
  is allowed and the quota has room for its size in memory.\<close>

definition slot_within :: "buffer_limits \<Rightarrow> 'b buffer_index \<Rightarrow> nat \<Rightarrow> 'b slot \<Rightarrow> bool" where
  "slot_within l ix bytes sl = (case sl of
     Resident _ \<Rightarrow> usat_add (bi_resident ix) bytes \<le> resident_budget l
   | Spilled _ \<Rightarrow> resident_budget l < usat_add (bi_resident ix) bytes \<and> bl_allow_spill l
       \<and> (case bl_max_spill l of None \<Rightarrow> True | Some quota \<Rightarrow> usat_add (bi_spilled ix) bytes \<le> quota))"

lemma push_placement:
  assumes "buffer_inv a b" "push a d batch b = (res, b')"
  obtains new where "bi_slots (db_index b') = bi_slots (db_index b) @ new"
    "list_all (slot_within (db_limits b) (db_index b) (ar_memory a batch)) new"
    "length new = (case res of Inr (Some _) \<Rightarrow> 1 | _ \<Rightarrow> 0)"
  using assms(2)
proof (cases rule: push_cases)
  case (unplaced e p)
  with place_index [OF unplaced(2)] show thesis by (intro that [of "[]"]) simp_all
next
  case (stored p sl b1)
  have arrow: "arrow_ok a" "file_ok b" using assms(1) by (simp_all add: buffer_inv_def)
  have sl: "(\<not> pp_spill p \<longrightarrow> sl = Resident (kept_batch a p batch)) \<and> (pp_spill p \<longrightarrow> (\<exists>ref. sl = Spilled ref))"
    using place_spec(4) [OF arrow stored(2) refl] by blast
  have "slot_within (db_limits b) (db_index b) (ar_memory a batch) sl"
    using sl plan_placement [OF stored(1)]
    by (cases "pp_spill p") (auto simp: slot_within_def bounded_limits_def split: option.split)
  moreover have "bi_slots (db_index b') = bi_slots (db_index b) @ [sl]"
    using place_index [OF stored(2)] by (simp add: stored(5))
  ultimately show thesis using stored(4) by (intro that [of "[sl]"]) simp_all
qed (use that [of "[]"] in simp_all)

text \<open>The invariant: sizes stay within the budget and the rows within the limit.\<close>

lemma at_most_accepted:
  assumes "at_most_rows (bl_max_rows (db_limits b)) (bi_rows (db_index b))"
  shows "at_most_rows (bl_max_rows (db_limits b)) (bi_rows (db_index b) + length (accepted a b batch))"
  using assms by (auto simp: at_most_rows_def accepted_def split: option.splits)

lemma length_accepted: "length (accepted a b batch) \<le> num_rows a batch"
  by (simp add: accepted_def num_rows_def split: option.split)

lemma buffer_inv_append:
  assumes "buffer_inv a b1" "slot_ok a b1 sl"
    and "bi_rows (db_index b1) + length (slot_rows a b1 sl) \<le> usize_max"
    and "at_most_rows (bl_max_rows (db_limits b1)) (bi_rows (db_index b1) + length (slot_rows a b1 sl))"
    and "bi_resident (snd (index_append sl (length (slot_rows a b1 sl)) bytes (db_index b1)))
      \<le> resident_budget (db_limits b1)"
  shows "buffer_inv a (b1\<lparr>db_index :=
    (snd (index_append sl (length (slot_rows a b1 sl)) bytes (db_index b1)))\<lparr>bi_stats := st\<rparr>\<rparr>)"
    (is "buffer_inv a ?b")
proof -
  let ?ix = "snd (index_append sl (length (slot_rows a b1 sl)) bytes (db_index b1))"
  have same: "db_spill ?b = db_spill b1" by simp
  note views = slot_rows_file [OF same, of a] slot_ok_file [OF same, of a]
  have slots: "bi_slots (db_index ?b) = bi_slots (db_index b1) @ [sl]"
    "bi_starts (db_index ?b) = bi_starts (db_index b1) @ [bi_rows (db_index b1)]"
    "bi_rows (db_index ?b) = bi_rows (db_index b1) + length (slot_rows a b1 sl)"
    using assms(3) by (simp_all add: usat_add_exact)
  have rows: "buffer_rows a ?b = buffer_rows a b1 @ slot_rows a b1 sl"
    by (simp add: buffer_rows_def views)
  have total: "sum_list (map (length \<circ> slot_rows a b1) (bi_slots (db_index b1))) = length (buffer_rows a b1)"
    by (simp add: buffer_rows_def length_concat comp_def)
  have inv: "bi_starts (db_index b1) = starts_from 0 (map (length \<circ> slot_rows a b1) (bi_slots (db_index b1)))"
    "bi_rows (db_index b1) = length (buffer_rows a b1)" "\<forall>sl \<in> set (bi_slots (db_index b1)). slot_ok a b1 sl"
    "arrow_ok a" "limits_ok (db_limits b1)" "file_ok b1" "page_cache_ok a (db_cache b1)"
    "pc_capacity (db_cache b1) = cache_budget (db_limits b1)"
    using assms(1) by (simp_all add: buffer_inv_def)
  have starts: "bi_starts (db_index ?b) = starts_from 0 (map (length \<circ> slot_rows a ?b) (bi_slots (db_index ?b)))"
    unfolding slots views using inv(1,2) total by (simp add: starts_from_append)
  have rest: "file_ok ?b" "page_cache_ok a (db_cache ?b)" "db_limits ?b = db_limits b1"
    "pc_capacity (db_cache ?b) = cache_budget (db_limits ?b)" "bi_resident (db_index ?b) = bi_resident ?ix"
    using inv by (simp_all add: file_ok_def)
  have ok: "\<forall>sl \<in> set (bi_slots (db_index ?b)). slot_ok a ?b sl"
    unfolding slots views using inv(3) assms(2) by simp
  have count: "bi_rows (db_index ?b) = length (buffer_rows a ?b)"
    unfolding slots(3) rows using inv(2) by simp
  show ?thesis
    unfolding buffer_inv_def rest(5)
    using inv(4,5) ok starts count assms(3,4,5) rest(1-4) slots(3) by metis
qed

lemma push_inv:
  assumes "buffer_inv a b" "push a d batch b = (res, b')"
    and "bi_rows (db_index b) + num_rows a batch \<le> usize_max"
  shows "buffer_inv a b'"
  using assms(2)
proof (cases rule: push_cases)
  case (unplaced e p)
  with place_inv [OF assms(1)] show ?thesis by simp
next
  case (stored p sl b1)
  have arrow: "arrow_ok a" "file_ok b" and most: "at_most_rows (bl_max_rows (db_limits b)) (bi_rows (db_index b))"
    and held: "bi_resident (db_index b) \<le> resident_budget (db_limits b)"
    using assms(1) unfolding buffer_inv_def by blast+
  note b1 = place_inv [OF assms(1) stored(2)]
  note kept = kept_batch_accepted [OF arrow(1) stored(1)]
  have sl: "slot_rows a b1 sl = accepted a b batch" "slot_ok a b1 sl"
    "\<not> pp_spill p \<Longrightarrow> sl = Resident (kept_batch a p batch)" "pp_spill p \<Longrightarrow> \<exists>ref. sl = Spilled ref"
    using place_spec(4) [OF arrow stored(2) refl] kept(1) kept(4) [OF stored(3)] by simp_all
  have rows: "num_rows a (kept_batch a p batch) = length (slot_rows a b1 sl)"
    by (simp add: num_rows_def kept(1) sl(1))
  have "usat_add (bi_resident (db_index b)) (ar_memory a (kept_batch a p batch))
      \<le> resident_budget (db_limits b)" if "\<not> pp_spill p"
    using plan_spec(5) [OF stored(1) that] usat_add_mono [OF kept(2), of "bi_resident (db_index b)"]
    by (simp add: bounded_limits_def)
  then have "bi_resident (snd (index_append sl (length (slot_rows a b1 sl)) (ar_memory a (kept_batch a p batch))
      (db_index b1))) \<le> resident_budget (db_limits b1)"
    using sl(3,4) held by (cases "pp_spill p") (auto simp: index_append_def b1(3,4))
  moreover have "bi_rows (db_index b1) + length (slot_rows a b1 sl) \<le> usize_max"
    using assms(3) length_accepted [of a b batch] by (simp add: b1(3) sl(1))
  moreover have "at_most_rows (bl_max_rows (db_limits b1)) (bi_rows (db_index b1) + length (slot_rows a b1 sl))"
    using at_most_accepted [OF most] by (simp add: b1(3,4) sl(1))
  ultimately show ?thesis
    using buffer_inv_append [OF b1(1) sl(2)] by (simp only: stored(5) rows)
qed (use assms(1) in simp_all)

subsection \<open>What a read answers\<close>

text \<open>A read nobody cancelled is the one the reference stands for.\<close>

lemma read_chunks_uncancelled:
  "read_chunks poll k ns offset bytes = Inr m \<Longrightarrow> read_chunks (\<lambda>_. False) k ns offset bytes = Inr m"
  by (induction poll k ns offset bytes rule: read_chunks.induct) (auto split: if_splits)

lemma spill_read_uncancelled:
  assumes "spill_read a poll ref f = Inr b"
  shows "spill_read a (\<lambda>_. False) ref f = Inr b"
  using assms read_chunks_uncancelled [of poll 1 "chunk_sizes (sr_len ref)" "sr_offset ref" "sf_bytes f"]
  by (auto simp: spill_read_def split: if_splits sum.splits option.splits)

lemma evict_pages_frame:
  "set (pc_entries (snd (evict_pages a n c))) \<subseteq> set (pc_entries c)
   \<and> pc_capacity (snd (evict_pages a n c)) = pc_capacity c"
proof (induction a n c rule: evict_pages.induct)
  case (1 a n c)
  show ?case
  proof (cases "usat_add (pages_retained a c) n \<le> pc_capacity c \<or> pc_entries c = []")
    case True
    then have "snd (evict_pages a n c) = c" by (subst evict_pages.simps) auto
    then show ?thesis by simp
  next
    case False
    then obtain i oldest rest where entries: "pc_entries c = (i, oldest) # rest"
      by (metis list.exhaust surj_pair)
    have "evict_pages a n c = evict_pages a n (c\<lparr>pc_entries := rest,
        pc_bytes := pc_bytes c - page_bytes a oldest, pc_allocated := length rest + 1\<rparr>)"
      using False entries by (subst evict_pages.simps) simp
    with False 1 [OF _ entries refl] entries show ?thesis by auto
  qed
qed

lemma page_insert_frame:
  "set (pc_entries (page_insert a i b c)) \<subseteq> insert (i, b) (set (pc_entries c))"
  "pc_capacity (page_insert a i b c) = pc_capacity c"
proof -
  let ?c = "c\<lparr>pc_allocated := max (pc_allocated c) (length (pc_entries c) + 1)\<rparr>"
  show "set (pc_entries (page_insert a i b c)) \<subseteq> insert (i, b) (set (pc_entries c))"
    using evict_pages_frame [of a "page_bytes a b" ?c]
    by (auto simp: page_insert_def Let_def split: prod.split bool.split)
  show "pc_capacity (page_insert a i b c) = pc_capacity c"
    using evict_pages_frame [of a "page_bytes a b" ?c]
    by (auto simp: page_insert_def Let_def split: prod.split bool.split)
qed

lemma page_get_frame:
  "fst (page_get i c) = Some batch \<Longrightarrow> (i, batch) \<in> set (pc_entries c)"
  "set (pc_entries (snd (page_get i c))) \<subseteq> set (pc_entries c)"
  "pc_capacity (snd (page_get i c)) = pc_capacity c"
  by (auto simp: page_get_def remove_key_def dest: find_key_SomeD split: option.splits)

text \<open>A cached page holds the rows of its batch.\<close>

definition pages_ok :: "('b, 'r) arrow \<Rightarrow> 'b data_buffer \<Rightarrow> bool" where
  "pages_ok a b \<longleftrightarrow> (\<forall>(i, batch) \<in> set (pc_entries (db_cache b)). i < length (bi_slots (db_index b))
     \<and> ar_rows a batch = slot_rows a b (bi_slots (db_index b) ! i))"

definition with_cache :: "'b page_cache \<Rightarrow> 'b data_buffer \<Rightarrow> 'b data_buffer" where
  "with_cache c b = b\<lparr>db_cache := c\<rparr>"

lemma with_cache_frame [simp]:
  "db_index (with_cache c b) = db_index b" "db_spill (with_cache c b) = db_spill b"
  "db_limits (with_cache c b) = db_limits b" "db_fields (with_cache c b) = db_fields b"
  "db_cache (with_cache c b) = c" "slot_rows a (with_cache c b) = slot_rows a b"
  "slot_ok a (with_cache c b) = slot_ok a b" "buffer_rows a (with_cache c b) = buffer_rows a b"
  "file_ok (with_cache c b) = file_ok b" "with_cache c (with_cache c' b) = with_cache c b"
  by (simp_all add: with_cache_def buffer_rows_def file_ok_def
      slot_rows_file [of "b\<lparr>db_cache := c\<rparr>" b] slot_ok_file [of "b\<lparr>db_cache := c\<rparr>" b])

lemma with_cache_same [simp]: "with_cache (db_cache b) b = b"
  by (simp add: with_cache_def)

definition page_fits :: "('b, 'r) arrow \<Rightarrow> 'b data_buffer \<Rightarrow> 'b page_cache \<Rightarrow> bool" where
  "page_fits a b c \<longleftrightarrow> page_cache_ok a c \<and> pc_capacity c = cache_budget (db_limits b)
     \<and> (\<forall>(i, batch) \<in> set (pc_entries c). i < length (bi_slots (db_index b))
         \<and> ar_rows a batch = slot_rows a b (bi_slots (db_index b) ! i))"

lemma page_fits_iff:
  assumes "buffer_inv a b"
  shows "buffer_inv a (with_cache c b) \<and> pages_ok a (with_cache c b) \<longleftrightarrow> page_fits a b c"
  using assms unfolding buffer_inv_def page_fits_def pages_ok_def with_cache_frame by blast

definition buffer_ok :: "('b, 'r) arrow \<Rightarrow> 'b data_buffer \<Rightarrow> bool" where
  "buffer_ok a b \<longleftrightarrow> buffer_inv a b \<and> pages_ok a b"

lemma buffer_ok_fits: "buffer_ok a b \<Longrightarrow> page_fits a b (db_cache b)"
  using page_fits_iff [of a b "db_cache b"] by (simp add: buffer_ok_def)

lemma buffer_ok_with_cache: "buffer_ok a b \<Longrightarrow> page_fits a b c \<Longrightarrow> buffer_ok a (with_cache c b)"
  using page_fits_iff [of a b c] by (simp add: buffer_ok_def)

lemma page_fits_get: "page_fits a b c \<Longrightarrow> page_fits a b (snd (page_get i c))"
  using page_get_frame(2,3) [of i c] page_get_ok [of a c i] unfolding page_fits_def by fastforce

lemma page_fits_insert:
  assumes "page_fits a b c" "i < length (bi_slots (db_index b))"
    "ar_rows a batch = slot_rows a b (bi_slots (db_index b) ! i)"
  shows "page_fits a b (page_insert a i batch c)"
  using assms page_insert_frame [of a i batch c] page_insert_ok [of a c i batch]
  unfolding page_fits_def by fastforce

lemma batch_cancellable_cases:
  assumes "batch_cancellable a c1 poll c2 i b = (r, b')"
  obtains (none) "r = Inr None" "b' = b" "length (bi_slots (db_index b)) \<le> i"
  | (failed) e where "r = Inl e" "b' = b"
  | (resident) batch where "r = Inr (Some batch)" "b' = b" "i < length (bi_slots (db_index b))"
      "bi_slots (db_index b) ! i = Resident batch"
  | (cached) batch where "r = Inr (Some batch)" "b' = with_cache (snd (page_get i (db_cache b))) b"
      "fst (page_get i (db_cache b)) = Some batch"
  | (loaded) ref f batch where "r = Inr (Some batch)" "i < length (bi_slots (db_index b))"
      "bi_slots (db_index b) ! i = Spilled ref" "db_spill b = Some f" "spill_read a poll ref f = Inr batch"
      "b' = with_cache (page_insert a i batch (db_cache b)) b"
proof (cases "c1 \<or> \<not> i < length (bi_slots (db_index b))")
  case True
  with assms none failed [of DCancelled] show thesis
    by (cases c1) (auto simp: batch_cancellable_def get_nth_def)
next
  case False
  then have live: "\<not> c1" and i: "i < length (bi_slots (db_index b))" by simp_all
  show thesis
  proof (cases "bi_slots (db_index b) ! i")
    case (Resident batch)
    with assms live i resident [of batch] show thesis by (auto simp: batch_cancellable_def get_nth_def)
  next
    case (Spilled ref)
    obtain hit cache where page: "page_get i (db_cache b) = (hit, cache)" by fastforce
    note run = assms [unfolded batch_cancellable_def get_nth_def, simplified live i Spilled page, simplified]
    show thesis
    proof (cases hit)
      case (Some batch)
      with run cached [of batch] page show thesis by (simp add: with_cache_def)
    next
      case miss: None
      show thesis
      proof (cases "db_spill b")
        case None
        with run miss have "r = Inl (DSpill ''spill file is missing while a batch claims to live in it'')" "b' = b"
          by auto
        then show thesis by (rule failed)
      next
        case store: (Some f)
        show thesis
        proof (cases "spill_read a poll ref f")
          case (Inl e)
          with run miss store failed [of e] show thesis by auto
        next
          case (Inr batch)
          with run miss store failed loaded [OF _ i Spilled store Inr] show thesis
            by (cases "check_schema a batch b"; cases c2) (auto simp: with_cache_def)
        qed
      qed
    qed
  qed
qed

lemma batch_cancellable_spec:
  assumes "buffer_ok a b" "batch_cancellable a c1 poll c2 i b = (r, b')"
  shows "(\<exists>c. page_fits a b c \<and> b' = with_cache c b)
    \<and> (r = Inr None \<longrightarrow> length (bi_slots (db_index b)) \<le> i)
    \<and> (\<forall>batch. r = Inr (Some batch) \<longrightarrow> i < length (bi_slots (db_index b))
        \<and> ar_rows a batch = slot_rows a b (bi_slots (db_index b) ! i))"
proof -
  note fits = buffer_ok_fits [OF assms(1)]
  have same: "\<exists>c. page_fits a b c \<and> b = with_cache c b"
    using fits by (intro exI [of _ "db_cache b"]) simp
  show ?thesis
    using assms(2)
  proof (cases rule: batch_cancellable_cases)
    case (cached batch)
    have "i < length (bi_slots (db_index b)) \<and> ar_rows a batch = slot_rows a b (bi_slots (db_index b) ! i)"
      using fits page_get_frame(1) [OF cached(3)] unfolding page_fits_def by blast
    with cached page_fits_get [OF fits, of i] show ?thesis by auto
  next
    case (loaded ref f batch)
    then have rows: "ar_rows a batch = slot_rows a b (bi_slots (db_index b) ! i)"
      using spill_read_uncancelled [OF loaded(5)] by (simp add: slot_rows_def spilled_rows_def)
    with loaded page_fits_insert [OF fits loaded(2) rows] show ?thesis by auto
  qed (use same in \<open>auto simp: slot_rows_def\<close>)
qed

text \<open>A row read is the row that stands there, wherever its batch is; reading changes no row.\<close>

lemma read_row_spec:
  assumes "buffer_ok a b" "read_row a c1 poll c2 row b = (r, b')"
  shows "buffer_ok a b' \<and> buffer_rows a b' = buffer_rows a b"
    and "r = Inr None \<longrightarrow> length (buffer_rows a b) \<le> row"
    and "r = Inr (Some (batch, off)) \<longrightarrow> row < length (buffer_rows a b)
      \<and> off < num_rows a batch \<and> ar_rows a batch ! off = buffer_rows a b ! row"
proof -
  have inv: "buffer_inv a b" using assms(1) by (simp add: buffer_ok_def)
  note place = locate_spec [OF inv, of row]
  have "(\<exists>c. page_fits a b c \<and> b' = with_cache c b)
    \<and> (r = Inr None \<longrightarrow> length (buffer_rows a b) \<le> row)
    \<and> (r = Inr (Some (batch, off)) \<longrightarrow> row < length (buffer_rows a b)
      \<and> off < num_rows a batch \<and> ar_rows a batch ! off = buffer_rows a b ! row)"
  proof (cases "locate row b")
    case None
    with assms place(1) buffer_ok_fits [OF assms(1)] show ?thesis
      by (auto simp: read_row_def intro!: exI [of _ "db_cache b"])
  next
    case (Some found)
    obtain i o' where found: "found = (i, o')" by fastforce
    obtain answer b1 where run: "batch_cancellable a c1 poll c2 i b = (answer, b1)" by fastforce
    note at = place(2) [OF Some [unfolded found]]
    have row: "row < length (buffer_rows a b)" using Some place(1) by (metis linorder_not_less option.discI)
    have "r = map_sum id (map_option (\<lambda>batch. (batch, o'))) answer" "b' = b1"
      using assms(2) Some found run by (simp_all add: read_row_def)
    with batch_cancellable_spec [OF assms(1) run] at row show ?thesis
      by (cases answer) (auto simp: num_rows_def)
  qed
  then show "buffer_ok a b' \<and> buffer_rows a b' = buffer_rows a b"
    and "r = Inr None \<longrightarrow> length (buffer_rows a b) \<le> row"
    and "r = Inr (Some (batch, off)) \<longrightarrow> row < length (buffer_rows a b)
      \<and> off < num_rows a batch \<and> ar_rows a batch ! off = buffer_rows a b ! row"
    using buffer_ok_with_cache [OF assms(1)] by auto
qed

text \<open>Pushing and closing keep the whole invariant.\<close>

lemma push_slots:
  assumes "buffer_inv a b" "push a d batch b = (res, b')"
  shows "\<exists>new. bi_slots (db_index b') = bi_slots (db_index b) @ new
    \<and> (\<forall>sl \<in> set (bi_slots (db_index b)). slot_rows a b' sl = slot_rows a b sl)"
  using assms(2)
proof (cases rule: push_cases)
  case (unplaced e p)
  have ok: "arrow_ok a" "file_ok b" "\<forall>sl \<in> set (bi_slots (db_index b)). slot_ok a b sl"
    using assms(1) by (simp_all add: buffer_inv_def)
  from place_spec(3) [OF ok(1,2) unplaced(2)] ok(3) place_inv(3) [OF assms(1) unplaced(2)]
  show ?thesis by auto
next
  case (stored p sl b1)
  have ok: "arrow_ok a" "file_ok b" "\<forall>sl \<in> set (bi_slots (db_index b)). slot_ok a b sl"
    using assms(1) by (simp_all add: buffer_inv_def)
  have same: "db_spill b' = db_spill b1" by (simp only: stored(5)) simp
  have "bi_slots (db_index b') = bi_slots (db_index b) @ [sl]"
    using place_inv(3) [OF assms(1) stored(2)] by (simp only: stored(5)) simp
  with place_spec(3) [OF ok(1,2) stored(2)] ok(3) show ?thesis
    by (auto simp: slot_rows_file [OF same])
qed auto

lemma push_ok:
  assumes "buffer_ok a b" "push a d batch b = (res, b')"
    and "bi_rows (db_index b) + num_rows a batch \<le> usize_max"
  shows "buffer_ok a b'"
proof -
  have inv: "buffer_inv a b" and pages: "pages_ok a b" using assms(1) by (simp_all add: buffer_ok_def)
  from push_slots [OF inv assms(2)] obtain new where
    "bi_slots (db_index b') = bi_slots (db_index b) @ new"
    "\<forall>sl \<in> set (bi_slots (db_index b)). slot_rows a b' sl = slot_rows a b sl" by blast
  with pages push_frame [OF inv assms(2)] have "pages_ok a b'"
    by (fastforce simp: pages_ok_def nth_append)
  with push_inv [OF inv assms(2,3)] show ?thesis by (simp add: buffer_ok_def)
qed

text \<open>Closing and marking change what is said of the result, never its rows.\<close>

definition same_rows :: "'b data_buffer \<Rightarrow> 'b data_buffer \<Rightarrow> bool" where
  "same_rows b b' \<longleftrightarrow> (\<exists>st c. b' = b\<lparr>db_index := (db_index b)\<lparr>bi_stats := st, bi_complete := c\<rparr>\<rparr>)"

lemma same_rows_view:
  assumes "same_rows b b'"
  shows "buffer_rows a b' = buffer_rows a b" "buffer_ok a b' = buffer_ok a b"
    "bi_rows (db_index b') = bi_rows (db_index b)" "db_limits b' = db_limits b"
proof -
  obtain st c where b': "b' = b\<lparr>db_index := (db_index b)\<lparr>bi_stats := st, bi_complete := c\<rparr>\<rparr>"
    using assms by (auto simp: same_rows_def)
  then have same: "db_spill b' = db_spill b" by simp
  show rows: "buffer_rows a b' = buffer_rows a b" "bi_rows (db_index b') = bi_rows (db_index b)"
    "db_limits b' = db_limits b"
    by (simp_all only: buffer_rows_def slot_rows_file [OF same]) (simp_all add: b')
  show "buffer_ok a b' = buffer_ok a b"
    unfolding buffer_ok_def buffer_inv_def pages_ok_def rows slot_rows_file [OF same] slot_ok_file [OF same]
    by (simp add: b' file_ok_def)
qed

lemma mark_complete_same: "same_rows b (mark_complete st b)"
  by (auto simp: same_rows_def mark_complete_def Let_def)

lemma buffer_mark_truncated_same: "same_rows b (buffer_mark_truncated b)"
  unfolding same_rows_def buffer_mark_truncated_def
  by (intro exI [of _ "mark_truncated (bi_stats (db_index b))"] exI [of _ "bi_complete (db_index b)"]) simp

lemma truncated_mark_truncated [simp]: "truncated (mark_truncated s)"
  by (simp add: mark_truncated_def)

lemma mark_complete_stats [simp]:
  "bi_complete (db_index (mark_complete st b))"
  "truncated (bi_stats (db_index (mark_complete st b)))
     \<longleftrightarrow> truncated (bi_stats (db_index b)) \<or> truncated st"
  by (simp_all add: mark_complete_def Let_def)

lemma buffer_mark_truncated_stats [simp]:
  "truncated (bi_stats (db_index (buffer_mark_truncated b)))"
  "bi_complete (db_index (buffer_mark_truncated b)) = bi_complete (db_index b)"
  by (simp_all add: buffer_mark_truncated_def)

text \<open>A push marks the result exactly when it leaves rows of the batch out.\<close>

lemma push_truncated:
  assumes "buffer_inv a b" "push a d batch b = (Inr res, b')"
  shows "(truncated (bi_stats (db_index b')) \<longleftrightarrow> truncated (bi_stats (db_index b))
    \<or> length (accepted a b batch) < num_rows a batch)
    \<and> (res = None \<longleftrightarrow> num_rows a batch = 0)"
  using assms(2)
proof (cases rule: push_cases)
  case (stored p sl b1)
  have arrow: "arrow_ok a" using assms(1) by (simp add: buffer_inv_def)
  have "truncated (bi_stats (db_index b')) \<longleftrightarrow> truncated (bi_stats (db_index b)) \<or> pp_truncated p"
    using place_inv(3) [OF assms(1) stored(2)]
    by (simp only: stored(5)) (simp add: record_batch_def)
  with kept_batch_accepted(3) [OF arrow stored(1)] stored show ?thesis by simp
qed (use length_accepted [of a b batch] in simp_all)

text \<open>A push that leaves rows out fills the result up to its limit.\<close>

lemma trimmed_at_limit:
  assumes "at_most_rows (bl_max_rows (db_limits b)) (bi_rows (db_index b))"
    "length (accepted a b batch) < num_rows a batch"
  shows "\<exists>most. bl_max_rows (db_limits b) = Some most
    \<and> bi_rows (db_index b) + length (accepted a b batch) = most"
  using assms by (auto simp: at_most_rows_def accepted_def num_rows_def split: option.splits)

text \<open>A new buffer is in order.\<close>

lemma buffer_ok_new:
  assumes "arrow_ok a" "limits_ok l"
  shows "buffer_ok a (buffer_with_limits columns l)"
proof -
  have "bl_memory l div 4 < usize_max"
    using assms(2) by (auto simp: limits_ok_def usize_max_def)
  moreover have "(0::nat) < usize_max" by (simp add: usize_max_def)
  ultimately show ?thesis
    using assms
    by (auto simp: buffer_ok_def buffer_inv_def pages_ok_def buffer_with_limits_def buffer_index_new_def
        page_cache_new_def page_cache_ok_def pages_total_def buffer_rows_def file_ok_def at_most_rows_def
        cache_budget_def split: option.split)
qed

end
