(* ===== verification/Batch_Sink.thy ===== *)
theory Batch_Sink
  imports Result_Buffer Execution
begin

text \<open>
  The bridge from a driver's cursor to the buffer (\<open>crates/oxyn-data/src/sink.rs\<close>). A drain is a
  loop over what the source answers: one \<open>pull\<close> is one turn, with the state of the token at its
  head, the answer of \<open>next_batch\<close> or the token winning the race against it, the measurements of
  the source before and after, and how the disk answers if the batch is spilled. A drain whose
  pulls run out is one the source has not ended yet: it returns nothing.
\<close>

subsection \<open>The source and the sink\<close>

datatype 'b received = Abandoned | Received "'b option result"

record 'b pull =
  pl_cancelled :: bool
  pl_known :: exec_stats
  pl_received :: "'b received"
  pl_stats :: exec_stats
  pl_disk :: disk_answer

record batch_progress =
  bp_index :: nat
  bp_rows :: nat
  bp_total_rows :: nat

record 'b batch_sink =
  sk_buffer :: "'b data_buffer"
  sk_aborted :: bool
  sk_confirm_end :: bool
  sk_awaits_terminal :: bool

definition sink_new :: "'b data_buffer \<Rightarrow> 'b batch_sink" where
  "sink_new b = \<lparr>sk_buffer = b, sk_aborted = False, sk_confirm_end = False, sk_awaits_terminal = False\<rparr>"

definition awaiting_terminal_outcome :: "'b batch_sink \<Rightarrow> 'b batch_sink" where
  "awaiting_terminal_outcome s = s\<lparr>sk_awaits_terminal := True\<rparr>"

definition with_end_confirmation :: "'b batch_sink \<Rightarrow> 'b batch_sink" where
  "with_end_confirmation s = s\<lparr>sk_confirm_end := True\<rparr>"

definition sink_truncated :: "'b batch_sink \<Rightarrow> bool" where
  "sink_truncated s \<longleftrightarrow> truncated (bi_stats (db_index (sk_buffer s)))"

definition seal :: "exec_stats \<Rightarrow> bool \<Rightarrow> 'b batch_sink \<Rightarrow> 'b batch_sink" where
  "seal stats short s =
     s\<lparr>sk_buffer := mark_complete stats
        (if short then buffer_mark_truncated (sk_buffer s) else sk_buffer s)\<rparr>"

subsection \<open>One turn of a drain\<close>

text \<open>A turn stops with the result of the drain, or goes on; \<open>on_batch\<close> hears of a stored batch.\<close>

type_synonym 'b turn = "sink_outcome result option \<times> batch_progress option \<times> 'b batch_sink"

definition stored_progress :: "nat \<Rightarrow> 'b data_buffer \<Rightarrow> batch_progress" where
  "stored_progress i b =
     \<lparr>bp_index = i, bp_rows = (case batch_rows i b of None \<Rightarrow> 0 | Some n \<Rightarrow> n),
      bp_total_rows = bi_rows (db_index b)\<rparr>"

definition store ::
  "('b, 'r) arrow \<Rightarrow> (data_error \<Rightarrow> string) \<Rightarrow> 'b pull \<Rightarrow> 'b \<Rightarrow> 'b batch_sink \<Rightarrow> 'b turn" where
  "store a show p batch s =
     (case push a (pl_disk p) batch (sk_buffer s) of
        (Inr None, b) \<Rightarrow> (None, None, s\<lparr>sk_buffer := b\<rparr>)
      | (Inr (Some i), b) \<Rightarrow> (None, Some (stored_progress i b), s\<lparr>sk_buffer := b\<rparr>)
      | (Inl (DFull why), b) \<Rightarrow>
          (Some (Inr (if buffer_pressure b = PRowLimit then RowLimit else Saturated)), None,
           seal (pl_stats p) True (s\<lparr>sk_buffer := b\<rparr>))
      | (Inl e, b) \<Rightarrow>
          (Some (Inl (data_to_oxyn show e)), None, seal (pl_stats p) True (s\<lparr>sk_buffer := b\<rparr>)))"

definition receive ::
  "('b, 'r) arrow \<Rightarrow> (data_error \<Rightarrow> string) \<Rightarrow> 'b pull \<Rightarrow> bool \<Rightarrow> 'b batch_sink \<Rightarrow> 'b turn" where
  "receive a show p confirming_end s =
     (case pl_received p of
        Abandoned \<Rightarrow> (Some (Inr SinkCancelled), None, seal (pl_stats p) True (s\<lparr>sk_aborted := True\<rparr>))
      | Received (Inr None) \<Rightarrow>
          (Some (Inr (if truncated (pl_stats p) then RowLimit else Exhausted)), None,
           seal (pl_stats p) False s)
      | Received (Inr (Some batch)) \<Rightarrow>
          if confirming_end then
            (if num_rows a batch = 0 then (None, None, s)
             else (Some (Inr RowLimit), None, seal (pl_stats p) True s))
          else store a show p batch s
      | Received (Inl e) \<Rightarrow>
          (Some (case e of ECancelled \<Rightarrow> Inr SinkCancelled
                 | ETimeout _ \<Rightarrow> if confirming_end then Inr RowLimitUnverified else Inl e
                 | _ \<Rightarrow> Inl e),
           None, seal (pl_stats p) True s))"

text \<open>Before the source is asked: why the drain stops, or whether this turn only confirms the end.\<close>

definition drain_head :: "'b pull \<Rightarrow> 'b batch_sink \<Rightarrow> sink_outcome result \<times> 'b batch_sink + bool \<times> 'b batch_sink" where
  "drain_head p s =
     (if pl_cancelled p then Inl (Inr SinkCancelled, seal (pl_known p) True s)
      else case buffer_pressure (sk_buffer s) of
        PReady \<Rightarrow> Inr (False, s)
      | PRowLimit \<Rightarrow>
          if sink_truncated s then Inl (Inr RowLimit, seal (pl_known p) True s)
          else if sk_confirm_end s then Inr (True, s)
          else Inl (Inr RowLimitUnverified, seal (pl_known p) True s)
      | PSaturated \<Rightarrow> Inl (Inr Saturated, seal (pl_known p) True s)
      | PComplete \<Rightarrow> Inl (Inr Exhausted, s))"

definition drain_answer ::
  "('b, 'r) arrow \<Rightarrow> (data_error \<Rightarrow> string) \<Rightarrow> 'b pull \<Rightarrow> bool \<times> 'b batch_sink \<Rightarrow> 'b turn" where
  "drain_answer a show p asked = (case asked of (confirming_end, s) \<Rightarrow> receive a show p confirming_end s)"

subsection \<open>Draining to the source's own end\<close>

text \<open>Why the buffer stopped taking rows, and a failure to store, wait for the source to end.\<close>

record 'b end_state =
  es_sink :: "'b batch_sink"
  es_stopped :: "sink_outcome option"
  es_failure :: "oxyn_error option"

type_synonym 'b end_turn = "sink_outcome result option \<times> batch_progress option \<times> 'b end_state"

definition why_stopped :: "'b batch_sink \<Rightarrow> sink_outcome option" where
  "why_stopped s =
     (case buffer_pressure (sk_buffer s) of
        PRowLimit \<Rightarrow> Some (if sink_truncated s then RowLimit else RowLimitUnverified)
      | PSaturated \<Rightarrow> Some Saturated
      | _ \<Rightarrow> None)"

definition store_to_end ::
  "('b, 'r) arrow \<Rightarrow> (data_error \<Rightarrow> string) \<Rightarrow> 'b pull \<Rightarrow> 'b \<Rightarrow> 'b end_state \<Rightarrow> 'b end_turn" where
  "store_to_end a show p batch t =
     (let s = es_sink t in
      if es_failure t \<noteq> None then (None, None, t)
      else case es_stopped t of
        Some why \<Rightarrow>
          (None, None,
           if why = RowLimitUnverified \<and> 0 < num_rows a batch then t\<lparr>es_stopped := Some RowLimit\<rparr> else t)
      | None \<Rightarrow>
          (case push a (pl_disk p) batch (sk_buffer s) of
             (Inr None, b) \<Rightarrow> (None, None, t\<lparr>es_sink := s\<lparr>sk_buffer := b\<rparr>\<rparr>)
           | (Inr (Some i), b) \<Rightarrow>
               (None, Some (stored_progress i b), t\<lparr>es_sink := s\<lparr>sk_buffer := b\<rparr>\<rparr>)
           | (Inl (DFull why), b) \<Rightarrow>
               (None, None,
                t\<lparr>es_sink := s\<lparr>sk_buffer := b\<rparr>,
                  es_stopped := Some (if buffer_pressure b = PRowLimit then RowLimit else Saturated)\<rparr>)
           | (Inl e, b) \<Rightarrow>
               (None, None,
                t\<lparr>es_sink := s\<lparr>sk_buffer := b\<rparr>, es_failure := Some (data_to_oxyn show e)\<rparr>)))"

text \<open>\<open>pl_received\<close> is an answer of the source here: the token is not raced against it, and a turn
  that is given no answer waits.\<close>

definition end_head :: "'b pull \<Rightarrow> 'b end_state \<Rightarrow> sink_outcome result \<times> 'b end_state + 'b end_state" where
  "end_head p t =
     (if es_stopped t \<noteq> None \<or> es_failure t \<noteq> None then Inr t
      else if buffer_pressure (sk_buffer (es_sink t)) = PComplete then Inl (Inr Exhausted, t)
      else Inr (t\<lparr>es_stopped := why_stopped (es_sink t)\<rparr>))"

definition end_answer ::
  "('b, 'r) arrow \<Rightarrow> (data_error \<Rightarrow> string) \<Rightarrow> 'b pull \<Rightarrow> 'b end_state \<Rightarrow> 'b end_turn" where
  "end_answer a show p t =
     (case pl_received p of
        Abandoned \<Rightarrow> (None, None, t)
      | Received (Inr (Some batch)) \<Rightarrow> store_to_end a show p batch t
      | Received (Inr None) \<Rightarrow>
          (let short = es_stopped t \<noteq> None \<or> truncated (pl_stats p) in
           (Some (case es_failure t of Some e \<Rightarrow> Inl e
              | None \<Rightarrow> Inr (case es_stopped t of Some why \<Rightarrow> why
                  | None \<Rightarrow> if short then RowLimit else Exhausted)),
            None, t\<lparr>es_sink := seal (pl_stats p) short (es_sink t)\<rparr>))
      | Received (Inl e) \<Rightarrow>
          (Some (if e = ECancelled then Inr SinkCancelled else Inl e), None,
           t\<lparr>es_sink := seal (pl_stats p) True (es_sink t)\<rparr>))"

subsection \<open>The loop\<close>

text \<open>The turns until one stops: the result, the progress reported, the state, and the pulls whose
  answer was not read.\<close>

fun turns ::
  "('p \<Rightarrow> 's \<Rightarrow> 'o \<times> 's + 't) \<Rightarrow> ('p \<Rightarrow> 't \<Rightarrow> 'o option \<times> 'n option \<times> 's) \<Rightarrow> 'p list \<Rightarrow> 's
   \<Rightarrow> 'o option \<times> 'n list \<times> 's \<times> 'p list" where
  "turns ask answer [] s = (None, [], s, [])"
| "turns ask answer (p # ps) s =
     (case ask p s of
        Inl (r, s') \<Rightarrow> (Some r, [], s', p # ps)
      | Inr t \<Rightarrow>
          (case answer p t of
             (Some r, note, s') \<Rightarrow> (Some r, (case note of None \<Rightarrow> [] | Some n \<Rightarrow> [n]), s', ps)
           | (None, note, s') \<Rightarrow>
               (case turns ask answer ps s' of
                  (r, notes, s'', rest) \<Rightarrow>
                    (r, (case note of None \<Rightarrow> notes | Some n \<Rightarrow> n # notes), s'', rest))))"

definition drain_to_end ::
  "('b, 'r) arrow \<Rightarrow> (data_error \<Rightarrow> string) \<Rightarrow> 'b pull list \<Rightarrow> 'b batch_sink
   \<Rightarrow> sink_outcome result option \<times> batch_progress list \<times> 'b batch_sink \<times> 'b pull list" where
  "drain_to_end a show ps s =
     (case turns end_head (end_answer a show) ps \<lparr>es_sink = s, es_stopped = None, es_failure = None\<rparr> of
        (r, notes, t, rest) \<Rightarrow> (r, notes, es_sink t, rest))"

definition drain_with ::
  "('b, 'r) arrow \<Rightarrow> (data_error \<Rightarrow> string) \<Rightarrow> 'b pull list \<Rightarrow> 'b batch_sink
   \<Rightarrow> sink_outcome result option \<times> batch_progress list \<times> 'b batch_sink \<times> 'b pull list" where
  "drain_with a show ps s =
     (if sk_aborted s
      then (Some (Inl (EInternal ''batch source was abandoned mid-flight and cannot be resumed'')), [], s, ps)
      else if sk_awaits_terminal s then drain_to_end a show ps s
      else turns drain_head (drain_answer a show) ps s)"

subsection \<open>Loops over pulls\<close>

text \<open>What a turn keeps while it goes on and ensures when it stops, a loop of turns ensures.\<close>

locale turn_loop =
  fixes ask :: "'p \<Rightarrow> 's \<Rightarrow> 'o \<times> 's + 't"
    and answer :: "'p \<Rightarrow> 't \<Rightarrow> 'o option \<times> 'n option \<times> 's"
    and inv :: "'p list \<Rightarrow> 's \<Rightarrow> bool"
    and asked :: "'p list \<Rightarrow> 't \<Rightarrow> bool"
    and ends :: "'p list \<Rightarrow> 'o \<Rightarrow> 's \<Rightarrow> bool"
  assumes stops: "inv used s \<Longrightarrow> ask p s = Inl (r, s') \<Longrightarrow> ends used r s'"
    and asks: "inv used s \<Longrightarrow> ask p s = Inr t \<Longrightarrow> asked used t"
    and goes_on: "asked used t \<Longrightarrow> answer p t = (None, msg, s') \<Longrightarrow> inv (used @ [p]) s'"
    and concludes: "asked used t \<Longrightarrow> answer p t = (Some r, msg, s') \<Longrightarrow> ends (used @ [p]) r s'"
begin

lemma turns_end:
  "inv used s \<Longrightarrow> turns ask answer ps s = (Some r, ns, s', rest)
    \<Longrightarrow> \<exists>us. ps = us @ rest \<and> ends (used @ us) r s'"
proof (induction ps arbitrary: used s ns)
  case (Cons p ps)
  show ?case
  proof (cases "ask p s")
    case (Inl stopped)
    with Cons.prems stops [of used s p r s'] show ?thesis by (cases stopped) auto
  next
    case (Inr t)
    note t = asks [OF Cons.prems(1) Inr]
    obtain halt msg s1 where step: "answer p t = (halt, msg, s1)" by (metis prod_cases3)
    show ?thesis
    proof (cases halt)
      case (Some r')
      with Cons.prems step Inr have "r' = r" "s1 = s'" "ps = rest" by simp_all
      with concludes [OF t, of p r msg s1] step Some show ?thesis
        by (intro exI [of _ "[p]"]) simp
    next
      case None
      obtain ns' where "turns ask answer ps s1 = (Some r, ns', s', rest)"
        using Cons.prems(2) step None Inr by (auto split: prod.splits)
      from Cons.IH [OF _ this, of "used @ [p]"] goes_on [OF t, of p msg s1] step None
      obtain us where "ps = us @ rest" "ends ((used @ [p]) @ us) r s'" by auto
      then show ?thesis by (intro exI [of _ "p # us"]) simp
    qed
  qed
qed simp

end

subsection \<open>What arrives and what is held\<close>

text \<open>The batches the source answered, the empty ones left out: they hold no row.\<close>

fun arrived :: "('b, 'r) arrow \<Rightarrow> 'b pull list \<Rightarrow> 'b list" where
  "arrived a [] = []"
| "arrived a (p # ps) =
     (case pl_received p of
        Received (Inr (Some batch)) \<Rightarrow> if num_rows a batch = 0 then arrived a ps else batch # arrived a ps
      | _ \<Rightarrow> arrived a ps)"

definition rows_of :: "('b, 'r) arrow \<Rightarrow> 'b list \<Rightarrow> 'r list" where
  "rows_of a bs = concat (map (ar_rows a) bs)"

text \<open>Every batch is held whole, but the last may be held in part.\<close>

definition holds_but_last :: "('b, 'r) arrow \<Rightarrow> 'r list \<Rightarrow> 'b list \<Rightarrow> 'r list \<Rightarrow> bool" where
  "holds_but_last a r0 bs rows \<longleftrightarrow>
     (\<exists>whole tail k. bs = whole @ tail \<and> length tail \<le> 1
        \<and> rows = r0 @ rows_of a whole @ take k (rows_of a tail))"

lemma arrived_append [simp]: "arrived a (ps @ qs) = arrived a ps @ arrived a qs"
  by (induction ps) (simp_all split: received.split sum.split option.split)

lemma rows_of_simps [simp]:
  "rows_of a [] = []" "rows_of a (b # bs) = ar_rows a b @ rows_of a bs"
  "rows_of a (xs @ ys) = rows_of a xs @ rows_of a ys"
  by (simp_all add: rows_of_def)

lemma holds_all: "rows = r0 @ rows_of a bs \<Longrightarrow> holds_but_last a r0 bs rows"
  unfolding holds_but_last_def by (intro exI [of _ bs] exI [of _ "[]"]) simp

lemma holds_part: "rows = r0 @ rows_of a bs @ take k (ar_rows a b) \<Longrightarrow> holds_but_last a r0 (bs @ [b]) rows"
  unfolding holds_but_last_def by (intro exI [of _ bs] exI [of _ "[b]"] exI [of _ k]) simp

text \<open>What a push does to an open buffer, said of the rows.\<close>

lemma push_stored:
  assumes "buffer_ok a b" "\<not> bi_complete (db_index b)" "push a d batch b = (Inr res, b')"
    and "bi_rows (db_index b) + num_rows a batch \<le> usize_max"
  shows "(truncated (bi_stats (db_index b')) = truncated (bi_stats (db_index b))
        \<and> buffer_rows a b' = buffer_rows a b @ ar_rows a batch)
    \<or> (truncated (bi_stats (db_index b')) \<and> buffer_pressure b' = PRowLimit \<and> num_rows a batch \<noteq> 0
        \<and> (\<exists>k. buffer_rows a b' = buffer_rows a b @ take k (ar_rows a batch)))"
proof -
  have inv: "buffer_inv a b" using assms(1) by (simp add: buffer_ok_def)
  have most: "at_most_rows (bl_max_rows (db_limits b)) (bi_rows (db_index b))"
    and count: "bi_rows (db_index b) = length (buffer_rows a b)"
    using inv unfolding buffer_inv_def by blast+
  have count': "bi_rows (db_index b') = length (buffer_rows a b')"
    using push_ok [OF assms(1,3,4)] unfolding buffer_ok_def buffer_inv_def by blast
  note frame = push_frame [OF inv assms(3)] and marks = push_truncated [OF inv assms(3)]
  have rows: "buffer_rows a b' = buffer_rows a b @ accepted a b batch"
    using push_rows [OF inv assms(3)] marks length_accepted [of a b batch] by (cases res) auto
  obtain k where part: "accepted a b batch = take k (ar_rows a batch)"
    by (metis accepted_def option.case_eq_if order_refl take_all)
  show ?thesis
  proof (cases "length (accepted a b batch) < num_rows a batch")
    case True
    from trimmed_at_limit [OF most True] frame assms(2) count count' rows
    have "buffer_pressure b' = PRowLimit" by (auto simp: buffer_pressure_def Let_def)
    with True marks rows part show ?thesis by auto
  next
    case False
    then have "accepted a b batch = ar_rows a batch" using part by (simp add: num_rows_def)
    with False marks rows show ?thesis by simp
  qed
qed

lemma push_refused:
  assumes "buffer_ok a b" "push a d batch b = (Inl e, b')"
    and "bi_rows (db_index b) + num_rows a batch \<le> usize_max"
  shows "buffer_ok a b' \<and> buffer_rows a b' = buffer_rows a b"
  using push_ok [OF assms] push_rows [of a b d batch "Inl e" b'] assms(1,2) by (simp add: buffer_ok_def)

text \<open>What closing a sink leaves.\<close>

lemma seal_spec:
  "buffer_rows a (sk_buffer (seal st short s)) = buffer_rows a (sk_buffer s)"
  "buffer_ok a (sk_buffer (seal st short s)) = buffer_ok a (sk_buffer s)"
  "bi_complete (db_index (sk_buffer (seal st short s)))"
  "sink_truncated (seal st short s) \<longleftrightarrow> sink_truncated s \<or> short \<or> truncated st"
  using same_rows_view(1,2) [OF mark_complete_same [of "sk_buffer s" st], where a = a]
    same_rows_view(1,2) [OF mark_complete_same [of "buffer_mark_truncated (sk_buffer s)" st], where a = a]
    same_rows_view(1,2) [OF buffer_mark_truncated_same [of "sk_buffer s"], where a = a]
  by (auto simp: seal_def sink_truncated_def)

subsection \<open>The contract of a drain\<close>

text \<open>What has arrived since \<open>b0\<close> still fits the counters.\<close>

definition countable_rows :: "('b, 'r) arrow \<Rightarrow> 'b data_buffer \<Rightarrow> 'b pull list \<Rightarrow> bool" where
  "countable_rows a b0 used \<longleftrightarrow>
     length (buffer_rows a b0) + length (rows_of a (arrived a used)) \<le> usize_max"

definition open_sink :: "('b, 'r) arrow \<Rightarrow> 'b batch_sink \<Rightarrow> bool" where
  "open_sink a s \<longleftrightarrow> buffer_ok a (sk_buffer s) \<and> \<not> bi_complete (db_index (sk_buffer s))"

text \<open>While it goes on, everything that arrived is held, or the limit cut the last batch.\<close>

definition draining :: "('b, 'r) arrow \<Rightarrow> 'b data_buffer \<Rightarrow> 'b pull list \<Rightarrow> 'b batch_sink \<Rightarrow> bool" where
  "draining a b0 used s \<longleftrightarrow> (countable_rows a b0 used \<longrightarrow> open_sink a s
     \<and> ((buffer_rows a (sk_buffer s) = buffer_rows a b0 @ rows_of a (arrived a used) \<and> \<not> sink_truncated s)
        \<or> (buffer_pressure (sk_buffer s) = PRowLimit \<and> sink_truncated s
           \<and> holds_but_last a (buffer_rows a b0) (arrived a used) (buffer_rows a (sk_buffer s)))))"

definition drained_as ::
  "('b, 'r) arrow \<Rightarrow> 'b data_buffer \<Rightarrow> 'b pull list \<Rightarrow> sink_outcome result \<Rightarrow> 'b batch_sink \<Rightarrow> bool" where
  "drained_as a b0 used r s \<longleftrightarrow> (countable_rows a b0 used \<longrightarrow>
     buffer_ok a (sk_buffer s) \<and> bi_complete (db_index (sk_buffer s))
     \<and> (sink_truncated s \<longleftrightarrow> r \<noteq> Inr Exhausted)
     \<and> holds_but_last a (buffer_rows a b0) (arrived a used) (buffer_rows a (sk_buffer s))
     \<and> (r = Inr Exhausted \<longrightarrow>
          buffer_rows a (sk_buffer s) = buffer_rows a b0 @ rows_of a (arrived a used)))"

lemma countable_rows_before: "countable_rows a b0 (used @ us) \<Longrightarrow> countable_rows a b0 used"
  by (simp add: countable_rows_def)

text \<open>Sealing with a mark, when nothing more is held of what arrived last.\<close>

lemma sealed_short:
  assumes "buffer_ok a (sk_buffer s)" "r \<noteq> Inr Exhausted"
    "holds_but_last a (buffer_rows a b0) (arrived a used) (buffer_rows a (sk_buffer s))"
  shows "drained_as a b0 used r (seal st True s)"
  using assms by (simp add: drained_as_def seal_spec)

lemma arrived_nothing:
  "pl_received p = Abandoned \<or> (\<exists>e. pl_received p = Received (Inl e)) \<or> pl_received p = Received (Inr None)
    \<Longrightarrow> arrived a [p] = []"
  by auto

text \<open>One turn that receives, from a buffer holding all that arrived.\<close>

lemma store_turn:
  assumes s: "open_sink a s" "buffer_rows a (sk_buffer s) = buffer_rows a b0 @ rows_of a (arrived a used)"
    "\<not> sink_truncated s"
    and p: "pl_received p = Received (Inr (Some batch))" "countable_rows a b0 (used @ [p])"
    and step: "store a show p batch s = (res, msg, s')"
  shows "case res of None \<Rightarrow> draining a b0 (used @ [p]) s' | Some r \<Rightarrow> drained_as a b0 (used @ [p]) r s'"
proof -
  let ?b = "sk_buffer s"
  have ok: "buffer_ok a ?b" "\<not> bi_complete (db_index ?b)" using s(1) by (simp_all add: open_sink_def)
  then have count: "bi_rows (db_index ?b) = length (buffer_rows a ?b)"
    unfolding buffer_ok_def buffer_inv_def by blast
  have new: "rows_of a (arrived a [p]) = ar_rows a batch" "num_rows a batch \<noteq> 0 \<Longrightarrow> arrived a [p] = [batch]"
    using p(1) by (simp_all add: num_rows_def)
  have room: "bi_rows (db_index ?b) + num_rows a batch \<le> usize_max"
    using p(2) new(1) s(2) count by (simp add: countable_rows_def num_rows_def)
  obtain pushed b' where push: "push a (pl_disk p) batch ?b = (pushed, b')" by fastforce
  show ?thesis
  proof (cases pushed)
    case (Inr i)
    note stored = push [unfolded Inr]
    have "res = None" "s' = s\<lparr>sk_buffer := b'\<rparr>" using step stored by (cases i; simp add: store_def)+
    moreover have "open_sink a (s\<lparr>sk_buffer := b'\<rparr>)"
      using push_ok [OF ok(1) stored room] push_frame [of a ?b, OF _ stored] ok
      by (simp add: open_sink_def buffer_ok_def)
    moreover have "holds_but_last a (buffer_rows a b0) (arrived a used @ [batch])
        (buffer_rows a ?b @ take k (ar_rows a batch))" for k
      using holds_part [of _ "buffer_rows a b0" a "arrived a used" k batch] s(2) by simp
    ultimately show ?thesis
      using push_stored [OF ok stored room] s(2,3) new
      by (auto simp: draining_def sink_truncated_def)
  next
    case (Inl e)
    note refused = push_refused [OF ok(1) push [unfolded Inl] room]
    have holds: "holds_but_last a (buffer_rows a b0) (arrived a (used @ [p])) (buffer_rows a b')"
    proof (cases "num_rows a batch = 0")
      case True
      with p(1) have "arrived a (used @ [p]) = arrived a used" by simp
      with refused s(2) show ?thesis by (simp add: holds_all)
    next
      case False
      with new(2) refused s(2) show ?thesis
        using holds_part [of _ "buffer_rows a b0" a "arrived a used" 0 batch] by simp
    qed
    obtain r where r: "res = Some r" "r \<noteq> Inr Exhausted" "s' = seal (pl_stats p) True (s\<lparr>sk_buffer := b'\<rparr>)"
      using step push [unfolded Inl] by (cases e) (auto simp: store_def)
    with holds refused show ?thesis by (simp add: sealed_short)
  qed
qed

text \<open>Turns that receive nothing to store.\<close>

lemma draining_same:
  "draining a b0 used s \<Longrightarrow> arrived a [p] = [] \<Longrightarrow> draining a b0 (used @ [p]) s"
  by (simp add: draining_def countable_rows_def)

lemma receive_turn:
  assumes s: "open_sink a s" "buffer_rows a (sk_buffer s) = buffer_rows a b0 @ rows_of a (arrived a used)"
    "\<not> sink_truncated s"
    and p: "countable_rows a b0 (used @ [p])"
    and step: "receive a show p confirming s = (res, msg, s')"
  shows "case res of None \<Rightarrow> draining a b0 (used @ [p]) s' | Some r \<Rightarrow> drained_as a b0 (used @ [p]) r s'"
proof -
  have ok: "buffer_ok a (sk_buffer s)" using s(1) by (simp add: open_sink_def)
  have all: "holds_but_last a (buffer_rows a b0) (arrived a used) (buffer_rows a (sk_buffer s))"
    by (rule holds_all) (rule s(2))
  have going: "draining a b0 used s" using s by (simp add: draining_def)
  consider (abandoned) "pl_received p = Abandoned" | (failed) e where "pl_received p = Received (Inl e)"
    | (ended) "pl_received p = Received (Inr None)"
    | (batch) batch where "pl_received p = Received (Inr (Some batch))"
    by (metis received.exhaust old.sum.exhaust option.exhaust)
  then show ?thesis
  proof cases
    case abandoned
    with step s(2) ok all show ?thesis by (auto simp: receive_def sealed_short)
  next
    case (failed e)
    then obtain r where "res = Some r" "r \<noteq> Inr Exhausted" "s' = seal (pl_stats p) True s"
      using step by (cases e) (auto simp: receive_def)
    with failed ok all show ?thesis by (simp add: sealed_short)
  next
    case ended
    then have "res = Some (Inr (if truncated (pl_stats p) then RowLimit else Exhausted))"
      "s' = seal (pl_stats p) False s"
      using step by (simp_all add: receive_def)
    with ended s ok all show ?thesis by (simp add: drained_as_def seal_spec)
  next
    case (batch batch)
    show ?thesis
    proof (cases confirming)
      case False
      with step batch have "store a show p batch s = (res, msg, s')" by (simp add: receive_def)
      from store_turn [OF s batch p this] show ?thesis .
    next
      case True
      show ?thesis
      proof (cases "num_rows a batch = 0")
        case True
        with \<open>confirming\<close> batch step draining_same [OF going, of p] show ?thesis by (auto simp: receive_def)
      next
        case False
        with \<open>confirming\<close> batch step s(2) ok show ?thesis
          using holds_part [of _ "buffer_rows a b0" a "arrived a used" 0 batch]
          by (auto simp: receive_def sealed_short)
      qed
    qed
  qed
qed

lemma drain_stops:
  assumes inv: "draining a b0 used s" and step: "drain_head p s = Inl (r, s')"
  shows "drained_as a b0 used r s'"
proof (cases "countable_rows a b0 used")
  case False
  then show ?thesis by (simp add: drained_as_def)
next
  case True
  have s: "buffer_ok a (sk_buffer s)" "buffer_pressure (sk_buffer s) \<noteq> PComplete"
    using inv True by (auto simp: draining_def open_sink_def buffer_pressure_def Let_def)
  have part: "holds_but_last a (buffer_rows a b0) (arrived a used) (buffer_rows a (sk_buffer s))"
    using inv True holds_all [of _ "buffer_rows a b0" a "arrived a used"] by (auto simp: draining_def)
  from step s(2) have "s' = seal (pl_known p) True s \<and> r \<noteq> Inr Exhausted"
    by (cases "buffer_pressure (sk_buffer s)") (auto simp: drain_head_def split: if_splits)
  with s(1) part show ?thesis by (simp add: sealed_short)
qed

text \<open>The source is only asked while nothing is missing.\<close>

definition asking :: "('b, 'r) arrow \<Rightarrow> 'b data_buffer \<Rightarrow> 'b pull list \<Rightarrow> bool \<times> 'b batch_sink \<Rightarrow> bool" where
  "asking a b0 used asked \<longleftrightarrow> (countable_rows a b0 used \<longrightarrow> open_sink a (snd asked)
     \<and> buffer_rows a (sk_buffer (snd asked)) = buffer_rows a b0 @ rows_of a (arrived a used)
     \<and> \<not> sink_truncated (snd asked))"

lemma drain_asks:
  assumes "draining a b0 used s" "drain_head p s = Inr t"
  shows "asking a b0 used t"
  using assms
  by (cases "buffer_pressure (sk_buffer s)")
    (auto simp: drain_head_def asking_def draining_def split: if_splits)

lemma drain_answers:
  assumes "asking a b0 used t" "drain_answer a show p t = (res, msg, s')"
  shows "case res of None \<Rightarrow> draining a b0 (used @ [p]) s' | Some r \<Rightarrow> drained_as a b0 (used @ [p]) r s'"
proof (cases "countable_rows a b0 (used @ [p])")
  case False
  then show ?thesis by (simp add: draining_def drained_as_def split: option.split)
next
  case True
  have "receive a show p (fst t) (snd t) = (res, msg, s')"
    using assms(2) by (simp add: drain_answer_def case_prod_beta)
  with assms(1) countable_rows_before [OF True] receive_turn [OF _ _ _ True, of "snd t"] show ?thesis
    by (simp add: asking_def)
qed

interpretation drain_loop: turn_loop drain_head "drain_answer a render" "draining a b0" "asking a b0" "drained_as a b0"
  for a render b0
proof unfold_locales
  fix used t p msg s'
  assume "asking a b0 used t" "drain_answer a render p t = (None, msg, s')"
  from drain_answers [OF this] show "draining a b0 (used @ [p]) s'" by simp
next
  fix used t p r msg s'
  assume "asking a b0 used t" "drain_answer a render p t = (Some r, msg, s')"
  from drain_answers [OF this] show "drained_as a b0 (used @ [p]) r s'" by simp
qed (auto intro: drain_stops drain_asks)

text \<open>A drain ends with a closed buffer that holds all that arrived but, at most, the end of the
  last batch; it is marked exactly when the drain does not report a whole result.\<close>

lemma drain_with_drained:
  assumes "open_sink a s" "\<not> sink_truncated s" "\<not> sk_aborted s" "\<not> sk_awaits_terminal s"
    and "drain_with a render ps s = (Some r, ns, s', rest)"
  shows "\<exists>used. ps = used @ rest \<and> drained_as a (sk_buffer s) used r s'"
proof -
  have "draining a (sk_buffer s) [] s" using assms(1,2) by (simp add: draining_def)
  moreover have "turns drain_head (drain_answer a render) ps s = (Some r, ns, s', rest)"
    using assms(3-5) by (simp add: drain_with_def)
  ultimately show ?thesis using drain_loop.turns_end [of a "sk_buffer s" "[]" s] by auto
qed

subsection \<open>The contract of a drain to the source's end\<close>

definition holds_prefix :: "('b, 'r) arrow \<Rightarrow> 'b data_buffer \<Rightarrow> 'b pull list \<Rightarrow> 'b batch_sink \<Rightarrow> bool" where
  "holds_prefix a b0 used s \<longleftrightarrow>
     (\<exists>n. buffer_rows a (sk_buffer s) = buffer_rows a b0 @ take n (rows_of a (arrived a used)))"

definition holds_everything :: "('b, 'r) arrow \<Rightarrow> 'b data_buffer \<Rightarrow> 'b pull list \<Rightarrow> 'b batch_sink \<Rightarrow> bool" where
  "holds_everything a b0 used s \<longleftrightarrow>
     buffer_rows a (sk_buffer s) = buffer_rows a b0 @ rows_of a (arrived a used) \<and> \<not> sink_truncated s"

definition still_storing :: "'b end_state \<Rightarrow> bool" where
  "still_storing t \<longleftrightarrow> es_stopped t = None \<and> es_failure t = None"

definition ending_with :: "('b, 'r) arrow \<Rightarrow> 'b data_buffer \<Rightarrow> 'b pull list \<Rightarrow> 'b end_state \<Rightarrow> bool" where
  "ending_with a b0 used t \<longleftrightarrow> (countable_rows a b0 used \<longrightarrow> open_sink a (es_sink t)
     \<and> holds_prefix a b0 used (es_sink t) \<and> es_stopped t \<noteq> Some Exhausted
     \<and> (still_storing t \<longrightarrow> holds_everything a b0 used (es_sink t)
          \<or> buffer_pressure (sk_buffer (es_sink t)) = PRowLimit))"

definition ending_asked :: "('b, 'r) arrow \<Rightarrow> 'b data_buffer \<Rightarrow> 'b pull list \<Rightarrow> 'b end_state \<Rightarrow> bool" where
  "ending_asked a b0 used t \<longleftrightarrow> (countable_rows a b0 used \<longrightarrow> open_sink a (es_sink t)
     \<and> holds_prefix a b0 used (es_sink t) \<and> es_stopped t \<noteq> Some Exhausted
     \<and> (still_storing t \<longrightarrow> holds_everything a b0 used (es_sink t)))"

text \<open>The source said how it ended.\<close>

definition source_ended :: "'b pull list \<Rightarrow> bool" where
  "source_ended used \<longleftrightarrow> used \<noteq> []
     \<and> (pl_received (last used) = Received (Inr None) \<or> (\<exists>e. pl_received (last used) = Received (Inl e)))"

definition ended_as ::
  "('b, 'r) arrow \<Rightarrow> 'b data_buffer \<Rightarrow> 'b pull list \<Rightarrow> sink_outcome result \<Rightarrow> 'b end_state \<Rightarrow> bool" where
  "ended_as a b0 used r t \<longleftrightarrow> (countable_rows a b0 used \<longrightarrow>
     source_ended used \<and> buffer_ok a (sk_buffer (es_sink t))
     \<and> bi_complete (db_index (sk_buffer (es_sink t))) \<and> holds_prefix a b0 used (es_sink t)
     \<and> (\<forall>why. r = Inr why \<longrightarrow> (sink_truncated (es_sink t) \<longleftrightarrow> why \<noteq> Exhausted))
     \<and> (r = Inr Exhausted \<longrightarrow> holds_everything a b0 used (es_sink t)))"

lemma holds_prefix_same:
  "holds_prefix a b0 used s \<Longrightarrow> arrived a [p] = [] \<Longrightarrow> holds_prefix a b0 (used @ [p]) s"
  by (simp add: holds_prefix_def)

lemma holds_everything_same:
  "holds_everything a b0 used s \<Longrightarrow> arrived a [p] = [] \<Longrightarrow> holds_everything a b0 (used @ [p]) s"
  by (simp add: holds_everything_def)

lemma holds_prefix_skip:
  assumes "holds_prefix a b0 used s"
  shows "holds_prefix a b0 (used @ us) s"
proof -
  from assms obtain n where
    "buffer_rows a (sk_buffer s) = buffer_rows a b0 @ take n (rows_of a (arrived a used))"
    by (auto simp: holds_prefix_def)
  then show ?thesis
    unfolding holds_prefix_def
    by (intro exI [of _ "min n (length (rows_of a (arrived a used)))"]) (simp add: min_def)
qed

lemma holds_everything_prefix: "holds_everything a b0 used s \<Longrightarrow> holds_prefix a b0 used s"
  unfolding holds_everything_def holds_prefix_def
  by (intro exI [of _ "length (rows_of a (arrived a used))"]) simp

lemma ending_stops:
  assumes "ending_with a b0 used t" "end_head p t = Inl (r, t')"
  shows "ended_as a b0 used r t'"
  using assms
  by (auto simp: end_head_def ended_as_def ending_with_def open_sink_def buffer_pressure_def Let_def
      split: if_splits)

lemma ending_asks:
  assumes "ending_with a b0 used t" "end_head p t = Inr t'"
  shows "ending_asked a b0 used t'"
proof (cases "still_storing t")
  case True
  with assms(2) have t': "t' = t\<lparr>es_stopped := why_stopped (es_sink t)\<rparr>"
    by (auto simp: end_head_def still_storing_def split: if_splits)
  have "why_stopped (es_sink t) \<noteq> Some Exhausted"
    "buffer_pressure (sk_buffer (es_sink t)) = PRowLimit \<Longrightarrow> why_stopped (es_sink t) \<noteq> None"
    by (simp_all add: why_stopped_def split: pressure.split)
  with assms(1) t' True show ?thesis
    by (auto simp: ending_with_def ending_asked_def still_storing_def)
next
  case False
  then have "t' = t" using assms(2) by (auto simp: end_head_def still_storing_def)
  with assms(1) False show ?thesis by (simp add: ending_with_def ending_asked_def)
qed

lemma push_to_end:
  assumes s: "open_sink a s" "holds_everything a b0 used s"
    and p: "pl_received p = Received (Inr (Some batch))" "countable_rows a b0 (used @ [p])"
    and push: "push a d batch (sk_buffer s) = (res, b')"
  shows "open_sink a (s\<lparr>sk_buffer := b'\<rparr>) \<and> holds_prefix a b0 (used @ [p]) (s\<lparr>sk_buffer := b'\<rparr>)"
    and "res = Inr i \<Longrightarrow> holds_everything a b0 (used @ [p]) (s\<lparr>sk_buffer := b'\<rparr>)
      \<or> buffer_pressure b' = PRowLimit"
proof -
  let ?b = "sk_buffer s"
  have ok: "buffer_ok a ?b" "\<not> bi_complete (db_index ?b)" "buffer_inv a ?b"
    using s(1) by (simp_all add: open_sink_def buffer_ok_def)
  have count: "bi_rows (db_index ?b) = length (buffer_rows a ?b)"
    using ok(3) unfolding buffer_inv_def by blast
  have new: "rows_of a (arrived a [p]) = ar_rows a batch" using p(1) by (simp add: num_rows_def)
  have all: "buffer_rows a ?b = buffer_rows a b0 @ rows_of a (arrived a used)"
    using s(2) by (simp add: holds_everything_def)
  have room: "bi_rows (db_index ?b) + num_rows a batch \<le> usize_max"
    using p(2) new count all by (simp add: countable_rows_def num_rows_def)
  have part: "holds_prefix a b0 (used @ [p]) (s\<lparr>sk_buffer := b'\<rparr>)"
    if "buffer_rows a b' = buffer_rows a ?b @ take k (ar_rows a batch)" for k
    using that all new unfolding holds_prefix_def
    by (intro exI [of _ "length (rows_of a (arrived a used)) + k"]) simp
  have "open_sink a (s\<lparr>sk_buffer := b'\<rparr>)"
    using push_ok [OF ok(1) push room] push_frame [OF ok(3) push] ok(2) by (simp add: open_sink_def)
  moreover have "\<exists>k. buffer_rows a b' = buffer_rows a ?b @ take k (ar_rows a batch)"
  proof (cases res)
    case (Inl e)
    with push_refused [OF ok(1) push [unfolded Inl] room] show ?thesis by (intro exI [of _ 0]) simp
  next
    case (Inr i)
    from push_stored [OF ok(1,2) push [unfolded Inr] room] show ?thesis
      by (metis order_refl take_all)
  qed
  ultimately show "open_sink a (s\<lparr>sk_buffer := b'\<rparr>) \<and> holds_prefix a b0 (used @ [p]) (s\<lparr>sk_buffer := b'\<rparr>)"
    using part by blast
  show "holds_everything a b0 (used @ [p]) (s\<lparr>sk_buffer := b'\<rparr>) \<or> buffer_pressure b' = PRowLimit"
    if "res = Inr i"
    using push_stored [OF ok(1,2) push [unfolded that] room] s(2) new
    by (auto simp: holds_everything_def sink_truncated_def)
qed

lemma ending_store:
  assumes asked: "ending_asked a b0 used t"
    and p: "pl_received p = Received (Inr (Some batch))" "countable_rows a b0 (used @ [p])"
    and step: "store_to_end a render p batch t = (res, msg, t')"
  shows "res = None \<and> ending_with a b0 (used @ [p]) t'"
proof -
  have t: "open_sink a (es_sink t)" "holds_prefix a b0 used (es_sink t)" "es_stopped t \<noteq> Some Exhausted"
    "still_storing t \<Longrightarrow> holds_everything a b0 used (es_sink t)"
    using asked countable_rows_before [OF p(2)] by (simp_all add: ending_asked_def)
  show ?thesis
  proof (cases "still_storing t")
    case False
    then have "res = None \<and> es_sink t' = es_sink t \<and> \<not> still_storing t' \<and> es_stopped t' \<noteq> Some Exhausted"
      using step t(3) by (auto simp: store_to_end_def still_storing_def Let_def split: if_splits option.splits)
    with t(1) holds_prefix_skip [OF t(2), of "[p]"] show ?thesis by (simp add: ending_with_def)
  next
    case True
    obtain pushed b' where push: "push a (pl_disk p) batch (sk_buffer (es_sink t)) = (pushed, b')" by fastforce
    note pushed = push_to_end [OF t(1) t(4) [OF True] p push]
    note run = step [unfolded store_to_end_def Let_def push]
    show ?thesis
    proof (cases pushed)
      case (Inr i)
      then have "res = None \<and> t' = t\<lparr>es_sink := (es_sink t)\<lparr>sk_buffer := b'\<rparr>\<rparr>"
        using run True by (cases i) (simp_all add: still_storing_def)
      with pushed(1) pushed(2) [OF Inr] t(3) show ?thesis by (auto simp: ending_with_def)
    next
      case (Inl e)
      then have "res = None \<and> es_sink t' = (es_sink t)\<lparr>sk_buffer := b'\<rparr> \<and> \<not> still_storing t'
          \<and> es_stopped t' \<noteq> Some Exhausted"
        using run True by (cases e) (auto simp: still_storing_def split: if_splits)
      with pushed(1) show ?thesis by (simp add: ending_with_def)
    qed
  qed
qed

lemma ending_answers:
  assumes asked: "ending_asked a b0 used t" and step: "end_answer a render p t = (res, msg, t')"
  shows "case res of None \<Rightarrow> ending_with a b0 (used @ [p]) t' | Some r \<Rightarrow> ended_as a b0 (used @ [p]) r t'"
proof (cases "countable_rows a b0 (used @ [p])")
  case False
  then show ?thesis by (simp add: ending_with_def ended_as_def split: option.split)
next
  case True
  have t: "open_sink a (es_sink t)" "holds_prefix a b0 used (es_sink t)" "es_stopped t \<noteq> Some Exhausted"
    "still_storing t \<Longrightarrow> holds_everything a b0 used (es_sink t)"
    using asked countable_rows_before [OF True] by (simp_all add: ending_asked_def)
  then have ok: "buffer_ok a (sk_buffer (es_sink t))" by (simp add: open_sink_def)
  consider (abandoned) "pl_received p = Abandoned" | (failed) e where "pl_received p = Received (Inl e)"
    | (ended) "pl_received p = Received (Inr None)"
    | (batch) batch where "pl_received p = Received (Inr (Some batch))"
    by (metis received.exhaust old.sum.exhaust option.exhaust)
  then show ?thesis
  proof cases
    case abandoned
    then have "res = None" "t' = t" "arrived a [p] = []" using step by (simp_all add: end_answer_def)
    with t holds_prefix_same [OF t(2)] holds_everything_same [OF t(4)] show ?thesis
      by (simp add: ending_with_def)
  next
    case (failed e)
    then have "res = Some (if e = ECancelled then Inr SinkCancelled else Inl e)"
      "t' = t\<lparr>es_sink := seal (pl_stats p) True (es_sink t)\<rparr>" "arrived a [p] = []"
      using step by (simp_all add: end_answer_def)
    with failed ok t(2) show ?thesis
      by (simp add: ended_as_def source_ended_def seal_spec holds_prefix_def)
  next
    case ended
    let ?short = "es_stopped t \<noteq> None \<or> truncated (pl_stats p)"
    have r: "res = Some (case es_failure t of Some e \<Rightarrow> Inl e
        | None \<Rightarrow> Inr (case es_stopped t of Some why \<Rightarrow> why | None \<Rightarrow> if ?short then RowLimit else Exhausted))"
      "t' = t\<lparr>es_sink := seal (pl_stats p) ?short (es_sink t)\<rparr>" "arrived a [p] = []"
      using step ended unfolding end_answer_def Let_def by auto
    have whole: "\<not> sink_truncated (es_sink t) \<and> buffer_rows a (sk_buffer (es_sink t))
        = buffer_rows a b0 @ rows_of a (arrived a used)" if "still_storing t"
      using t(4) [OF that] by (simp add: holds_everything_def)
    show ?thesis
      using r ended ok t(2,3) whole
      by (cases "es_failure t"; cases "es_stopped t")
        (auto simp: ended_as_def source_ended_def seal_spec holds_prefix_def holds_everything_def
          still_storing_def)
  next
    case (batch batch)
    with step have "store_to_end a render p batch t = (res, msg, t')" by (simp add: end_answer_def)
    from ending_store [OF asked batch True this] show ?thesis by simp
  qed
qed

interpretation end_loop: turn_loop end_head "end_answer a render" "ending_with a b0" "ending_asked a b0" "ended_as a b0"
  for a render b0
proof unfold_locales
  fix used t p msg t'
  assume "ending_asked a b0 used t" "end_answer a render p t = (None, msg, t')"
  from ending_answers [OF this] show "ending_with a b0 (used @ [p]) t'" by simp
next
  fix used t p r msg t'
  assume "ending_asked a b0 used t" "end_answer a render p t = (Some r, msg, t')"
  from ending_answers [OF this] show "ended_as a b0 (used @ [p]) r t'" by simp
qed (auto intro: ending_stops ending_asks)

text \<open>A drain that waits for the source's end returns only once the source said how it ended.\<close>

lemma drain_to_end_ended:
  assumes "open_sink a s" "\<not> sink_truncated s" "drain_to_end a render ps s = (Some r, ns, s', rest)"
  shows "\<exists>used t. ps = used @ rest \<and> ended_as a (sk_buffer s) used r t \<and> s' = es_sink t"
proof -
  let ?t = "\<lparr>es_sink = s, es_stopped = None, es_failure = None\<rparr>"
  obtain r' ns' t rest' where run: "turns end_head (end_answer a render) ps ?t = (r', ns', t, rest')"
    by (metis prod_cases4)
  then have same: "r' = Some r" "rest' = rest" "s' = es_sink t"
    using assms(3) by (simp_all add: drain_to_end_def)
  have "ending_with a (sk_buffer s) [] ?t"
    using assms(1,2) holds_everything_prefix [of a "sk_buffer s" "[]" s]
    by (simp add: ending_with_def holds_everything_def)
  from end_loop.turns_end [OF this run [unfolded same(1,2)]] same(3) show ?thesis by auto
qed

text \<open>A batch that could not be stored is told as the error of the drain, but the buffer it is missing
  from is closed without the mark of a truncated result.\<close>

lemma failure_closes_without_mark:
  assumes s: "open_sink a s" "\<not> sink_truncated s" "buffer_pressure (sk_buffer s) = PReady"
    and p: "pl_received p = Received (Inr (Some batch))"
    and push: "push a (pl_disk p) batch (sk_buffer s) = (Inl e, b')" "\<not> (\<exists>why. e = DFull why)"
    and q: "pl_received q = Received (Inr None)" "\<not> truncated (pl_stats q)"
  shows "\<exists>s'. drain_to_end a render [p, q] s = (Some (Inl (data_to_oxyn render e)), [], s', [])
    \<and> bi_complete (db_index (sk_buffer s')) \<and> \<not> sink_truncated s'
    \<and> buffer_rows a (sk_buffer s') = buffer_rows a (sk_buffer s)"
proof -
  have inv: "buffer_inv a (sk_buffer s)" using s(1) by (simp add: open_sink_def buffer_ok_def)
  have "why_stopped s = None" using s(3) by (simp add: why_stopped_def)
  moreover have "truncated (bi_stats (db_index b')) = truncated (bi_stats (db_index (sk_buffer s)))"
    using push(1)
  proof (cases rule: push_cases)
    case (unplaced e p)
    with place_index show ?thesis by metis
  qed simp_all
  moreover have "buffer_rows a b' = buffer_rows a (sk_buffer s)" using push_rows [OF inv push(1)] by simp
  ultimately show ?thesis
    using s(2,3) p push q
    by (cases e) (auto simp: drain_to_end_def end_head_def end_answer_def store_to_end_def Let_def seal_spec
        seal_spec(4) [unfolded sink_truncated_def] sink_truncated_def)
qed

end
