(* ===== verification/Result_Export.thy ===== *)
theory Result_Export
  imports Batch_Sink Executor
begin

text \<open>
  Exporting a result (\<open>crates/oxyn-data/src/export.rs\<close>, \<open>export_file.rs\<close>): what is refused, the
  snapshot of the batches handed one by one to the writer of the format, and the replacement of the
  destination. Arrow's writers, the rewriting of duration columns and the names of the columns are
  arguments; so is what the file system answers.
\<close>

subsection \<open>What can be exported\<close>

record export_options =
  eo_header :: bool
  eo_null_text :: string
  eo_timestamp_format :: "string option"
  eo_allow_incomplete :: bool

definition default_export_options :: export_options where
  "default_export_options =
     \<lparr>eo_header = True, eo_null_text = [], eo_timestamp_format = None, eo_allow_incomplete = False\<rparr>"

record export_summary =
  xs_rows :: nat
  xs_batches :: nat
  xs_bytes :: nat

definition shared_step :: "string \<Rightarrow> string list \<times> string list \<Rightarrow> string list \<times> string list" where
  "shared_step name acc =
     (case acc of (seen, shared) \<Rightarrow>
        (if name \<in> set seen then (seen, if name \<in> set shared then shared else shared @ [name])
         else (name # seen, shared)))"

definition shared_names :: "string list \<Rightarrow> string list" where
  "shared_names names = snd (fold shared_step names ([], []))"

definition ensure_exportable ::
  "string list \<Rightarrow> 'b data_buffer \<Rightarrow> export_format \<Rightarrow> export_options \<Rightarrow> data_error + unit" where
  "ensure_exportable names b format opts =
     (if truncated (bi_stats (db_index b)) then Inl DTruncatedResult
      else if \<not> bi_complete (db_index b) \<and> \<not> eo_allow_incomplete opts then Inl DIncompleteResult
      else if (format = Json \<or> format = JsonLines) \<and> shared_names names \<noteq> []
      then Inl (DDuplicateColumnNames (extension format) (shared_names names))
      else Inr ())"

subsection \<open>Reading the snapshot back\<close>

text \<open>The writer of a format: its state, what it makes of a batch, and its footer.\<close>

record ('b, 'w) format_writer =
  fw_open :: "export_format \<Rightarrow> export_options \<Rightarrow> data_error + 'w"
  fw_durations_as_text :: "'b \<Rightarrow> data_error + 'b"
  fw_write :: "'b \<Rightarrow> 'w \<Rightarrow> data_error + 'w \<times> string"
  fw_finish :: "'w \<Rightarrow> data_error + string"

text \<open>What is written so far, and the writer's state.\<close>

type_synonym 'w sink_output = "string \<times> 'w"

definition emit_batch :: "('b, 'w) format_writer \<Rightarrow> bool \<Rightarrow> 'b \<Rightarrow> 'w sink_output \<Rightarrow> data_error + 'w sink_output" where
  "emit_batch fw as_text batch out =
     (case (if as_text then fw_durations_as_text fw batch else Inr batch) of
        Inl e \<Rightarrow> Inl e
      | Inr batch' \<Rightarrow>
          (case fw_write fw batch' (snd out) of
             Inl e \<Rightarrow> Inl e
           | Inr (w, bytes) \<Rightarrow> Inr (fst out @ bytes, w)))"

definition add_batch :: "('b, 'r) arrow \<Rightarrow> 'b \<Rightarrow> export_summary \<Rightarrow> export_summary" where
  "add_batch a batch s =
     s\<lparr>xs_rows := usat_add (xs_rows s) (num_rows a batch), xs_batches := usat_add (xs_batches s) 1\<rparr>"

text \<open>\<open>ResultBuffer::batch\<close> reads under a token nobody cancels; \<open>poll i\<close> is the export's own token
  before batch \<open>i\<close>.\<close>

definition read_batch :: "('b, 'r) arrow \<Rightarrow> nat \<Rightarrow> 'b data_buffer \<Rightarrow> (data_error + 'b option) \<times> 'b data_buffer" where
  "read_batch a i b = batch_cancellable a False (\<lambda>_. False) False i b"

fun for_each_batch ::
  "('b, 'r) arrow \<Rightarrow> (nat \<Rightarrow> bool) \<Rightarrow> ('b \<Rightarrow> 'o \<Rightarrow> data_error + 'o) \<Rightarrow> nat list \<Rightarrow> 'o \<Rightarrow> export_summary
   \<Rightarrow> 'b data_buffer \<Rightarrow> (data_error + 'o \<times> export_summary) \<times> 'b data_buffer" where
  "for_each_batch a poll give [] out s b = (Inr (out, s), b)"
| "for_each_batch a poll give (i # is) out s b =
     (if poll i then (Inl DCancelled, b)
      else case read_batch a i b of
        (Inl e, b1) \<Rightarrow> (Inl e, b1)
      | (Inr None, b1) \<Rightarrow> (Inl (DSpill ''a batch vanished from the buffer during export''), b1)
      | (Inr (Some batch), b1) \<Rightarrow>
          (case give batch out of
             Inl e \<Rightarrow> (Inl e, b1)
           | Inr out' \<Rightarrow> for_each_batch a poll give is out' (add_batch a batch s) b1))"

subsection \<open>The export\<close>

definition needs_footer :: "export_format \<Rightarrow> bool" where
  "needs_footer format \<longleftrightarrow> format = Json \<or> format = JsonLines \<or> format = ArrowIpc"

definition close_output ::
  "('b, 'w) format_writer \<Rightarrow> export_format \<Rightarrow> 'w sink_output \<Rightarrow> data_error + string" where
  "close_output fw format out =
     (if needs_footer format then map_sum id (\<lambda>foot. fst out @ foot) (fw_finish fw (snd out))
      else Inr (fst out))"

definition no_export :: export_summary where
  "no_export = \<lparr>xs_rows = 0, xs_batches = 0, xs_bytes = 0\<rparr>"

text \<open>The bytes written come back with the summary; \<open>flushed\<close> is the answer of the last flush.\<close>

definition export_buffer ::
  "('b, 'r) arrow \<Rightarrow> ('b, 'w) format_writer \<Rightarrow> string list \<Rightarrow> (nat \<Rightarrow> bool) \<Rightarrow> data_error + unit
   \<Rightarrow> export_format \<Rightarrow> export_options \<Rightarrow> 'b data_buffer
   \<Rightarrow> (data_error + export_summary \<times> string) \<times> 'b data_buffer" where
  "export_buffer a fw names poll flushed format opts b =
     (case ensure_exportable names b format opts of Inl e \<Rightarrow> (Inl e, b)
      | Inr _ \<Rightarrow>
        if \<not> is_supported format then (Inl (DUnsupportedFormat (extension format)), b)
        else case fw_open fw format opts of Inl e \<Rightarrow> (Inl e, b)
        | Inr w \<Rightarrow>
          (case for_each_batch a poll (emit_batch fw (format \<noteq> ArrowIpc))
                  [0 ..< length (bi_slots (db_index b))] ([], w) no_export b of
             (Inl e, b1) \<Rightarrow> (Inl e, b1)
           | (Inr (out, s), b1) \<Rightarrow>
               (case close_output fw format out of
                  Inl e \<Rightarrow> (Inl e, b1)
                | Inr bytes \<Rightarrow>
                    (case flushed of
                       Inl e \<Rightarrow> (Inl e, b1)
                     | Inr _ \<Rightarrow> (Inr (s\<lparr>xs_bytes := min (length bytes) (2 ^ 64 - 1)\<rparr>, bytes), b1)))))"

subsection \<open>Replacing the destination\<close>

record fs_file =
  ff_bytes :: string
  ff_mode :: "16 word"
  ff_readonly :: bool

datatype fs_entry = FsFile fs_file | FsOther

type_synonym file_system = "string \<Rightarrow> fs_entry option"

text \<open>The answers of the file system and of the token while a file is replaced.\<close>

record fs_answers =
  fa_cancelled_first :: bool
  fa_temporary :: "data_error + string"
  fa_permissions :: "data_error + unit"
  fa_sync :: "data_error + unit"
  fa_cancelled_last :: bool
  fa_persist :: "data_error + unit"

definition kept_permissions :: "16 word \<Rightarrow> 16 word" where
  "kept_permissions mode = take_bit 9 mode"

text \<open>The nine permission bits (\<open>mode & 0o777\<close>); a file the process creates is readable by its owner alone (\<open>0o600\<close>).\<close>

definition new_file_mode :: "16 word" where
  "new_file_mode = 0x180"

definition drop_temporary :: "string \<Rightarrow> file_system \<Rightarrow> file_system" where
  "drop_temporary tmp fs = fs(tmp := None)"

text \<open>The permissions to keep: those of the regular file that is there, if it can be written.\<close>

definition destination_permissions :: "string \<Rightarrow> file_system \<Rightarrow> data_error + 16 word option" where
  "destination_permissions destination fs =
     (case fs destination of
        Some (FsFile old) \<Rightarrow>
          if ff_readonly old then Inl (DIo ''the destination file is read-only'')
          else Inr (Some (kept_permissions (ff_mode old)))
      | _ \<Rightarrow> Inr None)"

definition replace_atomically ::
  "fs_answers \<Rightarrow> string \<Rightarrow> ('s \<Rightarrow> (data_error + 'x \<times> string) \<times> 's) \<Rightarrow> 's \<Rightarrow> file_system
   \<Rightarrow> (data_error + 'x) \<times> 's \<times> file_system" where
  "replace_atomically fa destination write s fs =
     (if fa_cancelled_first fa then (Inl DCancelled, s, fs)
      else case destination_permissions destination fs of
        Inl e \<Rightarrow> (Inl e, s, fs)
      | Inr kept \<Rightarrow>
        (case fa_temporary fa of Inl e \<Rightarrow> (Inl e, s, fs)
         | Inr tmp \<Rightarrow>
           (let empty = FsFile \<lparr>ff_bytes = [], ff_mode = new_file_mode, ff_readonly = False\<rparr>;
                fs1 = fs(tmp \<mapsto> empty)
            in case (if kept = None then Inr () else fa_permissions fa) of
                 Inl e \<Rightarrow> (Inl e, s, drop_temporary tmp fs1)
            | Inr _ \<Rightarrow>
              (let mode = (case kept of None \<Rightarrow> new_file_mode | Some m \<Rightarrow> m)
               in case write s of (Inl e, s') \<Rightarrow> (Inl e, s', drop_temporary tmp fs1)
               | (Inr (answer, bytes), s') \<Rightarrow>
                 (let whole = FsFile \<lparr>ff_bytes = bytes, ff_mode = mode, ff_readonly = False\<rparr>;
                      fs2 = fs1(tmp \<mapsto> whole)
                  in case fa_sync fa of Inl e \<Rightarrow> (Inl e, s', drop_temporary tmp fs2)
                  | Inr _ \<Rightarrow>
                    if fa_cancelled_last fa then (Inl DCancelled, s', drop_temporary tmp fs2)
                    else (case fa_persist fa of Inl e \<Rightarrow> (Inl e, s', drop_temporary tmp fs2)
                       | Inr _ \<Rightarrow> (Inr answer, s', (drop_temporary tmp fs2)(destination \<mapsto> whole))))))))"

definition export_to_path ::
  "('b, 'r) arrow \<Rightarrow> ('b, 'w) format_writer \<Rightarrow> string list \<Rightarrow> (nat \<Rightarrow> bool) \<Rightarrow> data_error + unit
   \<Rightarrow> fs_answers \<Rightarrow> export_format \<Rightarrow> string \<Rightarrow> export_options \<Rightarrow> 'b data_buffer \<Rightarrow> file_system
   \<Rightarrow> (data_error + export_summary) \<times> 'b data_buffer \<times> file_system" where
  "export_to_path a fw names poll flushed fa format destination opts b fs =
     (case ensure_exportable names b format opts of Inl e \<Rightarrow> (Inl e, b, fs)
      | Inr _ \<Rightarrow>
          replace_atomically fa destination (export_buffer a fw names poll flushed format opts) b fs)"

subsection \<open>What an export writes\<close>

text \<open>The names several columns carry, each once.\<close>

lemma shared_fold:
  assumes "fold shared_step names (seen, shared) = (seen', shared')" "distinct shared" "set shared \<subseteq> set seen"
  shows "set seen' = set seen \<union> set names \<and> distinct shared' \<and> set shared' \<subseteq> set seen'
    \<and> (\<forall>n. n \<in> set shared' \<longleftrightarrow> n \<in> set shared
         \<or> (n \<in> set seen \<and> n \<in> set names) \<or> 2 \<le> count_list names n)"
  using assms
proof (induction names arbitrary: seen shared)
  case (Cons m ms)
  obtain s1 r1 where step: "shared_step m (seen, shared) = (s1, r1)" by fastforce
  then have one: "s1 = (if m \<in> set seen then seen else m # seen)"
    "r1 = (if m \<in> set seen \<and> m \<notin> set shared then shared @ [m] else shared)"
    using Cons.prems(3) by (auto simp: shared_step_def split: if_splits)
  have count: "2 \<le> count_list ms n \<longrightarrow> n \<in> set ms" "n \<in> set ms \<longleftrightarrow> 1 \<le> count_list ms n" for n
    by (metis count_list_0_iff not_numeral_le_zero) (metis count_list_0_iff less_one not_le)
  have "distinct r1" "set r1 \<subseteq> set s1" using one Cons.prems(2,3) by auto
  moreover have "fold shared_step ms (s1, r1) = (seen', shared')" using Cons.prems(1) step by simp
  ultimately have
    "set seen' = set s1 \<union> set ms \<and> distinct shared' \<and> set shared' \<subseteq> set seen'
     \<and> (\<forall>n. n \<in> set shared' \<longleftrightarrow> n \<in> set r1 \<or> (n \<in> set s1 \<and> n \<in> set ms) \<or> 2 \<le> count_list ms n)"
    by (rule Cons.IH [rotated])
  with one count show ?case by (auto split: if_splits)
qed simp

lemma shared_names_iff:
  "distinct (shared_names names)" "n \<in> set (shared_names names) \<longleftrightarrow> 2 \<le> count_list names n"
proof -
  obtain seen shared where run: "fold shared_step names ([], []) = (seen, shared)" by fastforce
  from shared_fold [OF this] show "distinct (shared_names names)"
    "n \<in> set (shared_names names) \<longleftrightarrow> 2 \<le> count_list names n"
    by (simp_all add: shared_names_def run)
qed

text \<open>A snapshot read through hands over the rows of its batches, in order.\<close>

fun gives :: "('b \<Rightarrow> 'o \<Rightarrow> data_error + 'o) \<Rightarrow> 'b list \<Rightarrow> 'o \<Rightarrow> data_error + 'o" where
  "gives give [] out = Inr out"
| "gives give (b # bs) out = (case give b out of Inl e \<Rightarrow> Inl e | Inr out' \<Rightarrow> gives give bs out')"

lemma for_each_batch_spec:
  assumes "buffer_ok a b" "for_each_batch a poll give is out s b = (Inr (out', s'), b')"
  shows "\<exists>bs. map (ar_rows a) bs = map (\<lambda>i. slot_rows a b (bi_slots (db_index b) ! i)) is
    \<and> gives give bs out = Inr out' \<and> s' = fold (add_batch a) bs s
    \<and> buffer_ok a b' \<and> (\<exists>c. b' = with_cache c b)"
  using assms
proof (induction "is" arbitrary: out s b)
  case Nil
  then show ?case by (intro exI [of _ "[]"]) (auto intro!: exI [of _ "db_cache b"])
next
  case (Cons i js)
  obtain answer b1 where read: "read_batch a i b = (answer, b1)" by fastforce
  from Cons.prems(2) read obtain batch out1 where
    got: "answer = Inr (Some batch)" "give batch out = Inr out1"
    and rest: "for_each_batch a poll give js out1 (add_batch a batch s) b1 = (Inr (out', s'), b')"
    by (auto split: if_splits sum.splits option.splits)
  from batch_cancellable_spec [OF Cons.prems(1) read [unfolded read_batch_def]] got(1) obtain c where
    b1: "b1 = with_cache c b" "page_fits a b c" "ar_rows a batch = slot_rows a b (bi_slots (db_index b) ! i)"
    by blast
  have ok: "buffer_ok a b1" using buffer_ok_with_cache [OF Cons.prems(1) b1(2)] b1(1) by simp
  from Cons.IH [OF ok rest] obtain bs where bs:
    "map (ar_rows a) bs = map (\<lambda>i. slot_rows a b1 (bi_slots (db_index b1) ! i)) js"
    "gives give bs out1 = Inr out'" "s' = fold (add_batch a) bs (add_batch a batch s)"
    "buffer_ok a b'" "\<exists>c. b' = with_cache c b1" by blast
  with b1 got show ?case by (intro exI [of _ "batch # bs"]) auto
qed

lemma add_batch_counts:
  "xs_rows (fold (add_batch a) bs s) = min (xs_rows s + length (concat (map (ar_rows a) bs))) usize_max \<or>
   xs_rows s > usize_max"
proof (induction bs arbitrary: s)
  case (Cons b bs)
  from Cons [of "add_batch a b s"] show ?case
    by (auto simp: add_batch_def usat_add_def num_rows_def min_def)
qed (simp add: min_def)

lemma map_nth_slots: "map (\<lambda>i. f (xs ! i)) [0 ..< length xs] = map f xs"
  by (metis map_map map_nth comp_def map_cong)

text \<open>An export that succeeds had a result nothing is missing from, and hands the writer of the
  format all its rows, in order.\<close>

lemma export_buffer_spec:
  assumes "buffer_ok a b" "export_buffer a fw names poll flushed format opts b = (Inr (s, bytes), b')"
  shows "\<not> truncated (bi_stats (db_index b))
    \<and> (bi_complete (db_index b) \<or> eo_allow_incomplete opts)
    \<and> (\<exists>w bs out. fw_open fw format opts = Inr w \<and> concat (map (ar_rows a) bs) = buffer_rows a b
        \<and> gives (emit_batch fw (format \<noteq> ArrowIpc)) bs ([], w) = Inr out
        \<and> close_output fw format out = Inr bytes
        \<and> xs_rows s = length (buffer_rows a b))
    \<and> buffer_ok a b'"
proof -
  let ?is = "[0 ..< length (bi_slots (db_index b))]"
  from assms(2) have gate: "ensure_exportable names b format opts = Inr ()"
    by (auto simp: export_buffer_def split: sum.splits)
  from assms(2) gate obtain w where w: "is_supported format" "fw_open fw format opts = Inr w"
    by (auto simp: export_buffer_def split: sum.splits if_splits)
  obtain read b1 where run: "for_each_batch a poll (emit_batch fw (format \<noteq> ArrowIpc)) ?is ([], w) no_export b
      = (read, b1)" by fastforce
  from assms(2) gate w run obtain out s1 where
    out: "read = Inr (out, s1)" "close_output fw format out = Inr bytes" "b1 = b'"
      "s = s1\<lparr>xs_bytes := min (length bytes) (2 ^ 64 - 1)\<rparr>"
    by (auto simp: export_buffer_def split: sum.splits)
  from for_each_batch_spec [OF assms(1) run [unfolded out(1)]] obtain bs where
    bs: "map (ar_rows a) bs = map (\<lambda>i. slot_rows a b (bi_slots (db_index b) ! i)) ?is"
      "gives (emit_batch fw (format \<noteq> ArrowIpc)) bs ([], w) = Inr out" "s1 = fold (add_batch a) bs no_export"
      "buffer_ok a b1" by blast
  have rows: "concat (map (ar_rows a) bs) = buffer_rows a b"
    by (simp only: bs(1) map_nth_slots buffer_rows_def)
  have "length (buffer_rows a b) \<le> usize_max"
    using assms(1) unfolding buffer_ok_def buffer_inv_def by auto
  then have "xs_rows s = length (buffer_rows a b)"
    using add_batch_counts [of a bs no_export] out(4) bs(3) rows by (simp add: no_export_def min_def)
  with w(2) out(2) bs(2) rows have "\<exists>w bs out. fw_open fw format opts = Inr w
      \<and> concat (map (ar_rows a) bs) = buffer_rows a b
      \<and> gives (emit_batch fw (format \<noteq> ArrowIpc)) bs ([], w) = Inr out
      \<and> close_output fw format out = Inr bytes \<and> xs_rows s = length (buffer_rows a b)" by blast
  moreover have "\<not> truncated (bi_stats (db_index b)) \<and> (bi_complete (db_index b) \<or> eo_allow_incomplete opts)"
    using gate by (auto simp: ensure_exportable_def split: if_splits)
  ultimately show ?thesis using bs(4) out(3) by blast
qed

lemma drop_created: "fs tmp = None \<Longrightarrow> drop_temporary tmp (fs(tmp := x)) = fs"
  by (auto simp: drop_temporary_def)

text \<open>The destination is replaced entirely, or nothing of the file system changes.\<close>

lemma replace_atomically_spec:
  assumes "\<And>tmp. fa_temporary fa = Inr tmp \<Longrightarrow> fs tmp = None"
    and "replace_atomically fa destination write s fs = (answer, s', fs')"
  shows "case answer of
      Inl e \<Rightarrow> fs' = fs
    | Inr x \<Rightarrow> \<exists>bytes mode. write s = (Inr (x, bytes), s')
        \<and> fs' = fs(destination \<mapsto> FsFile \<lparr>ff_bytes = bytes, ff_mode = mode, ff_readonly = False\<rparr>)
        \<and> (\<exists>kept. destination_permissions destination fs = Inr kept
            \<and> mode = (case kept of None \<Rightarrow> new_file_mode | Some m \<Rightarrow> m))"
proof (cases "fa_cancelled_first fa \<or> (\<exists>e. destination_permissions destination fs = Inl e)
    \<or> (\<exists>e. fa_temporary fa = Inl e)")
  case True
  with assms(2) show ?thesis
    by (cases "destination_permissions destination fs") (auto simp: replace_atomically_def split: if_splits)
next
  case False
  then obtain kept tmp where start: "\<not> fa_cancelled_first fa" "destination_permissions destination fs = Inr kept"
    "fa_temporary fa = Inr tmp" by (meson sum.exhaust_sel)
  note dropped = drop_created [of fs tmp, OF assms(1) [OF start(3)]]
  obtain written s1 where run: "write s = (written, s1)" by fastforce
  show ?thesis
  proof (cases "(\<exists>e. (if kept = None then Inr () else fa_permissions fa) = Inl e) \<or> (\<exists>e. written = Inl e)")
    case True
    with assms(2) start run dropped show ?thesis
      by (auto simp: replace_atomically_def Let_def split: if_splits sum.splits)
  next
    case False
    then obtain x bytes where fine: "(if kept = None then Inr () else fa_permissions fa) = Inr ()"
      "written = Inr (x, bytes)" by (metis (full_types) old.unit.exhaust prod.exhaust_sel sum.exhaust_sel)
    with assms(2) start run dropped show ?thesis
      by (auto simp: replace_atomically_def Let_def split: if_splits sum.splits)
  qed
qed

end
