(* ===== verification/Sample_World.thy ===== *)
theory Sample_World
  imports Dispatch_Safety Result_Export
begin

text \<open>
  A concrete outside and a concrete executor, at which the properties that have hypotheses are
  applied: a library that reads three texts, a driver that is a number, one open session of one
  connection, every write and call answering well, and a buffer of three rows at most.
\<close>

definition sample_library :: sql_library where
  "sample_library =
     \<lparr>parse_sql = (\<lambda>g sql.
        if sql = ''select 1'' then Inr [StQuery (SqlQuery None (SeSelect False))]
        else if sql = ''delete from t'' then Inr [StDelete None]
        else Inl ''not read''),
      render_expr = (\<lambda>e. [])\<rparr>"

definition sample_run :: "nat run_world" where
  "sample_run =
     \<lparr>rw_execute = (\<lambda>d r. Inr (StatementHandle 7)), rw_execute_late = False,
      rw_cancel = (\<lambda>d h. Inr ()), rw_transaction = (\<lambda>d. TxIdle),
      rw_result = ResultId 9,
      rw_buffer = \<lparr>resident_bytes = 8, cached_bytes = 0, spilled_bytes = 0, strong_count = 1\<rparr>,
      rw_batches = [1], rw_ending = SinkEnds (Inr Exhausted), rw_stats = default_stats,
      rw_called = 1, rw_streaming = 2, rw_drained = 3, rw_ended = 4\<rparr>"

definition sample_answer :: audit_answer where
  "sample_answer = \<lparr>aa_append = None, aa_history = True, aa_stopped = False\<rparr>"

definition sample_facts :: connection_facts where
  "sample_facts = \<lparr>fact_name = ''sample'', fact_environment = Development, fact_read_only = True\<rparr>"

definition sample_policy :: default_policy where
  "sample_policy = [ConnectionId 1 \<mapsto> sample_facts]"

definition sample_world :: "(nat, nat) world" where
  "sample_world =
     \<lparr>w_run = sample_run, w_lib = sample_library,
      w_prover = \<lparr>prove_intent = (\<lambda>d r. if d = 3 then Some Read else None),
                  prove_risk = (\<lambda>d r. None)\<rparr>,
      w_gate = default_gate sample_policy, w_redact = (\<lambda>l t. t), w_render = (\<lambda>e. []),
      w_show_duration = (\<lambda>d. []), w_show_count = (\<lambda>n. []), w_url = (\<lambda>u. None),
      w_now = 0, w_clock = 0, w_elapsed = 1,
      w_decision_write = sample_answer, w_outcome_write = sample_answer,
      w_runtime = True, w_stopped = False,
      w_require = (\<lambda>d. Inr ()), w_resolve = (\<lambda>c. Inr ()), w_connect = (\<lambda>c. Inr 3),
      w_capabilities = (\<lambda>d. 0), w_close = (\<lambda>d. Inr ()), w_session = SessionId 2,
      w_set_context = (\<lambda>d c n. Inr ()), w_context = (\<lambda>d. Inr 0),
      w_read_catalog = (\<lambda>d s. Inr ()), w_catalog_gone = False, w_budget = Inr (),
      w_patch = Inr (), w_preview = (\<lambda>d p n s. Inr (exec_request_new RedisCommand [])),
      w_prepare_late = False, w_value = Inr 0, w_inspected = Inr None, w_loaded = Inr True,
      w_exportable = Inr (), w_exported = Inr (0, 0), w_done = Inr (), w_existed = Inr True,
      w_config = Inr None, w_configs = Inr [], w_document = Inr None,
      w_update = (\<lambda>u. Inl ECancelled), w_corrupted = (\<lambda>a b. EInternal a)\<rparr>"

definition sample_slot :: "nat session_slot" where
  "sample_slot =
     \<lparr>slot_id = SessionId 1, slot_connection = ConnectionId 1, slot_capabilities = 0,
      slot_opened_at = 0, slot_session = Some 3, slot_closing = False\<rparr>"

definition sample_executor :: "nat executor" where
  "sample_executor =
     \<lparr>ex_sessions = [sample_slot], ex_running = [], ex_approvals = registry_new,
      ex_results = retained_new, ex_catalogs = Map.empty, ex_connections = Map.empty,
      ex_workspace = WorkspaceId 1, ex_tokens = [inner_new],
      ex_abandoned = \<lparr>ab_queue = [], ab_lost = 0\<rparr>,
      ex_history = \<lparr>ht_sequence = 0, ht_rows = []\<rparr>, ex_started_at = 0, ex_trace = []\<rparr>"

definition sample_read :: exec_request where
  "sample_read = exec_request_new (Sql Postgres) ''select 1''"

text \<open>One execution of it, from the last barrier to its end.\<close>

definition sample_execution :: "nat outcome result \<times> nat executor" where
  "sample_execution =
     execute_statement (\<lambda>e. []) sample_run (CommandId 5) (ConnectionId 1) (SessionId 1)
       (with_intent Read sample_read) 0 \<lparr>run_preview_limit = None, run_started = 0\<rparr> sample_executor"

lemma sample_executes:
  "fst sample_execution = Inr (Executed (ResultId 9) (StatementHandle 7) (rw_buffer sample_run)
     default_stats \<lparr>t_prepare = 1, t_start = 1, t_stream = 1, t_cleanup = 1, t_total = 4\<rparr> Exhausted)"
  by (simp add: sample_execution_def execute_statement_def sample_read_def exec_request_new_def
      with_intent_def request_is_mutating_def risk_is_some_def default_limits_def sample_executor_def
      sample_slot_def get_session_def find_key_def token_child_def Let_def run_statement_def
      sample_run_def execute_within_def slot_execute_def with_session_def drain_def drain_outcome_def
      conclude_def case_prod_beta publish_def emit_def slot_is_open_def is_cancelled_def inner_new_def
      deadline_starting_at_def)

lemma sample_executed:
  "sample_execution = (Inr (Executed (ResultId 9) (StatementHandle 7) (rw_buffer sample_run)
     default_stats \<lparr>t_prepare = 1, t_start = 1, t_stream = 1, t_cleanup = 1, t_total = 4\<rparr> Exhausted),
     snd sample_execution)"
  using sample_executes by (simp add: prod_eq_iff)

subsection \<open>A result\<close>

text \<open>Batches that are texts, one row per character; three rows at most.\<close>

definition sample_arrow :: "(string, char) arrow" where
  "sample_arrow = \<lparr>ar_rows = (\<lambda>b. b), ar_fields = (\<lambda>_. ''c''), ar_columns = (\<lambda>_. 1), ar_memory = length,
     ar_slice = (\<lambda>b n. take n b), ar_encode = Inr, ar_decode = (\<lambda>s. Inr (Some s)), ar_handle = 1,
     ar_column_handle = 1\<rparr>"

definition sample_limits :: buffer_limits where
  "sample_limits = \<lparr>bl_memory = 8, bl_max_rows = Some 3, bl_max_spill = None, bl_allow_spill = True\<rparr>"

definition sample_buffer :: "string data_buffer" where
  "sample_buffer = buffer_with_limits ''c'' sample_limits"

definition sample_disk :: disk_answer where
  "sample_disk = \<lparr>da_create = None, da_write = DiskWrites\<rparr>"

definition sample_pull :: "string option \<Rightarrow> string pull" where
  "sample_pull answer =
     \<lparr>pl_cancelled = False, pl_known = default_stats, pl_received = Received (Inr answer),
      pl_stats = default_stats, pl_disk = sample_disk\<rparr>"

lemma sample_arrow_ok: "arrow_ok sample_arrow"
  by (simp add: arrow_ok_def sample_arrow_def)

lemma sample_buffer_ok: "buffer_ok sample_arrow sample_buffer"
  unfolding sample_buffer_def
  by (rule buffer_ok_new) (simp_all add: sample_arrow_ok limits_ok_def sample_limits_def usize_max_def)

lemmas sample_result_defs = sample_arrow_def sample_limits_def sample_buffer_def sample_disk_def
  sample_pull_def buffer_with_limits_def buffer_index_new_def cache_budget_def resident_budget_def
  page_cache_new_def num_rows_def default_stats_def usize_max_def

end
