(* ===== verification/Editor_Selection.thy ===== *)
theory Editor_Selection
  imports Classify
begin

text \<open>
  The statement under the cursor (\<open>current_statement\<close> of \<open>crates/oxyn-query/src/split.rs\<close>): the
  SQLite split that keeps a trigger body whole, and the choice of one complete statement.
\<close>

subsection \<open>The SQLite split\<close>

text \<open>\<open>split_once\<close>: what follows the first occurrence.\<close>

fun after_first :: "string \<Rightarrow> string \<Rightarrow> string option" where
  "after_first p [] = (if p = [] then Some [] else None)"
| "after_first p (c # s) = (if starts_with (c # s) p then Some (drop (length p) (c # s)) else after_first p s)"

lemma after_first_length: "after_first p s = Some t \<Longrightarrow> length t \<le> length s"
  by (induction p s rule: after_first.induct) (auto split: if_splits)

function tail_closes_trigger :: "string \<Rightarrow> bool" where
  "tail_closes_trigger tail =
     (if starts_with tail ''--''
      then tail_closes_trigger (trim_start (case after_first [CHR 0x0A] (drop 2 tail) of
             None \<Rightarrow> [] | Some after \<Rightarrow> after))
      else if starts_with tail ''/*''
      then (case after_first ''*/'' (drop 2 tail) of
              None \<Rightarrow> False | Some after \<Rightarrow> tail_closes_trigger (trim_start after))
      else tail = [] \<or> starts_with tail '';'')"
  by pat_completeness auto
termination
proof (relation "measure length", goal_cases)
  case (2 tail)
  then have "2 \<le> length tail" using starts_with_length by fastforce
  then have "length (case after_first [CHR 0x0A] (drop 2 tail) of None \<Rightarrow> [] | Some after \<Rightarrow> after) < length tail"
    by (auto split: option.split dest!: after_first_length)
  then show ?case using le_less_trans [OF length_trim_start_le] by simp
next
  case (3 tail after)
  then have "2 \<le> length tail" "length after \<le> length tail - 2"
    using starts_with_length [of tail "''/*''"] after_first_length [of _ "drop 2 tail" after] by auto
  then show ?case using length_trim_start_le [of after] by simp
qed simp

declare tail_closes_trigger.simps [simp del]

definition end_closes_trigger :: "string \<Rightarrow> nat \<Rightarrow> bool" where
  "end_closes_trigger sql from = tail_closes_trigger (trim_start (drop from sql))"

record sqlite_state =
  sq_start :: nat
  sq_has_comment :: bool
  sq_has_code :: bool
  sq_prefix :: nat
  sq_trigger :: bool
  sq_seen_on :: bool
  sq_relation_seen :: bool
  sq_body :: bool
  sq_statement_start :: bool
  sq_ended :: bool
  sq_out :: "fragment list"

definition sqlite_at :: "nat \<Rightarrow> fragment list \<Rightarrow> sqlite_state" where
  "sqlite_at start out =
     \<lparr>sq_start = start, sq_has_comment = False, sq_has_code = False, sq_prefix = 0,
      sq_trigger = False, sq_seen_on = False, sq_relation_seen = False, sq_body = False,
      sq_statement_start = False, sq_ended = False, sq_out = out\<rparr>"

definition sqlite_flush :: "string \<Rightarrow> nat \<Rightarrow> bool \<Rightarrow> sqlite_state \<Rightarrow> fragment list" where
  "sqlite_flush sql finish terminated st =
     (if sq_has_code st
      then push_fragment sql (sq_start st) finish (sq_has_comment st) terminated False (sq_out st)
      else sq_out st)"

text \<open>The words that open a \<open>CREATE [TEMP] TRIGGER\<close>.\<close>

definition sqlite_prefix :: "string \<Rightarrow> sqlite_state \<Rightarrow> sqlite_state" where
  "sqlite_prefix word st =
     (if \<not> sq_has_code st then st\<lparr>sq_prefix := (if eq_ignore_case word ''create'' then 1 else 0)\<rparr>
      else if sq_prefix st = 1 then
        (if eq_ignore_case word ''temp'' \<or> eq_ignore_case word ''temporary'' then st\<lparr>sq_prefix := 2\<rparr>
         else if eq_ignore_case word ''trigger'' then st\<lparr>sq_prefix := 3, sq_trigger := True\<rparr>
         else st\<lparr>sq_prefix := 0\<rparr>)
      else if sq_prefix st = 2 then
        (if eq_ignore_case word ''trigger'' then st\<lparr>sq_prefix := 3, sq_trigger := True\<rparr>
         else st\<lparr>sq_prefix := 0\<rparr>)
      else st)"

definition sqlite_word :: "string \<Rightarrow> nat \<Rightarrow> string \<Rightarrow> sqlite_state \<Rightarrow> sqlite_state" where
  "sqlite_word sql e word st0 =
     (let st = sqlite_prefix word st0;
          begins = sq_trigger st \<and> \<not> eq_ignore_case word ''on''
            \<and> \<not> (sq_seen_on st \<and> \<not> sq_relation_seen st)
            \<and> sq_relation_seen st \<and> eq_ignore_case word ''begin'';
          st' = (if sq_trigger st \<and> eq_ignore_case word ''on'' then st\<lparr>sq_seen_on := True\<rparr>
                 else if sq_seen_on st \<and> \<not> sq_relation_seen st then st\<lparr>sq_relation_seen := True\<rparr>
                 else if begins then st\<lparr>sq_body := True, sq_statement_start := True\<rparr>
                 else if sq_body st \<and> \<not> sq_ended st \<and> eq_ignore_case word ''end''
                      \<and> sq_statement_start st \<and> end_closes_trigger sql e
                 then st\<lparr>sq_ended := True\<rparr>
                 else st)
      in st'\<lparr>sq_statement_start :=
               (if sq_body st' \<and> \<not> sq_ended st' \<and> \<not> begins then False else sq_statement_start st'),
             sq_has_code := True\<rparr>)"

fun sqlite_step :: "string \<Rightarrow> tok \<times> nat \<times> nat \<Rightarrow> sqlite_state \<Rightarrow> sqlite_state" where
  "sqlite_step sql (Comment, s, e) st = st\<lparr>sq_has_comment := True\<rparr>"
| "sqlite_step sql (UnreadableComment, s, e) st = st\<lparr>sq_has_comment := True\<rparr>"
| "sqlite_step sql (Word, s, e) st =
     sqlite_word sql e (case get_range sql s e of Some w \<Rightarrow> w | None \<Rightarrow> []) st"
| "sqlite_step sql (Semicolon, s, e) st =
     (if \<not> (sq_body st \<and> \<not> sq_ended st) then sqlite_at e (sqlite_flush sql s True st)
      else st\<lparr>sq_statement_start := True\<rparr>)"
| "sqlite_step sql (t, s, e) st =
     st\<lparr>sq_has_code := True,
        sq_statement_start := (if sq_body st \<and> \<not> sq_ended st then False else sq_statement_start st)\<rparr>"

definition sqlite_statements :: "string \<Rightarrow> nat \<Rightarrow> query_error + fragment list" where
  "sqlite_statements sql cursor =
     (let st = fold (sqlite_step sql) (scan sql (for_dialect Sqlite)) (sqlite_at 0 [])
      in if sq_trigger st \<and> \<not> sq_body st
         then Inl (QSelection cursor ''SQLite trigger body cannot be established'')
         else Inr (sqlite_flush sql (length sql) False st))"

definition is_sqlite_trigger :: "string \<Rightarrow> bool" where
  "is_sqlite_trigger sql =
     (let ws = map word_text (words sql Sqlite) in
      case ws of [] \<Rightarrow> False
      | first # _ \<Rightarrow>
          if \<not> eq_ignore_case first ''create'' then False
          else (case get_at ws 1 of None \<Rightarrow> False
            | Some word \<Rightarrow>
                (case (if eq_ignore_case word ''temp'' \<or> eq_ignore_case word ''temporary''
                       then get_at ws 2 else Some word) of
                   None \<Rightarrow> False | Some w \<Rightarrow> eq_ignore_case w ''trigger'')))"

text \<open>The part of a list that starts at the first element with a property.\<close>

definition sqlite_trigger_is_ambiguous :: "string \<Rightarrow> bool" where
  "sqlite_trigger_is_ambiguous sql =
     (let ws = words sql Sqlite in
      case dropWhile (\<lambda>w. \<not> eq_ignore_case (word_text w) ''trigger'') ws of
        [] \<Rightarrow> False
      | _ # following \<Rightarrow>
          (case following of w # _ \<Rightarrow> eq_ignore_case (word_text w) ''begin'' | [] \<Rightarrow> False)
          \<or> list_ex (\<lambda>w. eq_ignore_case (word_text w) ''case''
                \<and> starts_with (trim_start (drop (word_end w) sql)) ''='') ws)"

subsection \<open>The statement under the cursor\<close>

text \<open>\<open>str::is_char_boundary\<close>: not before a UTF-8 continuation byte.\<close>

definition is_char_boundary :: "string \<Rightarrow> nat \<Rightarrow> bool" where
  "is_char_boundary sql i \<longleftrightarrow> (case get_at sql i of
     None \<Rightarrow> i = length sql | Some c \<Rightarrow> i = 0 \<or> byte c < 128 \<or> 192 \<le> byte c)"

definition starts_with_comment :: "string \<Rightarrow> sql_dialect \<Rightarrow> bool" where
  "starts_with_comment sql d \<longleftrightarrow> starts_with sql ''--'' \<or> starts_with sql ''/*''
     \<or> (d = MySql \<and> starts_with sql ''#'')"

definition terminator_after :: "string \<Rightarrow> nat \<Rightarrow> nat option" where
  "terminator_after sql from =
     (case get_range sql from (length sql) of None \<Rightarrow> None
      | Some tail \<Rightarrow>
          (let position = from + (length tail - length (trim_start tail))
           in if get_at sql position = Some (CHR '';'') then Some position else None))"

definition mysql_program :: "fragment \<Rightarrow> sql_dialect \<Rightarrow> bool option" where
  "mysql_program f d =
     (if d \<noteq> MySql \<or> frag_unreadable f then None else program_is_complete (frag_text f))"

definition under_cursor :: "string \<Rightarrow> nat \<Rightarrow> fragment \<Rightarrow> bool" where
  "under_cursor sql cursor f \<longleftrightarrow> (frag_start f \<le> cursor \<and> cursor < frag_end f)
     \<or> (frag_end f = length sql \<and> cursor = length sql)"

definition at_separator_of :: "string \<Rightarrow> nat \<Rightarrow> fragment \<Rightarrow> bool" where
  "at_separator_of sql cursor f \<longleftrightarrow> frag_terminated f
     \<and> (case terminator_after sql (frag_end f) of None \<Rightarrow> False
        | Some separator \<Rightarrow> cursor = separator \<or> cursor = separator + 1)"

definition select_fragment :: "string \<Rightarrow> sql_dialect \<Rightarrow> nat \<Rightarrow> fragment list \<Rightarrow> fragment option" where
  "select_fragment sql d cursor fs =
     (case (case find (under_cursor sql cursor) fs of None \<Rightarrow> None
            | Some f \<Rightarrow> if cursor \<noteq> frag_start f \<or> \<not> starts_with_comment (frag_text f) d
                       then Some f else None) of
        Some f \<Rightarrow> Some f
      | None \<Rightarrow> find (at_separator_of sql cursor) (rev fs))"

fun shift_error :: "nat \<Rightarrow> query_error \<Rightarrow> query_error" where
  "shift_error n (QSyntax m s e) = QSyntax m (n + s) (n + e)"
| "shift_error n err = err"

definition check_fragment :: "sql_library \<Rightarrow> sql_dialect \<Rightarrow> nat \<Rightarrow> fragment \<Rightarrow> query_error + unit" where
  "check_fragment lib d cursor f =
     (if d = Sqlite \<and> is_sqlite_trigger (frag_text f) then
        (if sqlite_trigger_is_ambiguous (frag_text f)
         then Inl (QSelection cursor ''SQLite trigger contains an ambiguous unquoted keyword'')
         else if (case rev (words (frag_text f) Sqlite) of [] \<Rightarrow> False
                  | w # _ \<Rightarrow> eq_ignore_case (word_text w) ''end'')
         then Inr ()
         else Inl (QSelection cursor ''SQLite trigger body is incomplete''))
      else (case mysql_program f d of
          Some whole \<Rightarrow>
            if whole then Inr ()
            else Inl (QSelection cursor
                   ''MySQL stored program body is not closed where the statement ends'')
        | None \<Rightarrow> map_sum (shift_error (frag_start f)) id (validate lib (frag_text f) d)))"

definition current_statement ::
  "sql_library \<Rightarrow> string \<Rightarrow> sql_dialect \<Rightarrow> nat \<Rightarrow> query_error + fragment option" where
  "current_statement lib sql d cursor =
     (if length sql < cursor \<or> \<not> is_char_boundary sql cursor
      then Inl (QSelection cursor ''cursor is not on a UTF-8 boundary'')
      else (case (if d = Sqlite then sqlite_statements sql cursor else Inr (split sql d)) of
          Inl err \<Rightarrow> Inl err
        | Inr fs \<Rightarrow>
            (case select_fragment sql d cursor fs of
               None \<Rightarrow> Inr None
             | Some f \<Rightarrow> (case check_fragment lib d cursor f of
                   Inl err \<Rightarrow> Inl err | Inr _ \<Rightarrow> Inr (Some f)))))"

subsection \<open>The SQLite split keeps the contract\<close>

definition sqlite_inv :: "string \<Rightarrow> nat \<Rightarrow> sqlite_state \<Rightarrow> bool" where
  "sqlite_inv sql lo st \<longleftrightarrow> sq_start st \<le> lo \<and> fragments_ok sql (sq_start st) (sq_out st)"

lemma sqlite_flush_ok:
  assumes "sqlite_inv sql lo st" "lo \<le> finish" "finish \<le> length sql"
  shows "fragments_ok sql finish (sqlite_flush sql finish terminated st)"
  using assms fragments_ok_push [of sql "sq_start st" "sq_out st" finish] fragments_ok_extend
  by (auto simp: sqlite_inv_def sqlite_flush_def)

lemma sqlite_prefix_keeps [simp]:
  "sq_start (sqlite_prefix w st) = sq_start st" "sq_out (sqlite_prefix w st) = sq_out st"
  by (simp_all add: sqlite_prefix_def)

lemma sqlite_word_keeps [simp]:
  "sq_start (sqlite_word sql e w st) = sq_start st" "sq_out (sqlite_word sql e w st) = sq_out st"
  by (simp_all add: sqlite_word_def Let_def)

lemma sqlite_inv_step:
  assumes "sqlite_inv sql lo st" "lo \<le> s" "s < e" "e \<le> length sql"
  shows "sqlite_inv sql e (sqlite_step sql (t, s, e) st)"
proof (cases "t = Semicolon \<and> \<not> (sq_body st \<and> \<not> sq_ended st)")
  case True
  with assms sqlite_flush_ok [of sql lo st s True] show ?thesis
    by (auto simp: sqlite_inv_def sqlite_at_def intro: fragments_ok_extend)
next
  case False
  with assms show ?thesis by (cases t) (auto simp: sqlite_inv_def)
qed

lemma sqlite_inv_fold:
  "ordered_spans lo hi ts \<Longrightarrow> hi \<le> length sql \<Longrightarrow> sqlite_inv sql lo st
   \<Longrightarrow> sqlite_inv sql hi (fold (sqlite_step sql) ts st)"
proof (induction lo hi ts arbitrary: st rule: ordered_spans.induct)
  case (1 lo hi)
  then show ?case by (auto simp: sqlite_inv_def)
next
  case (2 lo hi t s e ts)
  then have "e \<le> length sql" using ordered_spans_le by fastforce
  with 2 show ?case using sqlite_inv_step [of sql lo st s e t] by simp
qed

lemma sqlite_statements_ok: "sqlite_statements sql cursor = Inr fs \<Longrightarrow> fragments_ok sql (length sql) fs"
proof -
  have "sqlite_inv sql 0 (sqlite_at 0 [])"
    by (simp add: sqlite_inv_def sqlite_at_def fragments_ok_def frag_spans_def)
  from sqlite_inv_fold [OF scan_ordered order_refl this]
  have "sqlite_inv sql (length sql) (fold (sqlite_step sql) (scan sql (for_dialect Sqlite)) (sqlite_at 0 []))" .
  then show "sqlite_statements sql cursor = Inr fs \<Longrightarrow> fragments_ok sql (length sql) fs"
    by (auto simp: sqlite_statements_def Let_def intro: sqlite_flush_ok split: if_splits)
qed

subsection \<open>What is selected\<close>

lemma select_fragment_mem:
  "select_fragment sql d cursor fs = Some f
   \<Longrightarrow> f \<in> set fs \<and> (under_cursor sql cursor f \<or> at_separator_of sql cursor f)"
  by (auto simp: select_fragment_def find_Some_iff split: option.splits if_splits)
    (metis nth_mem set_rev length_rev)+

lemma current_statement_fragments:
  assumes "current_statement lib sql d cursor = Inr (Some f)"
  obtains fs where "(if d = Sqlite then sqlite_statements sql cursor else Inr (split sql d)) = Inr fs"
    "fragments_ok sql (length sql) fs" "f \<in> set fs"
    "under_cursor sql cursor f \<or> at_separator_of sql cursor f" "check_fragment lib d cursor f = Inr ()"
proof -
  obtain fs where fs: "(if d = Sqlite then sqlite_statements sql cursor else Inr (split sql d)) = Inr fs"
    "select_fragment sql d cursor fs = Some f" "check_fragment lib d cursor f = Inr ()"
    using assms by (auto simp: current_statement_def split: sum.splits option.splits if_splits)
  moreover have "fragments_ok sql (length sql) fs"
    using fs(1) sqlite_statements_ok split_ok by (auto split: if_splits)
  ultimately show thesis using that select_fragment_mem by blast
qed

lemma fragments_ok_mem:
  assumes "fragments_ok sql hi fs" "f \<in> set fs"
  shows "get_range sql (frag_start f) (frag_end f) = Some (frag_text f)" "frag_start f < frag_end f"
    "frag_end f \<le> hi" "frag_text f \<noteq> []"
  using assms ordered_spans_mem [of 0 hi "frag_spans fs" f "frag_start f" "frag_end f"]
  by (auto simp: fragments_ok_def fragment_ok_def frag_spans_def)

end
