(* ===== verification/Code_Points.thy ===== *)
theory Code_Points
  imports Oxyn_Prelude
begin

text \<open>
  The part of Rust's \<open>char\<close> and of its UTF-8 decoder the modelled code calls: the categories of a
  code point, and the character at the head of a list of bytes, by the table of well-formed sequences
  the standard library follows.
\<close>

type_synonym text_points = "nat list"

definition in_ranges :: "(nat \<times> nat) list \<Rightarrow> nat \<Rightarrow> bool" where
  "in_ranges rs c \<longleftrightarrow> list_ex (\<lambda>(lo, hi). lo \<le> c \<and> c \<le> hi) rs"

text \<open>\<open>char::is_control\<close>: the category Cc; \<open>char::is_whitespace\<close>: the property White_Space.\<close>

definition is_control_point :: "nat \<Rightarrow> bool" where
  "is_control_point c \<longleftrightarrow> in_ranges [(0x00, 0x1F), (0x7F, 0x9F)] c"

definition is_white_point :: "nat \<Rightarrow> bool" where
  "is_white_point c \<longleftrightarrow>
     in_ranges [(0x09, 0x0D), (0x20, 0x20), (0x85, 0x85), (0xA0, 0xA0), (0x1680, 0x1680), (0x2000, 0x200A),
       (0x2028, 0x2029), (0x202F, 0x202F), (0x205F, 0x205F), (0x3000, 0x3000)] c"

subsection \<open>UTF-8\<close>

text \<open>The bytes a sequence has by its first one, 0 for a byte that starts none.\<close>

definition utf8_width :: "nat \<Rightarrow> nat" where
  "utf8_width b =
     (if b < 0x80 then 1
      else if 0xC2 \<le> b \<and> b \<le> 0xDF then 2
      else if 0xE0 \<le> b \<and> b \<le> 0xEF then 3
      else if 0xF0 \<le> b \<and> b \<le> 0xF4 then 4
      else 0)"

definition second_byte_ok :: "nat \<Rightarrow> nat \<Rightarrow> bool" where
  "second_byte_ok b b' \<longleftrightarrow>
     (if b = 0xE0 then 0xA0 else if b = 0xF0 then 0x90 else 0x80) \<le> b'
     \<and> b' \<le> (if b = 0xED then 0x9F else if b = 0xF4 then 0x8F else 0xBF)"

definition is_continuation :: "char \<Rightarrow> bool" where
  "is_continuation c \<longleftrightarrow> 0x80 \<le> byte c \<and> byte c \<le> 0xBF"

definition well_formed :: "string \<Rightarrow> nat \<Rightarrow> bool" where
  "well_formed s w \<longleftrightarrow>
     (0 < w \<and> w \<le> length s)
     \<and> (w = 1 \<or> second_byte_ok (byte (s ! 0)) (byte (s ! 1)))
     \<and> list_all is_continuation (drop 2 (take w s))"

definition point_of :: "string \<Rightarrow> nat" where
  "point_of s =
     (case map byte s of
        [a] \<Rightarrow> a
      | [a, b] \<Rightarrow> (a - 0xC0) * 64 + (b - 0x80)
      | [a, b, c] \<Rightarrow> ((a - 0xE0) * 64 + (b - 0x80)) * 64 + (c - 0x80)
      | [a, b, c, d] \<Rightarrow> (((a - 0xF0) * 64 + (b - 0x80)) * 64 + (c - 0x80)) * 64 + (d - 0x80)
      | _ \<Rightarrow> 0)"

text \<open>The bytes of the character at the head of a text, or none where they are not UTF-8.\<close>

definition utf8_head :: "string \<Rightarrow> string option" where
  "utf8_head s =
     (case s of [] \<Rightarrow> None
      | c # _ \<Rightarrow> let w = utf8_width (byte c) in if well_formed s w then Some (take w s) else None)"

lemma utf8_head_SomeD:
  assumes "utf8_head s = Some p"
  shows "\<exists>rest. s = p @ rest \<and> p \<noteq> [] \<and> length p \<le> 4"
proof -
  obtain c cs where s: "s = c # cs" "well_formed s (utf8_width (byte c))" "p = take (utf8_width (byte c)) s"
    using assms by (auto simp: utf8_head_def Let_def split: list.splits if_splits)
  moreover have "utf8_width (byte c) \<le> 4" by (simp add: utf8_width_def)
  ultimately have "s = p @ drop (utf8_width (byte c)) s" "p \<noteq> []" "length p \<le> 4"
    by (auto simp: well_formed_def)
  then show ?thesis by blast
qed

lemma byte_eq_iff: "byte c = byte d \<longleftrightarrow> c = d"
  by (simp add: byte_def)

text \<open>A character of several bytes holds no ASCII byte, so every ASCII byte of a text is a character.\<close>

lemma utf8_head_ascii:
  assumes "utf8_head s = Some p" "c \<in> set p" "byte c < 0x80"
  shows "p = [c] \<and> point_of p = byte c"
proof -
  obtain a cs where s: "s = a # cs" "well_formed s (utf8_width (byte a))" "p = take (utf8_width (byte a)) s"
    using assms by (auto simp: utf8_head_def Let_def split: list.splits if_splits)
  let ?w = "utf8_width (byte a)"
  show ?thesis
  proof (cases "byte a < 0x80")
    case True
    then have "?w = 1" by (simp add: utf8_width_def)
    with s assms(2) show ?thesis by (simp add: point_of_def)
  next
    case False
    then have w: "2 \<le> ?w" using s(2) by (auto simp: utf8_width_def well_formed_def split: if_splits)
    obtain b bs where cs: "cs = b # bs" using w s(1,2) by (cases cs) (auto simp: well_formed_def)
    have p: "p = a # b # take (?w - 2) bs" using s(3) w by (simp add: s(1) cs take_Cons' numeral_2_eq_2)
    have "second_byte_ok (byte a) (byte b)" "list_all is_continuation (take (?w - 2) bs)"
      using s(2) w by (auto simp: well_formed_def s(1) cs take_Cons' numeral_2_eq_2)
    then have "0x80 \<le> byte b" "\<forall>d \<in> set (take (?w - 2) bs). 0x80 \<le> byte d"
      by (auto simp: second_byte_ok_def is_continuation_def list_all_iff split: if_splits)
    with p False assms(2,3) show ?thesis by auto
  qed
qed

text \<open>Only an ASCII byte writes an ASCII code point.\<close>

lemma utf8_head_point:
  assumes "utf8_head s = Some p" "point_of p < 0x80"
  shows "\<exists>c. p = [c] \<and> byte c = point_of p"
proof -
  obtain a cs where s: "s = a # cs" "well_formed s (utf8_width (byte a))" "p = take (utf8_width (byte a)) s"
    using assms by (auto simp: utf8_head_def Let_def split: list.splits if_splits)
  consider "byte a < 0x80" | "0xC2 \<le> byte a" "byte a \<le> 0xDF" | "0xE0 \<le> byte a" "byte a \<le> 0xEF"
    | "0xF0 \<le> byte a" "byte a \<le> 0xF4"
    using s(2) by (auto simp: utf8_width_def well_formed_def split: if_splits)
  then show ?thesis
  proof cases
    case 1
    with s show ?thesis by (simp add: utf8_width_def point_of_def)
  next
    case 2
    then have "utf8_width (byte a) = 2" by (simp add: utf8_width_def)
    with s obtain b where "p = [a, b]" by (cases cs) (auto simp: well_formed_def)
    with 2 assms(2) show ?thesis by (simp add: point_of_def)
  next
    case 3
    then have w: "utf8_width (byte a) = 3" by (simp add: utf8_width_def)
    with s obtain b bs where cs: "cs = b # bs" by (cases cs) (auto simp: well_formed_def)
    with s w obtain c where p: "p = [a, b, c]" by (cases bs) (auto simp: well_formed_def)
    have "second_byte_ok (byte a) (byte b)" using s(1,2) w by (simp add: well_formed_def cs)
    with 3 assms(2) p show ?thesis by (auto simp: point_of_def second_byte_ok_def split: if_splits)
  next
    case 4
    then have w: "utf8_width (byte a) = 4" by (simp add: utf8_width_def)
    with s obtain b c bs where cs: "cs = b # c # bs" by (cases cs; cases "tl cs") (auto simp: well_formed_def)
    with s w obtain d where p: "p = [a, b, c, d]" by (cases bs) (auto simp: well_formed_def)
    have "second_byte_ok (byte a) (byte b)" using s(1,2) w by (simp add: well_formed_def cs)
    with 4 assms(2) p show ?thesis by (auto simp: point_of_def second_byte_ok_def split: if_splits)
  qed
qed

text \<open>\<open>str::from_utf8\<close>: whether bytes are a text.\<close>

function is_utf8 :: "string \<Rightarrow> bool" where
  "is_utf8 s \<longleftrightarrow>
     s = [] \<or> (case utf8_head s of None \<Rightarrow> False | Some p \<Rightarrow> is_utf8 (drop (length p) s))"
  by pat_completeness auto
termination
  by (relation "measure length") (auto dest: utf8_head_SomeD)

declare is_utf8.simps [simp del]

lemma is_utf8_Nil [simp]: "is_utf8 []"
  by (subst is_utf8.simps) simp

subsection \<open>Decimal digits\<close>

text \<open>\<open>to_string\<close> of an unsigned number.\<close>

fun decimal :: "nat \<Rightarrow> string" where
  "decimal n = (if n < 10 then [char_of (48 + n)] else decimal (n div 10) @ [char_of (48 + n mod 10)])"

declare decimal.simps [simp del]

definition digits_nat :: "string \<Rightarrow> nat" where
  "digits_nat s = foldl (\<lambda>n c. n * 10 + (byte c - 48)) 0 s"

lemma digit_byte [simp]: "n < 10 \<Longrightarrow> byte (char_of (48 + n)) = 48 + n"
  by (simp add: byte_def)

lemma decimal_digits: "list_all is_ascii_digit (decimal n) \<and> decimal n \<noteq> []"
proof (induction n rule: decimal.induct)
  case (1 n)
  then show ?case by (subst (1 2) decimal.simps) (auto simp: list_all_iff is_ascii_digit_def)
qed

lemma digits_decimal [simp]: "digits_nat (decimal n) = n"
proof (induction n rule: decimal.induct)
  case (1 n)
  show ?case
  proof (cases "n < 10")
    case True
    then show ?thesis by (subst decimal.simps) (simp add: digits_nat_def)
  next
    case False
    then have "decimal n = decimal (n div 10) @ [char_of (48 + n mod 10)]" by (subst decimal.simps) simp
    with 1 False show ?thesis by (simp add: digits_nat_def)
  qed
qed

end
