(* ===== verification/Catalog_Model.thy ===== *)
theory Catalog_Model
  imports Catalog_Path Code_Points
begin

text \<open>
  The metadata a source describes (\<open>crates/oxyn-catalog/src/model.rs\<close>, \<open>definition.rs\<close>) and the
  bound on how deep a type nests once in the cache (\<open>nesting.rs\<close>). The loop of \<open>nesting::bound\<close>
  works through a list of positions of the same tree, each independent of the others: it is written
  as the recursion on that tree.
\<close>

subsection \<open>Levels above the relations\<close>

record server_info =
  si_product :: string
  si_version :: string
  si_capabilities :: capabilities

record catalog_ref =
  cr_name :: string
  cr_comment :: "string option"
  cr_is_default :: bool

definition only_catalog :: "string option \<Rightarrow> catalog_path" where
  "only_catalog c = \<lparr>cp_catalog = c, cp_namespace = None, cp_relation = None\<rparr>"

definition catalog_ref_validated :: "string \<Rightarrow> catalog_ref" where
  "catalog_ref_validated name = \<lparr>cr_name = name, cr_comment = None, cr_is_default = False\<rparr>"

definition catalog_ref_new :: "string \<Rightarrow> catalog_path_error + catalog_ref" where
  "catalog_ref_new name = map_sum id (\<lambda>_. catalog_ref_validated name) (validate_segment name)"

definition catalog_ref_path :: "catalog_ref \<Rightarrow> catalog_path" where
  "catalog_ref_path c = only_catalog (Some (cr_name c))"

record namespace_ref =
  nr_parent :: catalog_path
  nr_name :: string
  nr_comment :: "string option"
  nr_is_system :: bool

definition namespace_ref_validated :: "catalog_path \<Rightarrow> string \<Rightarrow> namespace_ref" where
  "namespace_ref_validated parent name =
     \<lparr>nr_parent = parent, nr_name = name, nr_comment = None, nr_is_system = False\<rparr>"

definition namespace_ref_new :: "catalog_path \<Rightarrow> string \<Rightarrow> catalog_path_error + namespace_ref" where
  "namespace_ref_new parent name =
     (if cp_namespace parent \<noteq> None \<or> cp_relation parent \<noteq> None
      then Inl ''the parent of a namespace is a catalog, or nothing''
      else map_sum id (\<lambda>_. namespace_ref_validated parent name) (validate_segment name))"

definition namespace_ref_path :: "namespace_ref \<Rightarrow> catalog_path" where
  "namespace_ref_path n =
     \<lparr>cp_catalog = cp_catalog (nr_parent n), cp_namespace = Some (nr_name n), cp_relation = None\<rparr>"

subsection \<open>Relations\<close>

datatype relation_kind =
    KindTable | KindView | KindMaterializedView | KindCollection | KindIndex | KindStream
  | KindKeyPattern | KindNodeLabel | KindRelationshipType | KindFunction | KindProcedure | KindSequence

fun relation_kind_as_str :: "relation_kind \<Rightarrow> string" where
  "relation_kind_as_str KindTable = ''table''"
| "relation_kind_as_str KindView = ''view''"
| "relation_kind_as_str KindMaterializedView = ''materialized_view''"
| "relation_kind_as_str KindCollection = ''collection''"
| "relation_kind_as_str KindIndex = ''index''"
| "relation_kind_as_str KindStream = ''stream''"
| "relation_kind_as_str KindKeyPattern = ''key_pattern''"
| "relation_kind_as_str KindNodeLabel = ''node_label''"
| "relation_kind_as_str KindRelationshipType = ''relationship_type''"
| "relation_kind_as_str KindFunction = ''function''"
| "relation_kind_as_str KindProcedure = ''procedure''"
| "relation_kind_as_str KindSequence = ''sequence''"

definition holds_records :: "relation_kind \<Rightarrow> bool" where
  "holds_records k \<longleftrightarrow> k \<in> {KindTable, KindView, KindMaterializedView, KindCollection, KindIndex,
     KindStream, KindKeyPattern, KindNodeLabel, KindRelationshipType}"

record virtual_table =
  vt_module :: string
  vt_available :: "bool option"

record relation_ref =
  rr_parent :: catalog_path
  rr_name :: string
  rr_kind :: relation_kind
  rr_comment :: "string option"
  rr_virtual_table :: "virtual_table option"
  rr_shadow_of :: "string option"

definition relation_ref_validated :: "catalog_path \<Rightarrow> string \<Rightarrow> relation_kind \<Rightarrow> relation_ref" where
  "relation_ref_validated parent name kind =
     \<lparr>rr_parent = parent, rr_name = name, rr_kind = kind, rr_comment = None, rr_virtual_table = None,
      rr_shadow_of = None\<rparr>"

definition relation_ref_new ::
  "catalog_path \<Rightarrow> string \<Rightarrow> relation_kind \<Rightarrow> catalog_path_error + relation_ref" where
  "relation_ref_new parent name kind =
     (if cp_relation parent \<noteq> None then Inl ''the parent of a relation cannot be a relation''
      else map_sum id (\<lambda>_. relation_ref_validated parent name kind) (validate_segment name))"

definition relation_ref_path :: "relation_ref \<Rightarrow> catalog_path" where
  "relation_ref_path r = (rr_parent r)\<lparr>cp_relation := Some (rr_name r)\<rparr>"

text \<open>The types of the fields, and the fields of the structured types.\<close>

datatype logical_type =
    LBoolean
  | LInteger nat
  | LFloat nat
  | LDecimal "nat option" "int option"
  | LText
  | LBytes
  | LUuid
  | LDate
  | LTime
  | LTimestamp bool
  | LInterval
  | LJson
  | LArray logical_type
  | LStruct "field list"
  | LVector "nat option"
  | LGeometry
  | LUnknown
and field =
    Field (fi_name: string) (fi_position: nat) (fi_type: logical_type) (fi_raw_type: string)
      (fi_nullable: bool) (fi_default: "string option") (fi_comment: "string option")
      (fi_primary_key: bool) (fi_rank: "nat option") (fi_inferred: bool)

definition field_new :: "string \<Rightarrow> nat \<Rightarrow> logical_type \<Rightarrow> string \<Rightarrow> field" where
  "field_new name position t raw = Field name position t raw True None None False None False"

fun is_nested :: "logical_type \<Rightarrow> bool" where
  "is_nested (LArray t) = True"
| "is_nested (LStruct fs) = True"
| "is_nested t = False"

text \<open>\<open>Display\<close>; a signed scale is written with its sign.\<close>

definition show_int :: "int \<Rightarrow> string" where
  "show_int i = (if i < 0 then CHR ''-'' # decimal (nat (- i)) else decimal (nat i))"

fun logical_type_display :: "logical_type \<Rightarrow> string" and field_display :: "field \<Rightarrow> string" where
  "logical_type_display LBoolean = ''boolean''"
| "logical_type_display (LInteger bits) = ''int'' @ decimal bits"
| "logical_type_display (LFloat bits) = ''float'' @ decimal bits"
| "logical_type_display (LDecimal (Some p) (Some s)) = ''decimal('' @ decimal p @ '','' @ show_int s @ '')''"
| "logical_type_display (LDecimal (Some p) None) = ''decimal('' @ decimal p @ '')''"
| "logical_type_display (LDecimal None s) = ''decimal''"
| "logical_type_display LText = ''text''"
| "logical_type_display LBytes = ''bytes''"
| "logical_type_display LUuid = ''uuid''"
| "logical_type_display LDate = ''date''"
| "logical_type_display LTime = ''time''"
| "logical_type_display (LTimestamp True) = ''timestamptz''"
| "logical_type_display (LTimestamp False) = ''timestamp''"
| "logical_type_display LInterval = ''interval''"
| "logical_type_display LJson = ''json''"
| "logical_type_display (LArray t) = ''array<'' @ logical_type_display t @ ''>''"
| "logical_type_display (LStruct fs) = ''struct<'' @ join '', '' (map field_display fs) @ ''>''"
| "logical_type_display (LVector (Some d)) = ''vector('' @ decimal d @ '')''"
| "logical_type_display (LVector None) = ''vector''"
| "logical_type_display LGeometry = ''geometry''"
| "logical_type_display LUnknown = ''unknown''"
| "field_display (Field name position t raw nullable preset comment key rank inferred) =
     name @ '': '' @ logical_type_display t"

record relation =
  rel_name :: string
  rel_kind :: relation_kind
  rel_comment :: "string option"
  rel_estimated_rows :: "nat option"
  rel_size_bytes :: "nat option"
  rel_fields :: "field list"
  rel_key_order_preview :: bool

definition relation_field :: "relation \<Rightarrow> string \<Rightarrow> field option" where
  "relation_field r name = List.find (\<lambda>f. fi_name f = name) (rel_fields r)"

text \<open>The fields of the key: by their rank, those without one last, then by their position.\<close>

definition key_rank :: "field \<Rightarrow> nat" where
  "key_rank f = (case fi_rank f of Some r \<Rightarrow> r | None \<Rightarrow> 2 ^ 32 - 1)"

definition primary_key :: "relation \<Rightarrow> field list" where
  "primary_key r =
     sort_key key_rank (sort_key fi_position (filter fi_primary_key (rel_fields r)))"

definition previews_in_key_order :: "relation \<Rightarrow> bool" where
  "previews_in_key_order r \<longleftrightarrow> rel_key_order_preview r \<and> list_ex fi_primary_key (rel_fields r)"

definition has_inferred_schema :: "relation \<Rightarrow> bool" where
  "has_inferred_schema r \<longleftrightarrow> list_ex fi_inferred (rel_fields r)"

subsection \<open>The details read apart\<close>

record index_info =
  ix_name :: string
  ix_fields :: "string list"
  ix_unique :: bool
  ix_method :: "string option"
  ix_predicate :: "string option"

datatype referential_action = NoAction | Restrict | Cascade | SetNull | SetDefault

fun referential_action_as_str :: "referential_action \<Rightarrow> string" where
  "referential_action_as_str NoAction = ''no_action''"
| "referential_action_as_str Restrict = ''restrict''"
| "referential_action_as_str Cascade = ''cascade''"
| "referential_action_as_str SetNull = ''set_null''"
| "referential_action_as_str SetDefault = ''set_default''"

definition propagates_delete :: "referential_action \<Rightarrow> bool" where
  "propagates_delete a \<longleftrightarrow> a \<in> {Cascade, SetNull, SetDefault}"

record foreign_key_target =
  ft_relation :: catalog_path
  ft_fields :: "string list"

record foreign_key =
  fk_name :: string
  fk_fields :: "string list"
  fk_references :: foreign_key_target
  fk_on_delete :: referential_action

definition foreign_key_well_formed :: "foreign_key \<Rightarrow> bool" where
  "foreign_key_well_formed k \<longleftrightarrow>
     fk_fields k \<noteq> [] \<and> length (fk_fields k) = length (ft_fields (fk_references k))"

record incoming_key =
  ik_source :: catalog_path
  ik_key :: foreign_key
  ik_source_unique :: "bool option"

datatype constraint_kind =
    ConstraintPrimaryKey | ConstraintUnique | ConstraintCheck | ConstraintForeignKey
  | ConstraintExclusion | ConstraintTrigger | ConstraintNotNull

fun constraint_kind_as_str :: "constraint_kind \<Rightarrow> string" where
  "constraint_kind_as_str ConstraintPrimaryKey = ''primary_key''"
| "constraint_kind_as_str ConstraintUnique = ''unique''"
| "constraint_kind_as_str ConstraintCheck = ''check''"
| "constraint_kind_as_str ConstraintForeignKey = ''foreign_key''"
| "constraint_kind_as_str ConstraintExclusion = ''exclusion''"
| "constraint_kind_as_str ConstraintTrigger = ''trigger''"
| "constraint_kind_as_str ConstraintNotNull = ''not_null''"

record constraint_info =
  co_name :: string
  co_kind :: constraint_kind
  co_fields :: "string list"
  co_expression :: "string option"
  co_validated :: "bool option"

datatype definition_source = Stored | Reconstructed

record relation_definition =
  def_sql :: string
  def_source :: definition_source
  def_notes :: "string list"

definition max_definition_sql :: nat where "max_definition_sql = 1048576"

definition definition_validate :: "relation_definition \<Rightarrow> unit result" where
  "definition_validate d =
     (if trim (def_sql d) = [] \<or> length (def_sql d) > max_definition_sql \<or> length (def_notes d) > 32
         \<or> sum_list (map length (def_notes d)) > 65536
      then Inl (ECatalogUnavailable ''object definition is empty or exceeds preview limits'')
      else Inr ())"

subsection \<open>The bound on nesting\<close>

definition max_type_depth :: nat where "max_type_depth = 32"

fun cut_type :: "nat \<Rightarrow> logical_type \<Rightarrow> logical_type" and cut_field :: "nat \<Rightarrow> field \<Rightarrow> field" where
  "cut_type depth (LArray t) =
     (if max_type_depth \<le> depth then LUnknown else LArray (cut_type (Suc depth) t))"
| "cut_type depth (LStruct fs) =
     (if max_type_depth \<le> depth then LUnknown else LStruct (map (cut_field (Suc depth)) fs))"
| "cut_type depth t = t"
| "cut_field depth (Field name position t raw nullable preset comment key rank inferred) =
     Field name position (cut_type depth t) raw nullable preset comment key rank inferred"

definition bound_fields :: "field list \<Rightarrow> field list" where
  "bound_fields fs = map (cut_field 1) fs"

text \<open>How many levels a type has; the recursive operations on it use that much stack. A
  structure without fields counts the level its fields would have: \<open>nests\<close> does not look at them.\<close>

fun type_depth :: "logical_type \<Rightarrow> nat" and field_depth :: "field \<Rightarrow> nat" where
  "type_depth (LArray t) = Suc (type_depth t)"
| "type_depth (LStruct fs) = Suc (fold max (map field_depth fs) 1)"
| "type_depth t = 1"
| "field_depth (Field name position t raw nullable preset comment key rank inferred) = type_depth t"

lemma fold_max_le: "fold max xs m \<le> n \<longleftrightarrow> m \<le> (n::nat) \<and> (\<forall>x \<in> set xs. x \<le> n)"
  by (induction xs arbitrary: m) auto

lemma fold_max_ge: "x \<in> set xs \<Longrightarrow> x \<le> fold max xs (m::nat)"
  using fold_max_le [of xs m "fold max xs m"] by blast

lemma fold_max_within: "m \<le> n \<Longrightarrow> (\<And>x. x \<in> set xs \<Longrightarrow> x \<le> n) \<Longrightarrow> fold max xs m \<le> (n::nat)"
  by (simp add: fold_max_le)

lemma depth_pos: "1 \<le> type_depth t" "1 \<le> field_depth f"
proof -
  have t: "1 \<le> type_depth t" for t by (cases t) simp_all
  show "1 \<le> type_depth t" by (rule t)
  show "1 \<le> field_depth f" using t by (cases f) simp
qed

lemma cut_depth:
  "depth \<le> max_type_depth \<Longrightarrow> type_depth (cut_type depth t) + depth \<le> max_type_depth + 1"
  "depth \<le> max_type_depth \<Longrightarrow> field_depth (cut_field depth f) + depth \<le> max_type_depth + 1"
proof (induction depth t and depth f rule: cut_type_cut_field.induct)
  case (1 depth t)
  then show ?case by (cases "max_type_depth \<le> depth") simp_all
next
  case (2 depth fs)
  show ?case
  proof (cases "max_type_depth \<le> depth")
    case False
    have "fold max (map (field_depth \<circ> cut_field (Suc depth)) fs) 1 \<le> max_type_depth - depth"
    proof (rule fold_max_within)
      show "1 \<le> max_type_depth - depth" using False by simp
    next
      fix x
      assume "x \<in> set (map (field_depth \<circ> cut_field (Suc depth)) fs)"
      then obtain f where "f \<in> set fs" "x = field_depth (cut_field (Suc depth) f)" by auto
      with "2.IH" [OF False, of f] False show "x \<le> max_type_depth - depth" by simp
    qed
    with False show ?thesis by simp
  qed (use "2.prems" in simp)
qed simp_all

lemma cut_whole:
  "type_depth t + depth \<le> max_type_depth + 1 \<Longrightarrow> cut_type depth t = t"
  "field_depth f + depth \<le> max_type_depth + 1 \<Longrightarrow> cut_field depth f = f"
proof (induction depth t and depth f rule: cut_type_cut_field.induct)
  case (1 depth t)
  then show ?case using depth_pos(1) [of t] by simp
next
  case (2 depth fs)
  let ?d = "fold max (map field_depth fs) 1"
  have d: "?d + depth \<le> max_type_depth" using "2.prems" by simp
  have "1 \<le> ?d" using fold_max_le [of "map field_depth fs" 1 ?d] by blast
  with d have deep: "\<not> max_type_depth \<le> depth" by simp
  have "field_depth f + depth \<le> max_type_depth" if "f \<in> set fs" for f
    using d fold_max_ge [of "field_depth f" "map field_depth fs" 1] that by simp
  with "2.IH" [OF deep] have "map (cut_field (Suc depth)) fs = fs" by (intro map_idI) simp
  with deep show ?case by simp
qed simp_all

text \<open>The cache keeps 32 levels of a field's type, and leaves a type within them whole.\<close>

lemma bound_fields_depth: "f \<in> set (bound_fields fs) \<Longrightarrow> field_depth f \<le> max_type_depth"
  using cut_depth(2) [of 1] by (auto simp: bound_fields_def max_type_depth_def)

lemma bound_fields_whole: "(\<And>f. f \<in> set fs \<Longrightarrow> field_depth f \<le> max_type_depth) \<Longrightarrow> bound_fields fs = fs"
  using cut_whole(2) [of _ 1] by (auto simp: bound_fields_def intro: map_idI)

lemma bound_fields_idem: "bound_fields (bound_fields fs) = bound_fields fs"
  by (rule bound_fields_whole) (rule bound_fields_depth)

end
