(* ===== verification/Catalog_Cache.thy ===== *)
theory Catalog_Cache
  imports Catalog_Model "HOL-Library.AList" "HOL-Library.Option_ord" "HOL-Library.While_Combinator"
begin

text \<open>
  The introspection cache of one connection (\<open>crates/oxyn-catalog/src/cache.rs\<close>,
  \<open>cache/listing.rs\<close>): a tree of catalogs, namespaces and relations, fed piece by piece, whose every
  level carries its freshness. An \<open>IndexMap\<close> is the list of its entries in their order; an update
  through \<open>get_mut\<close> is \<open>AList.map_entry\<close>, which leaves a tree without the node as it is. The clock is
  an argument; instants are nanoseconds.
\<close>

subsection \<open>Freshness\<close>

datatype freshness = Never | Fetched int | Invalidated

definition is_known :: "freshness \<Rightarrow> bool" where
  "is_known f \<longleftrightarrow> f \<noteq> Never"

fun fetched_at :: "freshness \<Rightarrow> int option" where
  "fetched_at (Fetched i) = Some i"
| "fetched_at f = None"

text \<open>\<open>TimeDelta::from_std\<close> refuses a lifetime beyond the largest \<open>i64\<close> of milliseconds.\<close>

definition max_time_delta :: nat where "max_time_delta = (2 ^ 63 - 1) * 1000000"

fun is_stale_at :: "int \<Rightarrow> duration \<Rightarrow> freshness \<Rightarrow> bool" where
  "is_stale_at now ttl Never = False"
| "is_stale_at now ttl Invalidated = True"
| "is_stale_at now ttl (Fetched i) = (ttl \<le> max_time_delta \<and> int ttl < now - i)"

definition invalidated :: "freshness \<Rightarrow> freshness" where
  "invalidated f = (if is_known f then Invalidated else f)"

lemma invalidated_idem [simp]: "invalidated (invalidated f) = invalidated f"
  by (simp add: invalidated_def is_known_def)

lemma invalidated_stale: "is_stale_at now ttl (invalidated f) \<longleftrightarrow> is_known f"
  by (cases f) (simp_all add: invalidated_def is_known_def)

record 'a cached =
  ca_freshness :: freshness
  ca_value :: 'a

definition unread :: "'a \<Rightarrow> 'a cached" where
  "unread v = \<lparr>ca_freshness = Never, ca_value = v\<rparr>"

definition read_now :: "int \<Rightarrow> 'a \<Rightarrow> 'a cached \<Rightarrow> 'a cached" where
  "read_now now v c = c\<lparr>ca_value := v, ca_freshness := Fetched now\<rparr>"

definition invalidate_cached :: "'a cached \<Rightarrow> 'a cached" where
  "invalidate_cached c = c\<lparr>ca_freshness := invalidated (ca_freshness c)\<rparr>"

lemma cached_sel [simp]:
  "ca_value (unread v) = v" "ca_freshness (unread v) = Never"
  "ca_value (read_now now v c) = v" "ca_freshness (read_now now v c) = Fetched now"
  "ca_value (invalidate_cached c) = ca_value c"
  "ca_freshness (invalidate_cached c) = invalidated (ca_freshness c)"
  by (simp_all add: unread_def read_now_def invalidate_cached_def)

subsection \<open>The tree\<close>

record rel_node =
  rn_summary :: relation_ref
  rn_detail :: "relation option cached"
  rn_indexes :: "index_info list option cached"
  rn_foreign_keys :: "foreign_key list option cached"
  rn_constraints :: "constraint_info list option cached"
  rn_incoming :: "incoming_key list option cached"
  rn_definition :: "relation_definition option cached"

definition relation_node_new :: "relation_ref \<Rightarrow> rel_node" where
  "relation_node_new s =
     \<lparr>rn_summary = s, rn_detail = unread None, rn_indexes = unread None, rn_foreign_keys = unread None,
      rn_constraints = unread None, rn_incoming = unread None, rn_definition = unread None\<rparr>"

definition invalidate_relation :: "rel_node \<Rightarrow> rel_node" where
  "invalidate_relation n =
     n\<lparr>rn_detail := invalidate_cached (rn_detail n), rn_indexes := invalidate_cached (rn_indexes n),
       rn_foreign_keys := invalidate_cached (rn_foreign_keys n),
       rn_constraints := invalidate_cached (rn_constraints n),
       rn_incoming := invalidate_cached (rn_incoming n),
       rn_definition := invalidate_cached (rn_definition n)\<rparr>"

definition relation_is_stale_at :: "int \<Rightarrow> duration \<Rightarrow> rel_node \<Rightarrow> bool" where
  "relation_is_stale_at now ttl n \<longleftrightarrow> is_stale_at now ttl (ca_freshness (rn_detail n))
     \<or> is_stale_at now ttl (ca_freshness (rn_indexes n))
     \<or> is_stale_at now ttl (ca_freshness (rn_foreign_keys n))"

record ns_node =
  nn_info :: "namespace_ref option"
  nn_relations :: "(string \<times> rel_node) list cached"

record cat_node =
  cn_info :: "catalog_ref option"
  cn_namespaces :: "(string \<times> ns_node) list cached"

record catalog_cache =
  ch_server :: "server_info option cached"
  ch_catalogs :: "(string \<times> cat_node) list cached"
  ch_resolution :: "string list option cached"

definition cache_new :: catalog_cache where
  "cache_new = \<lparr>ch_server = unread None, ch_catalogs = unread [], ch_resolution = unread None\<rparr>"

text \<open>The key of a missing level is the empty text, which no valid name is.\<close>

definition map_key :: "string option \<Rightarrow> string" where
  "map_key ident = (case ident of None \<Rightarrow> [] | Some s \<Rightarrow> s)"

definition from_key :: "string \<Rightarrow> string option" where
  "from_key k = (if k = [] then None else Some k)"

lemma map_key_from_key [simp]: "map_key (from_key k) = k"
  by (simp add: map_key_def from_key_def)

lemma from_key_map_key: "ident \<noteq> Some [] \<Longrightarrow> from_key (map_key ident) = ident"
  by (cases ident) (auto simp: map_key_def from_key_def)

subsection \<open>Reaching a node\<close>

definition catalog_node :: "string option \<Rightarrow> catalog_cache \<Rightarrow> cat_node option" where
  "catalog_node ident c = map_of (ca_value (ch_catalogs c)) (map_key ident)"

definition namespace_in :: "string option \<Rightarrow> cat_node \<Rightarrow> ns_node option" where
  "namespace_in ident cat = map_of (ca_value (cn_namespaces cat)) (map_key ident)"

definition namespace_node :: "catalog_path \<Rightarrow> catalog_cache \<Rightarrow> ns_node option" where
  "namespace_node p c = Option.bind (catalog_node (cp_catalog p) c) (namespace_in (cp_namespace p))"

definition relation_node :: "catalog_path \<Rightarrow> catalog_cache \<Rightarrow> rel_node option" where
  "relation_node p c =
     (case cp_relation p of
        None \<Rightarrow> None
      | Some name \<Rightarrow> Option.bind (namespace_node p c) (\<lambda>n. map_of (ca_value (nn_relations n)) name))"

definition map_value :: "('a \<Rightarrow> 'b) \<Rightarrow> 'a cached \<Rightarrow> 'b cached" where
  "map_value f c = \<lparr>ca_freshness = ca_freshness c, ca_value = f (ca_value c)\<rparr>"

lemma map_value_sel [simp]:
  "ca_value (map_value f c) = f (ca_value c)" "ca_freshness (map_value f c) = ca_freshness c"
  by (simp_all add: map_value_def)

definition on_catalog :: "string option \<Rightarrow> (cat_node \<Rightarrow> cat_node) \<Rightarrow> catalog_cache \<Rightarrow> catalog_cache" where
  "on_catalog ident f c =
     c\<lparr>ch_catalogs := map_value (AList.map_entry (map_key ident) f) (ch_catalogs c)\<rparr>"

definition on_namespace_in :: "string option \<Rightarrow> (ns_node \<Rightarrow> ns_node) \<Rightarrow> cat_node \<Rightarrow> cat_node" where
  "on_namespace_in ident f cat =
     cat\<lparr>cn_namespaces := map_value (AList.map_entry (map_key ident) f) (cn_namespaces cat)\<rparr>"

definition on_namespace :: "catalog_path \<Rightarrow> (ns_node \<Rightarrow> ns_node) \<Rightarrow> catalog_cache \<Rightarrow> catalog_cache" where
  "on_namespace p f = on_catalog (cp_catalog p) (on_namespace_in (cp_namespace p) f)"

definition on_relation_in :: "string \<Rightarrow> (rel_node \<Rightarrow> rel_node) \<Rightarrow> ns_node \<Rightarrow> ns_node" where
  "on_relation_in name f ns = ns\<lparr>nn_relations := map_value (AList.map_entry name f) (nn_relations ns)\<rparr>"

definition on_relation :: "catalog_path \<Rightarrow> (rel_node \<Rightarrow> rel_node) \<Rightarrow> catalog_cache \<Rightarrow> catalog_cache" where
  "on_relation p f c =
     (case cp_relation p of None \<Rightarrow> c | Some name \<Rightarrow> on_namespace p (on_relation_in name f) c)"

text \<open>\<open>entry(k).or_insert_with(d)\<close>: a new entry goes last.\<close>

definition entry_or :: "'k \<Rightarrow> 'v \<Rightarrow> ('k \<times> 'v) list \<Rightarrow> ('k \<times> 'v) list" where
  "entry_or k d m = (if map_of m k = None then m @ [(k, d)] else m)"

definition ensure_catalog :: "string option \<Rightarrow> catalog_cache \<Rightarrow> catalog_cache" where
  "ensure_catalog ident c =
     c\<lparr>ch_catalogs := map_value (entry_or (map_key ident)
        \<lparr>cn_info = map_option catalog_ref_validated ident, cn_namespaces = unread []\<rparr>) (ch_catalogs c)\<rparr>"

definition ensure_namespace :: "catalog_path \<Rightarrow> catalog_cache \<Rightarrow> catalog_cache" where
  "ensure_namespace p c =
     on_catalog (cp_catalog p)
       (\<lambda>cat. cat\<lparr>cn_namespaces := map_value (entry_or (map_key (cp_namespace p))
          \<lparr>nn_info = map_option (namespace_ref_validated (only_catalog (cp_catalog p))) (cp_namespace p),
           nn_relations = unread []\<rparr>) (cn_namespaces cat)\<rparr>)
       (ensure_catalog (cp_catalog p) c)"

definition ensure_relation :: "catalog_path \<Rightarrow> string \<Rightarrow> relation_kind \<Rightarrow> catalog_cache \<Rightarrow> catalog_cache" where
  "ensure_relation p name kind c =
     on_namespace p
       (\<lambda>ns. ns\<lparr>nn_relations := map_value (entry_or name
          (relation_node_new (relation_ref_validated (p\<lparr>cp_relation := None\<rparr>) name kind))) (nn_relations ns)\<rparr>)
       (ensure_namespace p c)"

subsection \<open>Writing\<close>

datatype cache_error = NotARelation | NotANamespace | UnknownRelation

fun cache_error_display :: "cache_error \<Rightarrow> string" where
  "cache_error_display NotARelation = ''the path does not name a relation''"
| "cache_error_display NotANamespace = ''the path does not name a namespace''"
| "cache_error_display UnknownRelation = ''the relation is not in the cache''"

definition set_server_info :: "int \<Rightarrow> server_info \<Rightarrow> catalog_cache \<Rightarrow> catalog_cache" where
  "set_server_info now i c = c\<lparr>ch_server := read_now now (Some i) (ch_server c)\<rparr>"

definition set_resolution_path :: "int \<Rightarrow> string list \<Rightarrow> catalog_cache \<Rightarrow> catalog_cache" where
  "set_resolution_path now path c = c\<lparr>ch_resolution := read_now now (Some path) (ch_resolution c)\<rparr>"

text \<open>
  A fresh listing of a level: \<open>previous\<close> is what was held, \<open>fresh\<close> what was listed so far. A node that
  remains keeps what is below it, taken out of \<open>previous\<close>: a name listed twice finds it gone.
\<close>

fun relist ::
  "('i \<Rightarrow> string) \<Rightarrow> ('i \<Rightarrow> 'n \<Rightarrow> 'n) \<Rightarrow> ('i \<Rightarrow> 'n) \<Rightarrow> 'i list
   \<Rightarrow> (string \<times> 'n) list \<Rightarrow> (string \<times> 'n) list \<Rightarrow> (string \<times> 'n) list" where
  "relist name again new [] previous fresh = fresh"
| "relist name again new (i # infos) previous fresh =
     relist name again new infos (AList.delete (name i) previous)
       (index_map_insert (name i)
          (case map_of previous (name i) of Some n \<Rightarrow> again i n | None \<Rightarrow> new i) fresh)"

definition set_catalogs :: "int \<Rightarrow> catalog_ref list \<Rightarrow> catalog_cache \<Rightarrow> catalog_cache" where
  "set_catalogs now infos c =
     c\<lparr>ch_catalogs := read_now now
        (relist cr_name (\<lambda>i n. n\<lparr>cn_info := Some i\<rparr>)
           (\<lambda>i. \<lparr>cn_info = Some i, cn_namespaces = unread []\<rparr>) infos (ca_value (ch_catalogs c)) [])
        (ch_catalogs c)\<rparr>"

definition set_namespaces :: "int \<Rightarrow> string option \<Rightarrow> namespace_ref list \<Rightarrow> catalog_cache \<Rightarrow> catalog_cache" where
  "set_namespaces now ident infos c =
     on_catalog ident
       (\<lambda>cat. cat\<lparr>cn_namespaces := read_now now
          (relist nr_name (\<lambda>i n. n\<lparr>nn_info := Some i\<rparr>)
             (\<lambda>i. \<lparr>nn_info = Some i, nn_relations = unread []\<rparr>)
             (map (\<lambda>i. i\<lparr>nr_parent := only_catalog ident\<rparr>) infos) (ca_value (cn_namespaces cat)) [])
          (cn_namespaces cat)\<rparr>)
       (ensure_catalog ident c)"

definition set_relations ::
  "int \<Rightarrow> catalog_path \<Rightarrow> relation_ref list \<Rightarrow> catalog_cache \<Rightarrow> cache_error + catalog_cache" where
  "set_relations now p infos c =
     (if cp_relation p \<noteq> None then Inl NotANamespace
      else Inr (on_namespace p
        (\<lambda>ns. ns\<lparr>nn_relations := read_now now
           (relist rr_name (\<lambda>i n. n\<lparr>rn_summary := i\<rparr>) relation_node_new
              (map (\<lambda>i. i\<lparr>rr_parent := p\<rparr>) infos) (ca_value (nn_relations ns)) [])
           (nn_relations ns)\<rparr>)
        (ensure_namespace p c)))"

definition set_relation ::
  "int \<Rightarrow> catalog_path \<Rightarrow> relation \<Rightarrow> catalog_cache \<Rightarrow> cache_error + catalog_cache" where
  "set_relation now p r c =
     (case cp_relation p of
        None \<Rightarrow> Inl NotARelation
      | Some name \<Rightarrow> Inr (on_relation p
          (\<lambda>n. n\<lparr>rn_detail := read_now now (Some (r\<lparr>rel_fields := bound_fields (rel_fields r)\<rparr>)) (rn_detail n)\<rparr>)
          (ensure_relation p name (rel_kind r) c)))"

text \<open>A node of a relation already known.\<close>

definition on_known ::
  "catalog_path \<Rightarrow> (rel_node \<Rightarrow> rel_node) \<Rightarrow> catalog_cache \<Rightarrow> cache_error + catalog_cache" where
  "on_known p f c =
     (if cp_relation p = None then Inl NotARelation
      else if relation_node p c = None then Inl UnknownRelation
      else Inr (on_relation p f c))"

definition set_indexes ::
  "int \<Rightarrow> catalog_path \<Rightarrow> index_info list \<Rightarrow> catalog_cache \<Rightarrow> cache_error + catalog_cache" where
  "set_indexes now p v = on_known p (\<lambda>n. n\<lparr>rn_indexes := read_now now (Some v) (rn_indexes n)\<rparr>)"

definition set_foreign_keys ::
  "int \<Rightarrow> catalog_path \<Rightarrow> foreign_key list \<Rightarrow> catalog_cache \<Rightarrow> cache_error + catalog_cache" where
  "set_foreign_keys now p v =
     on_known p (\<lambda>n. n\<lparr>rn_foreign_keys := read_now now (Some v) (rn_foreign_keys n)\<rparr>)"

definition set_constraints ::
  "int \<Rightarrow> catalog_path \<Rightarrow> constraint_info list \<Rightarrow> catalog_cache \<Rightarrow> cache_error + catalog_cache" where
  "set_constraints now p v =
     on_known p (\<lambda>n. n\<lparr>rn_constraints := read_now now (Some v) (rn_constraints n)\<rparr>)"

definition set_incoming_foreign_keys ::
  "int \<Rightarrow> catalog_path \<Rightarrow> incoming_key list \<Rightarrow> catalog_cache \<Rightarrow> cache_error + catalog_cache" where
  "set_incoming_foreign_keys now p v =
     on_known p (\<lambda>n. n\<lparr>rn_incoming := read_now now (Some v) (rn_incoming n)\<rparr>)"

subsection \<open>Reading\<close>

definition cached_catalogs :: "catalog_cache \<Rightarrow> catalog_ref list" where
  "cached_catalogs c = List.map_filter (\<lambda>e. cn_info (snd e)) (ca_value (ch_catalogs c))"

definition cached_namespaces :: "string option \<Rightarrow> catalog_cache \<Rightarrow> namespace_ref list" where
  "cached_namespaces ident c =
     (case catalog_node ident c of None \<Rightarrow> []
      | Some cat \<Rightarrow> List.map_filter (\<lambda>e. nn_info (snd e)) (ca_value (cn_namespaces cat)))"

definition cached_relations :: "catalog_path \<Rightarrow> catalog_cache \<Rightarrow> relation_ref list" where
  "cached_relations p c =
     (case namespace_node p c of None \<Rightarrow> []
      | Some ns \<Rightarrow> map (\<lambda>e. rn_summary (snd e)) (ca_value (nn_relations ns)))"

definition relation_summary :: "catalog_path \<Rightarrow> catalog_cache \<Rightarrow> relation_ref option" where
  "relation_summary p c = map_option rn_summary (relation_node p c)"

definition cached_relation :: "catalog_path \<Rightarrow> catalog_cache \<Rightarrow> relation option" where
  "cached_relation p c = Option.bind (relation_node p c) (\<lambda>n. ca_value (rn_detail n))"

definition cached_indexes :: "catalog_path \<Rightarrow> catalog_cache \<Rightarrow> index_info list option" where
  "cached_indexes p c = Option.bind (relation_node p c) (\<lambda>n. ca_value (rn_indexes n))"

definition cached_foreign_keys :: "catalog_path \<Rightarrow> catalog_cache \<Rightarrow> foreign_key list option" where
  "cached_foreign_keys p c = Option.bind (relation_node p c) (\<lambda>n. ca_value (rn_foreign_keys n))"

definition cached_constraints :: "catalog_path \<Rightarrow> catalog_cache \<Rightarrow> constraint_info list option" where
  "cached_constraints p c = Option.bind (relation_node p c) (\<lambda>n. ca_value (rn_constraints n))"

definition cached_incoming :: "catalog_path \<Rightarrow> catalog_cache \<Rightarrow> incoming_key list option" where
  "cached_incoming p c = Option.bind (relation_node p c) (\<lambda>n. ca_value (rn_incoming n))"

definition cached_definition :: "catalog_path \<Rightarrow> catalog_cache \<Rightarrow> relation_definition option" where
  "cached_definition p c = Option.bind (relation_node p c) (\<lambda>n. ca_value (rn_definition n))"

definition all_nodes :: "catalog_cache \<Rightarrow> rel_node list" where
  "all_nodes c =
     concat (map (\<lambda>(ck, cat).
       concat (map (\<lambda>(nk, ns). map snd (ca_value (nn_relations ns))) (ca_value (cn_namespaces cat))))
       (ca_value (ch_catalogs c)))"

definition iter_relations :: "catalog_cache \<Rightarrow> (relation_ref \<times> relation option) list" where
  "iter_relations c = map (\<lambda>n. (rn_summary n, ca_value (rn_detail n))) (all_nodes c)"

definition cache_is_empty :: "catalog_cache \<Rightarrow> bool" where
  "cache_is_empty c \<longleftrightarrow> ca_value (ch_server c) = None \<and> ca_value (ch_catalogs c) = []"

subsection \<open>What an update reaches\<close>

lemma map_of_entry:
  "map_of (AList.map_entry k f m) k' = (if k' = k then map_option f (map_of m k) else map_of m k')"
  by (simp add: AList.map_of_map_entry split: option.split)

lemma map_of_entry_or:
  "map_of (entry_or k d m) k' = (if map_of m k = None \<and> k' = k then Some d else map_of m k')"
  by (auto simp: entry_or_def map_add_def split: option.splits)

lemma catalog_node_on_catalog:
  "catalog_node j (on_catalog i f c)
     = (if map_key j = map_key i then map_option f (catalog_node i c) else catalog_node j c)"
  by (simp add: catalog_node_def on_catalog_def map_of_entry)

lemma namespace_in_on_namespace:
  "namespace_in j (on_namespace_in i f cat)
     = (if map_key j = map_key i then map_option f (namespace_in i cat) else namespace_in j cat)"
  by (simp add: namespace_in_def on_namespace_in_def map_of_entry)

definition same_namespace :: "catalog_path \<Rightarrow> catalog_path \<Rightarrow> bool" where
  "same_namespace p q \<longleftrightarrow> map_key (cp_catalog p) = map_key (cp_catalog q)
     \<and> map_key (cp_namespace p) = map_key (cp_namespace q)"

definition same_relation :: "catalog_path \<Rightarrow> catalog_path \<Rightarrow> bool" where
  "same_relation p q \<longleftrightarrow> same_namespace p q \<and> cp_relation p = cp_relation q"

lemma namespace_node_on_namespace:
  "namespace_node q (on_namespace p f c)
     = (if same_namespace q p then map_option f (namespace_node p c) else namespace_node q c)"
proof -
  have key: "map_key i = map_key j \<Longrightarrow> catalog_node i c = catalog_node j c"
    "map_key i = map_key j \<Longrightarrow> namespace_in i = namespace_in j" for i j
    by (simp_all add: catalog_node_def namespace_in_def fun_eq_iff)
  show ?thesis
    unfolding namespace_node_def on_namespace_def catalog_node_on_catalog same_namespace_def
    using key(1) [of "cp_catalog q" "cp_catalog p"] key(2) [of "cp_namespace q" "cp_namespace p"]
    by (cases "catalog_node (cp_catalog p) c") (auto simp: namespace_in_on_namespace)
qed

lemma relation_node_same: "same_relation q p \<Longrightarrow> relation_node q c = relation_node p c"
  by (simp add: same_relation_def same_namespace_def relation_node_def namespace_node_def catalog_node_def
      namespace_in_def [abs_def] split: option.split)

lemma relation_node_on_relation:
  "relation_node q (on_relation p f c)
     = (if same_relation q p then map_option f (relation_node p c) else relation_node q c)"
proof (cases "cp_relation p")
  case None
  then show ?thesis by (auto simp: on_relation_def relation_node_def same_relation_def)
next
  case (Some name)
  show ?thesis
  proof (cases "same_namespace q p")
    case True
    then have "namespace_node q c = namespace_node p c"
      by (simp add: same_namespace_def namespace_node_def catalog_node_def namespace_in_def [abs_def])
    with True Some show ?thesis
      by (cases "namespace_node p c"; cases "cp_relation q")
        (auto simp: on_relation_def relation_node_def same_relation_def namespace_node_on_namespace
          on_relation_in_def map_of_entry)
  qed (simp add: Some on_relation_def relation_node_def same_relation_def namespace_node_on_namespace
      split: option.split)
qed

lemma same_relation_sym: "same_relation p q \<longleftrightarrow> same_relation q p"
  by (auto simp: same_relation_def same_namespace_def)

lemma on_known_node:
  assumes "on_known p f c = Inr c'"
  shows "relation_node q c' = (if same_relation q p then map_option f (relation_node p c) else relation_node q c)"
    "relation_node p c \<noteq> None"
  using assms by (auto simp: on_known_def relation_node_on_relation split: if_splits)

subsection \<open>A detail read apart\<close>

text \<open>
  What the tabs of a relation rely on: a detail is published for a relation the cache knows, is read back
  where it was published and nowhere else, and publishing it does not make or lose a relation.
\<close>

locale relation_detail =
  fixes get :: "catalog_path \<Rightarrow> catalog_cache \<Rightarrow> 'a option"
    and put :: "int \<Rightarrow> catalog_path \<Rightarrow> 'a \<Rightarrow> catalog_cache \<Rightarrow> cache_error + catalog_cache"
  assumes put_known: "(\<exists>c'. put now p v c = Inr c') \<longleftrightarrow> relation_node p c \<noteq> None"
    and put_get: "put now p v c = Inr c' \<Longrightarrow> get q c' = (if same_relation q p then Some v else get q c)"
    and put_nodes: "put now p v c = Inr c' \<Longrightarrow> (relation_node q c' = None) = (relation_node q c = None)"
begin

text \<open>A series of publications, stopped by the first that is refused.\<close>

fun puts :: "(int \<times> catalog_path \<times> 'a) list \<Rightarrow> catalog_cache \<Rightarrow> cache_error + catalog_cache" where
  "puts [] c = Inr c"
| "puts ((now, p, v) # ws) c = and_then (put now p v c) (puts ws)"

lemma puts_known:
  "(\<exists>c'. puts ws c = Inr c') \<longleftrightarrow> (\<forall>(now, p, v) \<in> set ws. relation_node p c \<noteq> None)"
proof (induction ws arbitrary: c)
  case (Cons w ws)
  obtain now p v where w: "w = (now, p, v)" by (cases w)
  show ?case
  proof (cases "put now p v c")
    case (Inl e)
    with put_known [of now p v c] show ?thesis by (simp add: w)
  next
    case (Inr c1)
    with put_known [of now p v c] have "relation_node p c \<noteq> None" by blast
    moreover have "(relation_node q c1 = None) = (relation_node q c = None)" for q
      by (rule put_nodes [OF Inr])
    ultimately show ?thesis using Cons.IH [of c1] by (simp add: w Inr)
  qed
qed simp

text \<open>The last publication for a relation is the one read.\<close>

lemma puts_get:
  "puts ws c = Inr c' \<Longrightarrow>
     get q c' = (case find (\<lambda>(now, p, v). same_relation q p) (rev ws) of
       Some (now, p, v) \<Rightarrow> Some v | None \<Rightarrow> get q c)"
proof (induction ws arbitrary: c' rule: rev_induct)
  case (snoc w ws)
  obtain now p v where w: "w = (now, p, v)" by (cases w)
  have append: "puts (us @ vs) d = and_then (puts us d) (puts vs)" for us vs d
    by (induction us arbitrary: d) (auto simp: and_then_def split: sum.split)
  from snoc.prems obtain c1 where c1: "puts ws c = Inr c1" "put now p v c1 = Inr c'"
    by (auto simp: append w and_then_Inr_iff)
  with snoc.IH [OF c1(1)] put_get [OF c1(2), of q] show ?case by (simp add: w)
qed simp

end

lemma read_back:
  assumes "put = (\<lambda>now p v. on_known p (f now v))" "\<And>n now v. g (f now v n) = Some v"
    and "get = (\<lambda>p c. Option.bind (relation_node p c) g)"
  shows "relation_detail get put"
proof
  show "(\<exists>c'. put now p v c = Inr c') \<longleftrightarrow> relation_node p c \<noteq> None" for now p v c
    by (auto simp: assms(1) on_known_def relation_node_def split: option.splits)
  show "put now p v c = Inr c' \<Longrightarrow> get q c' = (if same_relation q p then Some v else get q c)"
    for now p v c c' q
    using on_known_node [of p "f now v" c c'] by (auto simp: assms)
  show "put now p v c = Inr c' \<Longrightarrow> (relation_node q c' = None) = (relation_node q c = None)"
    for now p v c c' q
    using on_known_node [of p "f now v" c c'] relation_node_same [of q p c] by (auto simp: assms(1))
qed

interpretation indexes: relation_detail cached_indexes set_indexes
  by (rule read_back [where g = "\<lambda>n. ca_value (rn_indexes n)"
        and f = "\<lambda>now v n. n\<lparr>rn_indexes := read_now now (Some v) (rn_indexes n)\<rparr>"])
    (simp_all add: fun_eq_iff set_indexes_def cached_indexes_def)

interpretation foreign_keys: relation_detail cached_foreign_keys set_foreign_keys
  by (rule read_back [where g = "\<lambda>n. ca_value (rn_foreign_keys n)"
        and f = "\<lambda>now v n. n\<lparr>rn_foreign_keys := read_now now (Some v) (rn_foreign_keys n)\<rparr>"])
    (simp_all add: fun_eq_iff set_foreign_keys_def cached_foreign_keys_def)

interpretation constraints: relation_detail cached_constraints set_constraints
  by (rule read_back [where g = "\<lambda>n. ca_value (rn_constraints n)"
        and f = "\<lambda>now v n. n\<lparr>rn_constraints := read_now now (Some v) (rn_constraints n)\<rparr>"])
    (simp_all add: fun_eq_iff set_constraints_def cached_constraints_def)

interpretation incoming: relation_detail cached_incoming set_incoming_foreign_keys
  by (rule read_back [where g = "\<lambda>n. ca_value (rn_incoming n)"
        and f = "\<lambda>now v n. n\<lparr>rn_incoming := read_now now (Some v) (rn_incoming n)\<rparr>"])
    (simp_all add: fun_eq_iff set_incoming_foreign_keys_def cached_incoming_def)

subsection \<open>A fresh listing\<close>

text \<open>A listing without a name twice: its nodes are those names, in their order, each with what was
  held below it.\<close>

lemma relist_fresh:
  assumes "distinct (map name infos)" "\<forall>i \<in> set infos. name i \<notin> fst ` set fresh"
  shows "relist name again new infos previous fresh
    = fresh @ map (\<lambda>i. (name i, case map_of previous (name i) of Some n \<Rightarrow> again i n | None \<Rightarrow> new i)) infos"
  using assms
proof (induction infos arbitrary: previous fresh)
  case (Cons i infos)
  let ?n = "case map_of previous (name i) of Some n \<Rightarrow> again i n | None \<Rightarrow> new i"
  have append: "k \<notin> fst ` set m \<Longrightarrow> index_map_insert k v m = m @ [(k, v)]" for k v and m :: "(string \<times> 'b) list"
    by (induction m) auto
  have "relist name again new (i # infos) previous fresh
      = relist name again new infos (AList.delete (name i) previous) (fresh @ [(name i, ?n)])"
    using Cons.prems by (simp add: append)
  also have "\<dots> = (fresh @ [(name i, ?n)]) @ map (\<lambda>j. (name j,
      case map_of (AList.delete (name i) previous) (name j) of Some n \<Rightarrow> again j n | None \<Rightarrow> new j)) infos"
    using Cons.prems by (intro Cons.IH) (auto, metis imageI)
  also have "map (\<lambda>j. (name j,
      case map_of (AList.delete (name i) previous) (name j) of Some n \<Rightarrow> again j n | None \<Rightarrow> new j)) infos
    = map (\<lambda>j. (name j, case map_of previous (name j) of Some n \<Rightarrow> again j n | None \<Rightarrow> new j)) infos"
  proof (intro map_cong refl)
    fix j
    assume "j \<in> set infos"
    with Cons.prems(1) have "name j \<noteq> name i" by (auto simp: image_iff)
    then show "(name j, case map_of (AList.delete (name i) previous) (name j) of Some n \<Rightarrow> again j n | None \<Rightarrow> new j)
        = (name j, case map_of previous (name j) of Some n \<Rightarrow> again j n | None \<Rightarrow> new j)"
      by simp
  qed
  finally show ?case by simp
qed simp

lemma map_of_listed:
  assumes "distinct (map name infos)" "i \<in> set infos"
  shows "map_of (map (\<lambda>j. (name j, f j)) infos) (name i) = Some (f i)"
  using assms by (intro map_of_is_SomeI) (auto simp: comp_def)

lemma map_of_unlisted: "k \<notin> name ` set infos \<Longrightarrow> map_of (map (\<lambda>j. (name j, f j)) infos) k = None"
  by (auto simp: map_of_eq_None_iff)

end
