(* ===== verification/Catalog_Scopes.thy ===== *)
theory Catalog_Scopes
  imports Catalog_Cache
begin

text \<open>
  The subtrees of the cache (\<open>crates/oxyn-catalog/src/cache.rs\<close>, \<open>cache/listing.rs\<close>): which are to be
  reread, what an invalidation, a removal and an eviction do to one, which listings exist, and the
  bound on the definitions held.
\<close>

datatype catalog_scope =
    TreeServer
  | TreeCatalog catalog_path
  | TreeNamespace catalog_path
  | TreeRelation catalog_path
  | TreeConstraints catalog_path
  | TreeIncoming catalog_path
  | TreeDefinition catalog_path

definition scope_of :: "catalog_path \<Rightarrow> catalog_scope" where
  "scope_of p =
     (case path_level p of LevelServer \<Rightarrow> TreeServer | LevelCatalog \<Rightarrow> TreeCatalog p
      | LevelNamespace \<Rightarrow> TreeNamespace p | LevelRelation \<Rightarrow> TreeRelation p)"

fun scope_path :: "catalog_scope \<Rightarrow> catalog_path option" where
  "scope_path TreeServer = None"
| "scope_path (TreeCatalog p) = Some p"
| "scope_path (TreeNamespace p) = Some p"
| "scope_path (TreeRelation p) = Some p"
| "scope_path (TreeConstraints p) = Some p"
| "scope_path (TreeIncoming p) = Some p"
| "scope_path (TreeDefinition p) = Some p"

text \<open>The rank of the level a scope targets, in the order of \<open>CatalogLevel\<close>.\<close>

fun scope_level :: "catalog_scope \<Rightarrow> nat" where
  "scope_level TreeServer = 0"
| "scope_level (TreeCatalog p) = 1"
| "scope_level (TreeNamespace p) = 2"
| "scope_level (TreeRelation p) = 3"
| "scope_level (TreeConstraints p) = 3"
| "scope_level (TreeIncoming p) = 3"
| "scope_level (TreeDefinition p) = 3"

fun is_narrow :: "catalog_scope \<Rightarrow> bool" where
  "is_narrow (TreeConstraints p) = True"
| "is_narrow (TreeIncoming p) = True"
| "is_narrow (TreeDefinition p) = True"
| "is_narrow s = False"

definition scope_contains :: "catalog_scope \<Rightarrow> catalog_scope \<Rightarrow> bool" where
  "scope_contains s t =
     (if is_narrow s then s = t
      else (case scope_path s of
          None \<Rightarrow> True
        | Some prefix \<Rightarrow>
            (case scope_path t of
               None \<Rightarrow> False
             | Some target \<Rightarrow> \<not> scope_level t < scope_level s \<and> path_starts_with target prefix)))"

subsection \<open>Freshness and staleness of a subtree\<close>

definition relation_freshness :: "(rel_node \<Rightarrow> freshness) \<Rightarrow> catalog_path \<Rightarrow> catalog_cache \<Rightarrow> freshness" where
  "relation_freshness f p c = (case relation_node p c of None \<Rightarrow> Never | Some n \<Rightarrow> f n)"

fun scope_freshness :: "catalog_scope \<Rightarrow> catalog_cache \<Rightarrow> freshness" where
  "scope_freshness TreeServer c = ca_freshness (ch_catalogs c)"
| "scope_freshness (TreeCatalog p) c =
     (case catalog_node (cp_catalog p) c of None \<Rightarrow> Never | Some cat \<Rightarrow> ca_freshness (cn_namespaces cat))"
| "scope_freshness (TreeNamespace p) c =
     (case namespace_node p c of None \<Rightarrow> Never | Some ns \<Rightarrow> ca_freshness (nn_relations ns))"
| "scope_freshness (TreeRelation p) c = relation_freshness (\<lambda>n. ca_freshness (rn_detail n)) p c"
| "scope_freshness (TreeConstraints p) c = relation_freshness (\<lambda>n. ca_freshness (rn_constraints n)) p c"
| "scope_freshness (TreeIncoming p) c = relation_freshness (\<lambda>n. ca_freshness (rn_incoming n)) p c"
| "scope_freshness (TreeDefinition p) c = relation_freshness (\<lambda>n. ca_freshness (rn_definition n)) p c"

definition stale_in_relation :: "int \<Rightarrow> duration \<Rightarrow> rel_node \<Rightarrow> catalog_scope list" where
  "stale_in_relation now ttl n =
     (let p = relation_ref_path (rn_summary n) in
      if relation_is_stale_at now ttl n then [TreeRelation p]
      else (if is_stale_at now ttl (ca_freshness (rn_constraints n)) then [TreeConstraints p] else [])
         @ (if is_stale_at now ttl (ca_freshness (rn_incoming n)) then [TreeIncoming p] else [])
         @ (if is_stale_at now ttl (ca_freshness (rn_definition n)) then [TreeDefinition p] else []))"

definition namespace_at :: "string \<Rightarrow> string \<Rightarrow> catalog_path" where
  "namespace_at ck nk = \<lparr>cp_catalog = from_key ck, cp_namespace = from_key nk, cp_relation = None\<rparr>"

definition stale_in_namespace ::
  "int \<Rightarrow> duration \<Rightarrow> string \<Rightarrow> string \<times> ns_node \<Rightarrow> catalog_scope list" where
  "stale_in_namespace now ttl ck e =
     (case e of (nk, ns) \<Rightarrow>
        if is_stale_at now ttl (ca_freshness (nn_relations ns)) then [TreeNamespace (namespace_at ck nk)]
        else concat (map (\<lambda>(rk, n). stale_in_relation now ttl n) (ca_value (nn_relations ns))))"

definition stale_in_catalog :: "int \<Rightarrow> duration \<Rightarrow> string \<times> cat_node \<Rightarrow> catalog_scope list" where
  "stale_in_catalog now ttl e =
     (case e of (ck, cat) \<Rightarrow>
        if is_stale_at now ttl (ca_freshness (cn_namespaces cat)) then [TreeCatalog (only_catalog (from_key ck))]
        else concat (map (stale_in_namespace now ttl ck) (ca_value (cn_namespaces cat))))"

definition stale_at :: "int \<Rightarrow> duration \<Rightarrow> catalog_cache \<Rightarrow> catalog_scope list" where
  "stale_at now ttl c =
     (if is_stale_at now ttl (ca_freshness (ch_server c)) \<or> is_stale_at now ttl (ca_freshness (ch_catalogs c))
      then [TreeServer]
      else concat (map (stale_in_catalog now ttl) (ca_value (ch_catalogs c))))"

subsection \<open>Invalidation\<close>

definition over_entries :: "('a \<Rightarrow> 'a) \<Rightarrow> (string \<times> 'a) list \<Rightarrow> (string \<times> 'a) list" where
  "over_entries f m = map (\<lambda>(k, v). (k, f v)) m"

definition invalidate_namespace_node :: "ns_node \<Rightarrow> ns_node" where
  "invalidate_namespace_node ns =
     ns\<lparr>nn_relations := map_value (over_entries invalidate_relation) (invalidate_cached (nn_relations ns))\<rparr>"

definition invalidate_catalog_node :: "cat_node \<Rightarrow> cat_node" where
  "invalidate_catalog_node cat =
     cat\<lparr>cn_namespaces := map_value (over_entries invalidate_namespace_node) (invalidate_cached (cn_namespaces cat))\<rparr>"

fun invalidate :: "catalog_scope \<Rightarrow> catalog_cache \<Rightarrow> catalog_cache" where
  "invalidate TreeServer c =
     c\<lparr>ch_server := invalidate_cached (ch_server c), ch_resolution := invalidate_cached (ch_resolution c),
       ch_catalogs := map_value (over_entries invalidate_catalog_node) (invalidate_cached (ch_catalogs c))\<rparr>"
| "invalidate (TreeCatalog p) c = on_catalog (cp_catalog p) invalidate_catalog_node c"
| "invalidate (TreeNamespace p) c = on_namespace p invalidate_namespace_node c"
| "invalidate (TreeConstraints p) c =
     on_relation p (\<lambda>n. n\<lparr>rn_constraints := invalidate_cached (rn_constraints n)\<rparr>) c"
| "invalidate (TreeIncoming p) c =
     on_relation p (\<lambda>n. n\<lparr>rn_incoming := invalidate_cached (rn_incoming n)\<rparr>) c"
| "invalidate (TreeDefinition p) c =
     on_relation p (\<lambda>n. n\<lparr>rn_definition := invalidate_cached (rn_definition n)\<rparr>) c"
| "invalidate (TreeRelation p) c = on_relation p invalidate_relation c"

definition invalidate_all :: "catalog_cache \<Rightarrow> catalog_cache" where
  "invalidate_all = invalidate TreeServer"

subsection \<open>Removal and eviction\<close>

fun forget_scope :: "catalog_scope \<Rightarrow> catalog_cache \<Rightarrow> catalog_cache" where
  "forget_scope TreeServer c = cache_new"
| "forget_scope (TreeCatalog p) c =
     c\<lparr>ch_catalogs := invalidate_cached (map_value (AList.delete (map_key (cp_catalog p))) (ch_catalogs c))\<rparr>"
| "forget_scope (TreeNamespace p) c =
     on_catalog (cp_catalog p)
       (\<lambda>cat. cat\<lparr>cn_namespaces :=
          invalidate_cached (map_value (AList.delete (map_key (cp_namespace p))) (cn_namespaces cat))\<rparr>) c"
| "forget_scope (TreeConstraints p) c = on_relation p (\<lambda>n. n\<lparr>rn_constraints := unread None\<rparr>) c"
| "forget_scope (TreeIncoming p) c = on_relation p (\<lambda>n. n\<lparr>rn_incoming := unread None\<rparr>) c"
| "forget_scope (TreeDefinition p) c = on_relation p (\<lambda>n. n\<lparr>rn_definition := unread None\<rparr>) c"
| "forget_scope (TreeRelation p) c =
     (case cp_relation p of
        None \<Rightarrow> c
      | Some name \<Rightarrow> on_namespace p
          (\<lambda>ns. ns\<lparr>nn_relations := invalidate_cached (map_value (AList.delete name) (nn_relations ns))\<rparr>) c)"

definition evict_details :: "rel_node \<Rightarrow> rel_node" where
  "evict_details n = n\<lparr>rn_detail := unread None, rn_indexes := unread None, rn_foreign_keys := unread None\<rparr>"

definition holds_narrow :: "rel_node \<Rightarrow> bool" where
  "holds_narrow n \<longleftrightarrow> ca_value (rn_constraints n) \<noteq> None \<or> ca_value (rn_incoming n) \<noteq> None
     \<or> ca_value (rn_definition n) \<noteq> None"

definition evict_in_namespace :: "string \<Rightarrow> ns_node \<Rightarrow> ns_node" where
  "evict_in_namespace name ns =
     (case map_of (ca_value (nn_relations ns)) name of
        None \<Rightarrow> ns
      | Some n \<Rightarrow>
          if ca_freshness (nn_relations ns) = Never \<and> \<not> holds_narrow n
          then ns\<lparr>nn_relations := map_value (AList.delete name) (nn_relations ns)\<rparr>
          else on_relation_in name evict_details ns)"

fun evict_scope :: "catalog_scope \<Rightarrow> catalog_cache \<Rightarrow> catalog_cache" where
  "evict_scope TreeServer c = cache_new"
| "evict_scope (TreeCatalog p) c =
     (if ca_freshness (ch_catalogs c) = Never
      then c\<lparr>ch_catalogs := map_value (AList.delete (map_key (cp_catalog p))) (ch_catalogs c)\<rparr>
      else on_catalog (cp_catalog p) (\<lambda>cat. cat\<lparr>cn_namespaces := unread []\<rparr>) c)"
| "evict_scope (TreeNamespace p) c =
     on_catalog (cp_catalog p)
       (\<lambda>cat. if ca_freshness (cn_namespaces cat) = Never
          then cat\<lparr>cn_namespaces := map_value (AList.delete (map_key (cp_namespace p))) (cn_namespaces cat)\<rparr>
          else on_namespace_in (cp_namespace p) (\<lambda>ns. ns\<lparr>nn_relations := unread []\<rparr>) cat) c"
| "evict_scope (TreeRelation p) c =
     (case cp_relation p of None \<Rightarrow> c | Some name \<Rightarrow> on_namespace p (evict_in_namespace name) c)"
| "evict_scope s c = forget_scope s c"

subsection \<open>The listings of a source\<close>

definition listing_scopes :: "catalog_cache \<Rightarrow> catalog_scope list" where
  "listing_scopes c =
     (case ca_value (ch_server c) of
        None \<Rightarrow> []
      | Some server \<Rightarrow>
          (let schemas = caps_contains (si_capabilities server) (flag 0);
               marked = list_ex (\<lambda>(ck, cat). case cn_info cat of Some i \<Rightarrow> cr_is_default i | None \<Rightarrow> False)
                          (ca_value (ch_catalogs c)) in
           concat (map (\<lambda>(ck, cat).
             if marked \<and> (case cn_info cat of Some i \<Rightarrow> \<not> cr_is_default i | None \<Rightarrow> False) then []
             else if \<not> schemas then [TreeNamespace (only_catalog (from_key ck))]
             else TreeCatalog (only_catalog (from_key ck))
               # concat (map (\<lambda>(nk, ns).
                   if (case nn_info ns of Some i \<Rightarrow> nr_is_system i | None \<Rightarrow> False) then []
                   else [TreeNamespace (namespace_at ck nk)]) (ca_value (cn_namespaces cat))))
             (ca_value (ch_catalogs c)))))"

definition unlisted_count :: "catalog_cache \<Rightarrow> nat" where
  "unlisted_count c = length (filter (\<lambda>s. scope_freshness s c = Never) (listing_scopes c))"

subsection \<open>The bound on definitions\<close>

definition max_definitions :: nat where "max_definitions = 16"

definition max_definition_bytes :: nat where "max_definition_bytes = 16 * 1024 * 1024"

text \<open>Sums of lengths saturate at \<open>usize::MAX\<close>.\<close>

definition sat_total :: "nat list \<Rightarrow> nat" where
  "sat_total ns = min (sum_list ns) (2 ^ 64 - 1)"

definition definition_bytes :: "relation_definition \<Rightarrow> nat" where
  "definition_bytes d = sat_total (length (def_sql d) # map length (def_notes d))"

text \<open>The definitions held, in the order of the tree: where, read when, how large.\<close>

definition held_definition :: "rel_node \<Rightarrow> (catalog_path \<times> int option \<times> nat) option" where
  "held_definition n =
     map_option (\<lambda>d. (relation_ref_path (rn_summary n), fetched_at (ca_freshness (rn_definition n)),
       definition_bytes d)) (ca_value (rn_definition n))"

definition held_definitions :: "catalog_cache \<Rightarrow> (catalog_path \<times> int option \<times> nat) list" where
  "held_definitions c = List.map_filter held_definition (all_nodes c)"

definition definitions_within :: "catalog_cache \<Rightarrow> bool" where
  "definitions_within c \<longleftrightarrow> length (held_definitions c) \<le> max_definitions
     \<and> sat_total (map (\<lambda>h. snd (snd h)) (held_definitions c)) \<le> max_definition_bytes"

text \<open>\<open>Iterator::min_by_key\<close>: the first of the least.\<close>

fun min_by_key :: "('a \<Rightarrow> 'k::linorder) \<Rightarrow> 'a list \<Rightarrow> 'a option" where
  "min_by_key f [] = None"
| "min_by_key f (x # xs) =
     (case min_by_key f xs of None \<Rightarrow> Some x | Some y \<Rightarrow> if f x \<le> f y then Some x else Some y)"

definition oldest_definition :: "catalog_path \<Rightarrow> catalog_cache \<Rightarrow> catalog_path option" where
  "oldest_definition protected c =
     map_option fst (min_by_key (\<lambda>h. fst (snd h)) (filter (\<lambda>h. fst h \<noteq> protected) (held_definitions c)))"

text \<open>One turn of the loop, and the loop: \<open>None\<close> is a loop that does not end.\<close>

definition goes_on :: "catalog_path \<Rightarrow> catalog_cache \<Rightarrow> bool" where
  "goes_on protected c \<longleftrightarrow> \<not> definitions_within c
     \<and> (case oldest_definition protected c of None \<Rightarrow> False | Some p \<Rightarrow> relation_node p c \<noteq> None)"

definition drop_oldest :: "catalog_path \<Rightarrow> catalog_cache \<Rightarrow> catalog_cache" where
  "drop_oldest protected c =
     (case oldest_definition protected c of
        None \<Rightarrow> c
      | Some p \<Rightarrow> on_relation p (\<lambda>n. n\<lparr>rn_definition := unread None\<rparr>) c)"

definition evict_definitions :: "catalog_path \<Rightarrow> catalog_cache \<Rightarrow> catalog_cache option" where
  "evict_definitions protected = while_option (goes_on protected) (drop_oldest protected)"

definition set_definition ::
  "int \<Rightarrow> catalog_path \<Rightarrow> relation_definition \<Rightarrow> catalog_cache \<Rightarrow> (cache_error + catalog_cache) option" where
  "set_definition now p d c =
     (case on_known p (\<lambda>n. n\<lparr>rn_definition := read_now now (Some d) (rn_definition n)\<rparr>) c of
        Inl e \<Rightarrow> Some (Inl e)
      | Inr c1 \<Rightarrow> map_option Inr (evict_definitions p c1))"

end
