(* ===== verification/Catalog_Laws.thy ===== *)
theory Catalog_Laws
  imports Catalog_Scopes
begin

text \<open>
  The properties of the catalog cache: the invariant that a node lies where its path says, what each
  operation changes and keeps, the minimality of a refresh, the bound on the definitions held.
\<close>

subsection \<open>Nodes created on the way\<close>

lemma catalog_node_ensure_catalog:
  "catalog_node j (ensure_catalog i c)
     = (if map_key j = map_key i \<and> catalog_node i c = None
        then Some \<lparr>cn_info = map_option catalog_ref_validated i, cn_namespaces = unread []\<rparr>
        else catalog_node j c)"
  by (simp add: catalog_node_def ensure_catalog_def map_of_entry_or)

lemma catalog_key: "map_key j = map_key i \<Longrightarrow> catalog_node j c = catalog_node i c"
  by (simp add: catalog_node_def)

lemma namespace_node_ensure_catalog: "namespace_node q (ensure_catalog i c) = namespace_node q c"
proof (cases "map_key (cp_catalog q) = map_key i \<and> catalog_node i c = None")
  case True
  then have "catalog_node (cp_catalog q) c = None" by (metis catalog_key)
  with True show ?thesis by (simp add: namespace_node_def catalog_node_ensure_catalog namespace_in_def)
qed (auto simp: namespace_node_def catalog_node_ensure_catalog)

lemma namespace_key: "map_key j = map_key i \<Longrightarrow> namespace_in j cat = namespace_in i cat"
  by (simp add: namespace_in_def)

lemma namespace_node_same: "same_namespace q p \<Longrightarrow> namespace_node q c = namespace_node p c"
  unfolding same_namespace_def namespace_node_def
  by (cases "catalog_node (cp_catalog p) c")
    (simp_all add: catalog_key [of "cp_catalog q" "cp_catalog p"] namespace_key [of "cp_namespace q" "cp_namespace p"])

lemma catalog_node_ensured: "catalog_node i (ensure_catalog i c) \<noteq> None"
  by (simp add: catalog_node_ensure_catalog)

lemma namespace_node_ensure_namespace:
  "namespace_node q (ensure_namespace p c)
     = (if same_namespace q p \<and> namespace_node p c = None
        then Some \<lparr>nn_info = map_option (namespace_ref_validated (only_catalog (cp_catalog p))) (cp_namespace p),
                  nn_relations = unread []\<rparr>
        else namespace_node q c)"
proof -
  let ?c = "ensure_catalog (cp_catalog p) c"
  obtain cat where cat: "catalog_node (cp_catalog p) ?c = Some cat" using catalog_node_ensured by blast
  have here: "namespace_node p c = namespace_in (cp_namespace p) cat"
    using cat namespace_node_ensure_catalog [of p "cp_catalog p" c] by (simp add: namespace_node_def)
  show ?thesis
  proof (cases "map_key (cp_catalog q) = map_key (cp_catalog p)")
    case True
    then have "catalog_node (cp_catalog q) ?c = Some cat" using cat by (simp add: catalog_node_def)
    then have "namespace_node q c = namespace_in (cp_namespace q) cat"
      using namespace_node_ensure_catalog [of q "cp_catalog p" c] by (simp add: namespace_node_def)
    with True cat here show ?thesis
      by (simp add: ensure_namespace_def namespace_node_def [of q "on_catalog _ _ _"] catalog_node_on_catalog
          namespace_in_def map_of_entry_or same_namespace_def)
  next
    case False
    with namespace_node_ensure_catalog [of q "cp_catalog p" c] show ?thesis
      by (simp add: ensure_namespace_def namespace_node_def catalog_node_on_catalog same_namespace_def)
  qed
qed

lemma relation_node_ensure_namespace: "relation_node q (ensure_namespace p c) = relation_node q c"
  by (auto simp: relation_node_def namespace_node_ensure_namespace namespace_node_same split: option.split)

lemma relation_node_ensure_relation:
  assumes "cp_relation p = Some name"
  shows "relation_node q (ensure_relation p name kind c)
    = (if same_relation q p \<and> relation_node p c = None
       then Some (relation_node_new (relation_ref_validated (p\<lparr>cp_relation := None\<rparr>) name kind))
       else relation_node q c)"
proof -
  obtain ns where ns: "namespace_node p (ensure_namespace p c) = Some ns"
    by (cases "namespace_node p c") (auto simp: namespace_node_ensure_namespace same_namespace_def)
  have held: "relation_node q c = map_of (ca_value (nn_relations ns)) m"
    if "same_namespace q p" "cp_relation q = Some m" for q m
    using ns that namespace_node_same [of q p "ensure_namespace p c"]
      relation_node_ensure_namespace [of q p c, symmetric]
    by (simp add: relation_node_def)
  have p: "relation_node p c = map_of (ca_value (nn_relations ns)) name"
    by (rule held) (simp_all add: assms same_namespace_def)
  show ?thesis
  proof (cases "same_namespace q p")
    case True
    with ns p held [OF True] show ?thesis
      by (cases "cp_relation q")
        (auto simp: relation_node_def [of q] ensure_relation_def namespace_node_on_namespace map_of_entry_or
          same_relation_def assms)
  next
    case False
    then show ?thesis
      by (simp add: relation_node_def ensure_relation_def namespace_node_on_namespace same_relation_def
          namespace_node_ensure_namespace split: option.split)
  qed
qed

text \<open>A description is read back, its types cut, where it was published and nowhere else.\<close>

lemma set_relation_get:
  assumes "set_relation now p r c = Inr c'"
  shows "cached_relation q c' = (if same_relation q p
     then Some (r\<lparr>rel_fields := bound_fields (rel_fields r)\<rparr>) else cached_relation q c)"
proof -
  obtain name where name: "cp_relation p = Some name"
    and c': "c' = on_relation p (\<lambda>n. n\<lparr>rn_detail := read_now now
       (Some (r\<lparr>rel_fields := bound_fields (rel_fields r)\<rparr>)) (rn_detail n)\<rparr>) (ensure_relation p name (rel_kind r) c)"
    using assms by (auto simp: set_relation_def split: option.splits)
  have "same_relation p p" by (simp add: same_relation_def same_namespace_def)
  then show ?thesis
    by (auto simp: c' cached_relation_def relation_node_on_relation relation_node_ensure_relation [OF name]
        relation_node_new_def split: option.splits)
qed

text \<open>Relisting a schema: the relations that remain keep all that was read of them, the others go, and
  no other schema is touched.\<close>

lemma set_relations_nodes:
  assumes set: "set_relations now p infos c = Inr c'" and once: "distinct (map rr_name infos)"
  shows "relation_node q c' =
    (if same_namespace q p then
       (case find (\<lambda>i. cp_relation q = Some (rr_name i)) infos of
          None \<Rightarrow> None
        | Some i \<Rightarrow> (case relation_node q c of
              None \<Rightarrow> Some (relation_node_new (i\<lparr>rr_parent := p\<rparr>))
            | Some n \<Rightarrow> Some (n\<lparr>rn_summary := i\<lparr>rr_parent := p\<rparr>\<rparr>)))
     else relation_node q c)"
proof -
  let ?infos = "map (\<lambda>i. i\<lparr>rr_parent := p\<rparr>) infos"
  let ?again = "\<lambda>i n. n\<lparr>rn_summary := i\<rparr>"
  obtain ns where ns: "namespace_node p (ensure_namespace p c) = Some ns"
    by (cases "namespace_node p c") (auto simp: namespace_node_ensure_namespace same_namespace_def)
  have c': "c' = on_namespace p (\<lambda>ns. ns\<lparr>nn_relations := read_now now
       (relist rr_name ?again relation_node_new ?infos (ca_value (nn_relations ns)) []) (nn_relations ns)\<rparr>)
       (ensure_namespace p c)"
    using set by (auto simp: set_relations_def split: if_splits)
  let ?new = "\<lambda>i. case map_of (ca_value (nn_relations ns)) (rr_name i) of
      Some n \<Rightarrow> ?again (i\<lparr>rr_parent := p\<rparr>) n | None \<Rightarrow> relation_node_new (i\<lparr>rr_parent := p\<rparr>)"
  have listed: "relist rr_name ?again relation_node_new ?infos (ca_value (nn_relations ns)) []
      = map (\<lambda>i. (rr_name i, ?new i)) infos"
    using once by (subst relist_fresh) (auto simp: comp_def)
  have found: "map_of (map (\<lambda>i. (rr_name i, ?new i)) infos) m
      = map_option ?new (find (\<lambda>i. m = rr_name i) infos)" for m
    using once by (induction infos) auto
  show ?thesis
  proof (cases "same_namespace q p")
    case True
    have node: "relation_node q c = map_of (ca_value (nn_relations ns)) m" if "cp_relation q = Some m" for m
      using ns that namespace_node_same [OF True, of "ensure_namespace p c"]
        relation_node_ensure_namespace [of q p c, symmetric] by (simp add: relation_node_def)
    show ?thesis
    proof (cases "cp_relation q")
      case None
      moreover have "find (\<lambda>i. None = Some (rr_name i)) infos = None" by (simp add: find_None_iff)
      ultimately show ?thesis by (simp add: relation_node_def del: option.distinct)
    next
      case (Some m)
      have "relation_node q c' = map_option ?new (find (\<lambda>i. m = rr_name i) infos)"
        using True Some ns by (simp add: c' relation_node_def namespace_node_on_namespace listed found)
      moreover have "m = rr_name i" if "find (\<lambda>i. m = rr_name i) infos = Some i" for i
        using that by (auto simp: find_Some_iff)
      ultimately show ?thesis
        using True Some node [OF Some] by (cases "find (\<lambda>i. m = rr_name i) infos") (simp_all split: option.split)
    qed
  next
    case False
    then show ?thesis
      by (simp add: c' relation_node_def namespace_node_on_namespace namespace_node_ensure_namespace
          split: option.split)
  qed
qed

text \<open>On a source without catalogs, the listing of the catalogs is empty: it removes the node of the
  missing level, and the namespaces listed after it find nothing left of what was read.\<close>

lemma empty_catalog_listing_forgets:
  "relation_node q (set_namespaces now None infos (set_catalogs now [] c)) = None"
proof -
  have empty: "ca_value (ch_catalogs (set_catalogs now [] c)) = []" by (simp add: set_catalogs_def)
  have fresh: "relation_node q d = None"
    if "\<forall>(ck, cat) \<in> set (ca_value (ch_catalogs d)). \<forall>(nk, ns) \<in> set (ca_value (cn_namespaces cat)).
          ca_value (nn_relations ns) = []" for d
  proof (rule ccontr)
    assume "relation_node q d \<noteq> None"
    then obtain cat ns n m where "catalog_node (cp_catalog q) d = Some cat"
      "namespace_in (cp_namespace q) cat = Some ns" "map_of (ca_value (nn_relations ns)) m = Some n"
      by (auto simp: relation_node_def namespace_node_def split: option.splits bind_splits)
    then have "(map_key (cp_catalog q), cat) \<in> set (ca_value (ch_catalogs d))"
      "(map_key (cp_namespace q), ns) \<in> set (ca_value (cn_namespaces cat))" "ca_value (nn_relations ns) \<noteq> []"
      by (auto simp: catalog_node_def namespace_in_def dest: map_of_SomeD)
    with that show False by blast
  qed
  have "\<forall>(k, ns) \<in> set (relist nr_name (\<lambda>i n. n\<lparr>nn_info := Some i\<rparr>)
      (\<lambda>i. \<lparr>nn_info = Some i, nn_relations = unread []\<rparr>) us [] fresh). ca_value (nn_relations ns) = []"
    if "\<forall>(k, ns) \<in> set fresh. ca_value (nn_relations ns) = []" for us fresh
    using that
  proof (induction us arbitrary: fresh)
    case (Cons i us)
    have put: "set (index_map_insert k v m) \<subseteq> insert (k, v) (set m)" for k and v :: ns_node and m
      by (induction m) (auto split: if_splits)
    let ?new = "\<lparr>nn_info = Some i, nn_relations = unread []\<rparr>"
    have "\<forall>(k, ns) \<in> set (index_map_insert (nr_name i) ?new fresh). ca_value (nn_relations ns) = []"
      using put [of "nr_name i" ?new fresh] Cons.prems by fastforce
    from Cons.IH [OF this] show ?case by simp
  qed simp
  from this [of "[]" "map (\<lambda>i. i\<lparr>nr_parent := only_catalog None\<rparr>) infos"] show ?thesis
    by (intro fresh) (simp add: set_namespaces_def on_catalog_def ensure_catalog_def empty entry_or_def)
qed

subsection \<open>Invalidating is not forgetting\<close>

text \<open>What the cache holds, without when it was read.\<close>

definition bare_relation :: "rel_node \<Rightarrow> rel_node" where
  "bare_relation n =
     \<lparr>rn_summary = rn_summary n, rn_detail = unread (ca_value (rn_detail n)),
      rn_indexes = unread (ca_value (rn_indexes n)), rn_foreign_keys = unread (ca_value (rn_foreign_keys n)),
      rn_constraints = unread (ca_value (rn_constraints n)), rn_incoming = unread (ca_value (rn_incoming n)),
      rn_definition = unread (ca_value (rn_definition n))\<rparr>"

definition bare_namespace :: "ns_node \<Rightarrow> ns_node" where
  "bare_namespace ns =
     \<lparr>nn_info = nn_info ns, nn_relations = unread (over_entries bare_relation (ca_value (nn_relations ns)))\<rparr>"

definition bare_catalog :: "cat_node \<Rightarrow> cat_node" where
  "bare_catalog cat =
     \<lparr>cn_info = cn_info cat, cn_namespaces = unread (over_entries bare_namespace (ca_value (cn_namespaces cat)))\<rparr>"

definition bare :: "catalog_cache \<Rightarrow> catalog_cache" where
  "bare c = \<lparr>ch_server = unread (ca_value (ch_server c)),
     ch_catalogs = unread (over_entries bare_catalog (ca_value (ch_catalogs c))),
     ch_resolution = unread (ca_value (ch_resolution c))\<rparr>"

lemma over_entries_absorb:
  assumes "\<And>v. g (f v) = g v"
  shows "over_entries g (AList.map_entry k f m) = over_entries g m"
    "over_entries g (over_entries f m) = over_entries g m"
  using assms by (induction m) (auto simp: over_entries_def)

lemma map_of_over_entries: "map_of (over_entries f m) k = map_option f (map_of m k)"
  by (induction m) (auto simp: over_entries_def)

lemma bare_relation_invalidate: "bare_relation (invalidate_relation n) = bare_relation n"
  by (simp add: bare_relation_def invalidate_relation_def)

lemma bare_namespace_invalidate: "bare_namespace (invalidate_namespace_node ns) = bare_namespace ns"
  by (simp add: bare_namespace_def invalidate_namespace_node_def over_entries_absorb(2) bare_relation_invalidate)

lemma bare_catalog_invalidate: "bare_catalog (invalidate_catalog_node cat) = bare_catalog cat"
  by (simp add: bare_catalog_def invalidate_catalog_node_def over_entries_absorb(2) bare_namespace_invalidate)

lemma bare_on_catalog: "(\<And>cat. bare_catalog (f cat) = bare_catalog cat) \<Longrightarrow> bare (on_catalog i f c) = bare c"
  by (simp add: bare_def on_catalog_def over_entries_absorb(1))

lemma bare_on_namespace: "(\<And>ns. bare_namespace (f ns) = bare_namespace ns) \<Longrightarrow> bare (on_namespace p f c) = bare c"
  unfolding on_namespace_def
  by (rule bare_on_catalog) (simp add: bare_catalog_def on_namespace_in_def over_entries_absorb(1))

lemma bare_on_relation: "(\<And>n. bare_relation (f n) = bare_relation n) \<Longrightarrow> bare (on_relation p f c) = bare c"
  unfolding on_relation_def
  by (auto split: option.split intro!: bare_on_namespace
      simp: bare_namespace_def on_relation_in_def over_entries_absorb(1))

lemma invalidate_keeps_what_is_held: "bare (invalidate s c) = bare c"
proof (cases s)
  case TreeServer
  then show ?thesis by (simp add: bare_def over_entries_absorb(2) bare_catalog_invalidate)
qed (auto intro!: bare_on_catalog bare_on_namespace bare_on_relation bare_catalog_invalidate
    bare_namespace_invalidate bare_relation_invalidate simp: bare_relation_def)

text \<open>What an invalidation reaches: its node and the nodes below. A level the path leaves out is the
  node of the missing level, not any node.\<close>

fun covers_scope :: "catalog_scope \<Rightarrow> catalog_scope \<Rightarrow> bool" where
  "covers_scope TreeServer t = True"
| "covers_scope (TreeCatalog p) t =
     (case scope_path t of None \<Rightarrow> False | Some q \<Rightarrow> map_key (cp_catalog q) = map_key (cp_catalog p))"
| "covers_scope (TreeNamespace p) t =
     (2 \<le> scope_level t \<and> (case scope_path t of None \<Rightarrow> False | Some q \<Rightarrow> same_namespace q p))"
| "covers_scope (TreeRelation p) t =
     (3 \<le> scope_level t \<and> (case scope_path t of None \<Rightarrow> False | Some q \<Rightarrow> same_relation q p))"
| "covers_scope (TreeConstraints p) t = (case t of TreeConstraints q \<Rightarrow> same_relation q p | _ \<Rightarrow> False)"
| "covers_scope (TreeIncoming p) t = (case t of TreeIncoming q \<Rightarrow> same_relation q p | _ \<Rightarrow> False)"
| "covers_scope (TreeDefinition p) t = (case t of TreeDefinition q \<Rightarrow> same_relation q p | _ \<Rightarrow> False)"

lemma invalidated_Never [simp]: "invalidated Never = Never"
  by (simp add: invalidated_def is_known_def)

lemma relation_in_invalidated:
  "map_of (ca_value (nn_relations (invalidate_namespace_node ns))) m
     = map_option invalidate_relation (map_of (ca_value (nn_relations ns)) m)"
  by (simp add: invalidate_namespace_node_def map_of_over_entries)

lemma namespace_in_invalidated:
  "namespace_in i (invalidate_catalog_node cat) = map_option invalidate_namespace_node (namespace_in i cat)"
  by (simp add: namespace_in_def invalidate_catalog_node_def map_of_over_entries)

lemma invalidated_freshness [simp]:
  "ca_freshness (cn_namespaces (invalidate_catalog_node cat)) = invalidated (ca_freshness (cn_namespaces cat))"
  "ca_freshness (nn_relations (invalidate_namespace_node ns)) = invalidated (ca_freshness (nn_relations ns))"
  by (simp_all add: invalidate_catalog_node_def invalidate_namespace_node_def)

lemma invalidated_relation [simp]:
  "rn_detail (invalidate_relation n) = invalidate_cached (rn_detail n)"
  "rn_constraints (invalidate_relation n) = invalidate_cached (rn_constraints n)"
  "rn_incoming (invalidate_relation n) = invalidate_cached (rn_incoming n)"
  "rn_definition (invalidate_relation n) = invalidate_cached (rn_definition n)"
  by (simp_all add: invalidate_relation_def)

lemma catalog_node_invalidate:
  "catalog_node i (invalidate TreeServer c) = map_option invalidate_catalog_node (catalog_node i c)"
  "catalog_node i (invalidate (TreeCatalog p) c)
     = (if map_key i = map_key (cp_catalog p) then map_option invalidate_catalog_node (catalog_node i c)
        else catalog_node i c)"
  by (auto simp: catalog_node_def map_of_over_entries on_catalog_def map_of_entry)

lemma namespace_node_invalidate:
  "namespace_node q (invalidate TreeServer c) = map_option invalidate_namespace_node (namespace_node q c)"
  "namespace_node q (invalidate (TreeCatalog p) c)
     = (if map_key (cp_catalog q) = map_key (cp_catalog p) then map_option invalidate_namespace_node (namespace_node q c)
        else namespace_node q c)"
  by (cases "catalog_node (cp_catalog q) c";
      simp add: namespace_node_def catalog_node_invalidate namespace_in_invalidated del: invalidate.simps)+

lemma relation_of_invalidated:
  assumes "namespace_node q c' = map_option invalidate_namespace_node (namespace_node q c)"
  shows "relation_node q c' = map_option invalidate_relation (relation_node q c)"
  using assms by (cases "cp_relation q"; cases "namespace_node q c")
    (simp_all add: relation_node_def relation_in_invalidated)

text \<open>The freshness of every node after an invalidation.\<close>

lemma on_namespace_catalogs: "scope_freshness (TreeCatalog q) (on_namespace p f c) = scope_freshness (TreeCatalog q) c"
  using catalog_key [of "cp_catalog q" "cp_catalog p" c]
  by (auto simp: on_namespace_def catalog_node_on_catalog on_namespace_in_def split: option.split)

lemma on_relation_above:
  "scope_freshness (TreeCatalog q) (on_relation p f c) = scope_freshness (TreeCatalog q) c"
  "scope_freshness (TreeNamespace q) (on_relation p f c) = scope_freshness (TreeNamespace q) c"
proof -
  show "scope_freshness (TreeCatalog q) (on_relation p f c) = scope_freshness (TreeCatalog q) c"
    by (auto simp: on_relation_def on_namespace_catalogs simp del: scope_freshness.simps split: option.split)
  show "scope_freshness (TreeNamespace q) (on_relation p f c) = scope_freshness (TreeNamespace q) c"
    using namespace_node_same [of q p c]
    by (auto simp: on_relation_def namespace_node_on_namespace on_relation_in_def split: option.split)
qed

lemma on_server:
  "scope_freshness TreeServer (on_catalog i h c) = scope_freshness TreeServer c"
  "scope_freshness TreeServer (on_namespace p f c) = scope_freshness TreeServer c"
  "scope_freshness TreeServer (on_relation p g c) = scope_freshness TreeServer c"
  by (simp_all add: on_namespace_def on_catalog_def on_relation_def split: option.split)

lemma relation_freshness_on:
  assumes "\<And>n. x (f n) = y (x n)" "y Never = Never"
  shows "relation_freshness x q (on_relation p f c)
    = (if same_relation q p then y (relation_freshness x q c) else relation_freshness x q c)"
  using relation_node_same [of q p c] assms
  by (auto simp: relation_freshness_def relation_node_on_relation split: option.split)

lemma relation_freshness_kept:
  "(\<And>n. x (f n) = x n) \<Longrightarrow> relation_freshness x q (on_relation p f c) = relation_freshness x q c"
  using relation_freshness_on [of x f "\<lambda>v. v"] by simp

lemma relation_freshness_over:
  assumes "relation_node q c' = map_option invalidate_relation (relation_node q c)"
    and "\<And>n. x (invalidate_relation n) = invalidated (x n)"
  shows "relation_freshness x q c' = invalidated (relation_freshness x q c)"
  using assms by (simp add: relation_freshness_def split: option.split)

lemma relation_freshness_cong: "relation_node q c' = relation_node q c \<Longrightarrow> relation_freshness x q c' = relation_freshness x q c"
  by (simp add: relation_freshness_def)

theorem invalidation_marks_its_subtree:
  "scope_freshness t (invalidate s c)
     = (if covers_scope s t then invalidated (scope_freshness t c) else scope_freshness t c)"
proof (cases s)
  case TreeServer
  have rel: "relation_node q (invalidate s c) = map_option invalidate_relation (relation_node q c)" for q
    unfolding TreeServer by (rule relation_of_invalidated, rule namespace_node_invalidate)
  show ?thesis
  proof (cases t)
    case (TreeCatalog q)
    then show ?thesis unfolding \<open>s = TreeServer\<close>
      by (simp add: catalog_node_invalidate del: invalidate.simps split: option.split)
  next
    case (TreeNamespace q)
    then show ?thesis unfolding \<open>s = TreeServer\<close>
      by (simp add: namespace_node_invalidate del: invalidate.simps split: option.split)
  qed (simp_all add: TreeServer relation_freshness_over [OF rel, unfolded TreeServer] del: invalidate.simps,
       simp_all add: invalidate_cached_def)
next
  case (TreeCatalog p)
  have rel: "relation_node q (invalidate s c) = (if map_key (cp_catalog q) = map_key (cp_catalog p)
      then map_option invalidate_relation (relation_node q c) else relation_node q c)" for q
    unfolding TreeCatalog
    by (cases "cp_relation q"; cases "namespace_node q c")
      (simp_all add: relation_node_def namespace_node_invalidate relation_in_invalidated del: invalidate.simps)
  show ?thesis
  proof (cases t)
    case TreeServer
    then show ?thesis by (simp add: \<open>s = TreeCatalog p\<close> on_catalog_def)
  next
    case (TreeCatalog q)
    then show ?thesis unfolding \<open>s = TreeCatalog p\<close>
      by (simp add: catalog_node_invalidate del: invalidate.simps split: option.split)
  next
    case (TreeNamespace q)
    then show ?thesis unfolding \<open>s = TreeCatalog p\<close>
      by (simp add: namespace_node_invalidate del: invalidate.simps split: option.split)
  qed (use rel in \<open>simp_all add: TreeCatalog relation_freshness_def del: invalidate.simps split: option.split\<close>)
next
  case (TreeNamespace p)
  have ns: "namespace_node q (invalidate s c) = (if same_namespace q p
      then map_option invalidate_namespace_node (namespace_node q c) else namespace_node q c)" for q
    using namespace_node_same [of q p c] by (auto simp: TreeNamespace namespace_node_on_namespace)
  have rel: "relation_node q (invalidate s c) = (if same_namespace q p
      then map_option invalidate_relation (relation_node q c) else relation_node q c)" for q
    by (cases "cp_relation q"; cases "namespace_node q c")
      (simp_all add: relation_node_def ns relation_in_invalidated del: invalidate.simps)
  show ?thesis
  proof (cases t)
    case TreeServer
    then show ?thesis by (simp add: \<open>s = TreeNamespace p\<close> on_server [simplified])
  next
    case (TreeCatalog q)
    then show ?thesis by (simp add: \<open>s = TreeNamespace p\<close> on_namespace_catalogs [simplified])
  next
    case (TreeNamespace q)
    then show ?thesis unfolding \<open>t = _\<close>
      by (simp add: ns \<open>s = TreeNamespace p\<close> [symmetric] del: invalidate.simps split: option.split)
        (simp add: \<open>s = TreeNamespace p\<close>)
  qed (use rel in \<open>simp_all add: TreeNamespace relation_freshness_def del: invalidate.simps split: option.split\<close>)
next
  case (TreeRelation p)
  then show ?thesis
    by (cases t) (simp_all add: on_server [simplified] on_relation_above [simplified] relation_freshness_on [where y = invalidated])
next
  case (TreeConstraints p)
  then show ?thesis
    by (cases t) (simp_all add: on_server [simplified] on_relation_above [simplified] relation_freshness_kept
      relation_freshness_on [where y = invalidated])
next
  case (TreeIncoming p)
  then show ?thesis
    by (cases t) (simp_all add: on_server [simplified] on_relation_above [simplified] relation_freshness_kept
      relation_freshness_on [where y = invalidated])
next
  case (TreeDefinition p)
  then show ?thesis
    by (cases t) (simp_all add: on_server [simplified] on_relation_above [simplified] relation_freshness_kept
      relation_freshness_on [where y = invalidated])
qed

end
