(* ===== verification/Catalog_Invariant.thy ===== *)
theory Catalog_Invariant
  imports Catalog_Laws "HOL-Library.Multiset"
begin

text \<open>
  The invariant of the cache, that a node lies where its path says, and what rests on it: the scopes to
  reread are minimal and miss nothing, and the loop that bounds the definitions ends within its limits,
  having dropped the oldest first and none it need not.
\<close>

subsection \<open>Nodes lie where their paths say\<close>

definition relations_ok :: "string \<Rightarrow> string \<Rightarrow> (string \<times> rel_node) list \<Rightarrow> bool" where
  "relations_ok ck nk rs \<longleftrightarrow> distinct (map fst rs)
     \<and> (\<forall>(rk, n) \<in> set rs. relation_ref_path (rn_summary n) = (namespace_at ck nk)\<lparr>cp_relation := Some rk\<rparr>)"

definition namespaces_ok :: "string \<Rightarrow> (string \<times> ns_node) list \<Rightarrow> bool" where
  "namespaces_ok ck nss \<longleftrightarrow> distinct (map fst nss)
     \<and> (\<forall>(nk, ns) \<in> set nss. relations_ok ck nk (ca_value (nn_relations ns)))"

definition cache_ok :: "catalog_cache \<Rightarrow> bool" where
  "cache_ok c \<longleftrightarrow> distinct (map fst (ca_value (ch_catalogs c)))
     \<and> (\<forall>(ck, cat) \<in> set (ca_value (ch_catalogs c)). namespaces_ok ck (ca_value (cn_namespaces cat)))"

text \<open>A path whose levels are names, as every constructor of a path makes it.\<close>

definition named_levels :: "catalog_path \<Rightarrow> bool" where
  "named_levels p \<longleftrightarrow> cp_catalog p \<noteq> Some [] \<and> cp_namespace p \<noteq> Some []"

lemma path_ok_named: "path_ok p \<Longrightarrow> named_levels p"
  by (auto simp: path_ok_def path_segments_def set_present validate_segment_ok_iff named_levels_def)

lemma namespace_at_keys:
  "named_levels p \<Longrightarrow> namespace_at (map_key (cp_catalog p)) (map_key (cp_namespace p)) = p\<lparr>cp_relation := None\<rparr>"
  by (simp add: namespace_at_def named_levels_def from_key_map_key)

lemma cache_new_ok: "cache_ok cache_new"
  by (simp add: cache_ok_def cache_new_def)

text \<open>Each level keeps its part of the invariant through an update, an insertion and a listing.\<close>

lemma entries_map_entry:
  assumes "distinct (map fst m) \<and> (\<forall>(k, v) \<in> set m. P k v)" "\<And>v. P key v \<Longrightarrow> P key (f v)"
  shows "distinct (map fst (AList.map_entry key f m)) \<and> (\<forall>(k, v) \<in> set (AList.map_entry key f m). P k v)"
  using assms(1)
proof (induction m)
  case (Cons e m)
  then show ?case using assms(2) by (cases e) (auto simp: AList.dom_map_entry)
qed simp

lemma entries_entry_or:
  assumes "distinct (map fst m) \<and> (\<forall>(k, v) \<in> set m. P k v)" "P key d"
  shows "distinct (map fst (entry_or key d m)) \<and> (\<forall>(k, v) \<in> set (entry_or key d m). P k v)"
  using assms by (auto simp: entry_or_def map_of_eq_None_iff)

lemma entries_delete:
  assumes "distinct (map fst m) \<and> (\<forall>(k, v) \<in> set m. P k v)"
  shows "distinct (map fst (AList.delete key m)) \<and> (\<forall>(k, v) \<in> set (AList.delete key m). P k v)"
proof
  show "distinct (map fst (AList.delete key m))" using assms by (simp add: AList.distinct_delete)
  show "\<forall>(k, v) \<in> set (AList.delete key m). P k v" using assms by (auto simp: AList.delete_eq)
qed

lemma entries_over:
  assumes "distinct (map fst m) \<and> (\<forall>(k, v) \<in> set m. P k v)" "\<And>k v. P k v \<Longrightarrow> P k (f v)"
  shows "distinct (map fst (over_entries f m)) \<and> (\<forall>(k, v) \<in> set (over_entries f m). P k v)"
  using assms by (auto simp: over_entries_def comp_def case_prod_unfold)

lemma entries_insert:
  assumes "distinct (map fst m) \<and> (\<forall>(k, v) \<in> set m. P k v)" "P key d"
  shows "distinct (map fst (index_map_insert key d m)) \<and> (\<forall>(k, v) \<in> set (index_map_insert key d m). P k v)"
proof
  show "distinct (map fst (index_map_insert key d m))" using assms(1) by (simp add: index_map_insert_keys)
  have "set (index_map_insert key d m) \<subseteq> insert (key, d) (set m)"
    by (induction m) (auto split: if_splits)
  with assms show "\<forall>(k, v) \<in> set (index_map_insert key d m). P k v" by blast
qed

lemma entries_relist:
  assumes "\<forall>(k, v) \<in> set previous. P k v" "distinct (map fst fresh) \<and> (\<forall>(k, v) \<in> set fresh. P k v)"
    and "\<And>i v. i \<in> set infos \<Longrightarrow> P (name i) v \<Longrightarrow> P (name i) (again i v)" "\<And>i. i \<in> set infos \<Longrightarrow> P (name i) (new i)"
  shows "distinct (map fst (relist name again new infos previous fresh))
    \<and> (\<forall>(k, v) \<in> set (relist name again new infos previous fresh). P k v)"
  using assms
proof (induction infos arbitrary: previous fresh)
  case (Cons i infos)
  have "P (name i) (case map_of previous (name i) of Some n \<Rightarrow> again i n | None \<Rightarrow> new i)"
  proof (cases "map_of previous (name i)")
    case (Some n)
    with Cons.prems(1) have "P (name i) n" by (auto dest: map_of_SomeD)
    with Some Cons.prems(3) [of i n] show ?thesis by simp
  qed (use Cons.prems(4) [of i] in simp)
  note inserted = entries_insert [OF Cons.prems(2) this]
  have "\<forall>(k, v) \<in> set (AList.delete (name i) previous). P k v"
    using Cons.prems(1) by (auto simp: AList.delete_eq)
  from Cons.IH [OF this inserted] Cons.prems(3,4) show ?case by simp
qed simp

lemma on_catalog_ok:
  assumes "cache_ok c" "\<And>cat. namespaces_ok (map_key i) (ca_value (cn_namespaces cat))
      \<Longrightarrow> namespaces_ok (map_key i) (ca_value (cn_namespaces (f cat)))"
  shows "cache_ok (on_catalog i f c)"
  using entries_map_entry [of "ca_value (ch_catalogs c)" "\<lambda>ck cat. namespaces_ok ck (ca_value (cn_namespaces cat))"
      "map_key i" f] assms
  by (simp add: cache_ok_def on_catalog_def)

lemma on_namespace_in_ok:
  assumes "namespaces_ok ck (ca_value (cn_namespaces cat))"
    and "\<And>ns. relations_ok ck (map_key i) (ca_value (nn_relations ns))
      \<Longrightarrow> relations_ok ck (map_key i) (ca_value (nn_relations (f ns)))"
  shows "namespaces_ok ck (ca_value (cn_namespaces (on_namespace_in i f cat)))"
  using entries_map_entry [of "ca_value (cn_namespaces cat)" "\<lambda>nk ns. relations_ok ck nk (ca_value (nn_relations ns))"
      "map_key i" f] assms
  by (simp add: namespaces_ok_def on_namespace_in_def)

lemma on_namespace_ok:
  assumes "cache_ok c" "\<And>ns. relations_ok (map_key (cp_catalog p)) (map_key (cp_namespace p)) (ca_value (nn_relations ns))
      \<Longrightarrow> relations_ok (map_key (cp_catalog p)) (map_key (cp_namespace p)) (ca_value (nn_relations (f ns)))"
  shows "cache_ok (on_namespace p f c)"
  unfolding on_namespace_def by (rule on_catalog_ok [OF assms(1)], rule on_namespace_in_ok, assumption, rule assms(2))

lemma on_relation_ok:
  assumes "cache_ok c" "\<And>n. rn_summary (f n) = rn_summary n"
  shows "cache_ok (on_relation p f c)"
proof (cases "cp_relation p")
  case (Some name)
  have "relations_ok ck nk (AList.map_entry name f rs)" if "relations_ok ck nk rs" for ck nk rs
    using entries_map_entry [of rs "\<lambda>rk n. relation_ref_path (rn_summary n) = (namespace_at ck nk)\<lparr>cp_relation := Some rk\<rparr>"
        name f] that by (simp add: relations_ok_def assms(2))
  then show ?thesis
    by (simp add: Some on_relation_def on_relation_in_def on_namespace_ok [OF assms(1)])
qed (simp add: on_relation_def assms(1))

lemma ensure_catalog_ok: "cache_ok c \<Longrightarrow> cache_ok (ensure_catalog i c)"
  using entries_entry_or [of "ca_value (ch_catalogs c)" "\<lambda>ck cat. namespaces_ok ck (ca_value (cn_namespaces cat))"
      "map_key i" "\<lparr>cn_info = map_option catalog_ref_validated i, cn_namespaces = unread []\<rparr>"]
  by (simp add: cache_ok_def ensure_catalog_def namespaces_ok_def)

lemma ensure_namespace_ok: "cache_ok c \<Longrightarrow> cache_ok (ensure_namespace p c)"
  unfolding ensure_namespace_def
proof (rule on_catalog_ok [OF ensure_catalog_ok], assumption)
  fix cat
  assume "namespaces_ok (map_key (cp_catalog p)) (ca_value (cn_namespaces cat))"
  then show "namespaces_ok (map_key (cp_catalog p)) (ca_value (cn_namespaces (cat\<lparr>cn_namespaces :=
      map_value (entry_or (map_key (cp_namespace p))
        \<lparr>nn_info = map_option (namespace_ref_validated (only_catalog (cp_catalog p))) (cp_namespace p),
         nn_relations = unread []\<rparr>) (cn_namespaces cat)\<rparr>)))"
    using entries_entry_or [of "ca_value (cn_namespaces cat)"
        "\<lambda>nk ns. relations_ok (map_key (cp_catalog p)) nk (ca_value (nn_relations ns))" "map_key (cp_namespace p)"
        "\<lparr>nn_info = map_option (namespace_ref_validated (only_catalog (cp_catalog p))) (cp_namespace p),
          nn_relations = unread []\<rparr>"]
    by (simp add: namespaces_ok_def relations_ok_def)
qed

lemma ensure_relation_ok:
  assumes "cache_ok c" "named_levels p"
  shows "cache_ok (ensure_relation p name kind c)"
  unfolding ensure_relation_def
proof (rule on_namespace_ok [OF ensure_namespace_ok [OF assms(1)]])
  fix ns
  let ?ck = "map_key (cp_catalog p)" and ?nk = "map_key (cp_namespace p)"
  let ?new = "relation_node_new (relation_ref_validated (p\<lparr>cp_relation := None\<rparr>) name kind)"
  assume ns: "relations_ok ?ck ?nk (ca_value (nn_relations ns))"
  have "relation_ref_path (rn_summary ?new) = (namespace_at ?ck ?nk)\<lparr>cp_relation := Some name\<rparr>"
    by (simp add: relation_node_new_def relation_ref_path_def relation_ref_validated_def namespace_at_keys assms(2))
  with ns show "relations_ok ?ck ?nk
      (ca_value (nn_relations (ns\<lparr>nn_relations := map_value (entry_or name ?new) (nn_relations ns)\<rparr>)))"
    using entries_entry_or [of "ca_value (nn_relations ns)"
        "\<lambda>rk n. relation_ref_path (rn_summary n) = (namespace_at ?ck ?nk)\<lparr>cp_relation := Some rk\<rparr>" name ?new]
    by (simp add: relations_ok_def)
qed

text \<open>Every publication keeps the invariant, whatever the server lists, for a path whose levels are names.\<close>

lemma set_catalogs_ok: "cache_ok c \<Longrightarrow> cache_ok (set_catalogs now infos c)"
  using entries_relist [of "ca_value (ch_catalogs c)" "\<lambda>ck cat. namespaces_ok ck (ca_value (cn_namespaces cat))" "[]"
      infos cr_name "\<lambda>i n. n\<lparr>cn_info := Some i\<rparr>" "\<lambda>i. \<lparr>cn_info = Some i, cn_namespaces = unread []\<rparr>"]
  by (simp add: cache_ok_def set_catalogs_def namespaces_ok_def)

lemma set_namespaces_ok: "cache_ok c \<Longrightarrow> cache_ok (set_namespaces now i infos c)"
  unfolding set_namespaces_def
proof (rule on_catalog_ok [OF ensure_catalog_ok], assumption)
  fix cat
  let ?infos = "map (\<lambda>j. j\<lparr>nr_parent := only_catalog i\<rparr>) infos"
  assume "namespaces_ok (map_key i) (ca_value (cn_namespaces cat))"
  then show "namespaces_ok (map_key i) (ca_value (cn_namespaces (cat\<lparr>cn_namespaces := read_now now
      (relist nr_name (\<lambda>i n. n\<lparr>nn_info := Some i\<rparr>) (\<lambda>i. \<lparr>nn_info = Some i, nn_relations = unread []\<rparr>) ?infos
        (ca_value (cn_namespaces cat)) []) (cn_namespaces cat)\<rparr>)))"
    using entries_relist [of "ca_value (cn_namespaces cat)" "\<lambda>nk ns. relations_ok (map_key i) nk (ca_value (nn_relations ns))"
        "[]" ?infos nr_name "\<lambda>j n. n\<lparr>nn_info := Some j\<rparr>" "\<lambda>j. \<lparr>nn_info = Some j, nn_relations = unread []\<rparr>"]
    by (simp add: namespaces_ok_def relations_ok_def)
qed

lemma set_relations_ok:
  assumes "set_relations now p infos c = Inr c'" "cache_ok c" "named_levels p"
  shows "cache_ok c'"
proof -
  let ?ck = "map_key (cp_catalog p)" and ?nk = "map_key (cp_namespace p)"
  let ?infos = "map (\<lambda>i. i\<lparr>rr_parent := p\<rparr>) infos"
  have none: "cp_relation p = None" and c': "c' = on_namespace p (\<lambda>ns. ns\<lparr>nn_relations := read_now now
       (relist rr_name (\<lambda>i n. n\<lparr>rn_summary := i\<rparr>) relation_node_new ?infos (ca_value (nn_relations ns)) [])
       (nn_relations ns)\<rparr>) (ensure_namespace p c)"
    using assms(1) by (auto simp: set_relations_def split: if_splits)
  have p: "namespace_at ?ck ?nk = p" using none by (simp add: namespace_at_keys assms(3))
  have "relations_ok ?ck ?nk (relist rr_name (\<lambda>i n. n\<lparr>rn_summary := i\<rparr>) relation_node_new ?infos rs [])"
    if "relations_ok ?ck ?nk rs" for rs
  proof -
    have here: "relation_ref_path i = (namespace_at ?ck ?nk)\<lparr>cp_relation := Some (rr_name i)\<rparr>"
      if "i \<in> set ?infos" for i using that by (auto simp: relation_ref_path_def p)
    show ?thesis
    using that here entries_relist [of rs "\<lambda>rk n. relation_ref_path (rn_summary n) = (namespace_at ?ck ?nk)\<lparr>cp_relation := Some rk\<rparr>"
        "[]" ?infos rr_name "\<lambda>i n. n\<lparr>rn_summary := i\<rparr>" relation_node_new]
    by (simp add: relations_ok_def relation_node_new_def)
  qed
  then show ?thesis unfolding c' by (intro on_namespace_ok ensure_namespace_ok assms(2)) simp
qed

lemma set_relation_ok:
  "set_relation now p r c = Inr c' \<Longrightarrow> cache_ok c \<Longrightarrow> named_levels p \<Longrightarrow> cache_ok c'"
  by (auto simp: set_relation_def split: option.splits intro!: on_relation_ok ensure_relation_ok)

lemma on_known_ok:
  "on_known p f c = Inr c' \<Longrightarrow> (\<And>n. rn_summary (f n) = rn_summary n) \<Longrightarrow> cache_ok c \<Longrightarrow> cache_ok c'"
  by (auto simp: on_known_def split: if_splits intro!: on_relation_ok)


subsection \<open>The nodes of a tree are found by their paths\<close>

definition paths_of :: "catalog_cache \<Rightarrow> catalog_path list" where
  "paths_of c = map (\<lambda>n. relation_ref_path (rn_summary n)) (all_nodes c)"

lemma in_all_nodes:
  "n \<in> set (all_nodes c) \<longleftrightarrow> (\<exists>ck cat nk ns rk. (ck, cat) \<in> set (ca_value (ch_catalogs c))
     \<and> (nk, ns) \<in> set (ca_value (cn_namespaces cat)) \<and> (rk, n) \<in> set (ca_value (nn_relations ns)))"
  by (force simp: all_nodes_def)

lemma node_found:
  assumes "cache_ok c" "n \<in> set (all_nodes c)"
  shows "relation_node (relation_ref_path (rn_summary n)) c = Some n"
proof -
  obtain ck cat nk ns rk where at: "(ck, cat) \<in> set (ca_value (ch_catalogs c))"
    "(nk, ns) \<in> set (ca_value (cn_namespaces cat))" "(rk, n) \<in> set (ca_value (nn_relations ns))"
    using assms(2) by (auto simp: in_all_nodes)
  with assms(1) have cat: "distinct (map fst (ca_value (ch_catalogs c)))" "namespaces_ok ck (ca_value (cn_namespaces cat))"
    by (auto simp: cache_ok_def)
  with at have ns: "distinct (map fst (ca_value (cn_namespaces cat)))" "relations_ok ck nk (ca_value (nn_relations ns))"
    by (auto simp: namespaces_ok_def)
  with at have rs: "distinct (map fst (ca_value (nn_relations ns)))"
    "relation_ref_path (rn_summary n) = (namespace_at ck nk)\<lparr>cp_relation := Some rk\<rparr>"
    by (auto simp: relations_ok_def)
  show ?thesis
    using map_of_is_SomeI [OF cat(1) at(1)] map_of_is_SomeI [OF ns(1) at(2)] map_of_is_SomeI [OF rs(1) at(3)]
    by (simp add: rs(2) relation_node_def namespace_node_def catalog_node_def namespace_in_def namespace_at_def)
qed

lemma distinct_concat_tagged:
  assumes "distinct (map fst m)" "\<And>k v. (k, v) \<in> set m \<Longrightarrow> distinct (g k v)"
    and "\<And>k v x. (k, v) \<in> set m \<Longrightarrow> x \<in> set (g k v) \<Longrightarrow> tag x = k"
  shows "distinct (concat (map (\<lambda>(k, v). g k v) m))"
  using assms
proof (induction m)
  case (Cons e m)
  obtain k v where e: "e = (k, v)" by fastforce
  have "tag x = k" if "x \<in> set (g k v)" for x using Cons.prems(3) [of k v x] that by (simp add: e)
  moreover have "tag x \<noteq> k" if "(k', v') \<in> set m" "x \<in> set (g k' v')" for k' v' x
    using Cons.prems(1) Cons.prems(3) [of k' v' x] that by (force simp: e)
  ultimately have "set (g k v) \<inter> set (concat (map (\<lambda>(k, v). g k v) m)) = {}" by fastforce
  moreover have "distinct (g k v)" using Cons.prems(2) [of k v] by (simp add: e)
  moreover have "distinct (concat (map (\<lambda>(k, v). g k v) m))"
  proof (rule Cons.IH)
    show "distinct (map fst m)" using Cons.prems(1) by simp
    show "(k', v') \<in> set m \<Longrightarrow> distinct (g k' v')" for k' v' using Cons.prems(2) [of k' v'] by simp
    show "(k', v') \<in> set m \<Longrightarrow> x \<in> set (g k' v') \<Longrightarrow> tag x = k'" for k' v' x using Cons.prems(3) [of k' v' x] by simp
  qed
  ultimately show ?case by (simp add: e)
qed simp

lemma paths_distinct:
  assumes "cache_ok c"
  shows "distinct (paths_of c)"
proof -
  let ?path = "\<lambda>n. relation_ref_path (rn_summary n)"
  let ?rel = "\<lambda>nk ns. map (\<lambda>e. ?path (snd e)) (ca_value (nn_relations ns))"
  let ?cat = "\<lambda>ck cat. concat (map (\<lambda>(nk, ns). ?rel nk ns) (ca_value (cn_namespaces cat)))"
  have eq: "paths_of c = concat (map (\<lambda>(ck, cat). ?cat ck cat) (ca_value (ch_catalogs c)))"
    by (simp add: paths_of_def all_nodes_def map_concat comp_def case_prod_unfold)
  have rel: "distinct (?rel nk ns) \<and> (\<forall>p \<in> set (?rel nk ns). map_key (cp_catalog p) = ck \<and> map_key (cp_namespace p) = nk)"
    if ok: "relations_ok ck nk (ca_value (nn_relations ns))" for ck nk ns
  proof -
    let ?rs = "ca_value (nn_relations ns)"
    let ?here = "\<lambda>k. (namespace_at ck nk)\<lparr>cp_relation := Some k\<rparr>"
    have path: "?rel nk ns = map ?here (map fst ?rs)"
      using ok by (auto simp: relations_ok_def comp_def)
    have "inj ?here"
    proof (rule injI)
      show "?here k = ?here k' \<Longrightarrow> k = k'" for k k'
        by (drule arg_cong [where f = cp_relation]) simp
    qed
    then have "inj_on ?here (set (map fst ?rs))" by (rule inj_on_subset) simp
    moreover have "distinct (map fst ?rs)" using ok by (simp add: relations_ok_def)
    ultimately have "distinct (map ?here (map fst ?rs))" by (simp only: distinct_map [of ?here])
    moreover have "\<forall>p \<in> set (map ?here (map fst ?rs)). map_key (cp_catalog p) = ck \<and> map_key (cp_namespace p) = nk"
      by (auto simp: namespace_at_def)
    ultimately show ?thesis unfolding path by blast
  qed
  have cat: "distinct (?cat ck cat) \<and> (\<forall>p \<in> set (?cat ck cat). map_key (cp_catalog p) = ck)"
    if "namespaces_ok ck (ca_value (cn_namespaces cat))" for ck cat
  proof
    have ok: "(nk, ns) \<in> set (ca_value (cn_namespaces cat)) \<Longrightarrow> relations_ok ck nk (ca_value (nn_relations ns))" for nk ns
      using that by (auto simp: namespaces_ok_def)
    show "distinct (?cat ck cat)"
      by (rule distinct_concat_tagged [where tag = "\<lambda>p. map_key (cp_namespace p)"])
        (use that rel [OF ok] in \<open>auto simp: namespaces_ok_def\<close>)
    show "\<forall>p \<in> set (?cat ck cat). map_key (cp_catalog p) = ck" using rel [OF ok] by fastforce
  qed
  have ok: "(ck, cat) \<in> set (ca_value (ch_catalogs c)) \<Longrightarrow> namespaces_ok ck (ca_value (cn_namespaces cat))" for ck cat
    using assms by (auto simp: cache_ok_def)
  show ?thesis
    unfolding eq
  proof (rule distinct_concat_tagged [where tag = "\<lambda>p. map_key (cp_catalog p)"])
    show "distinct (map fst (ca_value (ch_catalogs c)))" using assms by (simp add: cache_ok_def)
  next
    fix ck ca
    assume at: "(ck, ca) \<in> set (ca_value (ch_catalogs c))"
    show "distinct (?cat ck ca)" using cat [OF ok [OF at]] by blast
    show "p \<in> set (?cat ck ca) \<Longrightarrow> map_key (cp_catalog p) = ck" for p using cat [OF ok [OF at]] by blast
  qed
qed


subsection \<open>The loop that bounds the definitions\<close>

lemma map_entry_distinct:
  "distinct (map fst m) \<Longrightarrow> AList.map_entry key f m = map (\<lambda>(k, v). (k, if k = key then f v else v)) m"
proof (induction m)
  case (Cons e m)
  obtain k v where e: "e = (k, v)" by fastforce
  have "map (\<lambda>(k, v). (k, if k = key then f v else v)) m = m" if "key \<notin> fst ` set m"
    using that by (intro map_idI) (auto simp: image_iff)
  with Cons show ?case by (auto simp: e)
qed simp

text \<open>An update of one relation touches its node only.\<close>

lemma nodes_on_relation:
  assumes "cache_ok c" "named_levels p" "cp_relation p \<noteq> None"
  shows "all_nodes (on_relation p f c)
    = map (\<lambda>n. if relation_ref_path (rn_summary n) = p then f n else n) (all_nodes c)"
proof -
  obtain name where name: "cp_relation p = Some name" using assms(3) by blast
  let ?ck = "map_key (cp_catalog p)" and ?nk = "map_key (cp_namespace p)"
  let ?u = "\<lambda>n. if relation_ref_path (rn_summary n) = p then f n else n"
  have here: "(namespace_at ck nk)\<lparr>cp_relation := Some rk\<rparr> = p \<longleftrightarrow> ck = ?ck \<and> nk = ?nk \<and> rk = name" for ck nk rk
  proof
    assume "(namespace_at ck nk)\<lparr>cp_relation := Some rk\<rparr> = p"
    then show "ck = ?ck \<and> nk = ?nk \<and> rk = name" using name by (auto simp: namespace_at_def)
  next
    assume "ck = ?ck \<and> nk = ?nk \<and> rk = name"
    then show "(namespace_at ck nk)\<lparr>cp_relation := Some rk\<rparr> = p" by (simp add: namespace_at_keys assms(2) name)
  qed
  have rel: "map snd (ca_value (nn_relations (if ck = ?ck \<and> nk = ?nk then on_relation_in name f ns else ns)))
      = map ?u (map snd (ca_value (nn_relations ns)))"
    if ok: "relations_ok ck nk (ca_value (nn_relations ns))" for ck nk ns
  proof -
    let ?rs = "ca_value (nn_relations ns)"
    have at: "relation_ref_path (rn_summary n) = p \<longleftrightarrow> ck = ?ck \<and> nk = ?nk \<and> rk = name" if "(rk, n) \<in> set ?rs" for rk n
    proof -
      have "relation_ref_path (rn_summary n) = (namespace_at ck nk)\<lparr>cp_relation := Some rk\<rparr>"
        using ok that by (auto simp: relations_ok_def)
      then show ?thesis by (simp only: here)
    qed
    have "ca_value (nn_relations (if ck = ?ck \<and> nk = ?nk then on_relation_in name f ns else ns))
        = map (\<lambda>(rk, n). (rk, if ck = ?ck \<and> nk = ?nk \<and> rk = name then f n else n)) ?rs"
      using ok by (cases "ck = ?ck"; cases "nk = ?nk")
        (simp_all add: on_relation_in_def relations_ok_def map_entry_distinct case_prod_unfold)
    moreover have "map snd (map (\<lambda>(rk, n). (rk, if ck = ?ck \<and> nk = ?nk \<and> rk = name then f n else n)) ?rs)
        = map ?u (map snd ?rs)"
      unfolding map_map
    proof (rule map_cong [OF refl])
      fix e
      assume "e \<in> set ?rs"
      then show "(snd \<circ> (\<lambda>(rk, n). (rk, if ck = ?ck \<and> nk = ?nk \<and> rk = name then f n else n))) e = (?u \<circ> snd) e"
        using at [of "fst e" "snd e"] by (simp add: case_prod_unfold)
    qed
    ultimately show ?thesis by simp
  qed
  have cat: "concat (map (\<lambda>(nk, ns). map snd (ca_value (nn_relations ns)))
        (ca_value (cn_namespaces (if ck = ?ck then on_namespace_in (cp_namespace p) (on_relation_in name f) ca else ca))))
      = map ?u (concat (map (\<lambda>(nk, ns). map snd (ca_value (nn_relations ns))) (ca_value (cn_namespaces ca))))"
    if ok: "namespaces_ok ck (ca_value (cn_namespaces ca))" for ck ca
  proof -
    have "map (\<lambda>(nk, ns). map snd (ca_value (nn_relations ns)))
        (ca_value (cn_namespaces (if ck = ?ck then on_namespace_in (cp_namespace p) (on_relation_in name f) ca else ca)))
      = map (\<lambda>(nk, ns). map snd (ca_value (nn_relations (if ck = ?ck \<and> nk = ?nk then on_relation_in name f ns else ns))))
          (ca_value (cn_namespaces ca))"
      using ok by (auto simp: on_namespace_in_def namespaces_ok_def map_entry_distinct)
    also have "\<dots> = map (\<lambda>(nk, ns). map ?u (map snd (ca_value (nn_relations ns)))) (ca_value (cn_namespaces ca))"
      using ok rel [of ck] by (intro map_cong refl) (auto simp: namespaces_ok_def)
    finally show ?thesis by (simp add: map_concat comp_def case_prod_unfold)
  qed
  have "all_nodes (on_relation p f c) = concat (map (\<lambda>(ck, ca). concat (map (\<lambda>(nk, ns). map snd (ca_value (nn_relations ns)))
        (ca_value (cn_namespaces (if ck = ?ck then on_namespace_in (cp_namespace p) (on_relation_in name f) ca else ca)))))
      (ca_value (ch_catalogs c)))"
    using assms(1)
    by (simp add: on_relation_def name all_nodes_def on_namespace_def on_catalog_def cache_ok_def map_entry_distinct
        case_prod_unfold comp_def)
  also have "\<dots> = concat (map (\<lambda>(ck, ca). map ?u (concat (map (\<lambda>(nk, ns). map snd (ca_value (nn_relations ns)))
        (ca_value (cn_namespaces ca))))) (ca_value (ch_catalogs c)))"
    using assms(1) cat by (intro arg_cong [where f = concat] map_cong refl) (auto simp: cache_ok_def)
  finally show ?thesis by (simp add: all_nodes_def map_concat comp_def case_prod_unfold)
qed


lemma held_on_relation:
  assumes "cache_ok c" "named_levels p" "cp_relation p \<noteq> None"
  shows "held_definitions (on_relation p (\<lambda>n. n\<lparr>rn_definition := unread None\<rparr>) c)
    = filter (\<lambda>h. fst h \<noteq> p) (held_definitions c)"
proof -
  have "List.map_filter held_definition
      (map (\<lambda>n. if relation_ref_path (rn_summary n) = p then n\<lparr>rn_definition := unread None\<rparr> else n) ns)
    = filter (\<lambda>h. fst h \<noteq> p) (List.map_filter held_definition ns)" for ns
    by (induction ns) (auto simp: held_definition_def List.map_filter_simps split: option.splits)
  then show ?thesis by (simp add: held_definitions_def nodes_on_relation [OF assms])
qed

lemma min_by_key_in: "min_by_key f xs = Some x \<Longrightarrow> x \<in> set xs"
  by (induction xs arbitrary: x) (auto split: option.splits if_splits)

lemma min_by_key_None [simp]: "min_by_key f xs = None \<longleftrightarrow> xs = []"
  by (cases xs) (auto split: option.splits if_splits)

lemma min_by_key_least: "min_by_key f xs = Some x \<Longrightarrow> y \<in> set xs \<Longrightarrow> f x \<le> f y"
  by (induction xs arbitrary: x) (force split: option.splits if_splits)+

text \<open>The definition dropped is held, by another relation than the one just published.\<close>

lemma held_path:
  assumes "cache_ok c" "h \<in> set (held_definitions c)"
  obtains n where "n \<in> set (all_nodes c)" "held_definition n = Some h" "fst h = relation_ref_path (rn_summary n)"
    "named_levels (fst h)" "cp_relation (fst h) \<noteq> None" "relation_node (fst h) c = Some n"
proof -
  obtain n where n: "n \<in> set (all_nodes c)" "held_definition n = Some h"
    using assms(2) by (auto simp: held_definitions_def List.map_filter_def split: option.splits)
  then have path: "fst h = relation_ref_path (rn_summary n)" by (auto simp: held_definition_def)
  obtain ck nk rk where "relation_ref_path (rn_summary n) = (namespace_at ck nk)\<lparr>cp_relation := Some rk\<rparr>"
  proof -
    obtain ck ca nk ns rk where "(ck, ca) \<in> set (ca_value (ch_catalogs c))"
      "(nk, ns) \<in> set (ca_value (cn_namespaces ca))" "(rk, n) \<in> set (ca_value (nn_relations ns))"
      using n(1) by (auto simp: in_all_nodes)
    with assms(1) that show thesis by (fastforce simp: cache_ok_def namespaces_ok_def relations_ok_def)
  qed
  then have "named_levels (fst h)" "cp_relation (fst h) \<noteq> None"
    by (auto simp: path named_levels_def namespace_at_def from_key_def)
  with that n path node_found [OF assms(1) n(1)] show thesis by metis
qed

lemma oldest_held:
  assumes "oldest_definition protected c = Some p"
  shows "p \<noteq> protected" "p \<in> fst ` set (held_definitions c)"
  using assms by (auto simp: oldest_definition_def image_iff dest!: min_by_key_in intro: bexI [rotated])

lemma drop_oldest_step:
  assumes "cache_ok c" "oldest_definition protected c = Some p"
  shows "cache_ok (drop_oldest protected c)"
    "held_definitions (drop_oldest protected c) = filter (\<lambda>h. fst h \<noteq> p) (held_definitions c)"
    "length (held_definitions (drop_oldest protected c)) < length (held_definitions c)"
proof -
  obtain h where h: "h \<in> set (held_definitions c)" "fst h = p" using oldest_held(2) [OF assms(2)] by auto
  obtain n where p: "named_levels p" "cp_relation p \<noteq> None" using held_path [OF assms(1) h(1)] h(2) by metis
  have drop: "drop_oldest protected c = on_relation p (\<lambda>n. n\<lparr>rn_definition := unread None\<rparr>) c"
    by (simp add: drop_oldest_def assms(2))
  show "cache_ok (drop_oldest protected c)" unfolding drop by (rule on_relation_ok [OF assms(1)]) simp
  show held: "held_definitions (drop_oldest protected c) = filter (\<lambda>h. fst h \<noteq> p) (held_definitions c)"
    unfolding drop by (rule held_on_relation [OF assms(1) p])
  show "length (held_definitions (drop_oldest protected c)) < length (held_definitions c)"
    unfolding held by (rule length_filter_less [OF h(1)]) (simp add: h(2))
qed

lemma evict_definitions_ends:
  assumes "cache_ok c"
  shows "\<exists>c'. evict_definitions protected c = Some c'"
  unfolding evict_definitions_def
proof (rule measure_while_option_Some [where P = cache_ok and f = "\<lambda>c. length (held_definitions c)"])
  fix d
  assume "cache_ok d" "goes_on protected d"
  then obtain p where "oldest_definition protected d = Some p" by (auto simp: goes_on_def split: option.splits)
  from drop_oldest_step [OF \<open>cache_ok d\<close> this]
  show "cache_ok (drop_oldest protected d)
      \<and> length (held_definitions (drop_oldest protected d)) < length (held_definitions d)" by simp
qed (rule assms)

text \<open>What is left when it ends: the rest of the cache, within the limits unless a single definition
  exceeds them, and the definition just published.\<close>

lemma held_distinct: "cache_ok c \<Longrightarrow> distinct (map fst (held_definitions c))"
proof -
  have "\<exists>f. map fst (List.map_filter held_definition ns)
      = map (\<lambda>n. relation_ref_path (rn_summary n)) (filter f ns)" for ns
    by (rule exI [where x = "\<lambda>n. held_definition n \<noteq> None"], induction ns)
      (auto simp: held_definition_def List.map_filter_simps split: option.splits)
  then obtain f where "map fst (held_definitions c) = map (\<lambda>n. relation_ref_path (rn_summary n)) (filter f (all_nodes c))"
    unfolding held_definitions_def by blast
  then show "cache_ok c \<Longrightarrow> distinct (map fst (held_definitions c))"
    using paths_distinct [of c] by (simp add: paths_of_def distinct_map_filter)
qed

lemma same_relation_named:
  assumes "named_levels p" "named_levels q"
  shows "same_relation p q \<longleftrightarrow> p = q"
proof
  assume same: "same_relation p q"
  with assms have "cp_catalog p = cp_catalog q" "cp_namespace p = cp_namespace q"
    by (auto simp: same_relation_def same_namespace_def named_levels_def map_key_def split: option.splits)
  with same show "p = q" by (simp add: same_relation_def)
qed (simp add: same_relation_def same_namespace_def)

lemma drop_oldest_protected:
  assumes "cache_ok d" "oldest_definition protected d = Some p" "named_levels protected"
  shows "relation_node protected (drop_oldest protected d) = relation_node protected d"
proof -
  obtain h where h: "h \<in> set (held_definitions d)" "fst h = p" using oldest_held(2) [OF assms(2)] by auto
  have "named_levels p" using held_path [OF assms(1) h(1)] h(2) by metis
  then show ?thesis using oldest_held(1) [OF assms(2)] assms(3)
    by (auto simp: drop_oldest_def assms(2) relation_node_on_relation same_relation_named)
qed

lemma evict_definitions_left:
  assumes "evict_definitions protected c = Some c'" "cache_ok c" "named_levels protected"
  shows "cache_ok c' \<and> relation_node protected c' = relation_node protected c
    \<and> set (held_definitions c') \<subseteq> set (held_definitions c)"
  using assms(1) [unfolded evict_definitions_def]
proof (rule while_option_rule [rotated])
  fix d
  assume d: "cache_ok d \<and> relation_node protected d = relation_node protected c
    \<and> set (held_definitions d) \<subseteq> set (held_definitions c)" and on: "goes_on protected d"
  from on obtain p where p: "oldest_definition protected d = Some p" by (auto simp: goes_on_def split: option.splits)
  have ok: "cache_ok d" using d by simp
  from d drop_oldest_step(1,2) [OF ok p] drop_oldest_protected [OF ok p assms(3)]
  show "cache_ok (drop_oldest protected d) \<and> relation_node protected (drop_oldest protected d) = relation_node protected c
    \<and> set (held_definitions (drop_oldest protected d)) \<subseteq> set (held_definitions c)" by auto
qed (use assms(2) in simp)

lemma validated_bytes: "definition_validate d = Inr () \<Longrightarrow> definition_bytes d \<le> max_definition_bytes"
  by (auto simp: definition_validate_def definition_bytes_def sat_total_def max_definition_bytes_def
      max_definition_sql_def split: if_splits)

lemma evict_definitions_within:
  assumes "evict_definitions protected c = Some c'" "cache_ok c" "named_levels protected"
    and "Option.bind (relation_node protected c) (\<lambda>n. ca_value (rn_definition n)) = Some d"
      "definition_bytes d \<le> max_definition_bytes"
  shows "definitions_within c'"
proof (rule ccontr)
  assume over: "\<not> definitions_within c'"
  have ok: "cache_ok c'" and node: "relation_node protected c' = relation_node protected c"
    using evict_definitions_left [OF assms(1-3)] by auto
  have "\<not> goes_on protected c'" using assms(1) unfolding evict_definitions_def by (rule while_option_stop)
  moreover have "relation_node p c' \<noteq> None" if p: "oldest_definition protected c' = Some p" for p
  proof -
    obtain h where h: "h \<in> set (held_definitions c')" "fst h = p" using oldest_held(2) [OF p] by auto
    show ?thesis using held_path [OF ok h(1)] h(2) by (metis option.discI)
  qed
  ultimately have "oldest_definition protected c' = None"
    using over by (fastforce simp: goes_on_def split: option.splits)
  then have "\<forall>h \<in> set (held_definitions c'). fst h = protected"
    by (auto simp: oldest_definition_def filter_empty_conv)
  then have only: "set (map fst (held_definitions c')) \<subseteq> {protected}" by auto
  have "length (held_definitions c') \<le> 1"
    using card_mono [OF _ only] distinct_card [OF held_distinct [OF ok]] by simp
  moreover have "snd (snd h) = definition_bytes d" if h: "h \<in> set (held_definitions c')" for h
  proof -
    obtain n where "held_definition n = Some h" "relation_node (fst h) c' = Some n" using held_path [OF ok h] by metis
    moreover have "fst h = protected" using only h by auto
    ultimately show ?thesis using assms(4) node by (auto simp: held_definition_def)
  qed
  ultimately have "definitions_within c'" using assms(5)
    by (cases "held_definitions c'") (auto simp: definitions_within_def max_definitions_def sat_total_def)
  with over show False by simp
qed

lemma set_definition_bounded:
  assumes "cache_ok c" "named_levels p" "definition_validate d = Inr ()"
  obtains (unknown) e where "set_definition now p d c = Some (Inl e)" "relation_node p c = None"
  | (known) c' where "set_definition now p d c = Some (Inr c')" "cache_ok c'" "definitions_within c'"
      "cached_definition p c' = Some d" "relation_node p c \<noteq> None"
proof (cases "on_known p (\<lambda>n. n\<lparr>rn_definition := read_now now (Some d) (rn_definition n)\<rparr>) c")
  case (Inl e)
  then have "relation_node p c = None" by (auto simp: on_known_def relation_node_def split: if_splits)
  with Inl show thesis by (intro unknown) (simp_all add: set_definition_def)
next
  case (Inr c1)
  have ok: "cache_ok c1" by (rule on_known_ok [OF Inr _ assms(1)]) simp
  then obtain c' where c': "evict_definitions p c1 = Some c'" using evict_definitions_ends by blast
  have here: "Option.bind (relation_node p c1) (\<lambda>n. ca_value (rn_definition n)) = Some d"
    using on_known_node(1) [OF Inr, of p] on_known_node(2) [OF Inr] by (auto simp: same_relation_def same_namespace_def)
  note left = evict_definitions_left [OF c' ok assms(2)]
  note within = evict_definitions_within [OF c' ok assms(2) here validated_bytes [OF assms(3)]]
  show thesis
    by (rule known [of c']) (use left within here c' on_known_node(2) [OF Inr] Inr in
      \<open>simp_all add: set_definition_def cached_definition_def\<close>)
qed

subsection \<open>The oldest definitions go first\<close>

text \<open>The definitions held of the other relations: those a publication may drop.\<close>

definition beside :: "catalog_path \<Rightarrow> catalog_cache \<Rightarrow> (catalog_path \<times> int option \<times> nat) list" where
  "beside p c = filter (\<lambda>h. fst h \<noteq> p) (held_definitions c)"

lemma keyed_mset:
  "distinct (map fst xs) \<Longrightarrow> x \<in> set xs \<Longrightarrow> mset xs = add_mset x (mset (filter (\<lambda>h. fst h \<noteq> fst x) xs))"
proof (induction xs)
  case (Cons y xs)
  have "filter (\<lambda>h. fst h \<noteq> fst y) xs = xs" using Cons.prems(1) by (auto simp: filter_id_conv image_iff)
  with Cons show ?case by (cases "x = y") (auto simp: image_iff)
qed simp

lemma beside_distinct: "cache_ok c \<Longrightarrow> distinct (map fst (beside p c))"
  by (simp add: beside_def distinct_map_filter held_distinct)

lemma beside_dropped:
  assumes "cache_ok d" "oldest_definition protected d = Some p"
  obtains x where "x \<in> set (beside protected d)" "\<forall>h \<in> set (beside protected d). fst (snd x) \<le> fst (snd h)"
    "mset (beside protected d) = add_mset x (mset (beside protected (drop_oldest protected d)))"
proof -
  obtain x where x: "min_by_key (\<lambda>h. fst (snd h)) (beside protected d) = Some x" "fst x = p"
    using assms(2) by (auto simp: oldest_definition_def beside_def)
  note inside = min_by_key_in [OF x(1)]
  have "beside protected (drop_oldest protected d) = filter (\<lambda>h. fst h \<noteq> fst x) (beside protected d)"
    by (auto simp: beside_def drop_oldest_step(2) [OF assms] x(2) filter_filter intro: filter_cong)
  with keyed_mset [OF beside_distinct [OF assms(1)] inside] min_by_key_least [OF x(1)] inside that show thesis by metis
qed

text \<open>Each one dropped is as old as every one that stays, and the last one dropped had to go.\<close>

definition oldest_first :: "catalog_path \<Rightarrow> catalog_cache \<Rightarrow> catalog_cache \<Rightarrow> bool" where
  "oldest_first p c d \<longleftrightarrow>
     (\<forall>g \<in> set (beside p c) - set (beside p d). \<forall>h \<in> set (beside p d). fst (snd g) \<le> fst (snd h))
     \<and> (beside p d = beside p c
        \<or> (\<exists>e. \<exists>g \<in> set (beside p c) - set (beside p d). cache_ok e \<and> relation_node p e = relation_node p c
             \<and> mset (beside p e) = add_mset g (mset (beside p d)) \<and> \<not> definitions_within e))"

lemma drop_oldest_first:
  assumes "cache_ok d" "relation_node protected d = relation_node protected c"
    "set (beside protected d) \<subseteq> set (beside protected c)" "oldest_first protected c d" "goes_on protected d"
  shows "set (beside protected (drop_oldest protected d)) \<subseteq> set (beside protected c)
    \<and> oldest_first protected c (drop_oldest protected d)"
proof -
  let ?d = "drop_oldest protected d"
  obtain p where p: "oldest_definition protected d = Some p" and over: "\<not> definitions_within d"
    using assms(5) by (auto simp: goes_on_def split: option.splits)
  obtain x where x: "x \<in> set (beside protected d)" "\<forall>h \<in> set (beside protected d). fst (snd x) \<le> fst (snd h)"
    and left: "mset (beside protected d) = add_mset x (mset (beside protected ?d))"
    using beside_dropped [OF assms(1) p] by metis
  have "distinct (beside protected d)" using beside_distinct [OF assms(1), of protected] by (simp add: distinct_map)
  then have gone: "x \<notin> set (beside protected ?d)"
    by (metis left distinct.simps(2) mset.simps(2) mset_eq_imp_distinct_iff)
  have here: "set (beside protected d) = insert x (set (beside protected ?d))"
    using arg_cong [OF left, of set_mset] by simp
  have "fst (snd g) \<le> fst (snd h)"
    if "g \<in> set (beside protected c) - set (beside protected ?d)" "h \<in> set (beside protected ?d)" for g h
    using that assms(4) x(2) here by (cases "g = x") (auto simp: oldest_first_def)
  with assms(1-3) over left gone x(1) here show ?thesis unfolding oldest_first_def by blast
qed

lemma evict_definitions_oldest:
  assumes "evict_definitions protected c = Some c'" "cache_ok c" "named_levels protected"
  shows "set (beside protected c') \<subseteq> set (beside protected c) \<and> oldest_first protected c c'"
proof -
  have "cache_ok c' \<and> relation_node protected c' = relation_node protected c
      \<and> set (beside protected c') \<subseteq> set (beside protected c) \<and> oldest_first protected c c'"
    using assms(1) [unfolded evict_definitions_def]
  proof (rule while_option_rule [rotated])
    fix d
    assume d: "cache_ok d \<and> relation_node protected d = relation_node protected c
        \<and> set (beside protected d) \<subseteq> set (beside protected c) \<and> oldest_first protected c d" and on: "goes_on protected d"
    then have ok: "cache_ok d" by simp
    obtain p where p: "oldest_definition protected d = Some p" using on by (auto simp: goes_on_def split: option.splits)
    from d on drop_oldest_first [of d protected c] drop_oldest_step(1) [OF ok p] drop_oldest_protected [OF ok p assms(3)]
    show "cache_ok (drop_oldest protected d) \<and> relation_node protected (drop_oldest protected d) = relation_node protected c
        \<and> set (beside protected (drop_oldest protected d)) \<subseteq> set (beside protected c)
        \<and> oldest_first protected c (drop_oldest protected d)" by auto
  qed (use assms(2) in \<open>simp add: oldest_first_def\<close>)
  then show ?thesis by simp
qed

lemma held_here:
  assumes "cache_ok e" "named_levels p" "relation_node p e = Some n" "ca_value (rn_definition n) = Some d"
  shows "mset (held_definitions e)
    = add_mset (p, fetched_at (ca_freshness (rn_definition n)), definition_bytes d) (mset (beside p e))"
proof -
  obtain name ns cat where at: "cp_relation p = Some name" "map_of (ca_value (ch_catalogs e)) (map_key (cp_catalog p)) = Some cat"
    "map_of (ca_value (cn_namespaces cat)) (map_key (cp_namespace p)) = Some ns" "map_of (ca_value (nn_relations ns)) name = Some n"
    using assms(3) by (auto simp: relation_node_def namespace_node_def catalog_node_def namespace_in_def bind_eq_Some_conv
        split: option.splits)
  note inside = at(2-4) [THEN map_of_SomeD]
  with assms(1) have "relation_ref_path (rn_summary n)
      = (namespace_at (map_key (cp_catalog p)) (map_key (cp_namespace p)))\<lparr>cp_relation := Some name\<rparr>"
    by (fastforce simp: cache_ok_def namespaces_ok_def relations_ok_def)
  then have path: "relation_ref_path (rn_summary n) = p" by (simp add: namespace_at_keys assms(2) at(1))
  have "n \<in> set (all_nodes e)" unfolding in_all_nodes using inside by blast
  moreover have "held_definition n = Some (p, fetched_at (ca_freshness (rn_definition n)), definition_bytes d)"
    by (simp add: held_definition_def path assms(4))
  ultimately have "(p, fetched_at (ca_freshness (rn_definition n)), definition_bytes d) \<in> set (held_definitions e)"
    by (force simp: held_definitions_def List.map_filter_def)
  from keyed_mset [OF held_distinct [OF assms(1)] this] show ?thesis by (simp add: beside_def)
qed

lemma within_mset:
  assumes "mset (held_definitions e) = mset hs"
  shows "definitions_within e \<longleftrightarrow> length hs \<le> max_definitions \<and> (\<Sum>h\<leftarrow>hs. snd (snd h)) \<le> max_definition_bytes"
proof -
  have "(\<Sum>h\<leftarrow>held_definitions e. snd (snd h)) = (\<Sum>h\<leftarrow>hs. snd (snd h))"
    using arg_cong [OF assms, of "\<lambda>m. sum_mset (image_mset (\<lambda>h. snd (snd h)) m)"] by (simp flip: sum_mset_sum_list mset_map)
  moreover have "length (held_definitions e) = length hs" using assms by (rule mset_eq_length)
  ultimately show ?thesis by (simp add: definitions_within_def sat_total_def max_definition_bytes_def min_def)
qed

text \<open>The whole of it, for one publication: what is left of the others was held, those dropped are as old
  as every one left, and were it not for the last one dropped the limits would be exceeded.\<close>

lemma set_definition_oldest_first:
  assumes "cache_ok c" "named_levels p" "set_definition now p d c = Some (Inr c')"
  shows "set (beside p c') \<subseteq> set (beside p c)"
    "\<forall>g \<in> set (beside p c) - set (beside p c'). \<forall>h \<in> set (beside p c'). fst (snd g) \<le> fst (snd h)"
    "beside p c' = beside p c \<or> (\<exists>g \<in> set (beside p c) - set (beside p c').
       \<not> (length (beside p c') + 2 \<le> max_definitions
         \<and> definition_bytes d + snd (snd g) + (\<Sum>h\<leftarrow>beside p c'. snd (snd h)) \<le> max_definition_bytes))"
proof -
  let ?f = "\<lambda>n. n\<lparr>rn_definition := read_now now (Some d) (rn_definition n)\<rparr>"
  obtain c1 where c1: "on_known p ?f c = Inr c1" "evict_definitions p c1 = Some c'"
    using assms(3) by (auto simp: set_definition_def split: sum.splits)
  have ok: "cache_ok c1" by (rule on_known_ok [OF c1(1) _ assms(1)]) simp
  obtain n where n: "relation_node p c1 = Some n" "ca_value (rn_definition n) = Some d"
    using on_known_node(1) [OF c1(1), of p] on_known_node(2) [OF c1(1)] by (auto simp: same_relation_def same_namespace_def)
  have same: "beside p c1 = beside p c"
  proof -
    have at: "cp_relation p \<noteq> None" "c1 = on_relation p ?f c" using c1(1) by (auto simp: on_known_def split: if_splits)
    have "filter (\<lambda>h. fst h \<noteq> p) (List.map_filter held_definition
          (map (\<lambda>n. if relation_ref_path (rn_summary n) = p then ?f n else n) ns))
        = filter (\<lambda>h. fst h \<noteq> p) (List.map_filter held_definition ns)" for ns
      by (induction ns) (auto simp: held_definition_def List.map_filter_simps split: option.splits)
    then show ?thesis by (simp add: beside_def held_definitions_def at(2) nodes_on_relation [OF assms(1,2) at(1)])
  qed
  note first = evict_definitions_oldest [OF c1(2) ok assms(2), unfolded oldest_first_def same]
  then show "set (beside p c') \<subseteq> set (beside p c)"
    "\<forall>g \<in> set (beside p c) - set (beside p c'). \<forall>h \<in> set (beside p c'). fst (snd g) \<le> fst (snd h)" by blast+
  from first consider "beside p c' = beside p c"
    | e g where "g \<in> set (beside p c) - set (beside p c')" "cache_ok e" "relation_node p e = relation_node p c1"
      "mset (beside p e) = add_mset g (mset (beside p c'))" "\<not> definitions_within e" by metis
  then show "beside p c' = beside p c \<or> (\<exists>g \<in> set (beside p c) - set (beside p c').
       \<not> (length (beside p c') + 2 \<le> max_definitions
         \<and> definition_bytes d + snd (snd g) + (\<Sum>h\<leftarrow>beside p c'. snd (snd h)) \<le> max_definition_bytes))"
  proof cases
    case 2
    then have "mset (held_definitions e)
        = mset ((p, fetched_at (ca_freshness (rn_definition n)), definition_bytes d) # g # beside p c')"
      using held_here [OF 2(2) assms(2) _ n(2)] n(1) by simp
    from within_mset [OF this] 2(1,5) show ?thesis by (auto simp: add.assoc)
  qed simp
qed

end
