(* ===== verification/Catalog_Refresh.thy ===== *)
theory Catalog_Refresh
  imports Catalog_Invariant Command_Bus
begin

text \<open>
  One refresh of a connection's catalog (\<open>crates/oxyn-exec/src/catalog.rs\<close>): what a read asks of the
  provider and publishes into the cache, which then says every part of it (\<open>patch_held\<close>). The provider is a parameter, one answer per operation of the
  trait; \<open>stop i\<close> says whether the token is cancelled when it is looked at for the \<open>i\<close>-th time.
\<close>

record provider =
  pr_server_info :: "server_info result"
  pr_catalogs :: "catalog_ref list result"
  pr_namespaces :: "string option \<Rightarrow> namespace_ref list result"
  pr_relations :: "catalog_path \<Rightarrow> relation_ref list result"
  pr_describe :: "catalog_path \<Rightarrow> relation result"
  pr_indexes :: "catalog_path \<Rightarrow> index_info list result"
  pr_foreign_keys :: "catalog_path \<Rightarrow> foreign_key list result"
  pr_constraints :: "catalog_path \<Rightarrow> constraint_info list result"
  pr_incoming :: "catalog_path \<Rightarrow> incoming_key list result"
  pr_definition :: "catalog_path \<Rightarrow> relation_definition result"
  pr_resolution_path :: "string list result"

text \<open>A single successful read; an absent part was not read.\<close>

record catalog_patch =
  pa_server :: "server_info option"
  pa_catalogs :: "catalog_ref list option"
  pa_namespaces :: "(string option \<times> namespace_ref list) option"
  pa_relations :: "(catalog_path \<times> relation_ref list) option"
  pa_relation :: "(catalog_path \<times> relation) option"
  pa_indexes :: "(catalog_path \<times> index_info list) option"
  pa_foreign_keys :: "(catalog_path \<times> foreign_key list) option"
  pa_constraints :: "(catalog_path \<times> constraint_info list) option"
  pa_incoming :: "(catalog_path \<times> incoming_key list) option"
  pa_definition :: "(catalog_path \<times> relation_definition) option"
  pa_resolution :: "string list option"

definition empty_patch :: catalog_patch where
  "empty_patch =
     \<lparr>pa_server = None, pa_catalogs = None, pa_namespaces = None, pa_relations = None, pa_relation = None,
      pa_indexes = None, pa_foreign_keys = None, pa_constraints = None, pa_incoming = None,
      pa_definition = None, pa_resolution = None\<rparr>"

definition part_count :: "('a \<times> 'b list) option \<Rightarrow> nat" where
  "part_count o' = (case o' of None \<Rightarrow> 0 | Some (_, xs) \<Rightarrow> length xs)"

definition object_count :: "catalog_patch \<Rightarrow> nat" where
  "object_count p =
     (if pa_server p \<noteq> None then 1 else 0)
     + (case pa_catalogs p of None \<Rightarrow> 0 | Some cs \<Rightarrow> length cs)
     + part_count (pa_namespaces p) + part_count (pa_relations p)
     + (case pa_relation p of None \<Rightarrow> 0 | Some (_, r) \<Rightarrow> 1 + length (rel_fields r))
     + part_count (pa_constraints p) + part_count (pa_incoming p)
     + (if pa_definition p \<noteq> None then 1 else 0)
     + (case pa_resolution p of None \<Rightarrow> 0 | Some ns \<Rightarrow> length ns)
     + part_count (pa_indexes p) + part_count (pa_foreign_keys p)"

subsection \<open>Reading\<close>

definition check_cancel :: "bool \<Rightarrow> unit result" where
  "check_cancel stopped = (if stopped then Inl ECancelled else Inr ())"

definition scope_target :: "string option \<Rightarrow> string option \<Rightarrow> string option \<Rightarrow> catalog_path result" where
  "scope_target c n r = map_sum (\<lambda>_. EConfig ''invalid catalog scope identifier'') id (from_levels c n r)"

text \<open>A read the session's capabilities gate: without the capability nothing is asked.\<close>

definition gated :: "capabilities \<Rightarrow> nat \<Rightarrow> bool \<Rightarrow> 'a result \<Rightarrow> 'a option result" where
  "gated caps n stopped ask =
     (if caps_contains caps (flag n)
      then and_then (check_cancel stopped) (\<lambda>_. map_sum id Some ask)
      else Inr None)"

fun read_scope ::
  "provider \<Rightarrow> capabilities \<Rightarrow> (nat \<Rightarrow> bool) \<Rightarrow> catalog_refresh_scope \<Rightarrow> catalog_patch result" where
  "read_scope pr caps stop Root =
     and_then (pr_server_info pr) (\<lambda>server.
     and_then (check_cancel (stop 1)) (\<lambda>_.
     let patch = empty_patch\<lparr>pa_server := Some (server\<lparr>si_capabilities := caps\<rparr>)\<rparr> in
     and_then (pr_catalogs pr) (\<lambda>catalogs.
     and_then (check_cancel (stop 2)) (\<lambda>_.
       if catalogs \<noteq> [] then Inr (patch\<lparr>pa_catalogs := Some catalogs\<rparr>)
       else if caps_contains caps (flag 0) then
         and_then (pr_namespaces pr None) (\<lambda>ns.
           Inr (patch\<lparr>pa_namespaces := Some (None, ns), pa_catalogs := Some catalogs\<rparr>))
       else and_then (pr_relations pr path_empty) (\<lambda>rs.
           Inr (patch\<lparr>pa_relations := Some (path_empty, rs), pa_catalogs := Some catalogs\<rparr>))))))"
| "read_scope pr caps stop (Namespaces c) =
     and_then (scope_target c None None) (\<lambda>_.
       if \<not> caps_contains caps (flag 0) then Inl (ENotSupported ''SCHEMAS'')
       else and_then (pr_namespaces pr c) (\<lambda>ns. Inr (empty_patch\<lparr>pa_namespaces := Some (c, ns)\<rparr>)))"
| "read_scope pr caps stop (ScopeRelations c n) =
     and_then (scope_target c n None) (\<lambda>p.
     and_then (pr_relations pr p) (\<lambda>rs. Inr (empty_patch\<lparr>pa_relations := Some (p, rs)\<rparr>)))"
| "read_scope pr caps stop (Relation c n r) =
     and_then (scope_target c n (Some r)) (\<lambda>p.
     and_then (pr_describe pr p) (\<lambda>detail.
     and_then (gated caps 4 (stop 1) (pr_indexes pr p)) (\<lambda>ixs.
     and_then (gated caps 6 (stop (if ixs = None then 1 else 2)) (pr_foreign_keys pr p)) (\<lambda>keys.
       Inr (empty_patch\<lparr>pa_indexes := map_option (Pair p) ixs, pa_foreign_keys := map_option (Pair p) keys,
              pa_relation := Some (p, detail)\<rparr>)))))"
| "read_scope pr caps stop (ScopeConstraints c n r) =
     and_then (caps_require caps (flag 5)) (\<lambda>_.
     and_then (scope_target c n (Some r)) (\<lambda>p.
     and_then (pr_describe pr p) (\<lambda>detail.
     and_then (check_cancel (stop 1)) (\<lambda>_.
     and_then (pr_constraints pr p) (\<lambda>v.
       Inr (empty_patch\<lparr>pa_constraints := Some (p, v), pa_relation := Some (p, detail)\<rparr>))))))"
| "read_scope pr caps stop (IncomingForeignKeys c n r) =
     and_then (caps_require caps (flag 14)) (\<lambda>_.
     and_then (scope_target c n (Some r)) (\<lambda>p.
     and_then (pr_describe pr p) (\<lambda>detail.
     and_then (check_cancel (stop 1)) (\<lambda>_.
     and_then (pr_incoming pr p) (\<lambda>v.
       Inr (empty_patch\<lparr>pa_incoming := Some (p, v), pa_relation := Some (p, detail)\<rparr>))))))"
| "read_scope pr caps stop (Definition c n r) =
     and_then (caps_require caps (flag 15)) (\<lambda>_.
     and_then (scope_target c n (Some r)) (\<lambda>p.
     and_then (pr_describe pr p) (\<lambda>detail.
     and_then (check_cancel (stop 1)) (\<lambda>_.
     and_then (pr_definition pr p) (\<lambda>d.
     and_then (definition_validate d) (\<lambda>_.
       Inr (empty_patch\<lparr>pa_definition := Some (p, d), pa_relation := Some (p, detail)\<rparr>)))))))"
| "read_scope pr caps stop ResolutionPath =
     (case pr_resolution_path pr of
        Inr ns \<Rightarrow> Inr (empty_patch\<lparr>pa_resolution := Some ns\<rparr>)
      | Inl (ENotSupported _) \<Rightarrow> Inr empty_patch
      | Inl e \<Rightarrow> Inl e)"

text \<open>How often the token was looked at before the last look.\<close>

fun checks_made :: "capabilities \<Rightarrow> catalog_refresh_scope \<Rightarrow> nat" where
  "checks_made caps Root = 3"
| "checks_made caps (Relation c n r) = 1 + (if caps_contains caps (flag 4) then 1 else 0)
     + (if caps_contains caps (flag 6) then 1 else 0)"
| "checks_made caps (ScopeConstraints c n r) = 2"
| "checks_made caps (IncomingForeignKeys c n r) = 2"
| "checks_made caps (Definition c n r) = 2"
| "checks_made caps scope = 1"

definition catalog_read ::
  "provider \<Rightarrow> capabilities \<Rightarrow> (nat \<Rightarrow> bool) \<Rightarrow> catalog_refresh_scope \<Rightarrow> catalog_patch result" where
  "catalog_read pr caps stop scope =
     and_then (check_cancel (stop 0)) (\<lambda>_.
     and_then (read_scope pr caps stop scope) (\<lambda>patch.
     and_then (check_cancel (stop (checks_made caps scope))) (\<lambda>_. Inr patch)))"

subsection \<open>Publishing\<close>

text \<open>
  A step changes the cache and may fail, keeping what was written before it; \<open>None\<close> does not end.
\<close>

type_synonym cache_step = "catalog_cache \<Rightarrow> (unit result \<times> catalog_cache) option"

definition cache_failure :: "cache_error \<Rightarrow> oxyn_error" where
  "cache_failure e = EInternal (cache_error_display e)"

definition published :: "catalog_cache \<Rightarrow> (cache_error + catalog_cache) \<Rightarrow> unit result \<times> catalog_cache" where
  "published c r = (case r of Inl e \<Rightarrow> (Inl (cache_failure e), c) | Inr c' \<Rightarrow> (Inr (), c'))"

definition when_read :: "'a option \<Rightarrow> ('a \<Rightarrow> cache_step) \<Rightarrow> cache_step" where
  "when_read part f c = (case part of None \<Rightarrow> Some (Inr (), c) | Some x \<Rightarrow> f x c)"

fun in_turn :: "cache_step list \<Rightarrow> cache_step" where
  "in_turn [] c = Some (Inr (), c)"
| "in_turn (f # fs) c =
     (case f c of
        None \<Rightarrow> None
      | Some (Inl e, c1) \<Rightarrow> Some (Inl e, c1)
      | Some (Inr _, c1) \<Rightarrow> in_turn fs c1)"

definition apply_patch :: "int \<Rightarrow> catalog_patch \<Rightarrow> cache_step" where
  "apply_patch now patch = in_turn
     [when_read (pa_server patch) (\<lambda>i c. Some (Inr (), set_server_info now i c)),
      when_read (pa_catalogs patch) (\<lambda>v c. Some (Inr (), set_catalogs now v c)),
      when_read (pa_namespaces patch) (\<lambda>(i, v) c. Some (Inr (), set_namespaces now i v c)),
      when_read (pa_relations patch) (\<lambda>(p, v) c. Some (published c (set_relations now p v c))),
      when_read (pa_relation patch) (\<lambda>(p, v) c. Some (published c (set_relation now p v c))),
      when_read (pa_indexes patch) (\<lambda>(p, v) c. Some (published c (set_indexes now p v c))),
      when_read (pa_foreign_keys patch) (\<lambda>(p, v) c. Some (published c (set_foreign_keys now p v c))),
      when_read (pa_constraints patch) (\<lambda>(p, v) c. Some (published c (set_constraints now p v c))),
      when_read (pa_incoming patch) (\<lambda>(p, v) c. Some (published c (set_incoming_foreign_keys now p v c))),
      when_read (pa_definition patch) (\<lambda>(p, v) c. map_option (published c) (set_definition now p v c)),
      when_read (pa_resolution patch) (\<lambda>v c. Some (Inr (), set_resolution_path now v c))]"

subsection \<open>What a read asks and publishes\<close>

lemma check_cancel_Inr [simp]: "check_cancel b = Inr u \<longleftrightarrow> \<not> b"
  by (simp add: check_cancel_def)

lemma scope_target_ok: "scope_target c n r = Inr p \<Longrightarrow> from_levels c n r = Inr p"
  by (cases "from_levels c n r") (auto simp: scope_target_def)

lemma scope_target_path:
  assumes "scope_target c n r = Inr p"
  shows "p = \<lparr>cp_catalog = c, cp_namespace = n, cp_relation = r\<rparr>" "named_levels p"
  using path_ok_named [OF from_levels_ok [OF scope_target_ok [OF assms]]] scope_target_ok [OF assms]
  by (cases "validate_segments (present [c, n, r])"; simp add: from_levels_def)+

lemma gated_Inr:
  "gated caps n stopped ask = Inr v \<longleftrightarrow>
     (if caps_contains caps (flag n) then \<not> stopped \<and> (\<exists>x. ask = Inr x \<and> v = Some x) else v = None)"
  by (cases ask) (auto simp: gated_def and_then_Inr_iff)

lemma scope_target_levels: "scope_target c n r = Inr p \<Longrightarrow> cp_relation p = r \<and> named_levels p"
  using scope_target_path [of c n r p] by simp

text \<open>A cancelled token is never published for.\<close>

lemma cancelled_reads_nothing:
  "stop 0 \<or> stop (checks_made caps scope) \<Longrightarrow> \<not> (\<exists>patch. catalog_read pr caps stop scope = Inr patch)"
  by (auto simp: catalog_read_def and_then_Inr_iff)

text \<open>What a patch may hold, for its publication to succeed: the paths are valid, the relation described
  is the one every detail is of, and a definition is within its limits.\<close>

definition patch_ok :: "catalog_patch \<Rightarrow> bool" where
  "patch_ok patch \<longleftrightarrow>
     (\<forall>p v. pa_relations patch = Some (p, v) \<longrightarrow> named_levels p \<and> cp_relation p = None)
     \<and> (\<forall>p v. pa_relation patch = Some (p, v) \<longrightarrow> named_levels p \<and> cp_relation p \<noteq> None)
     \<and> (\<forall>p v. pa_indexes patch = Some (p, v) \<longrightarrow> map_option fst (pa_relation patch) = Some p)
     \<and> (\<forall>p v. pa_foreign_keys patch = Some (p, v) \<longrightarrow> map_option fst (pa_relation patch) = Some p)
     \<and> (\<forall>p v. pa_constraints patch = Some (p, v) \<longrightarrow> map_option fst (pa_relation patch) = Some p)
     \<and> (\<forall>p v. pa_incoming patch = Some (p, v) \<longrightarrow> map_option fst (pa_relation patch) = Some p)
     \<and> (\<forall>p v. pa_definition patch = Some (p, v) \<longrightarrow> map_option fst (pa_relation patch) = Some p
          \<and> definition_validate v = Inr ())"

lemma read_patch_ok:
  assumes "catalog_read pr caps stop scope = Inr patch"
  shows "patch_ok patch"
proof -
  have "read_scope pr caps stop scope = Inr patch" using assms by (auto simp: catalog_read_def and_then_Inr_iff)
  then show ?thesis
  proof (cases scope)
    case Root
    with \<open>read_scope pr caps stop scope = Inr patch\<close> show ?thesis
      by (auto simp: and_then_Inr_iff Let_def patch_ok_def empty_patch_def path_empty_def named_levels_def
          split: if_splits)
  next
    case (Definition c n r)
    with \<open>read_scope pr caps stop scope = Inr patch\<close> show ?thesis
      by (auto simp: and_then_Inr_iff patch_ok_def empty_patch_def dest!: scope_target_levels)
  next
    case ResolutionPath
    with \<open>read_scope pr caps stop scope = Inr patch\<close> show ?thesis
      by (auto simp: patch_ok_def empty_patch_def split: sum.splits oxyn_error.splits)
  qed (auto simp: and_then_Inr_iff gated_Inr patch_ok_def empty_patch_def dest!: scope_target_levels split: if_splits)
qed

text \<open>A step that succeeds and keeps what the following ones rely on.\<close>

lemma in_turn_ok:
  assumes "I c" "\<And>f d. f \<in> set fs \<Longrightarrow> I d \<Longrightarrow> \<exists>d'. f d = Some (Inr (), d') \<and> I d'"
  shows "\<exists>c'. in_turn fs c = Some (Inr (), c') \<and> I c'"
  using assms
proof (induction fs arbitrary: c)
  case (Cons f fs)
  from Cons.prems obtain d where "f c = Some (Inr (), d)" "I d" by (meson list.set_intros(1))
  with Cons.IH [of d] Cons.prems(2) show ?case by simp
qed simp

lemma in_turn_append:
  "in_turn (fs @ gs) c = (case in_turn fs c of
      None \<Rightarrow> None | Some (Inl e, d) \<Rightarrow> Some (Inl e, d) | Some (Inr _, d) \<Rightarrow> in_turn gs d)"
  by (induction fs arbitrary: c) (auto split: option.split sum.split)

lemma set_relation_known:
  assumes "cp_relation p \<noteq> None"
  obtains c' where "set_relation now p r c = Inr c'" "relation_node p c' \<noteq> None"
proof -
  obtain c' where c': "set_relation now p r c = Inr c'" using assms by (auto simp: set_relation_def)
  from set_relation_get [OF this, of p] have "relation_node p c' \<noteq> None"
    by (cases "relation_node p c'") (auto simp: same_relation_def same_namespace_def cached_relation_def)
  with c' that show thesis by blast
qed

text \<open>A detail of a relation the cache knows is published, and the relation stays known.\<close>

lemma detail_published:
  assumes "relation_detail get put" "\<And>now p v. put now p v = on_known p (f now v)"
    and "\<And>now v n. rn_summary (f now v n) = rn_summary n"
    and "cache_ok c" "relation_node p c \<noteq> None"
  shows "\<exists>c'. published c (put now p v c) = (Inr (), c') \<and> cache_ok c' \<and> relation_node p c' \<noteq> None"
proof -
  obtain c' where c': "put now p v c = Inr c'" using relation_detail.put_known [OF assms(1)] assms(5) by metis
  have "cache_ok c'" by (rule on_known_ok [OF c' [unfolded assms(2)] assms(3,4)])
  moreover have "relation_node p c' \<noteq> None" using relation_detail.put_nodes [OF assms(1) c'] assms(5) by simp
  ultimately show ?thesis by (simp add: published_def c')
qed

definition described :: "catalog_patch \<Rightarrow> catalog_cache \<Rightarrow> bool" where
  "described patch d \<longleftrightarrow> cache_ok d \<and> (\<forall>p v. pa_relation patch = Some (p, v) \<longrightarrow> relation_node p d \<noteq> None)"

lemma detail_step:
  assumes "relation_detail get put" "\<And>now p v. put now p v = on_known p (f now v)"
    and "\<And>now v n. rn_summary (f now v n) = rn_summary n"
    and "\<forall>p v. part = Some (p, v) \<longrightarrow> map_option fst (pa_relation patch) = Some p" "described patch d"
  shows "\<exists>d'. when_read part (\<lambda>(p, v) c. Some (published c (put now p v c))) d = Some (Inr (), d') \<and> described patch d'"
proof (cases part)
  case (Some e)
  obtain p v where e: "e = (p, v)" by fastforce
  with Some assms(4) obtain r where r: "pa_relation patch = Some (p, r)" by fastforce
  with assms(5) have "cache_ok d" "relation_node p d \<noteq> None" by (auto simp: described_def)
  from detail_published [OF assms(1-3) this, of now v] r show ?thesis
    by (auto simp: when_read_def Some e described_def)
qed (use assms(5) in \<open>simp add: when_read_def\<close>)

lemma definition_step:
  assumes "\<forall>p v. pa_definition patch = Some (p, v) \<longrightarrow> map_option fst (pa_relation patch) = Some p
      \<and> definition_validate v = Inr ()" "described patch d" "patch_ok patch"
  shows "\<exists>d'. when_read (pa_definition patch) (\<lambda>(p, v) c. map_option (published c) (set_definition now p v c)) d
    = Some (Inr (), d') \<and> described patch d'"
proof (cases "pa_definition patch")
  case (Some e)
  obtain p v where e: "e = (p, v)" by fastforce
  with Some assms(1) obtain r where r: "pa_relation patch = Some (p, r)" "definition_validate v = Inr ()" by fastforce
  with assms(2,3) have d: "cache_ok d" "relation_node p d \<noteq> None" "named_levels p"
    by (auto simp: described_def patch_ok_def)
  from set_definition_bounded [OF d(1,3) r(2), of now] d(2) obtain d' where
    "set_definition now p v d = Some (Inr d')" "cache_ok d'" "cached_definition p d' = Some v" by metis
  moreover from this(3) have "relation_node p d' \<noteq> None"
    by (cases "relation_node p d'") (auto simp: cached_definition_def)
  ultimately show ?thesis using r(1) by (auto simp: when_read_def Some e described_def published_def)
qed (use assms(2) in \<open>simp add: when_read_def\<close>)

lemma set_server_info_ok: "cache_ok (set_server_info now i c) = cache_ok c"
  "relation_node p (set_resolution_path now v c) = relation_node p c"
  "cache_ok (set_resolution_path now v c) = cache_ok c"
  by (simp_all add: set_server_info_def set_resolution_path_def cache_ok_def relation_node_def namespace_node_def
      catalog_node_def split: option.split)

lemma patch_published:
  assumes "patch_ok patch" "cache_ok c"
  shows "\<exists>c'. apply_patch now patch c = Some (Inr (), c') \<and> cache_ok c'"
proof -
  let ?lists = "[when_read (pa_server patch) (\<lambda>i c. Some (Inr (), set_server_info now i c)),
      when_read (pa_catalogs patch) (\<lambda>v c. Some (Inr (), set_catalogs now v c)),
      when_read (pa_namespaces patch) (\<lambda>(i, v) c. Some (Inr (), set_namespaces now i v c)),
      when_read (pa_relations patch) (\<lambda>(p, v) c. Some (published c (set_relations now p v c)))]"
  let ?one = "when_read (pa_relation patch) (\<lambda>(p, v) c. Some (published c (set_relation now p v c)))"
  let ?details = "[when_read (pa_indexes patch) (\<lambda>(p, v) c. Some (published c (set_indexes now p v c))),
      when_read (pa_foreign_keys patch) (\<lambda>(p, v) c. Some (published c (set_foreign_keys now p v c))),
      when_read (pa_constraints patch) (\<lambda>(p, v) c. Some (published c (set_constraints now p v c))),
      when_read (pa_incoming patch) (\<lambda>(p, v) c. Some (published c (set_incoming_foreign_keys now p v c))),
      when_read (pa_definition patch) (\<lambda>(p, v) c. map_option (published c) (set_definition now p v c)),
      when_read (pa_resolution patch) (\<lambda>v c. Some (Inr (), set_resolution_path now v c))]"
  have lists: "\<exists>c'. in_turn ?lists c = Some (Inr (), c') \<and> cache_ok c'"
  proof (rule in_turn_ok [where I = cache_ok])
    fix f d
    assume f: "f \<in> set ?lists" and d: "cache_ok d"
    consider "f = ?lists ! 0" | "f = ?lists ! 1" | "f = ?lists ! 2" | "f = ?lists ! 3" using f by auto
    then show "\<exists>d'. f d = Some (Inr (), d') \<and> cache_ok d'"
    proof cases
      case 4
      show ?thesis
      proof (cases "pa_relations patch")
        case (Some e)
        obtain p v where e: "e = (p, v)" by fastforce
        with Some assms(1) have p: "named_levels p" "cp_relation p = None" by (auto simp: patch_ok_def)
        then obtain d' where d': "set_relations now p v d = Inr d'" by (auto simp: set_relations_def)
        from set_relations_ok [OF this d p(1)] d' show ?thesis by (simp add: 4 when_read_def Some e published_def)
      qed (simp add: 4 when_read_def d)
    qed (use d in \<open>auto simp: when_read_def set_catalogs_ok set_namespaces_ok set_server_info_ok
        split: option.split\<close>)
  qed (rule assms(2))
  then obtain c1 where c1: "in_turn ?lists c = Some (Inr (), c1)" "cache_ok c1" by blast
  have one: "\<exists>c'. ?one c1 = Some (Inr (), c') \<and> described patch c'"
  proof (cases "pa_relation patch")
    case (Some e)
    obtain p v where e: "e = (p, v)" by fastforce
    with Some assms(1) have p: "named_levels p" "cp_relation p \<noteq> None" by (auto simp: patch_ok_def)
    obtain c' where c': "set_relation now p v c1 = Inr c'" "relation_node p c' \<noteq> None"
      using set_relation_known [OF p(2)] by blast
    from set_relation_ok [OF c'(1) c1(2) p(1)] c' show ?thesis by (simp add: when_read_def Some e published_def described_def)
  qed (use c1 in \<open>simp add: when_read_def described_def\<close>)
  then obtain c2 where c2: "?one c1 = Some (Inr (), c2)" "described patch c2" by blast
  have "\<exists>c'. in_turn ?details c2 = Some (Inr (), c') \<and> described patch c'"
  proof (rule in_turn_ok [where I = "described patch"])
    show "described patch c2" by (rule c2(2))
    fix f d
    assume f: "f \<in> set ?details" and d: "described patch d"
    show "\<exists>d'. f d = Some (Inr (), d') \<and> described patch d'"
    proof -
      consider "f = ?details ! 0" | "f = ?details ! 1" | "f = ?details ! 2" | "f = ?details ! 3"
        | "f = ?details ! 4" | "f = ?details ! 5" using f by auto
      then show ?thesis
      proof cases
        case 1
        then show ?thesis using assms(1)
          by (simp, intro detail_step [OF indexes.relation_detail_axioms set_indexes_def _ _ d])
            (simp_all add: patch_ok_def)
      next
        case 2
        then show ?thesis using assms(1)
          by (simp, intro detail_step [OF foreign_keys.relation_detail_axioms set_foreign_keys_def _ _ d])
            (simp_all add: patch_ok_def)
      next
        case 3
        then show ?thesis using assms(1)
          by (simp, intro detail_step [OF constraints.relation_detail_axioms set_constraints_def _ _ d])
            (simp_all add: patch_ok_def)
      next
        case 4
        then show ?thesis using assms(1)
          by (simp, intro detail_step [OF incoming.relation_detail_axioms set_incoming_foreign_keys_def _ _ d])
            (simp_all add: patch_ok_def)
      next
        case 5
        then show ?thesis using assms(1) by (simp, intro definition_step [OF _ d]) (simp_all add: patch_ok_def)
      qed (use d in \<open>simp add: when_read_def described_def set_server_info_ok split: option.split\<close>)
    qed
  qed
  then obtain c3 where "in_turn ?details c2 = Some (Inr (), c3)" "cache_ok c3" by (auto simp: described_def)
  moreover have "apply_patch now patch c = in_turn (?lists @ ?one # ?details) c" by (simp add: apply_patch_def)
  ultimately show ?thesis using c1 c2 by (simp only: in_turn_append) simp
qed

text \<open>A description, and a detail, touch no other detail.\<close>

lemma same_relation_refl [simp]: "same_relation p p"
  by (simp add: same_relation_def same_namespace_def)

lemma set_relation_details:
  assumes "set_relation now p r c = Inr c'"
  shows "cached_indexes q c' = cached_indexes q c" "cached_foreign_keys q c' = cached_foreign_keys q c"
proof -
  obtain name where name: "cp_relation p = Some name"
    and c': "c' = on_relation p (\<lambda>n. n\<lparr>rn_detail := read_now now
       (Some (r\<lparr>rel_fields := bound_fields (rel_fields r)\<rparr>)) (rn_detail n)\<rparr>) (ensure_relation p name (rel_kind r) c)"
    using assms by (auto simp: set_relation_def split: option.splits)
  note same = relation_node_same [of q p c]
  show "cached_indexes q c' = cached_indexes q c"
    using same by (auto simp: c' cached_indexes_def relation_node_on_relation relation_node_ensure_relation [OF name]
        relation_node_new_def split: option.splits)
  show "cached_foreign_keys q c' = cached_foreign_keys q c"
    using same by (auto simp: c' cached_foreign_keys_def relation_node_on_relation
        relation_node_ensure_relation [OF name] relation_node_new_def split: option.splits)
qed

lemma set_indexes_others:
  assumes "set_indexes now p v c = Inr c'"
  shows "cached_relation q c' = cached_relation q c" "cached_foreign_keys q c' = cached_foreign_keys q c"
  using on_known_node [OF assms [unfolded set_indexes_def]] relation_node_same [of q p c]
  by (auto simp: cached_relation_def cached_foreign_keys_def)

lemma set_foreign_keys_others:
  assumes "set_foreign_keys now p v c = Inr c'"
  shows "cached_relation q c' = cached_relation q c" "cached_indexes q c' = cached_indexes q c"
  using on_known_node [OF assms [unfolded set_foreign_keys_def]] relation_node_same [of q p c]
  by (auto simp: cached_relation_def cached_indexes_def)

text \<open>
  After the refresh of a relation its description is the provider's, and so are its indexes and foreign
  keys where the session can list them; where it cannot, what the cache says of them stays as it was.
\<close>

lemma when_read_simps: "when_read None g c = Some (Inr (), c)" "when_read (Some x) g c = g x c"
  by (simp_all add: when_read_def)

lemma in_turn_done:
  "in_turn (f # fs) c = Some (Inr (), c') \<longleftrightarrow> (\<exists>d. f c = Some (Inr (), d) \<and> in_turn fs d = Some (Inr (), c'))"
  by (auto split: option.splits sum.splits)

lemma relation_patch_says:
  assumes "apply_patch now (empty_patch\<lparr>pa_indexes := map_option (Pair p) ixs,
      pa_foreign_keys := map_option (Pair p) keys, pa_relation := Some (p, detail)\<rparr>) cache = Some (Inr (), cache')"
    and "cp_relation p \<noteq> None"
  shows "cached_relation p cache' = Some (detail\<lparr>rel_fields := bound_fields (rel_fields detail)\<rparr>)
    \<and> cached_indexes p cache' = (if ixs = None then cached_indexes p cache else ixs)
    \<and> cached_foreign_keys p cache' = (if keys = None then cached_foreign_keys p cache else keys)"
proof -
  obtain c1 where c1: "set_relation now p detail cache = Inr c1" using set_relation_known [OF assms(2)] by metis
  note said = set_relation_get [OF c1, of p] set_relation_details [OF c1, of p]
  have done': "published d (Inr d') = (Inr (), d')" for d d' by (simp add: published_def)
  obtain c2 where c2: "when_read (map_option (Pair p) ixs) (\<lambda>(p, v) c. Some (published c (set_indexes now p v c))) c1
      = Some (Inr (), c2)"
    and c3: "when_read (map_option (Pair p) keys) (\<lambda>(p, v) c. Some (published c (set_foreign_keys now p v c))) c2
      = Some (Inr (), cache')"
    using assms(1) by (auto simp: apply_patch_def empty_patch_def when_read_simps c1 done' in_turn_done simp del: in_turn.simps(2))
  have two: "cached_relation p c2 = cached_relation p c1 \<and> cached_foreign_keys p c2 = cached_foreign_keys p c1
      \<and> cached_indexes p c2 = (if ixs = None then cached_indexes p c1 else ixs)"
  proof (cases ixs)
    case (Some v)
    with c2 have "set_indexes now p v c1 = Inr c2" by (auto simp: when_read_def published_def split: sum.splits)
    from set_indexes_others [OF this] indexes.put_get [OF this, of p] show ?thesis by (simp add: Some)
  qed (use c2 in \<open>simp add: when_read_def\<close>)
  have "cached_relation p cache' = cached_relation p c2 \<and> cached_indexes p cache' = cached_indexes p c2
      \<and> cached_foreign_keys p cache' = (if keys = None then cached_foreign_keys p c2 else keys)"
  proof (cases keys)
    case (Some v)
    with c3 have "set_foreign_keys now p v c2 = Inr cache'" by (auto simp: when_read_def published_def split: sum.splits)
    from set_foreign_keys_others [OF this] foreign_keys.put_get [OF this, of p] show ?thesis by (simp add: Some)
  qed (use c3 in \<open>simp add: when_read_def\<close>)
  with two said show ?thesis by simp
qed

definition listed_if :: "capabilities \<Rightarrow> nat \<Rightarrow> 'a result \<Rightarrow> 'a option \<Rightarrow> 'a option" where
  "listed_if caps n ask old = (if caps_contains caps (flag n) then (case ask of Inr v \<Rightarrow> Some v | Inl e \<Rightarrow> None) else old)"

lemma gated_listed: "gated caps n stopped ask = Inr v \<Longrightarrow> listed_if caps n ask old = (if v = None then old else v)"
  by (auto simp: gated_Inr listed_if_def split: if_splits)

lemma relation_refresh_says:
  assumes "catalog_read pr caps stop (Relation c n r) = Inr patch"
    and "apply_patch now patch cache = Some (Inr (), cache')"
    and p: "p = \<lparr>cp_catalog = c, cp_namespace = n, cp_relation = Some r\<rparr>"
  obtains detail where "pr_describe pr p = Inr detail"
    "cached_relation p cache' = Some (detail\<lparr>rel_fields := bound_fields (rel_fields detail)\<rparr>)"
    "cached_indexes p cache' = listed_if caps 4 (pr_indexes pr p) (cached_indexes p cache)"
    "cached_foreign_keys p cache' = listed_if caps 6 (pr_foreign_keys pr p) (cached_foreign_keys p cache)"
proof -
  have "read_scope pr caps stop (Relation c n r) = Inr patch" using assms(1) by (auto simp: catalog_read_def and_then_Inr_iff)
  then obtain q detail ixs keys where t: "scope_target c n (Some r) = Inr q" "pr_describe pr q = Inr detail"
    "gated caps 4 (stop 1) (pr_indexes pr q) = Inr ixs"
    "gated caps 6 (stop (if ixs = None then 1 else 2)) (pr_foreign_keys pr q) = Inr keys"
    and patch: "patch = empty_patch\<lparr>pa_indexes := map_option (Pair q) ixs,
      pa_foreign_keys := map_option (Pair q) keys, pa_relation := Some (q, detail)\<rparr>"
    by (auto simp: and_then_Inr_iff)
  have q: "q = p" using scope_target_path(1) [OF t(1)] p by simp
  have "cp_relation p \<noteq> None" by (simp add: p)
  from relation_patch_says [OF assms(2) [unfolded patch q] this] show thesis
    using that [of detail] t gated_listed [OF t(3)] gated_listed [OF t(4)] by (simp add: q)
qed

subsection \<open>A read is published whole\<close>

text \<open>The last of a listing under a name, and a listing held: each name of it, and no other, with what the
  last of that name said.\<close>

definition last_named :: "('i \<Rightarrow> string) \<Rightarrow> 'i list \<Rightarrow> string \<Rightarrow> 'i option" where
  "last_named name infos k = find (\<lambda>i. name i = k) (rev infos)"

definition lists :: "('i \<Rightarrow> string) \<Rightarrow> ('i \<Rightarrow> 's) \<Rightarrow> 'i list \<Rightarrow> ('n \<Rightarrow> 's) \<Rightarrow> (string \<times> 'n) list \<Rightarrow> bool" where
  "lists name said infos shown m \<longleftrightarrow> (\<forall>k. map_option shown (map_of m k) = map_option said (last_named name infos k))"

text \<open>Every part of a patch is what the cache says.\<close>

definition patch_held :: "catalog_patch \<Rightarrow> catalog_cache \<Rightarrow> bool" where
  "patch_held patch c \<longleftrightarrow>
     (\<forall>i. pa_server patch = Some i \<longrightarrow> ca_value (ch_server c) = Some i)
     \<and> (\<forall>v. pa_catalogs patch = Some v \<and> v \<noteq> [] \<longrightarrow> lists cr_name Some v cn_info (ca_value (ch_catalogs c)))
     \<and> (\<forall>i v. pa_namespaces patch = Some (i, v) \<longrightarrow>
          (\<exists>cat. catalog_node i c = Some cat
             \<and> lists nr_name (\<lambda>j. Some (j\<lparr>nr_parent := only_catalog i\<rparr>)) v nn_info (ca_value (cn_namespaces cat))))
     \<and> (\<forall>p v. pa_relations patch = Some (p, v) \<longrightarrow>
          (\<exists>ns. namespace_node p c = Some ns
             \<and> lists rr_name (\<lambda>j. j\<lparr>rr_parent := p\<rparr>) v rn_summary (ca_value (nn_relations ns))))
     \<and> (\<forall>p r. pa_relation patch = Some (p, r) \<longrightarrow>
          cached_relation p c = Some (r\<lparr>rel_fields := bound_fields (rel_fields r)\<rparr>))
     \<and> (\<forall>p v. pa_indexes patch = Some (p, v) \<longrightarrow> cached_indexes p c = Some v)
     \<and> (\<forall>p v. pa_foreign_keys patch = Some (p, v) \<longrightarrow> cached_foreign_keys p c = Some v)
     \<and> (\<forall>p v. pa_constraints patch = Some (p, v) \<longrightarrow> cached_constraints p c = Some v)
     \<and> (\<forall>p v. pa_incoming patch = Some (p, v) \<longrightarrow> cached_incoming p c = Some v)
     \<and> (\<forall>p v. pa_definition patch = Some (p, v) \<longrightarrow> cached_definition p c = Some v)
     \<and> (\<forall>v. pa_resolution patch = Some v \<longrightarrow> ca_value (ch_resolution c) = Some v)"

lemma map_of_index_insert: "map_of (index_map_insert k d m) j = (if j = k then Some d else map_of m j)"
  by (induction m) auto

lemma relist_shown:
  assumes "\<And>i n. shown (again i n) = said i" "\<And>i. shown (new i) = said i"
  shows "map_option shown (map_of (relist name again new infos previous fresh) k)
    = (case last_named name infos k of Some i \<Rightarrow> Some (said i) | None \<Rightarrow> map_option shown (map_of fresh k))"
proof (induction infos arbitrary: previous fresh)
  case (Cons i infos)
  have "find P (xs @ ys) = (case find P xs of None \<Rightarrow> find P ys | Some x \<Rightarrow> Some x)" for P :: "'a \<Rightarrow> bool" and xs ys
    by (induction xs) auto
  then show ?case
    by (auto simp: Cons.IH last_named_def map_of_index_insert assms split: option.split)
qed (simp add: last_named_def)

lemma last_named_map:
  "(\<And>i. name (g i) = name i) \<Longrightarrow> last_named name (map g infos) k = map_option g (last_named name infos k)"
proof -
  assume "\<And>i. name (g i) = name i"
  then have "find (\<lambda>i. name i = k) (map g xs) = map_option g (find (\<lambda>i. name i = k) xs)" for xs
    by (induction xs) auto
  then show ?thesis by (simp add: last_named_def rev_map)
qed

lemma relist_lists:
  assumes "\<And>i n. shown (again i n) = said i" "\<And>i. shown (new i) = said i" "\<And>i. name (g i) = name i"
  shows "lists name (\<lambda>i. said (g i)) infos shown (relist name again new (map g infos) previous [])"
  using relist_shown [of shown again said new name "map g infos" previous "[]"] assms
  by (auto simp: lists_def last_named_map split: option.split)

lemma set_catalogs_lists: "lists cr_name Some v cn_info (ca_value (ch_catalogs (set_catalogs now v c)))"
  using relist_lists [of cn_info "\<lambda>i n. n\<lparr>cn_info := Some i\<rparr>" Some "\<lambda>i. \<lparr>cn_info = Some i, cn_namespaces = unread []\<rparr>"
      cr_name id v "ca_value (ch_catalogs c)"]
  by (simp add: set_catalogs_def)

lemma ensure_catalog_known: "catalog_node i (ensure_catalog i c) \<noteq> None"
  by (simp add: catalog_node_def ensure_catalog_def map_of_entry_or)

lemma set_namespaces_lists:
  "\<exists>cat. catalog_node i (set_namespaces now i v c) = Some cat
    \<and> lists nr_name (\<lambda>j. Some (j\<lparr>nr_parent := only_catalog i\<rparr>)) v nn_info (ca_value (cn_namespaces cat))"
proof -
  obtain cat where "catalog_node i (ensure_catalog i c) = Some cat"
    using ensure_catalog_known [of i c] by blast
  with relist_lists [of nn_info "\<lambda>i n. n\<lparr>nn_info := Some i\<rparr>" Some "\<lambda>i. \<lparr>nn_info = Some i, nn_relations = unread []\<rparr>"
      nr_name "\<lambda>j. j\<lparr>nr_parent := only_catalog i\<rparr>" v "ca_value (cn_namespaces cat)"] show ?thesis
    by (auto simp: set_namespaces_def catalog_node_on_catalog)
qed

lemma set_relations_lists:
  assumes "set_relations now p v c = Inr c'"
  shows "\<exists>ns. namespace_node p c' = Some ns
    \<and> lists rr_name (\<lambda>j. j\<lparr>rr_parent := p\<rparr>) v rn_summary (ca_value (nn_relations ns))"
proof -
  obtain cat where "catalog_node (cp_catalog p) (ensure_catalog (cp_catalog p) c) = Some cat"
    using ensure_catalog_known [of "cp_catalog p" c] by blast
  then have "namespace_node p (ensure_namespace p c) \<noteq> None"
    by (simp add: namespace_node_def ensure_namespace_def catalog_node_on_catalog namespace_in_def map_of_entry_or)
  then obtain ns where "namespace_node p (ensure_namespace p c) = Some ns" by blast
  with assms relist_lists [of rn_summary "\<lambda>i n. n\<lparr>rn_summary := i\<rparr>" "\<lambda>i. i" relation_node_new rr_name
      "\<lambda>j. j\<lparr>rr_parent := p\<rparr>" v "ca_value (nn_relations ns)"] show ?thesis
    by (auto simp: set_relations_def namespace_node_on_namespace same_namespace_def relation_node_new_def
        split: if_splits)
qed

text \<open>A detail read apart leaves the description.\<close>

lemma on_known_relation:
  assumes "on_known p f c = Inr c'" "\<And>n. rn_detail (f n) = rn_detail n"
  shows "cached_relation p c' = cached_relation p c"
  using on_known_node(1) [OF assms(1), of p] on_known_node(2) [OF assms(1)] by (auto simp: cached_relation_def assms(2) same_relation_def same_namespace_def)

lemma set_definition_relation:
  assumes "set_definition now p d c = Some (Inr c')" "cache_ok c" "named_levels p"
  shows "cached_relation p c' = cached_relation p c" "cached_definition p c' = Some d"
proof -
  let ?f = "\<lambda>n. n\<lparr>rn_definition := read_now now (Some d) (rn_definition n)\<rparr>"
  obtain c1 where c1: "on_known p ?f c = Inr c1" "evict_definitions p c1 = Some c'"
    using assms(1) by (auto simp: set_definition_def split: sum.splits)
  have "cache_ok c1" by (rule on_known_ok [OF c1(1) _ assms(2)]) simp
  from evict_definitions_left [OF c1(2) this assms(3)] have same: "relation_node p c' = relation_node p c1" by simp
  then show "cached_relation p c' = cached_relation p c"
    using on_known_relation [OF c1(1)] by (simp add: cached_relation_def)
  show "cached_definition p c' = Some d"
    using same on_known_node(1) [OF c1(1), of p] on_known_node(2) [OF c1(1)] by (auto simp: cached_definition_def)
qed

lemma published_done: "published c r = (Inr (), c') \<longleftrightarrow> r = Inr c'"
  by (auto simp: published_def split: sum.splits)

lemma detail_patch_held:
  assumes "relation_detail get put" "\<And>now p v. put now p v = on_known p (f now v)"
    and "\<And>now v n. rn_detail (f now v n) = rn_detail n"
    and "set_relation now p r c = Inr c1" "put now p v c1 = Inr c'"
  shows "cached_relation p c' = Some (r\<lparr>rel_fields := bound_fields (rel_fields r)\<rparr>)" "get p c' = Some v"
  using set_relation_get [OF assms(4), of p] on_known_relation [OF assms(5) [unfolded assms(2)] assms(3)]
    relation_detail.put_get [OF assms(1,5), of p] by simp_all

lemma constraints_patch_held:
  assumes "set_relation now p r c = Inr c1" "set_constraints now p v c1 = Inr c'"
  shows "cached_relation p c' = Some (r\<lparr>rel_fields := bound_fields (rel_fields r)\<rparr>)" "cached_constraints p c' = Some v"
  by (rule detail_patch_held [OF constraints.relation_detail_axioms set_constraints_def _ assms]; simp)+

lemma incoming_patch_held:
  assumes "set_relation now p r c = Inr c1" "set_incoming_foreign_keys now p v c1 = Inr c'"
  shows "cached_relation p c' = Some (r\<lparr>rel_fields := bound_fields (rel_fields r)\<rparr>)" "cached_incoming p c' = Some v"
  by (rule detail_patch_held [OF incoming.relation_detail_axioms set_incoming_foreign_keys_def _ assms]; simp)+

lemmas patch_steps = apply_patch_def empty_patch_def when_read_simps in_turn_done published_done

lemma root_patch_held:
  assumes "v \<noteq> [] \<and> patch = empty_patch\<lparr>pa_server := Some server, pa_catalogs := Some v\<rparr>
      \<or> v = [] \<and> (\<exists>ns. patch = empty_patch\<lparr>pa_server := Some server, pa_namespaces := Some (None, ns), pa_catalogs := Some v\<rparr>)
      \<or> v = [] \<and> (\<exists>rs. patch = empty_patch\<lparr>pa_server := Some server, pa_relations := Some (path_empty, rs), pa_catalogs := Some v\<rparr>)"
    and "apply_patch now patch c = Some (Inr (), c')"
  shows "patch_held patch c'"
proof -
  let ?s = "set_server_info now server c"
  consider (catalogs) "v \<noteq> []" "patch = empty_patch\<lparr>pa_server := Some server, pa_catalogs := Some v\<rparr>"
    | (namespaces) ns where "v = []" "patch = empty_patch\<lparr>pa_server := Some server, pa_namespaces := Some (None, ns), pa_catalogs := Some v\<rparr>"
    | (relations) rs where "v = []" "patch = empty_patch\<lparr>pa_server := Some server, pa_relations := Some (path_empty, rs), pa_catalogs := Some v\<rparr>"
    using assms(1) by blast
  then show ?thesis
  proof cases
    case catalogs
    with assms(2) have "c' = set_catalogs now v ?s" by (simp add: patch_steps)
    moreover have "ca_value (ch_server (set_catalogs now v ?s)) = Some server" by (simp add: set_catalogs_def set_server_info_def)
    ultimately show ?thesis by (simp add: patch_held_def catalogs(2) empty_patch_def set_catalogs_lists)
  next
    case namespaces
    with assms(2) have c': "c' = set_namespaces now None ns (set_catalogs now v ?s)" by (simp add: patch_steps)
    have "ca_value (ch_server c') = Some server"
      by (simp add: c' set_namespaces_def on_catalog_def ensure_catalog_def set_catalogs_def set_server_info_def)
    then show ?thesis using set_namespaces_lists [of None now ns "set_catalogs now v ?s"]
      by (simp add: patch_held_def namespaces(2) namespaces(1) empty_patch_def c')
  next
    case relations
    with assms(2) have c': "set_relations now path_empty rs (set_catalogs now v ?s) = Inr c'"
      by (simp add: patch_steps del: in_turn.simps(2))
    then have "ca_value (ch_server c') = Some server"
      by (auto simp: set_relations_def on_namespace_def on_catalog_def ensure_namespace_def ensure_catalog_def
          set_catalogs_def set_server_info_def split: if_splits)
    then show ?thesis using set_relations_lists [OF c']
      by (simp add: patch_held_def relations(2) relations(1) empty_patch_def)
  qed
qed

lemma read_patch_held:
  assumes "catalog_read pr caps stop scope = Inr patch" "cache_ok c" "apply_patch now patch c = Some (Inr (), c')"
  shows "patch_held patch c'"
proof -
  have read: "read_scope pr caps stop scope = Inr patch" using assms(1) by (auto simp: catalog_read_def and_then_Inr_iff)
  show ?thesis
  proof (cases scope)
    case Root
    with read obtain server v where server: "pr_server_info pr = Inr server" "pr_catalogs pr = Inr v"
      by (auto simp: and_then_Inr_iff Let_def)
    let ?server = "server\<lparr>si_capabilities := caps\<rparr>"
    have shape: "v \<noteq> [] \<and> patch = empty_patch\<lparr>pa_server := Some ?server, pa_catalogs := Some v\<rparr>
        \<or> v = [] \<and> (\<exists>ns. patch = empty_patch\<lparr>pa_server := Some ?server, pa_namespaces := Some (None, ns), pa_catalogs := Some v\<rparr>)
        \<or> v = [] \<and> (\<exists>rs. patch = empty_patch\<lparr>pa_server := Some ?server, pa_relations := Some (path_empty, rs), pa_catalogs := Some v\<rparr>)"
      using read unfolding Root by (cases "v = []") (auto simp: and_then_Inr_iff Let_def server split: if_splits)
    show ?thesis using root_patch_held [OF shape assms(3)] .
  next
    case (Namespaces i)
    then show ?thesis using read assms(3) set_namespaces_lists [of i now]
      by (auto simp: and_then_Inr_iff patch_held_def patch_steps split: if_splits simp del: in_turn.simps(2))
  next
    case (ScopeRelations i n)
    then show ?thesis using read assms(3) set_relations_lists [of now]
      by (auto simp: and_then_Inr_iff patch_held_def patch_steps simp del: in_turn.simps(2))
  next
    case (Relation i n r)
    then obtain p detail ixs keys where t: "scope_target i n (Some r) = Inr p"
      and patch: "patch = empty_patch\<lparr>pa_indexes := map_option (Pair p) ixs,
        pa_foreign_keys := map_option (Pair p) keys, pa_relation := Some (p, detail)\<rparr>"
      using read by (auto simp: and_then_Inr_iff)
    have "cp_relation p \<noteq> None" using scope_target_levels [OF t] by simp
    from relation_patch_says [OF assms(3) [unfolded patch] this] show ?thesis
      by (auto simp: patch patch_held_def empty_patch_def)
  next
    case (ScopeConstraints i n r)
    then show ?thesis using read assms(3)
      by (auto simp: and_then_Inr_iff patch_held_def patch_steps simp del: in_turn.simps(2)
          dest: constraints_patch_held)
  next
    case (IncomingForeignKeys i n r)
    then show ?thesis using read assms(3)
      by (auto simp: and_then_Inr_iff patch_held_def patch_steps simp del: in_turn.simps(2)
          dest: incoming_patch_held)
  next
    case (Definition i n r)
    then obtain p detail d where t: "scope_target i n (Some r) = Inr p"
      and patch: "patch = empty_patch\<lparr>pa_definition := Some (p, d), pa_relation := Some (p, detail)\<rparr>"
      using read by (auto simp: and_then_Inr_iff)
    obtain c1 where c1: "set_relation now p detail c = Inr c1" "set_definition now p d c1 = Some (Inr c')"
      using assms(3) by (auto simp: patch patch_steps simp del: in_turn.simps(2))
    have p: "named_levels p" using scope_target_levels [OF t] by simp
    from set_definition_relation [OF c1(2) set_relation_ok [OF c1(1) assms(2) p] p] set_relation_get [OF c1(1), of p]
    show ?thesis by (auto simp: patch patch_held_def empty_patch_def)
  next
    case ResolutionPath
    then show ?thesis using read assms(3)
      by (auto simp: patch_held_def patch_steps set_resolution_path_def simp del: in_turn.simps(2)
          split: sum.splits oxyn_error.splits)
  qed
qed

end
