(* ===== verification/Catalog_Budget.thy ===== *)
theory Catalog_Budget
  imports Catalog_Refresh "HOL-Library.Multiset"
begin

text \<open>
  The bound on one connection's catalog (\<open>crates/oxyn-exec/src/catalog/budget.rs\<close>): each publication is
  charged to its scope, evicting the least recently published scopes. The table of charges is a list, in
  the order the hash map is walked, which the source does not fix: what is proved holds for every order.
\<close>

definition max_catalog_scopes :: nat where "max_catalog_scopes = 1024"

definition max_catalog_objects :: nat where "max_catalog_objects = 50000"

record reservation =
  rs_objects :: nat
  rs_used :: nat

type_synonym charges = "(catalog_refresh_scope \<times> reservation) list"

record catalog_budget =
  bd_scopes :: charges
  bd_clock :: nat

definition budget_default :: catalog_budget where
  "budget_default = \<lparr>bd_scopes = [], bd_clock = 0\<rparr>"

subsection \<open>Where a scope's data lives\<close>

record anchor =
  an_catalog :: "string option"
  an_namespace :: "string option option"
  an_relation :: "string option"

fun anchor_of :: "catalog_refresh_scope \<Rightarrow> anchor option" where
  "anchor_of (Namespaces c) = Some \<lparr>an_catalog = c, an_namespace = None, an_relation = None\<rparr>"
| "anchor_of (ScopeRelations c n) = Some \<lparr>an_catalog = c, an_namespace = Some n, an_relation = None\<rparr>"
| "anchor_of (Relation c n r) = Some \<lparr>an_catalog = c, an_namespace = Some n, an_relation = Some r\<rparr>"
| "anchor_of (ScopeConstraints c n r) = Some \<lparr>an_catalog = c, an_namespace = Some n, an_relation = Some r\<rparr>"
| "anchor_of (IncomingForeignKeys c n r) = Some \<lparr>an_catalog = c, an_namespace = Some n, an_relation = Some r\<rparr>"
| "anchor_of (Definition c n r) = Some \<lparr>an_catalog = c, an_namespace = Some n, an_relation = Some r\<rparr>"
| "anchor_of Root = None"
| "anchor_of ResolutionPath = None"

definition anchor_covers :: "anchor \<Rightarrow> anchor \<Rightarrow> bool" where
  "anchor_covers a b \<longleftrightarrow> an_catalog a = an_catalog b
     \<and> (case (an_namespace a, an_relation a) of
          (None, _) \<Rightarrow> an_namespace b \<noteq> None
        | (Some n, None) \<Rightarrow> an_namespace b = Some n \<and> an_relation b \<noteq> None
        | (Some _, Some _) \<Rightarrow> False)"

definition scope_covers :: "catalog_refresh_scope \<Rightarrow> catalog_refresh_scope \<Rightarrow> bool" where
  "scope_covers s t \<longleftrightarrow> (case (anchor_of s, anchor_of t) of (Some a, Some b) \<Rightarrow> anchor_covers a b | _ \<Rightarrow> False)"

definition evictable :: "catalog_refresh_scope \<Rightarrow> catalog_refresh_scope \<times> reservation \<Rightarrow> bool" where
  "evictable scope e \<longleftrightarrow> anchor_of (fst e) \<noteq> None \<and> \<not> scope_covers (fst e) scope"

text \<open>Each narrow scope of a relation also published its description, dropped with the last of them.\<close>

definition narrow_eviction ::
  "(catalog_path \<Rightarrow> catalog_scope) \<Rightarrow> bool \<Rightarrow> catalog_path \<Rightarrow> catalog_scope list" where
  "narrow_eviction narrow still p = narrow p # (if still then [] else [TreeRelation p])"

fun eviction :: "catalog_refresh_scope \<Rightarrow> bool \<Rightarrow> catalog_scope list result" where
  "eviction (Namespaces c) still = map_sum id (\<lambda>p. [TreeCatalog p]) (scope_target c None None)"
| "eviction (ScopeRelations c n) still = map_sum id (\<lambda>p. [TreeNamespace p]) (scope_target c n None)"
| "eviction (Relation c n r) still = map_sum id (\<lambda>p. [TreeRelation p]) (scope_target c n (Some r))"
| "eviction (ScopeConstraints c n r) still =
     map_sum id (narrow_eviction TreeConstraints still) (scope_target c n (Some r))"
| "eviction (IncomingForeignKeys c n r) still =
     map_sum id (narrow_eviction TreeIncoming still) (scope_target c n (Some r))"
| "eviction (Definition c n r) still =
     map_sum id (narrow_eviction TreeDefinition still) (scope_target c n (Some r))"
| "eviction Root still = Inr []"
| "eviction ResolutionPath still = Inr []"

subsection \<open>The loop\<close>

definition charged :: "nat \<Rightarrow> charges \<Rightarrow> nat" where
  "charged objects kept = sat_total (objects # map (\<lambda>e. rs_objects (snd e)) kept)"

definition fits :: "nat \<Rightarrow> charges \<Rightarrow> bool" where
  "fits objects kept \<longleftrightarrow> length kept < max_catalog_scopes \<and> charged objects kept \<le> max_catalog_objects"

definition oldest_charge :: "catalog_refresh_scope \<Rightarrow> charges \<Rightarrow> nat option" where
  "oldest_charge scope kept =
     map_option fst (min_by_key (\<lambda>e. rs_used (snd (snd e)))
       (filter (\<lambda>e. evictable scope (snd e)) (enumerate 0 kept)))"

text \<open>\<open>Vec::swap_remove\<close>: the last element takes the place.\<close>

definition swap_remove :: "nat \<Rightarrow> 'a list \<Rightarrow> 'a list" where
  "swap_remove i xs = butlast (xs[i := last xs])"

definition without_covered :: "catalog_refresh_scope \<Rightarrow> charges \<Rightarrow> charges" where
  "without_covered victim = filter (\<lambda>e. \<not> scope_covers victim (fst e))"

lemma oldest_charge_in:
  assumes "oldest_charge scope kept = Some i"
  shows "i < length kept" "evictable scope (kept ! i)"
  using assms by (auto simp: oldest_charge_def in_set_enumerate_eq dest!: min_by_key_in)

lemma swap_remove_mset:
  assumes "i < length xs"
  shows "mset xs = add_mset (xs ! i) (mset (swap_remove i xs))"
proof (cases "i = length xs - 1")
  case True
  moreover have "xs \<noteq> []" using assms by auto
  ultimately have i: "xs ! i = last xs" by (simp add: last_conv_nth)
  then have same: "xs[i := last xs] = xs" by (metis list_update_id)
  have xs: "xs = butlast xs @ [xs ! i]" using \<open>xs \<noteq> []\<close> by (simp add: i)
  have "mset (butlast xs @ [xs ! i]) = add_mset (xs ! i) (mset (butlast xs))" by simp
  then show ?thesis unfolding swap_remove_def same using xs by simp
next
  case False
  then have i: "i < length (butlast xs)" using assms by simp
  have xs: "xs = butlast xs @ [last xs]" using assms by (metis append_butlast_last_id length_0_conv less_nat_zero_code)
  have "swap_remove i xs = (butlast xs)[i := last xs]"
    using False by (simp add: swap_remove_def butlast_list_update)
  moreover have "mset ((butlast xs)[i := last xs]) = add_mset (last xs) (mset (butlast xs) - {#butlast xs ! i#})"
    by (rule mset_update [OF i])
  moreover have "butlast xs ! i = xs ! i" using i by (simp add: nth_butlast)
  moreover have "butlast xs ! i \<in># mset (butlast xs)" using i by simp
  moreover have "mset xs = add_mset (last xs) (mset (butlast xs))" by (subst xs) simp
  ultimately show ?thesis by (simp add: add_mset_commute)
qed

lemma swap_remove_length [simp]: "length (swap_remove i xs) = length xs - 1"
  by (simp add: swap_remove_def)

lemma set_swap_remove: "i < length xs \<Longrightarrow> set xs = insert (xs ! i) (set (swap_remove i xs))"
  by (drule swap_remove_mset, drule arg_cong [where f = set_mset]) simp

function reserve_loop ::
  "nat \<Rightarrow> catalog_refresh_scope \<Rightarrow> charges \<Rightarrow> catalog_refresh_scope list
   \<Rightarrow> (charges \<times> catalog_refresh_scope list) result" where
  "reserve_loop objects scope kept victims =
     (if fits objects kept then Inr (kept, victims)
      else (case oldest_charge scope kept of
          None \<Rightarrow> Inl (EConfig ''catalog cache limit exceeded (1024 scopes, 50000 metadata objects)'')
        | Some i \<Rightarrow>
            let victim = fst (kept ! i) in
            reserve_loop objects scope (without_covered victim (swap_remove i kept)) (victims @ [victim])))"
  by pat_completeness auto
termination
proof (relation "measure (\<lambda>(objects, scope, kept, victims). length kept)", simp, clarsimp)
  fix scope i and kept :: charges
  assume "oldest_charge scope kept = Some i"
  then have "i < length kept" by (rule oldest_charge_in)
  moreover have "length (without_covered (fst (kept ! i)) (swap_remove i kept)) \<le> length kept - 1"
    unfolding without_covered_def by (rule order_trans [OF length_filter_le]) simp
  ultimately show "length (without_covered (fst (kept ! i)) (swap_remove i kept)) < length kept" by simp
qed

declare reserve_loop.simps [simp del]

fun all_evictions :: "(catalog_refresh_scope \<Rightarrow> bool) \<Rightarrow> catalog_refresh_scope list \<Rightarrow> catalog_scope list result" where
  "all_evictions still [] = Inr []"
| "all_evictions still (v # vs) =
     and_then (eviction v (still v)) (\<lambda>es. and_then (all_evictions still vs) (\<lambda>rest. Inr (es @ rest)))"

text \<open>Whether another charge keeps the description of a victim's relation.\<close>

definition relation_still_held :: "catalog_refresh_scope \<Rightarrow> charges \<Rightarrow> catalog_refresh_scope \<Rightarrow> bool" where
  "relation_still_held scope kept victim \<longleftrightarrow> anchor_of victim \<noteq> None
     \<and> (anchor_of scope = anchor_of victim \<or> (\<exists>e \<in> set kept. anchor_of (fst e) = anchor_of victim))"

definition reserve ::
  "catalog_refresh_scope \<Rightarrow> catalog_patch \<Rightarrow> catalog_budget \<Rightarrow> catalog_scope list result \<times> catalog_budget" where
  "reserve scope patch b =
     (let held = (case map_of (bd_scopes b) scope of None \<Rightarrow> 0 | Some r \<Rightarrow> rs_objects r);
          objects = max held (object_count patch);
          others = filter (\<lambda>e. fst e \<noteq> scope) (bd_scopes b) in
      case reserve_loop objects scope others [] of
        Inl e \<Rightarrow> (Inl e, b)
      | Inr (kept, victims) \<Rightarrow>
          (case all_evictions (relation_still_held scope kept) victims of
             Inl e \<Rightarrow> (Inl e, b)
           | Inr evictions \<Rightarrow>
               let stay = filter (\<lambda>e. \<not> (\<exists>v \<in> set victims. v = fst e \<or> scope_covers v (fst e))) (bd_scopes b);
                   now = min (bd_clock b + 1) (2 ^ 64 - 1) in
               (Inr evictions,
                b\<lparr>bd_scopes := AList.update scope \<lparr>rs_objects = objects, rs_used = now\<rparr> stay,
                  bd_clock := now\<rparr>)))"

subsection \<open>What the loop leaves\<close>

lemma anchor_covers_trans: "anchor_covers a b \<Longrightarrow> anchor_covers b c \<Longrightarrow> anchor_covers a c"
  by (auto simp: anchor_covers_def split: option.splits)

lemma scope_covers_trans: "scope_covers s t \<Longrightarrow> scope_covers t u \<Longrightarrow> scope_covers s u"
  by (auto simp: scope_covers_def split: option.splits intro: anchor_covers_trans)

text \<open>A charge that must stay is covered by no victim.\<close>

lemma kept_not_covered:
  assumes "evictable scope v" "\<not> evictable scope e"
  shows "\<not> scope_covers (fst v) (fst e)"
  using assms scope_covers_trans [of "fst v" "fst e" scope]
  by (cases "anchor_of (fst e)") (auto simp: evictable_def scope_covers_def split: option.splits)

lemma charged_mono:
  assumes "mset xs \<subseteq># mset ys"
  shows "charged objects xs \<le> charged objects ys" "length xs \<le> length ys"
proof -
  have "sum_mset (image_mset (\<lambda>e. rs_objects (snd e)) (mset xs)) \<le> sum_mset (image_mset (\<lambda>e. rs_objects (snd e)) (mset ys))"
    using assms by (auto simp: subset_mset.le_iff_add)
  then have "sum_list (map (\<lambda>e. rs_objects (snd e)) xs) \<le> sum_list (map (\<lambda>e. rs_objects (snd e)) ys)"
    by (simp flip: sum_mset_sum_list mset_map)
  then show "charged objects xs \<le> charged objects ys" by (simp add: charged_def sat_total_def min_def)
  show "length xs \<le> length ys" using size_mset_mono [OF assms] by simp
qed

lemma fits_mono: "mset xs \<subseteq># mset ys \<Longrightarrow> fits objects ys \<Longrightarrow> fits objects xs"
  using charged_mono(1) [of xs ys objects] charged_mono(2) [of xs ys] by (simp add: fits_def)

definition staying :: "catalog_refresh_scope \<Rightarrow> charges \<Rightarrow> charges" where
  "staying scope = filter (\<lambda>e. \<not> evictable scope e)"

lemma staying_turn:
  assumes "i < length kept" "evictable scope (kept ! i)"
  shows "mset (staying scope (without_covered (fst (kept ! i)) (swap_remove i kept))) = mset (staying scope kept)"
proof -
  have "staying scope (without_covered (fst (kept ! i)) xs) = staying scope xs" for xs
    unfolding staying_def without_covered_def filter_filter
    by (rule filter_cong [OF refl]) (use kept_not_covered [OF assms(2)] in blast)
  moreover have "mset (staying scope kept) = mset (staying scope (swap_remove i kept))"
    using swap_remove_mset [OF assms(1)] assms(2) by (simp add: staying_def)
  ultimately show ?thesis by simp
qed

lemma oldest_charge_None: "oldest_charge scope kept = None \<longleftrightarrow> (\<forall>e \<in> set kept. \<not> evictable scope e)"
proof -
  have "set kept = snd ` set (enumerate 0 kept)" by (metis list.set_map map_snd_enumerate)
  then show ?thesis by (simp add: oldest_charge_def filter_empty_conv)
qed

text \<open>The loop is refused exactly when what must stay does not fit.\<close>

lemma reserve_loop_refused:
  "(\<exists>e. reserve_loop objects scope kept victims = Inl e) \<longleftrightarrow> \<not> fits objects (staying scope kept)"
proof (induction objects scope kept victims rule: reserve_loop.induct)
  case (1 objects scope kept victims)
  show ?case
  proof (cases "fits objects kept")
    case True
    moreover have "mset (staying scope kept) \<subseteq># mset kept" by (simp add: staying_def)
    ultimately have "fits objects (staying scope kept)" using fits_mono by blast
    with True show ?thesis by (subst reserve_loop.simps) simp
  next
    case False
    show ?thesis
    proof (cases "oldest_charge scope kept")
      case None
      then have "staying scope kept = kept" by (auto simp: oldest_charge_None staying_def filter_id_conv)
      with None False show ?thesis by (subst reserve_loop.simps) simp
    next
      case (Some i)
      note i = oldest_charge_in [OF Some]
      note IH = "1.IH" [OF False Some refl]
      have "fits objects (staying scope (without_covered (fst (kept ! i)) (swap_remove i kept)))
          = fits objects (staying scope kept)"
        using staying_turn [OF i] fits_mono by (metis subset_mset.order_refl)
      with IH show ?thesis by (subst reserve_loop.simps) (simp add: False Some Let_def)
    qed
  qed
qed

text \<open>What it keeps fits, is what no victim took, and no victim holds what the patch hangs on.\<close>

definition untaken :: "catalog_refresh_scope list \<Rightarrow> charges \<Rightarrow> charges" where
  "untaken victims = filter (\<lambda>e. \<not> (\<exists>v \<in> set victims. v = fst e \<or> scope_covers v (fst e)))"

lemma reserve_loop_keeps:
  "reserve_loop objects scope kept victims = Inr (kept', victims') \<Longrightarrow> distinct (map fst kept) \<Longrightarrow>
     \<exists>more'. victims' = victims @ more' \<and> fits objects kept' \<and> mset kept' = mset (untaken more' kept)
       \<and> (\<forall>v \<in> set more'. anchor_of v \<noteq> None \<and> \<not> scope_covers v scope)"
proof (induction objects scope kept victims rule: reserve_loop.induct)
  case (1 objects scope kept victims)
  show ?case
  proof (cases "fits objects kept")
    case True
    with "1.prems"(1) show ?thesis by (intro exI [of _ "[]"], subst (asm) reserve_loop.simps) (simp add: untaken_def)
  next
    case False
    with "1.prems"(1) obtain i where i: "oldest_charge scope kept = Some i"
      by (subst (asm) reserve_loop.simps) (auto split: option.splits)
    let ?v = "fst (kept ! i)" and ?rest = "without_covered (fst (kept ! i)) (swap_remove i kept)"
    note at = oldest_charge_in [OF i]
    have run: "reserve_loop objects scope ?rest (victims @ [?v]) = Inr (kept', victims')"
      using "1.prems"(1) False i by (subst (asm) reserve_loop.simps) (simp add: Let_def)
    have ms: "mset kept = add_mset (kept ! i) (mset (swap_remove i kept))" by (rule swap_remove_mset [OF at(1)])
    have "mset (map fst kept) = add_mset ?v (mset (map fst (swap_remove i kept)))" by (simp add: ms)
    then have d: "distinct (?v # map fst (swap_remove i kept))"
      using "1.prems"(2) by (metis mset.simps(2) mset_eq_imp_distinct_iff)
    then have "distinct (map fst ?rest)" by (auto simp: without_covered_def intro: distinct_map_filter)
    from "1.IH" [OF False i refl run this] obtain vs where vs: "victims' = (victims @ [?v]) @ vs" "fits objects kept'"
      "mset kept' = mset (untaken vs ?rest)" "\<forall>v \<in> set vs. anchor_of v \<noteq> None \<and> \<not> scope_covers v scope" by blast
    have "mset (untaken (?v # vs) kept) = mset (untaken (?v # vs) (swap_remove i kept))"
      using ms by (simp add: untaken_def)
    also have "untaken (?v # vs) (swap_remove i kept) = untaken vs ?rest"
      using d by (auto simp: untaken_def without_covered_def image_iff intro!: filter_cong)
    finally have "mset kept' = mset (untaken (?v # vs) kept)" using vs(3) by simp
    moreover have "anchor_of ?v \<noteq> None \<and> \<not> scope_covers ?v scope" using at(2) by (simp add: evictable_def)
    ultimately show ?thesis using vs by (intro exI [of _ "?v # vs"]) simp
  qed
qed

subsection \<open>One reservation\<close>

lemma update_mset:
  "distinct (map fst m) \<Longrightarrow> mset (AList.update k v m) = add_mset (k, v) (mset (filter (\<lambda>e. fst e \<noteq> k) m))"
proof (induction m)
  case (Cons e m)
  obtain k' v' where e: "e = (k', v')" by fastforce
  have "filter (\<lambda>e. fst e \<noteq> k) m = m" if "k \<notin> fst ` set m" using that by (auto simp: filter_id_conv image_iff)
  then have "mset (filter (\<lambda>e. fst e \<noteq> k) m) = mset m" if "k \<notin> fst ` set m" using that by simp
  with Cons show ?case by (auto simp: e)
qed simp

definition scope_ok :: "catalog_refresh_scope \<Rightarrow> bool" where
  "scope_ok s \<longleftrightarrow> (\<forall>still. \<exists>es. eviction s still = Inr es)"

text \<open>Charges of the scopes that were read: each once, each of a valid path.\<close>

definition budget_ok :: "catalog_budget \<Rightarrow> bool" where
  "budget_ok b \<longleftrightarrow> distinct (map fst (bd_scopes b)) \<and> (\<forall>e \<in> set (bd_scopes b). scope_ok (fst e))"

lemma budget_default_ok: "budget_ok budget_default"
  by (simp add: budget_ok_def budget_default_def)

lemma read_scope_ok: "catalog_read pr caps stop scope = Inr patch \<Longrightarrow> scope_ok scope"
  by (cases scope) (auto simp: catalog_read_def and_then_Inr_iff scope_ok_def)

lemma all_evictions_ok: "\<forall>v \<in> set vs. scope_ok v \<Longrightarrow> \<exists>es. all_evictions still vs = Inr es"
proof (induction vs)
  case (Cons v vs)
  then obtain es rest where "eviction v (still v) = Inr es" "all_evictions still vs = Inr rest"
    unfolding scope_ok_def by (metis list.set_intros)
  then show ?case by simp
qed simp

definition charge_of :: "catalog_refresh_scope \<Rightarrow> catalog_patch \<Rightarrow> catalog_budget \<Rightarrow> nat" where
  "charge_of scope patch b =
     max (case map_of (bd_scopes b) scope of None \<Rightarrow> 0 | Some r \<Rightarrow> rs_objects r) (object_count patch)"

definition others :: "catalog_refresh_scope \<Rightarrow> catalog_budget \<Rightarrow> charges" where
  "others scope b = filter (\<lambda>e. fst e \<noteq> scope) (bd_scopes b)"

lemma victims_charged:
  "reserve_loop objects scope kept victims = Inr (kept', victims') \<Longrightarrow> set victims' \<subseteq> set victims \<union> fst ` set kept"
proof (induction objects scope kept victims rule: reserve_loop.induct)
  case (1 objects scope kept victims)
  show ?case
  proof (cases "fits objects kept")
    case False
    with "1.prems" obtain i where i: "oldest_charge scope kept = Some i"
      by (subst (asm) reserve_loop.simps) (auto split: option.splits)
    let ?rest = "without_covered (fst (kept ! i)) (swap_remove i kept)"
    have "reserve_loop objects scope ?rest (victims @ [fst (kept ! i)]) = Inr (kept', victims')"
      using "1.prems" False i by (subst (asm) reserve_loop.simps) (simp add: Let_def)
    from "1.IH" [OF False i refl this] have "set victims' \<subseteq> set (victims @ [fst (kept ! i)]) \<union> fst ` set ?rest" .
    moreover have "set ?rest \<subseteq> set kept" "kept ! i \<in> set kept"
      using set_swap_remove [OF oldest_charge_in(1) [OF i]] by (auto simp: without_covered_def)
    ultimately show ?thesis by auto
  qed (use "1.prems" in \<open>subst (asm) reserve_loop.simps, simp\<close>)
qed

lemma reserve_cases:
  assumes "budget_ok b"
  obtains (refused) e where "reserve scope patch b = (Inl e, b)"
      "\<not> fits (charge_of scope patch b) (staying scope (others scope b))"
  | (granted) es victims now where
      "reserve scope patch b = (Inr es, b\<lparr>bd_scopes := AList.update scope
         \<lparr>rs_objects = charge_of scope patch b, rs_used = now\<rparr> (untaken victims (bd_scopes b)), bd_clock := now\<rparr>)"
      "fits (charge_of scope patch b) (staying scope (others scope b))"
      "fits (charge_of scope patch b) (untaken victims (others scope b))"
      "\<forall>v \<in> set victims. anchor_of v \<noteq> None \<and> \<not> scope_covers v scope \<and> v \<noteq> scope"
proof (cases "reserve_loop (charge_of scope patch b) scope (others scope b) []")
  case (Inl e)
  with reserve_loop_refused [of "charge_of scope patch b" scope "others scope b" "[]"] show thesis
    by (intro refused [of e]) (auto simp: reserve_def charge_of_def others_def)
next
  case (Inr r)
  obtain kept victims where r: "r = (kept, victims)" by fastforce
  note run = Inr [unfolded r]
  have "distinct (map fst (others scope b))" using assms by (auto simp: budget_ok_def others_def intro: distinct_map_filter)
  from reserve_loop_keeps [OF run this] have keeps: "fits (charge_of scope patch b) kept"
    "mset kept = mset (untaken victims (others scope b))" "\<forall>v \<in> set victims. anchor_of v \<noteq> None \<and> \<not> scope_covers v scope"
    by auto
  have away: "set victims \<subseteq> fst ` set (others scope b)" using victims_charged [OF run] by simp
  then have "\<forall>v \<in> set victims. scope_ok v \<and> v \<noteq> scope" using assms by (auto simp: budget_ok_def others_def)
  moreover from this obtain es where "all_evictions (relation_still_held scope kept) victims = Inr es"
    using all_evictions_ok by blast
  moreover have "fits (charge_of scope patch b) (staying scope (others scope b))"
    using reserve_loop_refused [of "charge_of scope patch b" scope "others scope b" "[]"] by (auto simp: run)
  moreover have "fits (charge_of scope patch b) (untaken victims (others scope b))"
    by (rule fits_mono [OF _ keeps(1)]) (simp add: keeps(2))
  ultimately show thesis using keeps(3) run
    by (intro granted) (auto simp: reserve_def charge_of_def others_def Let_def untaken_def)
qed

lemma reserve_within:
  assumes "budget_ok b" "scope_ok scope" "reserve scope patch b = (Inr es, b')"
  shows "budget_ok b'" "length (bd_scopes b') \<le> max_catalog_scopes" "charged 0 (bd_scopes b') \<le> max_catalog_objects"
    "map_of (bd_scopes b') scope \<noteq> None"
proof -
  obtain victims now where b': "bd_scopes b' = AList.update scope
      \<lparr>rs_objects = charge_of scope patch b, rs_used = now\<rparr> (untaken victims (bd_scopes b))"
    and fit: "fits (charge_of scope patch b) (untaken victims (others scope b))"
    using reserve_cases [OF assms(1), of scope patch] assms(3) by (metis prod.inject sum.distinct(1) catalog_budget.select_convs(1)
        catalog_budget.surjective catalog_budget.update_convs(1,2))
  have d: "distinct (map fst (untaken victims (bd_scopes b)))"
    using assms(1) by (auto simp: budget_ok_def untaken_def intro: distinct_map_filter)
  have "filter (\<lambda>e. fst e \<noteq> scope) (untaken victims (bd_scopes b)) = untaken victims (others scope b)"
    by (auto simp: untaken_def others_def intro!: filter_cong)
  then have ms: "mset (bd_scopes b') = add_mset (scope, \<lparr>rs_objects = charge_of scope patch b, rs_used = now\<rparr>)
      (mset (untaken victims (others scope b)))" by (simp add: b' update_mset [OF d])
  have "set (bd_scopes b') \<subseteq> insert (scope, \<lparr>rs_objects = charge_of scope patch b, rs_used = now\<rparr>) (set (bd_scopes b))"
    using arg_cong [OF ms, of set_mset] by (auto simp: untaken_def others_def)
  with assms(1,2) show "budget_ok b'" using d by (auto simp: budget_ok_def b' AList.distinct_update)
  show "length (bd_scopes b') \<le> max_catalog_scopes" using arg_cong [OF ms, of size] fit by (simp add: fits_def)
  have "sum_list (map (\<lambda>e. rs_objects (snd e)) (bd_scopes b'))
      = charge_of scope patch b + sum_list (map (\<lambda>e. rs_objects (snd e)) (untaken victims (others scope b)))"
    using arg_cong [OF ms, of "\<lambda>m. sum_mset (image_mset (\<lambda>e. rs_objects (snd e)) m)"]
    by (simp flip: sum_mset_sum_list mset_map)
  with fit show "charged 0 (bd_scopes b') \<le> max_catalog_objects" by (simp add: fits_def charged_def sat_total_def)
  show "map_of (bd_scopes b') scope \<noteq> None" by (simp add: b' AList.update_conv')
qed

subsection \<open>Publishing a read\<close>

text \<open>What \<open>refresh_catalog\<close> does with a read patch (\<open>crates/oxyn-exec/src/executor.rs\<close>): reserve,
  evict, apply.\<close>

definition publish_read ::
  "int \<Rightarrow> catalog_refresh_scope \<Rightarrow> catalog_patch \<Rightarrow> catalog_cache \<Rightarrow> catalog_budget
   \<Rightarrow> (unit result \<times> catalog_cache \<times> catalog_budget) option" where
  "publish_read now scope patch c b =
     (case reserve scope patch b of
        (Inl e, b') \<Rightarrow> Some (Inl e, c, b')
      | (Inr evicted, b') \<Rightarrow>
          map_option (\<lambda>(r, c'). (r, c', b')) (apply_patch now patch (fold evict_scope evicted c)))"

lemma relations_delete_ok: "relations_ok ck nk rs \<Longrightarrow> relations_ok ck nk (AList.delete name rs)"
  using entries_delete [of rs "\<lambda>rk n. relation_ref_path (rn_summary n) = (namespace_at ck nk)\<lparr>cp_relation := Some rk\<rparr>" name]
  by (simp add: relations_ok_def)

lemma relations_entry_ok:
  assumes "relations_ok ck nk rs" "\<And>n. rn_summary (f n) = rn_summary n"
  shows "relations_ok ck nk (AList.map_entry name f rs)"
  using entries_map_entry [of rs "\<lambda>rk n. relation_ref_path (rn_summary n) = (namespace_at ck nk)\<lparr>cp_relation := Some rk\<rparr>"
      name f] assms by (simp add: relations_ok_def)

lemma evict_in_namespace_ok:
  assumes "relations_ok ck nk (ca_value (nn_relations ns))"
  shows "relations_ok ck nk (ca_value (nn_relations (evict_in_namespace name ns)))"
proof (cases "map_of (ca_value (nn_relations ns)) name")
  case (Some n)
  have "relations_ok ck nk (AList.map_entry name evict_details (ca_value (nn_relations ns)))"
    by (rule relations_entry_ok [OF assms]) (simp add: evict_details_def)
  with relations_delete_ok [OF assms] show ?thesis
    by (simp add: evict_in_namespace_def Some on_relation_in_def)
qed (simp add: evict_in_namespace_def assms)

lemma namespaces_delete_ok:
  "namespaces_ok ck nss \<Longrightarrow> namespaces_ok ck (AList.delete nk nss)"
  using entries_delete [of nss "\<lambda>nk ns. relations_ok ck nk (ca_value (nn_relations ns))" nk]
  by (simp add: namespaces_ok_def)

lemma catalogs_delete_ok:
  "cache_ok c \<Longrightarrow> ca_value (ch_catalogs c') = AList.delete k (ca_value (ch_catalogs c)) \<Longrightarrow> cache_ok c'"
  using entries_delete [of "ca_value (ch_catalogs c)" "\<lambda>ck cat. namespaces_ok ck (ca_value (cn_namespaces cat))" k]
  by (simp add: cache_ok_def)

lemma forget_scope_ok:
  assumes "cache_ok c"
  shows "cache_ok (forget_scope s c)"
proof (cases s)
  case (TreeCatalog p)
  then show ?thesis by (auto intro: catalogs_delete_ok [OF assms])
next
  case (TreeNamespace p)
  then show ?thesis by (auto intro!: on_catalog_ok [OF assms] namespaces_delete_ok)
next
  case (TreeRelation p)
  then show ?thesis using assms by (auto intro!: on_namespace_ok relations_delete_ok split: option.split)
qed (use assms in \<open>auto simp: cache_new_ok intro!: on_relation_ok\<close>)

lemma evict_scope_ok:
  assumes "cache_ok c"
  shows "cache_ok (evict_scope s c)"
proof (cases s)
  case (TreeCatalog p)
  have "namespaces_ok k []" for k by (simp add: namespaces_ok_def)
  then show ?thesis using assms
    by (auto simp: TreeCatalog intro!: on_catalog_ok intro: catalogs_delete_ok)
next
  case (TreeNamespace p)
  have none: "relations_ok ck nk []" for ck nk by (simp add: relations_ok_def)
  show ?thesis unfolding TreeNamespace evict_scope.simps
    by (rule on_catalog_ok [OF assms]) (auto simp: none intro!: on_namespace_in_ok namespaces_delete_ok)
next
  case (TreeRelation p)
  then show ?thesis using assms by (auto intro!: on_namespace_ok evict_in_namespace_ok split: option.split)
qed (use assms forget_scope_ok [OF assms, of s] in \<open>auto simp: cache_new_ok\<close>)

lemma evict_all_ok: "cache_ok c \<Longrightarrow> cache_ok (fold evict_scope ss c)"
  by (induction ss arbitrary: c) (simp_all add: evict_scope_ok del: evict_scope.simps)

text \<open>
  A read patch is published whole or not at all: within the bounds, with a cache that stays well formed
  and says every part of it;
  or refused, because what may not be evicted leaves no room, and then nothing changed.
\<close>

lemma read_published:
  assumes "catalog_read pr caps stop scope = Inr patch" "cache_ok c" "budget_ok b"
  obtains (refused) e where "publish_read now scope patch c b = Some (Inl e, c, b)"
      "\<not> fits (charge_of scope patch b) (staying scope (others scope b))"
  | (done') c' b' where "publish_read now scope patch c b = Some (Inr (), c', b')" "cache_ok c'" "budget_ok b'"
      "patch_held patch c'"
      "length (bd_scopes b') \<le> max_catalog_scopes" "charged 0 (bd_scopes b') \<le> max_catalog_objects"
      "fits (charge_of scope patch b) (staying scope (others scope b))"
  using assms(3)
proof (cases rule: reserve_cases [where scope = scope and patch = patch])
  case (refused e)
  then show thesis by (intro that(1)) (simp_all add: publish_read_def)
next
  case (granted es victims now')
  obtain b' where b': "reserve scope patch b = (Inr es, b')" using granted(1) by blast
  obtain c' where "apply_patch now patch (fold evict_scope es c) = Some (Inr (), c')" "cache_ok c'"
    using patch_published [OF read_patch_ok [OF assms(1)] evict_all_ok [OF assms(2)]] by blast
  with read_patch_held [OF assms(1) evict_all_ok [OF assms(2)]] reserve_within [OF assms(3) read_scope_ok [OF assms(1)] b'] b' granted(2) show thesis
    by (intro that(2)) (simp_all add: publish_read_def)
qed

end
