(* ===== verification/Catalog_Text.thy ===== *)
theory Catalog_Text
  imports Catalog_Path Code_Points
begin

text \<open>
  What an editor or the clipboard is given of the catalog and of a result: the form of a name to insert
  (\<open>crates/oxyn-catalog/src/insertion.rs\<close>, \<open>reserved.rs\<close>) and a value as a SQL literal
  (\<open>crates/oxyn-catalog/src/literal.rs\<close>), and that each comes out as one element for the scanner.
\<close>

subsection \<open>Reserved words\<close>

definition postgres_words :: "string list" where
  "postgres_words =
   [
    ''all'', ''analyse'', ''analyze'', ''and'', ''any'', ''array'', ''as'', ''asc'', ''asymmetric'',
    ''authorization'', ''binary'', ''both'', ''case'', ''cast'', ''check'', ''collate'', ''collation'',
    ''column'', ''concurrently'', ''constraint'', ''create'', ''cross'', ''current_catalog'',
    ''current_date'', ''current_role'', ''current_schema'', ''current_time'', ''current_timestamp'',
    ''current_user'', ''default'', ''deferrable'', ''desc'', ''distinct'', ''do'', ''else'', ''end'',
    ''except'', ''false'', ''fetch'', ''for'', ''foreign'', ''freeze'', ''from'', ''full'', ''grant'',
    ''group'', ''having'', ''ilike'', ''in'', ''initially'', ''inner'', ''intersect'', ''into'', ''is'',
    ''isnull'', ''join'', ''lateral'', ''leading'', ''left'', ''like'', ''limit'', ''localtime'',
    ''localtimestamp'', ''natural'', ''not'', ''notnull'', ''null'', ''offset'', ''on'', ''only'', ''or'',
    ''order'', ''outer'', ''overlaps'', ''placing'', ''primary'', ''references'', ''returning'', ''right'',
    ''select'', ''session_user'', ''similar'', ''some'', ''symmetric'', ''system_user'', ''table'',
    ''tablesample'', ''then'', ''to'', ''trailing'', ''true'', ''union'', ''unique'', ''user'', ''using'',
    ''variadic'', ''verbose'', ''when'', ''where'', ''window'', ''with'']"

definition sqlite_words :: "string list" where
  "sqlite_words =
   [
    ''abort'', ''action'', ''add'', ''after'', ''all'', ''alter'', ''always'', ''analyze'', ''and'', ''as'',
    ''asc'', ''attach'', ''autoincrement'', ''before'', ''begin'', ''between'', ''by'', ''cascade'',
    ''case'', ''cast'', ''check'', ''collate'', ''column'', ''commit'', ''conflict'', ''constraint'',
    ''create'', ''cross'', ''current'', ''current_date'', ''current_time'', ''current_timestamp'',
    ''database'', ''default'', ''deferrable'', ''deferred'', ''delete'', ''desc'', ''detach'', ''distinct'',
    ''do'', ''drop'', ''each'', ''else'', ''end'', ''escape'', ''except'', ''exclude'', ''exclusive'',
    ''exists'', ''explain'', ''fail'', ''filter'', ''first'', ''following'', ''for'', ''foreign'', ''from'',
    ''full'', ''generated'', ''glob'', ''group'', ''groups'', ''having'', ''if'', ''ignore'', ''immediate'',
    ''in'', ''index'', ''indexed'', ''initially'', ''inner'', ''insert'', ''instead'', ''intersect'',
    ''into'', ''is'', ''isnull'', ''join'', ''key'', ''last'', ''left'', ''like'', ''limit'', ''match'',
    ''materialized'', ''natural'', ''no'', ''not'', ''nothing'', ''notnull'', ''null'', ''nulls'', ''of'',
    ''offset'', ''on'', ''or'', ''order'', ''others'', ''outer'', ''over'', ''partition'', ''plan'',
    ''pragma'', ''preceding'', ''primary'', ''query'', ''raise'', ''range'', ''recursive'', ''references'',
    ''regexp'', ''reindex'', ''release'', ''rename'', ''replace'', ''restrict'', ''returning'', ''right'',
    ''rollback'', ''row'', ''rows'', ''savepoint'', ''select'', ''set'', ''table'', ''temp'', ''temporary'',
    ''then'', ''ties'', ''to'', ''transaction'', ''trigger'', ''unbounded'', ''union'', ''unique'',
    ''update'', ''using'', ''vacuum'', ''values'', ''view'', ''virtual'', ''when'', ''where'', ''window'',
    ''with'', ''without'']"

definition mysql_words :: "string list" where
  "mysql_words =
   [
    ''accessible'', ''add'', ''all'', ''alter'', ''analyze'', ''and'', ''as'', ''asc'', ''asensitive'',
    ''before'', ''between'', ''bigint'', ''binary'', ''blob'', ''both'', ''by'', ''call'', ''cascade'',
    ''case'', ''change'', ''char'', ''character'', ''check'', ''collate'', ''column'', ''condition'',
    ''constraint'', ''continue'', ''convert'', ''create'', ''cross'', ''cube'', ''cume_dist'',
    ''current_date'', ''current_time'', ''current_timestamp'', ''current_user'', ''cursor'', ''database'',
    ''databases'', ''day_hour'', ''day_microsecond'', ''day_minute'', ''day_second'', ''dec'', ''decimal'',
    ''declare'', ''default'', ''delayed'', ''delete'', ''dense_rank'', ''desc'', ''describe'',
    ''deterministic'', ''distinct'', ''distinctrow'', ''div'', ''double'', ''drop'', ''dual'', ''each'',
    ''else'', ''elseif'', ''empty'', ''enclosed'', ''escaped'', ''except'', ''exists'', ''exit'',
    ''explain'', ''false'', ''fetch'', ''first_value'', ''float'', ''float4'', ''float8'', ''for'',
    ''force'', ''foreign'', ''from'', ''fulltext'', ''function'', ''generated'', ''get'', ''grant'',
    ''group'', ''grouping'', ''groups'', ''having'', ''high_priority'', ''hour_microsecond'',
    ''hour_minute'', ''hour_second'', ''if'', ''ignore'', ''in'', ''index'', ''infile'', ''inner'',
    ''inout'', ''insensitive'', ''insert'', ''int'', ''int1'', ''int2'', ''int3'', ''int4'', ''int8'',
    ''integer'', ''intersect'', ''interval'', ''into'', ''io_after_gtids'', ''io_before_gtids'', ''is'',
    ''iterate'', ''join'', ''json_table'', ''key'', ''keys'', ''kill'', ''lag'', ''last_value'',
    ''lateral'', ''lead'', ''leading'', ''leave'', ''left'', ''like'', ''limit'', ''linear'', ''lines'',
    ''load'', ''localtime'', ''localtimestamp'', ''lock'', ''long'', ''longblob'', ''longtext'', ''loop'',
    ''low_priority'', ''manual'', ''match'', ''maxvalue'', ''mediumblob'', ''mediumint'', ''mediumtext'',
    ''middleint'', ''minute_microsecond'', ''minute_second'', ''mod'', ''modifies'', ''natural'',
    ''no_write_to_binlog'', ''not'', ''nth_value'', ''ntile'', ''null'', ''numeric'', ''of'', ''on'',
    ''optimize'', ''optimizer_costs'', ''option'', ''optionally'', ''or'', ''order'', ''out'', ''outer'',
    ''outfile'', ''over'', ''parallel'', ''partition'', ''percent_rank'', ''precision'', ''primary'',
    ''procedure'', ''purge'', ''qualify'', ''range'', ''rank'', ''read'', ''read_write'', ''reads'',
    ''real'', ''recursive'', ''references'', ''regexp'', ''release'', ''rename'', ''repeat'', ''replace'',
    ''require'', ''resignal'', ''restrict'', ''return'', ''revoke'', ''right'', ''rlike'', ''row'',
    ''row_number'', ''rows'', ''schema'', ''schemas'', ''second_microsecond'', ''select'', ''sensitive'',
    ''separator'', ''set'', ''show'', ''signal'', ''smallint'', ''spatial'', ''specific'', ''sql'',
    ''sql_big_result'', ''sql_calc_found_rows'', ''sql_small_result'', ''sqlexception'', ''sqlstate'',
    ''sqlwarning'', ''ssl'', ''starting'', ''stored'', ''straight_join'', ''system'', ''table'',
    ''tablesample'', ''terminated'', ''then'', ''tinyblob'', ''tinyint'', ''tinytext'', ''to'',
    ''trailing'', ''trigger'', ''true'', ''undo'', ''union'', ''unique'', ''unlock'', ''unsigned'',
    ''update'', ''usage'', ''use'', ''using'', ''utc_date'', ''utc_time'', ''utc_timestamp'', ''values'',
    ''varbinary'', ''varchar'', ''varcharacter'', ''varying'', ''virtual'', ''when'', ''where'', ''while'',
    ''window'', ''with'', ''write'', ''xor'', ''year_month'', ''zerofill'']"

definition mariadb_words :: "string list" where
  "mariadb_words =
   [
    ''accessible'', ''add'', ''all'', ''alter'', ''analyze'', ''and'', ''as'', ''asc'', ''asensitive'',
    ''before'', ''between'', ''bigint'', ''binary'', ''blob'', ''both'', ''by'', ''call'', ''cascade'',
    ''case'', ''change'', ''char'', ''character'', ''check'', ''collate'', ''column'', ''condition'',
    ''constraint'', ''continue'', ''convert'', ''create'', ''cross'', ''current_date'', ''current_role'',
    ''current_time'', ''current_timestamp'', ''current_user'', ''cursor'', ''databases'', ''day_hour'',
    ''day_microsecond'', ''day_minute'', ''day_second'', ''dec'', ''decimal'', ''declare'', ''default'',
    ''delayed'', ''delete'', ''delete_domain_id'', ''desc'', ''describe'', ''deterministic'', ''distinct'',
    ''distinctrow'', ''div'', ''do_domain_ids'', ''double'', ''drop'', ''dual'', ''each'', ''else'',
    ''elseif'', ''enclosed'', ''escaped'', ''except'', ''exists'', ''exit'', ''explain'', ''false'',
    ''fetch'', ''float'', ''float4'', ''float8'', ''for'', ''force'', ''foreign'', ''from'', ''fulltext'',
    ''grant'', ''group'', ''having'', ''high_priority'', ''hour_microsecond'', ''hour_minute'',
    ''hour_second'', ''if'', ''ignore'', ''ignore_domain_ids'', ''in'', ''index'', ''infile'', ''inner'',
    ''inout'', ''insensitive'', ''insert'', ''int'', ''int1'', ''int2'', ''int3'', ''int4'', ''int8'',
    ''integer'', ''intersect'', ''interval'', ''into'', ''is'', ''iterate'', ''join'', ''key'', ''keys'',
    ''kill'', ''leading'', ''leave'', ''left'', ''like'', ''limit'', ''linear'', ''lines'', ''load'',
    ''localtime'', ''localtimestamp'', ''lock'', ''long'', ''longblob'', ''longtext'', ''loop'',
    ''low_priority'', ''master_demote_to_replica'', ''master_demote_to_slave'', ''match'', ''maxvalue'',
    ''mediumblob'', ''mediumint'', ''mediumtext'', ''middleint'', ''minute_microsecond'', ''minute_second'',
    ''mod'', ''modifies'', ''natural'', ''no_write_to_binlog'', ''not'', ''null'', ''numeric'', ''offset'',
    ''on'', ''optimize'', ''optionally'', ''or'', ''order'', ''out'', ''outer'', ''outfile'', ''over'',
    ''page_checksum'', ''parse_vcol_expr'', ''partition'', ''portion'', ''precision'', ''primary'',
    ''procedure'', ''purge'', ''range'', ''read'', ''read_write'', ''reads'', ''real'', ''recursive'',
    ''ref_system_id'', ''references'', ''regexp'', ''release'', ''rename'', ''repeat'', ''replace'',
    ''require'', ''resignal'', ''restrict'', ''return'', ''returning'', ''revoke'', ''right'', ''rlike'',
    ''row_number'', ''rows'', ''schemas'', ''second_microsecond'', ''select'', ''sensitive'', ''separator'',
    ''set'', ''show'', ''signal'', ''smallint'', ''spatial'', ''specific'', ''sql'', ''sql_after_gtids'',
    ''sql_before_gtids'', ''sql_big_result'', ''sql_calc_found_rows'', ''sql_small_result'',
    ''sqlexception'', ''sqlstate'', ''sqlwarning'', ''ssl'', ''starting'', ''stats_auto_recalc'',
    ''stats_persistent'', ''stats_sample_pages'', ''straight_join'', ''table'', ''terminated'', ''then'',
    ''tinyblob'', ''tinyint'', ''tinytext'', ''to'', ''trailing'', ''trigger'', ''true'', ''undo'',
    ''union'', ''unique'', ''unlock'', ''unsigned'', ''update'', ''usage'', ''use'', ''using'',
    ''utc_date'', ''utc_time'', ''utc_timestamp'', ''values'', ''varbinary'', ''varchar'', ''varcharacter'',
    ''varying'', ''vector'', ''when'', ''where'', ''while'', ''with'', ''write'', ''xor'', ''year_month'',
    ''zerofill'']"

definition duckdb_words :: "string list" where
  "duckdb_words =
   [
    ''all'', ''analyse'', ''analyze'', ''and'', ''anti'', ''any'', ''array'', ''as'', ''asc'', ''asof'',
    ''asymmetric'', ''at'', ''authorization'', ''binary'', ''both'', ''by'', ''case'', ''cast'', ''check'',
    ''collate'', ''collation'', ''column'', ''columns'', ''concurrently'', ''constraint'', ''create'',
    ''cross'', ''default'', ''deferrable'', ''desc'', ''describe'', ''distinct'', ''do'', ''else'', ''end'',
    ''except'', ''false'', ''fetch'', ''for'', ''foreign'', ''freeze'', ''from'', ''full'', ''generated'',
    ''glob'', ''group'', ''having'', ''ilike'', ''in'', ''initially'', ''inner'', ''intersect'', ''into'',
    ''is'', ''isnull'', ''join'', ''lambda'', ''lateral'', ''leading'', ''left'', ''like'', ''limit'',
    ''map'', ''natural'', ''not'', ''notnull'', ''null'', ''offset'', ''on'', ''only'', ''or'', ''order'',
    ''outer'', ''overlaps'', ''pivot'', ''pivot_longer'', ''pivot_wider'', ''placing'', ''positional'',
    ''primary'', ''qualify'', ''references'', ''returning'', ''right'', ''select'', ''semi'', ''show'',
    ''similar'', ''some'', ''struct'', ''summarize'', ''symmetric'', ''table'', ''tablesample'', ''then'',
    ''to'', ''trailing'', ''true'', ''try_cast'', ''union'', ''unique'', ''unpack'', ''unpivot'', ''using'',
    ''variadic'', ''verbose'', ''when'', ''where'', ''window'', ''with'']"

text \<open>The lists are ascending, so that the binary search of the source is membership.\<close>

lemma words_ascending: "ascending postgres_words" "ascending sqlite_words" "ascending mysql_words"
  "ascending mariadb_words" "ascending duckdb_words"
  by code_simp+

fun needs_quoting :: "sql_dialect \<Rightarrow> string \<Rightarrow> bool option" where
  "needs_quoting Postgres name = Some (name \<in> set postgres_words)"
| "needs_quoting Sqlite name = Some (name \<in> set sqlite_words)"
| "needs_quoting MySql name = Some (name \<in> set mysql_words \<or> name \<in> set mariadb_words)"
| "needs_quoting DuckDb name = Some (name \<in> set duckdb_words)"
| "needs_quoting d name = None"

subsection \<open>The form of a name\<close>

definition lower_letter :: "char \<Rightarrow> bool" where
  "lower_letter c \<longleftrightarrow> 97 \<le> byte c \<and> byte c \<le> 122"

definition is_simple :: "string \<Rightarrow> bool" where
  "is_simple name \<longleftrightarrow>
     (case name of
        [] \<Rightarrow> False
      | c # cs \<Rightarrow> (lower_letter c \<or> c = CHR ''_'')
          \<and> list_all (\<lambda>b. lower_letter b \<or> is_ascii_digit b \<or> b = CHR ''_'') cs)"

definition insertion_form :: "string \<Rightarrow> sql_dialect \<Rightarrow> string" where
  "insertion_form name d =
     (if is_simple name \<and> needs_quoting d name = Some False then name
      else quote_identifier name (quote_style_for d))"

text \<open>Characters that would show another text than the one that runs.\<close>

definition hides_text :: "text_points \<Rightarrow> bool" where
  "hides_text name \<longleftrightarrow> list_ex (\<lambda>c. is_control_point c \<or> in_ranges
     [(0xAD, 0xAD), (0x600, 0x605), (0x61C, 0x61C), (0x6DD, 0x6DD), (0x70F, 0x70F), (0x890, 0x891),
      (0x8E2, 0x8E2), (0x115F, 0x115F), (0x1160, 0x1160), (0x180E, 0x180E), (0x200B, 0x200F),
      (0x2028, 0x202E), (0x2060, 0x2064), (0x2066, 0x206F), (0x3164, 0x3164), (0xFEFF, 0xFEFF),
      (0xFFA0, 0xFFA0), (0xFFF9, 0xFFFB), (0x110BD, 0x110BD), (0x110CD, 0x110CD), (0x13430, 0x1343F),
      (0x1BCA0, 0x1BCA3), (0x1D173, 0x1D17A), (0xE0001, 0xE0001), (0xE0020, 0xE007F)] c) name"

subsection \<open>A value as a literal\<close>

datatype literal_error = Nul | ControlCharacter nat

datatype escaping = Standard | National | PostgresEscape | Backslash | BackslashQuote

fun escaping_of :: "sql_dialect \<Rightarrow> escaping" where
  "escaping_of SqlServer = National"
| "escaping_of Postgres = PostgresEscape"
| "escaping_of Redshift = PostgresEscape"
| "escaping_of MySql = Backslash"
| "escaping_of Snowflake = Backslash"
| "escaping_of ClickHouse = Backslash"
| "escaping_of BigQuery = BackslashQuote"
| "escaping_of d = Standard"

text \<open>The first control character that is not allowed; one past ASCII is two bytes.\<close>

fun first_control :: "(char \<Rightarrow> bool) \<Rightarrow> string \<Rightarrow> nat option" where
  "first_control allowed [] = None"
| "first_control allowed (c # s) =
     (if (byte c < 32 \<or> byte c = 127) \<and> \<not> allowed c then Some (byte c)
      else if byte c = 194 then
        (case s of d # _ \<Rightarrow> if 128 \<le> byte d \<and> byte d \<le> 159 then Some (byte d) else first_control allowed s
         | [] \<Rightarrow> None)
      else first_control allowed s)"

definition refuse_controls :: "string \<Rightarrow> (char \<Rightarrow> bool) \<Rightarrow> literal_error + unit" where
  "refuse_controls s allowed =
     (case first_control allowed s of
        None \<Rightarrow> Inr ()
      | Some c \<Rightarrow> if c = 0 then Inl Nul else Inl (ControlCharacter c))"

definition check_identifier :: "string \<Rightarrow> literal_error + unit" where
  "check_identifier name = refuse_controls name (\<lambda>_. False)"

definition tab_or_break :: "char \<Rightarrow> bool" where
  "tab_or_break c \<longleftrightarrow> c = CHR 0x09 \<or> c = CHR 0x0A \<or> c = CHR 0x0D"

definition doubles_backslash :: "escaping \<Rightarrow> string \<Rightarrow> bool" where
  "doubles_backslash e value =
     (case e of Backslash \<Rightarrow> True | BackslashQuote \<Rightarrow> True | PostgresEscape \<Rightarrow> CHR 0x5C \<in> set value
      | Standard \<Rightarrow> False | National \<Rightarrow> False)"

definition literal_prefix :: "escaping \<Rightarrow> string \<Rightarrow> string" where
  "literal_prefix e value =
     (case e of National \<Rightarrow> ''N'' | PostgresEscape \<Rightarrow> if doubles_backslash e value then ''E'' else [] | _ \<Rightarrow> [])"

definition literal_char :: "escaping \<Rightarrow> bool \<Rightarrow> char \<Rightarrow> string" where
  "literal_char e doubles c =
     (if c = CHR 0x27 then (if e = BackslashQuote then [CHR 0x5C, CHR 0x27] else [CHR 0x27, CHR 0x27])
      else if c = CHR 0x5C \<and> doubles then [CHR 0x5C, CHR 0x5C]
      else if c = CHR 0x0A \<and> e = BackslashQuote then [CHR 0x5C, CHR ''n'']
      else if c = CHR 0x0D \<and> e = BackslashQuote then [CHR 0x5C, CHR ''r'']
      else if c = CHR 0x09 \<and> e = BackslashQuote then [CHR 0x5C, CHR ''t'']
      else [c])"

definition push_string_literal ::
  "string \<Rightarrow> string \<Rightarrow> sql_dialect \<Rightarrow> (literal_error + unit) \<times> string" where
  "push_string_literal out0 val0 d =
     (case refuse_controls val0 tab_or_break of
        Inl e \<Rightarrow> (Inl e, out0)
      | Inr _ \<Rightarrow>
          (let e = escaping_of d in
           (Inr (), out0 @ literal_prefix e val0 @ [CHR 0x27]
              @ concat (map (literal_char e (doubles_backslash e val0)) val0) @ [CHR 0x27])))"

subsection \<open>A name inserted is one element\<close>

lemma quote_identifier_longer: "quote_identifier name (quote_style_for d) \<noteq> name"
proof -
  have "length name \<le> length (double_char q name)" "length name \<le> length (escape_backtick name)" for q
    by (induction name) (auto simp: double_char_def escape_backtick_def)
  then have "length name < length (quote_identifier name (quote_style_for d))"
    by (cases d) (simp_all add: le_imp_less_Suc le_SucI)
  then show ?thesis by fastforce
qed

lemma skip_word_all:
  assumes "list_all is_word_byte w" "rest = [] \<or> \<not> is_word_byte (hd rest)"
  shows "skip_word_from (pre @ w @ rest) (length pre) = length pre + length w"
  using assms(1)
proof (induction w arbitrary: pre)
  case Nil
  with assms(2) show ?case by (subst skip_word_from.simps) (cases rest; auto simp: get_at_append get_at_def nth_append)
next
  case (Cons c w)
  from Cons.IH [of "pre @ [c]"] Cons.prems show ?case
    by (subst skip_word_from.simps) (simp add: get_at_append)
qed

lemma simple_word:
  assumes "is_simple name"
  obtains c cs where "name = c # cs" "is_word_start c" "list_all is_word_byte cs"
    "c \<noteq> CHR ''-''" "c \<noteq> CHR ''#''" "c \<noteq> CHR ''/''" "c \<noteq> CHR 0x27" "c \<noteq> CHR 0x22" "c \<noteq> CHR 0x60"
    "c \<noteq> CHR ''[''" "c \<noteq> CHR ''$''"
proof -
  obtain c cs where name: "name = c # cs" "lower_letter c \<or> c = CHR ''_''"
    "list_all (\<lambda>b. lower_letter b \<or> is_ascii_digit b \<or> b = CHR ''_'') cs"
    using assms by (auto simp: is_simple_def split: list.splits)
  have "is_word_start c" using name(2)
    by (auto simp: is_word_start_def is_ascii_alphabetic_def lower_letter_def)
  moreover have "list_all is_word_byte cs" using name(3)
    by (auto simp: list_all_iff is_word_byte_def is_ascii_alphanumeric_def is_ascii_alphabetic_def lower_letter_def)
  moreover have "lower_letter x \<or> x = CHR ''_'' \<Longrightarrow> x \<notin> {CHR ''-'', CHR ''#'', CHR ''/'', CHR 0x27, CHR 0x22, CHR 0x60,
      CHR ''['', CHR ''$''}" for x
    by (auto simp: lower_letter_def byte_def)
  ultimately show thesis using that name by blast
qed

text \<open>Bare or quoted, the form of a name is one element for the scanner of the dialect, and a bare one is
  a word the dialect does not reserve.\<close>

lemma lex_insertion_form:
  assumes "d \<noteq> Snowflake \<or> CHR 0x5C \<notin> set name"
    and "rest = [] \<or> \<not> is_word_byte (hd rest) \<and> hd rest \<noteq> closing_quote (quote_style_for d)"
    and "form = insertion_form name d"
  shows "lex (pre @ form @ rest) (length pre) (hd form) (for_dialect d)
    = (if form = name then Word else Quoted, length pre + length form)"
proof (cases "is_simple name \<and> needs_quoting d name = Some False")
  case True
  then have form: "form = name" by (simp add: assms(3) insertion_form_def)
  obtain c cs where c: "name = c # cs" "is_word_start c" "list_all is_word_byte cs"
    "c \<noteq> CHR ''-''" "c \<noteq> CHR ''#''" "c \<noteq> CHR ''/''" "c \<noteq> CHR 0x27" "c \<noteq> CHR 0x22" "c \<noteq> CHR 0x60"
    "c \<noteq> CHR ''[''" "c \<noteq> CHR ''$''" using True simple_word by metis
  have "skip_word (pre @ name @ rest) (length pre) = length pre + length name"
    using skip_word_all [OF c(3), of rest "pre @ [c]"] assms(2) by (auto simp: skip_word_def c(1))
  with c(2,4-) show ?thesis by (simp add: form c(1) lex_def)
next
  case False
  then have form: "form = quote_identifier name (quote_style_for d)"
    unfolding assms(3) insertion_form_def by (rule if_not_P)
  have "\<not> starts_with rest [closing_quote (quote_style_for d)]"
    using assms(2) by (cases rest) (auto simp: starts_with_def)
  moreover have "form \<noteq> name" unfolding form by (rule quote_identifier_longer)
  ultimately show ?thesis using lex_quote_identifier [OF assms(1) _ form] by simp
qed

subsection \<open>A literal is one element\<close>

text \<open>What stands for a character between the quotes, as the loop of the scanner reads it.\<close>

definition reads_past :: "char \<Rightarrow> bool \<Rightarrow> string \<Rightarrow> bool" where
  "reads_past q backslash s \<longleftrightarrow> (\<exists>c. s = [c] \<and> c \<noteq> q \<and> \<not> (backslash \<and> c = CHR 0x5C))
     \<or> (s = [q, q] \<and> \<not> (backslash \<and> q = CHR 0x5C)) \<or> (backslash \<and> (\<exists>c. s = [CHR 0x5C, c]))"

lemma quoted_from_past:
  assumes "list_all (reads_past q backslash) ss" "\<not> starts_with rest [q]" "\<not> (backslash \<and> q = CHR 0x5C)"
  shows "quoted_from (pre @ concat ss @ q # rest) (length pre) q backslash = length pre + length (concat ss) + 1"
  using assms(1)
proof (induction ss arbitrary: pre)
  case Nil
  have "get_at (pre @ q # rest) (Suc (length pre)) \<noteq> Some q"
    using assms(2) by (auto simp: get_at_append starts_with_def split: list.split)
  with assms(3) show ?case by (subst quoted_from.simps) (auto simp: get_at_append)
next
  case (Cons s ss)
  let ?text = "pre @ concat (s # ss) @ q # rest"
  from Cons.prems have s: "reads_past q backslash s" by simp
  have "quoted_from ?text (length pre) q backslash = quoted_from ?text (length (pre @ s)) q backslash"
    using s assms(3) unfolding reads_past_def
    by (subst quoted_from.simps) (auto simp: get_at_append)
  also have "\<dots> = length (pre @ s) + length (concat ss) + 1"
    using Cons.IH [of "pre @ s"] Cons.prems by simp
  finally show ?case by simp
qed

lemma literal_char_cases:
  "literal_char e doubles c = [c] \<and> c \<noteq> CHR 0x27 \<and> \<not> (c = CHR 0x5C \<and> doubles)
   \<or> literal_char e doubles c = [CHR 0x27, CHR 0x27]
   \<or> literal_char e doubles c = [CHR 0x5C, CHR 0x5C] \<and> doubles
   \<or> e = BackslashQuote \<and> (\<exists>x. literal_char e doubles c = [CHR 0x5C, x])"
  by (simp add: literal_char_def)

lemma lex_string_literal:
  assumes "push_string_literal out0 val0 d = (Inr (), txt)" "out0 = [] \<or> \<not> is_word_byte (last out0)"
    and "\<not> starts_with rest [CHR 0x27]"
  shows "\<exists>prefix body. txt = out0 @ prefix @ body \<and> prefix = literal_prefix (escaping_of d) val0
    \<and> lex (txt @ rest) (length out0 + length prefix) (hd body) (for_dialect d) = (SingleQuoted, length txt)"
proof -
  let ?e = "escaping_of d" and ?dbl = "doubles_backslash (escaping_of d) val0"
  let ?prefix = "literal_prefix ?e val0" and ?ss = "map (literal_char ?e ?dbl) val0"
  have eq: "txt = (out0 @ ?prefix) @ (CHR 0x27 # concat ?ss @ [CHR 0x27])"
    using assms(1) by (auto simp: push_string_literal_def Let_def split: sum.splits)
  let ?flag = "backslash_escapes (for_dialect d)
    \<or> (escape_string_prefix (for_dialect d) \<and> has_escape_prefix (txt @ rest) (length (out0 @ ?prefix)))"
  have plain: "\<not> has_escape_prefix (txt @ rest) (length out0)" if "?prefix = []"
    using assms(2) by (cases out0 rule: rev_cases)
      (auto simp: has_escape_prefix_def eq that get_at_append is_word_byte_def is_ascii_alphanumeric_def
        is_ascii_alphabetic_def byte_def)
  have escape: "has_escape_prefix (txt @ rest) (length out0 + 1)" if "?prefix = ''E''"
    using assms(2) by (cases out0 rule: rev_cases) (auto simp: has_escape_prefix_def eq that get_at_append get_at_def nth_append)
  have doubled: "?dbl \<Longrightarrow> ?flag"
    using escape by (cases d) (simp_all add: doubles_backslash_def literal_prefix_def postgres_profile_def warehouse_profile_def)
  have quoted: "?e = BackslashQuote \<Longrightarrow> ?flag" by (cases d) (simp_all add: warehouse_profile_def)
  have single: "?flag \<Longrightarrow> ?dbl \<or> CHR 0x5C \<notin> set val0"
    using plain by (cases d) (simp_all add: doubles_backslash_def literal_prefix_def permissive_def)
  have "reads_past (CHR 0x27) ?flag (literal_char ?e ?dbl c)" if "c \<in> set val0" for c
  proof -
    from literal_char_cases [of ?e ?dbl c] show ?thesis
    proof (elim disjE conjE exE)
      assume "literal_char ?e ?dbl c = [c]" "c \<noteq> CHR 0x27" "\<not> (c = CHR 0x5C \<and> ?dbl)"
      with single that show ?thesis by (auto simp: reads_past_def)
    next
      assume "literal_char ?e ?dbl c = [CHR 0x27, CHR 0x27]"
      then show ?thesis by (simp add: reads_past_def)
    next
      assume "literal_char ?e ?dbl c = [CHR 0x5C, CHR 0x5C]" "?dbl"
      with doubled show ?thesis by (simp add: reads_past_def)
    next
      fix x
      assume "?e = BackslashQuote" "literal_char ?e ?dbl c = [CHR 0x5C, x]"
      with quoted show ?thesis by (simp add: reads_past_def)
    qed
  qed
  then have past: "list_all (reads_past (CHR 0x27) ?flag) ?ss" by (simp add: list_all_iff)
  have "quoted_from ((out0 @ ?prefix @ [CHR 0x27]) @ concat ?ss @ CHR 0x27 # rest) (length (out0 @ ?prefix @ [CHR 0x27]))
      (CHR 0x27) ?flag = length (out0 @ ?prefix @ [CHR 0x27]) + length (concat ?ss) + 1"
    by (rule quoted_from_past [OF past assms(3)]) simp
  then have "skip_quoted (txt @ rest) (length (out0 @ ?prefix)) (CHR 0x27) ?flag = length txt"
    by (simp add: skip_quoted_def eq)
  then have "lex (txt @ rest) (length (out0 @ ?prefix)) (CHR 0x27) (for_dialect d) = (SingleQuoted, length txt)"
    by (simp add: lex_def)
  with eq show ?thesis by (intro exI [of _ ?prefix] exI [of _ "CHR 0x27 # concat ?ss @ [CHR 0x27]"]) simp
qed

end
