(* ===== verification/Redaction.thy ===== *)
theory Redaction
  imports Sql_Split
begin

text \<open>
  Taking credentials out of a SQL text before it is kept (\<open>crates/oxyn-query/src/redact.rs\<close>): the
  reading of the scanner's stream that finds the literals, and the replacement of their spans. The
  texts of the other languages have redactors of their own.
\<close>

subsection \<open>Finding the literals\<close>

definition redacted_literal :: string where
  "redacted_literal = [CHR 0x27] @ ''<redacted>'' @ [CHR 0x27]"

datatype statement_kind =
  KOther | KCreateOrAlter | KRoleOrUser | KSet | KSubscription | KServer | KChange | KReplication

datatype secret_clause = NoSecret | Identified | IdentifiedWith | AwaitingLiteral | AwaitingSetLiteral

record redact_state =
  rd_kind :: statement_kind
  rd_clause :: secret_clause
  rd_password :: bool
  rd_first :: bool
  rd_found :: "(nat \<times> nat) list"

definition redact_start :: redact_state where
  "redact_start =
     \<lparr>rd_kind = KOther, rd_clause = NoSecret, rd_password = False, rd_first = True, rd_found = []\<rparr>"

definition word_in :: "string list \<Rightarrow> string \<Rightarrow> bool" where
  "word_in keywords word \<longleftrightarrow> list_ex (eq_ignore_case word) keywords"

definition next_kind :: "string \<Rightarrow> bool \<Rightarrow> statement_kind \<Rightarrow> statement_kind" where
  "next_kind word first_word kind =
     (if word_in [''CREATE'', ''ALTER''] word then KCreateOrAlter
      else if kind = KCreateOrAlter then
        (if word_in [''OR'', ''REPLACE''] word then KCreateOrAlter
         else if word_in [''ROLE'', ''USER''] word then KRoleOrUser
         else if word_in [''SUBSCRIPTION''] word then KSubscription
         else if word_in [''SERVER''] word then KServer
         else KOther)
      else if first_word \<and> word_in [''CHANGE''] word then KChange
      else if kind = KChange then
        (if word_in [''REPLICATION'', ''MASTER''] word then KReplication else KOther)
      else if word_in [''GRANT''] word then KRoleOrUser
      else if word_in [''SET''] word \<and> kind = KOther then KSet
      else kind)"

text \<open>The clause after a word, and whether the word opens a clause that names a password.\<close>

definition next_clause ::
  "string \<Rightarrow> statement_kind \<Rightarrow> bool \<Rightarrow> secret_clause \<Rightarrow> secret_clause \<times> bool" where
  "next_clause word kind password clause =
     (if kind = KSubscription \<and> word_in [''CONNECTION''] word then (AwaitingLiteral, password)
      else if kind = KServer \<and> word_in [''PASSWORD''] word then (AwaitingLiteral, password)
      else if kind = KReplication \<and> word_in [''SOURCE_PASSWORD'', ''MASTER_PASSWORD''] word
      then (AwaitingLiteral, password)
      else if clause = Identified \<and> word_in [''BY''] word then (AwaitingLiteral, password)
      else if clause = Identified \<and> word_in [''WITH'', ''VIA''] word then (IdentifiedWith, password)
      else if clause = IdentifiedWith \<and> word_in [''BY'', ''AS'', ''USING''] word
      then (AwaitingLiteral, password)
      else if kind = KRoleOrUser \<and> word_in [''PASSWORD''] word then (AwaitingLiteral, True)
      else if kind = KRoleOrUser \<and> word_in [''IDENTIFIED''] word then (Identified, True)
      else if kind = KSet \<and> word_in [''PASSWORD''] word \<and> clause \<noteq> AwaitingLiteral
      then (AwaitingSetLiteral, True)
      else if password \<and> word_in [''REPLACE'', ''USING'', ''AS''] word then (AwaitingLiteral, password)
      else if clause = AwaitingLiteral \<and> \<not> word_in [''E'', ''N'', ''U'', ''PASSWORD''] word
              \<and> \<not> starts_with word ''_''
      then (NoSecret, password)
      else (clause, password))"

definition after_word :: "string \<Rightarrow> redact_state \<Rightarrow> redact_state" where
  "after_word word st =
     (let kind = next_kind word (rd_first st) (rd_kind st);
          clause = next_clause word kind (rd_password st) (rd_clause st)
      in st\<lparr>rd_kind := kind, rd_first := False, rd_clause := fst clause, rd_password := snd clause\<rparr>)"

text \<open>A dollar quote, or in MySQL a text between double quotes, is a literal too.\<close>

definition quotes_a_literal :: "sql_dialect \<Rightarrow> string \<Rightarrow> bool" where
  "quotes_a_literal d literal \<longleftrightarrow>
     starts_with literal ''$'' \<or> (d = MySql \<and> starts_with literal [CHR 0x22])"

fun collect_step :: "string \<Rightarrow> sql_dialect \<Rightarrow> tok \<times> nat \<times> nat \<Rightarrow> redact_state \<Rightarrow> redact_state" where
  "collect_step sql d (Semicolon, a, b) st =
     st\<lparr>rd_kind := KOther, rd_clause := NoSecret, rd_password := False, rd_first := True\<rparr>"
| "collect_step sql d (Comment, a, b) st = st"
| "collect_step sql d (UnreadableComment, a, b) st = st"
| "collect_step sql d (Word, a, b) st =
     (case get_range sql a b of None \<Rightarrow> st | Some word \<Rightarrow> after_word word st)"
| "collect_step sql d (SingleQuoted, a, b) st =
     (if rd_clause st = AwaitingLiteral then st\<lparr>rd_found := rd_found st @ [(a, b)]\<rparr> else st)"
| "collect_step sql d (Quoted, a, b) st =
     (if rd_clause st = AwaitingLiteral
         \<and> (case get_range sql a b of None \<Rightarrow> False | Some literal \<Rightarrow> quotes_a_literal d literal)
      then st\<lparr>rd_found := rd_found st @ [(a, b)]\<rparr> else st)"
| "collect_step sql d (Symbol, a, b) st =
     (if rd_clause st = AwaitingSetLiteral \<and> get_range sql a b = Some ''=''
      then st\<lparr>rd_clause := AwaitingLiteral\<rparr>
      else if rd_clause st = AwaitingLiteral
              \<and> (case get_range sql a b of None \<Rightarrow> False
                  | Some symbol \<Rightarrow> symbol \<in> {'','', '')'', ''@''})
      then st\<lparr>rd_clause := NoSecret\<rparr>
      else st)"

definition collect_with_profile :: "string \<Rightarrow> sql_dialect \<Rightarrow> split_profile \<Rightarrow> (nat \<times> nat) list" where
  "collect_with_profile sql d p =
     (let visible = (if d = MySql then (case executable_sql sql p of None \<Rightarrow> sql | Some v \<Rightarrow> v) else sql)
      in rd_found (fold (collect_step sql d) (scan visible p) redact_start))"

text \<open>Both readings of a backslash, where a mode of the server decides which is meant.\<close>

definition collect_literals :: "string \<Rightarrow> sql_dialect \<Rightarrow> (nat \<times> nat) list" where
  "collect_literals sql d =
     (let p = for_dialect d in
      collect_with_profile sql d p
      @ (if backslash_escapes p \<or> d = Postgres \<or> d = Redshift
         then collect_with_profile sql d (p\<lparr>backslash_escapes := \<not> backslash_escapes p\<rparr>)
         else []))"

definition secret_spans :: "string \<Rightarrow> sql_dialect \<Rightarrow> (nat \<times> nat) list" where
  "secret_spans sql d =
     (if d = Ansi then collect_literals sql Postgres @ collect_literals sql MySql
      else collect_literals sql d)"

subsection \<open>Replacing the spans\<close>

definition merge_span :: "nat \<times> nat \<Rightarrow> (nat \<times> nat) list \<Rightarrow> (nat \<times> nat) list" where
  "merge_span span merged =
     (case rev merged of
        [] \<Rightarrow> [span]
      | (a, b) # before \<Rightarrow>
          if fst span \<le> b then rev before @ [(a, max b (snd span))] else merged @ [span])"

definition merge_spans :: "(nat \<times> nat) list \<Rightarrow> (nat \<times> nat) list" where
  "merge_spans spans = fold merge_span (sort_key fst spans) []"

definition replace_span :: "string \<Rightarrow> nat \<times> nat \<Rightarrow> string \<times> nat \<Rightarrow> string \<times> nat" where
  "replace_span sql span acc =
     (fst acc @ (case get_range sql (snd acc) (fst span) of None \<Rightarrow> [] | Some kept \<Rightarrow> kept)
        @ redacted_literal, snd span)"

definition replace_spans :: "string \<Rightarrow> (nat \<times> nat) list \<Rightarrow> string" where
  "replace_spans sql merged =
     (case fold (replace_span sql) merged ([], 0) of
        (redacted, copied) \<Rightarrow>
          redacted @ (case get_range sql copied (length sql) of None \<Rightarrow> [] | Some rest \<Rightarrow> rest))"

definition redact_sql :: "string \<Rightarrow> sql_dialect \<Rightarrow> string" where
  "redact_sql sql d = replace_spans sql (merge_spans (secret_spans sql d))"

subsection \<open>What the replacement keeps\<close>

definition covers :: "(nat \<times> nat) list \<Rightarrow> nat \<Rightarrow> bool" where
  "covers spans i \<longleftrightarrow> (\<exists>(a, b) \<in> set spans. a \<le> i \<and> i < b)"

text \<open>The reference: each run of covered bytes gives one marker, and every other byte is kept.\<close>

definition mask_runs :: "(nat \<Rightarrow> bool) \<Rightarrow> string \<Rightarrow> string" where
  "mask_runs c sql = concat (map (\<lambda>i. if \<not> c i then [sql ! i]
     else if i = 0 \<or> \<not> c (i - 1) then redacted_literal else []) [0 ..< length sql])"

text \<open>Separated spans: not empty, within the text, with something kept between two of them.\<close>

definition separated :: "nat \<Rightarrow> (nat \<times> nat) list \<Rightarrow> bool" where
  "separated n ms \<longleftrightarrow> (\<forall>(a, b) \<in> set ms. a < b \<and> b \<le> n) \<and> sorted_wrt (\<lambda>m m'. snd m < fst m') ms"

lemma separated_snoc:
  "separated n (ms @ [(a, b)]) \<longleftrightarrow> separated n ms \<and> a < b \<and> b \<le> n \<and> (\<forall>m \<in> set ms. snd m < a)"
  by (auto simp: separated_def sorted_wrt_append)

lemma separated_Cons:
  "separated n ((a, b) # ms) \<longleftrightarrow> separated n ms \<and> a < b \<and> b \<le> n \<and> (\<forall>m \<in> set ms. b < fst m)"
  by (auto simp: separated_def)

lemma separated_apart:
  "separated n ms \<Longrightarrow> (a, b) \<in> set ms \<Longrightarrow> (x, y) \<in> set ms \<Longrightarrow> (x, y) = (a, b) \<or> y < a \<or> b < x"
proof (induction ms)
  case (Cons m ms)
  obtain u v where "m = (u, v)" by fastforce
  with Cons show ?case by (auto simp: separated_Cons)
qed simp

lemma merge_span_separated:
  assumes "separated n merged" "a < b" "b \<le> n" "\<forall>m \<in> set merged. fst m \<le> a"
  shows "separated n (merge_span (a, b) merged)
    \<and> (covers (merge_span (a, b) merged) i \<longleftrightarrow> covers merged i \<or> (a \<le> i \<and> i < b))
    \<and> (\<forall>m \<in> set (merge_span (a, b) merged). fst m \<le> a)"
proof (cases merged rule: rev_cases)
  case Nil
  with assms show ?thesis by (simp add: merge_span_def covers_def separated_def)
next
  case (snoc prior m)
  obtain x y where m: "m = (x, y)" by fastforce
  have prior: "separated n prior" "x < y" "y \<le> n" "\<forall>m \<in> set prior. snd m < x" "x \<le> a"
    using assms(1,4) by (simp_all add: snoc m separated_snoc)
  show ?thesis
  proof (cases "a \<le> y")
    case True
    then have run: "merge_span (a, b) merged = prior @ [(x, max y b)]" by (simp add: merge_span_def snoc m)
    have "separated n (prior @ [(x, max y b)])" using prior assms(3) by (auto simp: separated_snoc)
    moreover have "covers (prior @ [(x, max y b)]) i \<longleftrightarrow> covers merged i \<or> (a \<le> i \<and> i < b)"
      using True prior(5) by (auto simp: covers_def snoc m)
    ultimately show ?thesis using assms(4) unfolding run by (simp add: snoc m)
  next
    case False
    then have run: "merge_span (a, b) merged = merged @ [(a, b)]" by (simp add: merge_span_def snoc m)
    have "\<forall>m \<in> set merged. snd m < a" using prior False by (auto simp: snoc m)
    then have "separated n (merged @ [(a, b)])" using assms(1-3) by (simp add: separated_snoc)
    then show ?thesis using assms(4) by (auto simp: run covers_def)
  qed
qed

lemma fold_merge_separated:
  assumes "separated n merged" "\<forall>(a, b) \<in> set spans. a < b \<and> b \<le> n" "sorted (map fst spans)"
    and "\<forall>m \<in> set merged. \<forall>s \<in> set spans. fst m \<le> fst s"
  shows "separated n (fold merge_span spans merged)
    \<and> (covers (fold merge_span spans merged) i \<longleftrightarrow> covers merged i \<or> covers spans i)"
  using assms
proof (induction spans arbitrary: merged)
  case (Cons s spans)
  obtain a b where s: "s = (a, b)" by fastforce
  have now: "a < b" "b \<le> n" "\<forall>m \<in> set merged. fst m \<le> a" "\<forall>t \<in> set spans. a \<le> fst t"
    using Cons.prems by (auto simp: s)
  note one = merge_span_separated [OF Cons.prems(1) now(1-3), of i]
  have "\<forall>m \<in> set (merge_span (a, b) merged). \<forall>t \<in> set spans. fst m \<le> fst t"
    using one now(4) by (meson order_trans)
  with Cons.IH [of "merge_span (a, b) merged"] one Cons.prems(2,3)
  show ?case by (auto simp: s covers_def)
qed (simp add: covers_def)

lemma merge_spans_spec:
  assumes "\<forall>(a, b) \<in> set spans. a < b \<and> b \<le> n"
  shows "separated n (merge_spans spans) \<and> (covers (merge_spans spans) i \<longleftrightarrow> covers spans i)"
  using fold_merge_separated [of n "[]" "sort_key fst spans" i] assms
  by (simp add: merge_spans_def separated_def covers_def)

fun replaced :: "string \<Rightarrow> (nat \<times> nat) list \<Rightarrow> nat \<Rightarrow> string" where
  "replaced sql [] copied = drop copied sql"
| "replaced sql ((a, b) # ms) copied =
     take (a - copied) (drop copied sql) @ redacted_literal @ replaced sql ms b"

lemma replace_spans_replaced:
  assumes "separated (length sql) ms" "copied \<le> length sql" "\<forall>m \<in> set ms. copied \<le> fst m"
  shows "(case fold (replace_span sql) ms (done, copied) of
      (redacted, done_to) \<Rightarrow> redacted @ (case get_range sql done_to (length sql) of None \<Rightarrow> [] | Some rest \<Rightarrow> rest))
    = done @ replaced sql ms copied"
  using assms
proof (induction ms arbitrary: "done" copied)
  case (Cons m ms)
  obtain a b where m: "m = (a, b)" by fastforce
  have "separated (length sql) ms" "a < b" "b \<le> length sql" "\<forall>m \<in> set ms. b < fst m" "copied \<le> a"
    using Cons.prems by (simp_all add: m separated_Cons)
  with Cons.IH [of b "done @ take (a - copied) (drop copied sql) @ redacted_literal"]
  show ?case by (simp add: m replace_span_def get_range_def less_imp_le)
qed (simp add: get_range_def)

lemma upt_split: "lo \<le> a \<Longrightarrow> a \<le> n \<Longrightarrow> [lo ..< n] = [lo ..< a] @ [a ..< n]"
  by (metis le_Suc_ex upt_add_eq_append)

lemma map_nth_slice: "lo \<le> a \<Longrightarrow> a \<le> length xs \<Longrightarrow> map ((!) xs) [lo ..< a] = take (a - lo) (drop lo xs)"
  by (rule nth_equalityI) (auto simp: nth_append)

text \<open>Outside the spans a byte is kept; a span gives its marker where it begins.\<close>

lemma replaced_runs:
  assumes "separated (length sql) ms" "copied \<le> length sql" "\<forall>m \<in> set ms. copied \<le> fst m"
    and "\<And>i. copied \<le> i \<Longrightarrow> i < length sql \<Longrightarrow> c i \<longleftrightarrow> covers ms i"
    and "\<And>a b. (a, b) \<in> set ms \<Longrightarrow> a = 0 \<or> \<not> c (a - 1)"
  shows "replaced sql ms copied = concat (map (\<lambda>i. if \<not> c i then [sql ! i]
     else if i = 0 \<or> \<not> c (i - 1) then redacted_literal else []) [copied ..< length sql])"
  using assms
proof (induction ms arbitrary: copied)
  case Nil
  then have "\<And>i. i \<in> set [copied ..< length sql] \<Longrightarrow> \<not> c i" by (auto simp: covers_def)
  then have "map (\<lambda>i. if \<not> c i then [sql ! i] else if i = 0 \<or> \<not> c (i - 1) then redacted_literal else [])
      [copied ..< length sql] = map (\<lambda>i. [sql ! i]) [copied ..< length sql]"
    by (intro map_cong refl) auto
  moreover have "concat (map (\<lambda>i. [sql ! i]) [copied ..< length sql]) = drop copied sql"
    using map_nth_slice [of copied "length sql" sql] Nil.prems(2) by (simp add: concat_map_singleton)
  ultimately show ?case by (simp only: replaced.simps)
next
  case (Cons m ms)
  obtain a b where m: "m = (a, b)" by fastforce
  let ?f = "\<lambda>i. if \<not> c i then [sql ! i] else if i = 0 \<or> \<not> c (i - 1) then redacted_literal else []"
  have sep: "separated (length sql) ms" "a < b" "b \<le> length sql" "\<forall>m \<in> set ms. b < fst m" "copied \<le> a"
    using Cons.prems by (simp_all add: m separated_Cons)
  have later: "\<not> covers ms i" if "i \<le> b" for i
    using sep(4) that by (fastforce simp: covers_def)
  have cov: "c i \<longleftrightarrow> covers (m # ms) i" if "copied \<le> i" "i < length sql" for i
    using Cons.prems(4) that by blast
  have kept: "concat (map ?f [copied ..< a]) = take (a - copied) (drop copied sql)"
  proof -
    have "\<not> c i" if "i \<in> set [copied ..< a]" for i
      using that cov [of i] later [of i] sep by (auto simp: covers_def m)
    then have "map ?f [copied ..< a] = map (\<lambda>i. [sql ! i]) [copied ..< a]" by (intro map_cong refl) auto
    moreover have "concat (map (\<lambda>i. [sql ! i]) [copied ..< a]) = take (a - copied) (drop copied sql)"
      using map_nth_slice [of copied a sql] sep by (simp add: concat_map_singleton)
    ultimately show ?thesis by (simp only:)
  qed
  have inside: "c i" if "a \<le> i" "i < b" for i
    using that cov [of i] sep by (auto simp: covers_def m)
  have "?f a = redacted_literal" using inside [of a] sep(2) Cons.prems(5) [of a b] by (auto simp: m)
  moreover have "?f i = []" if "Suc a \<le> i" "i < b" for i
    using that inside [of i] inside [of "i - 1"] by auto
  then have "concat (map ?f [Suc a ..< b]) = []" by auto
  ultimately have marker: "concat (map ?f [a ..< b]) = redacted_literal"
    using sep(2) by (simp add: upt_conv_Cons)
  have "replaced sql ms b = concat (map ?f [b ..< length sql])"
  proof (rule Cons.IH [OF sep(1,3)])
    show "\<forall>m \<in> set ms. b \<le> fst m" using sep(4) by auto
    show "c i \<longleftrightarrow> covers ms i" if "b \<le> i" "i < length sql" for i
      using cov [of i] that sep by (auto simp: covers_def m)
    show "x = 0 \<or> \<not> c (x - 1)" if "(x, y) \<in> set ms" for x y using Cons.prems(5) [of x y] that by simp
  qed
  with kept marker show ?case
    using sep upt_split [of copied a "length sql"] upt_split [of a b "length sql"] by (simp add: m)
qed

lemma replace_spans_runs:
  assumes "\<forall>(a, b) \<in> set spans. a < b \<and> b \<le> length sql"
  shows "replace_spans sql (merge_spans spans) = mask_runs (covers spans) sql"
proof -
  note merged = merge_spans_spec [OF assms]
  have same: "covers (merge_spans spans) = covers spans" using merged by (auto simp: fun_eq_iff)
  have edge: "a = 0 \<or> \<not> covers spans (a - 1)" if "(a, b) \<in> set (merge_spans spans)" for a b
  proof (rule ccontr)
    assume no: "\<not> ?thesis"
    then have "covers (merge_spans spans) (a - 1)" by (simp add: same)
    then obtain x y where xy: "(x, y) \<in> set (merge_spans spans)" "x \<le> a - 1" "a - 1 < y"
      by (auto simp: covers_def)
    have "(x, y) \<noteq> (a, b)" using xy(2) no by auto
    then have "y < a \<or> b < x" using separated_apart [OF conjunct1 [OF merged] that xy(1)] by blast
    moreover have "a < b" using merged that by (auto simp: separated_def)
    ultimately show False using xy no by auto
  qed
  show ?thesis
    using replace_spans_replaced [of sql "merge_spans spans" 0 "[]"] merged
      replaced_runs [of sql "merge_spans spans" 0 "covers spans"] edge
    by (simp add: replace_spans_def mask_runs_def same)
qed

subsection \<open>What is found\<close>

text \<open>Every span found is the span of a token of the text.\<close>

lemma found_step:
  "rd_found (collect_step sql d (t, a, b) st) = rd_found st
   \<or> rd_found (collect_step sql d (t, a, b) st) = rd_found st @ [(a, b)]"
  by (cases t) (simp_all add: after_word_def Let_def split: option.split)

lemma found_spans:
  "set (rd_found (fold (collect_step sql d) ts st)) \<subseteq> set (rd_found st) \<union> set (map snd ts)"
proof (induction ts arbitrary: st)
  case (Cons t ts)
  obtain k a b where t: "t = (k, a, b)" by (metis prod_cases3)
  from Cons [of "collect_step sql d t st"] found_step [of sql d k a b st] show ?case
    by (auto simp: t)
qed simp

lemma collect_with_profile_ok:
  assumes "(a, b) \<in> set (collect_with_profile sql d p)"
  shows "a < b \<and> b \<le> length sql"
proof -
  let ?visible = "if d = MySql then (case executable_sql sql p of None \<Rightarrow> sql | Some v \<Rightarrow> v) else sql"
  have len: "length ?visible = length sql"
    using executable_sql_masked [of sql p] by (auto simp: masked_at_def split: option.split)
  from assms found_spans [of sql d "scan ?visible p" redact_start]
  obtain k where "(k, a, b) \<in> set (scan ?visible p)"
    by (auto simp: collect_with_profile_def redact_start_def Let_def)
  with ordered_spans_mem [OF scan_ordered [of ?visible p]] len show ?thesis by fastforce
qed

lemma secret_spans_ok: "\<forall>(a, b) \<in> set (secret_spans sql d). a < b \<and> b \<le> length sql"
  using collect_with_profile_ok by (fastforce simp: secret_spans_def collect_literals_def Let_def split: if_splits)

text \<open>Redacting is masking: every byte outside the secrets is kept, each run of secrets is one marker.\<close>

lemma redact_sql_masks: "redact_sql sql d = mask_runs (covers (secret_spans sql d)) sql"
  unfolding redact_sql_def by (rule replace_spans_runs [OF secret_spans_ok])

text \<open>Two texts that only differ in their secrets are kept as the same text.\<close>

lemma mask_runs_cong:
  assumes "length sql = length sql'" "\<And>i. i < length sql \<Longrightarrow> \<not> c i \<Longrightarrow> sql ! i = sql' ! i"
  shows "mask_runs c sql = mask_runs c sql'"
  unfolding mask_runs_def using assms by (intro arg_cong [of _ _ concat] map_cong) auto

lemma redact_sql_hides:
  assumes "length sql = length sql'" "secret_spans sql d = secret_spans sql' d"
    and "\<And>i. i < length sql \<Longrightarrow> \<not> covers (secret_spans sql d) i \<Longrightarrow> sql ! i = sql' ! i"
  shows "redact_sql sql d = redact_sql sql' d"
  using assms mask_runs_cong [of sql sql' "covers (secret_spans sql d)"] by (simp add: redact_sql_masks)

text \<open>An unknown dialect hides all that PostgreSQL and MySQL hide, and every reading of a backslash is
  covered where the mode of the server decides it.\<close>

lemma covers_append: "covers (xs @ ys) i \<longleftrightarrow> covers xs i \<or> covers ys i"
  by (auto simp: covers_def)

lemma ansi_covers:
  assumes "d \<in> {Postgres, MySql}" "covers (secret_spans sql d) i"
  shows "covers (secret_spans sql Ansi) i"
  using assms by (auto simp: secret_spans_def covers_append)

text \<open>A literal met while one is awaited is found.\<close>

lemma found_mono:
  "set (rd_found st) \<subseteq> set (rd_found (fold (collect_step sql d) ts st))"
proof (induction ts arbitrary: st)
  case (Cons t ts)
  obtain k a b where t: "t = (k, a, b)" by (metis prod_cases3)
  from Cons [of "collect_step sql d t st"] found_step [of sql d k a b st] show ?case
    by (auto simp: t)
qed simp

lemma awaited_literal_covered:
  assumes "d \<noteq> MySql" "scan sql p = before @ (SingleQuoted, a, b) # rest"
    and "rd_clause (fold (collect_step sql d) before redact_start) = AwaitingLiteral"
  shows "(a, b) \<in> set (collect_with_profile sql d p)"
  using found_mono [of "collect_step sql d (SingleQuoted, a, b) (fold (collect_step sql d) before redact_start)"
      sql d rest] assms
  by (auto simp: collect_with_profile_def Let_def)

end
