(* ===== verification/Agent_Selection.thy ===== *)
theory Agent_Selection
  imports Catalog_Scopes
begin

text \<open>
  Which relations a context describes (\<open>crates/oxyn-ai/src/context/wanted.rs\<close>, \<open>semantic.rs\<close>): the
  mentioned ones, then what the search finds. The search of the catalog is a parameter, its hits with
  their scores; a score is a value of a linear order, the one \<open>total_cmp\<close> gives the finite numbers the
  code keeps. The gate and the host that loads a catalog for it select by the same function.
\<close>

subsection \<open>Orders\<close>

text \<open>The derived \<open>Ord\<close> of a path: level by level, a missing level first.\<close>

fun level_less :: "string option \<Rightarrow> string option \<Rightarrow> bool" where
  "level_less None t = (t \<noteq> None)"
| "level_less (Some a) None = False"
| "level_less (Some a) (Some b) = bytes_less a b"

definition path_less :: "catalog_path \<Rightarrow> catalog_path \<Rightarrow> bool" where
  "path_less p q \<longleftrightarrow> level_less (cp_catalog p) (cp_catalog q)
     \<or> cp_catalog p = cp_catalog q \<and> (level_less (cp_namespace p) (cp_namespace q)
         \<or> cp_namespace p = cp_namespace q \<and> level_less (cp_relation p) (cp_relation q))"

text \<open>A stable sort: \<open>lt x y\<close> says that \<open>x\<close> has to come before \<open>y\<close>.\<close>

fun insert_by :: "('a \<Rightarrow> 'a \<Rightarrow> bool) \<Rightarrow> 'a \<Rightarrow> 'a list \<Rightarrow> 'a list" where
  "insert_by lt x [] = [x]"
| "insert_by lt x (y # ys) = (if lt y x then y # insert_by lt x ys else x # y # ys)"

definition sort_by :: "('a \<Rightarrow> 'a \<Rightarrow> bool) \<Rightarrow> 'a list \<Rightarrow> 'a list" where
  "sort_by lt xs = foldr (insert_by lt) xs []"

lemma set_insert_by [simp]: "set (insert_by lt x ys) = insert x (set ys)"
  by (induction ys) auto

lemma set_sort_by [simp]: "set (sort_by lt xs) = set xs"
  by (induction xs) (simp_all add: sort_by_def)

subsection \<open>The candidates\<close>

type_synonym 'f search = "catalog_cache \<Rightarrow> string \<Rightarrow> nat \<Rightarrow> (catalog_path \<times> 'f) list"

type_synonym 'g semantic_scores = "(catalog_path \<times> 'g) list"

text \<open>\<open>SemanticScores::compare\<close>: the highest first, a scored path before one that is not.\<close>

definition semantic_before :: "('g::linorder) semantic_scores \<Rightarrow> catalog_path \<Rightarrow> catalog_path \<Rightarrow> bool" where
  "semantic_before sem p q =
     (case (map_of sem p, map_of sem q) of
        (Some x, Some y) \<Rightarrow> y < x
      | (Some x, None) \<Rightarrow> True
      | _ \<Rightarrow> False)"

definition semantic_tie :: "('g::linorder) semantic_scores \<Rightarrow> catalog_path \<Rightarrow> catalog_path \<Rightarrow> bool" where
  "semantic_tie sem p q \<longleftrightarrow> map_of sem p = map_of sem q"

definition listing_order :: "catalog_cache \<Rightarrow> relation_ref list" where
  "listing_order c =
     sort_by (\<lambda>a b. path_less (rr_parent a) (rr_parent b)
         \<or> rr_parent a = rr_parent b \<and> bytes_less (rr_name a) (rr_name b))
       (map fst (iter_relations c))"

definition found_paths :: "'f search \<Rightarrow> catalog_cache \<Rightarrow> string \<Rightarrow> nat \<Rightarrow> catalog_path list" where
  "found_paths search c focus limit =
     (let words = trim focus;
          hits = (if words = [] then [] else search c words limit) in
      if hits \<noteq> [] then map fst hits
      else take limit (map relation_ref_path (listing_order c)))"

text \<open>Pushing what \<open>ok\<close> accepts until the limit is reached.\<close>

fun push_until ::
  "nat \<Rightarrow> ('a \<Rightarrow> 'a list \<Rightarrow> bool) \<Rightarrow> 'a list \<Rightarrow> 'a list \<Rightarrow> 'a list" where
  "push_until limit ok [] chosen = chosen"
| "push_until limit ok (p # ps) chosen =
     (if limit \<le> length chosen then chosen
      else push_until limit ok ps (if ok p chosen then chosen @ [p] else chosen))"

definition hit_before ::
  "('g::linorder) semantic_scores \<Rightarrow> catalog_path \<times> 'f::linorder \<Rightarrow> catalog_path \<times> 'f \<Rightarrow> bool" where
  "hit_before sem a b \<longleftrightarrow> snd b < snd a
     \<or> snd a = snd b \<and> (semantic_before sem (fst a) (fst b)
         \<or> semantic_tie sem (fst a) (fst b) \<and> path_less (fst a) (fst b))"

definition ranked ::
  "('f::linorder) search \<Rightarrow> ('g::linorder) semantic_scores \<Rightarrow> catalog_cache \<Rightarrow> string \<Rightarrow> nat \<Rightarrow> catalog_path list" where
  "ranked search sem c focus limit =
     (let words = trim focus;
          hits = sort_by (hit_before sem) (if words = [] then [] else search c words (2 ^ 64 - 1));
          chosen = map fst hits in
      if limit \<le> length chosen then take limit chosen
      else
        (let unmatched =
               sort_by (\<lambda>p q. semantic_before sem p q \<or> semantic_tie sem p q \<and> path_less p q)
                 (filter (\<lambda>p. p \<notin> set chosen \<and> map_of sem p \<noteq> None)
                   (map (\<lambda>e. relation_ref_path (fst e)) (iter_relations c)));
             completed = push_until limit (\<lambda>_ _. True) unmatched chosen in
         if hits \<noteq> [] then completed
         else push_until limit (\<lambda>p _. p \<notin> set completed) (map relation_ref_path (listing_order c)) completed))"

subsection \<open>The selection\<close>

definition select ::
  "('f::linorder) search \<Rightarrow> ('g::linorder) semantic_scores \<Rightarrow> catalog_cache \<Rightarrow> nat \<Rightarrow> string
   \<Rightarrow> catalog_path list \<Rightarrow> bool \<Rightarrow> catalog_path list" where
  "select search sem c limit focus mentioned fill =
     (let chosen = take limit mentioned in
      if \<not> fill \<or> limit \<le> length chosen then chosen
      else push_until limit (\<lambda>p kept. p \<notin> set kept)
             (if sem = [] then found_paths search c focus limit else ranked search sem c focus limit) chosen)"

datatype mention = MentionRelation catalog_path "string option" | MentionQuery string string

definition max_mentions :: nat where "max_mentions = 16"

text \<open>\<open>push\<close> unless it is there.\<close>

definition push_new :: "'a \<Rightarrow> 'a list \<Rightarrow> 'a list" where
  "push_new x xs = (if x \<in> set xs then xs else xs @ [x])"

fun host_mention :: "catalog_cache \<Rightarrow> mention \<Rightarrow> catalog_path list \<Rightarrow> catalog_path list" where
  "host_mention c (MentionRelation p f) ps = (if relation_summary p c \<noteq> None then push_new p ps else ps)"
| "host_mention c (MentionQuery title body) ps = ps"

definition wanted_relations_ranked ::
  "('f::linorder) search \<Rightarrow> ('g::linorder) semantic_scores \<Rightarrow> catalog_cache \<Rightarrow> nat \<Rightarrow> string
   \<Rightarrow> mention list \<Rightarrow> bool \<Rightarrow> catalog_path list" where
  "wanted_relations_ranked search sem c max_relations focus mentions fill =
     select search sem c max_relations focus (fold (host_mention c) (take max_mentions mentions) []) fill"

definition wanted_relations ::
  "('f::linorder) search \<Rightarrow> catalog_cache \<Rightarrow> nat \<Rightarrow> string \<Rightarrow> mention list \<Rightarrow> bool \<Rightarrow> catalog_path list" where
  "wanted_relations search c = wanted_relations_ranked search ([] :: nat semantic_scores) c"

subsection \<open>What a selection is\<close>

lemma push_until_prefix: "\<exists>more. push_until limit ok ps chosen = chosen @ more \<and> set more \<subseteq> set ps"
proof (induction ps arbitrary: chosen)
  case (Cons p ps)
  from Cons [of chosen] Cons [of "chosen @ [p]"] show ?case by auto
qed simp

lemma length_push_until: "length chosen \<le> limit \<Longrightarrow> length (push_until limit ok ps chosen) \<le> limit"
  by (induction ps arbitrary: chosen) auto

lemma distinct_push_until:
  "distinct chosen \<Longrightarrow> distinct (push_until limit (\<lambda>p kept. p \<notin> set kept) ps chosen)"
  by (induction ps arbitrary: chosen) auto

lemma select_length: "length (select search sem c limit focus mentioned fill) \<le> limit"
  by (simp add: select_def Let_def length_push_until)

lemma select_distinct: "distinct mentioned \<Longrightarrow> distinct (select search sem c limit focus mentioned fill)"
  by (simp add: select_def Let_def distinct_push_until)

lemma select_mentions_first:
  "\<exists>more. select search sem c limit focus mentioned fill = take limit mentioned @ more"
proof -
  have "\<exists>more. push_until limit ok ps chosen = chosen @ more" for ok ps and chosen :: "catalog_path list"
    using push_until_prefix [of limit ok ps chosen] by blast
  then show ?thesis by (simp add: select_def Let_def)
qed

lemma set_push_new [simp]: "set (push_new x xs) = insert x (set xs)"
  by (auto simp: push_new_def)

lemma distinct_push_new [simp]: "distinct (push_new x xs) = distinct xs"
  by (simp add: push_new_def)

end
