(* ===== verification/Untrusted_Fence.thy ===== *)
theory Untrusted_Fence
  imports Code_Points
begin

text \<open>
  Fencing what comes from a database before it reaches a prompt (\<open>crates/oxyn-ai/src/untrusted.rs\<close>):
  control characters become blanks, and whatever reads as the word of the fence's tag is rewritten.
  A text is the list of its code points; the nonce of a fence is an argument.
\<close>

definition ascii :: "string \<Rightarrow> text_points" where
  "ascii s = map byte s"

definition marker :: text_points where
  "marker = ascii ''untrusted-database-content''"

definition neutralized :: text_points where
  "neutralized = ascii ''untrusted_database_content''"

definition ellipsis :: text_points where
  "ellipsis = 0x2026 # ascii ''[truncated]''"

subsection \<open>Characters\<close>

definition format_ranges :: "(nat \<times> nat) list" where
  "format_ranges =
     [(0x00AD, 0x00AD), (0x0600, 0x0605), (0x061C, 0x061C), (0x06DD, 0x06DD), (0x070F, 0x070F),
      (0x0890, 0x0891), (0x08E2, 0x08E2), (0x180E, 0x180E), (0x200B, 0x200F), (0x202A, 0x202E),
      (0x2060, 0x2064), (0x2066, 0x206F), (0xFEFF, 0xFEFF), (0xFFF9, 0xFFFB), (0x110BD, 0x110BD),
      (0x110CD, 0x110CD), (0x13430, 0x1343F), (0x1BCA0, 0x1BCA3), (0x1D173, 0x1D17A),
      (0xE0001, 0xE0001), (0xE0020, 0xE007F)]"

definition is_format_character :: "nat \<Rightarrow> bool" where
  "is_format_character c \<longleftrightarrow> in_ranges format_ranges c"

definition dash_ranges :: "(nat \<times> nat) list" where
  "dash_ranges =
     [(0x058A, 0x058A), (0x05BE, 0x05BE), (0x1400, 0x1400), (0x1806, 0x1806), (0x2010, 0x2015),
      (0x2E17, 0x2E17), (0x2E1A, 0x2E1A), (0x2E3A, 0x2E3B), (0x2E40, 0x2E40), (0x2E5D, 0x2E5D),
      (0x2212, 0x2212), (0x301C, 0x301C), (0x3030, 0x3030), (0x30A0, 0x30A0), (0xFE31, 0xFE32),
      (0xFE58, 0xFE58), (0xFE63, 0xFE63), (0xFF0D, 0xFF0D)]"

text \<open>Cyrillic letters that imitate those of the marker.\<close>

definition look_alikes :: "(nat \<times> char) list" where
  "look_alikes =
     [(0x0410, CHR ''a''), (0x0430, CHR ''a''), (0x0412, CHR ''b''), (0x0432, CHR ''b''),
      (0x0421, CHR ''c''), (0x0441, CHR ''c''), (0x0500, CHR ''d''), (0x0501, CHR ''d''),
      (0x0415, CHR ''e''), (0x0435, CHR ''e''), (0x041F, CHR ''n''), (0x043F, CHR ''n''),
      (0x0406, CHR ''i''), (0x0456, CHR ''i''), (0x041E, CHR ''o''), (0x043E, CHR ''o''),
      (0x0420, CHR ''p''), (0x0440, CHR ''p''), (0x0413, CHR ''r''), (0x0433, CHR ''r''),
      (0x0405, CHR ''s''), (0x0455, CHR ''s''), (0x0422, CHR ''t''), (0x0442, CHR ''t'')]"

definition lower_point :: "nat \<Rightarrow> nat" where
  "lower_point c = (if 0x41 \<le> c \<and> c \<le> 0x5A then c + 32 else c)"

definition fold_marker_char :: "nat \<Rightarrow> nat" where
  "fold_marker_char c =
     lower_point
       (if in_ranges dash_ranges c then byte (CHR ''-'')
        else case map_of look_alikes c of Some l \<Rightarrow> byte l
        | None \<Rightarrow> if 0xFF01 \<le> c \<and> c \<le> 0xFF5E then c - 0xFEE0 else c)"

subsection \<open>The two treatments\<close>

definition strip_controls :: "text_points \<Rightarrow> text_points" where
  "strip_controls = map (\<lambda>c. if c = 0x0A \<or> c = 0x09 \<or> \<not> is_control_point c then c else 0x20)"

text \<open>The marker read at the head of a text, format characters skipped: what follows it.\<close>

fun match_marker :: "text_points \<Rightarrow> text_points \<Rightarrow> text_points option" where
  "match_marker [] rest = Some rest"
| "match_marker (m # ms) rest =
     (case dropWhile is_format_character rest of
        [] \<Rightarrow> None
      | c # rest' \<Rightarrow> if fold_marker_char c = m then match_marker ms rest' else None)"

lemma length_match_marker: "match_marker ms rest = Some rest' \<Longrightarrow> length rest' + length ms \<le> length rest"
proof (induction ms arbitrary: rest)
  case (Cons m ms)
  then obtain c cs where "dropWhile is_format_character rest = c # cs" "match_marker ms cs = Some rest'"
    by (auto split: list.splits if_splits)
  with Cons.IH [of cs] length_dropWhile_le [of is_format_character rest] show ?case by simp
qed simp

function neutralize_marker :: "text_points \<Rightarrow> text_points" where
  "neutralize_marker [] = []"
| "neutralize_marker (c # cs) =
     (case match_marker marker (c # cs) of
        Some rest \<Rightarrow> neutralized @ neutralize_marker rest
      | None \<Rightarrow> c # neutralize_marker cs)"
  by pat_completeness auto
termination
proof (relation "measure length")
  fix c cs rest
  assume "match_marker marker (c # cs) = Some rest"
  from length_match_marker [OF this] show "(rest, c # cs) \<in> measure length"
    by (simp add: marker_def ascii_def)
qed auto

declare neutralize_marker.simps [simp del]

definition sanitize :: "text_points \<Rightarrow> text_points" where
  "sanitize raw = neutralize_marker (strip_controls raw)"

definition sanitize_clamped :: "text_points \<Rightarrow> nat \<Rightarrow> text_points" where
  "sanitize_clamped raw max_chars =
     (let clean = sanitize raw in
      if length clean \<le> max_chars then clean else take max_chars clean @ ellipsis)"

definition sanitize_inline :: "text_points \<Rightarrow> nat \<Rightarrow> text_points" where
  "sanitize_inline raw max_chars =
     map (\<lambda>c. if c = 0x0A \<or> c = 0x0D \<or> c = 0x09 then 0x20 else c) (sanitize_clamped raw max_chars)"

subsection \<open>The fence\<close>

record fence =
  fence_open :: text_points
  fence_close :: text_points

definition with_nonce :: "text_points \<Rightarrow> fence" where
  "with_nonce nonce =
     \<lparr>fence_open = ascii ''<'' @ marker @ ascii ''-'' @ nonce @ ascii ''>'',
      fence_close = ascii ''</'' @ marker @ ascii ''-'' @ nonce @ ascii ''>''\<rparr>"

definition fenced :: "fence \<Rightarrow> text_points \<Rightarrow> text_points" where
  "fenced f raw = fence_open f @ [0x0A] @ sanitize raw @ [0x0A] @ fence_close f"

subsection \<open>Nothing reads as the tag\<close>

text \<open>Some position of the text reads as the marker.\<close>

fun reads_marker :: "text_points \<Rightarrow> bool" where
  "reads_marker [] \<longleftrightarrow> False"
| "reads_marker (c # cs) \<longleftrightarrow> match_marker marker (c # cs) \<noteq> None \<or> reads_marker cs"

lemmas point_defs = ascii_def byte_def in_ranges_def is_format_character_def format_ranges_def
  fold_marker_char_def dash_ranges_def look_alikes_def lower_point_def

text \<open>The marker and its replacement, letter by letter.\<close>

lemma marker_eq:
  "marker = [117, 110, 116, 114, 117, 115, 116, 101, 100, 45, 100, 97, 116, 97, 98, 97, 115, 101, 45,
             99, 111, 110, 116, 101, 110, 116]"
  by (simp add: marker_def ascii_def byte_def)

lemma neutralized_eq:
  "neutralized = [117, 110, 116, 114, 117, 115, 116, 101, 100, 95, 100, 97, 116, 97, 98, 97, 115, 101, 95,
             99, 111, 110, 116, 101, 110, 116]"
  by (simp add: neutralized_def ascii_def byte_def)

definition letter :: "nat \<Rightarrow> bool" where
  "letter c \<longleftrightarrow> 97 \<le> c \<and> c \<le> 122 \<or> c = 45 \<or> c = 95"

lemma letter_plain: "letter c \<Longrightarrow> \<not> is_format_character c \<and> fold_marker_char c = c"
proof -
  assume "letter c"
  then have "c \<le> 122" "65 > c \<or> 90 < c" by (auto simp: letter_def)
  then show ?thesis by (auto simp: point_defs)
qed

lemma letters: "list_all letter marker" "list_all letter neutralized"
  by (simp_all add: marker_eq neutralized_eq letter_def)

text \<open>Reading letters.\<close>

lemma match_letter:
  "letter c \<Longrightarrow> match_marker (m # ms) (c # cs) = (if c = m then match_marker ms cs else None)"
  using letter_plain [of c] by simp

lemma match_letters: "list_all letter ms \<Longrightarrow> match_marker ms (ms @ rest) = Some rest"
  by (induction ms) (simp_all add: match_letter del: match_marker.simps(2))

text \<open>No end of the replacement begins the marker, and the replacement begins no end of it.\<close>

lemma no_marker_in_neutralized:
  "k < length neutralized \<Longrightarrow> match_marker marker (drop k neutralized @ rest) = None"
proof -
  have "\<forall>k \<in> set [0 ..< 26]. match_marker marker (drop k neutralized @ rest) = None"
    unfolding marker_eq neutralized_eq
    by (simp add: upt_conv_Cons match_letter letter_def del: match_marker.simps(2) upt_Suc)
  moreover assume "k < length neutralized"
  ultimately show ?thesis by (simp add: neutralized_eq)
qed

lemma neutralized_ends_no_marker:
  "0 < k \<Longrightarrow> k < length marker \<Longrightarrow> match_marker (drop k marker) (neutralized @ rest) = None"
proof -
  have "\<forall>k \<in> set [1 ..< 26]. match_marker (drop k marker) (neutralized @ rest) = None"
    unfolding marker_eq neutralized_eq
    by (simp add: upt_conv_Cons match_letter letter_def del: match_marker.simps(2) upt_Suc)
  moreover assume "0 < k" "k < length marker"
  ultimately show ?thesis by (simp add: marker_eq)
qed

lemma reads_neutralized: "reads_marker (neutralized @ rest) \<longleftrightarrow> reads_marker rest"
proof -
  have "reads_marker (drop (length neutralized - k) neutralized @ rest) \<longleftrightarrow> reads_marker rest"
    if "k \<le> length neutralized" for k
    using that
  proof (induction k)
    case (Suc k)
    let ?i = "length neutralized - Suc k"
    have i: "?i < length neutralized" "Suc ?i = length neutralized - k" using Suc.prems by auto
    have "drop ?i neutralized = neutralized ! ?i # drop (length neutralized - k) neutralized"
      using Cons_nth_drop_Suc [OF i(1)] i(2) by simp
    with no_marker_in_neutralized [OF i(1), of rest] Suc show ?case by simp
  qed simp
  from this [of "length neutralized"] show ?thesis by simp
qed

lemma match_skip: "ms \<noteq> [] \<Longrightarrow> is_format_character c \<Longrightarrow> match_marker ms (c # cs) = match_marker ms cs"
  by (cases ms) simp_all

text \<open>An end of the marker read after the rewriting was there before it.\<close>

lemma match_neutralize:
  "0 < k \<Longrightarrow> match_marker (drop k marker) (neutralize_marker cs) \<noteq> None
    \<Longrightarrow> match_marker (drop k marker) cs \<noteq> None"
proof (induction cs arbitrary: k rule: neutralize_marker.induct)
  case 1
  then show ?case by (simp add: neutralize_marker.simps)
next
  case (2 c cs)
  show ?case
  proof (cases "k < length marker")
    case False
    then show ?thesis by simp
  next
    case True
    show ?thesis
    proof (cases "match_marker marker (c # cs)")
      case (Some rest)
      with 2 True neutralized_ends_no_marker show ?thesis by (simp add: neutralize_marker.simps)
    next
      case None
      then have out: "neutralize_marker (c # cs) = c # neutralize_marker cs"
        by (simp add: neutralize_marker.simps)
      have ms: "drop k marker = marker ! k # drop (Suc k) marker"
        using True by (simp add: Cons_nth_drop_Suc)
      show ?thesis
      proof (cases "is_format_character c")
        case True
        with 2(1) [OF None \<open>0 < k\<close>] 2(4) out ms show ?thesis by (simp add: match_skip)
      next
        case False
        with 2(1) [OF None, of "Suc k"] 2(4) out ms show ?thesis by (auto split: if_splits)
      qed
    qed
  qed
qed

lemma reads_first: "\<not> reads_marker cs \<Longrightarrow> match_marker marker cs = None"
  by (cases cs) (auto simp: marker_eq)

lemma neutralize_no_marker: "\<not> reads_marker (neutralize_marker cs)"
proof (induction cs rule: neutralize_marker.induct)
  case (2 c cs)
  show ?case
  proof (cases "match_marker marker (c # cs)")
    case (Some rest)
    with 2(2) show ?thesis by (simp add: neutralize_marker.simps reads_neutralized)
  next
    case None
    note ih = 2(1) [OF None]
    have "match_marker marker (c # neutralize_marker cs) = None"
    proof (cases "is_format_character c")
      case True
      with reads_first [OF ih] show ?thesis by (simp add: match_skip marker_eq)
    next
      case False
      have ms: "marker = marker ! 0 # drop 1 marker" by (simp add: marker_eq)
      show ?thesis
      proof (rule ccontr)
        assume "\<not> ?thesis"
        then have "fold_marker_char c = marker ! 0" "match_marker (drop 1 marker) (neutralize_marker cs) \<noteq> None"
          using False by (subst (asm) ms, auto split: if_splits)+
        with match_neutralize [of 1 cs] None False show False by (subst (asm) ms) auto
      qed
    qed
    with ih None show ?thesis by (simp add: neutralize_marker.simps)
  qed
qed (simp add: neutralize_marker.simps)

lemma sanitize_no_marker: "\<not> reads_marker (sanitize raw)"
  by (simp add: sanitize_def neutralize_no_marker)

text \<open>What cuts a reading short: a character no letter of the marker folds to.\<close>

definition stops :: "nat \<Rightarrow> bool" where
  "stops c \<longleftrightarrow> \<not> is_format_character c \<and> fold_marker_char c \<notin> set marker"

lemma dropWhile_Cons_append: "dropWhile P xs = d # ds \<Longrightarrow> dropWhile P (xs @ ys) = d # ds @ ys"
  by (induction xs) (auto split: if_splits)

lemma match_stopped:
  "stops c \<Longrightarrow> set ms \<subseteq> set marker \<Longrightarrow> match_marker ms (cs @ c # rest) \<noteq> None
    \<Longrightarrow> match_marker ms cs \<noteq> None"
proof (induction ms arbitrary: cs)
  case (Cons m ms)
  show ?case
  proof (cases "dropWhile is_format_character cs")
    case Nil
    then have "dropWhile is_format_character (cs @ c # rest) = c # rest"
      using Cons.prems(1) by (simp add: dropWhile_append2 dropWhile_eq_Nil_conv stops_def)
    with Cons.prems show ?thesis by (auto simp: stops_def split: if_splits)
  next
    case (Cons d ds)
    then have "dropWhile is_format_character (cs @ c # rest) = d # ds @ c # rest"
      by (rule dropWhile_Cons_append)
    with Cons.prems Cons.IH [of ds] Cons show ?thesis by (auto split: if_splits)
  qed
qed simp

lemma match_append: "match_marker ms cs \<noteq> None \<Longrightarrow> match_marker ms (cs @ rest) \<noteq> None"
proof (induction ms arbitrary: cs)
  case (Cons m ms)
  then obtain d ds where d: "dropWhile is_format_character cs = d # ds"
      "fold_marker_char d = m" "match_marker ms ds \<noteq> None"
    by (auto split: list.splits if_splits)
  with Cons.IH [OF d(3)] show ?case by (simp add: dropWhile_Cons_append)
qed simp

lemma match_take: "match_marker ms (take n cs) \<noteq> None \<Longrightarrow> match_marker ms cs \<noteq> None"
  using match_append [of ms "take n cs" "drop n cs"] by simp

lemma reads_iff: "reads_marker cs \<longleftrightarrow> (\<exists>xs ys. cs = xs @ ys \<and> match_marker marker ys \<noteq> None)"
proof (induction cs)
  case Nil
  then show ?case by (simp add: marker_eq)
next
  case (Cons c cs)
  have "(\<exists>xs ys. c # cs = xs @ ys \<and> match_marker marker ys \<noteq> None) \<longleftrightarrow>
      match_marker marker (c # cs) \<noteq> None \<or> (\<exists>xs ys. cs = xs @ ys \<and> match_marker marker ys \<noteq> None)"
    by (metis append_Cons append_Nil append_eq_Cons_conv)
  with Cons show ?case by simp
qed

lemma reads_take: "reads_marker (take n cs) \<Longrightarrow> reads_marker cs"
proof -
  assume "reads_marker (take n cs)"
  then obtain xs ys where xs: "take n cs = xs @ ys" "match_marker marker ys \<noteq> None"
    by (auto simp: reads_iff)
  then have "cs = xs @ (ys @ drop n cs)" by (metis append_assoc append_take_drop_id)
  moreover have "match_marker marker (ys @ drop n cs) \<noteq> None"
    using match_take [of marker "length ys" "ys @ drop n cs"] xs(2) by simp
  ultimately show ?thesis unfolding reads_iff by blast
qed

lemma reads_stopped:
  assumes "stops c"
  shows "reads_marker (cs @ c # rest) \<longleftrightarrow> reads_marker cs \<or> reads_marker rest"
proof (induction cs)
  case Nil
  have "match_marker marker [] = None" by (simp add: marker_eq)
  then have "match_marker marker (c # rest) = None"
    using match_stopped [OF assms subset_refl, of "[]" rest] by (metis append_Nil)
  then show ?case by simp
next
  case (Cons d cs)
  have "match_marker marker (d # cs @ c # rest) \<noteq> None \<longleftrightarrow> match_marker marker (d # cs) \<noteq> None"
    using match_stopped [OF assms, of marker "d # cs" rest]
      match_take [of marker "Suc (length cs)" "d # cs @ c # rest"] by auto
  with Cons show ?case by simp
qed

lemma ellipsis_stops: "stops 0x2026"
  by (simp add: stops_def marker_eq point_defs)

lemma reads_ellipsis: "reads_marker (cs @ ellipsis) \<longleftrightarrow> reads_marker cs"
proof -
  have "\<not> reads_marker (ascii ''[truncated]'')"
    by (simp add: marker_eq point_defs)
  with reads_stopped [OF ellipsis_stops] show ?thesis by (simp add: ellipsis_def)
qed

lemma sanitize_clamped_no_marker: "\<not> reads_marker (sanitize_clamped raw n)"
  using sanitize_no_marker [of raw] reads_take [of n "sanitize raw"]
  by (auto simp: sanitize_clamped_def Let_def reads_ellipsis)

text \<open>Turning the end of a line into a blank changes no reading.\<close>

lemma blank_stops: "stops 0x20" "stops 0x0A" "stops 0x0D" "stops 0x09"
  by (simp_all add: stops_def marker_eq point_defs)

lemma reads_blanks:
  "reads_marker (map (\<lambda>c. if c = 0x0A \<or> c = 0x0D \<or> c = 0x09 then 0x20 else c) cs) \<longleftrightarrow> reads_marker cs"
  (is "reads_marker (map ?f cs) \<longleftrightarrow> _")
proof (induction cs rule: length_induct)
  case (1 cs)
  show ?case
  proof (cases "\<exists>c \<in> set cs. c = 0x0A \<or> c = 0x0D \<or> c = 0x09")
    case False
    then have "map ?f cs = cs" by (induction cs) auto
    then show ?thesis by simp
  next
    case True
    then obtain xs c ys where cs: "cs = xs @ c # ys" "c = 0x0A \<or> c = 0x0D \<or> c = 0x09"
      by (metis split_list)
    with 1 [rule_format, of xs] 1 [rule_format, of ys] show ?thesis
      using blank_stops by (auto simp: reads_stopped)
  qed
qed

lemma sanitize_inline_no_marker: "\<not> reads_marker (sanitize_inline raw n)"
  by (simp only: sanitize_inline_def reads_blanks sanitize_clamped_no_marker not_False_eq_True)

lemma sanitize_inline_one_line: "c \<in> set (sanitize_inline raw n) \<Longrightarrow> c \<notin> {0x0A, 0x0D, 0x09}"
  by (auto simp: sanitize_inline_def)

lemma length_sanitize_clamped: "length (sanitize_clamped raw n) \<le> n + length ellipsis"
  by (auto simp: sanitize_clamped_def Let_def)

subsection \<open>The fence closes once\<close>

lemma reads_here: "reads_marker (xs @ marker @ ys)"
  unfolding reads_iff using match_letters [OF letters(1), of ys] by blast

lemma split_at_index:
  assumes "xs @ ms @ ys = as @ c # bs" "c \<notin> set ms"
  shows "(\<exists>zs. as = xs @ ms @ zs) \<or> (\<exists>zs. zs @ ms @ ys = bs)"
proof -
  from assms(1) consider zs where "xs = as @ zs" "zs @ ms @ ys = c # bs" | zs where "as = xs @ zs" "ms @ ys = zs @ c # bs"
    by (auto simp: append_eq_append_conv2)
  then show ?thesis
  proof cases
    case 1
    then show ?thesis
      using assms(2) by (cases zs; cases ms) auto
  next
    case 2
    then consider us where "ms = zs @ us" "us @ ys = c # bs" | us where "zs = ms @ us"
      by (auto simp: append_eq_append_conv2)
    then show ?thesis
    proof cases
      case 1
      with assms(2) 2 show ?thesis by (cases us) auto
    qed (use 2 in auto)
  qed
qed

definition one_line :: "text_points \<Rightarrow> bool" where
  "one_line nonce \<longleftrightarrow> 0x0A \<notin> set nonce"

theorem fence_closes_last:
  assumes "one_line nonce" "fenced (with_nonce nonce) raw = xs @ fence_close (with_nonce nonce) @ ys"
  shows "ys = []"
proof -
  let ?f = "with_nonce nonce"
  have nl: "0x0A \<notin> set (fence_close ?f)"
    using assms(1) by (simp add: with_nonce_def one_line_def marker_eq ascii_def byte_def)
  have len: "length (fence_open ?f) < length (fence_close ?f)"
    by (simp add: with_nonce_def ascii_def)
  have "xs @ fence_close ?f @ ys = fence_open ?f @ 0x0A # (sanitize raw @ 0x0A # fence_close ?f)"
    using assms(2) by (simp add: fenced_def)
  from split_at_index [OF this nl] len
  obtain zs where "zs @ fence_close ?f @ ys = sanitize raw @ 0x0A # fence_close ?f" by auto
  from split_at_index [OF this nl]
  consider us where "sanitize raw = zs @ fence_close ?f @ us" | us where "us @ fence_close ?f @ ys = fence_close ?f"
    by blast
  then show ?thesis
  proof cases
    case 1
    then have "sanitize raw = (zs @ ascii ''</'') @ marker @ (ascii ''-'' @ nonce @ ascii ''>'' @ us)"
      by (simp add: with_nonce_def)
    with reads_here sanitize_no_marker show ?thesis by metis
  next
    case 2
    then have "length (us @ fence_close ?f @ ys) = length (fence_close ?f)" by simp
    then show ?thesis by simp
  qed
qed

end
