(* ===== verification/Agent_Context.thy ===== *)
theory Agent_Context
  imports Agent_Selection Untrusted_Fence
begin

text \<open>
  What reaches a prompt (\<open>crates/oxyn-ai/src/context.rs\<close>, \<open>context/mentions.rs\<close>,
  \<open>context/key_patterns.rs\<close>): the text built from the cache of a connection, its privacy tier, a policy
  and what the user mentioned. Names of the cache are bytes, a prompt is a list of code points. The
  writing of a JSON string, of a value, and the redaction of a text in an unknown language are
  parameters.
\<close>

record writers =
  wr_json :: "text_points \<Rightarrow> text_points"
  wr_show :: "scalar_value \<Rightarrow> text_points"
  wr_redact :: "string \<Rightarrow> string"

subsection \<open>Texts\<close>

text \<open>The characters of a UTF-8 text.\<close>

function points :: "string \<Rightarrow> text_points" where
  "points s = (case utf8_head s of None \<Rightarrow> [] | Some p \<Rightarrow> point_of p # points (drop (length p) s))"
  by pat_completeness auto
termination
  by (relation "measure length") (auto dest: utf8_head_SomeD)

declare points.simps [simp del]

lemma points_Nil [simp]: "points [] = []"
  by (subst points.simps) (simp add: utf8_head_def)

lemma points_ascii: "list_all (\<lambda>c. byte c < 0x80) s \<Longrightarrow> points s = ascii s"
proof (induction s)
  case (Cons c s)
  then have "utf8_head (c # s) = Some [c]"
    by (simp add: utf8_head_def utf8_width_def well_formed_def)
  with Cons show ?case by (subst points.simps) (simp add: point_of_def ascii_def)
qed (simp add: ascii_def)

definition point_bytes :: "nat \<Rightarrow> nat" where
  "point_bytes c = (if c < 0x80 then 1 else if c < 0x800 then 2 else if c < 0x10000 then 3 else 4)"

definition text_bytes :: "text_points \<Rightarrow> nat" where
  "text_bytes cs = sum_list (map point_bytes cs)"

definition chars_per_token :: nat where "chars_per_token = 4"

definition estimate_tokens :: "text_points \<Rightarrow> nat" where
  "estimate_tokens cs = (text_bytes cs + chars_per_token - 1) div chars_per_token"

definition nl :: text_points where "nl = [0x0A]"

definition number :: "nat \<Rightarrow> text_points" where
  "number n = ascii (decimal n)"

fun joined :: "text_points \<Rightarrow> text_points list \<Rightarrow> text_points" where
  "joined sep [] = []"
| "joined sep [x] = x"
| "joined sep (x # y # xs) = x @ sep @ joined sep (y # xs)"

subsection \<open>Names\<close>

definition breaks_line :: "nat \<Rightarrow> bool" where
  "breaks_line c \<longleftrightarrow> is_control_point c \<or> c = 0x2028 \<or> c = 0x2029"

definition hex_point :: "nat \<Rightarrow> nat" where
  "hex_point d = (if d < 10 then 48 + d else 87 + d)"

definition hex4 :: "nat \<Rightarrow> text_points" where
  "hex4 c = map (\<lambda>k. hex_point (c div 16 ^ k mod 16)) [3, 2, 1, 0]"

definition json_literal :: "writers \<Rightarrow> text_points \<Rightarrow> text_points" where
  "json_literal w raw = concat (map (\<lambda>c. if breaks_line c then ascii [CHR 0x5C, CHR ''u''] @ hex4 c else [c]) (wr_json w raw))"

datatype naming = QuotedNames quote_style | LiteralNames

fun naming_for :: "query_language \<Rightarrow> naming" where
  "naming_for (Sql d) = QuotedNames (quote_style_for d)"
| "naming_for l = LiteralNames"

fun naming_name :: "writers \<Rightarrow> naming \<Rightarrow> string \<Rightarrow> text_points" where
  "naming_name w (QuotedNames style) raw =
     (if list_ex breaks_line (points raw)
      then json_literal w (points raw) @ ascii '' (name contains control characters)''
      else points (quote_identifier raw style))"
| "naming_name w LiteralNames raw = json_literal w (points raw)"

definition naming_path :: "writers \<Rightarrow> naming \<Rightarrow> catalog_path \<Rightarrow> text_points" where
  "naming_path w nm p = joined (ascii ''.'') (map (naming_name w nm) (path_segments p))"

definition naming_list :: "writers \<Rightarrow> naming \<Rightarrow> string list \<Rightarrow> text_points" where
  "naming_list w nm names = joined (ascii '', '') (map (naming_name w nm) names)"

subsection \<open>The policy and what is asked\<close>

record context_policy =
  po_max_context_tokens :: nat
  po_max_relations :: nat
  po_max_fields :: nat
  po_server_info :: bool
  po_indexes :: bool
  po_foreign_keys :: bool
  po_comments :: bool
  po_max_sample_rows :: nat

definition default_context_policy :: context_policy where
  "default_context_policy =
     \<lparr>po_max_context_tokens = 6000, po_max_relations = 24, po_max_fields = 64, po_server_info = True,
      po_indexes = True, po_foreign_keys = True, po_comments = True, po_max_sample_rows = 5\<rparr>"

record row_sample =
  rs_relation :: catalog_path
  rs_columns :: "string list"
  rs_rows :: "scalar_value list list"

record context_builder =
  cb_tier :: privacy_tier
  cb_policy :: context_policy
  cb_language :: query_language
  cb_focus :: string
  cb_samples :: "row_sample list"
  cb_mentions :: "mention list"
  cb_fill :: bool

definition context_builder_new :: "privacy_tier \<Rightarrow> context_builder" where
  "context_builder_new tier =
     \<lparr>cb_tier = tier, cb_policy = default_context_policy, cb_language = Sql Ansi, cb_focus = [],
      cb_samples = [], cb_mentions = [], cb_fill = True\<rparr>"

definition max_comment_chars :: nat where "max_comment_chars = 200"
definition max_sample_value_chars :: nat where "max_sample_value_chars = 64"
definition max_type_chars :: nat where "max_type_chars = 64"
definition max_field_depth :: nat where "max_field_depth = 4"
definition max_saved_query_chars :: nat where "max_saved_query_chars = 4000"
definition max_title_chars :: nat where "max_title_chars = 120"

definition inline :: "string \<Rightarrow> nat \<Rightarrow> text_points" where
  "inline raw n = sanitize_inline (points raw) n"

subsection \<open>The fields of a relation\<close>

text \<open>The fields of a structure, through any number of arrays.\<close>

fun nested_fields :: "logical_type \<Rightarrow> field list" where
  "nested_fields (LStruct fs) = fs"
| "nested_fields (LArray t) = nested_fields t"
| "nested_fields t = []"

record omitted_fields =
  om_count :: nat
  om_uncounted :: bool

definition no_fields :: omitted_fields where "no_fields = \<lparr>om_count = 0, om_uncounted = False\<rparr>"

definition absorb :: "omitted_fields \<Rightarrow> omitted_fields \<Rightarrow> omitted_fields" where
  "absorb a b = \<lparr>om_count = sat_total [om_count a, om_count b], om_uncounted = om_uncounted a \<or> om_uncounted b\<rparr>"

definition one_more :: "omitted_fields \<Rightarrow> omitted_fields" where
  "one_more a = a\<lparr>om_count := Suc (om_count a)\<rparr>"

fun count_nested :: "nat \<Rightarrow> logical_type \<Rightarrow> omitted_fields" where
  "count_nested 0 t = \<lparr>om_count = 0, om_uncounted = nested_fields t \<noteq> []\<rparr>"
| "count_nested (Suc below) t =
     fold (\<lambda>f tally. absorb (absorb tally \<lparr>om_count = 1, om_uncounted = False\<rparr>) (count_nested below (fi_type f)))
       (nested_fields t) no_fields"

definition left_aside :: "field \<Rightarrow> omitted_fields \<Rightarrow> omitted_fields" where
  "left_aside f hidden = absorb (one_more hidden) (count_nested max_field_depth (fi_type f))"

definition render_field :: "writers \<Rightarrow> context_policy \<Rightarrow> naming \<Rightarrow> field \<Rightarrow> text_points" where
  "render_field w po nm f =
     naming_name w nm (fi_name f) @ ascii '' ''
     @ (let raw = trim (fi_raw_type f) in if raw = [] then ascii ''unknown'' else inline raw max_type_chars)
     @ (if fi_nullable f then [] else ascii '' not null'')
     @ (if fi_primary_key f then ascii '' primary key'' else [])
     @ (if fi_inferred f then ascii '' (inferred)'' else [])
     @ (case fi_default f of None \<Rightarrow> [] | Some d \<Rightarrow> ascii '' default '' @ inline d max_sample_value_chars)
     @ (if po_comments po
        then case fi_comment f of None \<Rightarrow> []
             | Some comment \<Rightarrow> ascii '' '' @ [0x2014] @ ascii '' '' @ inline comment max_comment_chars
        else [])"

text \<open>
  One field of a level: the lines, what is left of the budget, what was left aside. \<open>deeper\<close> renders the
  fields below, where a level may still be rendered below this one.
\<close>

type_synonym field_lines = "text_points \<times> nat \<times> omitted_fields"

definition render_field_step ::
  "writers \<Rightarrow> context_policy \<Rightarrow> naming \<Rightarrow> nat \<Rightarrow> (field list \<Rightarrow> nat \<Rightarrow> field_lines) option
   \<Rightarrow> field \<Rightarrow> field_lines \<Rightarrow> field_lines" where
  "render_field_step w po nm level deeper f st =
     (case st of (out, budget, hidden) \<Rightarrow>
        if budget = 0 then (out, 0, left_aside f hidden)
        else
          (let line = concat (replicate (level + 1) (ascii ''  '')) @ render_field w po nm f @ nl;
               nested = nested_fields (fi_type f) in
           if nested = [] then (out @ line, budget - 1, hidden)
           else case deeper of
             None \<Rightarrow> (out @ line, budget - 1, fold left_aside nested hidden)
           | Some render \<Rightarrow>
               (case render nested (budget - 1) of
                  (inner, budget', h) \<Rightarrow> (out @ line @ inner, budget', absorb hidden h))))"

text \<open>The fields of a level, with that many levels that may be rendered below it.\<close>

fun render_field_list ::
  "writers \<Rightarrow> context_policy \<Rightarrow> naming \<Rightarrow> nat \<Rightarrow> field list \<Rightarrow> nat \<Rightarrow> field_lines" where
  "render_field_list w po nm 0 fs budget =
     fold (render_field_step w po nm max_field_depth None) fs ([], budget, no_fields)"
| "render_field_list w po nm (Suc below) fs budget =
     fold (render_field_step w po nm (max_field_depth - Suc below) (Some (render_field_list w po nm below)))
       fs ([], budget, no_fields)"

definition render_fields :: "writers \<Rightarrow> context_policy \<Rightarrow> naming \<Rightarrow> relation \<Rightarrow> text_points" where
  "render_fields w po nm r =
     (if rel_fields r = [] then ascii ''  no fields known'' @ nl
      else case render_field_list w po nm (max_field_depth - 1) (rel_fields r) (po_max_fields po) of
        (out, _, hidden) \<Rightarrow>
          ascii ''  fields:'' @ nl @ out
          @ (if om_uncounted hidden
             then ascii ''    '' @ [0x2026] @ ascii '' more fields omitted (too deeply nested to count)'' @ nl
             else if 0 < om_count hidden
             then ascii ''    '' @ [0x2026] @ ascii '' '' @ number (om_count hidden) @ ascii '' more fields omitted'' @ nl
             else []))"

subsection \<open>A relation\<close>

definition either :: "'a option \<Rightarrow> 'a option \<Rightarrow> 'a option" where
  "either a b = (case a of None \<Rightarrow> b | Some x \<Rightarrow> Some x)"

definition known_kind :: "catalog_cache \<Rightarrow> catalog_path \<Rightarrow> relation_kind option" where
  "known_kind c p = either (map_option rel_kind (cached_relation p c)) (map_option rr_kind (relation_summary p c))"

definition kind_label :: "catalog_cache \<Rightarrow> catalog_path \<Rightarrow> text_points" where
  "kind_label c p = ascii (case known_kind c p of None \<Rightarrow> ''relation'' | Some k \<Rightarrow> relation_kind_as_str k)"

definition render_index :: "writers \<Rightarrow> naming \<Rightarrow> index_info \<Rightarrow> text_points" where
  "render_index w nm i =
     ascii ''  '' @ (if ix_unique i then ascii ''unique '' else []) @ ascii ''index '' @ naming_name w nm (ix_name i)
     @ (case ix_method i of None \<Rightarrow> [] | Some m \<Rightarrow> ascii '' using '' @ inline m max_type_chars)
     @ ascii '' ('' @ naming_list w nm (ix_fields i) @ ascii '')''
     @ (if ix_predicate i \<noteq> None then ascii '' (partial)'' else []) @ nl"

definition render_foreign_key :: "writers \<Rightarrow> naming \<Rightarrow> foreign_key \<Rightarrow> text_points" where
  "render_foreign_key w nm k =
     ascii ''  foreign key '' @ naming_name w nm (fk_name k)
     @ ascii '' ('' @ naming_list w nm (fk_fields k) @ ascii '') references ''
     @ naming_path w nm (ft_relation (fk_references k))
     @ ascii '' ('' @ naming_list w nm (ft_fields (fk_references k)) @ ascii '') on delete ''
     @ ascii (referential_action_as_str (fk_on_delete k)) @ nl"

definition render_relation ::
  "writers \<Rightarrow> context_policy \<Rightarrow> naming \<Rightarrow> catalog_cache \<Rightarrow> catalog_path \<Rightarrow> text_points" where
  "render_relation w po nm c p =
     (let detail = cached_relation p c; summary = relation_summary p c in
      kind_label c p @ ascii '' '' @ naming_path w nm p @ nl
      @ (case detail of None \<Rightarrow> []
         | Some r \<Rightarrow>
             (case rel_estimated_rows r of None \<Rightarrow> [] | Some n \<Rightarrow> ascii ''  estimated rows: '' @ number n @ nl)
             @ (if has_inferred_schema r
                then ascii ''  schema inferred by sampling; the server did not declare it'' @ nl else []))
      @ (if po_comments po
         then case either (Option.bind detail rel_comment) (Option.bind summary rr_comment) of
                None \<Rightarrow> []
              | Some comment \<Rightarrow> ascii ''  comment: '' @ inline comment max_comment_chars @ nl
         else [])
      @ (case detail of
           None \<Rightarrow> ascii ''  fields not read yet'' @ nl @ nl
         | Some r \<Rightarrow>
             render_fields w po nm r
             @ (if po_indexes po
                then case cached_indexes p c of None \<Rightarrow> [] | Some ixs \<Rightarrow> concat (map (render_index w nm) ixs)
                else [])
             @ (if po_foreign_keys po
                then case cached_foreign_keys p c of None \<Rightarrow> [] | Some ks \<Rightarrow> concat (map (render_foreign_key w nm) ks)
                else [])
             @ nl))"

definition render_oversized :: "writers \<Rightarrow> naming \<Rightarrow> catalog_cache \<Rightarrow> catalog_path \<Rightarrow> text_points" where
  "render_oversized w nm c p =
     kind_label c p @ ascii '' '' @ naming_path w nm p @ nl
     @ ascii ''  object too large to describe within the context budget; ''
     @ ascii ''its fields are not shown, and searching again will not change that'' @ nl @ nl"

definition render_sample :: "writers \<Rightarrow> context_policy \<Rightarrow> naming \<Rightarrow> row_sample \<Rightarrow> text_points" where
  "render_sample w po nm s =
     ascii ''row sample approved by the user for '' @ naming_path w nm (rs_relation s) @ nl
     @ ascii ''  columns: '' @ naming_list w nm (rs_columns s) @ nl
     @ concat (map (\<lambda>row. ascii ''  row: ''
           @ joined (ascii '' | '') (map (\<lambda>v. sanitize_inline (wr_show w v) max_sample_value_chars) row) @ nl)
         (take (po_max_sample_rows po) (rs_rows s)))
     @ (let hidden = length (rs_rows s) - po_max_sample_rows po in
        if 0 < hidden then ascii ''  '' @ number hidden @ ascii '' more approved rows not shown'' @ nl else [])
     @ nl"

definition render_header :: "context_builder \<Rightarrow> catalog_cache \<Rightarrow> text_points" where
  "render_header b c =
     (if po_server_info (cb_policy b)
      then case ca_value (ch_server c) of
          None \<Rightarrow> []
        | Some i \<Rightarrow>
            ascii ''server: '' @ inline (si_product i) max_type_chars @ ascii '' ''
            @ inline (si_version i) max_type_chars @ nl
            @ ascii ''capabilities: '' @ points (caps_display (si_capabilities i)) @ nl
      else [])
     @ (case cb_language b of
          Sql d \<Rightarrow> ascii ''query language: sql (dialect: '' @ ascii (dialect_as_str d) @ ascii '')'' @ nl
        | l \<Rightarrow> ascii ''query language: '' @ ascii (language_as_str l) @ nl)
     @ nl"

subsection \<open>Key names\<close>

definition withholds :: "privacy_tier \<Rightarrow> relation_kind \<Rightarrow> bool" where
  "withholds tier k \<longleftrightarrow> k = KindKeyPattern \<and> \<not> allows_row_values tier"

definition key_separators :: string where "key_separators = '':/|.#''"

definition max_prefix_chars :: nat where "max_prefix_chars = 32"
definition max_prefix_digits :: nat where "max_prefix_digits = 4"
definition min_keys_per_pattern :: nat where "min_keys_per_pattern = 2"
definition max_patterns :: nat where "max_patterns = 24"

text \<open>The prefix of a key up to its first separator, if it can be sent.\<close>

definition namespace_of :: "string \<Rightarrow> string option" where
  "namespace_of key =
     (let prefix = takeWhile (\<lambda>c. c \<notin> set key_separators) key in
      if length prefix = length key then None
      else if prefix \<noteq> [] \<and> length (points prefix) \<le> max_prefix_chars \<and> is_ascii_alphabetic (hd prefix)
        \<and> list_all (\<lambda>c. is_ascii_alphanumeric c \<or> c = CHR ''_'' \<or> c = CHR ''-'') prefix
        \<and> length (filter is_ascii_digit prefix) \<le> max_prefix_digits
      then Some (take (Suc (length prefix)) key) else None)"

fun nats_less :: "nat list \<Rightarrow> nat list \<Rightarrow> bool" where
  "nats_less [] t = (t \<noteq> [])"
| "nats_less (a # s) [] = False"
| "nats_less (a # s) (b # t) = (a < b \<or> a = b \<and> nats_less s t)"

text \<open>\<open>*entry(k).or_default() += n\<close> in a table ordered by its keys.\<close>

fun count_in :: "('k \<Rightarrow> 'k \<Rightarrow> bool) \<Rightarrow> nat \<Rightarrow> 'k \<Rightarrow> ('k \<times> nat) list \<Rightarrow> ('k \<times> nat) list" where
  "count_in lt n k [] = [(k, n)]"
| "count_in lt n k ((j, m) # table) =
     (if j = k then (j, m + n) # table
      else if lt k j then (k, n) # (j, m) # table
      else (j, m) # count_in lt n k table)"

type_synonym key_shape = "text_points \<times> string option"

text \<open>What the patterns read of a key: where it is, and the prefix of its name that can be sent.\<close>

definition key_shapes :: "writers \<Rightarrow> naming \<Rightarrow> catalog_cache \<Rightarrow> key_shape list" where
  "key_shapes w nm c =
     map (\<lambda>s. let p = relation_ref_path s in
          (case path_parent p of None \<Rightarrow> [] | Some q \<Rightarrow> naming_path w nm q,
           Option.bind (cp_relation p) namespace_of))
       (filter (\<lambda>s. rr_kind s = KindKeyPattern) (map fst (iter_relations c)))"

type_synonym family = "text_points \<times> string"

definition family_less :: "family \<Rightarrow> family \<Rightarrow> bool" where
  "family_less a b \<longleftrightarrow> nats_less (fst a) (fst b) \<or> fst a = fst b \<and> bytes_less (snd a) (snd b)"

definition key_parents :: "key_shape list \<Rightarrow> (text_points \<times> nat) list" where
  "key_parents shapes = fold (\<lambda>s. count_in nats_less 1 (fst s)) shapes []"

definition key_families :: "key_shape list \<Rightarrow> (family \<times> nat) list" where
  "key_families shapes =
     fold (\<lambda>s table. case snd s of None \<Rightarrow> table | Some prefix \<Rightarrow> count_in family_less 1 (fst s, prefix) table) shapes []"

text \<open>The biggest families first.\<close>

definition ranked_families :: "key_shape list \<Rightarrow> (family \<times> nat) list" where
  "ranked_families shapes =
     take max_patterns
       (sort_by (\<lambda>a b. snd b < snd a \<or> snd a = snd b \<and> family_less (fst a) (fst b))
         (filter (\<lambda>f. min_keys_per_pattern \<le> snd f) (key_families shapes)))"

definition family_line :: "writers \<Rightarrow> naming \<Rightarrow> family \<times> nat \<Rightarrow> text_points" where
  "family_line w nm f =
     (case f of ((parent, prefix), keys) \<Rightarrow>
        ascii ''  key_pattern '' @ (if parent = [] then [] else parent @ ascii ''.'')
        @ naming_name w nm (prefix @ ''*'') @ ascii '' '' @ [0x2014] @ ascii '' '' @ number keys @ ascii '' keys'' @ nl)"

definition rest_line :: "(text_points \<times> nat) list \<Rightarrow> text_points \<times> nat \<Rightarrow> text_points" where
  "rest_line described e =
     (case e of (parent, all) \<Rightarrow>
        (let rest = all - (case map_of described parent of None \<Rightarrow> 0 | Some n \<Rightarrow> n) in
         if rest = 0 then []
         else ascii ''  '' @ number rest @ ascii '' other keys''
           @ (if parent = [] then [] else ascii '' in '' @ parent) @ ascii '', no pattern shared'' @ nl))"

definition render_key_shapes :: "writers \<Rightarrow> privacy_tier \<Rightarrow> naming \<Rightarrow> key_shape list \<Rightarrow> text_points" where
  "render_key_shapes w tier nm shapes =
     (if key_parents shapes = [] then []
      else
        (let families = ranked_families shapes;
             described = fold (\<lambda>((parent, prefix), keys). count_in nats_less keys parent) families [] in
         ascii ''key names are not sent under privacy tier `'' @ ascii (tier_as_str tier)
         @ ascii ''`: only the prefix up to the first separator and a count (a key name often holds the data itself); ''
         @ ascii ''exact key names leave only under `sampled`. Ask the user for a key name instead of guessing one.'' @ nl
         @ concat (map (family_line w nm) families)
         @ concat (map (rest_line described) (key_parents shapes)) @ nl))"

definition render_key_patterns :: "writers \<Rightarrow> privacy_tier \<Rightarrow> naming \<Rightarrow> catalog_cache \<Rightarrow> text_points" where
  "render_key_patterns w tier nm c =
     (if withholds tier KindKeyPattern then render_key_shapes w tier nm (key_shapes w nm c) else [])"

subsection \<open>Mentions\<close>

record resolved =
  re_relations :: "catalog_path list"
  re_lines :: "text_points list"
  re_queries :: "(string \<times> string) list"
  re_ignored :: nat

definition mention_line :: "resolved \<Rightarrow> text_points \<Rightarrow> resolved" where
  "mention_line st line = st\<lparr>re_lines := push_new line (re_lines st)\<rparr>"

definition ignore_mention :: "resolved \<Rightarrow> resolved" where
  "ignore_mention st = st\<lparr>re_ignored := Suc (re_ignored st)\<rparr>"

fun resolve_mention ::
  "writers \<Rightarrow> privacy_tier \<Rightarrow> naming \<Rightarrow> catalog_cache \<Rightarrow> mention \<Rightarrow> resolved \<Rightarrow> resolved" where
  "resolve_mention w tier nm c (MentionQuery title body) st = st\<lparr>re_queries := re_queries st @ [(title, body)]\<rparr>"
| "resolve_mention w tier nm c (MentionRelation p f) st =
     (case known_kind c p of
        None \<Rightarrow> ignore_mention st
      | Some k \<Rightarrow>
          if withholds tier k then
            mention_line st
              (ascii ''mentioned by the user: a '' @ ascii (relation_kind_as_str k)
               @ ascii '' whose name is withheld under privacy tier `'' @ ascii (tier_as_str tier) @ ascii ''`'' @ nl)
          else
            (let subject = ascii (relation_kind_as_str k) @ ascii '' '' @ naming_path w nm p @ nl;
                 accept = (\<lambda>line. (mention_line st line)\<lparr>re_relations := push_new p (re_relations st)\<rparr>) in
             case f of
               None \<Rightarrow> accept (ascii ''mentioned by the user: '' @ subject)
             | Some name \<Rightarrow>
                 if case cached_relation p c of None \<Rightarrow> False
                    | Some r \<Rightarrow> list_ex (\<lambda>known. fi_name known = name) (rel_fields r)
                 then accept (ascii ''mentioned by the user: field '' @ naming_name w nm name @ ascii '' of '' @ subject)
                 else ignore_mention st))"

definition resolve_mentions ::
  "writers \<Rightarrow> privacy_tier \<Rightarrow> naming \<Rightarrow> catalog_cache \<Rightarrow> mention list \<Rightarrow> resolved" where
  "resolve_mentions w tier nm c ms =
     fold (resolve_mention w tier nm c) (take max_mentions ms)
       \<lparr>re_relations = [], re_lines = [], re_queries = [], re_ignored = length ms - max_mentions\<rparr>"

text \<open>\<open>str::lines\<close>; a sanitized text holds no carriage return.\<close>

fun text_lines :: "text_points \<Rightarrow> text_points list" where
  "text_lines [] = []"
| "text_lines (c # cs) =
     (if c = 0x0A then [] # text_lines cs
      else case text_lines cs of [] \<Rightarrow> [[c]] | l # ls \<Rightarrow> (c # l) # ls)"

definition json_title :: "writers \<Rightarrow> string \<Rightarrow> text_points" where
  "json_title w title = json_literal w (inline title max_title_chars)"

definition render_saved_query :: "writers \<Rightarrow> string \<times> string \<Rightarrow> text_points" where
  "render_saved_query w q =
     ascii ''saved query '' @ json_title w (fst q)
     @ ascii '' (written in the user'' @ [0x27] @ ascii ''s workspace, not read from the database):'' @ nl
     @ concat (map (\<lambda>line. ascii ''    '' @ line @ nl)
         (text_lines (sanitize_clamped (points (wr_redact w (snd q))) max_saved_query_chars)))
     @ nl"

definition render_omitted_query :: "writers \<Rightarrow> string \<times> string \<Rightarrow> text_points" where
  "render_omitted_query w q =
     ascii ''mentioned by the user but not included, over the context budget: saved query '' @ json_title w (fst q) @ nl"

definition render_omitted_relation :: "writers \<Rightarrow> naming \<Rightarrow> catalog_path \<Rightarrow> text_points" where
  "render_omitted_relation w nm p =
     ascii ''mentioned by the user but not described, over the context budget: '' @ naming_path w nm p @ nl"

subsection \<open>The gate\<close>

definition withholds_name :: "privacy_tier \<Rightarrow> catalog_cache \<Rightarrow> catalog_path \<Rightarrow> bool" where
  "withholds_name tier c p \<longleftrightarrow>
     (case relation_summary p c of None \<Rightarrow> False | Some r \<Rightarrow> withholds tier (rr_kind r))"

text \<open>The relations: the text, the tokens used, what is described, how many did not fit.\<close>

type_synonym description_state = "text_points \<times> nat \<times> catalog_path list \<times> nat"

definition describe_relation ::
  "writers \<Rightarrow> context_builder \<Rightarrow> naming \<Rightarrow> catalog_cache \<Rightarrow> nat \<Rightarrow> catalog_path \<Rightarrow> description_state \<Rightarrow> description_state" where
  "describe_relation w b nm c header_cost p st =
     (case st of (body, used, kept, omitted) \<Rightarrow>
        if withholds_name (cb_tier b) c p then st
        else
          (let limit = po_max_context_tokens (cb_policy b);
               whole = render_relation w (cb_policy b) nm c p;
               chunk = (if limit < header_cost + estimate_tokens whole then render_oversized w nm c p else whole);
               cost = estimate_tokens chunk in
           if limit < used + cost then (body, used, kept, Suc omitted)
           else (body @ chunk, used + cost, kept @ [p], omitted)))"

text \<open>The mentions not described: how many more were omitted, and the lines that name them.\<close>

definition leave_out ::
  "writers \<Rightarrow> naming \<Rightarrow> catalog_path list \<Rightarrow> catalog_path list \<Rightarrow> catalog_path
   \<Rightarrow> nat \<times> text_points list \<Rightarrow> nat \<times> text_points list" where
  "leave_out w nm kept selected p st =
     (case st of (omitted, left_out) \<Rightarrow>
        if p \<in> set kept then st
        else (if p \<in> set selected then omitted else Suc omitted, left_out @ [render_omitted_relation w nm p]))"

definition include_query ::
  "writers \<Rightarrow> nat \<Rightarrow> string \<times> string \<Rightarrow> text_points \<times> nat \<times> text_points list
   \<Rightarrow> text_points \<times> nat \<times> text_points list" where
  "include_query w limit q st =
     (case st of (body, used, left_out) \<Rightarrow>
        (let chunk = render_saved_query w q; cost = estimate_tokens chunk in
         if limit < used + cost then (body, used, left_out @ [render_omitted_query w q])
         else (body @ chunk, used + cost, left_out)))"

definition include_sample ::
  "writers \<Rightarrow> context_builder \<Rightarrow> naming \<Rightarrow> row_sample \<Rightarrow> text_points \<times> nat \<times> nat \<Rightarrow> text_points \<times> nat \<times> nat" where
  "include_sample w b nm s st =
     (case st of (body, used, dropped) \<Rightarrow>
        (let chunk = render_sample w (cb_policy b) nm s; cost = estimate_tokens chunk in
         if po_max_context_tokens (cb_policy b) < used + cost then (body, used, Suc dropped)
         else (body @ chunk, used + cost, dropped)))"

text \<open>The text before any relation: the header, the announced mentions, the patterns of the keys.\<close>

definition context_header :: "writers \<Rightarrow> context_builder \<Rightarrow> naming \<Rightarrow> catalog_cache \<Rightarrow> resolved \<Rightarrow> text_points" where
  "context_header w b nm c re =
     render_header b c @ concat (re_lines re) @ (if re_lines re = [] then [] else nl)
     @ render_key_patterns w (cb_tier b) nm c"

text \<open>What is between the fences, and what is counted on the way.\<close>

record context_body =
  bo_text :: text_points
  bo_kept :: "catalog_path list"
  bo_omitted :: nat
  bo_left_out :: "text_points list"
  bo_dropped :: nat

definition assemble ::
  "writers \<Rightarrow> context_builder \<Rightarrow> catalog_cache \<Rightarrow> resolved \<Rightarrow> catalog_path list \<Rightarrow> context_body" where
  "assemble w b c re selected =
     (let nm = naming_for (cb_language b);
          header = context_header w b nm c re;
          header_cost = estimate_tokens header in
      case fold (describe_relation w b nm c header_cost) selected (header, header_cost, [], 0) of
        (body, used, kept, omitted) \<Rightarrow>
      (case fold (leave_out w nm kept selected) (re_relations re) (omitted, []) of
        (omitted', left_out) \<Rightarrow>
      (case fold (include_query w (po_max_context_tokens (cb_policy b))) (re_queries re) (body, used, left_out) of
        (body', used', left_out') \<Rightarrow>
      (case (if allows_row_values (cb_tier b)
             then fold (include_sample w b nm) (cb_samples b) (body' @ concat left_out', used', 0)
             else (body' @ concat left_out', used', length (cb_samples b))) of
        (body'', _, dropped) \<Rightarrow>
          \<lparr>bo_text = body'', bo_kept = kept, bo_omitted = omitted', bo_left_out = left_out', bo_dropped = dropped\<rparr>))))"

record agent_context =
  ac_tier :: privacy_tier
  ac_fence :: fence
  ac_block :: text_points
  ac_relations :: "catalog_path list"
  ac_estimated_tokens :: nat
  ac_omitted_relations :: nat
  ac_dropped_samples :: nat
  ac_ignored_mentions :: nat
  ac_omitted_mentions :: nat
  ac_unloaded_relations :: nat
  ac_unlisted_schemas :: nat

text \<open>The lines before the fence: counts, the tier, and no name.\<close>

definition preamble :: "context_builder \<Rightarrow> catalog_cache \<Rightarrow> nat \<Rightarrow> nat \<Rightarrow> nat \<Rightarrow> text_points" where
  "preamble b c described omitted unloaded =
     ascii ''Database context '' @ [0x2014] @ ascii '' privacy tier `'' @ ascii (tier_as_str (cb_tier b)) @ ascii ''`: ''
     @ points (tier_describe (cb_tier b)) @ ascii ''.'' @ nl
     @ ascii ''Describing '' @ number described @ ascii '' of '' @ number (length (iter_relations c))
     @ ascii '' known relations''
     @ (if 0 < omitted
        then ascii '' ('' @ number omitted @ ascii '' more matched but did not fit the context budget; ''
          @ ascii ''narrow the search rather than guessing)''
        else [])
     @ ascii ''.'' @ nl
     @ (if cache_is_empty c
        then ascii ''The catalog of this connection has not been read yet: no relation is known.'' @ nl else [])
     @ (if 0 < unloaded
        then number unloaded @ ascii '' relations not loaded yet: their fields are unknown, do not guess them.'' @ nl
        else [])
     @ (if 0 < unlisted_count c
        then number (unlisted_count c) @ ascii '' schemas not listed yet: their relations are not counted above.'' @ nl
        else [])"

definition build ::
  "writers \<Rightarrow> ('f::linorder) search \<Rightarrow> ('g::linorder) semantic_scores \<Rightarrow> fence \<Rightarrow> context_builder
   \<Rightarrow> catalog_cache \<Rightarrow> agent_context" where
  "build w search sem fence b c =
     (let nm = naming_for (cb_language b);
          re = resolve_mentions w (cb_tier b) nm c (cb_mentions b);
          body = assemble w b c re
            (select search sem c (po_max_relations (cb_policy b)) (cb_focus b) (re_relations re) (cb_fill b));
          unloaded = length (filter (\<lambda>p. cached_relation p c = None) (bo_kept body));
          block = preamble b c (length (bo_kept body)) (bo_omitted body) unloaded @ fenced fence (bo_text body) in
      \<lparr>ac_tier = cb_tier b, ac_fence = fence, ac_block = block, ac_relations = bo_kept body,
       ac_estimated_tokens = estimate_tokens block, ac_omitted_relations = bo_omitted body,
       ac_dropped_samples = bo_dropped body, ac_ignored_mentions = re_ignored re,
       ac_omitted_mentions = length (bo_left_out body), ac_unloaded_relations = unloaded,
       ac_unlisted_schemas = unlisted_count c\<rparr>)"

end
