(* ===== verification/Agent_Gate.thy ===== *)
theory Agent_Gate
  imports Agent_Context
begin

text \<open>
  What the gate to a prompt lets out (\<open>crates/oxyn-ai/src/context.rs\<close>): the text stays within the
  budget of the policy, a tier without row values leaves it independent of the rows offered and of the
  names of keys, and the host loads the relations the gate describes.
\<close>

subsection \<open>The budget\<close>

lemma text_bytes_append [simp]: "text_bytes (xs @ ys) = text_bytes xs + text_bytes ys"
  by (simp add: text_bytes_def)

lemma estimate_append: "estimate_tokens (xs @ ys) \<le> estimate_tokens xs + estimate_tokens ys"
  by (simp add: estimate_tokens_def chars_per_token_def)

lemma estimate_mono: "estimate_tokens xs \<le> estimate_tokens (xs @ ys)"
  by (simp add: estimate_tokens_def div_le_mono)

definition spends :: "nat \<Rightarrow> nat \<Rightarrow> text_points \<Rightarrow> nat \<Rightarrow> bool" where
  "spends header_cost limit body used \<longleftrightarrow> estimate_tokens body \<le> used \<and> used \<le> max header_cost limit"

lemma spends_more:
  "spends h limit body used \<Longrightarrow> used + estimate_tokens chunk \<le> limit
    \<Longrightarrow> spends h limit (body @ chunk) (used + estimate_tokens chunk)"
  using estimate_append [of body chunk] by (auto simp: spends_def)

lemma describe_spends:
  assumes "spends h (po_max_context_tokens (cb_policy b)) body used"
    and "fold (describe_relation w b nm c h) ps (body, used, kept, omitted) = (body', used', kept', omitted')"
  shows "spends h (po_max_context_tokens (cb_policy b)) body' used'"
  using assms
proof (induction ps arbitrary: body used kept omitted)
  case (Cons p ps)
  obtain b1 u1 k1 o1 where one: "describe_relation w b nm c h p (body, used, kept, omitted) = (b1, u1, k1, o1)"
    by (metis prod_cases4)
  have "spends h (po_max_context_tokens (cb_policy b)) b1 u1"
    using one Cons.prems(1) by (auto simp: describe_relation_def Let_def split: if_splits intro: spends_more)
  from Cons.IH [OF this] Cons.prems(2) one show ?case by simp
qed simp

lemma queries_spend:
  assumes "spends h limit body used" "fold (include_query w limit) qs (body, used, left) = (body', used', left')"
  shows "spends h limit body' used'"
  using assms
proof (induction qs arbitrary: body used left)
  case (Cons q qs)
  obtain b1 u1 l1 where one: "include_query w limit q (body, used, left) = (b1, u1, l1)"
    by (metis prod_cases3)
  have "spends h limit b1 u1"
    using one Cons.prems(1) by (auto simp: include_query_def Let_def split: if_splits intro: spends_more)
  from Cons.IH [OF this] Cons.prems(2) one show ?case by simp
qed simp

text \<open>The samples come after the lines outside the budget.\<close>

lemma samples_spend:
  assumes "estimate_tokens body \<le> used + extra" "used \<le> max h (po_max_context_tokens (cb_policy b))"
    and "fold (include_sample w b nm) ss (body, used, dropped) = (body', used', dropped')"
  shows "estimate_tokens body' \<le> max h (po_max_context_tokens (cb_policy b)) + extra"
  using assms
proof (induction ss arbitrary: body used dropped)
  case (Cons s ss)
  let ?chunk = "render_sample w (cb_policy b) nm s"
  show ?case
  proof (cases "po_max_context_tokens (cb_policy b) < used + estimate_tokens ?chunk")
    case True
    with Cons.prems Cons.IH [OF Cons.prems(1,2)] show ?thesis by (simp add: include_sample_def)
  next
    case False
    have "estimate_tokens (body @ ?chunk) \<le> used + estimate_tokens ?chunk + extra"
      using Cons.prems(1) estimate_append [of body ?chunk] by simp
    from Cons.IH [OF this] False Cons.prems(3) show ?thesis by (simp add: include_sample_def Let_def)
  qed
qed simp

lemma assemble_cases:
  fixes w b c re selected
  defines "nm \<equiv> naming_for (cb_language b)"
  defines "header \<equiv> context_header w b nm c re"
  obtains body used kept omitted omitted' left_out body' used' left_out' body'' used'' dropped where
    "fold (describe_relation w b nm c (estimate_tokens header)) selected (header, estimate_tokens header, [], 0)
       = (body, used, kept, omitted)"
    "fold (leave_out w nm kept selected) (re_relations re) (omitted, []) = (omitted', left_out)"
    "fold (include_query w (po_max_context_tokens (cb_policy b))) (re_queries re) (body, used, left_out)
       = (body', used', left_out')"
    "(if allows_row_values (cb_tier b)
        then fold (include_sample w b nm) (cb_samples b) (body' @ concat left_out', used', 0)
        else (body' @ concat left_out', used', length (cb_samples b))) = (body'', used'', dropped)"
    "assemble w b c re selected
       = \<lparr>bo_text = body'', bo_kept = kept, bo_omitted = omitted', bo_left_out = left_out', bo_dropped = dropped\<rparr>"
proof -
  obtain body used kept omitted where
    1: "fold (describe_relation w b nm c (estimate_tokens header)) selected (header, estimate_tokens header, [], 0)
       = (body, used, kept, omitted)" by (metis prod_cases4)
  obtain omitted' left_out where
    2: "fold (leave_out w nm kept selected) (re_relations re) (omitted, []) = (omitted', left_out)" by fastforce
  obtain body' used' left_out' where
    3: "fold (include_query w (po_max_context_tokens (cb_policy b))) (re_queries re) (body, used, left_out)
       = (body', used', left_out')" by (metis prod_cases3)
  obtain body'' used'' dropped where
    4: "(if allows_row_values (cb_tier b)
        then fold (include_sample w b nm) (cb_samples b) (body' @ concat left_out', used', 0)
        else (body' @ concat left_out', used', length (cb_samples b))) = (body'', used'', dropped)"
    by (metis prod_cases3)
  have 5: "assemble w b c re selected
       = \<lparr>bo_text = body'', bo_kept = kept, bo_omitted = omitted', bo_left_out = left_out', bo_dropped = dropped\<rparr>"
    using 1 2 3 4 unfolding nm_def header_def by (simp add: assemble_def Let_def split del: if_split)
  from that [OF 1 2 3 4 5] show ?thesis .
qed

lemma assembled_budget:
  "estimate_tokens (bo_text (assemble w b c re selected))
     \<le> max (estimate_tokens (context_header w b (naming_for (cb_language b)) c re))
          (po_max_context_tokens (cb_policy b))
       + estimate_tokens (concat (bo_left_out (assemble w b c re selected)))"
proof (rule assemble_cases [of w b c re selected])
  fix body used kept omitted omitted' left_out body' used' left_out' body'' used'' dropped
  let ?nm = "naming_for (cb_language b)"
  let ?h = "context_header w b ?nm c re"
  let ?limit = "po_max_context_tokens (cb_policy b)"
  assume 1: "fold (describe_relation w b ?nm c (estimate_tokens ?h)) selected (?h, estimate_tokens ?h, [], 0)
       = (body, used, kept, omitted)"
    and 3: "fold (include_query w ?limit) (re_queries re) (body, used, left_out) = (body', used', left_out')"
    and 4: "(if allows_row_values (cb_tier b)
        then fold (include_sample w b ?nm) (cb_samples b) (body' @ concat left_out', used', 0)
        else (body' @ concat left_out', used', length (cb_samples b))) = (body'', used'', dropped)"
    and 5: "assemble w b c re selected
       = \<lparr>bo_text = body'', bo_kept = kept, bo_omitted = omitted', bo_left_out = left_out', bo_dropped = dropped\<rparr>"
  have "spends (estimate_tokens ?h) ?limit ?h (estimate_tokens ?h)" by (simp add: spends_def)
  from describe_spends [OF this 1] have "spends (estimate_tokens ?h) ?limit body used" .
  from queries_spend [OF this 3] have s: "estimate_tokens body' \<le> used'" "used' \<le> max (estimate_tokens ?h) ?limit"
    by (simp_all add: spends_def)
  have e: "estimate_tokens (body' @ concat left_out') \<le> used' + estimate_tokens (concat left_out')"
    using s(1) estimate_append [of body' "concat left_out'"] by simp
  have "estimate_tokens body'' \<le> max (estimate_tokens ?h) ?limit + estimate_tokens (concat left_out')"
  proof (cases "allows_row_values (cb_tier b)")
    case True
    with 4 samples_spend [OF e s(2)] show ?thesis by simp
  next
    case False
    with 4 e s(2) show ?thesis by (auto simp del: max.bounded_iff)
  qed
  with 5 show ?thesis by simp
qed

subsection \<open>The relations described are open\<close>

text \<open>A relation whose name is withheld changes nothing.\<close>

lemma describe_open:
  "fold (describe_relation w b nm c h) ps st
     = fold (describe_relation w b nm c h) (filter (\<lambda>p. \<not> withholds_name (cb_tier b) c p) ps) st"
proof (induction ps arbitrary: st)
  case (Cons p ps)
  have "describe_relation w b nm c h p st = st" if "withholds_name (cb_tier b) c p"
    using that by (simp add: describe_relation_def split: prod.split)
  with Cons show ?case by simp
qed simp

lemma described_kept:
  "fold (describe_relation w b nm c h) ps (body, used, kept, omitted) = (body', used', kept', omitted')
    \<Longrightarrow> set kept' \<subseteq> set kept \<union> {p \<in> set ps. \<not> withholds_name (cb_tier b) c p}"
proof (induction ps arbitrary: body used kept omitted)
  case (Cons p ps)
  obtain b1 u1 k1 o1 where one: "describe_relation w b nm c h p (body, used, kept, omitted) = (b1, u1, k1, o1)"
    by (metis prod_cases4)
  then have "set k1 \<subseteq> set kept \<union> {q. q = p \<and> \<not> withholds_name (cb_tier b) c p}"
    by (auto simp: describe_relation_def Let_def split: if_splits)
  moreover have "set kept' \<subseteq> set k1 \<union> {p \<in> set ps. \<not> withholds_name (cb_tier b) c p}"
    using Cons.IH [of b1 u1 k1 o1] Cons.prems one by simp
  ultimately show ?case by auto
qed simp

lemma assembled_open:
  "p \<in> set (bo_kept (assemble w b c re selected)) \<Longrightarrow> p \<in> set selected \<and> \<not> withholds_name (cb_tier b) c p"
proof (rule assemble_cases [of w b c re selected])
  fix body used kept omitted omitted' left_out body' used' left_out' body'' used'' dropped
  assume "p \<in> set (bo_kept (assemble w b c re selected))"
    and "assemble w b c re selected
       = \<lparr>bo_text = body'', bo_kept = kept, bo_omitted = omitted', bo_left_out = left_out', bo_dropped = dropped\<rparr>"
    and "fold (describe_relation w b (naming_for (cb_language b)) c
        (estimate_tokens (context_header w b (naming_for (cb_language b)) c re))) selected
        (context_header w b (naming_for (cb_language b)) c re,
         estimate_tokens (context_header w b (naming_for (cb_language b)) c re), [], 0) = (body, used, kept, omitted)"
  with described_kept [OF this(3)] show ?thesis by auto
qed

subsection \<open>What a tier without values leaves unsaid\<close>

text \<open>Two caches that answer the same on a relation.\<close>

definition answers_alike :: "catalog_cache \<Rightarrow> catalog_cache \<Rightarrow> catalog_path \<Rightarrow> bool" where
  "answers_alike c c' p \<longleftrightarrow> relation_node p c = relation_node p c'"

lemma same_reads:
  assumes "answers_alike c c' p"
  shows "cached_relation p c = cached_relation p c'" "relation_summary p c = relation_summary p c'"
    "cached_indexes p c = cached_indexes p c'" "cached_foreign_keys p c = cached_foreign_keys p c'"
    "known_kind c p = known_kind c' p" "kind_label c p = kind_label c' p"
    "withholds_name tier c p = withholds_name tier c' p"
  using assms by (simp_all add: answers_alike_def cached_relation_def relation_summary_def cached_indexes_def
      cached_foreign_keys_def known_kind_def kind_label_def withholds_name_def)

lemma same_rendering:
  "answers_alike c c' p \<Longrightarrow> render_relation w po nm c p = render_relation w po nm c' p"
  "answers_alike c c' p \<Longrightarrow> render_oversized w nm c p = render_oversized w nm c' p"
  unfolding render_relation_def render_oversized_def by (simp_all only: same_reads [of c c' p])

lemma same_description:
  "answers_alike c c' p \<Longrightarrow> describe_relation w b nm c h p st = describe_relation w b nm c' h p st"
  by (cases st) (simp add: describe_relation_def same_reads same_rendering Let_def)

fun mentioned_path :: "mention \<Rightarrow> catalog_path option" where
  "mentioned_path (MentionRelation p f) = Some p"
| "mentioned_path (MentionQuery title body) = None"

definition mentioned_paths :: "mention list \<Rightarrow> catalog_path list" where
  "mentioned_paths ms = List.map_filter mentioned_path ms"

lemma same_mention:
  "(\<And>p. mentioned_path m = Some p \<Longrightarrow> answers_alike c c' p)
    \<Longrightarrow> resolve_mention w tier nm c m st = resolve_mention w tier nm c' m st"
proof (cases m)
  case (MentionRelation p f)
  assume "\<And>p. mentioned_path m = Some p \<Longrightarrow> answers_alike c c' p"
  with MentionRelation have "answers_alike c c' p" by simp
  then show ?thesis unfolding MentionRelation resolve_mention.simps by (simp only: same_reads [of c c' p])
qed simp

lemma same_resolved:
  assumes "\<And>p. p \<in> set (mentioned_paths ms) \<Longrightarrow> answers_alike c c' p"
  shows "resolve_mentions w tier nm c ms = resolve_mentions w tier nm c' ms"
  unfolding resolve_mentions_def
proof (rule fold_cong [OF refl refl], rule ext)
  fix m st
  assume "m \<in> set (take max_mentions ms)"
  then have m: "m \<in> set ms" by (rule in_set_takeD)
  show "resolve_mention w tier nm c m st = resolve_mention w tier nm c' m st"
  proof (rule same_mention, rule assms)
    fix p
    assume "mentioned_path m = Some p"
    with m show "p \<in> set (mentioned_paths ms)"
      by (force simp: mentioned_paths_def map_filter_def image_iff)
  qed
qed

text \<open>The relations a mention puts first are mentioned ones.\<close>

lemma resolved_mentioned:
  "set (re_relations (fold (resolve_mention w tier nm c) ms st)) \<subseteq> set (mentioned_paths ms) \<union> set (re_relations st)"
proof (induction ms arbitrary: st)
  case (Cons m ms)
  have "set (re_relations (resolve_mention w tier nm c m st)) \<subseteq> set (mentioned_paths [m]) \<union> set (re_relations st)"
    by (cases m) (auto simp: mentioned_paths_def map_filter_def mention_line_def ignore_mention_def Let_def
        split: option.splits)
  moreover have "set (mentioned_paths (m # ms)) = set (mentioned_paths [m]) \<union> set (mentioned_paths ms)"
    by (auto simp: mentioned_paths_def map_filter_def)
  ultimately show ?case using Cons [of "resolve_mention w tier nm c m st"] by auto
qed simp

lemma resolved_mentions_mentioned:
  "set (re_relations (resolve_mentions w tier nm c ms)) \<subseteq> set (mentioned_paths ms)"
proof -
  have "set (mentioned_paths (take n ms)) \<subseteq> set (mentioned_paths ms)" for n
    by (auto simp: mentioned_paths_def map_filter_def dest: in_set_takeD)
  with resolved_mentioned [of w tier nm c "take max_mentions ms"] show ?thesis
    by (fastforce simp: resolve_mentions_def)
qed

text \<open>What the text may tell of a relation by its name: it is open, or the user named it.\<close>

definition told :: "context_builder \<Rightarrow> catalog_cache \<Rightarrow> catalog_path \<Rightarrow> bool" where
  "told b c p \<longleftrightarrow> \<not> withholds_name (cb_tier b) c p \<or> p \<in> set (mentioned_paths (cb_mentions b))"

lemma open_told:
  "filter (\<lambda>p. \<not> withholds_name (cb_tier b) c p) (filter (told b c) ps)
     = filter (\<lambda>p. \<not> withholds_name (cb_tier b) c p) ps"
  by (induction ps) (auto simp: told_def)

text \<open>Two caches that differ by the names of keys only, beyond the prefixes that can be sent.\<close>

definition same_outside_keys :: "writers \<Rightarrow> naming \<Rightarrow> catalog_cache \<Rightarrow> catalog_cache \<Rightarrow> bool" where
  "same_outside_keys w nm c c' \<longleftrightarrow>
     ca_value (ch_server c) = ca_value (ch_server c')
     \<and> length (iter_relations c) = length (iter_relations c')
     \<and> cache_is_empty c = cache_is_empty c'
     \<and> unlisted_count c = unlisted_count c'
     \<and> key_shapes w nm c = key_shapes w nm c'"

definition selection ::
  "writers \<Rightarrow> ('f::linorder) search \<Rightarrow> ('g::linorder) semantic_scores \<Rightarrow> context_builder \<Rightarrow> catalog_cache
   \<Rightarrow> catalog_path list" where
  "selection w search sem b c =
     select search sem c (po_max_relations (cb_policy b)) (cb_focus b)
       (re_relations (resolve_mentions w (cb_tier b) (naming_for (cb_language b)) c (cb_mentions b))) (cb_fill b)"

lemma build_block:
  "build w search sem f b c =
     (let re = resolve_mentions w (cb_tier b) (naming_for (cb_language b)) c (cb_mentions b);
          body = assemble w b c re (selection w search sem b c);
          unloaded = length (filter (\<lambda>p. cached_relation p c = None) (bo_kept body));
          block = preamble b c (length (bo_kept body)) (bo_omitted body) unloaded @ fenced f (bo_text body) in
      \<lparr>ac_tier = cb_tier b, ac_fence = f, ac_block = block, ac_relations = bo_kept body,
       ac_estimated_tokens = estimate_tokens block, ac_omitted_relations = bo_omitted body,
       ac_dropped_samples = bo_dropped body, ac_ignored_mentions = re_ignored re,
       ac_omitted_mentions = length (bo_left_out body), ac_unloaded_relations = unloaded,
       ac_unlisted_schemas = unlisted_count c\<rparr>)"
  by (simp add: build_def selection_def)

lemma same_leave_out:
  assumes "set ps \<inter> set selected = set ps \<inter> set selected'"
  shows "fold (leave_out w nm kept selected) ps st = fold (leave_out w nm kept selected') ps st"
proof (rule fold_cong [OF refl refl], rule ext)
  fix p st
  assume "p \<in> set ps"
  with assms have "p \<in> set selected \<longleftrightarrow> p \<in> set selected'" by blast
  then show "leave_out w nm kept selected p st = leave_out w nm kept selected' p st"
    by (cases st) (simp add: leave_out_def)
qed

lemma same_assembled:
  assumes keys: "same_outside_keys w (naming_for (cb_language b)) c c'"
    and filtered: "filter (told b c) selected = filter (told b c') selected'"
    and same: "\<And>p. p \<in> set (filter (told b c) selected) \<Longrightarrow> answers_alike c c' p"
    and mentions: "set (re_relations re) \<subseteq> set (mentioned_paths (cb_mentions b))"
  shows "assemble w b c re selected = assemble w b c' re selected'"
proof -
  let ?nm = "naming_for (cb_language b)"
  have header: "context_header w b ?nm c re = context_header w b ?nm c' re"
    using keys by (simp add: context_header_def render_header_def render_key_patterns_def same_outside_keys_def)
  let ?open = "\<lambda>c p. \<not> withholds_name (cb_tier b) c p"
  have opens: "filter (?open c) selected = filter (?open c') selected'"
  proof -
    have "filter (?open c) selected = filter (?open c) (filter (told b c) selected)"
      by (simp only: open_told)
    also have "\<dots> = filter (?open c') (filter (told b c) selected)"
      using same by (intro filter_cong) (auto simp: same_reads)
    also have "\<dots> = filter (?open c') selected'"
      unfolding filtered by (simp only: open_told)
    finally show ?thesis .
  qed
  have described: "fold (describe_relation w b ?nm c h) selected st = fold (describe_relation w b ?nm c' h) selected' st"
    for h st
  proof -
    have "fold (describe_relation w b ?nm c h) (filter (?open c) selected) st
        = fold (describe_relation w b ?nm c' h) (filter (?open c) selected) st"
      using same by (intro fold_cong [OF refl refl] ext same_description) (auto simp: told_def)
    then show ?thesis
      using describe_open [of w b ?nm c h selected st] describe_open [of w b ?nm c' h selected' st] opens by simp
  qed
  have "p \<in> set selected \<longleftrightarrow> p \<in> set selected'" if "p \<in> set (re_relations re)" for p
  proof -
    have "told b c p" "told b c' p" using that mentions by (auto simp: told_def)
    then have "p \<in> set selected \<longleftrightarrow> p \<in> set (filter (told b c) selected)"
      "p \<in> set selected' \<longleftrightarrow> p \<in> set (filter (told b c') selected')" by auto
    then show ?thesis unfolding filtered by (rule trans [OF _ sym])
  qed
  then have "set (re_relations re) \<inter> set selected = set (re_relations re) \<inter> set selected'" by blast
  note out = same_leave_out [OF this, of w]
  show ?thesis unfolding assemble_def Let_def header described out ..
qed

text \<open>Under a tier without row values, the rows offered only count as dropped.\<close>

lemma assemble_samples:
  "\<not> allows_row_values (cb_tier b)
    \<Longrightarrow> assemble w (b\<lparr>cb_samples := ss\<rparr>) c re selected = (assemble w b c re selected)\<lparr>bo_dropped := length ss\<rparr>"
proof (rule assemble_cases [of w b c re selected])
  fix body used kept omitted omitted' left_out body' used' left_out' body'' used'' dropped
  let ?nm = "naming_for (cb_language b)"
  let ?h = "context_header w b ?nm c re"
  assume tier: "\<not> allows_row_values (cb_tier b)"
    and r: "fold (describe_relation w b ?nm c (estimate_tokens ?h)) selected (?h, estimate_tokens ?h, [], 0)
       = (body, used, kept, omitted)"
      "fold (leave_out w ?nm kept selected) (re_relations re) (omitted, []) = (omitted', left_out)"
      "fold (include_query w (po_max_context_tokens (cb_policy b))) (re_queries re) (body, used, left_out)
       = (body', used', left_out')"
    and s: "(if allows_row_values (cb_tier b)
        then fold (include_sample w b ?nm) (cb_samples b) (body' @ concat left_out', used', 0)
        else (body' @ concat left_out', used', length (cb_samples b))) = (body'', used'', dropped)"
    and a: "assemble w b c re selected
       = \<lparr>bo_text = body'', bo_kept = kept, bo_omitted = omitted', bo_left_out = left_out', bo_dropped = dropped\<rparr>"
  have "describe_relation w (b\<lparr>cb_samples := ss\<rparr>) ?nm c = describe_relation w b ?nm c"
    by (intro ext) (simp add: describe_relation_def Let_def split: prod.split)
  moreover have "context_header w (b\<lparr>cb_samples := ss\<rparr>) ?nm c re = ?h"
    by (simp add: context_header_def render_header_def)
  ultimately show ?thesis using tier r s a by (simp add: assemble_def Let_def)
qed

theorem block_outside_keys:
  assumes tier: "\<not> allows_row_values (cb_tier b)"
    and keys: "same_outside_keys w (naming_for (cb_language b)) c c'"
    and told: "filter (told b c) (selection w search sem b c) = filter (told b c') (selection w search sem b c')"
    and same: "\<And>p. p \<in> set (filter (told b c) (selection w search sem b c)) \<union> set (mentioned_paths (cb_mentions b))
      \<Longrightarrow> answers_alike c c' p"
  shows "ac_block (build w search sem f (b\<lparr>cb_samples := ss\<rparr>) c) = ac_block (build w search sem f b c')"
proof -
  let ?re = "resolve_mentions w (cb_tier b) (naming_for (cb_language b)) c (cb_mentions b)"
  have re: "resolve_mentions w (cb_tier b) (naming_for (cb_language b)) c' (cb_mentions b) = ?re"
    using same by (intro same_resolved [symmetric]) simp
  have same_body: "assemble w b c ?re (selection w search sem b c) = assemble w b c' ?re (selection w search sem b c')"
    using same by (intro same_assembled [OF keys told]) (auto intro: resolved_mentions_mentioned [THEN subsetD])
  let ?body = "assemble w b c ?re (selection w search sem b c)"
  have "cached_relation p c = cached_relation p c'" if "p \<in> set (bo_kept ?body)" for p
    using assembled_open [OF that] same by (auto simp: told_def same_reads)
  then have unloaded: "filter (\<lambda>p. cached_relation p c = None) (bo_kept ?body)
      = filter (\<lambda>p. cached_relation p c' = None) (bo_kept ?body)"
    by (intro filter_cong) auto
  have pre: "preamble (b\<lparr>cb_samples := ss\<rparr>) c n m k = preamble b c' n m k" for n m k
    using keys by (simp add: preamble_def same_outside_keys_def)
  have sel: "selection w search sem (b\<lparr>cb_samples := ss\<rparr>) c = selection w search sem b c"
    by (simp add: selection_def)
  show ?thesis
    unfolding build_block Let_def
    by (simp add: sel assemble_samples [OF tier] re unloaded pre same_body [symmetric])
qed

subsection \<open>The host loads what the gate describes\<close>

text \<open>A mention the gate takes: a listed relation of a kind it may name, and a field it has, if any.\<close>

fun mention_accepted :: "privacy_tier \<Rightarrow> catalog_cache \<Rightarrow> mention \<Rightarrow> bool" where
  "mention_accepted tier c (MentionQuery title body) = True"
| "mention_accepted tier c (MentionRelation p f) =
     (relation_summary p c \<noteq> None
      \<and> (case known_kind c p of None \<Rightarrow> False | Some k \<Rightarrow> \<not> withholds tier k)
      \<and> (case f of None \<Rightarrow> True
         | Some name \<Rightarrow> (case cached_relation p c of None \<Rightarrow> False
             | Some r \<Rightarrow> list_ex (\<lambda>known. fi_name known = name) (rel_fields r))))"

lemma accepted_mention:
  "mention_accepted tier c m
    \<Longrightarrow> re_relations (resolve_mention w tier nm c m st) = host_mention c m (re_relations st)"
  by (cases m) (auto simp: mention_line_def Let_def split: option.splits)

lemma accepted_mentions:
  "list_all (mention_accepted tier c) ms
    \<Longrightarrow> re_relations (fold (resolve_mention w tier nm c) ms st) = fold (host_mention c) ms (re_relations st)"
  by (induction ms arbitrary: st) (simp_all add: accepted_mention del: mention_accepted.simps host_mention.simps
      resolve_mention.simps)

lemma selection_is_wanted:
  assumes "list_all (mention_accepted (cb_tier b) c) (take max_mentions (cb_mentions b))"
  shows "selection w search sem b c
    = wanted_relations_ranked search sem c (po_max_relations (cb_policy b)) (cb_focus b) (cb_mentions b) (cb_fill b)"
  by (simp add: selection_def wanted_relations_ranked_def resolve_mentions_def accepted_mentions [OF assms])

theorem described_is_wanted:
  assumes "list_all (mention_accepted (cb_tier b) c) (take max_mentions (cb_mentions b))"
  shows "set (ac_relations (build w search sem f b c))
    \<subseteq> set (wanted_relations_ranked search sem c (po_max_relations (cb_policy b)) (cb_focus b) (cb_mentions b)
        (cb_fill b))"
proof
  fix p
  assume "p \<in> set (ac_relations (build w search sem f b c))"
  then have "p \<in> set (selection w search sem b c)"
    by (auto simp: build_block Let_def dest: assembled_open)
  then show "p \<in> set (wanted_relations_ranked search sem c (po_max_relations (cb_policy b)) (cb_focus b)
      (cb_mentions b) (cb_fill b))"
    by (simp only: selection_is_wanted [OF assms])
qed

subsection \<open>Two listings\<close>

text \<open>A namespace and what is listed in it.\<close>

definition in_schema :: "string \<Rightarrow> string option \<Rightarrow> catalog_path" where
  "in_schema schema name = \<lparr>cp_catalog = None, cp_namespace = Some schema, cp_relation = name\<rparr>"

definition listed :: "string \<Rightarrow> relation_kind \<Rightarrow> string list \<Rightarrow> catalog_cache" where
  "listed schema kind names =
     (case set_relations 0 (in_schema schema None)
        (map (\<lambda>n. relation_ref_validated (in_schema schema None) n kind) names) cache_new of
        Inr c \<Rightarrow> c | Inl _ \<Rightarrow> cache_new)"

lemmas listed_simps = listed_def in_schema_def set_relations_def ensure_namespace_def ensure_catalog_def
  on_namespace_def on_catalog_def on_namespace_in_def entry_or_def map_key_def from_key_def cache_new_def
  unread_def read_now_def map_value_def relation_node_new_def relation_ref_validated_def
  namespace_ref_validated_def only_catalog_def iter_relations_def all_nodes_def

lemmas lookup_simps = relation_summary_def cached_relation_def known_kind_def either_def relation_node_def
  namespace_node_def catalog_node_def namespace_in_def

definition plain_writers :: writers where
  "plain_writers = \<lparr>wr_json = (\<lambda>t. 0x22 # t @ [0x22]), wr_show = (\<lambda>_. []), wr_redact = (\<lambda>s. s)\<rparr>"

definition no_search :: "nat search" where "no_search = (\<lambda>_ _ _. [])"

definition no_scores :: "nat semantic_scores" where "no_scores = []"

lemmas selection_simps = selection_def select_def found_paths_def no_search_def no_scores_def listing_order_def
  sort_by_def path_less_def relation_ref_path_def resolve_mentions_def default_context_policy_def
  context_builder_new_def max_mentions_def push_new_def

text \<open>
  A mention of a field that does not exist costs a place in what the host loads and none in what the
  gate describes: with room for one relation, the gate selects one the host did not load.
\<close>

definition ghost_builder :: context_builder where
  "ghost_builder = (context_builder_new Metadata)
     \<lparr>cb_policy := default_context_policy\<lparr>po_max_relations := 1\<rparr>,
      cb_mentions := [MentionRelation (in_schema ''main'' (Some ''t'')) (Some ''ghost'')]\<rparr>"

lemma selected_but_not_wanted:
  "selection w no_search no_scores ghost_builder (listed ''main'' KindTable [''a'', ''t''])
     = [in_schema ''main'' (Some ''a'')]"
  by (simp add: ghost_builder_def selection_simps lookup_simps listed_simps Let_def withholds_def ignore_mention_def
      byte_def)

lemma wanted_but_not_selected:
  "wanted_relations_ranked no_search no_scores (listed ''main'' KindTable [''a'', ''t'']) 1 [] (cb_mentions ghost_builder) True
     = [in_schema ''main'' (Some ''t'')]"
  by (simp add: ghost_builder_def wanted_relations_ranked_def selection_simps lookup_simps listed_simps Let_def)

text \<open>Two Redis databases whose keys share their prefix and nothing else.\<close>

definition key_cache :: "string \<Rightarrow> string \<Rightarrow> catalog_cache" where
  "key_cache a b = listed ''db0'' KindKeyPattern [''user:'' @ a, ''user:'' @ b]"

lemmas key_simps = key_shapes_def path_parent_def path_level_def namespace_of_def key_separators_def
  points_ascii ascii_def byte_def max_prefix_chars_def max_prefix_digits_def is_ascii_alphabetic_def
  is_ascii_alphanumeric_def is_ascii_digit_def

lemma key_caches:
  "same_outside_keys w nm (key_cache ''al'' ''bo'') (key_cache ''ca'' ''de'')"
  unfolding same_outside_keys_def
proof (intro conjI)
  have "ca_value (ch_server (key_cache a b)) = None" for a b by (simp add: key_cache_def listed_simps)
  then show "ca_value (ch_server (key_cache ''al'' ''bo'')) = ca_value (ch_server (key_cache ''ca'' ''de''))"
    "unlisted_count (key_cache ''al'' ''bo'') = unlisted_count (key_cache ''ca'' ''de'')"
    by (simp_all add: unlisted_count_def listing_scopes_def)
  show "length (iter_relations (key_cache ''al'' ''bo'')) = length (iter_relations (key_cache ''ca'' ''de''))"
    "cache_is_empty (key_cache ''al'' ''bo'') = cache_is_empty (key_cache ''ca'' ''de'')"
    by (simp_all add: key_cache_def listed_simps cache_is_empty_def)
  show "key_shapes w nm (key_cache ''al'' ''bo'') = key_shapes w nm (key_cache ''ca'' ''de'')"
    by (simp add: key_cache_def listed_simps relation_ref_path_def Let_def key_simps)
qed

lemma key_cache_untold:
  "filter (told (context_builder_new Metadata) (key_cache ''al'' ''bo''))
     (selection w no_search no_scores (context_builder_new Metadata) (key_cache ''al'' ''bo'')) = []"
  "filter (told (context_builder_new Metadata) (key_cache ''ca'' ''de''))
     (selection w no_search no_scores (context_builder_new Metadata) (key_cache ''ca'' ''de'')) = []"
  by (simp_all add: key_cache_def told_def withholds_name_def withholds_def mentioned_paths_def selection_simps
      lookup_simps listed_simps Let_def byte_def map_filter_def)

text \<open>
  The gate withholds a name by the kind of the listing, a mention by that of the description: a relation
  described as keys and listed as something else is described by its name.
\<close>

lemma kinds_disagree:
  "\<exists>c p. known_kind c p = Some KindKeyPattern \<and> \<not> withholds_name Metadata c p"
proof -
  let ?p = "in_schema ''db0'' (Some ''k'')"
  let ?r = "\<lparr>rel_name = ''k'', rel_kind = KindKeyPattern, rel_comment = None, rel_estimated_rows = None,
    rel_size_bytes = None, rel_fields = [], rel_key_order_preview = False\<rparr>"
  obtain c where c: "set_relation 0 ?p ?r (listed ''db0'' KindTable [''k'']) = Inr c"
    by (simp add: set_relation_def in_schema_def)
  then have "known_kind c ?p = Some KindKeyPattern" "\<not> withholds_name Metadata c ?p"
    by (auto simp: set_relation_def ensure_relation_def on_relation_def on_relation_in_def lookup_simps listed_simps
        withholds_name_def withholds_def bound_fields_def)
  then show ?thesis by blast
qed

end
