(* ===== verification/Resp_Wire.thy ===== *)
theory Resp_Wire
  imports Float64 Code_Points
begin

text \<open>
  The wire of the Redis driver (\<open>drivers/oxyn-driver-redis/src/resp.rs\<close>): RESP2 and RESP3 as a server
  writes them. A buffered stream is the list of what its next fills answer: bytes, or a failure of the
  transport; past the last one it is at its end. A length is a number below \<open>2 ^ 64\<close>, as its parser
  leaves it, and a \<open>usize\<close> has 64 bits. The size of a value in memory is the argument \<open>cost\<close>.
\<close>

definition max_line :: nat where "max_line = 2 ^ 20"
definition max_depth :: nat where "max_depth = 32"

subsection \<open>The stream\<close>

datatype io_failure = UnexpectedEof | OtherIo string

datatype wire_error = WireTruncated | WireIo string | Malformed string

datatype fill = Chunk string | Broken io_failure

type_synonym stream = "fill list"

fun wire_io :: "io_failure \<Rightarrow> wire_error" where
  "wire_io UnexpectedEof = WireTruncated"
| "wire_io (OtherIo m) = WireIo m"

fun fill_buf :: "stream \<Rightarrow> wire_error + string" where
  "fill_buf [] = Inr []"
| "fill_buf (Broken f # s) = Inl (wire_io f)"
| "fill_buf (Chunk c # s) = Inr c"

fun consume :: "nat \<Rightarrow> stream \<Rightarrow> stream" where
  "consume n (Chunk c # s) = (if n < length c then Chunk (drop n c) # s else s)"
| "consume n s = s"

text \<open>The bytes still to come.\<close>

fun fill_bytes :: "fill \<Rightarrow> string" where
  "fill_bytes (Chunk c) = c"
| "fill_bytes (Broken f) = []"

definition flat :: "stream \<Rightarrow> string" where
  "flat s = concat (map fill_bytes s)"

definition left :: "stream \<Rightarrow> nat" where
  "left s = length (flat s)"

text \<open>A transport that does not fail, and whose fills are never empty before the end.\<close>

definition steady :: "stream \<Rightarrow> bool" where
  "steady s \<longleftrightarrow> (\<forall>f \<in> set s. \<exists>c. f = Chunk c \<and> c \<noteq> [])"

text \<open>Where a line feed is.\<close>

fun position :: "char \<Rightarrow> string \<Rightarrow> nat option" where
  "position b [] = None"
| "position b (c # cs) = (if c = b then Some 0 else map_option Suc (position b cs))"

abbreviation cr :: char where "cr \<equiv> CHR 0x0D"
abbreviation lf :: char where "lf \<equiv> CHR 0x0A"

subsection \<open>Lines, payloads\<close>

definition end_line :: "string \<Rightarrow> wire_error + string" where
  "end_line line =
     (if max_line + 1 < length line then Inl (Malformed ''a line longer than the driver accepts'')
      else if line = [] \<or> last line \<noteq> cr then Inl (Malformed ''a line feed without a carriage return'')
      else Inr (butlast line))"

fun read_line :: "stream \<Rightarrow> string \<Rightarrow> wire_error + string \<times> stream" where
  "read_line [] line = Inl WireTruncated"
| "read_line (Broken f # s) line = Inl (wire_io f)"
| "read_line (Chunk available # s) line =
     (if available = [] then Inl WireTruncated
      else (case position lf available of
          Some k \<Rightarrow>
            and_then (end_line (line @ take k available))
              (\<lambda>whole. Inr (whole, consume (k + 1) (Chunk available # s)))
        | None \<Rightarrow>
            if max_line < length (line @ available)
            then Inl (Malformed ''a line longer than the driver accepts'')
            else read_line s (line @ available)))"

fun next_byte :: "stream \<Rightarrow> wire_error + char \<times> stream" where
  "next_byte [] = Inl WireTruncated"
| "next_byte (Broken f # s) = Inl (wire_io f)"
| "next_byte (Chunk available # s) =
     (case available of [] \<Rightarrow> Inl WireTruncated | b # _ \<Rightarrow> Inr (b, consume 1 (Chunk available # s)))"

definition terminator :: "stream \<Rightarrow> wire_error + stream" where
  "terminator s =
     and_then (next_byte s) (\<lambda>(a, s1).
     and_then (next_byte s1) (\<lambda>(b, s2).
       if a = cr \<and> b = lf then Inr s2 else Inl (Malformed ''a bulk string not followed by CRLF'')))"

record clipped =
  clip_bytes :: string
  full_len :: nat

definition clip_truncated :: "clipped \<Rightarrow> bool" where
  "clip_truncated c \<longleftrightarrow> length (clip_bytes c) < full_len c"

fun bulk_bytes :: "stream \<Rightarrow> nat \<Rightarrow> nat \<Rightarrow> string \<Rightarrow> wire_error + string \<times> stream" where
  "bulk_bytes s 0 kept bytes = Inr (bytes, s)"
| "bulk_bytes [] remaining kept bytes = Inl WireTruncated"
| "bulk_bytes (Broken f # s) remaining kept bytes = Inl (wire_io f)"
| "bulk_bytes (Chunk available # s) remaining kept bytes =
     (if available = [] then Inl WireTruncated
      else if remaining < length available then
        Inr (bytes @ take (min (kept - length bytes) remaining) available,
             consume remaining (Chunk available # s))
      else bulk_bytes s (remaining - length available) kept
             (bytes @ take (min (kept - length bytes) (length available)) available))"

definition bulk :: "stream \<Rightarrow> nat \<Rightarrow> nat \<Rightarrow> wire_error + clipped \<times> stream" where
  "bulk s len keep =
     and_then (bulk_bytes s len (min len keep) []) (\<lambda>(bytes, s1).
     and_then (terminator s1) (\<lambda>s2. Inr (\<lparr>clip_bytes = bytes, full_len = len\<rparr>, s2)))"

subsection \<open>Heads\<close>

datatype aggregate = ArrayAgg | SetAgg | MapAgg | PushAgg

definition elements :: "aggregate \<Rightarrow> nat \<Rightarrow> wire_error + nat" where
  "elements kind len =
     (if kind = MapAgg then
        (if len * 2 < 2 ^ 64 then Inr (len * 2) else Inl (Malformed ''a map length overflows''))
      else Inr len)"

datatype head =
  HSimple string | HError string | HBulkError nat | HInteger int | HDouble f64 | HBoolean bool
| HBigNumber string | HNull | HBulk nat | HVerbatim nat | HAggregate aggregate nat

datatype raw_kind = RawHead head | Attribute nat

definition parse_length :: "string \<Rightarrow> wire_error + nat option" where
  "parse_length digits =
     (if digits = ''?'' then Inl (Malformed ''a streamed RESP3 type, which this driver does not read'')
      else if digits = ''-1'' then Inr None
      else if digits = [] \<or> \<not> list_all is_ascii_digit digits
      then Inl (Malformed ''a length that is not digits'')
      else if digits_nat digits < 2 ^ 64 then Inr (Some (digits_nat digits))
      else Inl (Malformed ''a length beyond 64 bits''))"

definition required :: "string \<Rightarrow> wire_error + nat option \<Rightarrow> wire_error + nat" where
  "required message parsed =
     and_then parsed (\<lambda>n. case n of None \<Rightarrow> Inl (Malformed message) | Some n \<Rightarrow> Inr n)"

definition required_length :: "string \<Rightarrow> wire_error + nat" where
  "required_length digits = required ''a null where an aggregate length belongs'' (parse_length digits)"

definition strip_byte :: "char \<Rightarrow> string \<Rightarrow> string" where
  "strip_byte b s = (case s of c # cs \<Rightarrow> if c = b then cs else s | [] \<Rightarrow> s)"

text \<open>\<open>str::parse::<i64>\<close> of an optional minus and digits.\<close>

definition signed_value :: "string \<Rightarrow> int option" where
  "signed_value s =
     (let negative = starts_with s ''-''; digits = (if negative then tl s else s);
          n = (if negative then - int (digits_nat digits) else int (digits_nat digits))
      in if digits = [] \<or> \<not> list_all is_ascii_digit digits then None
         else if - (2 ^ 63) \<le> n \<and> n < 2 ^ 63 then Some n else None)"

definition parse_integer :: "string \<Rightarrow> wire_error + int" where
  "parse_integer s =
     (case signed_value (strip_byte (CHR ''+'') s) of
        None \<Rightarrow> Inl (Malformed ''an integer outside the signed 64-bit range'')
      | Some n \<Rightarrow> Inr n)"

definition double_byte :: "char \<Rightarrow> bool" where
  "double_byte b \<longleftrightarrow> is_ascii_digit b \<or> b \<in> {CHR ''+'', CHR ''-'', CHR ''.'', CHR ''e'', CHR ''E''}"

definition parse_double :: "string \<Rightarrow> wire_error + f64" where
  "parse_double literal =
     (if \<not> is_utf8 literal then Inl (Malformed ''a double that is not ASCII'')
      else if literal = ''inf'' \<or> literal = ''+inf'' then Inr (Infinite False)
      else if literal = ''-inf'' then Inr (Infinite True)
      else if literal = ''nan'' \<or> literal = ''-nan'' then Inr NotANumber
      else if literal = [] \<or> \<not> list_all double_byte literal
      then Inl (Malformed ''a double that is not a number'')
      else (case parse_f64 literal of
          None \<Rightarrow> Inl (Malformed ''a double that is not a number'')
        | Some x \<Rightarrow> Inr x))"

definition parse_big_number :: "string \<Rightarrow> wire_error + string" where
  "parse_big_number s =
     (let digits = (if starts_with s ''+'' then tl s else if starts_with s ''-'' then tl s else s)
      in if digits = [] \<or> \<not> list_all is_ascii_digit digits
         then Inl (Malformed ''a big number that is not digits'')
         else Inr s)"

definition head_of :: "string \<Rightarrow> wire_error + raw_kind" where
  "head_of line =
     (case line of
        [] \<Rightarrow> Inl (Malformed ''an empty line where a type byte belongs'')
      | marker # rest \<Rightarrow>
          if marker = CHR ''+'' then Inr (RawHead (HSimple rest))
          else if marker = CHR ''-'' then Inr (RawHead (HError rest))
          else if marker = CHR '':'' then map_sum id (RawHead \<circ> HInteger) (parse_integer rest)
          else if marker = CHR '','' then map_sum id (RawHead \<circ> HDouble) (parse_double rest)
          else if marker = CHR ''#'' then
            (if rest = ''t'' then Inr (RawHead (HBoolean True))
             else if rest = ''f'' then Inr (RawHead (HBoolean False))
             else Inl (Malformed ''a boolean that is neither t nor f''))
          else if marker = CHR ''('' then map_sum id (RawHead \<circ> HBigNumber) (parse_big_number rest)
          else if marker = CHR ''_'' \<and> rest = [] then Inr (RawHead HNull)
          else if marker = CHR ''$'' then
            map_sum id (\<lambda>n. RawHead (case n of None \<Rightarrow> HNull | Some n \<Rightarrow> HBulk n)) (parse_length rest)
          else if marker = CHR ''!'' then
            map_sum id (RawHead \<circ> HBulkError) (required ''a null error'' (parse_length rest))
          else if marker = CHR ''='' then
            map_sum id (RawHead \<circ> HVerbatim) (required ''a null verbatim string'' (parse_length rest))
          else if marker = CHR ''*'' then
            map_sum id (\<lambda>n. RawHead (case n of None \<Rightarrow> HNull | Some n \<Rightarrow> HAggregate ArrayAgg n)) (parse_length rest)
          else if marker = CHR ''~'' then map_sum id (RawHead \<circ> HAggregate SetAgg) (required_length rest)
          else if marker = CHR ''%'' then map_sum id (RawHead \<circ> HAggregate MapAgg) (required_length rest)
          else if marker = CHR ''>'' then map_sum id (RawHead \<circ> HAggregate PushAgg) (required_length rest)
          else if marker = CHR ''|'' then map_sum id Attribute (required_length rest)
          else Inl (Malformed ''a byte that starts no RESP type''))"

definition raw_head :: "stream \<Rightarrow> wire_error + raw_kind \<times> stream" where
  "raw_head s = and_then (read_line s []) (\<lambda>(line, s1). and_then (head_of line) (\<lambda>h. Inr (h, s1)))"

subsection \<open>Each reading consumes\<close>

lemma flat_Nil [simp]: "flat [] = []"
  by (simp add: flat_def)

lemma flat_Cons [simp]: "flat (f # s) = fill_bytes f @ flat s"
  by (simp add: flat_def)

lemma flat_consume: "n \<le> length c \<Longrightarrow> flat (consume n (Chunk c # s)) = drop n c @ flat s"
  by auto

lemma position_SomeD: "position b cs = Some k \<Longrightarrow> k < length cs \<and> cs ! k = b \<and> b \<notin> set (take k cs)"
  by (induction cs arbitrary: k) (auto split: if_splits)

lemma position_None: "position b cs = None \<longleftrightarrow> b \<notin> set cs"
  by (induction cs) auto

lemma read_line_left: "read_line s line = Inr (l, s') \<Longrightarrow> left s' < left s"
proof (induction s line rule: read_line.induct)
  case (3 available s line)
  show ?case
  proof (cases "position lf available")
    case None
    with 3 show ?thesis by (auto simp: left_def split: if_splits)
  next
    case (Some k)
    then have "s' = consume (k + 1) (Chunk available # s)" "k < length available"
      using "3.prems" position_SomeD [OF Some] by (auto simp: and_then_Inr_iff split: if_splits)
    then show ?thesis by (auto simp: left_def)
  qed
qed auto

lemma next_byte_left: "next_byte s = Inr (b, s') \<Longrightarrow> left s' < left s"
  by (induction s rule: next_byte.induct) (auto simp: left_def split: list.splits if_splits)

lemma terminator_left: "terminator s = Inr s' \<Longrightarrow> left s' < left s"
  by (auto simp: terminator_def and_then_Inr_iff split: if_splits dest!: next_byte_left)

lemma bulk_bytes_left: "bulk_bytes s n kept bytes = Inr (b, s') \<Longrightarrow> left s' \<le> left s"
  by (induction s n kept bytes rule: bulk_bytes.induct) (auto simp: left_def split: if_splits)

lemma bulk_left: "bulk s n keep = Inr (b, s') \<Longrightarrow> left s' < left s"
  by (auto simp: bulk_def and_then_Inr_iff dest!: terminator_left bulk_bytes_left)

lemma raw_head_left: "raw_head s = Inr (h, s') \<Longrightarrow> left s' < left s"
  by (auto simp: raw_head_def and_then_Inr_iff dest!: read_line_left)

subsection \<open>Skipping\<close>

text \<open>What is pending after a head was read: its entries or payload, checked against 64 bits.\<close>

definition checked_pending :: "string \<Rightarrow> nat \<Rightarrow> wire_error + nat" where
  "checked_pending message n = (if n < 2 ^ 64 then Inr n else Inl (Malformed message))"

fun pending_after :: "nat \<Rightarrow> raw_kind \<Rightarrow> wire_error + nat" where
  "pending_after pending (Attribute len) =
     and_then (elements MapAgg len)
       (\<lambda>n. checked_pending ''an attribute length overflows'' (pending + n + 1))"
| "pending_after pending (RawHead (HAggregate kind len)) =
     and_then (elements kind len) (\<lambda>n. checked_pending ''an aggregate length overflows'' (pending + n))"
| "pending_after pending (RawHead h) = Inr pending"

fun payload_len :: "raw_kind \<Rightarrow> nat option" where
  "payload_len (RawHead (HBulk len)) = Some len"
| "payload_len (RawHead (HVerbatim len)) = Some len"
| "payload_len (RawHead (HBulkError len)) = Some len"
| "payload_len h = None"

definition skip_payload :: "raw_kind \<Rightarrow> stream \<Rightarrow> wire_error + stream" where
  "skip_payload h s =
     (case payload_len h of None \<Rightarrow> Inr s | Some len \<Rightarrow> and_then (bulk s len 0) (\<lambda>(c, s1). Inr s1))"

lemma skip_payload_left: "skip_payload h s = Inr s' \<Longrightarrow> left s' \<le> left s"
  by (auto simp: skip_payload_def and_then_Inr_iff split: option.splits dest!: bulk_left)

function skip :: "stream \<Rightarrow> nat \<Rightarrow> wire_error + stream" where
  "skip s 0 = Inr s"
| "skip s (Suc pending) =
     and_then (raw_head s) (\<lambda>(h, s1).
     and_then (pending_after pending h) (\<lambda>pending'.
     and_then (skip_payload h s1) (\<lambda>s2. skip s2 pending')))"
  by pat_completeness auto
termination
  by (relation "measure (left \<circ> fst)") (auto dest!: raw_head_left skip_payload_left)

lemma skip_left: "skip s n = Inr s' \<Longrightarrow> left s' \<le> left s"
proof (induction s n rule: skip.induct)
  case (2 s pending)
  then obtain h s1 p s2 where
    "raw_head s = Inr (h, s1)" "pending_after pending h = Inr p" "skip_payload h s1 = Inr s2" "skip s2 p = Inr s'"
    by (auto simp: and_then_Inr_iff)
  with 2(1) [of "(h, s1)" h s1 p s2] raw_head_left skip_payload_left show ?case by fastforce
qed simp

text \<open>The next head, attributes skipped.\<close>

function next_head :: "stream \<Rightarrow> wire_error + head \<times> stream" where
  "next_head s =
     and_then (raw_head s) (\<lambda>(h, s1).
       case h of
         RawHead head \<Rightarrow> Inr (head, s1)
       | Attribute len \<Rightarrow>
           and_then (elements MapAgg len) (\<lambda>n. and_then (skip s1 n) (\<lambda>s2. next_head s2)))"
  by pat_completeness auto
termination
  by (relation "measure left") (auto dest!: raw_head_left skip_left)

declare next_head.simps [simp del]

lemma next_head_left: "next_head s = Inr (h, s') \<Longrightarrow> left s' < left s"
proof (induction s rule: next_head.induct)
  case (1 s)
  obtain r s1 where raw: "raw_head s = Inr (r, s1)"
    using 1(2) by (subst (asm) next_head.simps) (auto simp: and_then_Inr_iff)
  show ?case
  proof (cases r)
    case (RawHead head)
    with 1(2) raw have "s' = s1" by (subst (asm) next_head.simps) simp
    with raw_head_left [OF raw] show ?thesis by simp
  next
    case (Attribute len)
    with 1(2) raw obtain n s2 where "elements MapAgg len = Inr n" "skip s1 n = Inr s2" "next_head s2 = Inr (h, s')"
      by (subst (asm) next_head.simps) (auto simp: and_then_Inr_iff)
    with 1(1) [OF raw refl Attribute] raw_head_left [OF raw] skip_left show ?thesis by fastforce
  qed
qed

subsection \<open>Values\<close>

datatype resp_value =
  VNull | VSimple string | VBulk clipped | VVerbatim string clipped | VInteger int | VDouble f64
| VBoolean bool | VBigNumber string | VError string | VList aggregate "resp_value list"
| VMap "(resp_value \<times> resp_value) list" | VElided aggregate nat

definition split_verbatim :: "clipped \<Rightarrow> wire_error + resp_value" where
  "split_verbatim whole =
     (let bytes = clip_bytes whole in
      if 4 \<le> length bytes \<and> bytes ! 3 = CHR '':'' then
        Inr (VVerbatim (take 3 bytes) \<lparr>clip_bytes = drop 4 bytes, full_len = full_len whole - 4\<rparr>)
      else Inl (Malformed ''a verbatim string without its format''))"

type_synonym value_result = "wire_error + resp_value \<times> stream \<times> nat"

text \<open>The heads whose value is not an aggregate: the value, the stream, the budget its bytes leave.\<close>

fun scalar :: "stream \<Rightarrow> head \<Rightarrow> nat \<Rightarrow> value_result" where
  "scalar s (HSimple t) budget = Inr (VSimple t, s, budget - length t)"
| "scalar s (HError t) budget = Inr (VError t, s, budget - length t)"
| "scalar s (HBulkError len) budget =
     and_then (bulk s len (min budget max_line))
       (\<lambda>(c, s1). Inr (VError (clip_bytes c), s1, budget - length (clip_bytes c)))"
| "scalar s (HInteger n) budget = Inr (VInteger n, s, budget)"
| "scalar s (HDouble x) budget = Inr (VDouble x, s, budget)"
| "scalar s (HBoolean b) budget = Inr (VBoolean b, s, budget)"
| "scalar s (HBigNumber ds) budget = Inr (VBigNumber ds, s, budget - length ds)"
| "scalar s HNull budget = Inr (VNull, s, budget)"
| "scalar s (HBulk len) budget =
     and_then (bulk s len budget) (\<lambda>(c, s1). Inr (VBulk c, s1, budget - length (clip_bytes c)))"
| "scalar s (HVerbatim len) budget =
     and_then (bulk s len (budget + 4)) (\<lambda>(c, s1).
     and_then (split_verbatim c) (\<lambda>v. Inr (v, s1, budget - length (clip_bytes c))))"
| "scalar s (HAggregate kind len) budget =
     and_then (elements kind len) (\<lambda>n. and_then (skip s n) (\<lambda>s1. Inr (VElided kind len, s1, budget)))"

text \<open>The cost of a value itself is taken after its bytes.\<close>

definition charge :: "nat \<Rightarrow> value_result \<Rightarrow> value_result" where
  "charge cost r = and_then r (\<lambda>(v, s, budget). Inr (v, s, budget - cost))"

text \<open>
  One element after its head, the entries of a list, the pairs of a map: the three loops call each
  other one level deeper each time, up to \<open>max_depth\<close>. The entries read so far are an argument.
\<close>

text \<open>The levels left bound the recursion: an element is above its entries, they are above theirs.\<close>

definition element_level :: "nat \<Rightarrow> nat" where
  "element_level depth = 2 * (max_depth - depth)"

definition entries_level :: "nat \<Rightarrow> nat" where
  "entries_level depth = max 1 (2 * (max_depth - depth) - 1)"

lemma levels:
  "\<not> max_depth \<le> depth \<Longrightarrow> entries_level depth < element_level depth"
  "element_level (Suc depth) < entries_level depth"
  by (auto simp: element_level_def entries_level_def)

function (sequential) element :: "nat \<Rightarrow> stream \<Rightarrow> head \<Rightarrow> nat \<Rightarrow> nat \<Rightarrow> value_result"
  and items :: "nat \<Rightarrow> stream \<Rightarrow> aggregate \<Rightarrow> nat \<Rightarrow> nat \<Rightarrow> nat \<Rightarrow> resp_value list \<Rightarrow> value_result"
  and pairs :: "nat \<Rightarrow> stream \<Rightarrow> nat \<Rightarrow> nat \<Rightarrow> nat \<Rightarrow> (resp_value \<times> resp_value) list \<Rightarrow> value_result"
where
  "element cost s h depth budget =
     charge cost
       (case h of
          HAggregate kind len \<Rightarrow>
            if max_depth \<le> depth \<or> budget = 0 then scalar s h budget
            else if kind = MapAgg then pairs cost s len depth budget []
            else items cost s kind len depth budget []
        | _ \<Rightarrow> scalar s h budget)"
| "items cost s kind 0 depth budget acc = Inr (VList kind acc, s, budget)"
| "items cost s kind (Suc remaining) depth budget acc =
     (if budget = 0 then
        and_then (skip s (Suc remaining))
          (\<lambda>s1. Inr (VList kind (acc @ [VElided kind (Suc remaining)]), s1, budget))
      else
        and_then (next_head s) (\<lambda>(h, s1).
        and_then (element cost s1 h (Suc depth) budget) (\<lambda>(v, s2, budget2).
          items cost s2 kind remaining depth budget2 (acc @ [v]))))"
| "pairs cost s 0 depth budget acc = Inr (VMap acc, s, budget)"
| "pairs cost s (Suc remaining) depth budget acc =
     (if budget = 0 then
        and_then (elements MapAgg (Suc remaining)) (\<lambda>n.
        and_then (skip s n) (\<lambda>s1.
          Inr (VMap (acc @ [(VElided MapAgg (Suc remaining), VNull)]), s1, budget)))
      else
        and_then (next_head s) (\<lambda>(hk, s1).
        and_then (element cost s1 hk (Suc depth) budget) (\<lambda>(k, s2, budget2).
        and_then (next_head s2) (\<lambda>(hv, s3).
        and_then (element cost s3 hv (Suc depth) budget2) (\<lambda>(v, s4, budget4).
          pairs cost s4 remaining depth budget4 (acc @ [(k, v)]))))))"
  by pat_completeness auto

termination
  by (relation "measures [\<lambda>x. (case x of
        Inl (cost, s, h, depth, budget) \<Rightarrow> element_level depth
      | Inr (Inl (cost, s, kind, remaining, depth, budget, acc)) \<Rightarrow> entries_level depth
      | Inr (Inr (cost, s, remaining, depth, budget, acc)) \<Rightarrow> entries_level depth),
    \<lambda>x. (case x of
        Inl (cost, s, h, depth, budget) \<Rightarrow> 0
      | Inr (Inl (cost, s, kind, remaining, depth, budget, acc)) \<Rightarrow> remaining
      | Inr (Inr (cost, s, remaining, depth, budget, acc)) \<Rightarrow> remaining)]")
    (auto simp: levels)

definition rest_of :: "nat \<Rightarrow> stream \<Rightarrow> head \<Rightarrow> nat \<Rightarrow> value_result" where
  "rest_of cost s h budget = element cost s h 0 budget"

definition read_value :: "nat \<Rightarrow> stream \<Rightarrow> nat \<Rightarrow> value_result" where
  "read_value cost s budget = and_then (next_head s) (\<lambda>(h, s1). element cost s1 h 0 budget)"

subsection \<open>Every reading of an element ends at the same place\<close>

text \<open>The reference: the elements of a stream, passed over with no bound on what is pending.\<close>

definition entries :: "aggregate \<Rightarrow> nat \<Rightarrow> nat" where
  "entries kind len = (if kind = MapAgg then len * 2 else len)"

fun pending_all :: "nat \<Rightarrow> raw_kind \<Rightarrow> nat" where
  "pending_all pending (Attribute len) = entries MapAgg len + Suc pending"
| "pending_all pending (RawHead (HAggregate kind len)) = entries kind len + pending"
| "pending_all pending (RawHead h) = pending"

function skip_all :: "stream \<Rightarrow> nat \<Rightarrow> wire_error + stream" where
  "skip_all s 0 = Inr s"
| "skip_all s (Suc pending) =
     and_then (raw_head s) (\<lambda>(h, s1).
     and_then (skip_payload h s1) (\<lambda>s2. skip_all s2 (pending_all pending h)))"
  by pat_completeness auto
termination
  by (relation "measure (left \<circ> fst)") (auto dest!: raw_head_left skip_payload_left)

lemma elements_entries: "elements kind len = Inr n \<Longrightarrow> n = entries kind len"
  by (auto simp: elements_def entries_def split: if_splits)

lemma pending_after_all: "pending_after pending h = Inr n \<Longrightarrow> n = pending_all pending h"
  by (induction pending h rule: pending_after.induct)
    (auto simp: and_then_Inr_iff checked_pending_def dest!: elements_entries split: if_splits)

lemma skip_is_skip_all: "skip s n = Inr s' \<Longrightarrow> skip_all s n = Inr s'"
proof (induction s n rule: skip.induct)
  case (2 s pending)
  then obtain h s1 p s2 where run:
    "raw_head s = Inr (h, s1)" "pending_after pending h = Inr p" "skip_payload h s1 = Inr s2" "skip s2 p = Inr s'"
    by (auto simp: and_then_Inr_iff)
  with 2(1) [of "(h, s1)" h s1 p s2] pending_after_all [OF run(2)] show ?case by simp
qed simp

lemma pending_all_add: "pending_all (m + n) h = pending_all m h + n"
  by (induction m h rule: pending_all.induct) simp_all

lemma skip_all_add: "skip_all s (m + n) = and_then (skip_all s m) (\<lambda>s'. skip_all s' n)"
proof (induction s m rule: skip_all.induct)
  case (2 s pending)
  show ?case
  proof (cases "raw_head s")
    case (Inr x)
    obtain h s1 where x: "x = (h, s1)" by fastforce
    show ?thesis
    proof (cases "skip_payload h s1")
      case (Inr s2)
      with 2 [OF \<open>raw_head s = Inr x\<close> x [symmetric] Inr] \<open>raw_head s = Inr x\<close> x show ?thesis
        by (simp add: pending_all_add)
    qed (use Inr x in simp)
  qed simp
qed simp

text \<open>What follows a head.\<close>

definition skip_rest :: "head \<Rightarrow> stream \<Rightarrow> wire_error + stream" where
  "skip_rest h s = and_then (skip_payload (RawHead h) s) (\<lambda>s1. skip_all s1 (pending_all 0 (RawHead h)))"

lemma skip_rest_aggregate [simp]: "skip_rest (HAggregate kind len) s = skip_all s (entries kind len)"
  by (simp add: skip_rest_def skip_payload_def)

lemma skip_all_left: "skip_all s n = Inr s' \<Longrightarrow> left s' \<le> left s"
proof (induction s n rule: skip_all.induct)
  case (2 s pending)
  then obtain h s1 s2 where "raw_head s = Inr (h, s1)" "skip_payload h s1 = Inr s2"
      "skip_all s2 (pending_all pending h) = Inr s'"
    by (auto simp: and_then_Inr_iff)
  with 2(1) [of "(h, s1)" h s1 s2] raw_head_left skip_payload_left show ?case by fastforce
qed simp

lemma skip_rest_left: "skip_rest h s = Inr s' \<Longrightarrow> left s' \<le> left s"
  by (auto simp: skip_rest_def and_then_Inr_iff dest!: skip_all_left skip_payload_left)

lemma pending_split: "pending_all n (RawHead h) = pending_all 0 (RawHead h) + n"
  using pending_all_add [of 0 n "RawHead h"] by simp

lemma next_head_skip:
  "next_head s = Inr (h, s') \<Longrightarrow> skip_all s (Suc n) = and_then (skip_rest h s') (\<lambda>s''. skip_all s'' n)"
proof (induction s rule: next_head.induct)
  case (1 s)
  obtain r s1 where raw: "raw_head s = Inr (r, s1)"
    using 1(2) by (subst (asm) next_head.simps) (auto simp: and_then_Inr_iff)
  show ?case
  proof (cases r)
    case (RawHead head)
    with 1(2) raw have "h = head" "s' = s1" by (subst (asm) next_head.simps, simp)+
    with raw RawHead show ?thesis
      by (cases "skip_payload (RawHead head) s1") (simp_all add: skip_rest_def skip_all_add pending_split [of n])
  next
    case (Attribute len)
    with 1(2) raw obtain m s2 where run: "elements MapAgg len = Inr m" "skip s1 m = Inr s2" "next_head s2 = Inr (h, s')"
      by (subst (asm) next_head.simps) (auto simp: and_then_Inr_iff)
    have "skip_all s (Suc n) = skip_all s1 (m + Suc n)"
      using raw Attribute elements_entries [OF run(1)] by (simp add: skip_payload_def)
    also have "\<dots> = skip_all s2 (Suc n)"
      using skip_is_skip_all [OF run(2)] by (simp only: skip_all_add and_then_simps)
    finally show ?thesis using 1(1) [OF raw refl Attribute run(1,2)] run(3) by simp
  qed
qed

lemma bulk_bytes_same:
  "bulk_bytes s n kept bytes = Inr (b, s') \<Longrightarrow> \<exists>b'. bulk_bytes s n kept' bytes' = Inr (b', s')"
  by (induction s n kept bytes arbitrary: bytes' rule: bulk_bytes.induct) (auto split: if_splits)

lemma bulk_same:
  assumes "bulk s n keep = Inr (c, s')"
  shows "\<exists>c'. bulk s n keep' = Inr (c', s')"
proof -
  obtain b s1 where run: "bulk_bytes s n (min n keep) [] = Inr (b, s1)" "terminator s1 = Inr s'"
    using assms by (auto simp: bulk_def and_then_Inr_iff)
  from bulk_bytes_same [OF run(1), of "min n keep'" "[]"] run(2) show ?thesis by (auto simp: bulk_def)
qed

lemma scalar_skip: "scalar s h budget = Inr (v, s', budget') \<Longrightarrow> skip_rest h s = Inr s'"
proof (induction s h budget rule: scalar.induct)
  case (3 s len budget)
  then obtain c where "bulk s len (min budget max_line) = Inr (c, s')" by (auto simp: and_then_Inr_iff)
  from bulk_same [OF this, of 0] show ?case by (auto simp: skip_rest_def skip_payload_def)
next
  case (9 s len budget)
  then obtain c where "bulk s len budget = Inr (c, s')" by (auto simp: and_then_Inr_iff)
  from bulk_same [OF this, of 0] show ?case by (auto simp: skip_rest_def skip_payload_def)
next
  case (10 s len budget)
  then obtain c where "bulk s len (budget + 4) = Inr (c, s')" by (auto simp: and_then_Inr_iff)
  from bulk_same [OF this, of 0] show ?case by (auto simp: skip_rest_def skip_payload_def)
next
  case (11 s kind len budget)
  then obtain n where "elements kind len = Inr n" "skip s n = Inr s'" by (auto simp: and_then_Inr_iff)
  with elements_entries skip_is_skip_all show ?case by fastforce
qed (auto simp: skip_rest_def skip_payload_def)

lemma charge_Inr: "charge cost r = Inr (v, s, b) \<longleftrightarrow> (\<exists>b'. r = Inr (v, s, b') \<and> b = b' - cost)"
  by (auto simp: charge_def and_then_Inr_iff)

declare element.simps [simp del] items.simps [simp del] pairs.simps [simp del]

lemma element_skips:
  "element cost s h depth budget = Inr (v, s', b') \<Longrightarrow> skip_rest h s = Inr s'"
  "items cost s kind remaining depth budget acc = Inr (w, s', b') \<Longrightarrow> skip_all s remaining = Inr s'"
  "pairs cost s remaining depth budget acc' = Inr (w, s', b') \<Longrightarrow> skip_all s (remaining * 2) = Inr s'"
proof (induction cost s h depth budget and cost s kind remaining depth budget acc
    and cost s remaining depth budget acc'
    arbitrary: v s' b' and w s' b' and w s' b' rule: element_items_pairs.induct)
  case (1 cost s h depth budget)
  show ?case
  proof (cases "\<exists>kind len. h = HAggregate kind len \<and> \<not> (max_depth \<le> depth \<or> budget = 0)")
    case True
    then obtain kind len where h: "h = HAggregate kind len" "\<not> (max_depth \<le> depth \<or> budget = 0)" by blast
    show ?thesis
    proof (cases "kind = MapAgg")
      case True
      with 1 h obtain b where "pairs cost s len depth budget [] = Inr (v, s', b)"
        by (auto simp: element.simps charge_Inr)
      from 1(1) [OF h True this] show ?thesis by (simp add: h(1) True entries_def)
    next
      case False
      with 1 h obtain b where "items cost s kind len depth budget [] = Inr (v, s', b)"
        by (auto simp: element.simps charge_Inr)
      from 1(2) [OF h False this] show ?thesis by (simp add: h(1) False entries_def)
    qed
  next
    case False
    with "1.prems" obtain b where "scalar s h budget = Inr (v, s', b)"
      by (cases h) (auto simp: element.simps charge_Inr)
    then show ?thesis by (rule scalar_skip)
  qed
next
  case (3 cost s kind remaining depth budget acc)
  show ?case
  proof (cases "budget = 0")
    case True
    with "3.prems" show ?thesis
      by (auto simp: items.simps and_then_Inr_iff simp del: skip.simps skip_all.simps dest: skip_is_skip_all)
  next
    case False
    with "3.prems" obtain h s1 x s2 b2 where run: "next_head s = Inr (h, s1)"
        "element cost s1 h (Suc depth) budget = Inr (x, s2, b2)"
        "items cost s2 kind remaining depth b2 (acc @ [x]) = Inr (w, s', b')"
      by (auto simp: items.simps and_then_Inr_iff)
    have "skip_all s (Suc remaining) = and_then (skip_rest h s1) (\<lambda>s''. skip_all s'' remaining)"
      by (rule next_head_skip [OF run(1)])
    with "3.IH"(1) [OF False run(1) refl run(2)] "3.IH"(2) [OF False run(1) refl run(2) refl refl run(3)]
    show ?thesis by simp
  qed
next
  case (5 cost s remaining depth budget acc)
  show ?case
  proof (cases "budget = 0")
    case True
    with "5.prems" show ?thesis
      by (auto simp: pairs.simps and_then_Inr_iff entries_def dest!: skip_is_skip_all elements_entries)
  next
    case False
    with "5.prems" obtain hk s1 k s2 b2 hv s3 x s4 b4 where run: "next_head s = Inr (hk, s1)"
        "element cost s1 hk (Suc depth) budget = Inr (k, s2, b2)" "next_head s2 = Inr (hv, s3)"
        "element cost s3 hv (Suc depth) b2 = Inr (x, s4, b4)"
        "pairs cost s4 remaining depth b4 (acc @ [(k, x)]) = Inr (w, s', b')"
      by (auto simp: pairs.simps and_then_Inr_iff)
    have "skip_all s (Suc (Suc (remaining * 2))) = and_then (skip_rest hk s1) (\<lambda>s''. skip_all s'' (Suc (remaining * 2)))"
      by (rule next_head_skip [OF run(1)])
    also have "skip_rest hk s1 = Inr s2" by (rule "5.IH"(1) [OF False run(1) refl run(2)])
    also have "and_then (Inr s2) (\<lambda>s''. skip_all s'' (Suc (remaining * 2)))
        = and_then (skip_rest hv s3) (\<lambda>s''. skip_all s'' (remaining * 2))"
      using next_head_skip [OF run(3)] by simp
    also have "skip_rest hv s3 = Inr s4"
      by (rule "5.IH"(2) [OF False run(1) refl run(2) refl refl run(3) refl run(4)])
    finally show ?thesis
      using "5.IH"(3) [OF False run(1) refl run(2) refl refl run(3) refl run(4) refl refl run(5)] by simp
  qed
qed (simp_all add: items.simps pairs.simps)

theorem values_end_where_the_element_ends:
  assumes "read_value cost s budget = Inr (v, s', budget')"
  shows "skip_all s 1 = Inr s' \<and> left s' < left s"
proof -
  obtain h s1 where run: "next_head s = Inr (h, s1)" "element cost s1 h 0 budget = Inr (v, s', budget')"
    using assms by (auto simp: read_value_def and_then_Inr_iff)
  have one: "skip_all s (Suc 0) = Inr s'"
    using next_head_skip [OF run(1), of 0] element_skips(1) [OF run(2)] by simp
  have "left s' \<le> left s1" using skip_rest_left [OF element_skips(1) [OF run(2)]] .
  with one next_head_left [OF run(1)] show ?thesis by simp
qed

subsection \<open>What a budget keeps\<close>

text \<open>The bytes a value holds.\<close>

fun kept :: "resp_value \<Rightarrow> nat" where
  "kept (VSimple t) = length t"
| "kept (VBulk c) = length (clip_bytes c)"
| "kept (VVerbatim format c) = length format + length (clip_bytes c)"
| "kept (VBigNumber ds) = length ds"
| "kept (VError t) = length t"
| "kept (VList kind vs) = sum_list (map kept vs)"
| "kept (VMap ps) = sum_list (map (\<lambda>(k, v). kept k + kept v) ps)"
| "kept v = 0"

text \<open>A line that carries its value is no longer than a line may be.\<close>

fun line_value :: "head \<Rightarrow> string" where
  "line_value (HSimple t) = t"
| "line_value (HError t) = t"
| "line_value (HBigNumber ds) = ds"
| "line_value h = []"

lemma read_line_bound: "read_line s line = Inr (l, s') \<Longrightarrow> length l \<le> max_line"
proof (induction s line rule: read_line.induct)
  case (3 available s line)
  then show ?case
    by (auto simp: and_then_Inr_iff end_line_def split: if_splits option.splits)
qed auto

lemma parse_length_line [simp]:
  "line_value (case n of None \<Rightarrow> HNull | Some n \<Rightarrow> HBulk n) = []"
  "line_value (case n of None \<Rightarrow> HNull | Some n \<Rightarrow> HAggregate kind n) = []"
  by (cases n; simp)+

lemma head_of_bound: "head_of line = Inr (RawHead h) \<Longrightarrow> length (line_value h) \<le> length line"
proof -
  assume a: "head_of line = Inr (RawHead h)"
  then obtain m rest where line: "line = m # rest" by (cases line) (auto simp: head_of_def)
  show ?thesis
  proof (cases "m = CHR ''(''")
    case True
    with a line obtain ds where "parse_big_number rest = Inr ds" "h = HBigNumber ds"
      by (cases "parse_big_number rest") (auto simp: head_of_def)
    then have "line_value h = rest" by (auto simp: parse_big_number_def Let_def split: if_splits)
    then show ?thesis by (simp add: line)
  next
    case False
    have "line_value h = [] \<or> line_value h = rest"
    proof -
      have *: "map_sum id (RawHead \<circ> f) r = Inr (RawHead h) \<Longrightarrow> \<exists>x. h = f x" for f and r :: "wire_error + 'x"
        by (cases r) auto
      have **: "map_sum id (\<lambda>n. RawHead (g n)) r = Inr (RawHead h) \<Longrightarrow> \<exists>x. h = g x" for g and r :: "wire_error + 'y"
        by (cases r) auto
      have ***: "map_sum id Attribute r \<noteq> Inr (RawHead h)" for r :: "wire_error + nat"
        by (cases r) auto
      from a False show ?thesis
        by (auto simp: head_of_def line *** split: if_splits dest!: * **)
    qed
    then show ?thesis by (auto simp: line)
  qed
qed

lemma next_head_bound: "next_head s = Inr (h, s') \<Longrightarrow> length (line_value h) \<le> max_line"
proof (induction s rule: next_head.induct)
  case (1 s)
  obtain r s1 where raw: "raw_head s = Inr (r, s1)"
    using 1(2) by (subst (asm) next_head.simps) (auto simp: and_then_Inr_iff)
  show ?case
  proof (cases r)
    case (RawHead head)
    with 1(2) raw have "h = head" by (subst (asm) next_head.simps) simp
    moreover obtain line where "read_line s [] = Inr (line, s1)" "head_of line = Inr r"
      using raw by (auto simp: raw_head_def and_then_Inr_iff)
    ultimately show ?thesis using RawHead head_of_bound read_line_bound by (metis le_trans)
  next
    case (Attribute len)
    with 1(2) raw obtain m s2 where run: "elements MapAgg len = Inr m" "skip s1 m = Inr s2" "next_head s2 = Inr (h, s')"
      by (subst (asm) next_head.simps) (auto simp: and_then_Inr_iff)
    from 1(1) [OF raw refl Attribute run(1,2,3)] show ?thesis .
  qed
qed

lemma bulk_bytes_bound:
  "bulk_bytes s n keep bytes = Inr (b, s') \<Longrightarrow> length bytes \<le> keep \<Longrightarrow> length b \<le> keep"
  by (induction s n keep bytes rule: bulk_bytes.induct) (auto split: if_splits)

lemma bulk_bound: "bulk s n keep = Inr (c, s') \<Longrightarrow> length (clip_bytes c) \<le> keep"
  by (auto simp: bulk_def and_then_Inr_iff dest!: bulk_bytes_bound)

text \<open>What a reading may keep past its budget: a line at each level.\<close>

definition within_budget :: "nat \<Rightarrow> nat \<Rightarrow> nat \<Rightarrow> nat \<Rightarrow> bool" where
  "within_budget slack budget held budget' \<longleftrightarrow>
     held + budget' \<le> budget + slack \<and> (0 < budget' \<longrightarrow> held + budget' \<le> budget)"

definition slack :: "nat \<Rightarrow> nat" where
  "slack depth = (max_depth + 1 - depth) * max_line"

lemma slack_Suc: "depth < max_depth \<Longrightarrow> slack depth = slack (Suc depth) + max_line"
proof -
  assume "depth < max_depth"
  then have "max_depth + 1 - depth = Suc (max_depth + 1 - Suc depth)" by simp
  then show ?thesis by (simp add: slack_def)
qed

lemma within_mono: "within_budget s b k b' \<Longrightarrow> s \<le> s' \<Longrightarrow> within_budget s' b k b'"
  by (auto simp: within_budget_def)

lemma scalar_within:
  assumes "scalar s h budget = Inr (v, s', b')" "length (line_value h) \<le> max_line"
  shows "within_budget max_line budget (kept v) b'"
proof -
  have four: "4 \<le> max_line" by (simp add: max_line_def)
  show ?thesis
    using assms four
  proof (induction s h budget rule: scalar.induct)
    case (3 s len budget)
    then show ?case by (auto simp: and_then_Inr_iff within_budget_def dest!: bulk_bound)
  next
    case (9 s len budget)
    then show ?case by (auto simp: and_then_Inr_iff within_budget_def dest!: bulk_bound)
  next
    case (10 s len budget)
    then obtain c where c: "bulk s len (budget + 4) = Inr (c, s')" "split_verbatim c = Inr v"
        "b' = budget - length (clip_bytes c)"
      by (auto simp: and_then_Inr_iff)
    have "kept v = length (clip_bytes c) - 1" "4 \<le> length (clip_bytes c)"
      using c(2) by (auto simp: split_verbatim_def Let_def split: if_splits)
    with bulk_bound [OF c(1)] c(3) 10(3) show ?case by (auto simp: within_budget_def)
  next
    case (11 s kind len budget)
    then show ?case by (auto simp: and_then_Inr_iff within_budget_def)
  qed (auto simp: within_budget_def)
qed

lemma within_charge: "within_budget s b k b' \<Longrightarrow> within_budget s b k (b' - cost)"
  by (auto simp: within_budget_def)

lemma within_step:
  assumes "within_budget sl b k b1" "0 < b1 \<Longrightarrow> within_budget sl b1 k' b2" "b1 = 0 \<Longrightarrow> k' = 0 \<and> b2 = 0"
  shows "within_budget sl b (k + k') b2"
  using assms by (cases "b1 = 0") (auto simp: within_budget_def)

lemma entries_exhausted:
  "items cost s kind remaining depth 0 acc = Inr (w, s', b') \<Longrightarrow> kept w = sum_list (map kept acc) \<and> b' = 0"
  "pairs cost s remaining depth 0 acc' = Inr (w, s', b')
    \<Longrightarrow> kept w = sum_list (map (\<lambda>(k, v). kept k + kept v) acc') \<and> b' = 0"
  by (cases remaining; force simp: items.simps pairs.simps and_then_Inr_iff)+

lemma element_exhausted:
  assumes "element cost s h depth 0 = Inr (v, s', b')" "length (line_value h) \<le> max_line"
  shows "kept v \<le> max_line \<and> b' = 0"
proof -
  have "element cost s h depth 0 = charge cost (scalar s h 0)" by (cases h) (simp_all add: element.simps)
  with assms(1) obtain b where "scalar s h 0 = Inr (v, s', b)" "b' = b - cost" by (auto simp: charge_Inr)
  with scalar_within [OF _ assms(2)] show ?thesis by (fastforce simp: within_budget_def)
qed

lemma slack_le: "depth \<le> max_depth \<Longrightarrow> max_line \<le> slack depth"
  by (simp add: slack_def Suc_diff_le)

lemma element_within:
  "element cost s h depth budget = Inr (v, s', b') \<Longrightarrow> depth \<le> max_depth \<Longrightarrow> length (line_value h) \<le> max_line
    \<Longrightarrow> within_budget (slack depth) budget (kept v) b'"
  "items cost s kind remaining depth budget acc = Inr (w, s', b') \<Longrightarrow> depth < max_depth
    \<Longrightarrow> \<exists>k. kept w = sum_list (map kept acc) + k \<and> within_budget (slack depth) budget k b'"
  "pairs cost s remaining depth budget acc' = Inr (w, s', b') \<Longrightarrow> depth < max_depth
    \<Longrightarrow> \<exists>k. kept w = sum_list (map (\<lambda>(k, v). kept k + kept v) acc') + k \<and> within_budget (slack depth) budget k b'"
proof (induction cost s h depth budget and cost s kind remaining depth budget acc
    and cost s remaining depth budget acc'
    arbitrary: v s' b' and w s' b' and w s' b' rule: element_items_pairs.induct)
  case (1 cost s h depth budget)
  show ?case
  proof (cases "\<exists>kind len. h = HAggregate kind len \<and> \<not> (max_depth \<le> depth \<or> budget = 0)")
    case True
    then obtain kind len where h: "h = HAggregate kind len" "\<not> (max_depth \<le> depth \<or> budget = 0)" by blast
    then have deep: "depth < max_depth" by simp
    show ?thesis
    proof (cases "kind = MapAgg")
      case True
      with 1 h obtain b where "pairs cost s len depth budget [] = Inr (v, s', b)" "b' = b - cost"
        by (auto simp: element.simps charge_Inr)
      with 1(1) [OF h True _ deep] show ?thesis by (auto intro: within_charge)
    next
      case False
      with 1 h obtain b where "items cost s kind len depth budget [] = Inr (v, s', b)" "b' = b - cost"
        by (auto simp: element.simps charge_Inr)
      with 1(2) [OF h False _ deep] show ?thesis by (auto intro: within_charge)
    qed
  next
    case False
    with "1.prems"(1) obtain b where "scalar s h budget = Inr (v, s', b)" "b' = b - cost"
      by (cases h) (auto simp: element.simps charge_Inr)
    with scalar_within "1.prems"(2,3) show ?thesis
      by (auto intro!: within_charge within_mono [OF _ slack_le])
  qed
next
  case (2 cost s kind depth budget acc)
  then show ?case by (auto simp: items.simps within_budget_def)
next
  case (3 cost s kind remaining depth budget acc)
  show ?case
  proof (cases "budget = 0")
    case True
    with "3.prems" entries_exhausted(1) show ?thesis by (fastforce simp: within_budget_def)
  next
    case False
    with "3.prems"(1) obtain h s1 x s2 b2 where run: "next_head s = Inr (h, s1)"
        "element cost s1 h (Suc depth) budget = Inr (x, s2, b2)"
        "items cost s2 kind remaining depth b2 (acc @ [x]) = Inr (w, s', b')"
      by (auto simp: items.simps and_then_Inr_iff)
    have "within_budget (slack (Suc depth)) budget (kept x) b2"
      using "3.IH"(1) [OF False run(1) refl run(2)] "3.prems"(2) next_head_bound [OF run(1)] by simp
    then have one: "within_budget (slack depth) budget (kept x) b2"
      using slack_Suc [OF "3.prems"(2)] by (auto intro: within_mono)
    obtain k where k: "kept w = sum_list (map kept (acc @ [x])) + k" "within_budget (slack depth) b2 k b'"
      using "3.IH"(2) [OF False run(1) refl run(2) refl refl run(3) "3.prems"(2)] by blast
    have "b2 = 0 \<Longrightarrow> k = 0 \<and> b' = 0" using entries_exhausted(1) [of cost s2 kind remaining depth] run(3) k(1) by auto
    with within_step [OF one k(2)] k(1) show ?thesis by (intro exI [of _ "kept x + k"]) simp
  qed
next
  case (4 cost s depth budget acc)
  then show ?case by (auto simp: pairs.simps within_budget_def)
next
  case (5 cost s remaining depth budget acc)
  show ?case
  proof (cases "budget = 0")
    case True
    with "5.prems" entries_exhausted(2) show ?thesis by (fastforce simp: within_budget_def)
  next
    case False
    with "5.prems"(1) obtain hk s1 k s2 b2 hv s3 x s4 b4 where run: "next_head s = Inr (hk, s1)"
        "element cost s1 hk (Suc depth) budget = Inr (k, s2, b2)" "next_head s2 = Inr (hv, s3)"
        "element cost s3 hv (Suc depth) b2 = Inr (x, s4, b4)"
        "pairs cost s4 remaining depth b4 (acc @ [(k, x)]) = Inr (w, s', b')"
      by (auto simp: pairs.simps and_then_Inr_iff)
    note heads = next_head_bound [OF run(1)] next_head_bound [OF run(3)]
    have key: "within_budget (slack (Suc depth)) budget (kept k) b2"
      using "5.IH"(1) [OF False run(1) refl run(2)] "5.prems"(2) heads by simp
    have val: "within_budget (slack (Suc depth)) b2 (kept x) b4"
      using "5.IH"(2) [OF False run(1) refl run(2) refl refl run(3) refl run(4)] "5.prems"(2) heads by simp
    have "b2 = 0 \<Longrightarrow> kept x \<le> max_line \<and> b4 = 0"
      using element_exhausted [of cost s3 hv "Suc depth" x s4 b4] run(4) heads by simp
    with key val have one: "within_budget (slack depth) budget (kept k + kept x) b4"
      using slack_Suc [OF "5.prems"(2)] by (cases "b2 = 0") (auto simp: within_budget_def)
    obtain m where m: "kept w = sum_list (map (\<lambda>(k, v). kept k + kept v) (acc @ [(k, x)])) + m"
        "within_budget (slack depth) b4 m b'"
      using "5.IH"(3) [OF False run(1) refl run(2) refl refl run(3) refl run(4) refl refl run(5) "5.prems"(2)] by blast
    have "b4 = 0 \<Longrightarrow> m = 0 \<and> b' = 0" using entries_exhausted(2) [of cost s4 remaining depth] run(5) m(1) by auto
    with within_step [OF one m(2)] m(1) show ?thesis by (intro exI [of _ "kept k + kept x + m"]) simp
  qed
qed

theorem values_keep_to_their_budget:
  assumes "read_value cost s budget = Inr (v, s', budget')"
  shows "kept v + budget' \<le> budget + (max_depth + 1) * max_line"
proof -
  obtain h s1 where run: "next_head s = Inr (h, s1)" "element cost s1 h 0 budget = Inr (v, s', budget')"
    using assms by (auto simp: read_value_def and_then_Inr_iff)
  from element_within(1) [OF run(2)] next_head_bound [OF run(1)] show ?thesis
    by (simp add: within_budget_def slack_def)
qed

text \<open>A line is kept whole, whatever the budget.\<close>

lemma lines_ignore_the_budget:
  "read_value cost [Chunk (''+'' @ t @ [cr, lf])] 0 = Inr (VSimple t, [], 0)"
  if "lf \<notin> set t" "length t < max_line" for t
proof -
  have "position lf (''+'' @ t @ [cr, lf]) = Some (length t + 2)"
    using that(1) by (induction t) auto
  with that(2) show ?thesis
    by (simp add: read_value_def next_head.simps raw_head_def end_line_def head_of_def element.simps
        charge_def butlast_append)
qed

subsection \<open>A command is read back as it was written\<close>

definition crlf :: string where "crlf = [cr, lf]"

definition encode :: "string list \<Rightarrow> string" where
  "encode argv =
     ''*'' @ decimal (length argv) @ crlf
     @ concat (map (\<lambda>arg. ''$'' @ decimal (length arg) @ crlf @ arg @ crlf) argv)"

text \<open>However the network cuts them, a line and a payload are read from the bytes alone.\<close>

lemma steady_Cons: "steady (f # s) \<longleftrightarrow> (\<exists>c. f = Chunk c \<and> c \<noteq> []) \<and> steady s"
  by (auto simp: steady_def)

lemma steady_Nil [simp]: "steady []"
  by (simp add: steady_def)

lemma steady_consume: "steady (Chunk c # s) \<Longrightarrow> steady (consume n (Chunk c # s))"
  by (auto simp: steady_Cons)

lemma steady_flat_Nil: "steady s \<Longrightarrow> flat s = [] \<longleftrightarrow> s = []"
  by (cases s) (auto simp: steady_Cons)

lemma position_append: "b \<notin> set m \<Longrightarrow> position b (m @ b # rest) = Some (length m)"
  by (induction m) auto

lemma read_line_flat:
  assumes "steady s" "flat s = m @ lf # rest" "lf \<notin> set m" "length (acc @ m) \<le> max_line"
  shows "\<exists>s'. steady s' \<and> flat s' = rest
    \<and> read_line s acc = and_then (end_line (acc @ m)) (\<lambda>whole. Inr (whole, s'))"
  using assms
proof (induction s arbitrary: m acc)
  case (Cons f s)
  obtain c where f: "f = Chunk c" "c \<noteq> []" "steady s" using Cons.prems(1) by (auto simp: steady_Cons)
  have bytes: "c @ flat s = m @ lf # rest" using Cons.prems(2) f(1) by simp
  show ?case
  proof (cases "position lf c")
    case None
    then have "lf \<notin> set c" by (simp add: position_None)
    from bytes obtain us where "m = c @ us \<and> flat s = us @ lf # rest \<or> c = m @ us \<and> us @ flat s = lf # rest"
      by (auto simp: append_eq_append_conv2)
    with \<open>lf \<notin> set c\<close> obtain m' where m': "m = c @ m'" "flat s = m' @ lf # rest"
      by (cases us) auto
    moreover have "\<not> max_line < length (acc @ c)" using Cons.prems(4) m'(1) by simp
    moreover obtain s' where "steady s'" "flat s' = rest"
        "read_line s (acc @ c) = and_then (end_line ((acc @ c) @ m')) (\<lambda>whole. Inr (whole, s'))"
      using Cons.IH [OF f(3) m'(2), of "acc @ c"] Cons.prems(3,4) m'(1) by auto
    ultimately show ?thesis using f None by (intro exI [of _ s']) simp
  next
    case (Some k)
    note k = position_SomeD [OF Some]
    have "c = take k c @ lf # drop (Suc k) c" using k id_take_nth_drop [of k c] by simp
    then have "m @ lf # rest = take k c @ lf # (drop (Suc k) c @ flat s)" using bytes by (metis append_assoc append_Cons)
    moreover from this have "length m = length (take k c)"
      using position_append [OF Cons.prems(3), of rest] position_append [of lf "take k c" "drop (Suc k) c @ flat s"] k
      by simp
    ultimately have m: "m = take k c" "rest = drop (k + 1) c @ flat s" by simp_all
    let ?s = "consume (k + 1) (Chunk c # s)"
    have "steady ?s" using Cons.prems(1) unfolding f(1) by (rule steady_consume)
    moreover have "flat ?s = rest" using flat_consume [of "k + 1" c s] k m by simp
    ultimately show ?thesis using f Some m by (intro exI [of _ ?s]) simp
  qed
qed simp

lemma next_byte_flat:
  assumes "steady s" "flat s = b # rest"
  shows "\<exists>s'. steady s' \<and> flat s' = rest \<and> next_byte s = Inr (b, s')"
proof (cases s)
  case (Cons f s1)
  then obtain d where d: "f = Chunk d" "d \<noteq> []" "d @ flat s1 = b # rest"
    using assms by (auto simp: steady_Cons)
  then obtain c where f: "f = Chunk (b # c)" "rest = c @ flat s1" by (cases d) auto
  with assms Cons show ?thesis
    using flat_consume [of 1 "b # c" s1] steady_consume [of "b # c" s1 1] by auto
qed (use assms in simp)

lemma terminator_flat:
  assumes "steady s" "flat s = crlf @ rest"
  shows "\<exists>s'. steady s' \<and> flat s' = rest \<and> terminator s = Inr s'"
proof -
  obtain s1 where s1: "steady s1" "flat s1 = lf # rest" "next_byte s = Inr (cr, s1)"
    using next_byte_flat [OF assms(1), of cr "lf # rest"] assms(2) by (auto simp: crlf_def)
  obtain s2 where "steady s2" "flat s2 = rest" "next_byte s1 = Inr (lf, s2)"
    using next_byte_flat [OF s1(1,2)] by blast
  with s1(3) show ?thesis by (auto simp: terminator_def)
qed

lemma bulk_bytes_chunk:
  "0 < remaining \<Longrightarrow> available \<noteq> [] \<Longrightarrow> bulk_bytes (Chunk available # s) remaining keep bytes =
    (if remaining < length available then
       Inr (bytes @ take (min (keep - length bytes) remaining) available, consume remaining (Chunk available # s))
     else bulk_bytes s (remaining - length available) keep
            (bytes @ take (min (keep - length bytes) (length available)) available))"
  by (cases remaining) simp_all

lemma bulk_bytes_flat:
  assumes "steady s" "flat s = p @ rest" "length bytes + length p \<le> keep"
  shows "\<exists>s'. steady s' \<and> flat s' = rest \<and> bulk_bytes s (length p) keep bytes = Inr (bytes @ p, s')"
  using assms
proof (induction s arbitrary: p bytes)
  case Nil
  then show ?case by simp
next
  case (Cons f s)
  obtain c where f: "f = Chunk c" "c \<noteq> []" "steady s" using Cons.prems(1) by (auto simp: steady_Cons)
  have all: "c @ flat s = p @ rest" using Cons.prems(2) f(1) by simp
  consider (none) "p = []" | (here) "p \<noteq> []" "length p < length c" | (on) "p \<noteq> []" "\<not> length p < length c"
    by blast
  then show ?case
  proof cases
    case none
    with Cons.prems show ?thesis by auto
  next
    case here
    with all obtain us where c: "c = p @ us" "rest = us @ flat s" "us \<noteq> []"
      by (auto simp: append_eq_append_conv2)
    have "bulk_bytes (Chunk c # s) (length p) keep bytes = Inr (bytes @ p, Chunk us # s)"
      using here f(2) Cons.prems(3) c by (subst bulk_bytes_chunk) auto
    moreover have "steady (Chunk us # s)" "flat (Chunk us # s) = rest" using f(3) c by (simp_all add: steady_Cons)
    ultimately show ?thesis using f(1) by blast
  next
    case on
    with all obtain q where p: "p = c @ q" "flat s = q @ rest" by (auto simp: append_eq_append_conv2)
    have "bulk_bytes (Chunk c # s) (length p) keep bytes = bulk_bytes s (length q) keep (bytes @ c)"
      using on f(2) Cons.prems(3) p(1) by (subst bulk_bytes_chunk) auto
    with Cons.IH [OF f(3) p(2), of "bytes @ c"] Cons.prems(3) p(1) f(1) show ?thesis by auto
  qed
qed

lemma bulk_flat:
  assumes "steady s" "flat s = p @ crlf @ rest" "length p \<le> keep"
  shows "\<exists>s'. steady s' \<and> flat s' = rest \<and> bulk s (length p) keep = Inr (\<lparr>clip_bytes = p, full_len = length p\<rparr>, s')"
proof -
  obtain s1 where s1: "steady s1" "flat s1 = crlf @ rest"
      "bulk_bytes s (length p) (min (length p) keep) [] = Inr ([] @ p, s1)"
    using bulk_bytes_flat [OF assms(1,2), of "[]" "min (length p) keep"] assms(3) by auto
  with terminator_flat [OF s1(1,2)] show ?thesis by (auto simp: bulk_def)
qed

lemma length_decimal: "n < 10 ^ k \<Longrightarrow> 0 < k \<Longrightarrow> length (decimal n) \<le> k"
proof (induction n arbitrary: k rule: decimal.induct)
  case (1 n)
  show ?case
  proof (cases "n < 10")
    case True
    with 1 show ?thesis by (subst decimal.simps) simp
  next
    case False
    with 1(2) have "k \<noteq> 1" by auto
    with 1(3) obtain j where j: "k = Suc j" "0 < j" by (cases k) auto
    with 1(2) have "n div 10 < 10 ^ j" by (simp add: less_mult_imp_div_less mult.commute)
    with 1(1) [OF False _ j(2)] False j(1) show ?thesis by (subst decimal.simps) simp
  qed
qed

lemma decimal_line:
  assumes "n < 2 ^ 64"
  shows "parse_length (decimal n) = Inr (Some n)" "lf \<notin> set (decimal n)" "length (decimal n) \<le> 20"
proof -
  have digits: "list_all is_ascii_digit (decimal n)" "decimal n \<noteq> []" using decimal_digits [of n] by simp_all
  then have "c \<in> set (decimal n) \<Longrightarrow> 48 \<le> byte c \<and> byte c \<le> 57" for c
    by (auto simp: list_all_iff is_ascii_digit_def)
  then have "CHR ''?'' \<notin> set (decimal n)" "CHR ''-'' \<notin> set (decimal n)" and lf: "lf \<notin> set (decimal n)"
    by (force simp: byte_def)+
  then have "decimal n \<noteq> ''?''" "decimal n \<noteq> ''-1''" by auto
  with digits assms show "parse_length (decimal n) = Inr (Some n)" by (simp add: parse_length_def)
  show "lf \<notin> set (decimal n)" by (rule lf)
  have "n < 10 ^ 20" using assms by (rule less_le_trans) simp
  from length_decimal [OF this] show "length (decimal n) \<le> 20" by simp
qed

lemma raw_head_flat:
  assumes "steady s" "flat s = m # decimal n @ crlf @ rest" "n < 2 ^ 64" "m \<noteq> lf" "head_of (m # decimal n) = Inr h"
  shows "\<exists>s'. steady s' \<and> flat s' = rest \<and> raw_head s = Inr (h, s')"
proof -
  let ?m = "m # decimal n @ [cr]"
  have "lf \<notin> set ?m" using decimal_line(2) [OF assms(3)] assms(4) by simp
  moreover have "length ([] @ ?m) \<le> max_line"
    using decimal_line(3) [OF assms(3)] by (simp add: max_line_def)
  moreover have "flat s = ?m @ lf # rest" using assms(2) by (simp add: crlf_def)
  ultimately obtain s' where s': "steady s'" "flat s' = rest"
      "read_line s [] = and_then (end_line ([] @ ?m)) (\<lambda>whole. Inr (whole, s'))"
    using read_line_flat [OF assms(1)] by blast
  moreover have "end_line ([] @ ?m) = Inr (m # decimal n)"
    using decimal_line(3) [OF assms(3)] by (simp add: end_line_def max_line_def butlast_append)
  ultimately show ?thesis using assms(5) by (auto simp: raw_head_def)
qed

lemma argument_heads:
  "n < 2 ^ 64 \<Longrightarrow> head_of (CHR ''$'' # decimal n) = Inr (RawHead (HBulk n))"
  "n < 2 ^ 64 \<Longrightarrow> head_of (CHR ''*'' # decimal n) = Inr (RawHead (HAggregate ArrayAgg n))"
  by (simp_all add: head_of_def decimal_line)

definition payload :: "nat \<Rightarrow> string list \<Rightarrow> nat" where
  "payload cost argv = sum_list (map (\<lambda>arg. length arg + cost) argv)"

definition whole_bulk :: "string \<Rightarrow> resp_value" where
  "whole_bulk arg = VBulk \<lparr>clip_bytes = arg, full_len = length arg\<rparr>"

lemma items_encoded:
  assumes "steady s" "payload cost argv < budget" "\<forall>arg \<in> set argv. length arg < 2 ^ 64"
    and "flat s = concat (map (\<lambda>arg. ''$'' @ decimal (length arg) @ crlf @ arg @ crlf) argv) @ rest"
  shows "\<exists>s'. steady s' \<and> flat s' = rest
    \<and> items cost s ArrayAgg (length argv) depth budget acc
      = Inr (VList ArrayAgg (acc @ map whole_bulk argv), s', budget - payload cost argv)"
  using assms
proof (induction argv arbitrary: s budget acc)
  case Nil
  then show ?case by (auto simp: items.simps payload_def)
next
  case (Cons arg argv)
  let ?more = "concat (map (\<lambda>arg. ''$'' @ decimal (length arg) @ crlf @ arg @ crlf) argv) @ rest"
  have len: "length arg < 2 ^ 64" using Cons.prems(3) by simp
  have bytes: "flat s = CHR ''$'' # decimal (length arg) @ crlf @ (arg @ crlf @ ?more)"
    using Cons.prems(4) by simp
  obtain s1 where s1: "steady s1" "flat s1 = arg @ crlf @ ?more" "raw_head s = Inr (RawHead (HBulk (length arg)), s1)"
    using raw_head_flat [OF Cons.prems(1) bytes len _ argument_heads(1) [OF len]] by auto
  have pay: "payload cost (arg # argv) = length arg + cost + payload cost argv" by (simp add: payload_def)
  obtain s2 where s2: "steady s2" "flat s2 = ?more"
      "bulk s1 (length arg) budget = Inr (\<lparr>clip_bytes = arg, full_len = length arg\<rparr>, s2)"
    using bulk_flat [OF s1(1,2), of budget] Cons.prems(2) pay by auto
  have el: "element cost s1 (HBulk (length arg)) (Suc depth) budget
      = Inr (whole_bulk arg, s2, budget - length arg - cost)"
    using s2(3) by (simp add: element.simps charge_def whole_bulk_def)
  have "payload cost argv < budget - length arg - cost" using Cons.prems(2) pay by linarith
  from Cons.IH [OF s2(1) this, of "acc @ [whole_bulk arg]"] Cons.prems(3) s2(2)
  obtain s' where "steady s'" "flat s' = rest"
      "items cost s2 ArrayAgg (length argv) depth (budget - length arg - cost) (acc @ [whole_bulk arg])
        = Inr (VList ArrayAgg (acc @ map whole_bulk (arg # argv)), s', budget - length arg - cost - payload cost argv)"
    by auto
  moreover have "budget - length arg - cost - payload cost argv = budget - payload cost (arg # argv)"
    using pay by simp
  moreover have "next_head s = Inr (HBulk (length arg), s1)" by (simp add: next_head.simps s1(3))
  moreover have "budget \<noteq> 0" using Cons.prems(2) by simp
  ultimately show ?case using el by (intro exI [of _ s']) (simp add: items.simps)
qed

theorem commands_read_back:
  assumes "steady s" "flat s = encode argv @ rest" "payload cost argv < budget"
    and "length argv < 2 ^ 64" "\<forall>arg \<in> set argv. length arg < 2 ^ 64"
  shows "\<exists>s'. steady s' \<and> flat s' = rest
    \<and> read_value cost s budget
      = Inr (VList ArrayAgg (map whole_bulk argv), s', budget - payload cost argv - cost)"
proof -
  let ?args = "concat (map (\<lambda>arg. ''$'' @ decimal (length arg) @ crlf @ arg @ crlf) argv)"
  have bytes: "flat s = CHR ''*'' # decimal (length argv) @ crlf @ (?args @ rest)"
    using assms(2) by (simp add: encode_def)
  obtain s1 where s1: "steady s1" "flat s1 = ?args @ rest"
      "raw_head s = Inr (RawHead (HAggregate ArrayAgg (length argv)), s1)"
    using raw_head_flat [OF assms(1) bytes assms(4) _ argument_heads(2) [OF assms(4)]] by auto
  obtain s' where s': "steady s'" "flat s' = rest" "items cost s1 ArrayAgg (length argv) 0 budget []
      = Inr (VList ArrayAgg (map whole_bulk argv), s', budget - payload cost argv)"
    using items_encoded [OF s1(1) assms(3,5) s1(2), of 0 "[]"] by auto
  moreover have "next_head s = Inr (HAggregate ArrayAgg (length argv), s1)" by (simp add: next_head.simps s1(3))
  moreover have "budget \<noteq> 0" using assms(3) by simp
  ultimately show ?thesis
    by (intro exI [of _ s']) (simp add: read_value_def element.simps charge_def max_depth_def)
qed

text \<open>The longest line a driver accepts is read when it comes whole, and refused when the network cuts it
  between its two last bytes.\<close>

lemma longest_line_depends_on_the_cut:
  assumes "length t = max_line" "lf \<notin> set t"
  shows "read_line [Chunk (t @ [cr, lf])] [] = Inr (t, [])"
    and "read_line [Chunk (t @ [cr]), Chunk [lf]] []
      = Inl (Malformed ''a line longer than the driver accepts'')"
proof -
  have "position lf (t @ [cr, lf]) = Some (Suc (length t))"
    using position_append [of lf "t @ [cr]" "[]"] assms(2) by simp
  with assms(1) show "read_line [Chunk (t @ [cr, lf])] [] = Inr (t, [])"
    by (simp add: end_line_def)
  have "position lf (t @ [cr]) = None" using assms(2) by (simp add: position_None)
  with assms(1) show "read_line [Chunk (t @ [cr]), Chunk [lf]] []
      = Inl (Malformed ''a line longer than the driver accepts'')"
    by simp
qed

subsection \<open>A line as long as the command it shows\<close>

text \<open>\<open>MONITOR\<close>'s simple strings: the bytes kept, the length seen, the last byte before the line feed.\<close>

fun long_line :: "stream \<Rightarrow> nat \<Rightarrow> string \<Rightarrow> nat \<Rightarrow> char option \<Rightarrow> wire_error + (string \<times> nat \<times> char option) \<times> stream"
where
  "long_line [] keep bytes len end_byte = Inl WireTruncated"
| "long_line (Broken f # s) keep bytes len end_byte = Inl (wire_io f)"
| "long_line (Chunk available # s) keep bytes len end_byte =
     (if available = [] then Inl WireTruncated
      else
        let stop = position lf available;
            part = (case stop of None \<Rightarrow> length available | Some k \<Rightarrow> k);
            bytes' = bytes @ take (min (keep - length bytes) part) available;
            end' = (if part = 0 then end_byte else get_at available (part - 1));
            len' = min (len + part) (2 ^ 64 - 1)
        in case stop of
             Some k \<Rightarrow> Inr ((bytes', len', end'), consume (k + 1) (Chunk available # s))
           | None \<Rightarrow> long_line s keep bytes' len' end')"

definition long_line_value :: "nat \<Rightarrow> nat \<Rightarrow> stream \<Rightarrow> nat \<Rightarrow> value_result" where
  "long_line_value cost keep s budget =
     and_then (fill_buf s) (\<lambda>available.
       if get_at available 0 \<noteq> Some (CHR ''+'') then read_value cost s budget
       else
         and_then (long_line (consume 1 s) keep [] 0 None) (\<lambda>((bytes, len, end_byte), s1).
           if end_byte \<noteq> Some cr then Inl (Malformed ''a line feed without a carriage return'')
           else
             let whole = len - 1; bytes' = (if whole < length bytes then butlast bytes else bytes)
             in Inr (VBulk \<lparr>clip_bytes = bytes', full_len = whole\<rparr>, s1, budget)))"

text \<open>It keeps a prefix of the line, and says how long the line was.\<close>

lemma long_line_flat:
  assumes "steady s" "flat s = m @ lf # rest" "lf \<notin> set m" "len + length m < 2 ^ 64" "length bytes \<le> keep"
  shows "\<exists>s'. steady s' \<and> flat s' = rest \<and> long_line s keep bytes len e
    = Inr ((bytes @ take (keep - length bytes) m, len + length m, if m = [] then e else Some (last m)), s')"
  using assms
proof (induction s arbitrary: m bytes len e)
  case (Cons f s)
  obtain c where f: "f = Chunk c" "c \<noteq> []" "steady s" using Cons.prems(1) by (auto simp: steady_Cons)
  have bytes: "c @ flat s = m @ lf # rest" using Cons.prems(2) f(1) by simp
  show ?case
  proof (cases "position lf c")
    case None
    then have no: "lf \<notin> set c" by (simp add: position_None)
    from bytes obtain us where "m = c @ us \<and> flat s = us @ lf # rest \<or> c = m @ us \<and> us @ flat s = lf # rest"
      by (auto simp: append_eq_append_conv2)
    with no obtain m' where m': "m = c @ m'" "flat s = m' @ lf # rest" by (cases us) auto
    let ?bytes = "bytes @ take (keep - length bytes) c"
    have "len + length c + length m' < 2 ^ 64" using Cons.prems(4) m'(1) by simp
    moreover have "length ?bytes \<le> keep" using Cons.prems(5) by simp
    moreover have "get_at c (length c - 1) = Some (last c)" using f(2) by (simp add: get_at_def last_conv_nth)
    moreover have "?bytes @ take (keep - length ?bytes) m' = bytes @ take (keep - length bytes) m"
      by (cases "length c \<le> keep - length bytes") (simp_all add: m'(1))
    ultimately show ?thesis
      using Cons.IH [OF f(3) m'(2), of "len + length c" ?bytes "Some (last c)"] Cons.prems(3) f None m'(1)
      by (auto simp: Let_def min_def)
  next
    case (Some k)
    note k = position_SomeD [OF Some]
    have "c = take k c @ lf # drop (Suc k) c" using k id_take_nth_drop [of k c] by simp
    then have "m @ lf # rest = take k c @ lf # (drop (Suc k) c @ flat s)" using bytes by (metis append_assoc append_Cons)
    moreover from this have "length m = length (take k c)"
      using position_append [OF Cons.prems(3), of rest] position_append [of lf "take k c" "drop (Suc k) c @ flat s"] k
      by simp
    ultimately have m: "m = take k c" "rest = drop (k + 1) c @ flat s" by simp_all
    let ?s = "consume (k + 1) (Chunk c # s)"
    have "steady ?s" using Cons.prems(1) unfolding f(1) by (rule steady_consume)
    moreover have "flat ?s = rest" using flat_consume [of "k + 1" c s] k m by simp
    moreover have "long_line (Chunk c # s) keep bytes len e
        = Inr ((bytes @ take (keep - length bytes) m, len + length m, if m = [] then e else Some (last m)), ?s)"
      using f(2) Some k Cons.prems(4) m(1)
      by (auto simp: Let_def min_def get_at_def last_conv_nth take_all_iff)
    ultimately show ?thesis using f(1) by blast
  qed
qed simp

theorem long_lines_keep_a_prefix:
  assumes "steady s" "flat s = CHR ''+'' # t @ crlf @ rest" "lf \<notin> set t" "length t + 1 < 2 ^ 64"
  shows "\<exists>s'. steady s' \<and> flat s' = rest \<and> long_line_value cost keep s budget
    = Inr (VBulk \<lparr>clip_bytes = take keep t, full_len = length t\<rparr>, s', budget)"
proof -
  obtain c s0 where s: "s = Chunk (CHR ''+'' # c) # s0" "c @ flat s0 = t @ crlf @ rest"
  proof (cases s)
    case (Cons f s0)
    then obtain d where "f = Chunk d" "d \<noteq> []" "d @ flat s0 = CHR ''+'' # t @ crlf @ rest"
      using assms by (auto simp: steady_Cons)
    with Cons that show ?thesis by (cases d) auto
  qed (use assms(2) in simp)
  let ?s = "consume 1 s"
  have "steady ?s" using assms(1) s(1) by (simp only: steady_consume)
  moreover have "flat ?s = (t @ [cr]) @ lf # rest"
    using s flat_consume [of 1 "CHR ''+'' # c" s0] by (simp add: crlf_def del: consume.simps)
  moreover have "lf \<notin> set (t @ [cr])" using assms(3) by simp
  ultimately obtain s' where s': "steady s'" "flat s' = rest"
      "long_line ?s keep [] 0 None = Inr (([] @ take keep (t @ [cr]), 0 + length (t @ [cr]), Some (last (t @ [cr]))), s')"
    using long_line_flat [of ?s "t @ [cr]" rest 0 "[]" keep None] assms(4) by auto
  have "(if length t < length (take keep (t @ [cr])) then butlast (take keep (t @ [cr])) else take keep (t @ [cr]))
      = take keep t"
    by (cases "keep \<le> length t") (auto simp: butlast_append)
  with s'(3) have "long_line_value cost keep s budget
      = Inr (VBulk \<lparr>clip_bytes = take keep t, full_len = length t\<rparr>, s', budget)"
    using s(1) by (simp add: long_line_value_def get_at_def Let_def del: consume.simps)
  with s' show ?thesis by blast
qed

end
