(* ===== verification/Redis_Argv.thy ===== *)
theory Redis_Argv
  imports Code_Points
begin

text \<open>
  A Redis command line, as \<open>redis-cli\<close> reads it (\<open>crates/oxyn-query/src/redis/argv.rs\<close>), and an
  argument written so that it reads back (\<open>drivers/oxyn-driver-redis/src/argv.rs\<close>). A reader takes
  the text that is left with its position, where the code keeps the whole text and an index.
\<close>

abbreviation double_quote :: char where "double_quote \<equiv> CHR 0x22"
abbreviation single_quote :: char where "single_quote \<equiv> CHR 0x27"
abbreviation backslash :: char where "backslash \<equiv> CHR 0x5C"
abbreviation line_feed :: char where "line_feed \<equiv> CHR 0x0A"

datatype argv_error = ArgvEmpty | Unterminated nat | GluedQuote nat | SecondCommand nat | Nul

record argument =
  arg_bytes :: string
  arg_start :: nat
  arg_end :: nat

datatype reading = Strict | Lenient

text \<open>\<open>isspace\<close> in the C locale; unquoted, only four of these end an argument.\<close>

definition is_space :: "char \<Rightarrow> bool" where
  "is_space c \<longleftrightarrow> byte c \<in> {0x20, 0x09, 0x0A, 0x0D, 0x0B, 0x0C}"

definition ends_argument :: "char \<Rightarrow> bool" where
  "ends_argument c \<longleftrightarrow> byte c \<in> {0x20, 0x0A, 0x0D, 0x09}"

definition hex_digit_byte :: "char \<Rightarrow> bool" where
  "hex_digit_byte c \<longleftrightarrow> in_ranges [(48, 57), (97, 102), (65, 70)] (byte c)"

definition hex_value :: "char \<Rightarrow> nat" where
  "hex_value c =
     (let b = byte c in
      if 48 \<le> b \<and> b \<le> 57 then b - 48
      else if 97 \<le> b \<and> b \<le> 102 then b - 97 + 10
      else if 65 \<le> b \<and> b \<le> 70 then b - 65 + 10
      else 0)"

text \<open>The byte \<open>\xHH\<close> writes, with what follows it, when the text goes on so.\<close>

fun hex_escape :: "string \<Rightarrow> (char \<times> string) option" where
  "hex_escape (x # high # low # rest) =
     (if x = CHR ''x'' \<and> hex_digit_byte high \<and> hex_digit_byte low
      then Some (char_of (hex_value high * 16 + hex_value low), rest) else None)"
| "hex_escape _ = None"

definition escaped :: "char \<Rightarrow> char" where
  "escaped c =
     (if c = CHR ''n'' then CHR 0x0A else if c = CHR ''r'' then CHR 0x0D
      else if c = CHR ''t'' then CHR 0x09 else if c = CHR ''b'' then CHR 0x08
      else if c = CHR ''a'' then CHR 0x07 else c)"

lemma length_hex_escape: "hex_escape cs = Some (b, rest) \<Longrightarrow> length cs = length rest + 3"
  by (induction cs rule: hex_escape.induct) (auto split: if_splits)

text \<open>One argument: its bytes, the position and the text after it.\<close>

function read_token ::
  "reading \<Rightarrow> string \<Rightarrow> nat \<Rightarrow> (char \<times> nat) option \<Rightarrow> string \<Rightarrow> argv_error + string \<times> nat \<times> string" where
  "read_token r [] i None current = Inr (current, i, [])"
| "read_token r [] i (Some (q, opened)) current =
     (if r = Lenient then Inr (current, i, []) else Inl (Unterminated opened))"
| "read_token r (c # cs) i None current =
     (if ends_argument c then Inr (current, i, c # cs)
      else if c = double_quote \<or> c = single_quote then read_token r cs (i + 1) (Some (c, i)) current
      else read_token r cs (i + 1) None (current @ [c]))"
| "read_token r (c # cs) i (Some (q, opened)) current =
     (if q = double_quote \<and> c = backslash then
        (case hex_escape cs of
           Some (b, rest) \<Rightarrow> read_token r rest (i + 4) (Some (q, opened)) (current @ [b])
         | None \<Rightarrow>
             (case cs of
                [] \<Rightarrow> read_token r [] (i + 1) (Some (q, opened)) (current @ [backslash])
              | e # rest \<Rightarrow> read_token r rest (i + 2) (Some (q, opened)) (current @ [escaped e])))
      else if q = single_quote \<and> c = backslash \<and> get_at cs 0 = Some single_quote then
        read_token r (tl cs) (i + 2) (Some (q, opened)) (current @ [single_quote])
      else if c = q then
        (if (case get_at cs 0 of None \<Rightarrow> False | Some d \<Rightarrow> \<not> is_space d) then
           (if r = Strict then Inl (GluedQuote i) else read_token r cs (i + 1) None current)
         else Inr (current, i + 1, cs))
      else read_token r cs (i + 1) (Some (q, opened)) (current @ [c]))"
  by pat_completeness auto
termination
  by (relation "measure (\<lambda>(r, cs, i, q, current). length cs)")
    (auto simp: get_at_def dest: length_hex_escape)

text \<open>Where the next argument starts, with the line breaks crossed.\<close>

definition skip_blanks :: "string \<Rightarrow> nat \<Rightarrow> string \<times> nat \<times> nat" where
  "skip_blanks cs i =
     (let blanks = takeWhile is_space cs
      in (dropWhile is_space cs, i + length blanks, count_list blanks line_feed))"

text \<open>What a reading consumed is what is missing from the text, and it consumed something.\<close>

definition follows :: "string \<Rightarrow> nat \<Rightarrow> string \<Rightarrow> nat \<Rightarrow> bool" where
  "follows cs i rest j \<longleftrightarrow> (\<exists>used. cs = used @ rest \<and> j = i + length used)"

lemma follows_refl [simp]: "follows cs i cs i"
  by (simp add: follows_def)

lemma follows_Cons: "follows cs (Suc i) rest j \<Longrightarrow> follows (c # cs) i rest j"
  unfolding follows_def by (metis add_Suc_shift append_Cons length_Cons)

lemma follows_trans: "follows cs i ds j \<Longrightarrow> follows ds j es k \<Longrightarrow> follows cs i es k"
  unfolding follows_def by (metis add.assoc append_assoc length_append)

lemma hex_escape_SomeD: "hex_escape cs = Some (b, rest) \<Longrightarrow> \<exists>x h l. cs = x # h # l # rest"
  by (induction cs rule: hex_escape.induct) (auto split: if_splits)

lemma token_follows:
  "read_token r cs i q current = Inr (arg, j, rest) \<Longrightarrow> follows cs i rest j"
proof (induction r cs i q current rule: read_token.induct)
  case (3 r c cs i current)
  then show ?case by (auto intro: follows_Cons split: if_splits)
next
  case (4 r c cs i q opened current)
  show ?case
  proof (cases "q = double_quote \<and> c = backslash")
    case escape: True
    show ?thesis
    proof (cases "hex_escape cs")
      case (Some br)
      obtain b after where br: "br = (b, after)" by fastforce
      have "follows after (i + 4) rest j" using "4.IH"(3) "4.prems" escape Some br by auto
      moreover obtain x h l where "cs = x # h # l # after" using Some br hex_escape_SomeD by blast
      ultimately show ?thesis by (auto intro!: follows_Cons simp: eval_nat_numeral)
    next
      case None
      with 4 escape show ?thesis by (cases cs) (auto intro!: follows_Cons)
    qed
  next
    case False
    show ?thesis
    proof (cases "q = single_quote \<and> c = backslash \<and> get_at cs 0 = Some single_quote")
      case True
      then obtain ds where "cs = single_quote # ds" by (cases cs) (auto simp: get_at_def)
      with 4 False True show ?thesis by (auto intro!: follows_Cons)
    next
      case plain: False
      show ?thesis
      proof (cases "c = q")
        case True
        with 4 False plain show ?thesis by (auto intro!: follows_Cons split: option.splits if_splits)
      next
        case other: False
        then have "read_token r cs (i + 1) (Some (q, opened)) (current @ [c]) = Inr (arg, j, rest)"
          using "4.prems" False plain by (simp only: read_token.simps if_False)
        with "4.IH"(6) other False plain show ?thesis by (auto intro!: follows_Cons)
      qed
    qed
  qed
qed (auto split: if_splits)

lemma token_progress:
  assumes "read_token r (c # cs) i None [] = Inr (arg, j, rest)" "\<not> is_space c"
  shows "follows cs (Suc i) rest j"
proof -
  have "\<not> ends_argument c" using assms(2) by (auto simp: is_space_def ends_argument_def)
  with assms(1) show ?thesis by (auto dest!: token_follows split: if_splits)
qed

lemma follows_length: "follows cs i rest j \<Longrightarrow> length rest \<le> length cs \<and> i \<le> j"
  by (auto simp: follows_def)

text \<open>\<open>parse\<close>: the arguments of a text that is one command.\<close>

function parse_from :: "string \<Rightarrow> nat \<Rightarrow> nat \<Rightarrow> string list \<Rightarrow> argv_error + string list" where
  "parse_from cs i line argv =
     (case skip_blanks cs i of (rest, start, breaks) \<Rightarrow>
        if rest = [] then (if argv = [] then Inl ArgvEmpty else Inr argv)
        else if 1 < line + breaks \<and> argv \<noteq> [] then Inl (SecondCommand (line + breaks))
        else (case read_token Strict rest start None [] of
                Inl e \<Rightarrow> Inl e
              | Inr (arg, j, rest') \<Rightarrow> parse_from rest' j (line + breaks) (argv @ [arg])))"
  by pat_completeness auto

lemma dropWhile_hd: "dropWhile P cs = c # rest \<Longrightarrow> \<not> P c"
  by (simp add: dropWhile_eq_Cons_conv)

lemma next_argument_shorter:
  assumes "skip_blanks cs i = (rest, start, breaks)" "rest \<noteq> []" "read_token r rest start None [] = Inr (arg, j, rest')"
  shows "length rest' < length cs"
proof -
  obtain c ds where "rest = c # ds" "\<not> is_space c" "length rest \<le> length cs"
    using assms(1,2) length_dropWhile_le [of is_space cs]
    by (cases rest) (auto simp: skip_blanks_def Let_def dest: dropWhile_hd)
  with token_progress follows_length assms(3) show ?thesis by fastforce
qed

termination parse_from
  by (relation "measure (\<lambda>(cs, i, line, argv). length cs)") (auto intro: next_argument_shorter [OF sym])

definition parse_argv :: "string \<Rightarrow> argv_error + string list" where
  "parse_argv text = (if CHR 0x00 \<in> set text then Inl Nul else parse_from text 0 1 [])"

text \<open>\<open>commands\<close>: every command of a text, never refused.\<close>

function commands_from :: "string \<Rightarrow> nat \<Rightarrow> argument list \<Rightarrow> argument list list \<Rightarrow> argument list list" where
  "commands_from cs i current found =
     (case skip_blanks cs i of (rest, start, breaks) \<Rightarrow>
        let ended = 0 < breaks \<and> current \<noteq> [];
            found' = (if ended then found @ [current] else found);
            current' = (if ended then [] else current);
            all = (if current' = [] then found' else found' @ [current'])
        in if rest = [] then all
           else (case read_token Lenient rest start None [] of
                   Inl e \<Rightarrow> all
                 | Inr (arg, j, rest') \<Rightarrow>
                     commands_from rest' j
                       (current' @ [\<lparr>arg_bytes = arg, arg_start = start, arg_end = j\<rparr>]) found'))"
  by pat_completeness auto
termination
  by (relation "measure (\<lambda>(cs, i, current, found). length cs)") (auto intro: next_argument_shorter [OF sym])

declare parse_from.simps [simp del] commands_from.simps [simp del]

definition redis_commands :: "string \<Rightarrow> argument list list" where
  "redis_commands text = commands_from text 0 [] []"

subsection \<open>One decoder\<close>

text \<open>What the strict reading accepts, the lenient one reads the same way.\<close>

lemma lenient_reads_strict: "read_token Strict cs i q current = Inr x \<Longrightarrow> read_token Lenient cs i q current = Inr x"
  by (induction Strict cs i q current rule: read_token.induct)
    (auto split: if_splits option.splits list.splits)

lemma commands_from_parse:
  assumes "parse_from cs i line argv = Inr out" "1 \<le> line" "map arg_bytes current = argv"
  shows "\<exists>args. commands_from cs i current found = found @ [args] \<and> map arg_bytes args = out"
  using assms
proof (induction cs i line argv arbitrary: current rule: parse_from.induct)
  case (1 cs i line argv)
  obtain rest start breaks where skip: "skip_blanks cs i = (rest, start, breaks)" by (metis prod_cases3)
  have empty: "current = [] \<longleftrightarrow> argv = []" using "1.prems"(3) by auto
  show ?case
  proof (cases "rest = []")
    case True
    with 1 skip empty show ?thesis
      by (auto simp: parse_from.simps [of cs] commands_from.simps [of cs] Let_def split: if_splits)
  next
    case False
    then have one: "\<not> (1 < line + breaks \<and> argv \<noteq> [])"
      using "1.prems"(1) skip by (fastforce simp: parse_from.simps [of cs])
    then obtain arg j rest' where tok: "read_token Strict rest start None [] = Inr (arg, j, rest')"
        "parse_from rest' j (line + breaks) (argv @ [arg]) = Inr out"
      using "1.prems"(1) skip False by (auto simp: parse_from.simps [of cs] split: sum.splits)
    have ended: "\<not> (0 < breaks \<and> current \<noteq> [])" using one "1.prems"(2) empty by auto
    let ?arg = "\<lparr>arg_bytes = arg, arg_start = start, arg_end = j\<rparr>"
    have "commands_from cs i current found = commands_from rest' j (current @ [?arg]) found"
      using skip False ended lenient_reads_strict [OF tok(1)]
      by (subst commands_from.simps) (simp add: Let_def if_not_P [OF ended] del: de_Morgan_conj)
    moreover have "1 \<le> line + breaks" using "1.prems"(2) by simp
    moreover have "map arg_bytes (current @ [?arg]) = argv @ [arg]" using "1.prems"(3) by simp
    ultimately show ?thesis
      using "1.IH" [OF skip [symmetric] refl False one tok(1) refl refl tok(2)] by metis
  qed
qed

lemma parse_argv_commands:
  assumes "parse_argv cs = Inr argv"
  shows "\<exists>args. redis_commands cs = [args] \<and> map arg_bytes args = argv"
  using assms commands_from_parse [of cs 0 1 "[]" argv "[]" "[]"]
  by (auto simp: parse_argv_def redis_commands_def split: if_splits)

lemma parse_argv_nonempty: "parse_argv line = Inr argv \<Longrightarrow> argv \<noteq> []"
proof -
  have "parse_from cs i n acc = Inr argv \<Longrightarrow> argv \<noteq> []" for cs i n acc
  proof (induction cs i n acc rule: parse_from.induct)
    case (1 cs i n acc)
    then show ?case
      by (subst (asm) parse_from.simps) (auto split: prod.splits if_splits sum.splits)
  qed
  then show "parse_argv line = Inr argv \<Longrightarrow> argv \<noteq> []"
    by (auto simp: parse_argv_def split: if_splits)
qed

text \<open>A line break before the command itself counts as one after it: a command of two words is refused
  when its text starts with one, and the lenient reading sees one command.\<close>

lemma leading_line_break_is_refused:
  "parse_argv (line_feed # ''GET k'') = Inl (SecondCommand 2)"
  "map (map arg_bytes) (redis_commands (line_feed # ''GET k'')) = [[''GET'', ''k'']]"
  by (simp_all add: parse_argv_def redis_commands_def parse_from.simps commands_from.simps skip_blanks_def
      is_space_def ends_argument_def byte_def Let_def)

subsection \<open>An argument that reads back\<close>

definition invisible_ranges :: "(nat \<times> nat) list" where
  "invisible_ranges =
     [(0x00AD, 0x00AD), (0x061C, 0x061C), (0x180E, 0x180E), (0x200B, 0x200F), (0x202A, 0x202E),
      (0x2060, 0x2064), (0x2066, 0x206F), (0xFEFF, 0xFEFF), (0xFFF9, 0xFFFB)]"

definition is_invisible :: "nat \<Rightarrow> bool" where
  "is_invisible p \<longleftrightarrow> in_ranges invisible_ranges p"

definition is_bare :: "nat \<Rightarrow> bool" where
  "is_bare p \<longleftrightarrow>
     \<not> is_control_point p \<and> \<not> is_white_point p \<and> \<not> is_invisible p \<and> p \<notin> {0x22, 0x27, 0x5C}"

definition hex_digit :: "nat \<Rightarrow> char" where
  "hex_digit n = (if n < 10 then char_of (48 + n) else char_of (87 + n))"

definition push_hex :: "char \<Rightarrow> string" where
  "push_hex c = [backslash, CHR ''x'', hex_digit (byte c div 16), hex_digit (byte c mod 16)]"

text \<open>What is written for one character, given by its bytes.\<close>

definition render_char :: "string \<Rightarrow> string" where
  "render_char s =
     (let p = point_of s in
      if p = 0x5C then [backslash, backslash]
      else if p = 0x22 then [backslash, double_quote]
      else if p = 0x0A then [backslash, CHR ''n'']
      else if p = 0x0D then [backslash, CHR ''r'']
      else if p = 0x09 then [backslash, CHR ''t'']
      else if p = 0x07 then [backslash, CHR ''a'']
      else if p = 0x08 then [backslash, CHR ''b'']
      else if is_control_point p \<or> is_invisible p then concat (map push_hex s)
      else s)"

text \<open>\<open>utf8_chunks\<close>: the characters where the bytes are UTF-8, each other byte on its own.\<close>

function render_bytes :: "string \<Rightarrow> string" where
  "render_bytes [] = []"
| "render_bytes (c # cs) =
     (case utf8_head (c # cs) of
        None \<Rightarrow> push_hex c @ render_bytes cs
      | Some s \<Rightarrow> render_char s @ render_bytes (drop (length s) (c # cs)))"
  by pat_completeness auto
termination
  by (relation "measure length") (auto dest: utf8_head_SomeD)

function all_chars :: "(nat \<Rightarrow> bool) \<Rightarrow> string \<Rightarrow> bool" where
  "all_chars P [] \<longleftrightarrow> True"
| "all_chars P (c # cs) \<longleftrightarrow>
     (case utf8_head (c # cs) of
        None \<Rightarrow> False
      | Some s \<Rightarrow> P (point_of s) \<and> all_chars P (drop (length s) (c # cs)))"
  by pat_completeness auto
termination
  by (relation "measure (length \<circ> snd)") (auto dest: utf8_head_SomeD)

definition render_arg :: "string \<Rightarrow> string" where
  "render_arg s =
     (if s \<noteq> [] \<and> all_chars is_bare s then s
      else [double_quote] @ render_bytes s @ [double_quote])"

text \<open>Inside double quotes, each piece is read back as its bytes.\<close>

definition reads_as :: "string \<Rightarrow> string \<Rightarrow> bool" where
  "reads_as piece s \<longleftrightarrow> (\<forall>i opened current rest.
     read_token Strict (piece @ rest) i (Some (double_quote, opened)) current
       = read_token Strict rest (i + length piece) (Some (double_quote, opened)) (current @ s))"

lemma reads_as_Nil: "reads_as [] []"
  by (simp add: reads_as_def)

lemma reads_as_append: "reads_as p s \<Longrightarrow> reads_as q t \<Longrightarrow> reads_as (p @ q) (s @ t)"
  by (simp add: reads_as_def add.assoc)

lemma reads_as_plain: "c \<noteq> double_quote \<Longrightarrow> c \<noteq> backslash \<Longrightarrow> reads_as [c] [c]"
  by (simp add: reads_as_def)

lemma reads_as_escape:
  assumes "e \<noteq> CHR ''x''"
  shows "reads_as [backslash, e] [escaped e]"
proof -
  have "hex_escape (e # rest) = None" for rest
    using assms by (cases rest; cases "tl rest") auto
  then show ?thesis by (simp add: reads_as_def)
qed

lemma hex_digits_value:
  assumes "n < 16"
  shows "hex_digit_byte (hex_digit n)" "hex_value (hex_digit n) = n"
proof -
  have "byte (hex_digit n) = (if n < 10 then 48 + n else 87 + n)"
    using assms by (simp add: hex_digit_def byte_def)
  with assms show "hex_digit_byte (hex_digit n)" "hex_value (hex_digit n) = n"
    by (simp_all add: hex_digit_byte_def hex_value_def in_ranges_def Let_def)
qed

lemma reads_as_hex: "reads_as (push_hex c) [c]"
proof -
  have "byte c div 16 < 16" "byte c mod 16 < 16" using byte_less_256 [of c] by presburger+
  moreover have "char_of (byte c div 16 * 16 + byte c mod 16) = c" by (simp add: byte_def)
  ultimately have "read_token Strict (push_hex c @ rest) i (Some (double_quote, opened)) current
      = read_token Strict rest (i + 4) (Some (double_quote, opened)) (current @ [c])" for rest i opened current
    by (simp add: push_hex_def hex_digits_value)
  moreover have "length (push_hex c) = 4" by (simp add: push_hex_def)
  ultimately show ?thesis by (simp only: reads_as_def) blast
qed

lemma reads_as_concat_hex: "reads_as (concat (map push_hex s)) s"
proof (induction s)
  case (Cons c s)
  from reads_as_append [OF reads_as_hex Cons, of c] show ?case by simp
qed (simp add: reads_as_Nil)

lemma reads_as_all_plain:
  "double_quote \<notin> set s \<Longrightarrow> backslash \<notin> set s \<Longrightarrow> reads_as s s"
proof (induction s)
  case (Cons c s)
  then show ?case using reads_as_append [OF reads_as_plain, of c s s] by auto
qed (simp add: reads_as_Nil)

lemma reads_as_render_char:
  assumes "utf8_head cs = Some s"
  shows "reads_as (render_char s) s"
proof (cases "point_of s \<in> {0x5C, 0x22, 0x0A, 0x0D, 0x09, 0x07, 0x08}")
  case True
  then obtain c where c: "s = [c]" "byte c = point_of s"
    using utf8_head_point [OF assms] by auto
  with True have "byte c \<in> byte ` {CHR 0x5C, CHR 0x22, CHR 0x0A, CHR 0x0D, CHR 0x09, CHR 0x07, CHR 0x08}"
    by (simp add: byte_def)
  then have "c \<in> {CHR 0x5C, CHR 0x22, CHR 0x0A, CHR 0x0D, CHR 0x09, CHR 0x07, CHR 0x08}"
    by (auto simp: byte_eq_iff)
  then show ?thesis
    using reads_as_escape [of backslash] reads_as_escape [of double_quote] reads_as_escape [of "CHR ''n''"]
      reads_as_escape [of "CHR ''r''"] reads_as_escape [of "CHR ''t''"] reads_as_escape [of "CHR ''a''"]
      reads_as_escape [of "CHR ''b''"]
    by (auto simp: c(1) render_char_def point_of_def byte_def escaped_def Let_def)
next
  case False
  show ?thesis
  proof (cases "is_control_point (point_of s) \<or> is_invisible (point_of s)")
    case True
    with False have "render_char s = concat (map push_hex s)" by (simp add: render_char_def Let_def)
    then show ?thesis by (simp add: reads_as_concat_hex)
  next
    case plain: False
    with False have "render_char s = s" by (simp add: render_char_def Let_def)
    moreover have "c \<noteq> double_quote \<and> c \<noteq> backslash" if "c \<in> set s" for c
      using utf8_head_ascii [OF assms that] False by (auto simp: byte_def)
    then have "double_quote \<notin> set s" "backslash \<notin> set s" by blast+
    ultimately show ?thesis by (simp add: reads_as_all_plain)
  qed
qed

lemma reads_as_render_bytes: "reads_as (render_bytes s) s"
proof (induction s rule: render_bytes.induct)
  case (2 c cs)
  show ?case
  proof (cases "utf8_head (c # cs)")
    case None
    with 2 reads_as_append [OF reads_as_hex, of _ cs c] show ?thesis by simp
  next
    case (Some s)
    obtain rest where rest: "c # cs = s @ rest" using utf8_head_SomeD [OF Some] by blast
    then have "reads_as (render_bytes rest) rest" using 2(2) [OF Some] by simp
    with reads_as_append [OF reads_as_render_char [OF Some]]
    have "reads_as (render_char s @ render_bytes rest) (c # cs)" by (simp only: rest)
    moreover have "render_bytes (c # cs) = render_char s @ render_bytes rest"
      using Some by (simp del: append_assoc) (simp add: rest)
    ultimately show ?thesis by (simp only:)
  qed
qed (simp add: reads_as_Nil)

text \<open>A bare argument is read as it is.\<close>

lemma all_chars_bytes: "all_chars P s \<Longrightarrow> c \<in> set s \<Longrightarrow> byte c < 0x80 \<Longrightarrow> P (byte c)"
proof (induction P s rule: all_chars.induct)
  case (2 P d cs)
  then obtain s where s: "utf8_head (d # cs) = Some s" "P (point_of s)" "all_chars P (drop (length s) (d # cs))"
    by (auto split: option.splits)
  obtain rest where rest: "d # cs = s @ rest" using utf8_head_SomeD [OF s(1)] by blast
  show ?case
  proof (cases "c \<in> set s")
    case True
    with utf8_head_ascii [OF s(1) True] s(2) 2 show ?thesis by auto
  next
    case False
    with "2.prems"(2) rest have "c \<in> set (drop (length s) (d # cs))" by (metis Un_iff append_eq_conv_conj set_append)
    with "2.IH" [OF s(1)] s(3) "2.prems"(3) show ?thesis by blast
  qed
qed simp

lemma special_not_bare: "b \<in> {0, 9, 10, 11, 12, 13, 32, 34, 39} \<Longrightarrow> \<not> is_bare b"
  by (elim insertE emptyE) (simp_all add: is_bare_def is_control_point_def is_white_point_def in_ranges_def)

lemma bare_byte:
  assumes "all_chars is_bare s" "c \<in> set s"
  shows "\<not> is_space c \<and> \<not> ends_argument c \<and> c \<noteq> double_quote \<and> c \<noteq> single_quote \<and> c \<noteq> CHR 0x00"
proof -
  have "byte c \<notin> {0, 9, 10, 11, 12, 13, 32, 34, 39}"
  proof (cases "byte c < 0x80")
    case True
    with all_chars_bytes [OF assms] have "is_bare (byte c)" by simp
    with special_not_bare show ?thesis by blast
  qed auto
  moreover have "byte double_quote = 34" "byte single_quote = 39" "byte (CHR 0x00) = 0"
    by (simp_all add: byte_def)
  ultimately show ?thesis by (auto simp: is_space_def ends_argument_def)
qed

lemma token_bare:
  "\<forall>c \<in> set s. \<not> ends_argument c \<and> c \<noteq> double_quote \<and> c \<noteq> single_quote
    \<Longrightarrow> read_token r s i None current = Inr (current @ s, i + length s, [])"
  by (induction s arbitrary: i current) auto

lemma nul_not_hex: "CHR 0x00 \<notin> set (push_hex c)"
proof -
  have nul: "\<not> hex_digit_byte (CHR 0x00)" by (simp add: hex_digit_byte_def in_ranges_def byte_def)
  have "byte c div 16 < 16" "byte c mod 16 < 16" using byte_less_256 [of c] by presburger+
  then have "hex_digit (byte c div 16) \<noteq> CHR 0x00" "hex_digit (byte c mod 16) \<noteq> CHR 0x00"
    using hex_digits_value(1) [of "byte c div 16"] hex_digits_value(1) [of "byte c mod 16"] nul by metis+
  then show ?thesis by (auto simp: push_hex_def)
qed

lemma nul_not_rendered: "CHR 0x00 \<notin> set (render_bytes s)"
proof (induction s rule: render_bytes.induct)
  case (2 c cs)
  show ?case
  proof (cases "utf8_head (c # cs)")
    case None
    with 2 nul_not_hex show ?thesis by simp
  next
    case (Some s)
    have "CHR 0x00 \<notin> set (render_char s)"
    proof (cases "CHR 0x00 \<in> set s")
      case True
      with utf8_head_ascii [OF Some True] show ?thesis
        by (auto simp: render_char_def byte_def is_control_point_def in_ranges_def nul_not_hex)
    next
      case False
      then show ?thesis by (auto simp: render_char_def Let_def nul_not_hex)
    qed
    with 2(2) [OF Some] Some show ?thesis by simp
  qed
qed simp

theorem rendered_reads_back: "parse_argv (render_arg s) = Inr [s]"
proof (cases "s \<noteq> [] \<and> all_chars is_bare s")
  case True
  then obtain c cs where s: "s = c # cs" by (cases s) auto
  have bytes: "\<forall>c \<in> set s. \<not> is_space c \<and> \<not> ends_argument c \<and> c \<noteq> double_quote \<and> c \<noteq> single_quote \<and> c \<noteq> CHR 0x00"
    using True bare_byte by blast
  then have "skip_blanks s 0 = (s, 0, 0)" by (simp add: skip_blanks_def s)
  moreover have "read_token Strict s 0 None [] = Inr (s, length s, [])"
    using token_bare [of s Strict 0 "[]"] bytes by simp
  moreover have "parse_from [] (length s) 1 [s] = Inr [s]"
    by (simp add: parse_from.simps skip_blanks_def)
  ultimately have "parse_from s 0 1 [] = Inr [s]"
    using s by (subst parse_from.simps) simp
  with True bytes show ?thesis by (auto simp: parse_argv_def render_arg_def)
next
  case False
  let ?quoted = "[double_quote] @ render_bytes s @ [double_quote]"
  have "read_token Strict ?quoted 0 None [] = read_token Strict (render_bytes s @ [double_quote]) 1 (Some (double_quote, 0)) []"
    by (simp add: ends_argument_def byte_def)
  also have "\<dots> = read_token Strict [double_quote] (1 + length (render_bytes s)) (Some (double_quote, 0)) s"
    using reads_as_render_bytes [of s] by (simp add: reads_as_def)
  also have "\<dots> = Inr (s, 2 + length (render_bytes s), [])"
    by (simp add: get_at_def)
  finally have tok: "read_token Strict ?quoted 0 None [] = Inr (s, 2 + length (render_bytes s), [])" .
  have "skip_blanks ?quoted 0 = (?quoted, 0, 0)" by (simp add: skip_blanks_def is_space_def byte_def)
  moreover have "parse_from [] (2 + length (render_bytes s)) 1 [s] = Inr [s]"
    by (simp add: parse_from.simps skip_blanks_def)
  ultimately have "parse_from ?quoted 0 1 [] = Inr [s]"
    using tok by (subst parse_from.simps) (simp del: read_token.simps)
  with False show ?thesis by (auto simp: parse_argv_def render_arg_def nul_not_rendered)
qed

end
