(* ===== verification/Lossy_Text.thy ===== *)
theory Lossy_Text
  imports Code_Points
begin

text \<open>
  Operations of \<open>String\<close> that several components call: \<open>from_utf8_lossy\<close>, \<open>contains\<close>, \<open>split\<close>.
\<close>

text \<open>The text of bytes that may not be UTF-8: each longest run of bytes that begins a character and
  does not end it becomes one replacement character.\<close>

definition replacement :: string where
  "replacement = [char_of (0xEF::nat), char_of (0xBF::nat), char_of (0xBD::nat)]"

text \<open>The bytes one replacement character stands for, at a byte that starts no character.\<close>

definition invalid_len :: "string \<Rightarrow> nat" where
  "invalid_len s =
     (let w = utf8_width (byte (hd s)) in
      if w < 2 \<or> length s < 2 \<or> \<not> second_byte_ok (byte (s ! 0)) (byte (s ! 1)) then 1
      else 2 + length (takeWhile is_continuation (take (w - 2) (drop 2 s))))"

lemma invalid_len_pos: "0 < invalid_len s"
  by (simp add: invalid_len_def Let_def)

function from_utf8_lossy :: "string \<Rightarrow> string" where
  "from_utf8_lossy s =
     (if s = [] then []
      else (case utf8_head s of
          Some p \<Rightarrow> p @ from_utf8_lossy (drop (length p) s)
        | None \<Rightarrow> replacement @ from_utf8_lossy (drop (invalid_len s) s)))"
  by pat_completeness auto
termination
  by (relation "measure length") (auto dest: utf8_head_SomeD simp: invalid_len_pos)

declare from_utf8_lossy.simps [simp del]

lemma from_utf8_lossy_Nil [simp]: "from_utf8_lossy [] = []"
  by (subst from_utf8_lossy.simps) simp

text \<open>A text comes back as it is.\<close>

lemma from_utf8_lossy_utf8: "is_utf8 s \<Longrightarrow> from_utf8_lossy s = s"
proof (induction s rule: is_utf8.induct)
  case (1 s)
  show ?case
  proof (cases "s = []")
    case False
    then obtain p where p: "utf8_head s = Some p" "is_utf8 (drop (length p) s)"
      using "1.prems" by (subst (asm) is_utf8.simps) (auto split: option.splits)
    then obtain rest where "s = p @ rest" using utf8_head_SomeD by blast
    moreover have "from_utf8_lossy (drop (length p) s) = drop (length p) s"
      using "1.IH" [OF p] .
    ultimately show ?thesis using False p(1) by (subst from_utf8_lossy.simps) simp
  qed simp
qed

lemma utf8_head_of_ascii: "byte c < 128 \<Longrightarrow> utf8_head (c # cs) = Some [c]"
  by (simp add: utf8_head_def Let_def utf8_width_def well_formed_def)

lemma from_utf8_lossy_ascii: "list_all (\<lambda>c. byte c < 128) s \<Longrightarrow> from_utf8_lossy s = s"
proof (induction s)
  case (Cons c s)
  then show ?case by (subst from_utf8_lossy.simps) (simp add: utf8_head_of_ascii)
qed simp

text \<open>\<open>contains\<close>.\<close>

definition contains_text :: "string \<Rightarrow> string \<Rightarrow> bool" where
  "contains_text s t \<longleftrightarrow> list_ex (\<lambda>k. starts_with (drop k s) t) [0..<length s + 1]"

lemma contains_text_iff: "contains_text s t \<longleftrightarrow> (\<exists>p q. s = p @ t @ q)"
proof
  assume "contains_text s t"
  then obtain k where "starts_with (drop k s) t" unfolding contains_text_def list_ex_iff by blast
  then have "take k s @ t @ drop (length t) (drop k s) = s"
    by (metis append_take_drop_id starts_with_def)
  then show "\<exists>p q. s = p @ t @ q" by metis
next
  assume "\<exists>p q. s = p @ t @ q"
  then obtain p q where "s = p @ t @ q" by blast
  then have "starts_with (drop (length p) s) t" "length p < length s + 1" by (simp_all add: starts_with_def)
  then show "contains_text s t"
    unfolding contains_text_def list_ex_iff set_upt by (metis atLeastLessThan_iff le0)
qed

text \<open>\<open>split\<close> at a character.\<close>

fun split_at :: "char \<Rightarrow> string \<Rightarrow> string list" where
  "split_at c [] = [[]]"
| "split_at c (x # xs) =
     (if x = c then [] # split_at c xs
      else (case split_at c xs of [] \<Rightarrow> [[x]] | piece # pieces \<Rightarrow> (x # piece) # pieces))"

end
