(* ===== verification/Redis_Commands.thy ===== *)
theory Redis_Commands
  imports Resp_Wire Redis_Argv Lossy_Text Dispatch_Safety
begin

text \<open>
  What the Redis driver concludes of a command line (\<open>drivers/oxyn-driver-redis/src\<close>):
  \<open>commands.rs\<close>, the table a server answers to \<open>COMMAND\<close>, the intent and the risk of a command, what
  a console does not send; \<open>reads.rs\<close>, the compiled list of reads; \<open>session.rs\<close>, the proof the
  executor asks for and the guards an execution passes before a byte is sent. A hash map is the list
  of its insertions, the last one of a key winning; a hash set a list.
\<close>

subsection \<open>The table of a server\<close>

datatype command_spec =
  CommandSpec (spec_flags: "string list") (spec_categories: "string list")
    (spec_subcommands: "(string \<times> command_spec) list")

type_synonym command_table = "(string \<times> command_spec) list"

definition table_get :: "command_table \<Rightarrow> string \<Rightarrow> command_spec option" where
  "table_get t name = map_of (rev t) name"

definition has_flag :: "command_spec \<Rightarrow> string \<Rightarrow> bool" where
  "has_flag s word \<longleftrightarrow> word \<in> set (spec_flags s)"

definition in_category :: "command_spec \<Rightarrow> string \<Rightarrow> bool" where
  "in_category s category \<longleftrightarrow> category \<in> set (spec_categories s)"

definition is_ascii_text :: "string \<Rightarrow> bool" where
  "is_ascii_text s \<longleftrightarrow> list_all (\<lambda>c. byte c < 128) s"

definition lowercase :: "string \<Rightarrow> string option" where
  "lowercase w = (if is_ascii_text w then Some (map to_ascii_lower w) else None)"

fun text_of :: "resp_value \<Rightarrow> string option" where
  "text_of (VSimple t) = Some t"
| "text_of (VBulk c) = (if clip_truncated c then None else Some (clip_bytes c))"
| "text_of v = None"

definition lowercase_text :: "resp_value \<Rightarrow> string option" where
  "lowercase_text v = Option.bind (text_of v) lowercase"

fun word_list :: "resp_value option \<Rightarrow> string list" where
  "word_list (Some (VList a vs)) = List.map_filter lowercase_text vs"
| "word_list field = []"

text \<open>The name after the last bar: \<open>config|set\<close> is filed under \<open>set\<close>.\<close>

definition short_name :: "string \<Rightarrow> string" where
  "short_name full = rev (takeWhile (\<lambda>c. c \<noteq> CHR ''|'') (rev full))"

lemma map_filter_cong [fundef_cong]:
  "xs = ys \<Longrightarrow> (\<And>x. x \<in> set ys \<Longrightarrow> f x = g x) \<Longrightarrow> List.map_filter f xs = List.map_filter g ys"
proof (induction ys arbitrary: xs)
  case (Cons y ys)
  then show ?case using Cons.IH [of ys] by (simp add: List.map_filter_simps split: option.split)
qed (simp add: List.map_filter_simps)

definition spec_of :: "resp_value list \<Rightarrow> (string \<times> command_spec) list \<Rightarrow> (string \<times> command_spec) option" where
  "spec_of vs subs =
     Option.bind (get_at vs 0) (\<lambda>f. Option.bind (lowercase_text f) (\<lambda>name.
       Some (name, CommandSpec (word_list (get_at vs 2))
         (map (dropWhile (\<lambda>c. c = CHR ''@'')) (word_list (get_at vs 6))) subs)))"

function entry_of :: "resp_value \<Rightarrow> (string \<times> command_spec) option" where
  "entry_of v =
     (case v of
        VList a vs \<Rightarrow>
          spec_of vs
            (case get_at vs 9 of
               Some (VList b subs) \<Rightarrow>
                 map (\<lambda>(full, spec). (short_name full, spec)) (List.map_filter entry_of subs)
             | _ \<Rightarrow> [])
      | _ \<Rightarrow> None)"
  by pat_completeness auto
termination
proof (relation "measure size", goal_cases)
  case (2 v a vs y b subs s)
  then have "y \<in> set vs" "s \<in> set subs" by (auto simp: get_at_Some_iff nth_mem) (metis nth_mem)
  then have "size s < size y" "size y < size v"
    using 2 by (auto simp: size_list_estimation' less_Suc_eq_le)
  then show ?case by simp
qed simp

declare entry_of.simps [simp del]

fun from_reply :: "resp_value \<Rightarrow> command_table" where
  "from_reply (VList a vs) = List.map_filter entry_of vs"
| "from_reply v = []"

record found =
  found_command :: string
  found_subcommand :: "string option"
  found_spec :: command_spec

definition find_command :: "command_table \<Rightarrow> string list \<Rightarrow> found option" where
  "find_command t argv =
     Option.bind (Option.bind (get_at argv 0) lowercase) (\<lambda>name.
     Option.bind (table_get t name) (\<lambda>spec.
       if spec_subcommands spec = [] then
         Some \<lparr>found_command = name, found_subcommand = None, found_spec = spec\<rparr>
       else
         Option.bind (Option.bind (get_at argv 1) lowercase) (\<lambda>sub.
         Option.bind (table_get (spec_subcommands spec) sub) (\<lambda>spec'.
           Some \<lparr>found_command = name, found_subcommand = Some sub, found_spec = spec'\<rparr>))))"

subsection \<open>The reads the driver knows\<close>

definition reads :: "string list" where
  "reads =
    [''bf.card'', ''bf.exists'', ''bf.info'', ''bf.mexists'', ''bitcount'', ''bitfield_ro'',
     ''bitpos'', ''cf.count'', ''cf.exists'', ''cf.info'', ''cf.mexists'', ''cms.info'',
     ''cms.query'', ''dbsize'', ''dump'', ''eval_ro'', ''evalsha_ro'', ''exists'', ''expiretime'',
     ''fcall_ro'', ''ft._list'', ''ft.aggregate'', ''ft.config|get'', ''ft.dictdump'',
     ''ft.explain'', ''ft.explaincli'', ''ft.info'', ''ft.profile'', ''ft.search'',
     ''ft.spellcheck'', ''ft.sugget'', ''ft.suglen'', ''ft.syndump'', ''geodist'', ''geohash'',
     ''geopos'', ''georadius_ro'', ''georadiusbymember_ro'', ''geosearch'', ''get'', ''getbit'',
     ''getrange'', ''hexists'', ''hexpiretime'', ''hget'', ''hgetall'', ''hkeys'', ''hlen'',
     ''hmget'', ''hpexpiretime'', ''hpttl'', ''hrandfield'', ''hscan'', ''hstrlen'', ''httl'',
     ''hvals'', ''json.arrindex'', ''json.arrlen'', ''json.get'', ''json.mget'', ''json.objkeys'',
     ''json.objlen'', ''json.resp'', ''json.strlen'', ''json.type'', ''lcs'', ''lindex'', ''llen'',
     ''lpos'', ''lrange'', ''memory|usage'', ''mget'', ''object|encoding'', ''object|freq'',
     ''object|idletime'', ''object|refcount'', ''pexpiretime'', ''pfcount'', ''pttl'',
     ''randomkey'', ''scan'', ''scard'', ''sdiff'', ''sdiffcard'', ''sinter'', ''sintercard'',
     ''sismember'', ''smembers'', ''smismember'', ''srandmember'', ''sscan'', ''strlen'',
     ''substr'', ''sunion'', ''sunioncard'', ''tdigest.byrank'', ''tdigest.byrevrank'',
     ''tdigest.cdf'', ''tdigest.info'', ''tdigest.max'', ''tdigest.min'', ''tdigest.quantile'',
     ''tdigest.rank'', ''tdigest.revrank'', ''tdigest.trimmed_mean'', ''topk.count'',
     ''topk.info'', ''topk.list'', ''topk.query'', ''touch'', ''ts.get'', ''ts.info'', ''ts.mget'',
     ''ts.mrange'', ''ts.mrevrange'', ''ts.queryindex'', ''ts.range'', ''ts.revrange'', ''ttl'',
     ''type'', ''vcard'', ''vdim'', ''vemb'', ''vgetattr'', ''vinfo'', ''vismember'', ''vlinks'',
     ''vrandmember'', ''vrange'', ''vsim'', ''xinfo|consumers'', ''xinfo|groups'',
     ''xinfo|stream'', ''xlen'', ''xpending'', ''xrange'', ''xread'', ''xrevrange'', ''zcard'',
     ''zcount'', ''zdiff'', ''zinter'', ''zintercard'', ''zlexcount'', ''zmscore'',
     ''zrandmember'', ''zrange'', ''zrangebylex'', ''zrangebyscore'', ''zrank'', ''zrevrange'',
     ''zrevrangebylex'', ''zrevrangebyscore'', ''zrevrank'', ''zscan'', ''zscore'', ''zunion'']"

text \<open>The binary search of a sorted list finds the names it holds: \<open>reads_sorted\<close> below.\<close>

definition is_read :: "string \<Rightarrow> string option \<Rightarrow> bool" where
  "is_read command sub \<longleftrightarrow>
     (case sub of Some s \<Rightarrow> command @ ''|'' @ s | None \<Rightarrow> command) \<in> set reads"

definition names_a_read :: "string list \<Rightarrow> bool" where
  "names_a_read argv \<longleftrightarrow>
     (case Option.bind (get_at argv 0) lowercase of
        None \<Rightarrow> False
      | Some command \<Rightarrow>
          is_read command None \<or>
          (case Option.bind (get_at argv 1) lowercase of
             None \<Rightarrow> False | Some sub \<Rightarrow> is_read command (Some sub)))"

subsection \<open>Risk, intent, refusal\<close>

definition redis_risk :: "string list \<Rightarrow> mutation_risk option" where
  "redis_risk argv =
     Option.bind (Option.bind (get_at argv 0) lowercase) (\<lambda>name.
       let sub = Option.bind (get_at argv 1) lowercase in
       if name \<in> {''flushall'', ''flushdb''} then Some Truncate
       else if name = ''swapdb'' then Some UnboundedUpdate
       else if name = ''function'' \<and> sub \<in> {Some ''flush'', Some ''delete''}
         \<or> name = ''xgroup'' \<and> sub = Some ''destroy''
         \<or> name = ''acl'' \<and> sub = Some ''deluser''
         \<or> name \<in> {''ft.dropindex'', ''ft.drop''} then Some DropObject
       else if name = ''function'' \<and> sub = Some ''restore''
         \<and> list_ex (\<lambda>w. eq_ignore_case w ''flush'') (drop 3 argv) then Some DropObject
       else None)"

definition redis_intent :: "command_table \<Rightarrow> string list \<Rightarrow> statement_intent option" where
  "redis_intent t argv =
     Option.bind (Option.bind (get_at argv 0) lowercase) (\<lambda>name.
       if name = ''acl'' then Some Grant
       else if redis_risk argv \<noteq> None then Some Write
       else Option.bind (find_command t argv) (\<lambda>f.
         let spec = found_spec f in
         if found_command f \<in> {''eval'', ''evalsha'', ''fcall''} \<or> in_category spec ''dangerous''
         then None
         else if has_flag spec ''write'' then Some Write
         else if has_flag spec ''readonly'' \<and> is_read (found_command f) (found_subcommand f)
         then Some Read else None))"

definition refusal :: "string list \<Rightarrow> string option" where
  "refusal argv =
     Option.bind (Option.bind (get_at argv 0) lowercase) (\<lambda>name.
       let sub = Option.bind (get_at argv 1) lowercase in
       if name \<in> {''unsubscribe'', ''punsubscribe'', ''sunsubscribe''} then
         Some (''a capture's subscription ends with the capture: stop it, or let its row limit or ''
           @ ''timeout end it'')
       else if name \<in> {''sync'', ''psync'', ''replconf''} then
         Some ''replication commands turn the connection into a replica's stream''
       else if name \<in> {''hello'', ''auth''} then
         Some (''authentication and protocol are set by the connection form: changing them here ''
           @ ''would change who every later command runs as'')
       else if name = ''select'' then
         Some (''SELECT changes the database every later command addresses: use the database ''
           @ ''selector, which the session tracks'')
       else if name \<in> {''multi'', ''exec'', ''discard'', ''watch'', ''unwatch''} then
         Some (''MULTI/EXEC transactions span several executions, which a console runs one at a ''
           @ ''time; send the commands one by one, or wrap them in EVAL'')
       else if name \<in> {''reset'', ''quit''} then
         Some ''this command resets or closes the session's connection: close the console instead''
       else if name \<in> {''readonly'', ''readwrite'', ''asking''} then
         Some ''cluster connection commands: this driver speaks to a standalone server''
       else if name = ''client'' \<and> sub \<in> set (map Some [''tracking'', ''caching'', ''reply'',
           ''setname'', ''setinfo'', ''no-evict'', ''no-touch'']) then
         Some (''this CLIENT subcommand changes the session's connection itself, which the driver ''
           @ ''does not track'')
       else None)"

subsection \<open>The session\<close>

record redis_session =
  rs_capabilities :: capabilities
  rs_commands :: command_table

definition intent_of :: "redis_session \<Rightarrow> exec_request \<Rightarrow> statement_intent option" where
  "intent_of s r =
     (if language r \<noteq> RedisCommand then None
      else (case parse_argv (req_text r) of
          Inl _ \<Rightarrow> None
        | Inr argv \<Rightarrow> redis_intent (rs_commands s) argv))"

definition risk_of :: "redis_session \<Rightarrow> exec_request \<Rightarrow> mutation_risk option" where
  "risk_of s r =
     (case intent_of s r of
        None \<Rightarrow> None
      | Some i \<Rightarrow>
          if i \<in> {Write, Ddl, Grant} then
            (case parse_argv (req_text r) of Inl _ \<Rightarrow> None | Inr argv \<Rightarrow> redis_risk argv)
          else None)"

text \<open>\<open>classify_intent\<close> and \<open>classify_risk\<close> of the driver's session.\<close>

definition redis_prover :: "redis_session prover" where
  "redis_prover = \<lparr>prove_intent = intent_of, prove_risk = risk_of\<rparr>"

datatype running = Blocking | Script | Function | Plain

definition running_of :: "command_table \<Rightarrow> string list \<Rightarrow> running" where
  "running_of t argv =
     (let name = (case get_at argv 0 of Some w \<Rightarrow> map to_ascii_lower w | None \<Rightarrow> []) in
      if name \<in> {''eval'', ''evalsha'', ''eval_ro'', ''evalsha_ro''} then Script
      else if name \<in> {''fcall'', ''fcall_ro''} then Function
      else (case find_command t argv of
          Some f \<Rightarrow> if has_flag (found_spec f) ''blocking'' then Blocking else Plain
        | None \<Rightarrow> Plain))"

definition bound_database :: "scalar_value list \<Rightarrow> nat option result" where
  "bound_database ps =
     (case ps of
        [] \<Rightarrow> Inr None
      | [SInt64 d] \<Rightarrow>
          if 0 \<le> sint d \<and> sint d < 2 ^ 32 then Inr (Some (nat (sint d)))
          else Inl (EConfig ''a database number is a non-negative integer'')
      | _ \<Rightarrow> Inl (EConfig
          ''a Redis command takes no bound value: its arguments are written in the command''))"

datatype capture = Messages | Monitor

definition capture_of :: "string list \<Rightarrow> capture option" where
  "capture_of argv =
     Option.bind (get_at argv 0) (\<lambda>name.
       if eq_ignore_case name ''monitor'' then Some Monitor
       else if list_ex (\<lambda>w. eq_ignore_case name w) [''subscribe'', ''psubscribe'', ''ssubscribe'']
       then Some Messages else None)"

fun argv_error_display :: "argv_error \<Rightarrow> string" where
  "argv_error_display ArgvEmpty = ''the command is empty''"
| "argv_error_display (Unterminated n) = ''a quote opened at byte '' @ decimal n @ '' is never closed''"
| "argv_error_display (GluedQuote n) =
     ''a closing quote at byte '' @ decimal n @ '' must be followed by a space or the end of the command''"
| "argv_error_display (SecondCommand n) =
     ''one command per execution: line '' @ decimal n @ '' starts another one; run it on its own, or wrap a ''
       @ ''line break that belongs to a value in double quotes''"
| "argv_error_display Nul =
     ''a NUL character cannot be typed; write it '' @ [double_quote, backslash] @ ''x00'' @ [double_quote]
       @ '' inside double quotes''"

record redis_plan =
  plan_running :: running
  plan_scripted :: bool
  plan_intent :: "statement_intent option"
  plan_argv :: "string list"
  plan_max_rows :: "nat option"
  plan_timeout :: "duration option"

text \<open>What an execution becomes before any connection is touched: a capture on a connection of its
  own, or a plan with the database it is bound to.\<close>

datatype admitted = Captures capture "string list" exec_limits | Runs redis_plan "nat option"

definition not_a_read :: "string list \<Rightarrow> string" where
  "not_a_read argv =
     ''this execution is read-only, and `''
       @ from_utf8_lossy (case get_at argv 0 of Some w \<Rightarrow> w | None \<Rightarrow> [])
       @ ''` is not a read Oxyn knows and the server flags `readonly`, outside @dangerous: Redis has ''
       @ ''no read-only session, so Oxyn does not send it''"

definition plan_of :: "redis_session \<Rightarrow> string list \<Rightarrow> exec_limits \<Rightarrow> redis_plan" where
  "plan_of s argv l =
     (let running = running_of (rs_commands s) argv in
      \<lparr>plan_running = running,
       plan_scripted =
         (case find_command (rs_commands s) argv of
            Some f \<Rightarrow> in_category (found_spec f) ''scripting'' | None \<Rightarrow> False)
         \<or> running \<in> {Script, Function},
       plan_intent = redis_intent (rs_commands s) argv, plan_argv = argv,
       plan_max_rows = max_rows l, plan_timeout = timeout l\<rparr>)"

definition admit :: "redis_session \<Rightarrow> exec_request \<Rightarrow> admitted result" where
  "admit s r =
     and_then (require_language (rs_capabilities s) (language r)) (\<lambda>_.
     case parse_argv (req_text r) of
       Inl e \<Rightarrow> Inl (EQuery (argv_error_display e))
     | Inr argv \<Rightarrow>
         (case refusal argv of
            Some reason \<Rightarrow> Inl (ENotSupported reason)
          | None \<Rightarrow>
              if limits_read_only (limits r)
                \<and> \<not> (redis_intent (rs_commands s) argv = Some Read \<and> names_a_read argv)
              then Inl (EQuery (not_a_read argv))
              else (case capture_of argv of
                  Some c \<Rightarrow> Inr (Captures c argv (limits r))
                | None \<Rightarrow>
                    and_then (bound_database (params r)) (\<lambda>database.
                    Inr (Runs (plan_of s argv (limits r)) database)))))"

subsection \<open>The list of reads\<close>

lemma reads_sorted: "ascending reads"
  by (simp add: reads_def byte_def)

subsection \<open>The table only raises\<close>

lemma find_command_names:
  assumes "find_command t argv = Some f"
  shows "\<exists>w. get_at argv 0 = Some w \<and> lowercase w = Some (found_command f)"
    and "found_subcommand f = Some sub \<Longrightarrow> \<exists>w. get_at argv 1 = Some w \<and> lowercase w = Some sub"
  using assms by (auto simp: find_command_def bind_eq_Some_conv split: if_splits)

text \<open>A server flags a read; only the list of the driver makes it one, and a write, a danger, a
  script, a known risk or \<open>ACL\<close> withdraw it.\<close>

lemma redis_intent_Read_iff:
  "redis_intent t argv = Some Read \<longleftrightarrow>
    (\<exists>f. find_command t argv = Some f \<and> is_read (found_command f) (found_subcommand f)
      \<and> has_flag (found_spec f) ''readonly'' \<and> \<not> has_flag (found_spec f) ''write''
      \<and> \<not> in_category (found_spec f) ''dangerous'' \<and> redis_risk argv = None
      \<and> found_command f \<notin> {''acl'', ''eval'', ''evalsha'', ''fcall''})"
  (is "?l \<longleftrightarrow> ?r")
proof
  assume ?l
  then obtain w name f where "get_at argv 0 = Some w" "lowercase w = Some name" "name \<noteq> ''acl''"
    "redis_risk argv = None" "find_command t argv = Some f"
    "found_command f \<notin> {''eval'', ''evalsha'', ''fcall''}" "\<not> in_category (found_spec f) ''dangerous''"
    "\<not> has_flag (found_spec f) ''write''"
    "has_flag (found_spec f) ''readonly''" "is_read (found_command f) (found_subcommand f)"
    by (auto simp: redis_intent_def bind_eq_Some_conv Let_def split: if_splits)
  with find_command_names(1) [of t argv f] show ?r by auto
next
  assume ?r
  then obtain f where "find_command t argv = Some f" "is_read (found_command f) (found_subcommand f)"
    "has_flag (found_spec f) ''readonly''" "\<not> has_flag (found_spec f) ''write''"
    "\<not> in_category (found_spec f) ''dangerous''" "redis_risk argv = None"
    "found_command f \<notin> {''acl'', ''eval'', ''evalsha'', ''fcall''}" by blast
  with find_command_names(1) [of t argv f] show ?l by (auto simp: redis_intent_def Let_def)
qed

lemma reads_are_named:
  assumes "redis_intent t argv = Some Read"
  shows "names_a_read argv"
proof -
  obtain f where f: "find_command t argv = Some f" "is_read (found_command f) (found_subcommand f)"
    using assms by (auto simp: redis_intent_Read_iff)
  obtain w where "get_at argv 0 = Some w" "lowercase w = Some (found_command f)"
    using find_command_names(1) [OF f(1)] by blast
  then show ?thesis
    using f(2) find_command_names(2) [OF f(1)]
    by (cases "found_subcommand f") (auto simp: names_a_read_def split: option.split)
qed

text \<open>A refused command, a capture, a known risk or a command on users is no read, whatever the
  table says.\<close>

definition head_word :: "string \<Rightarrow> string" where
  "head_word name = takeWhile (\<lambda>c. c \<noteq> CHR ''|'') name"

definition kept_out :: "string list" where
  "kept_out =
    [''acl'', ''flushall'', ''flushdb'', ''swapdb'', ''monitor'', ''subscribe'', ''psubscribe'',
     ''ssubscribe'', ''unsubscribe'', ''punsubscribe'', ''sunsubscribe'', ''sync'', ''psync'',
     ''replconf'', ''hello'', ''auth'', ''select'', ''multi'', ''exec'', ''discard'', ''watch'', ''unwatch'',
     ''reset'', ''quit'', ''readonly'', ''readwrite'', ''asking'', ''client'']"

lemma kept_out_heads: "list_all (\<lambda>name. name \<notin> set (map head_word reads)) kept_out"
  by (simp add: reads_def kept_out_def head_word_def)

lemma kept_out_plain: "list_all (\<lambda>name. head_word name = name \<and> CHR ''|'' \<notin> set name) kept_out"
  by (simp add: kept_out_def head_word_def)

lemma not_read_heads:
  assumes "name \<in> set kept_out"
  shows "\<not> is_read name sub"
proof
  assume "is_read name sub"
  moreover have plain: "CHR ''|'' \<notin> set name" "head_word name = name"
    using assms kept_out_plain by (auto simp: list_all_iff)
  moreover have "head_word (name @ ''|'' @ s) = name" for s
    using plain by (simp add: head_word_def takeWhile_append takeWhile_eq_all_conv)
  ultimately have "\<exists>read \<in> set reads. head_word read = name"
    by (cases sub) (auto simp: is_read_def intro: bexI)
  then have "name \<in> set (map head_word reads)" by (auto simp: image_iff)
  with assms kept_out_heads show False by (simp add: list_all_iff)
qed

lemma names_a_read_head:
  "names_a_read argv \<Longrightarrow> get_at argv 0 = Some w \<Longrightarrow> lowercase w = Some name \<Longrightarrow>
   \<exists>sub. is_read name sub"
  by (auto simp: names_a_read_def split: option.splits)

lemma named_reads_stay:
  assumes "names_a_read argv"
  shows "refusal argv = None" "capture_of argv = None"
proof -
  obtain w name where w: "get_at argv 0 = Some w" "lowercase w = Some name"
    using assms by (auto simp: names_a_read_def bind_eq_Some_conv split: option.splits)
  then obtain sub where "is_read name sub" using names_a_read_head [OF assms] by blast
  then have out: "name \<notin> set kept_out" using not_read_heads by blast
  show "refusal argv = None"
    using out w unfolding refusal_def kept_out_def Let_def by simp
  have name: "name = map to_ascii_lower w" using w(2) by (simp add: lowercase_def split: if_splits)
  have same: "eq_ignore_case w k \<longleftrightarrow> name = k" if "map to_ascii_lower k = k" for k
    using that by (simp add: eq_ignore_case_def name)
  have "eq_ignore_case w ''monitor'' \<longleftrightarrow> name = ''monitor''"
    "eq_ignore_case w ''subscribe'' \<longleftrightarrow> name = ''subscribe''"
    "eq_ignore_case w ''psubscribe'' \<longleftrightarrow> name = ''psubscribe''"
    "eq_ignore_case w ''ssubscribe'' \<longleftrightarrow> name = ''ssubscribe''"
    by (rule same, simp add: to_ascii_lower_def byte_def)+
  then show "capture_of argv = None"
    using out w(1) unfolding capture_of_def kept_out_def by simp
qed

subsection \<open>What an execution sends\<close>

lemma require_language_redis:
  "admit s r = Inr a \<Longrightarrow> \<exists>argv. parse_argv (req_text r) = Inr argv \<and> refusal argv = None"
  by (auto simp: admit_def and_then_Inr_iff split: sum.splits option.splits if_splits)

lemma admit_read_only:
  assumes "admit s r = Inr a" "limits_read_only (limits r)"
  shows "\<exists>argv database. parse_argv (req_text r) = Inr argv \<and> names_a_read argv
    \<and> redis_intent (rs_commands s) argv = Some Read
    \<and> a = Runs (plan_of s argv (limits r)) database"
proof -
  obtain argv where argv: "parse_argv (req_text r) = Inr argv" "names_a_read argv"
      "redis_intent (rs_commands s) argv = Some Read"
    using assms by (auto simp: admit_def and_then_Inr_iff split: sum.splits option.splits if_splits)
  with named_reads_stay [OF argv(2)] assms have "\<exists>database. a = Runs (plan_of s argv (limits r)) database"
    by (auto simp: admit_def and_then_Inr_iff)
  with argv show ?thesis by blast
qed

lemma intent_of_Read:
  "intent_of s r = Some Read \<longleftrightarrow> language r = RedisCommand
     \<and> (\<exists>argv. parse_argv (req_text r) = Inr argv \<and> redis_intent (rs_commands s) argv = Some Read)"
  by (auto simp: intent_of_def split: sum.split)

text \<open>The proof the gate rests on and the guard of the driver agree: a request proven to be a read
  is never stopped by the read-only guard.\<close>

lemma proven_reads_are_admitted:
  assumes "intent_of s r = Some Read" "supports_language (rs_capabilities s) RedisCommand" "params r = []"
  shows "\<exists>p. admit s r = Inr (Runs p None)"
proof -
  obtain argv where argv: "language r = RedisCommand" "parse_argv (req_text r) = Inr argv"
      "redis_intent (rs_commands s) argv = Some Read"
    using assms(1) by (auto simp: intent_of_Read)
  have named: "names_a_read argv" by (rule reads_are_named [OF argv(3)])
  have ok: "require_language (rs_capabilities s) RedisCommand = Inr ()"
    using assms(2) by (simp add: require_language_ok_iff)
  show ?thesis
    using argv named named_reads_stay [OF named] assms(3)
    by (simp add: admit_def ok bound_database_def)
qed

subsection \<open>An agent at a Redis session\<close>

text \<open>What an agent's command may send to a Redis session: a command of the list of reads that the
  table of its server flags as one too.\<close>

definition sends_listed_reads :: "redis_session session_registry \<Rightarrow> exec_effect \<Rightarrow> bool" where
  "sends_listed_reads sessions e \<longleftrightarrow>
     (case e of
        DriverExecuted s r \<Rightarrow>
          language r = RedisCommand \<longrightarrow>
          (case (parse_argv (req_text r), Option.bind (get_session s sessions) slot_session) of
             (Inr argv, Some d) \<Rightarrow> names_a_read argv \<and> redis_intent (rs_commands d) argv = Some Read
           | _ \<Rightarrow> False)
      | _ \<Rightarrow> True)"

lemma proven_reads_are_listed:
  assumes "proven_read redis_prover sessions s r"
  shows "\<exists>argv d. parse_argv (req_text r) = Inr argv \<and> Option.bind (get_session s sessions) slot_session = Some d
    \<and> names_a_read argv \<and> redis_intent (rs_commands d) argv = Some Read"
proof -
  from assms obtain slot d q where "get_session s sessions = Some slot" "slot_session slot = Some d"
    "intent_of d q = Some Read" "req_text q = req_text r"
    by (auto simp: proven_read_def redis_prover_def)
  with reads_are_named show ?thesis by (auto simp: intent_of_Read)
qed

lemma dispatch_as_agent_redis:
  assumes "w_gate w = default_gate p" "is_agent a" "w_prover w = redis_prover"
  shows "grows (sends_listed_reads (ex_sessions ex)) ex (snd (dispatch_as w i a cmd cancel ex))"
proof (rule grows_mono [OF dispatch_as_agent [OF assms(1,2)]])
  fix e
  assume e: "agent_effect (w_lib w) (w_prover w) (ex_sessions ex) e"
  show "sends_listed_reads (ex_sessions ex) e"
  proof (cases e)
    case (DriverExecuted s r)
    have "proven_read redis_prover (ex_sessions ex) s r" if "language r = RedisCommand"
      using e that DriverExecuted by (simp add: agent_effect_def understood_read_def assms(3))
    with DriverExecuted proven_reads_are_listed show ?thesis by (fastforce simp: sends_listed_reads_def)
  qed (simp_all add: sends_listed_reads_def)
qed

end
