(* ===== verification/Redis_Connection.thy ===== *)
theory Redis_Connection
  imports Redis_Commands
begin

text \<open>
  A connection of the Redis driver (\<open>drivers/oxyn-driver-redis/src\<close>): the errors and the family each
  belongs to (\<open>error.rs\<close>), commands and their replies (\<open>connection.rs\<close>), the connection a session
  keeps ready (\<open>session.rs\<close>). The server is the stream it answers; whether a write of the socket fails
  is an argument. After a failed read the connection is out of step, and what is left of its stream is
  never read again.
\<close>

subsection \<open>Errors\<close>

datatype redis_error =
  Server string string | Wire wire_error | UnexpectedReply string string

text \<open>\<open>split_once\<close>: what is before the first occurrence, and after it.\<close>

definition split_once :: "char \<Rightarrow> string \<Rightarrow> (string \<times> string) option" where
  "split_once c s =
     (if c \<in> set s
      then Some (takeWhile (\<lambda>x. x \<noteq> c) s, drop 1 (dropWhile (\<lambda>x. x \<noteq> c) s)) else None)"

definition server_error :: "string \<Rightarrow> redis_error" where
  "server_error t =
     (let whole = from_utf8_lossy t in
      case split_once (CHR '' '') whole of
        Some (prefix, message) \<Rightarrow> Server prefix message | None \<Rightarrow> Server whole [])"

fun error_prefix :: "redis_error \<Rightarrow> string option" where
  "error_prefix (Server prefix message) = Some prefix"
| "error_prefix e = None"

fun is_script_kill :: "redis_error \<Rightarrow> bool" where
  "is_script_kill (Server prefix message) \<longleftrightarrow>
     prefix = ''ERR'' \<and> starts_with message ''Script killed by user''"
| "is_script_kill e \<longleftrightarrow> False"

fun wire_error_display :: "wire_error \<Rightarrow> string" where
  "wire_error_display WireTruncated = ''the connection closed in the middle of a reply''"
| "wire_error_display (WireIo m) = ''the connection failed while reading a reply: '' @ m"
| "wire_error_display (Malformed m) = ''the server sent something that is not RESP: '' @ m"

fun redis_error_display :: "redis_error \<Rightarrow> string" where
  "redis_error_display (Server prefix message) = prefix @ '' '' @ message"
| "redis_error_display (Wire e) = wire_error_display e"
| "redis_error_display (UnexpectedReply command detail) =
     ''unexpected reply to '' @ command @ '': '' @ detail"

definition class_of :: "string \<Rightarrow> bool \<Rightarrow> error_class" where
  "class_of prefix scripted =
     (if scripted then (if prefix = ''NOSCRIPT'' then Permanent else Ambiguous)
      else if prefix \<in> {''LOADING'', ''BUSY'', ''OOM'', ''MISCONF'', ''NOREPLICAS'', ''MASTERDOWN'',
        ''TRYAGAIN'', ''CLUSTERDOWN''} then Transient
      else if prefix \<in> {''NOSCRIPT'', ''NOPERM'', ''NOAUTH'', ''WRONGPASS'', ''WRONGTYPE'', ''READONLY'',
        ''EXECABORT'', ''CROSSSLOT'', ''MOVED'', ''ASK'', ''NOPROTO'', ''UNBLOCKED''} then Permanent
      else if prefix = ''IOERR'' then Ambiguous
      else Permanent)"

definition during_execution ::
  "driver_id \<Rightarrow> redis_error \<Rightarrow> statement_intent option \<Rightarrow> bool \<Rightarrow> oxyn_error" where
  "during_execution driver e proven scripted =
     (case e of
        Server prefix message \<Rightarrow> EDriver driver (class_of prefix scripted) (redis_error_display e)
      | _ \<Rightarrow>
          if proven = Some Read then EDriver driver Transient (redis_error_display e)
          else EOutcomeUnknown (''the connection failed after the command was sent (''
            @ redis_error_display e
            @ ''); the server may have applied it: check the data before running it again''))"

definition during_connect :: "redis_error \<Rightarrow> oxyn_error" where
  "during_connect e =
     (if error_prefix e \<in> {Some ''WRONGPASS'', Some ''NOAUTH'', Some ''NOPERM''}
      then EAuthentication (redis_error_display e) else EConnection (redis_error_display e))"

subsection \<open>A connection\<close>

text \<open>The commands it sent, what the server has still to say, the database it is on, and the replies
  sent for and not read to their end, a \<open>usize\<close>.\<close>

record redis_connection =
  rc_sent :: "string list list"
  rc_stream :: stream
  rc_database :: nat
  rc_unread :: nat
  rc_id :: int

definition in_step :: "redis_connection \<Rightarrow> bool" where
  "in_step c \<longleftrightarrow> rc_unread c = 0"

definition replied :: "redis_connection \<Rightarrow> redis_connection" where
  "replied c = c\<lparr>rc_unread := rc_unread c - 1\<rparr>"

definition counted :: "redis_connection \<Rightarrow> redis_connection" where
  "counted c = c\<lparr>rc_unread := min (rc_unread c + 1) (2 ^ 64 - 1)\<rparr>"

definition send ::
  "io_failure option \<Rightarrow> string list \<Rightarrow> redis_connection
   \<Rightarrow> (redis_error + unit) \<times> redis_connection" where
  "send failure argv c =
     (let c' = (counted c)\<lparr>rc_sent := rc_sent c @ [argv]\<rparr> in
      case failure of Some f \<Rightarrow> (Inl (Wire (wire_io f)), c') | None \<Rightarrow> (Inr (), c'))"

text \<open>Push messages are passed over.\<close>

function reply_head :: "stream \<Rightarrow> wire_error + head \<times> stream" where
  "reply_head s =
     and_then (next_head s) (\<lambda>(h, s1).
       case h of
         HAggregate PushAgg len \<Rightarrow> and_then (skip s1 len) (\<lambda>s2. reply_head s2)
       | _ \<Rightarrow> Inr (h, s1))"
  by pat_completeness auto
termination
  by (relation "measure left") (auto dest!: next_head_left skip_left)

declare reply_head.simps [simp del]

definition lift_wire :: "wire_error + 'a \<Rightarrow> redis_error + 'a" where
  "lift_wire r = (case r of Inl e \<Rightarrow> Inl (Wire e) | Inr x \<Rightarrow> Inr x)"

definition call ::
  "nat \<Rightarrow> io_failure option \<Rightarrow> string list \<Rightarrow> nat \<Rightarrow> redis_connection
   \<Rightarrow> (redis_error + resp_value) \<times> redis_connection" where
  "call cost failure argv budget c =
     (case send failure argv c of
        (Inl e, c1) \<Rightarrow> (Inl e, c1)
      | (Inr _, c1) \<Rightarrow>
          (case and_then (reply_head (rc_stream c1)) (\<lambda>(h, s1). rest_of cost s1 h budget) of
             Inl e \<Rightarrow> (Inl (Wire e), c1)
           | Inr (v, s2, _) \<Rightarrow>
               (case v of VError t \<Rightarrow> Inl (server_error t) | _ \<Rightarrow> Inr v,
                replied (c1\<lparr>rc_stream := s2\<rparr>))))"

definition select_database ::
  "nat \<Rightarrow> io_failure option \<Rightarrow> nat \<Rightarrow> redis_connection \<Rightarrow> (redis_error + unit) \<times> redis_connection"
where
  "select_database cost failure database c =
     (case call cost failure [''SELECT'', decimal database] (2 ^ 10) c of
        (Inl e, c1) \<Rightarrow> (Inl e, c1)
      | (Inr _, c1) \<Rightarrow> (Inr (), c1\<lparr>rc_database := database\<rparr>))"

subsection \<open>The connection a session keeps\<close>

text \<open>\<open>Shared::open\<close>: a connection of the account, moved to the database when it opened on another.\<close>

definition open_on ::
  "nat \<Rightarrow> io_failure option \<Rightarrow> oxyn_error + redis_connection \<Rightarrow> nat \<Rightarrow> oxyn_error + redis_connection"
where
  "open_on cost failure opened database =
     and_then opened (\<lambda>c.
       if rc_database c \<noteq> database then
         (case select_database cost failure database c of
            (Inl e, c1) \<Rightarrow> Inl (during_connect e) | (Inr _, c1) \<Rightarrow> Inr c1)
       else Inr c)"

definition ready ::
  "nat \<Rightarrow> io_failure option \<Rightarrow> oxyn_error + redis_connection \<Rightarrow> nat \<Rightarrow> redis_connection option
   \<Rightarrow> unit result \<times> redis_connection option" where
  "ready cost failure opened database slot =
     (let kept = (case slot of Some c \<Rightarrow> if in_step c then Some c else None | None \<Rightarrow> None) in
      case kept of
        Some c \<Rightarrow>
          if rc_database c = database then (Inr (), Some c)
          else (case select_database cost failure database c of
              (Inl e, c1) \<Rightarrow> (Inl (EQuery (redis_error_display e)), None)
            | (Inr _, c1) \<Rightarrow> (Inr (), Some c1))
      | None \<Rightarrow>
          (case open_on cost failure opened database of
             Inl e \<Rightarrow> (Inl e, None) | Inr c \<Rightarrow> (Inr (), Some c)))"

subsection \<open>What the server says of itself\<close>

definition decimal_int :: "int \<Rightarrow> string" where
  "decimal_int n = (if n < 0 then CHR ''-'' # decimal (nat (- n)) else decimal (nat n))"

fun value_text :: "resp_value \<Rightarrow> string option" where
  "value_text (VSimple t) = Some (from_utf8_lossy t)"
| "value_text (VBulk c) = Some (from_utf8_lossy (clip_bytes c))"
| "value_text (VVerbatim kind c) = Some (from_utf8_lossy (clip_bytes c))"
| "value_text (VInteger n) = Some (decimal_int n)"
| "value_text v = None"

record hello =
  hello_server :: string
  hello_version :: string
  hello_id :: int
  hello_mode :: string
  hello_role :: string
  hello_modules :: "string list"

definition text_or_empty :: "resp_value \<Rightarrow> string" where
  "text_or_empty v = (case value_text v of Some t \<Rightarrow> t | None \<Rightarrow> [])"

definition entry_named :: "string \<Rightarrow> (resp_value \<times> resp_value) list \<Rightarrow> (resp_value \<times> resp_value) option"
where
  "entry_named name ps = List.find (\<lambda>(k, v). value_text k = Some name) ps"

fun named_module :: "resp_value \<Rightarrow> string option" where
  "named_module (VMap ps) = Option.bind (entry_named ''name'' ps) (\<lambda>(k, v). value_text v)"
| "named_module v = value_text v"

definition hello_entry ::
  "resp_value \<times> resp_value \<Rightarrow> hello \<times> int option \<Rightarrow> hello \<times> int option" where
  "hello_entry entry acc =
     (case (entry, acc) of ((k, v), (h, i)) \<Rightarrow>
        let name = value_text k in
        if name = Some ''server'' then (h\<lparr>hello_server := text_or_empty v\<rparr>, i)
        else if name = Some ''version'' then (h\<lparr>hello_version := text_or_empty v\<rparr>, i)
        else if name = Some ''id'' then (h, case v of VInteger n \<Rightarrow> Some n | _ \<Rightarrow> i)
        else if name = Some ''mode'' then (h\<lparr>hello_mode := text_or_empty v\<rparr>, i)
        else if name = Some ''role'' then (h\<lparr>hello_role := text_or_empty v\<rparr>, i)
        else if name = Some ''modules'' then
          (case v of VList a ms \<Rightarrow> h\<lparr>hello_modules := List.map_filter named_module ms\<rparr> | _ \<Rightarrow> h, i)
        else (h, i))"

definition no_hello :: hello where
  "no_hello = \<lparr>hello_server = [], hello_version = [], hello_id = 0, hello_mode = [], hello_role = [],
     hello_modules = []\<rparr>"

definition parse_hello :: "resp_value \<Rightarrow> redis_error + hello" where
  "parse_hello reply =
     (case reply of
        VMap ps \<Rightarrow>
          (case fold hello_entry ps (no_hello, None) of
             (h, Some i) \<Rightarrow> Inr (h\<lparr>hello_id := i\<rparr>)
           | (h, None) \<Rightarrow> Inl (UnexpectedReply ''HELLO'' ''no connection id''))
      | _ \<Rightarrow> Inl (UnexpectedReply ''HELLO'' ''not a map''))"

text \<open>\<open>require_standalone\<close>.\<close>

definition require_standalone :: "string \<Rightarrow> unit result" where
  "require_standalone mode =
     (if mode \<in> {''standalone'', []} then Inr ()
      else if mode = ''cluster'' then Inl (ENotSupported
        (''Redis Cluster: this connection reaches one node of a cluster, and Oxyn does ''
          @ ''not follow MOVED to the others yet; connect to a standalone server''))
      else if mode = ''sentinel'' then Inl (ENotSupported
        (''Redis Sentinel: this address is a sentinel, which holds no data; connect ''
          @ ''to the primary it monitors''))
      else Inl (ENotSupported (''server mode `'' @ mode @ ''`'')))"

text \<open>\<open>str::replace\<close> of a text that is not empty.\<close>

function replace_text :: "string \<Rightarrow> string \<Rightarrow> string \<Rightarrow> string" where
  "replace_text secret stand_in s =
     (if secret = [] \<or> s = [] then s
      else if starts_with s secret then stand_in @ replace_text secret stand_in (drop (length secret) s)
      else hd s # replace_text secret stand_in (tl s))"
  by pat_completeness auto
termination
  by (relation "measure (\<lambda>(secret, stand_in, s). length s)") auto

declare replace_text.simps [simp del]

definition redacted_mask :: string where
  "redacted_mask = ''<redacted>''"

definition redacted :: "redis_error \<Rightarrow> string option \<Rightarrow> redis_error" where
  "redacted e password =
     (case password of
        None \<Rightarrow> e
      | Some p \<Rightarrow>
          if p = [] then e
          else let secret = from_utf8_lossy p in
            case e of
              Server prefix message \<Rightarrow>
                Server (replace_text secret redacted_mask prefix) (replace_text secret redacted_mask message)
            | other \<Rightarrow> other)"

text \<open>The handshake on a fresh transport: \<open>HELLO 3\<close> with the credentials, then the database of the
  form.\<close>

record connect_spec =
  cs_user :: "string option"
  cs_password :: "string option"
  cs_database :: nat

definition auth_arguments :: "connect_spec \<Rightarrow> (string \<times> string) option" where
  "auth_arguments spec =
     map_option (\<lambda>p. (case cs_user spec of Some u \<Rightarrow> u | None \<Rightarrow> ''default'', p)) (cs_password spec)"

definition hello_arguments :: "connect_spec \<Rightarrow> string list" where
  "hello_arguments spec =
     [''HELLO'', ''3'']
     @ (case auth_arguments spec of Some (user, password) \<Rightarrow> [''AUTH'', user, password] | None \<Rightarrow> [])
     @ [''SETNAME'', ''oxyn'']"

definition hello_failure :: "redis_error \<Rightarrow> oxyn_error" where
  "hello_failure e =
     (if error_prefix e = Some ''ERR'' \<and> contains_text (redis_error_display e) ''unknown command'' then
        EConnection ''the server does not know HELLO: Oxyn speaks RESP3, which needs Redis 6 or later''
      else if error_prefix e = Some ''NOPROTO'' then
        EConnection ''the server refuses RESP3, which Oxyn speaks''
      else during_connect e)"

definition handshake ::
  "nat \<Rightarrow> io_failure option \<Rightarrow> io_failure option \<Rightarrow> oxyn_error + stream \<Rightarrow> connect_spec \<Rightarrow> bool
   \<Rightarrow> (hello \<times> redis_connection) result" where
  "handshake cost failure failure' transport spec select =
     and_then transport (\<lambda>s.
       case call cost failure (hello_arguments spec) (2 ^ 16)
          \<lparr>rc_sent = [], rc_stream = s, rc_database = 0, rc_unread = 0, rc_id = 0\<rparr> of
         (Inl e, c) \<Rightarrow> Inl (hello_failure (redacted e (map_option snd (auth_arguments spec))))
       | (Inr v, c) \<Rightarrow>
           (case parse_hello v of
              Inl e \<Rightarrow> Inl (during_connect e)
            | Inr h \<Rightarrow>
                let c = c\<lparr>rc_id := hello_id h\<rparr> in
                if select \<and> cs_database spec \<noteq> 0 then
                  (case select_database cost failure' (cs_database spec) c of
                     (Inl e, c') \<Rightarrow> Inl (during_connect e) | (Inr _, c') \<Rightarrow> Inr (h, c'))
                else Inr (h, c)))"

text \<open>The name of a database and its number.\<close>

definition database_name :: "nat \<Rightarrow> string" where
  "database_name n = ''db'' @ decimal n"

definition database_number :: "string \<Rightarrow> nat option" where
  "database_number name =
     (if \<not> starts_with name ''db'' then None
      else let digits = drop 2 name in
        if digits = [] \<or> \<not> list_all is_ascii_digit digits
           \<or> 1 < length digits \<and> hd digits = CHR ''0'' then None
        else if digits_nat digits < 2 ^ 32 then Some (digits_nat digits) else None)"

text \<open>\<open>set_context\<close>: the database the console addresses, recorded once its connection is on it.\<close>

record console =
  console_slot :: "redis_connection option"
  console_context :: "nat option"

definition set_context ::
  "nat \<Rightarrow> io_failure option \<Rightarrow> oxyn_error + redis_connection \<Rightarrow> nat \<Rightarrow> bool
   \<Rightarrow> string option \<Rightarrow> string option \<Rightarrow> console \<Rightarrow> unit result \<times> console" where
  "set_context cost failure opened form_database cancelled catalog namespace con =
     (if namespace \<noteq> None then
        (Inl (EConfig ''a Redis context names a database only: there is no level below it''), con)
      else
        (case (case catalog of
                 Some name \<Rightarrow>
                   (case database_number name of
                      None \<Rightarrow> Inl (EConfig (CHR ''`'' # name @ ''` is not a database: they are named db0, db1''
                        @ [char_of (0xE2::nat), char_of (0x80::nat), char_of (0xA6::nat)]))
                    | Some n \<Rightarrow> Inr n)
               | None \<Rightarrow> Inr form_database) of
           Inl e \<Rightarrow> (Inl e, con)
         | Inr database \<Rightarrow>
             if cancelled then (Inl ECancelled, con)
             else (case ready cost failure opened database (console_slot con) of
                 (Inl e, slot) \<Rightarrow> (Inl e, con\<lparr>console_slot := slot\<rparr>)
               | (Inr _, slot) \<Rightarrow>
                   (Inr (), con\<lparr>console_slot := slot,
                      console_context := map_option (\<lambda>_. database) catalog\<rparr>))))"

subsection \<open>A connection in step\<close>

lemma counted_replied: "in_step c \<Longrightarrow> in_step (replied (counted c))"
  by (simp add: in_step_def replied_def counted_def)

lemma counted_out_of_step: "\<not> in_step (counted c)"
  by (simp add: in_step_def counted_def)

lemma send_counts:
  assumes "send failure argv c = (res, c')"
  shows "rc_unread c' = rc_unread (counted c)" "rc_sent c' = rc_sent c @ [argv]"
    "rc_database c' = rc_database c" "rc_stream c' = rc_stream c"
  using assms by (auto simp: send_def Let_def counted_def split: option.splits)

lemma call_keeps:
  assumes "call cost failure argv budget c = (res, c')"
  shows "rc_sent c' = rc_sent c @ [argv]" "rc_database c' = rc_database c" "rc_id c' = rc_id c"
  using assms
  by (auto simp: call_def send_def counted_def replied_def Let_def
      split: prod.splits sum.splits option.splits)

text \<open>A call leaves a connection in step exactly when it read its reply to its end: a value, or an
  error of the server.\<close>

lemma call_steps:
  assumes "call cost failure argv budget c = (res, c')" "in_step c"
  shows "in_step c' \<longleftrightarrow> (case res of Inr v \<Rightarrow> True | Inl e \<Rightarrow> (\<exists>prefix message. e = Server prefix message))"
proof (cases "send failure argv c")
  case (Pair sent c1)
  have unread: "rc_unread c1 = 1"
    using send_counts(1) [OF Pair] assms(2) by (simp add: counted_def in_step_def)
  show ?thesis
  proof (cases sent)
    case (Inl e)
    then have "\<exists>w. e = Wire w" using Pair by (auto simp: send_def Let_def split: option.splits)
    with Inl assms(1) Pair unread show ?thesis by (auto simp: call_def in_step_def)
  next
    case (Inr u)
    let ?read = "and_then (reply_head (rc_stream c1)) (\<lambda>(h, s1). rest_of cost s1 h budget)"
    show ?thesis
    proof (cases ?read)
      case (Inl e)
      with Inr assms(1) Pair unread show ?thesis by (auto simp: call_def in_step_def)
    next
      case (Inr r)
      obtain v s2 b where r: "r = (v, s2, b)" by (cases r)
      have c': "c' = replied (c1\<lparr>rc_stream := s2\<rparr>)"
        and res: "res = (case v of VError t \<Rightarrow> Inl (server_error t) | _ \<Rightarrow> Inr v)"
        using assms(1) Pair \<open>sent = Inr u\<close> Inr r by (simp_all add: call_def)
      have "in_step c'" using unread by (simp add: c' in_step_def replied_def)
      moreover have "\<exists>p m. server_error t = Server p m" for t
        by (auto simp: server_error_def Let_def split: option.split)
      ultimately show ?thesis by (simp add: res split: resp_value.split)
    qed
  qed
qed

lemma select_database_steps:
  assumes "select_database cost failure database c = (Inr (), c')" "in_step c"
  shows "in_step c'" "rc_database c' = database"
proof -
  obtain v c1 where call: "call cost failure [''SELECT'', decimal database] (2 ^ 10) c = (Inr v, c1)"
    and c': "c' = c1\<lparr>rc_database := database\<rparr>"
    using assms(1) by (auto simp: select_database_def split: prod.splits sum.splits)
  show "in_step c'" using call_steps [OF call assms(2)] by (simp add: c' in_step_def)
  show "rc_database c' = database" by (simp add: c')
qed

lemma handshake_in_step:
  assumes "handshake cost failure failure' transport spec select = Inr (h, c)"
  shows "in_step c \<and> rc_database c = (if select then cs_database spec else 0) \<and> rc_id c = hello_id h
    \<and> hd (rc_sent c) = hello_arguments spec"
proof -
  obtain s where "transport = Inr s" using assms by (auto simp: handshake_def and_then_Inr_iff)
  define c0 where "c0 = \<lparr>rc_sent = [], rc_stream = s, rc_database = 0, rc_unread = 0, rc_id = 0\<rparr>"
  have c0: "in_step c0" "rc_database c0 = 0" "rc_sent c0 = []" by (simp_all add: c0_def in_step_def)
  obtain res c1 where call: "call cost failure (hello_arguments spec) (2 ^ 16) c0 = (res, c1)"
    by fastforce
  then obtain v where v: "res = Inr v"
    using assms \<open>transport = Inr s\<close> by (cases res) (auto simp: handshake_def c0_def)
  note call = call [unfolded v]
  have c1: "in_step c1" "rc_database c1 = 0" "rc_sent c1 = [hello_arguments spec]"
    using call_steps [OF call c0(1)] call_keeps [OF call] c0 by simp_all
  have step: "(case parse_hello v of Inl e \<Rightarrow> Inl (during_connect e)
      | Inr h \<Rightarrow>
          let c = c1\<lparr>rc_id := hello_id h\<rparr> in
          if select \<and> cs_database spec \<noteq> 0 then
            (case select_database cost failure' (cs_database spec) c of
               (Inl e, c') \<Rightarrow> Inl (during_connect e) | (Inr _, c') \<Rightarrow> Inr (h, c'))
          else Inr (h, c)) = Inr (h, c)"
    using assms \<open>transport = Inr s\<close> call by (simp add: handshake_def c0_def)
  then obtain h' where h': "parse_hello v = Inr h'" by (cases "parse_hello v") auto
  let ?c = "c1\<lparr>rc_id := hello_id h'\<rparr>"
  have in_step': "in_step ?c" using c1(1) by (simp add: in_step_def)
  show ?thesis
  proof (cases "select \<and> cs_database spec \<noteq> 0")
    case False
    then show ?thesis using step h' c1 in_step' by (auto simp: Let_def)
  next
    case True
    obtain res' c2 where sel: "select_database cost failure' (cs_database spec) ?c = (res', c2)" by fastforce
    then have "res' = Inr ()" "h = h'" "c = c2"
      using step h' True by (cases res'; simp add: Let_def)+
    moreover from sel this have sel': "select_database cost failure' (cs_database spec) ?c = (Inr (), c)" by simp
    moreover have "rc_sent c = [hello_arguments spec, [''SELECT'', decimal (cs_database spec)]] \<and> rc_id c = hello_id h'"
    proof -
      obtain v' c3 where call': "call cost failure' [''SELECT'', decimal (cs_database spec)] (2 ^ 10) ?c = (Inr v', c3)"
        and c3: "c = c3\<lparr>rc_database := cs_database spec\<rparr>"
        using sel' by (auto simp: select_database_def split: prod.splits sum.splits)
      then show ?thesis using call_keeps [OF call'] c1(3) by (simp add: c3)
    qed
    ultimately show ?thesis using select_database_steps [OF sel' in_step'] True by simp
  qed
qed

text \<open>A session runs its next command on a connection that answered everything it was asked, on the
  database the console addresses; a connection left out of step is closed.\<close>

lemma open_on_in_step:
  assumes "open_on cost failure opened database = Inr c" "\<And>c. opened = Inr c \<Longrightarrow> in_step c"
  shows "in_step c \<and> rc_database c = database"
proof -
  obtain c0 where c0: "opened = Inr c0" using assms(1) by (auto simp: open_on_def and_then_Inr_iff)
  show ?thesis
  proof (cases "rc_database c0 = database")
    case True
    with assms c0 show ?thesis by (simp add: open_on_def)
  next
    case False
    obtain res c1 where sel: "select_database cost failure database c0 = (res, c1)" by fastforce
    with assms(1) c0 False have "res = Inr ()" "c = c1" by (cases res; simp add: open_on_def)+
    with sel select_database_steps [of cost failure database c0 c] assms(2) [OF c0] show ?thesis by simp
  qed
qed

lemma ready_in_step:
  assumes "ready cost failure opened database slot = (Inr (), slot')"
    and "\<And>c. opened = Inr c \<Longrightarrow> in_step c"
  shows "\<exists>c. slot' = Some c \<and> in_step c \<and> rc_database c = database"
proof (cases "\<exists>c. slot = Some c \<and> in_step c")
  case True
  then obtain c where c: "slot = Some c" "in_step c" by blast
  show ?thesis
  proof (cases "rc_database c = database")
    case False
    obtain res c1 where sel: "select_database cost failure database c = (res, c1)" by fastforce
    with assms(1) c False have "res = Inr ()" "slot' = Some c1" by (cases res; simp add: ready_def)+
    with sel select_database_steps [of cost failure database c c1] c(2) show ?thesis by simp
  qed (use assms(1) c in \<open>auto simp: ready_def\<close>)
next
  case False
  then have "ready cost failure opened database slot
      = (case open_on cost failure opened database of Inl e \<Rightarrow> (Inl e, None) | Inr c \<Rightarrow> (Inr (), Some c))"
    by (auto simp: ready_def split: option.split)
  then obtain c where "open_on cost failure opened database = Inr c" "slot' = Some c"
    using assms(1) by (auto split: sum.splits)
  with open_on_in_step [OF _ assms(2)] show ?thesis by blast
qed

lemma ready_failure_closes: "ready cost failure opened database slot = (Inl e, slot') \<Longrightarrow> slot' = None"
  by (auto simp: ready_def Let_def split: option.splits if_splits sum.splits prod.splits)

lemma set_context_in_step:
  assumes "set_context cost failure opened form cancelled catalog namespace con = (Inr (), con')"
    and "\<And>c. opened = Inr c \<Longrightarrow> in_step c"
  shows "\<exists>c database. console_slot con' = Some c \<and> in_step c \<and> rc_database c = database
    \<and> (case catalog of Some name \<Rightarrow> database_number name = Some database | None \<Rightarrow> database = form)
    \<and> console_context con' = map_option (\<lambda>_. database) catalog"
proof -
  obtain database where db: "case catalog of Some name \<Rightarrow> database_number name = Some database | None \<Rightarrow> database = form"
      and run: "(case ready cost failure opened database (console_slot con) of
                 (Inl e, slot) \<Rightarrow> (Inl e, con\<lparr>console_slot := slot\<rparr>)
               | (Inr _, slot) \<Rightarrow>
                   (Inr (), con\<lparr>console_slot := slot,
                      console_context := map_option (\<lambda>_. database) catalog\<rparr>)) = (Inr (), con')"
    using assms(1) by (auto simp: set_context_def split: if_splits option.splits)
  obtain res slot where ready: "ready cost failure opened database (console_slot con) = (res, slot)" by fastforce
  then have "res = Inr ()" using run by (cases res) auto
  with ready ready_in_step [OF _ assms(2)] obtain c where "slot = Some c" "in_step c" "rc_database c = database" by blast
  with run ready \<open>res = Inr ()\<close> db show ?thesis by auto
qed

lemma set_context_failure_keeps:
  "set_context cost failure opened form cancelled catalog namespace con = (Inl e, con')
   \<Longrightarrow> console_context con' = console_context con"
  by (auto simp: set_context_def split: if_splits option.splits sum.splits prod.splits)

subsection \<open>Names of databases\<close>

lemma digits_nat_snoc: "digits_nat (s @ [c]) = digits_nat s * 10 + (byte c - 48)"
  by (simp add: digits_nat_def)

lemma decimal_small: "n < 10 \<Longrightarrow> decimal n = [char_of (48 + n)]"
  by (subst decimal.simps) simp

lemma decimal_large: "\<not> n < 10 \<Longrightarrow> decimal n = decimal (n div 10) @ [char_of (48 + n mod 10)]"
  by (subst decimal.simps) simp

lemma byte_zero: "byte (CHR ''0'') = 48"
  by (simp add: byte_def)

lemma char_byte: "char_of (byte c) = c"
  by (simp add: byte_def)

lemma char_zero: "char_of (48 :: nat) = CHR ''0''"
  by (metis byte_zero char_byte)

lemma tens: "r < 10 \<Longrightarrow> (a * 10 + r) div 10 = a \<and> (a * 10 + r) mod 10 = (r :: nat)"
  by simp

lemma decimal_no_zero: "0 < n \<Longrightarrow> hd (decimal n) \<noteq> CHR ''0''"
proof (induction n rule: decimal.induct)
  case (1 n)
  show ?case
  proof (cases "n < 10")
    case True
    have "byte (CHR ''0'') = 48" by (rule byte_zero)
    moreover have "byte (char_of (48 + n)) = 48 + n" using True by simp
    ultimately have "char_of (48 + n) \<noteq> CHR ''0''" using 1(2) by (metis add_cancel_right_right less_irrefl)
    with True show ?thesis by (simp add: decimal_small)
  next
    case False
    then have "0 < n div 10" by simp
    with 1(1) False have "hd (decimal (n div 10)) \<noteq> CHR ''0''" by blast
    with False decimal_digits [of "n div 10"] show ?thesis by (simp add: decimal_large)
  qed
qed

lemma decimal_digits_nat:
  "list_all is_ascii_digit s \<Longrightarrow> s \<noteq> [] \<Longrightarrow> length s = 1 \<or> hd s \<noteq> CHR ''0'' \<Longrightarrow> decimal (digits_nat s) = s"
proof (induction s rule: rev_induct)
  case (snoc c s)
  have c: "48 \<le> byte c" "byte c \<le> 57"
    using snoc.prems(1) by (auto simp: is_ascii_digit_def byte_def)
  have char: "char_of (48 + (byte c - 48)) = c" using c by (simp add: byte_def)
  show ?case
  proof (cases "s = []")
    case True
    have "byte c - 48 < 10" using c by simp
    then show ?thesis using True char by (simp add: digits_nat_def decimal_small)
  next
    case False
    then have hd: "hd s \<noteq> CHR ''0''" using snoc.prems(3) by (cases s) auto
    then have s: "decimal (digits_nat s) = s" using snoc False by simp
    have pos: "digits_nat s \<noteq> 0"
    proof
      assume "digits_nat s = 0"
      with s have "s = [CHR ''0'']" by (simp add: decimal_small char_zero)
      with hd show False by simp
    qed
    have mod: "(digits_nat s * 10 + (byte c - 48)) div 10 = digits_nat s"
      "(digits_nat s * 10 + (byte c - 48)) mod 10 = byte c - 48"
      using tens [of "byte c - 48" "digits_nat s"] c by simp_all
    have "\<not> digits_nat s * 10 + (byte c - 48) < 10" using pos by simp
    then have "decimal (digits_nat s * 10 + (byte c - 48)) = s @ [c]"
      by (rule trans [OF decimal_large]) (simp only: mod char s)
    then show ?thesis by (simp only: digits_nat_snoc)
  qed
qed simp

text \<open>A context names exactly the databases the tree writes.\<close>

lemma database_numbers_name: "database_number name = Some n \<longleftrightarrow> name = database_name n \<and> n < 2 ^ 32"
proof
  assume some: "database_number name = Some n"
  let ?d = "drop 2 name"
  have d: "starts_with name ''db''" "?d \<noteq> []" "list_all is_ascii_digit ?d"
    "length ?d = 1 \<or> hd ?d \<noteq> CHR ''0''" "digits_nat ?d = n" "n < 2 ^ 32"
  proof -
    show "starts_with name ''db''" "list_all is_ascii_digit ?d" "digits_nat ?d = n" "n < 2 ^ 32"
      using some by (simp_all add: database_number_def Let_def split: if_splits)
    show ne: "?d \<noteq> []" using some by (simp add: database_number_def Let_def split: if_splits)
    have "\<not> (1 < length ?d \<and> hd ?d = CHR ''0'')"
      using some by (simp only: database_number_def Let_def split: if_splits) simp_all
    moreover have "0 < length ?d" using ne by simp
    ultimately show "length ?d = 1 \<or> hd ?d \<noteq> CHR ''0''" by linarith
  qed
  have "decimal n = ?d" using decimal_digits_nat [OF d(3,2,4)] d(5) by simp
  moreover have "name = ''db'' @ ?d"
    using d(1) by (metis append_take_drop_id length_Cons list.size(3) numeral_2_eq_2 starts_with_def)
  ultimately show "name = database_name n \<and> n < 2 ^ 32" using d(6) by (simp add: database_name_def)
next
  assume n: "name = database_name n \<and> n < 2 ^ 32"
  have "\<not> (1 < length (decimal n) \<and> hd (decimal n) = CHR ''0'')"
    using decimal_no_zero [of n] by (cases "n = 0") (simp_all add: decimal_small)
  then show "database_number name = Some n"
    using n decimal_digits [of n] by (simp add: database_number_def database_name_def starts_with_def Let_def)
qed

subsection \<open>What a lost connection proves\<close>

text \<open>A connection lost under a command that is not a proven read leaves its outcome unknown, and no
  error of a script, but that it is missing, says nothing was applied: neither is retried.\<close>

lemma lost_commands_are_not_retried:
  assumes "proven \<noteq> Some Read" "\<And>prefix message. e \<noteq> Server prefix message"
  shows "\<exists>m. during_execution driver e proven scripted = EOutcomeUnknown m"
  using assms by (cases e) (auto simp: during_execution_def)

lemma scripts_are_ambiguous:
  "class_of prefix True = (if prefix = ''NOSCRIPT'' then Permanent else Ambiguous)"
  by (simp add: class_of_def)

lemma during_execution_retryable:
  assumes "is_retryable (during_execution driver e proven scripted)"
  shows "proven = Some Read \<or> \<not> scripted \<and> (\<exists>prefix message. e = Server prefix message
    \<and> prefix \<in> {''LOADING'', ''BUSY'', ''OOM'', ''MISCONF'', ''NOREPLICAS'', ''MASTERDOWN'', ''TRYAGAIN'', ''CLUSTERDOWN''})"
  using assms
  by (cases e; cases scripted) (auto simp: during_execution_def is_retryable_def class_of_def split: if_splits)

text \<open>The password is masked in each part of an error, and an error that holds it across the blank
  that ends the prefix keeps it.\<close>

lemma passwords_with_a_blank_are_kept:
  "redacted (server_error ''hunter 2 is wrong'') (Some ''hunter 2'') = Server ''hunter'' ''2 is wrong''"
  by (simp add: redacted_def server_error_def from_utf8_lossy_ascii byte_def split_once_def
      replace_text.simps starts_with_def)

end
