(* ===== verification/Redis_Stop.thy ===== *)
theory Redis_Stop
  imports Redis_Connection
begin

text \<open>
  How a Redis command starts and how it is stopped (\<open>drivers/oxyn-driver-redis/src/cancel.rs\<close>,
  \<open>cursor.rs\<close>): the stop asked of the server, what its answers prove, and what becomes of the
  connection. What the clock and the caller decide (who wins a race, whether an answer came in time) and
  the connections of the stopper are the fields of \<open>stop_world\<close>.
\<close>

datatype stop = Sent | Impossible | Candidate | Unkillable

datatype halt = HaltCancelled | HaltTimedOut duration

record stop_world =
  sw_cost :: nat
  sw_can_stop :: bool
  sw_driver :: driver_id
  sw_stopper :: "string + redis_connection"
  sw_killer :: "string + redis_connection"
  sw_stop_failure :: "io_failure option"
  sw_kill_failure :: "io_failure option"
  sw_send_failure :: "io_failure option"
  sw_cancelled :: bool
  sw_head_halt :: "halt option"
  sw_error_halt :: "halt option"
  sw_peek_in_time :: bool
  sw_answer_in_time :: bool

subsection \<open>The stopper\<close>

fun is_word :: "resp_value \<times> string \<Rightarrow> bool" where
  "is_word (VBulk c, w) \<longleftrightarrow> \<not> clip_truncated c \<and> clip_bytes c = w"
| "is_word (VSimple t, w) \<longleftrightarrow> t = w"
| "is_word (v, w) \<longleftrightarrow> False"

definition running_script_is :: "resp_value \<Rightarrow> string list \<Rightarrow> bool" where
  "running_script_is stats argv =
     (case stats of
        VMap ps \<Rightarrow>
          (case entry_named ''running_script'' ps of
             Some (k, VMap script) \<Rightarrow>
               (case entry_named ''command'' script of
                  Some (k', VList a command) \<Rightarrow>
                    length command = length argv \<and> list_all is_word (zip command argv)
                | _ \<Rightarrow> False)
           | _ \<Rightarrow> False)
      | _ \<Rightarrow> False)"

definition stopper_connection :: "string + redis_connection \<Rightarrow> redis_error + redis_connection" where
  "stopper_connection opened =
     map_sum (UnexpectedReply ''a stop connection'') id opened"

definition ask_stop :: "stop_world \<Rightarrow> int \<Rightarrow> running \<Rightarrow> string list \<Rightarrow> redis_error + stop" where
  "ask_stop w i running argv =
     and_then (stopper_connection (sw_stopper w)) (\<lambda>c.
       case running of
         Plain \<Rightarrow> Inr Impossible
       | Blocking \<Rightarrow>
           and_then (fst (call (sw_cost w) (sw_stop_failure w)
               [''CLIENT'', ''UNBLOCK'', decimal_int i, ''ERROR''] (2 ^ 10) c))
             (\<lambda>v. Inr (if v = VInteger 1 then Sent else Impossible))
       | _ \<Rightarrow>
           and_then
             (case fst (call (sw_cost w) (sw_stop_failure w) [''FUNCTION'', ''STATS''] (2 ^ 20) c) of
                Inr stats \<Rightarrow> Inr (running = Function \<and> running_script_is stats argv)
              | Inl e \<Rightarrow> if error_prefix e = Some ''BUSY'' then Inr (running = Script) else Inl e)
             (\<lambda>ours. Inr (if ours then Candidate else Impossible)))"

definition ask_kill :: "stop_world \<Rightarrow> running \<Rightarrow> redis_error + stop" where
  "ask_kill w running =
     (if running \<in> {Blocking, Plain} then Inr Impossible
      else and_then (stopper_connection (sw_killer w)) (\<lambda>c.
        case fst (call (sw_cost w) (sw_kill_failure w)
            [if running = Script then ''SCRIPT'' else ''FUNCTION'', ''KILL''] (2 ^ 10) c) of
          Inr v \<Rightarrow> Inr Sent
        | Inl e \<Rightarrow>
            if error_prefix e = Some ''UNKILLABLE'' then Inr Unkillable
            else if error_prefix e = Some ''NOTBUSY'' then Inr Impossible
            else Inl e))"

subsection \<open>What a stop proves\<close>

definition verdict :: "halt \<Rightarrow> bool \<Rightarrow> statement_intent option \<Rightarrow> string \<Rightarrow> oxyn_error" where
  "verdict h sure known unproven =
     (if sure \<or> known = Some Read then
        (case h of HaltCancelled \<Rightarrow> ECancelled | HaltTimedOut after \<Rightarrow> ETimeout after)
      else EOutcomeUnknown (''the command was ''
        @ (case h of HaltCancelled \<Rightarrow> ''stopped''
             | HaltTimedOut after \<Rightarrow> ''timed out after '' @ decimal (after div from_secs 1) @ '' s'')
        @ '' and may have written: '' @ unproven @ ''; check the data before running it again''))"

definition reply_waits :: "stop_world \<Rightarrow> redis_connection \<Rightarrow> bool" where
  "reply_waits w c \<longleftrightarrow>
     sw_peek_in_time w \<and> (case fill_buf (rc_stream c) of Inr b \<Rightarrow> b \<noteq> [] | Inl _ \<Rightarrow> False)"

text \<open>The error a stopped command answers that proves it applied nothing.\<close>

definition stop_is_proven :: "running \<Rightarrow> redis_error \<Rightarrow> bool" where
  "stop_is_proven running e =
     (case running of
        Blocking \<Rightarrow> error_prefix e = Some ''UNBLOCKED''
      | Plain \<Rightarrow> False
      | _ \<Rightarrow> is_script_kill e \<or> error_prefix e = Some ''BUSY'')"

definition stop_of :: "stop_world \<Rightarrow> redis_plan \<Rightarrow> redis_connection \<Rightarrow> redis_error + stop" where
  "stop_of w p c =
     (let running = (if sw_can_stop w then plan_running p else Plain);
          asked = (if running = Plain then Inr Impossible
                   else ask_stop w (rc_id c) running (plan_argv p)) in
      if asked = Inr Candidate then (if reply_waits w c then Inr Sent else ask_kill w running)
      else asked)"

definition stop_before_reply ::
  "stop_world \<Rightarrow> redis_plan \<Rightarrow> halt \<Rightarrow> redis_connection option \<Rightarrow> oxyn_error \<times> redis_connection option" where
  "stop_before_reply w p h lease =
     (case lease of
        None \<Rightarrow> (verdict h False (plan_intent p) ''the connection was lost while stopping'', None)
      | Some c \<Rightarrow>
          (case stop_of w p c of
             Inr Sent \<Rightarrow>
               if \<not> sw_answer_in_time w then
                 (verdict h False (plan_intent p) ''the server did not confirm the stop'', None)
               else (case reply_head (rc_stream c) of
                   Inl e \<Rightarrow> (verdict h False (plan_intent p) ''the server did not confirm the stop'', None)
                 | Inr (HError t, s) \<Rightarrow>
                     (verdict h (stop_is_proven (plan_running p) (server_error t)) (plan_intent p)
                        ''the command answered its stop with an error of its own'',
                      Some (replied (c\<lparr>rc_stream := s\<rparr>)))
                 | Inr _ \<Rightarrow>
                     (verdict h False (plan_intent p) ''the command completed before the stop reached it'',
                      None))
           | Inr Unkillable \<Rightarrow>
               (verdict h False (plan_intent p)
                  (''the script had already written: Redis stops such a script only with SHUTDOWN ''
                   @ ''NOSAVE, which Oxyn never sends, so it runs on to its end''), None)
           | _ \<Rightarrow>
               (verdict h False (plan_intent p)
                  (''Redis cannot interrupt this command: the connection was closed, and the command ''
                   @ ''runs on to its end on the server''), None)))"

subsection \<open>The start of an execution\<close>

text \<open>\<open>RedisCursor::start\<close> up to the head of the reply, which decides the columns: the command is sent,
  the head awaited under the deadline and the token.\<close>

definition start_head ::
  "stop_world \<Rightarrow> redis_plan \<Rightarrow> redis_connection option \<Rightarrow> head result \<times> redis_connection option" where
  "start_head w p lease =
     (case lease of
        None \<Rightarrow> (Inl (EConnection ''the session's connection is closed''), None)
      | Some c \<Rightarrow>
          if sw_cancelled w then (Inl ECancelled, Some c)
          else (case send (sw_send_failure w) (plan_argv p) c of
              (Inl e, c1) \<Rightarrow>
                (Inl (during_execution (sw_driver w) e (plan_intent p) (plan_scripted p)), None)
            | (Inr _, c1) \<Rightarrow>
                (case sw_head_halt w of
                   Some h \<Rightarrow> (case stop_before_reply w p h (Some c1) of (e, lease') \<Rightarrow> (Inl e, lease'))
                 | None \<Rightarrow>
                     (case reply_head (rc_stream c1) of
                        Inl e \<Rightarrow>
                          (Inl (during_execution (sw_driver w) (Wire e) (plan_intent p) (plan_scripted p)), None)
                      | Inr (HError t, s) \<Rightarrow>
                          (Inl (during_execution (sw_driver w) (server_error t) (plan_intent p)
                             (plan_scripted p)), Some (replied (c1\<lparr>rc_stream := s\<rparr>)))
                      | Inr (HBulkError len, s) \<Rightarrow>
                          (case sw_error_halt w of
                             Some h \<Rightarrow>
                               (Inl (verdict h False (plan_intent p)
                                  ''the server was answering an error when it was stopped''), None)
                           | None \<Rightarrow>
                               (case bulk s len (2 ^ 16) of
                                  Inl e \<Rightarrow>
                                    (Inl (during_execution (sw_driver w) (Wire e) (plan_intent p)
                                       (plan_scripted p)), None)
                                | Inr (t, s') \<Rightarrow>
                                    (Inl (during_execution (sw_driver w) (server_error (clip_bytes t))
                                       (plan_intent p) (plan_scripted p)),
                                     Some (replied (c1\<lparr>rc_stream := s'\<rparr>)))))
                      | Inr (h, s) \<Rightarrow> (Inr h, Some (c1\<lparr>rc_stream := s\<rparr>))))))"

subsection \<open>Stops are judged by what the server proves\<close>

definition says_nothing_ran :: "oxyn_error \<Rightarrow> bool" where
  "says_nothing_ran e \<longleftrightarrow> (case e of ECancelled \<Rightarrow> True | ETimeout _ \<Rightarrow> True | _ \<Rightarrow> False)"

lemma verdict_says [simp]: "says_nothing_ran (verdict h sure known m) \<longleftrightarrow> sure \<or> known = Some Read"
  by (simp add: says_nothing_ran_def verdict_def split: halt.split)

lemma during_execution_says [simp]: "\<not> says_nothing_ran (during_execution d e known scripted)"
  by (cases e) (simp_all add: says_nothing_ran_def during_execution_def)

lemma stop_before_reply_says:
  assumes "stop_before_reply w p h (Some c) = (e, lease)" "says_nothing_ran e"
  shows "plan_intent p = Some Read \<or> (\<exists>t s. reply_head (rc_stream c) = Inr (HError t, s)
    \<and> stop_is_proven (plan_running p) (server_error t))"
  using assms
  by (auto simp: stop_before_reply_def split: sum.splits stop.splits if_splits head.splits)

theorem start_head_says:
  assumes "start_head w p (Some c) = (Inl e, lease)" "says_nothing_ran e" "\<not> sw_cancelled w"
  shows "plan_intent p = Some Read \<or> (\<exists>t s. reply_head (rc_stream c) = Inr (HError t, s)
    \<and> stop_is_proven (plan_running p) (server_error t))"
proof -
  obtain res c1 where send: "send (sw_send_failure w) (plan_argv p) c = (res, c1)" by fastforce
  have stream: "rc_stream c1 = rc_stream c" by (rule send_counts(4) [OF send])
  show ?thesis
  proof (cases res)
    case (Inl err)
    with assms send show ?thesis by (auto simp: start_head_def)
  next
    case (Inr u)
    show ?thesis
    proof (cases "sw_head_halt w")
      case (Some h)
      obtain e' lease' where stopped: "stop_before_reply w p h (Some c1) = (e', lease')" by fastforce
      with assms Some Inr send have "e' = e" by (simp add: start_head_def)
      with stop_before_reply_says [OF stopped] assms(2) stream show ?thesis by simp
    next
      case None
      with assms Inr send show ?thesis
        by (auto simp: start_head_def split: sum.splits head.splits option.splits)
    qed
  qed
qed

text \<open>A reply left unread costs the connection: what an execution gives back answered everything it
  was asked, and one that goes on to its reply owes exactly that reply.\<close>

lemma stop_before_reply_leases:
  assumes "stop_before_reply w p h (Some c) = (e, Some c')" "rc_unread c = 1"
  shows "in_step c'"
  using assms
  by (auto simp: stop_before_reply_def in_step_def replied_def
      split: sum.splits stop.splits if_splits head.splits)

theorem start_head_leases:
  assumes "start_head w p (Some c) = (res, Some c')" "in_step c"
  shows "case res of Inl e \<Rightarrow> in_step c' | Inr h \<Rightarrow> rc_unread c' = 1 \<and> rc_sent c' = rc_sent c @ [plan_argv p]"
proof (cases "sw_cancelled w")
  case True
  then show ?thesis using assms by (auto simp: start_head_def)
next
  case False
  obtain sent c1 where send: "send (sw_send_failure w) (plan_argv p) c = (sent, c1)" by fastforce
  have c1: "rc_unread c1 = 1" "rc_sent c1 = rc_sent c @ [plan_argv p]"
    using send_counts [OF send] assms(2) by (simp_all add: counted_def in_step_def)
  show ?thesis
  proof (cases sent)
    case (Inl err)
    with assms send False show ?thesis by (simp add: start_head_def)
  next
    case (Inr u)
    show ?thesis
    proof (cases "sw_head_halt w")
      case (Some h)
      obtain e' lease' where stopped: "stop_before_reply w p h (Some c1) = (e', lease')" by fastforce
      with assms Some Inr send False have "lease' = Some c'" "res = Inl e'" by (simp_all add: start_head_def)
      with stop_before_reply_leases [of w p h c1 e' c'] stopped c1 show ?thesis by simp
    next
      case None
      with assms Inr send False c1 show ?thesis
        by (auto simp: start_head_def in_step_def replied_def split: sum.splits head.splits option.splits)
    qed
  qed
qed

text \<open>A script chooses its error: one that answers \<open>BUSY\<close> after its writes is ambiguous when it ends on
  its own, and reads as if nothing had run when it is stopped.\<close>

lemma scripts_forge_their_stop:
  "error_class_of (during_execution d (Server ''BUSY'' m) None True) = Ambiguous
   \<and> says_nothing_ran (verdict h (stop_is_proven Script (Server ''BUSY'' m)) None u)"
  by (simp add: during_execution_def class_of_def stop_is_proven_def)

end
