(* ===== verification/Driver_Metadata.thy ===== *)
theory Driver_Metadata
  imports Connection_Types Lossy_Text
begin

text \<open>
  What a driver declares of itself and the connection parameters it accepts
  (\<open>crates/oxyn-driver/src\<close>): \<open>metadata.rs\<close>, the form of a connection and the refusal of a secret among
  the parameters that are kept; \<open>registry.rs\<close>, the drivers of a build; \<open>dsn.rs\<close>, a connection URL taken
  apart and put together. The \<open>url\<close> crate is a parameter: a parsed URL is the record \<open>url\<close>, the setters
  of an URL under construction the record \<open>url_library\<close>.
\<close>

subsection \<open>The form of a connection\<close>

datatype driver_family =
  Relational | Analytical | Document | KeyValue | Vector | Graph | TimeSeries | Search

fun family_as_str :: "driver_family \<Rightarrow> string" where
  "family_as_str Relational = ''relational''"
| "family_as_str Analytical = ''analytical''"
| "family_as_str Document = ''document''"
| "family_as_str KeyValue = ''key-value''"
| "family_as_str Vector = ''vector''"
| "family_as_str Graph = ''graph''"
| "family_as_str TimeSeries = ''time-series''"
| "family_as_str Search = ''search''"

datatype field_kind = KText | KPassword | KNumber | KBool | KChoice "string list" | KPath

fun kind_is_secret :: "field_kind \<Rightarrow> bool" where
  "kind_is_secret KPassword = True"
| "kind_is_secret k = False"

fun kind_as_str :: "field_kind \<Rightarrow> string" where
  "kind_as_str KText = ''text''"
| "kind_as_str KPassword = ''password''"
| "kind_as_str KNumber = ''number''"
| "kind_as_str KBool = ''bool''"
| "kind_as_str (KChoice vs) = ''choice''"
| "kind_as_str KPath = ''path''"

record connection_field =
  cf_key :: string
  cf_label :: string
  cf_kind :: field_kind
  cf_required :: bool
  cf_default :: "string option"
  cf_help :: "string option"

definition field_is_secret :: "connection_field \<Rightarrow> bool" where
  "field_is_secret f = kind_is_secret (cf_kind f)"

record driver_metadata =
  dm_id :: driver_id
  dm_display_name :: string
  dm_family :: driver_family
  dm_default_port :: "nat option"
  dm_fields :: "connection_field list"
  dm_aliases :: "string list"

fun driver_name :: "driver_id \<Rightarrow> string" where
  "driver_name (DriverId n) = n"

definition metadata_field :: "driver_metadata \<Rightarrow> string \<Rightarrow> connection_field option" where
  "metadata_field m key = List.find (\<lambda>f. cf_key f = key) (dm_fields m)"

definition secret_fields :: "driver_metadata \<Rightarrow> connection_field list" where
  "secret_fields m = filter field_is_secret (dm_fields m)"

subsection \<open>Keys that look like a secret\<close>

definition secret_fragments :: "string list" where
  "secret_fragments = [''password'', ''passwd'', ''pwd'', ''secret'', ''token'', ''credential'', ''api_key'',
     ''apikey'', ''access_key'', ''private_key'']"

definition secret_names :: "string list" where
  "secret_names = [''pass'', ''key'']"

definition looks_like_secret :: "string \<Rightarrow> bool" where
  "looks_like_secret key \<longleftrightarrow>
     (let normalized = map to_ascii_lower (trim key) in
      list_ex (contains_text normalized) secret_fragments \<or> normalized \<in> set secret_names)"

definition key_char :: "char \<Rightarrow> bool" where
  "key_char c \<longleftrightarrow> is_ascii_alphanumeric c \<or> c = CHR ''_'' \<or> c = CHR ''-'' \<or> c = CHR ''.''"

definition sanitize_key :: "string \<Rightarrow> string" where
  "sanitize_key key =
     (if length key \<le> 64 \<and> key \<noteq> [] \<and> list_all key_char key then key
      else ''<unrepresentable key>'')"

subsection \<open>What a declaration and a configuration must satisfy\<close>

fun check_fields :: "string \<Rightarrow> string list \<Rightarrow> connection_field list \<Rightarrow> unit result" where
  "check_fields name seen [] = Inr ()"
| "check_fields name seen (f # fs) =
     (if trim (cf_key f) = [] then
        Inl (EConfig (''driver `'' @ name @ ''`: a connection field has an empty key''))
      else if cf_key f \<in> set seen then
        Inl (EConfig (''driver `'' @ name @ ''`: connection field `'' @ cf_key f @ ''` is declared twice''))
      else if field_is_secret f \<and> cf_default f \<noteq> None then
        Inl (EConfig (''driver `'' @ name @ ''`: secret field `'' @ cf_key f
          @ ''` carries a default value, which would be written in clear text''))
      else check_fields name (seen @ [cf_key f]) fs)"

definition check_metadata :: "driver_metadata \<Rightarrow> unit result" where
  "check_metadata m = check_fields (driver_name (dm_id m)) [] (dm_fields m)"

fun refuse_secret_keys :: "string list \<Rightarrow> unit result" where
  "refuse_secret_keys [] = Inr ()"
| "refuse_secret_keys (k # ks) =
     (if looks_like_secret k then
        Inl (EConfig (''parameter `'' @ sanitize_key k
          @ ''` carries a secret: a secret lives in the system keychain ''
          @ ''and is not persisted with the connection (I-03)''))
      else refuse_secret_keys ks)"

fun require_fields :: "string \<Rightarrow> (string \<times> string) list \<Rightarrow> connection_field list \<Rightarrow> unit result" where
  "require_fields name ps [] = Inr ()"
| "require_fields name ps (f # fs) =
     (if field_is_secret f then
        (if map_of ps (cf_key f) \<noteq> None then
           Inl (EConfig (''parameter `'' @ sanitize_key (cf_key f) @ ''` is declared secret by driver `''
             @ name @ ''`: it is not persisted with the connection (I-03)''))
         else require_fields name ps fs)
      else if \<not> cf_required f \<or> cf_default f \<noteq> None then require_fields name ps fs
      else if (case map_of ps (cf_key f) of Some v \<Rightarrow> trim v \<noteq> [] | None \<Rightarrow> False)
      then require_fields name ps fs
      else Inl (EConfig (''driver `'' @ name @ ''`: parameter `'' @ cf_key f @ ''` is required'')))"

definition validate_config :: "driver_metadata \<Rightarrow> connection_config \<Rightarrow> unit result" where
  "validate_config m cfg =
     (if cfg_driver cfg \<noteq> dm_id m then
        Inl (EConfig (''the connection names driver `'' @ driver_name (cfg_driver cfg) @ ''`, not `''
          @ driver_name (dm_id m) @ ''`''))
      else and_then (refuse_secret_keys (map fst (cfg_params cfg))) (\<lambda>_.
        require_fields (driver_name (dm_id m)) (cfg_params cfg) (dm_fields m)))"

subsection \<open>The drivers of a build\<close>

text \<open>A driver is what it says its identifier is and its metadata.\<close>

record driver_entry =
  de_id :: driver_id
  de_metadata :: driver_metadata

type_synonym driver_registry = "driver_entry list"

definition register_driver :: "driver_entry \<Rightarrow> driver_registry \<Rightarrow> driver_registry result" where
  "register_driver d reg =
     and_then (check_metadata (de_metadata d)) (\<lambda>_.
       if de_id d \<noteq> dm_id (de_metadata d) then
         Inl (EConfig (''the driver declares itself `'' @ driver_name (de_id d) @ ''` but its metadata says `''
           @ driver_name (dm_id (de_metadata d)) @ ''`: it would be unreachable once registered''))
       else if find_key de_id (de_id d) reg \<noteq> None then
         Inl (EConfig (''a driver `'' @ driver_name (de_id d)
           @ ''` is already registered: replacing the original one ''
           @ ''would divert the connections that target it''))
       else Inr (reg @ [d]))"

definition require_driver :: "driver_registry \<Rightarrow> driver_id \<Rightarrow> driver_entry result" where
  "require_driver reg i =
     (case find_key de_id i reg of
        Some d \<Rightarrow> Inr d
      | None \<Rightarrow> Inl (EConfig (''no driver `'' @ driver_name i @ ''` is registered in this build of Oxyn'')))"

lemma refuse_secret_keys_iff: "refuse_secret_keys ks = Inr () \<longleftrightarrow> \<not> list_ex looks_like_secret ks"
  by (induction ks) auto

lemma require_fields_iff:
  "require_fields name ps fs = Inr () \<longleftrightarrow>
    list_all (\<lambda>f. if field_is_secret f then map_of ps (cf_key f) = None
      else cf_required f \<and> cf_default f = None \<longrightarrow>
        (case map_of ps (cf_key f) of Some v \<Rightarrow> trim v \<noteq> [] | None \<Rightarrow> False)) fs"
  by (induction fs) (auto split: option.splits)

text \<open>What a valid configuration keeps on disk: no secret, declared or recognised by its key, and all
  the driver needs.\<close>

lemma validate_config_iff:
  "validate_config m cfg = Inr () \<longleftrightarrow>
    cfg_driver cfg = dm_id m \<and> \<not> list_ex looks_like_secret (map fst (cfg_params cfg))
    \<and> require_fields (driver_name (dm_id m)) (cfg_params cfg) (dm_fields m) = Inr ()"
  by (auto simp: validate_config_def and_then_Inr_iff refuse_secret_keys_iff)

lemma check_fields_iff:
  "check_fields name seen fs = Inr () \<longleftrightarrow>
    distinct (map cf_key fs) \<and> set (map cf_key fs) \<inter> set seen = {}
    \<and> list_all (\<lambda>f. trim (cf_key f) \<noteq> [] \<and> (field_is_secret f \<longrightarrow> cf_default f = None)) fs"
  by (induction fs arbitrary: seen) auto

text \<open>A registered driver is reachable under its own identifier, and stays so.\<close>

definition registry_ok :: "driver_registry \<Rightarrow> bool" where
  "registry_ok reg \<longleftrightarrow> distinct (map de_id reg)
     \<and> list_all (\<lambda>d. de_id d = dm_id (de_metadata d) \<and> check_metadata (de_metadata d) = Inr ()) reg"

lemma register_driver_ok:
  assumes "register_driver d reg = Inr reg'" "registry_ok reg"
  shows "registry_ok reg'" "require_driver reg' (de_id d) = Inr d"
    "require_driver reg i = Inr e \<Longrightarrow> require_driver reg' i = Inr e"
proof -
  have reg': "reg' = reg @ [d]" "find_key de_id (de_id d) reg = None" "de_id d = dm_id (de_metadata d)"
    "check_metadata (de_metadata d) = Inr ()"
    using assms(1) by (auto simp: register_driver_def and_then_Inr_iff split: if_splits)
  then show "registry_ok reg'" using assms(2) by (auto simp: registry_ok_def find_key_None_iff)
  show "require_driver reg' (de_id d) = Inr d"
  proof -
    have "find_key de_id (de_id d) [d] = Some d" by (simp add: find_key_def)
    then show ?thesis using reg'(2) by (simp add: require_driver_def reg'(1) find_key_append)
  qed
  show "require_driver reg i = Inr e \<Longrightarrow> require_driver reg' i = Inr e"
    by (auto simp: require_driver_def reg'(1) find_key_append split: option.splits)
qed

subsection \<open>Connection URLs\<close>

datatype dsn_error =
    InvalidScheme string | InvalidHost string | InvalidPort string | MalformedUrl string
  | SecretInParams string | NoAuthority | RelativePath | ConflictingPath

record url =
  url_scheme :: string
  url_username :: string
  url_password :: "string option"
  url_host :: "string option"
  url_port :: "nat option"
  url_path :: string
  url_pairs :: "(string \<times> string) list"

definition hex_digit_value :: "char \<Rightarrow> nat option" where
  "hex_digit_value c =
     (let b = byte c in
      if 48 \<le> b \<and> b \<le> 57 then Some (b - 48)
      else if 97 \<le> b \<and> b \<le> 102 then Some (b - 97 + 10)
      else if 65 \<le> b \<and> b \<le> 70 then Some (b - 65 + 10)
      else None)"

fun percent_bytes :: "string \<Rightarrow> string option" where
  "percent_bytes [] = Some []"
| "percent_bytes (c # cs) =
     (if c \<noteq> CHR ''%'' then map_option ((#) c) (percent_bytes cs)
      else (case cs of
          h # l # rest \<Rightarrow>
            (case (hex_digit_value h, hex_digit_value l) of
               (Some high, Some low) \<Rightarrow>
                 map_option ((#) (char_of (high * 16 + low))) (percent_bytes rest)
             | _ \<Rightarrow> None)
        | _ \<Rightarrow> None))"

definition percent_decode :: "string \<Rightarrow> string option" where
  "percent_decode s =
     (if CHR ''%'' \<notin> set s then Some s
      else (case percent_bytes s of
          Some b \<Rightarrow> if is_utf8 b then Some b else None | None \<Rightarrow> None))"

definition decode :: "string \<Rightarrow> string \<Rightarrow> dsn_error + string" where
  "decode s detail = (case percent_decode s of Some t \<Rightarrow> Inr t | None \<Rightarrow> Inl (MalformedUrl detail))"

record dsn_parts =
  dp_scheme :: string
  dp_host :: "string option"
  dp_port :: "nat option"
  dp_user :: "string option"
  dp_segments :: "string list"
  dp_options :: "(string \<times> string) list"

record parsed_dsn =
  pd_parts :: dsn_parts
  pd_password :: "string option"
  pd_dropped :: "string list"

fun decode_all :: "string list \<Rightarrow> dsn_error + string list" where
  "decode_all [] = Inr []"
| "decode_all (s # ss) =
     and_then (decode s ''the path carries an invalid `%` encoding'') (\<lambda>t.
     and_then (decode_all ss) (\<lambda>ts. Inr (t # ts)))"

text \<open>One query parameter: an option, the password when none was found yet, or a key that is dropped.\<close>

definition query_step ::
  "string \<times> string \<Rightarrow> (string \<times> string) list \<times> string option \<times> string list
   \<Rightarrow> (string \<times> string) list \<times> string option \<times> string list" where
  "query_step kv acc =
     (case (kv, acc) of ((key, v), (options, password, dropped)) \<Rightarrow>
        if \<not> looks_like_secret key then (index_map_insert key v options, password, dropped)
        else if password = None then (options, Some v, dropped)
        else (options, password, dropped @ [sanitize_key key]))"

definition dsn_user :: "url \<Rightarrow> dsn_error + string option" where
  "dsn_user u =
     (if url_username u = [] then Inr None
      else map_sum id Some (decode (url_username u) ''the user carries an invalid `%` encoding''))"

definition dsn_password :: "url \<Rightarrow> dsn_error + string option" where
  "dsn_password u =
     (case url_password u of
        None \<Rightarrow> Inr None
      | Some raw \<Rightarrow>
          if raw = [] then Inr None
          else map_sum id Some (decode raw ''the password carries an invalid `%` encoding''))"

definition dsn_of ::
  "url \<Rightarrow> string option \<Rightarrow> string list \<Rightarrow> (string \<times> string) list \<times> string option \<times> string list \<Rightarrow> parsed_dsn"
where
  "dsn_of u user segments q =
     (case q of (options, password, dropped) \<Rightarrow>
        \<lparr>pd_parts = \<lparr>dp_scheme = url_scheme u,
           dp_host = (case url_host u of Some h \<Rightarrow> if h \<noteq> [] then Some h else None | None \<Rightarrow> None),
           dp_port = url_port u, dp_user = user, dp_segments = segments, dp_options = options\<rparr>,
         pd_password = password, pd_dropped = dropped\<rparr>)"

definition parse_dsn :: "(string \<Rightarrow> url option) \<Rightarrow> string \<Rightarrow> dsn_error + parsed_dsn" where
  "parse_dsn parse_url t =
     (case parse_url (trim t) of
        None \<Rightarrow> Inl (MalformedUrl ''expected: a scheme, an optional authority, a path'')
      | Some u \<Rightarrow>
          and_then (dsn_user u) (\<lambda>user.
          and_then (dsn_password u) (\<lambda>password.
          and_then (decode_all (filter (\<lambda>s. s \<noteq> []) (split_at (CHR ''/'') (url_path u)))) (\<lambda>segments.
            Inr (dsn_of u user segments (fold query_step (url_pairs u) ([], password, [])))))))"

definition parts_database :: "dsn_parts \<Rightarrow> string option" where
  "parts_database p =
     (case dp_segments p of [s] \<Rightarrow> if s \<noteq> [] then Some s else None | _ \<Rightarrow> None)"

definition file_path :: "dsn_parts \<Rightarrow> string option" where
  "file_path p =
     (if dp_segments p = [] then None
      else Some (concat (map (\<lambda>s. CHR ''/'' # s) (dp_segments p))))"

definition to_config :: "dsn_parts \<Rightarrow> connection_config \<Rightarrow> connection_config" where
  "to_config p fresh =
     (let with = \<lambda>key v cfg. (case v of Some x \<Rightarrow> with_param key x cfg | None \<Rightarrow> cfg);
          cfg = with ''user'' (dp_user p) (with ''port'' (map_option decimal (dp_port p))
            (with ''host'' (dp_host p) fresh));
          cfg = (case (dp_host p \<noteq> None, parts_database p, file_path p) of
              (True, Some database, _) \<Rightarrow> with_param ''database'' database cfg
            | (_, _, Some path) \<Rightarrow> with_param ''path'' path cfg
            | (_, _, None) \<Rightarrow> cfg) in
      fold (\<lambda>(key, v) cfg. if looks_like_secret key then cfg else with_param key v cfg) (dp_options p) cfg)"

text \<open>A pasted URL never leaves a secret in what is persisted: every option that looks like one is set
  aside, and the configuration passes the refusal of the driver.\<close>

lemma query_step_safe:
  "\<not> list_ex looks_like_secret (map fst opts)
   \<Longrightarrow> \<not> list_ex looks_like_secret (map fst (fst (query_step kv (opts, password, dropped))))"
  by (cases kv) (auto simp: query_step_def list_ex_iff index_map_insert_keys simp del: set_map split: if_splits)

lemma fold_query_step_safe:
  "\<not> list_ex looks_like_secret (map fst (fst acc))
   \<Longrightarrow> \<not> list_ex looks_like_secret (map fst (fst (fold query_step kvs acc)))"
proof (induction kvs arbitrary: acc)
  case (Cons kv kvs)
  obtain opts password dropped where acc: "acc = (opts, password, dropped)" by (cases acc)
  show ?case using Cons.IH [of "query_step kv acc"] query_step_safe [of opts kv password dropped] Cons.prems
    by (simp add: acc)
qed simp

lemma fold_query_step_options:
  "fold query_step kvs ([], password, []) = (opts, password', dropped)
   \<Longrightarrow> \<not> list_ex looks_like_secret (map fst opts)"
  using fold_query_step_safe [of "([], password, [])" kvs] by simp

lemma parse_dsn_options:
  assumes "parse_dsn parse_url t = Inr d"
  shows "\<not> list_ex looks_like_secret (map fst (dp_options (pd_parts d)))"
proof -
  obtain u where u: "parse_url (trim t) = Some u"
    using assms by (auto simp: parse_dsn_def split: option.splits)
  then obtain user password segments where
    d: "d = dsn_of u user segments (fold query_step (url_pairs u) ([], password, []))"
    using assms by (auto simp: parse_dsn_def and_then_Inr_iff)
  obtain opts password' dropped where
    fold: "fold query_step (url_pairs u) ([], password, []) = (opts, password', dropped)"
    by (cases "fold query_step (url_pairs u) ([], password, [])")
  show ?thesis using fold_query_step_options [OF fold] by (simp add: d fold dsn_of_def)
qed

definition config_keys_ok :: "connection_config \<Rightarrow> bool" where
  "config_keys_ok cfg \<longleftrightarrow> \<not> list_ex looks_like_secret (map fst (cfg_params cfg))"

lemma with_param_ok: "config_keys_ok cfg \<Longrightarrow> \<not> looks_like_secret k \<Longrightarrow> config_keys_ok (with_param k v cfg)"
  by (auto simp: config_keys_ok_def with_param_def list_ex_iff index_map_insert_keys simp del: set_map)

lemma fold_options_ok:
  "config_keys_ok cfg \<Longrightarrow>
   config_keys_ok (fold (\<lambda>(key, v) cfg. if looks_like_secret key then cfg else with_param key v cfg) opts cfg)"
  by (induction opts arbitrary: cfg) (auto simp: with_param_ok)

lemma address_keys:
  "\<not> looks_like_secret ''host''" "\<not> looks_like_secret ''port''" "\<not> looks_like_secret ''user''"
  "\<not> looks_like_secret ''database''" "\<not> looks_like_secret ''path''"
  by code_simp+

lemma to_config_ok: "config_keys_ok fresh \<Longrightarrow> config_keys_ok (to_config p fresh)"
  unfolding to_config_def Let_def
  by (intro fold_options_ok) (auto intro!: with_param_ok simp: address_keys split: option.splits)

text \<open>An option of the query takes the place of the address it names: the configuration of
  \<open>postgres://a/?host=b\<close> is that of the host \<open>b\<close>.\<close>

lemma options_replace_the_address:
  assumes "map_of (rev (dp_options p)) ''host'' = Some h"
  shows "map_of (cfg_params (to_config p fresh)) ''host'' = Some h"
proof -
  have keep: "map_of (cfg_params (fold (\<lambda>(key, v) cfg. if looks_like_secret key then cfg else with_param key v cfg)
      opts cfg)) ''host'' = (case map_of (rev opts) ''host'' of Some h \<Rightarrow> Some h
        | None \<Rightarrow> map_of (cfg_params cfg) ''host'')" for opts cfg
    by (induction opts arbitrary: cfg)
      (auto simp: with_param_def map_of_index_map_insert map_add_def address_keys split: option.splits)
  show ?thesis using assms unfolding to_config_def Let_def by (simp add: keep)
qed

subsection \<open>Building a URL\<close>

record dsn_builder =
  db_scheme :: string
  db_host :: "string option"
  db_port :: "nat option"
  db_default_port :: "nat option"
  db_user :: "string option"
  db_password :: "string option"
  db_database :: "string option"
  db_path :: "string option"
  db_options :: "(string \<times> string) list"

definition dsn_builder_new :: "string \<Rightarrow> dsn_builder" where
  "dsn_builder_new scheme =
     \<lparr>db_scheme = scheme, db_host = None, db_port = None, db_default_port = None, db_user = None,
      db_password = None, db_database = None, db_path = None, db_options = []\<rparr>"

text \<open>\<open>str::parse\<close> of an unsigned integer below a bound: an optional plus, then digits.\<close>

definition parse_nat_below :: "nat \<Rightarrow> string \<Rightarrow> nat option" where
  "parse_nat_below bound s =
     (let digits = (case s of c # cs \<Rightarrow> if c = CHR ''+'' then cs else s | [] \<Rightarrow> s) in
      if digits \<noteq> [] \<and> list_all is_ascii_digit digits \<and> digits_nat digits < bound
      then Some (digits_nat digits) else None)"

text \<open>The component of the URL a parameter becomes.\<close>

datatype role = RHost | RPort | RUser | RDatabase | RPath | ROption

definition param_role :: "string \<Rightarrow> role" where
  "param_role key =
     (let name = map to_ascii_lower (trim key) in
      if name \<in> {''host'', ''hostname'', ''server''} then RHost
      else if name = ''port'' then RPort
      else if name \<in> {''user'', ''username''} then RUser
      else if name \<in> {''database'', ''dbname'', ''db''} then RDatabase
      else if name \<in> {''path'', ''file'', ''filename''} then RPath
      else ROption)"

definition take_param :: "string \<times> string \<Rightarrow> dsn_builder \<Rightarrow> dsn_error + dsn_builder" where
  "take_param kv b =
     (case kv of (key, v) \<Rightarrow>
        if looks_like_secret key then Inl (SecretInParams (sanitize_key key))
        else (case param_role key of
            RHost \<Rightarrow> Inr (b\<lparr>db_host := Some v\<rparr>)
          | RPort \<Rightarrow>
              (case parse_nat_below (2 ^ 16) (trim v) of
                 None \<Rightarrow> Inl (InvalidPort ''expected: an integer between 1 and 65535'')
               | Some n \<Rightarrow> Inr (b\<lparr>db_port := Some n\<rparr>))
          | RUser \<Rightarrow> Inr (b\<lparr>db_user := Some v\<rparr>)
          | RDatabase \<Rightarrow> Inr (b\<lparr>db_database := Some v\<rparr>)
          | RPath \<Rightarrow> Inr (b\<lparr>db_path := Some v\<rparr>)
          | ROption \<Rightarrow> Inr (b\<lparr>db_options := index_map_insert key v (db_options b)\<rparr>)))"

fun take_params :: "(string \<times> string) list \<Rightarrow> dsn_builder \<Rightarrow> dsn_error + dsn_builder" where
  "take_params [] b = Inr b"
| "take_params (kv # ps) b = and_then (take_param kv b) (take_params ps)"

definition builder_from_config :: "connection_config \<Rightarrow> dsn_error + dsn_builder" where
  "builder_from_config cfg =
     and_then (take_params (cfg_params cfg) (dsn_builder_new (driver_name (cfg_driver cfg)))) (\<lambda>b.
       if db_path b \<noteq> None \<and> db_database b \<noteq> None then Inl ConflictingPath else Inr b)"

definition builder_for_driver :: "driver_metadata \<Rightarrow> connection_config \<Rightarrow> dsn_error + dsn_builder" where
  "builder_for_driver m cfg =
     and_then (builder_from_config cfg) (\<lambda>b. Inr (b\<lparr>db_default_port := dm_default_port m\<rparr>))"

definition validate_scheme :: "string \<Rightarrow> dsn_error + unit" where
  "validate_scheme scheme =
     (case scheme of
        [] \<Rightarrow> Inl (InvalidScheme ''the scheme is empty'')
      | c # cs \<Rightarrow>
          if \<not> is_ascii_alphabetic c then
            Inl (InvalidScheme ''the scheme must start with an ASCII letter'')
          else if \<not> list_all (\<lambda>c. is_ascii_alphanumeric c \<or> c \<in> {CHR ''+'', CHR ''-'', CHR ''.''}) cs then
            Inl (InvalidScheme (''allowed characters: letters, digits, `+`, `-`, `.` ''
              @ [char_of (0xE2 :: nat), char_of (0x80 :: nat), char_of (0x94 :: nat)] @ '' not `_`''))
          else Inr ())"

definition check_host :: "string \<Rightarrow> dsn_error + unit" where
  "check_host host =
     (if starts_with host ''['' then
        (if ends_with host '']'' then Inr ()
         else Inl (InvalidHost ''IPv6 address without a closing bracket''))
      else if CHR '':'' \<in> set host then
        Inl (InvalidHost ''the port does not belong in the host: it would be ignored silently'')
      else Inr ())"

definition dsn_path_segments :: "dsn_builder \<Rightarrow> dsn_error + string list" where
  "dsn_path_segments b =
     (case db_path b of
        Some path \<Rightarrow>
          if \<not> starts_with path ''/'' then Inl RelativePath
          else Inr (filter (\<lambda>s. s \<noteq> []) (split_at (CHR ''/'') path))
      | None \<Rightarrow>
          (case db_database b of
             Some database \<Rightarrow> if database \<noteq> [] then Inr [database] else Inr []
           | None \<Rightarrow> Inr []))"

text \<open>The accessors of a URL under construction.\<close>

record 'u url_library =
  ul_placeholder :: "string \<Rightarrow> 'u option"
  ul_extend_path :: "string list \<Rightarrow> 'u \<Rightarrow> 'u option"
  ul_append_pairs :: "(string \<times> string) list \<Rightarrow> 'u \<Rightarrow> 'u"
  ul_set_host :: "string \<Rightarrow> 'u \<Rightarrow> 'u option"
  ul_set_port :: "nat \<Rightarrow> 'u \<Rightarrow> 'u option"
  ul_set_username :: "string \<Rightarrow> 'u \<Rightarrow> 'u option"

definition or_err :: "dsn_error \<Rightarrow> 'a option \<Rightarrow> dsn_error + 'a" where
  "or_err e m = (case m of Some x \<Rightarrow> Inr x | None \<Rightarrow> Inl e)"

definition set_authority ::
  "'u url_library \<Rightarrow> string option \<Rightarrow> nat option \<Rightarrow> string option \<Rightarrow> 'u \<Rightarrow> dsn_error + 'u" where
  "set_authority lib host port user u =
     (case host of
        None \<Rightarrow> or_err (InvalidHost ''this URL form does not accept an empty authority'') (ul_set_host lib [] u)
      | Some h \<Rightarrow>
          and_then (check_host h) (\<lambda>_.
          and_then (or_err (InvalidHost ''forbidden character in a host name'') (ul_set_host lib h u)) (\<lambda>u.
          and_then (case port of None \<Rightarrow> Inr u
              | Some n \<Rightarrow> or_err (InvalidHost ''this URL form does not accept a port'') (ul_set_port lib n u)) (\<lambda>u.
          (case user of None \<Rightarrow> Inr u
             | Some name \<Rightarrow> or_err (InvalidHost ''this URL form does not accept a user'')
                 (ul_set_username lib name u))))))"

text \<open>The URL, and the password beside it.\<close>

definition named_host :: "dsn_builder \<Rightarrow> string option" where
  "named_host b = (case db_host b of Some h \<Rightarrow> if h \<noteq> [] then Some h else None | None \<Rightarrow> None)"

definition port_used :: "dsn_builder \<Rightarrow> nat option" where
  "port_used b = (case db_port b of Some n \<Rightarrow> Some n | None \<Rightarrow> db_default_port b)"

definition lay_out :: "'u url_library \<Rightarrow> dsn_builder \<Rightarrow> string list \<Rightarrow> dsn_error + 'u" where
  "lay_out lib b segments =
     and_then (or_err (InvalidScheme ''expected: a letter, then letters, digits, `+`, `-` or `.`'')
       (ul_placeholder lib (db_scheme b))) (\<lambda>u.
     and_then (if segments = [] then Inr u
       else or_err (MalformedUrl ''this URL form does not accept a path'') (ul_extend_path lib segments u)) (\<lambda>u.
     Inr (if db_options b = [] then u else ul_append_pairs lib (db_options b) u)))"

definition build_dsn :: "'u url_library \<Rightarrow> dsn_builder \<Rightarrow> dsn_error + 'u \<times> string option" where
  "build_dsn lib b =
     and_then (validate_scheme (db_scheme b)) (\<lambda>_.
       if db_path b \<noteq> None \<and> db_database b \<noteq> None then Inl ConflictingPath
       else if named_host b = None \<and> (port_used b \<noteq> None \<or> db_user b \<noteq> None \<or> db_password b \<noteq> None)
       then Inl NoAuthority
       else
         and_then (dsn_path_segments b) (\<lambda>segments.
         and_then (lay_out lib b segments) (\<lambda>u.
         and_then (set_authority lib (named_host b) (port_used b) (db_user b) u) (\<lambda>u.
           Inr (u, db_password b)))))"

text \<open>A builder made from a configuration carries no secret but the password set apart.\<close>

definition builder_ok :: "dsn_builder \<Rightarrow> bool" where
  "builder_ok b \<longleftrightarrow> \<not> list_ex looks_like_secret (map fst (db_options b)) \<and> db_password b = None"

lemma take_param_safe:
  assumes "take_param (key, v) b = Inr b'" "builder_ok b"
  shows "\<not> looks_like_secret key \<and> builder_ok b'"
proof
  show safe: "\<not> looks_like_secret key" using assms(1) by (simp add: take_param_def split: if_splits)
  have "builder_ok (b\<lparr>db_options := index_map_insert key v (db_options b)\<rparr>)"
    using assms(2) safe by (auto simp: builder_ok_def list_ex_iff index_map_insert_keys simp del: set_map)
  moreover have "builder_ok (b\<lparr>db_host := x\<rparr>)" "builder_ok (b\<lparr>db_port := y\<rparr>)" "builder_ok (b\<lparr>db_user := x\<rparr>)"
    "builder_ok (b\<lparr>db_database := x\<rparr>)" "builder_ok (b\<lparr>db_path := x\<rparr>)" for x y
    using assms(2) by (simp_all add: builder_ok_def)
  ultimately show "builder_ok b'"
    using assms(1) safe by (cases "param_role key") (auto simp: take_param_def split: option.splits)
qed

lemma take_params_safe:
  "take_params ps b = Inr b' \<Longrightarrow> builder_ok b \<Longrightarrow>
   \<not> list_ex looks_like_secret (map fst ps) \<and> builder_ok b'"
proof (induction ps arbitrary: b)
  case (Cons kv ps)
  obtain key v where kv: "kv = (key, v)" by (cases kv)
  from Cons.prems obtain b1 where "take_param (key, v) b = Inr b1" "take_params ps b1 = Inr b'"
    by (auto simp: kv and_then_Inr_iff)
  with take_param_safe [of key v b b1] Cons.IH [of b1] Cons.prems(2) show ?case by (simp add: kv)
qed simp

lemma builder_from_config_safe:
  assumes "builder_from_config cfg = Inr b"
  shows "config_keys_ok cfg \<and> builder_ok b"
proof -
  have "take_params (cfg_params cfg) (dsn_builder_new (driver_name (cfg_driver cfg))) = Inr b"
    using assms by (auto simp: builder_from_config_def and_then_Inr_iff split: if_splits)
  then show ?thesis
    using take_params_safe [of "cfg_params cfg"] by (simp add: config_keys_ok_def builder_ok_def dsn_builder_new_def)
qed

text \<open>What a built URL cannot hide: a port in the host, a relative path, credentials without a host.\<close>

lemma set_authority_host: "set_authority lib (Some h) port user u = Inr u' \<Longrightarrow> check_host h = Inr ()"
  by (auto simp: set_authority_def and_then_Inr_iff)

lemma path_segments_absolute: "dsn_path_segments b = Inr ss \<Longrightarrow> db_path b = Some path \<Longrightarrow> starts_with path ''/''"
  by (simp add: dsn_path_segments_def split: if_splits)

lemma build_dsn_sound:
  assumes "build_dsn lib b = Inr (u, password)"
  shows "password = db_password b \<and> (db_path b = None \<or> db_database b = None)
    \<and> (\<forall>h. named_host b = Some h \<longrightarrow> check_host h = Inr ())
    \<and> (\<forall>path. db_path b = Some path \<longrightarrow> starts_with path ''/'')
    \<and> (named_host b = None \<longrightarrow> db_port b = None \<and> db_user b = None \<and> password = None)"
proof -
  have "\<not> (db_path b \<noteq> None \<and> db_database b \<noteq> None)"
    "\<not> (named_host b = None \<and> (port_used b \<noteq> None \<or> db_user b \<noteq> None \<or> db_password b \<noteq> None))"
    using assms by (auto simp: build_dsn_def and_then_Inr_iff split: if_splits)
  moreover from this obtain ss u' where "dsn_path_segments b = Inr ss" "password = db_password b"
    "set_authority lib (named_host b) (port_used b) (db_user b) u' = Inr u"
    using assms by (auto simp: build_dsn_def and_then_Inr_iff)
  ultimately show ?thesis
    using path_segments_absolute [of b ss] set_authority_host [of lib _ "port_used b" "db_user b" u' u]
    by (auto simp: port_used_def split: option.splits)
qed

end
