(* ===== verification/Redis_Options.thy ===== *)
theory Redis_Options
  imports Driver_Metadata Redis_Connection
begin

text \<open>
  What the Redis driver makes of a connection's parameters
  (\<open>drivers/oxyn-driver-redis/src/options.rs\<close>, the form of \<open>driver.rs\<close>): where the server is, who
  connects, and how far the server must be authenticated.
\<close>

datatype tls_mode = VerifyFull | TlsRequire | TlsDisable

definition tls_modes :: "tls_mode list" where
  "tls_modes = [VerifyFull, TlsRequire, TlsDisable]"

fun tls_name :: "tls_mode \<Rightarrow> string" where
  "tls_name VerifyFull = ''verify-full''"
| "tls_name TlsRequire = ''require''"
| "tls_name TlsDisable = ''disable''"

definition tls_parse :: "string \<Rightarrow> tls_mode result" where
  "tls_parse v =
     (case List.find (\<lambda>m. eq_ignore_case (tls_name m) v) tls_modes of
        Some m \<Rightarrow> Inr m
      | None \<Rightarrow> Inl (EConfig
          (''parameter `tls` expects one of verify-full, require, disable; got `'' @ v @ ''`'')))"

datatype address = Tcp string nat | UnixSocket string

record redis_spec =
  rs_address :: address
  rs_database :: nat
  rs_user :: "string option"
  rs_password :: "string option"
  rs_tls :: tls_mode
  rs_ca_file :: "string option"

definition default_port :: nat where "default_port = 6379"

definition max_database :: nat where "max_database = 2 ^ 20"

record redis_params =
  rp_host :: "string option"
  rp_port :: nat
  rp_socket :: "string option"
  rp_database :: nat
  rp_user :: "string option"
  rp_tls :: tls_mode
  rp_ca_file :: "string option"

definition default_params :: redis_params where
  "default_params =
     \<lparr>rp_host = None, rp_port = default_port, rp_socket = None, rp_database = 0, rp_user = None,
      rp_tls = VerifyFull, rp_ca_file = None\<rparr>"

definition filled :: "string \<Rightarrow> string option" where
  "filled v = (if v = [] then None else Some v)"

definition read_port :: "string \<Rightarrow> nat result" where
  "read_port v =
     (case parse_nat_below (2 ^ 16) v of
        Some n \<Rightarrow> if 0 < n then Inr n
          else Inl (EConfig ''parameter `port` expects an integer between 1 and 65535'')
      | None \<Rightarrow> Inl (EConfig ''parameter `port` expects an integer between 1 and 65535''))"

definition read_database :: "string \<Rightarrow> nat result" where
  "read_database v =
     (if v = [] then Inr 0
      else (case parse_nat_below (2 ^ 32) v of
          Some n \<Rightarrow> if n \<le> max_database then Inr n
            else Inl (EConfig ''parameter `database` expects a database number, 0 for the first'')
        | None \<Rightarrow> Inl (EConfig ''parameter `database` expects a database number, 0 for the first'')))"

definition param_step :: "string \<times> string \<Rightarrow> redis_params \<Rightarrow> redis_params result" where
  "param_step kv p =
     (case kv of (key, raw) \<Rightarrow>
        let v = trim raw; name = map to_ascii_lower (trim key) in
        if name \<in> {''host'', ''hostname''} then Inr (p\<lparr>rp_host := filled v\<rparr>)
        else if name = ''port'' then and_then (read_port v) (\<lambda>n. Inr (p\<lparr>rp_port := n\<rparr>))
        else if name = ''socket'' then Inr (p\<lparr>rp_socket := filled v\<rparr>)
        else if name \<in> {''database'', ''db''} then
          and_then (read_database v) (\<lambda>n. Inr (p\<lparr>rp_database := n\<rparr>))
        else if name \<in> {''user'', ''username''} then Inr (p\<lparr>rp_user := filled v\<rparr>)
        else if name = ''tls'' then and_then (tls_parse v) (\<lambda>m. Inr (p\<lparr>rp_tls := m\<rparr>))
        else if name = ''ca_file'' then Inr (p\<lparr>rp_ca_file := filled v\<rparr>)
        else Inl (EConfig (''parameter `'' @ name @ ''` is not a Redis connection option Oxyn applies'')))"

fun read_params :: "(string \<times> string) list \<Rightarrow> redis_params \<Rightarrow> redis_params result" where
  "read_params [] p = Inr p"
| "read_params (kv # kvs) p = and_then (param_step kv p) (read_params kvs)"

definition address_of :: "redis_params \<Rightarrow> address result" where
  "address_of p =
     (case (rp_socket p, rp_host p) of
        (Some path, None) \<Rightarrow> Inr (UnixSocket path)
      | (Some path, Some host) \<Rightarrow>
          if host = ''localhost'' then Inr (UnixSocket path)
          else Inl (EConfig ''a connection names either a socket or a host, not both'')
      | (None, host) \<Rightarrow>
          Inr (Tcp (case host of Some h \<Rightarrow> h | None \<Rightarrow> ''localhost'') (rp_port p)))"

definition is_unix :: "address \<Rightarrow> bool" where
  "is_unix a = (case a of UnixSocket _ \<Rightarrow> True | Tcp _ _ \<Rightarrow> False)"

definition tls_for :: "address \<Rightarrow> environment \<Rightarrow> tls_mode \<Rightarrow> tls_mode result" where
  "tls_for a env tls =
     (if is_unix a \<and> tls \<noteq> TlsDisable then Inr TlsDisable
      else if tls \<noteq> VerifyFull \<and> env \<noteq> Local then
        Inl (EConfig (''`tls = '' @ tls_name tls
          @ ''` is only accepted on a connection marked Local: elsewhere the server must be authenticated ''
          @ ''(`verify-full`)''))
      else Inr tls)"

definition form_field ::
  "string \<Rightarrow> string \<Rightarrow> field_kind \<Rightarrow> bool \<Rightarrow> string option \<Rightarrow> string option \<Rightarrow> connection_field" where
  "form_field key label kind needed preset help =
     \<lparr>cf_key = key, cf_label = label, cf_kind = kind, cf_required = needed, cf_default = preset,
      cf_help = help\<rparr>"

definition redis_metadata :: driver_metadata where
  "redis_metadata =
     \<lparr>dm_id = DriverId ''redis'', dm_display_name = ''Redis'', dm_family = KeyValue,
      dm_default_port = Some default_port,
      dm_fields =
        [form_field ''host'' ''Host'' KText True (Some ''localhost'') None,
         form_field ''port'' ''Port'' KNumber False (Some (decimal default_port)) None,
         form_field ''database'' ''Database number'' KNumber False (Some ''0'')
           (Some ''The database SELECT opens on; the tree lists the others.''),
         form_field ''user'' ''User'' KText False None
           (Some ''An ACL user. Empty: Redis's `default` user.''),
         form_field ''password'' ''Password'' KPassword False None (Some ''Stored in the system keyring.''),
         form_field ''tls'' ''TLS mode'' (KChoice (map tls_name tls_modes)) False
           (Some (tls_name VerifyFull)) None,
         form_field ''ca_file'' ''CA certificate'' KPath False None
           (Some (''A PEM file of the authority that signed the server's certificate. ''
             @ ''Empty: the public roots.'')),
         form_field ''socket'' ''Unix socket'' KPath False None
           (Some ''Instead of a host: a socket on this machine. TLS does not apply.'')],
      dm_aliases = [''Valkey'']\<rparr>"

definition spec_from_config ::
  "driver_metadata \<Rightarrow> connection_config \<Rightarrow> string option \<Rightarrow> redis_spec result" where
  "spec_from_config m cfg password =
     and_then (validate_config m cfg) (\<lambda>_.
     and_then (read_params (cfg_params cfg) default_params) (\<lambda>p.
     and_then (address_of p) (\<lambda>a.
     and_then (tls_for a (cfg_environment cfg) (rp_tls p)) (\<lambda>tls.
       if rp_ca_file p \<noteq> None \<and> tls \<noteq> VerifyFull then
         Inl (EConfig ''a CA file is only read to verify the server: it needs `tls = verify-full`'')
       else
         Inr \<lparr>rs_address = a, rs_database = rp_database p, rs_user = rp_user p, rs_password = password,
              rs_tls = tls, rs_ca_file = rp_ca_file p\<rparr>))))"

text \<open>What the handshake reads of it.\<close>

definition spec_login :: "redis_spec \<Rightarrow> connect_spec" where
  "spec_login s = \<lparr>cs_user = rs_user s, cs_password = rs_password s, cs_database = rs_database s\<rparr>"

subsection \<open>What a specification guarantees\<close>

lemma param_step_bounds:
  "param_step kv p = Inr p' \<Longrightarrow> 0 < rp_port p \<and> rp_port p < 2 ^ 16 \<and> rp_database p \<le> max_database
   \<Longrightarrow> 0 < rp_port p' \<and> rp_port p' < 2 ^ 16 \<and> rp_database p' \<le> max_database"
  by (auto simp: param_step_def Let_def and_then_Inr_iff read_port_def read_database_def parse_nat_below_def
      split: if_splits prod.splits option.splits)

lemma read_params_bounds:
  "read_params kvs p = Inr p' \<Longrightarrow> 0 < rp_port p \<and> rp_port p < 2 ^ 16 \<and> rp_database p \<le> max_database
   \<Longrightarrow> 0 < rp_port p' \<and> rp_port p' < 2 ^ 16 \<and> rp_database p' \<le> max_database"
proof (induction kvs arbitrary: p)
  case (Cons kv kvs)
  then obtain q where "param_step kv p = Inr q" "read_params kvs q = Inr p'" by (auto simp: and_then_Inr_iff)
  with Cons.IH [of q] param_step_bounds [of kv p q] Cons.prems(2) show ?case by blast
qed simp

text \<open>Outside a connection marked \<open>Local\<close>, a server reached over the network is authenticated, and no
  parameter of the connection carries a secret.\<close>

theorem networks_are_authenticated:
  assumes "spec_from_config redis_metadata cfg password = Inr s"
  shows "(case rs_address s of
      Tcp host port \<Rightarrow> (cfg_environment cfg \<noteq> Local \<longrightarrow> rs_tls s = VerifyFull) \<and> 0 < port \<and> port < 2 ^ 16
    | UnixSocket path \<Rightarrow> rs_tls s = TlsDisable)
    \<and> rs_database s \<le> max_database \<and> (rs_ca_file s \<noteq> None \<longrightarrow> rs_tls s = VerifyFull)
    \<and> config_keys_ok cfg"
proof -
  obtain p where p: "validate_config redis_metadata cfg = Inr ()" "read_params (cfg_params cfg) default_params = Inr p"
    "address_of p = Inr (rs_address s)" "tls_for (rs_address s) (cfg_environment cfg) (rp_tls p) = Inr (rs_tls s)"
    "rs_database s = rp_database p" "rs_ca_file s = rp_ca_file p" "rp_ca_file p \<noteq> None \<longrightarrow> rs_tls s = VerifyFull"
    using assms by (auto simp: spec_from_config_def and_then_Inr_iff split: if_splits)
  have "0 < rp_port p \<and> rp_port p < 2 ^ 16 \<and> rp_database p \<le> max_database"
    using read_params_bounds [OF p(2)] by (simp add: default_params_def default_port_def)
  moreover have "config_keys_ok cfg" using p(1) by (simp add: validate_config_iff config_keys_ok_def)
  ultimately show ?thesis
    using p(3-7) by (cases "rs_address s")
      (auto simp: address_of_def tls_for_def is_unix_def split: option.splits if_splits)
qed

text \<open>The form itself is well declared.\<close>

lemma redis_metadata_ok: "check_metadata redis_metadata = Inr ()"
  by (simp add: check_metadata_def check_fields_iff redis_metadata_def form_field_def field_is_secret_def)
    code_simp

end
