(* ===== verification/Redis_Text.thy ===== *)
theory Redis_Text
  imports Redis_Argv Editor_Selection
begin

text \<open>
  The Redis side of a console text (\<open>crates/oxyn-query/src/redis.rs\<close>): the command under the cursor,
  and the credentials taken out of a text before it is kept. A keyword is compared on the decoded
  bytes: a lossy decoding never makes other bytes an ASCII word.
\<close>

subsection \<open>The command under the cursor\<close>

text \<open>The spans of the lines outside quotes, up to the one that holds the cursor.\<close>

function lines_from ::
  "nat \<Rightarrow> nat \<Rightarrow> string \<Rightarrow> nat \<Rightarrow> nat \<Rightarrow> (char \<times> nat) option \<Rightarrow> (nat \<times> nat) list \<Rightarrow> nat + (nat \<times> nat) list"
where
  "lines_from n cursor [] i start quote spans =
     (case quote of Some (q, opened) \<Rightarrow> Inl opened | None \<Rightarrow> Inr (spans @ [(start, n)]))"
| "lines_from n cursor (c # cs) i start (Some (q, opened)) spans =
     (if q = double_quote \<and> c = backslash
         \<or> q = single_quote \<and> c = backslash \<and> get_at cs 0 = Some single_quote
      then lines_from n cursor (tl cs) (i + 2) start (Some (q, opened)) spans
      else lines_from n cursor cs (i + 1) start (if c = q then None else Some (q, opened)) spans)"
| "lines_from n cursor (c # cs) i start None spans =
     (if c = double_quote \<or> c = single_quote then lines_from n cursor cs (i + 1) start (Some (c, i)) spans
      else if c = line_feed then
        (if cursor < i + 1 then Inr (spans @ [(start, i)])
         else lines_from n cursor cs (i + 1) (i + 1) None (spans @ [(start, i)]))
      else lines_from n cursor cs (i + 1) start None spans)"
  by pat_completeness auto
termination
  by (relation "measure (\<lambda>(n, cursor, cs, i, start, quote, spans). length cs)") (auto simp: le_diff_conv)

definition quote_never_closed :: "nat \<Rightarrow> string" where
  "quote_never_closed opened =
     ''a quote opened at byte '' @ decimal opened
     @ '' is never closed, so where the command ends is unknown: select the command to run''"

definition command_spans :: "string \<Rightarrow> nat \<Rightarrow> query_error + (nat \<times> nat) list" where
  "command_spans sql cursor =
     map_sum (\<lambda>opened. QSelection cursor (quote_never_closed opened)) id
       (lines_from (length sql) cursor sql 0 0 None [])"

definition current_command :: "string \<Rightarrow> nat \<Rightarrow> query_error + string option" where
  "current_command sql cursor =
     (if \<not> is_char_boundary sql cursor
      then Inl (QSelection cursor ''the cursor is not on a character boundary'')
      else (case command_spans sql cursor of
          Inl e \<Rightarrow> Inl e
        | Inr spans \<Rightarrow>
            Inr (case find (\<lambda>(start, stop). start \<le> cursor \<and> cursor \<le> stop \<or> cursor < start) spans of
                None \<Rightarrow> None
              | Some (start, stop) \<Rightarrow>
                  if cursor < start then None
                  else (let command = trim (case get_range sql start stop of None \<Rightarrow> [] | Some s \<Rightarrow> s)
                        in if command = [] then None else Some command))))"

subsection \<open>Redaction\<close>

definition secret_parameters :: "string list" where
  "secret_parameters =
     [''requirepass'', ''masterauth'', ''masteruser'', ''tls-key-file-pass'', ''tls-client-key-file-pass'']"

abbreviation "redacted_value \<equiv> ''<redacted>''"

definition lower_word :: "string \<Rightarrow> string" where
  "lower_word w = map to_ascii_lower w"

definition word_at :: "argument list \<Rightarrow> nat \<Rightarrow> string option" where
  "word_at command i = map_option (\<lambda>a. lower_word (arg_bytes a)) (get_at command i)"

definition span_of :: "string \<Rightarrow> argument \<Rightarrow> nat \<times> nat \<times> string" where
  "span_of marker a = (arg_start a, arg_end a, marker)"

definition auth_secrets :: "argument list \<Rightarrow> (nat \<times> nat \<times> string) list" where
  "auth_secrets command = (if 1 < length command then [span_of redacted_value (last command)] else [])"

definition hello_secrets :: "argument list \<Rightarrow> (nat \<times> nat \<times> string) list" where
  "hello_secrets command =
     (case find (\<lambda>i. word_at command i = Some ''auth'') [1 ..< length command] of
        None \<Rightarrow> []
      | Some i \<Rightarrow> (case get_at command (i + 2) of None \<Rightarrow> [] | Some a \<Rightarrow> [span_of redacted_value a]))"

definition rule_marker :: "string \<Rightarrow> string option" where
  "rule_marker rule =
     (case get_at rule 0 of
        None \<Rightarrow> None
      | Some c \<Rightarrow> if c \<in> {CHR ''>'', CHR ''<'', CHR ''#'', CHR ''!''} then Some (c # redacted_value) else None)"

definition acl_secrets :: "argument list \<Rightarrow> (nat \<times> nat \<times> string) list" where
  "acl_secrets command =
     List.map_filter (\<lambda>a. map_option (\<lambda>m. span_of m a) (rule_marker (arg_bytes a))) (drop 3 command)"

text \<open>Whatever follows the name of a secret parameter.\<close>

definition after_keyword :: "argument list \<Rightarrow> nat \<Rightarrow> nat \<Rightarrow> (nat \<times> nat \<times> string) list" where
  "after_keyword command i offset =
     (case get_at command (i + offset) of None \<Rightarrow> [] | Some a \<Rightarrow> [span_of redacted_value a])"

definition config_secrets :: "argument list \<Rightarrow> (nat \<times> nat \<times> string) list" where
  "config_secrets command =
     concat (map (\<lambda>i. if lower_word (arg_bytes (command ! i)) \<in> set secret_parameters
                      then after_keyword command i 1 else []) [2 ..< length command])"

definition migrate_secrets :: "argument list \<Rightarrow> (nat \<times> nat \<times> string) list" where
  "migrate_secrets command =
     concat (map (\<lambda>i. if word_at command i = Some ''auth'' then after_keyword command i 1
                      else if word_at command i = Some ''auth2'' then after_keyword command i 2
                      else []) [0 ..< length command])"

definition secrets_of :: "argument list \<Rightarrow> (nat \<times> nat \<times> string) list" where
  "secrets_of command =
     (case word_at command 0 of
        None \<Rightarrow> []
      | Some name \<Rightarrow>
          if name = ''auth'' then auth_secrets command
          else if name = ''hello'' then hello_secrets command
          else if name = ''acl'' \<and> word_at command 1 = Some ''setuser'' then acl_secrets command
          else if name = ''config'' \<and> word_at command 1 = Some ''set'' then config_secrets command
          else if name = ''migrate'' then migrate_secrets command
          else [])"

fun put_markers :: "string \<Rightarrow> nat \<Rightarrow> (nat \<times> nat \<times> string) list \<Rightarrow> string" where
  "put_markers sql copied [] = (case get_range sql copied (length sql) of None \<Rightarrow> [] | Some s \<Rightarrow> s)"
| "put_markers sql copied ((start, stop, marker) # rest) =
     (if start < copied then put_markers sql copied rest
      else (case get_range sql copied start of None \<Rightarrow> [] | Some s \<Rightarrow> s) @ marker
             @ put_markers sql stop rest)"

definition redact_redis :: "string \<Rightarrow> string" where
  "redact_redis sql =
     (let found = concat (map secrets_of (redis_commands sql))
      in if found = [] then sql else put_markers sql 0 (sort_key fst found))"

subsection \<open>What is redacted\<close>

text \<open>The arguments of a text are apart from each other, and none is empty as written.\<close>

fun args_ok :: "nat \<Rightarrow> nat \<Rightarrow> argument list \<Rightarrow> bool" where
  "args_ok lo n [] \<longleftrightarrow> lo \<le> n"
| "args_ok lo n (a # args) \<longleftrightarrow> lo \<le> arg_start a \<and> arg_start a < arg_end a \<and> args_ok (arg_end a) n args"

lemma args_ok_le: "args_ok lo n args \<Longrightarrow> lo \<le> n"
  by (induction args arbitrary: lo) force+

lemma args_ok_mono: "args_ok lo n args \<Longrightarrow> n \<le> n' \<Longrightarrow> args_ok lo n' args"
  by (induction args arbitrary: lo) auto

lemma args_ok_snoc:
  "args_ok lo n (args @ [a]) \<longleftrightarrow> args_ok lo (arg_start a) args \<and> arg_start a < arg_end a \<and> arg_end a \<le> n"
  by (induction args arbitrary: lo) auto

lemma args_ok_starts: "args_ok lo n args \<Longrightarrow> a \<in> set args
    \<Longrightarrow> lo \<le> arg_start a \<and> arg_start a < arg_end a \<and> arg_end a \<le> n"
proof (induction args arbitrary: lo)
  case (Cons b args)
  then show ?case using args_ok_le [of "arg_end b" n args] by fastforce
qed simp

text \<open>An argument read in a text: what the decoder makes of the bytes between its bounds.\<close>

definition argument_of :: "string \<Rightarrow> argument \<Rightarrow> bool" where
  "argument_of sql a \<longleftrightarrow>
     read_token Lenient (drop (arg_start a) sql) (arg_start a) None []
       = Inr (arg_bytes a, arg_end a, drop (arg_end a) sql)"

lemma follows_drop:
  assumes "follows (drop i sql) i rest j" "i \<le> length sql"
  shows "rest = drop j sql \<and> j \<le> length sql"
proof -
  obtain used where used: "drop i sql = used @ rest" "j = i + length used"
    using assms(1) by (auto simp: follows_def)
  then have "rest = drop (length used) (drop i sql)" by simp
  moreover have "length used \<le> length sql - i" using used(1) by (metis length_append length_drop le_add1)
  ultimately show ?thesis using used(2) assms(2) by (simp add: add.commute)
qed

lemma skip_blanks_follows:
  assumes "skip_blanks cs i = (rest, start, breaks)"
  shows "follows cs i rest start"
proof -
  have "rest = dropWhile is_space cs" "start = i + length (takeWhile is_space cs)"
    using assms by (auto simp: skip_blanks_def Let_def)
  then show ?thesis unfolding follows_def by (metis takeWhile_dropWhile_id)
qed

lemma commands_from_ok:
  assumes "cs = drop i sql" "i \<le> length sql" "args_ok 0 i (concat found @ current)"
    and "\<forall>a \<in> set (concat found @ current). argument_of sql a"
  shows "args_ok 0 (length sql) (concat (commands_from cs i current found))
    \<and> (\<forall>a \<in> set (concat (commands_from cs i current found)). argument_of sql a)"
  using assms
proof (induction cs i current found rule: commands_from.induct)
  case (1 cs i current found)
  obtain rest start breaks where skip: "skip_blanks cs i = (rest, start, breaks)" by (metis prod_cases3)
  note at = follows_drop [OF skip_blanks_follows [OF skip, unfolded "1.prems"(1)] "1.prems"(2)]
  let ?ended = "0 < breaks \<and> current \<noteq> []"
  let ?found = "if ?ended then found @ [current] else found"
  let ?current = "if ?ended then [] else current"
  let ?all = "if ?current = [] then ?found else ?found @ [?current]"
  have same: "concat ?found @ ?current = concat found @ current" "concat ?all = concat found @ current" by auto
  have len: "i \<le> length sql" by (rule "1.prems")
  have done_: "args_ok 0 (length sql) (concat ?all)" "\<forall>a \<in> set (concat ?all). argument_of sql a"
    using same "1.prems"(3,4) args_ok_mono [OF _ len] by auto
  show ?case
  proof (cases "rest = []")
    case True
    then have "commands_from cs i current found = ?all"
      using skip by (subst commands_from.simps) (simp add: Let_def)
    with done_ show ?thesis by simp
  next
    case False
    show ?thesis
    proof (cases "read_token Lenient rest start None []")
      case (Inl e)
      then have "commands_from cs i current found = ?all"
        using skip False by (subst commands_from.simps) (simp add: Let_def)
      with done_ show ?thesis by simp
    next
      case (Inr x)
      obtain arg j rest' where x: "x = (arg, j, rest')" by (metis prod_cases3)
      let ?a = "\<lparr>arg_bytes = arg, arg_start = start, arg_end = j\<rparr>"
      have run: "commands_from cs i current found = commands_from rest' j (?current @ [?a]) ?found"
        using skip False Inr by (subst commands_from.simps) (simp add: Let_def x)
      have tok: "read_token Lenient (drop start sql) start None [] = Inr (arg, j, rest')" using Inr x at by simp
      have "start \<le> length sql" using at by simp
      note at' = follows_drop [OF token_follows [OF tok] this]
      obtain c ds where "rest = c # ds" "\<not> is_space c"
        using skip False by (cases rest) (auto simp: skip_blanks_def Let_def dest: dropWhile_hd)
      with token_progress [of Lenient c ds start arg j rest'] Inr x have "start < j"
        by (auto dest: follows_length)
      moreover have "i \<le> start" using skip by (auto simp: skip_blanks_def Let_def)
      ultimately have "args_ok 0 j ((concat found @ current) @ [?a])"
        using args_ok_mono [OF "1.prems"(3)] by (simp add: args_ok_snoc del: append_assoc)
      then have "args_ok 0 j (concat ?found @ ?current @ [?a])"
        using same(1) by (metis append_assoc)
      moreover have "argument_of sql ?a" using tok at' by (simp add: argument_of_def)
      then have "\<forall>a \<in> set (concat ?found @ ?current @ [?a]). argument_of sql a"
        using "1.prems"(4) by auto
      ultimately show ?thesis
        unfolding run
        using "1.IH" [OF skip [symmetric] refl refl refl refl refl False Inr x [symmetric] refl] at' by blast
    qed
  qed
qed

lemma redis_commands_ok:
  "args_ok 0 (length sql) (concat (redis_commands sql))"
  "\<forall>a \<in> set (concat (redis_commands sql)). argument_of sql a"
  using commands_from_ok [of sql 0 sql "[]" "[]"] by (simp_all add: redis_commands_def)

text \<open>The reference: what is written in place of an argument, by the decoded command alone.\<close>

definition arg_word :: "string list \<Rightarrow> nat \<Rightarrow> string" where
  "arg_word argv k = (if k < length argv then lower_word (argv ! k) else [])"

definition secret_at :: "string list \<Rightarrow> nat \<Rightarrow> bool" where
  "secret_at argv i \<longleftrightarrow>
     (let name = arg_word argv 0
      in if name = ''auth'' then 0 < i \<and> Suc i = length argv
         else if name = ''hello'' then
           3 \<le> i \<and> arg_word argv (i - 2) = ''auth'' \<and> (\<forall>k \<in> {1 ..< i - 2}. arg_word argv k \<noteq> ''auth'')
         else if name = ''config'' \<and> arg_word argv 1 = ''set'' then
           3 \<le> i \<and> arg_word argv (i - 1) \<in> set secret_parameters
         else if name = ''migrate'' then
           1 \<le> i \<and> arg_word argv (i - 1) = ''auth'' \<or> 2 \<le> i \<and> arg_word argv (i - 2) = ''auth2''
         else False)"

definition secret_marker :: "string list \<Rightarrow> nat \<Rightarrow> string option" where
  "secret_marker argv i =
     (if arg_word argv 0 = ''acl'' \<and> arg_word argv 1 = ''setuser''
      then (if 3 \<le> i then rule_marker (argv ! i) else None)
      else if secret_at argv i then Some redacted_value else None)"

definition marked :: "argument list \<Rightarrow> (argument \<times> string option) list" where
  "marked command = map (\<lambda>i. (command ! i, secret_marker (map arg_bytes command) i)) [0 ..< length command]"

lemma map_fst_marked [simp]: "map fst (marked command) = command"
  by (simp add: marked_def comp_def map_nth)

text \<open>The text with each argument kept as written or replaced by its marker, and all else kept.\<close>

fun weave :: "string \<Rightarrow> nat \<Rightarrow> (argument \<times> string option) list \<Rightarrow> string" where
  "weave sql copied [] = drop copied sql"
| "weave sql copied ((a, m) # ms) =
     take (arg_start a - copied) (drop copied sql)
     @ (case m of None \<Rightarrow> take (arg_end a - arg_start a) (drop (arg_start a) sql) | Some s \<Rightarrow> s)
     @ weave sql (arg_end a) ms"

definition found_in :: "(argument \<times> string option) list \<Rightarrow> (nat \<times> nat \<times> string) set" where
  "found_in ms = {span_of m a | a m. (a, Some m) \<in> set ms}"

lemma found_in_Nil [simp]: "found_in [] = {}"
  by (simp add: found_in_def)

lemma found_in_Cons:
  "found_in ((a, m) # ms) = (case m of None \<Rightarrow> found_in ms | Some s \<Rightarrow> insert (span_of s a) (found_in ms))"
  by (auto simp: found_in_def split: option.split)

lemma found_in_append: "found_in (ms @ ms') = found_in ms \<union> found_in ms'"
  by (auto simp: found_in_def)

lemma found_in_concat: "found_in (concat mss) = (\<Union>ms \<in> set mss. found_in ms)"
  by (induction mss) (auto simp: found_in_append)

text \<open>The code finds the spans of the marked arguments.\<close>

lemma word_at_eq: "word_at command i = (if i < length command then Some (lower_word (arg_bytes (command ! i))) else None)"
  by (simp add: word_at_def get_at_def)

lemma arg_word_eq: "w \<noteq> [] \<Longrightarrow> arg_word (map arg_bytes command) k = w \<longleftrightarrow> word_at command k = Some w"
  by (auto simp: arg_word_def word_at_eq)

lemma found_in_marked:
  "found_in (marked command)
    = {span_of m (command ! i) | i m. i < length command \<and> secret_marker (map arg_bytes command) i = Some m}"
proof -
  have "(a, Some m) \<in> set (marked command)
      \<longleftrightarrow> (\<exists>i < length command. a = command ! i \<and> secret_marker (map arg_bytes command) i = Some m)" for a m
    by (auto simp: marked_def)
  then show ?thesis unfolding found_in_def by (simp only:) (rule Collect_cong, blast)
qed

lemma found_by:
  assumes "word_at command 0 = Some name" "name \<noteq> []" "name \<noteq> ''acl''"
  shows "found_in (marked command)
    = {span_of redacted_value (command ! i) | i. i < length command \<and> secret_at (map arg_bytes command) i}"
proof -
  have "arg_word (map arg_bytes command) 0 \<noteq> ''acl''" using assms by (simp add: arg_word_eq)
  then have "secret_marker (map arg_bytes command) i = Some m
      \<longleftrightarrow> secret_at (map arg_bytes command) i \<and> m = redacted_value" for i m
    by (auto simp: secret_marker_def)
  then show ?thesis unfolding found_in_marked by (simp only:) (rule Collect_cong, blast)
qed

lemma after_keyword_eq:
  "set (after_keyword command i k) = {span_of redacted_value (command ! j) | j. j < length command \<and> j = i + k}"
  by (auto simp: after_keyword_def get_at_def)

lemma secrets_auth:
  assumes "word_at command 0 = Some ''auth''"
  shows "set (auth_secrets command) = found_in (marked command)"
proof -
  have "secret_at (map arg_bytes command) i \<longleftrightarrow> 0 < i \<and> Suc i = length command" for i
    using assms by (simp add: secret_at_def arg_word_eq)
  with found_by [OF assms] have "found_in (marked command)
      = {span_of redacted_value (command ! i) | i. i < length command \<and> 0 < i \<and> Suc i = length command}"
    by simp
  also have "\<dots> = set (auth_secrets command)"
    by (cases command rule: rev_cases) (auto simp: auth_secrets_def)
  finally show ?thesis by simp
qed

lemma find_upt:
  "find P [lo ..< n] = Some k \<longleftrightarrow> lo \<le> k \<and> k < n \<and> P k \<and> (\<forall>j. lo \<le> j \<and> j < k \<longrightarrow> \<not> P j)"
  (is "?l = ?r")
proof
  assume ?l
  then obtain i where i: "i < n - lo" "P (lo + i)" "k = lo + i" "\<forall>j < i. \<not> P (lo + j)"
    by (auto simp: find_Some_iff)
  have "\<not> P j" if "lo \<le> j" "j < k" for j
    using i(4) [rule_format, of "j - lo"] i(3) that by simp
  with i show ?r by auto
next
  assume r: ?r
  then show ?l
    by (auto simp: find_Some_iff intro!: exI [of _ "k - lo"])
qed

lemma secrets_hello:
  assumes "word_at command 0 = Some ''hello''"
  shows "set (hello_secrets command) = found_in (marked command)"
proof -
  let ?word = "\<lambda>k. word_at command k = Some ''auth''"
  have "secret_at (map arg_bytes command) i \<longleftrightarrow> 3 \<le> i \<and> ?word (i - 2) \<and> (\<forall>k \<in> {1 ..< i - 2}. \<not> ?word k)" for i
    using assms by (simp add: secret_at_def arg_word_eq)
  with found_by [OF assms] have marks: "found_in (marked command)
      = {span_of redacted_value (command ! i) | i. i < length command
          \<and> 3 \<le> i \<and> ?word (i - 2) \<and> (\<forall>k \<in> {1 ..< i - 2}. \<not> ?word k)}"
    by simp
  show ?thesis
  proof (cases "find ?word [1 ..< length command]")
    case None
    then have "\<not> ?word k" if "1 \<le> k" "k < length command" for k
      using that by (auto simp: find_None_iff)
    then have "found_in (marked command) = {}" unfolding marks by auto
    with None show ?thesis by (simp add: hello_secrets_def)
  next
    case (Some k)
    then have k: "1 \<le> k" "k < length command" "?word k" "\<forall>j. 1 \<le> j \<and> j < k \<longrightarrow> \<not> ?word j"
      by (simp_all add: find_upt)
    have "3 \<le> i \<and> ?word (i - 2) \<and> (\<forall>j \<in> {1 ..< i - 2}. \<not> ?word j) \<longleftrightarrow> i = k + 2" for i
    proof
      assume i: "3 \<le> i \<and> ?word (i - 2) \<and> (\<forall>j \<in> {1 ..< i - 2}. \<not> ?word j)"
      have "\<not> k < i - 2" using i k by auto
      moreover have "1 \<le> i - 2" using i by linarith
      then have "\<not> i - 2 < k" using i k(4) by blast
      ultimately show "i = k + 2" using i by linarith
    qed (use k in auto)
    then have "found_in (marked command) = {span_of redacted_value (command ! i) | i. i < length command \<and> i = k + 2}"
      unfolding marks by auto
    with Some show ?thesis by (auto simp: hello_secrets_def get_at_def)
  qed
qed

lemma secrets_acl:
  assumes "word_at command 0 = Some ''acl''" "word_at command 1 = Some ''setuser''"
  shows "set (acl_secrets command) = found_in (marked command)"
proof -
  have "secret_marker (map arg_bytes command) i
      = (if 3 \<le> i then rule_marker (arg_bytes (command ! i)) else None)" if "i < length command" for i
    using assms that by (simp add: secret_marker_def arg_word_eq)
  then have mark: "i < length command \<and> secret_marker (map arg_bytes command) i = Some m
      \<longleftrightarrow> i < length command \<and> 3 \<le> i \<and> rule_marker (arg_bytes (command ! i)) = Some m" for i m
    by (auto split: if_splits)
  have nth: "a \<in> set (drop 3 command) \<longleftrightarrow> (\<exists>i < length command. 3 \<le> i \<and> a = command ! i)" for a
  proof
    assume "a \<in> set (drop 3 command)"
    then obtain j where "j < length command - 3" "a = command ! (3 + j)" by (auto simp: in_set_conv_nth)
    then show "\<exists>i < length command. 3 \<le> i \<and> a = command ! i" by (intro exI [of _ "3 + j"]) auto
  next
    assume "\<exists>i < length command. 3 \<le> i \<and> a = command ! i"
    then obtain i where i: "i < length command" "3 \<le> i" "a = command ! i" by blast
    then have "a = drop 3 command ! (i - 3)" "i - 3 < length (drop 3 command)" by auto
    then show "a \<in> set (drop 3 command)" by (simp only: nth_mem)
  qed
  have "found_in (marked command)
      = {span_of m (command ! i) | i m. i < length command \<and> 3 \<le> i \<and> rule_marker (arg_bytes (command ! i)) = Some m}"
    unfolding found_in_marked by (simp only: mark)
  also have "\<dots> = {span_of m a | a m. a \<in> set (drop 3 command) \<and> rule_marker (arg_bytes a) = Some m}"
    unfolding nth by (rule Collect_cong) blast
  also have "\<dots> = set (acl_secrets command)"
    unfolding acl_secrets_def List.map_filter_def by (rule set_eqI) (force simp: span_of_def)
  finally show ?thesis by simp
qed

lemma secrets_config:
  assumes "word_at command 0 = Some ''config''" "word_at command 1 = Some ''set''"
  shows "set (config_secrets command) = found_in (marked command)"
proof -
  let ?secret = "\<lambda>i. lower_word (arg_bytes (command ! i)) \<in> set secret_parameters"
  have word: "arg_word (map arg_bytes command) i \<in> set secret_parameters \<longleftrightarrow> i < length command \<and> ?secret i" for i
    by (auto simp: arg_word_def secret_parameters_def)
  have "secret_at (map arg_bytes command) i \<longleftrightarrow> 3 \<le> i \<and> i - 1 < length command \<and> ?secret (i - 1)" for i
    using assms by (simp add: secret_at_def arg_word_eq word)
  with found_by [OF assms(1)] have "found_in (marked command)
      = {span_of redacted_value (command ! j) | j. j < length command \<and> 3 \<le> j \<and> j - 1 < length command \<and> ?secret (j - 1)}"
    by simp
  moreover have "x \<in> set (config_secrets command) \<longleftrightarrow> (\<exists>j. x = span_of redacted_value (command ! j)
      \<and> j < length command \<and> 3 \<le> j \<and> j - 1 < length command \<and> ?secret (j - 1))" for x
  proof -
    have "x \<in> set (config_secrets command)
        \<longleftrightarrow> (\<exists>i. 2 \<le> i \<and> i < length command \<and> ?secret i \<and> x \<in> set (after_keyword command i 1))"
      by (auto simp: config_secrets_def split: if_splits)
    also have "\<dots> \<longleftrightarrow> (\<exists>i. 2 \<le> i \<and> i < length command \<and> ?secret i
        \<and> (\<exists>j. x = span_of redacted_value (command ! j) \<and> j < length command \<and> j = i + 1))"
      by (simp only: after_keyword_eq mem_Collect_eq)
    also have "\<dots> \<longleftrightarrow> (\<exists>j. x = span_of redacted_value (command ! j)
        \<and> j < length command \<and> 3 \<le> j \<and> j - 1 < length command \<and> ?secret (j - 1))"
    proof
      assume "\<exists>j. x = span_of redacted_value (command ! j)
        \<and> j < length command \<and> 3 \<le> j \<and> j - 1 < length command \<and> ?secret (j - 1)"
      then obtain j where "x = span_of redacted_value (command ! j)" "j < length command" "3 \<le> j"
          "?secret (j - 1)" by blast
      then show "\<exists>i. 2 \<le> i \<and> i < length command \<and> ?secret i
        \<and> (\<exists>j. x = span_of redacted_value (command ! j) \<and> j < length command \<and> j = i + 1)"
        by (intro exI [of _ "j - 1"]) auto
    qed auto
    finally show ?thesis .
  qed
  ultimately show ?thesis by blast
qed

lemma secrets_migrate:
  assumes "word_at command 0 = Some ''migrate''"
  shows "set (migrate_secrets command) = found_in (marked command)"
proof -
  let ?word = "\<lambda>k w. word_at command k = Some w"
  have "secret_at (map arg_bytes command) i
      \<longleftrightarrow> 1 \<le> i \<and> ?word (i - 1) ''auth'' \<or> 2 \<le> i \<and> ?word (i - 2) ''auth2''" for i
    using assms by (simp add: secret_at_def arg_word_eq)
  with found_by [OF assms] have marks: "found_in (marked command) = {span_of redacted_value (command ! i) | i.
      i < length command \<and> (1 \<le> i \<and> ?word (i - 1) ''auth'' \<or> 2 \<le> i \<and> ?word (i - 2) ''auth2'')}"
    by simp
  have shift: "(\<exists>k. ?word k ''auth'' \<and> j = k + 1 \<or> ?word k ''auth2'' \<and> j = k + 2)
      \<longleftrightarrow> 1 \<le> j \<and> ?word (j - 1) ''auth'' \<or> 2 \<le> j \<and> ?word (j - 2) ''auth2''" for j
    by (metis add_diff_cancel_right' le_add2 le_add_diff_inverse2)
  have bound: "?word k w \<Longrightarrow> k < length command" for k w by (simp add: word_at_eq split: if_splits)
  have "x \<in> set (migrate_secrets command) \<longleftrightarrow> (\<exists>k < length command.
      ?word k ''auth'' \<and> x \<in> set (after_keyword command k 1) \<or> ?word k ''auth2'' \<and> x \<in> set (after_keyword command k 2))" for x
    by (auto simp: migrate_secrets_def split: if_splits)
  then have "x \<in> set (migrate_secrets command) \<longleftrightarrow> (\<exists>j. x = span_of redacted_value (command ! j) \<and> j < length command
      \<and> (\<exists>k. ?word k ''auth'' \<and> j = k + 1 \<or> ?word k ''auth2'' \<and> j = k + 2))" for x
    unfolding after_keyword_eq using bound by blast
  then show ?thesis unfolding marks shift by blast
qed

lemma secrets_of_marked: "set (secrets_of command) = found_in (marked command)"
proof (cases "word_at command 0")
  case None
  then have "command = []" by (simp add: word_at_def get_at_def split: if_splits)
  then show ?thesis by (simp add: secrets_of_def word_at_def get_at_def marked_def)
next
  case (Some name)
  consider "name = ''auth''" | "name = ''hello''" | "name = ''acl''" "word_at command 1 = Some ''setuser''"
    | "name = ''config''" "word_at command 1 = Some ''set''" | "name = ''migrate''"
    | (other) "name \<noteq> ''auth''" "name \<noteq> ''hello''" "name \<noteq> ''migrate''"
        "name = ''acl'' \<Longrightarrow> word_at command 1 \<noteq> Some ''setuser''"
        "name = ''config'' \<Longrightarrow> word_at command 1 \<noteq> Some ''set''"
    by blast
  then show ?thesis
  proof cases
    case other
    have word: "arg_word (map arg_bytes command) 0 = name"
      using Some by (simp add: arg_word_def word_at_eq split: if_splits)
    have "\<not> (name = ''acl'' \<and> arg_word (map arg_bytes command) 1 = ''setuser'')"
      using other(4) by (simp add: arg_word_eq)
    moreover have "\<not> (name = ''config'' \<and> arg_word (map arg_bytes command) 1 = ''set'')"
      using other(5) by (simp add: arg_word_eq)
    then have "\<not> secret_at (map arg_bytes command) i" for i
      using other(1-3) by (simp only: secret_at_def word Let_def if_False simp_thms)
    ultimately have "secret_marker (map arg_bytes command) i = None" for i
      by (simp only: secret_marker_def word if_False)
    then have "found_in (marked command) = {}" by (simp add: found_in_marked)
    moreover have "\<not> (name = ''acl'' \<and> word_at command 1 = Some ''setuser'')"
        "\<not> (name = ''config'' \<and> word_at command 1 = Some ''set'')"
      using other(4,5) by blast+
    then have "secrets_of command = []"
      using other(1-3) by (simp only: secrets_of_def Some option.case if_False)
    ultimately show ?thesis by simp
  qed (simp_all add: secrets_of_def Some secrets_auth secrets_hello secrets_acl secrets_config secrets_migrate)
qed

text \<open>Putting the markers over sorted spans weaves the text.\<close>

lemma sorted_split:
  "sorted (map fst xs) \<Longrightarrow> \<forall>x \<in> set xs. k \<le> fst x
    \<Longrightarrow> xs = filter (\<lambda>x. fst x = k) xs @ filter (\<lambda>x. fst x \<noteq> k) xs"
proof (induction xs)
  case (Cons x xs)
  show ?case
  proof (cases "fst x = k")
    case True
    with Cons show ?thesis by simp
  next
    case False
    with Cons.prems have "\<forall>y \<in> set (x # xs). fst y \<noteq> k" by fastforce
    then have "filter (\<lambda>x. fst x = k) (x # xs) = []" "filter (\<lambda>x. fst x \<noteq> k) (x # xs) = x # xs"
      by (simp_all add: filter_empty_conv)
    then show ?thesis by simp
  qed
qed simp

lemma put_markers_skip: "\<forall>x \<in> set xs. fst x < copied \<Longrightarrow> put_markers sql copied (xs @ ys) = put_markers sql copied ys"
  by (induction xs) auto

lemma slice_split:
  "a \<le> b \<Longrightarrow> b \<le> c \<Longrightarrow> take (c - a) (drop a xs) = take (b - a) (drop a xs) @ take (c - b) (drop b xs)"
  using take_add [of "b - a" "c - b" "drop a xs"] by simp

lemma put_markers_advance:
  assumes "copied \<le> b" "b \<le> length sql" "\<forall>x \<in> set L. b \<le> fst x \<and> fst x \<le> length sql"
  shows "put_markers sql copied L = take (b - copied) (drop copied sql) @ put_markers sql b L"
proof (cases L)
  case Nil
  have "drop copied sql = take (b - copied) (drop copied sql) @ drop b sql"
    using slice_split [of copied b "length sql" sql] assms by simp
  with Nil assms show ?thesis by (simp add: get_range_def)
next
  case (Cons x xs)
  obtain s e m where x: "x = (s, e, m)" by (metis prod_cases3)
  have "b \<le> s" "s \<le> length sql" using assms(3) by (simp_all add: Cons x)
  with assms slice_split [of copied b s sql] show ?thesis by (simp add: Cons x get_range_def)
qed

lemma put_markers_weave:
  assumes "args_ok copied (length sql) (map fst ms)" "sorted (map fst L)" "set L = found_in ms"
  shows "put_markers sql copied L = weave sql copied ms"
  using assms
proof (induction ms arbitrary: copied L)
  case Nil
  then show ?case by (simp add: get_range_def)
next
  case (Cons am ms)
  obtain a m where am: "am = (a, m)" by fastforce
  have ok: "copied \<le> arg_start a" "arg_start a < arg_end a" "args_ok (arg_end a) (length sql) (map fst ms)"
    using Cons.prems(1) by (simp_all add: am)
  have later: "arg_end a \<le> fst x \<and> fst x \<le> length sql" if x: "x \<in> found_in ms" for x
  proof -
    from x obtain b s where b: "(b, Some s) \<in> set ms" "x = span_of s b" unfolding found_in_def by blast
    then have "b \<in> set (map fst ms)" by force
    with args_ok_starts [OF ok(3) this] b(2) show ?thesis by (simp add: span_of_def)
  qed
  have len: "arg_end a \<le> length sql" using args_ok_le [OF ok(3)] .
  show ?case
  proof (cases m)
    case None
    then have L: "set L = found_in ms" using Cons.prems(3) by (simp add: am found_in_Cons)
    then have "put_markers sql copied L
        = take (arg_end a - copied) (drop copied sql) @ put_markers sql (arg_end a) L"
      using put_markers_advance [of copied "arg_end a" sql L] ok len later by simp
    also have "\<dots> = take (arg_start a - copied) (drop copied sql)
        @ take (arg_end a - arg_start a) (drop (arg_start a) sql) @ put_markers sql (arg_end a) L"
      using slice_split [of copied "arg_start a" "arg_end a" sql] ok by simp
    finally show ?thesis using Cons.IH [OF ok(3) Cons.prems(2) L] by (simp add: am None)
  next
    case (Some s)
    let ?here = "filter (\<lambda>x. fst x = arg_start a) L" and ?rest = "filter (\<lambda>x. fst x \<noteq> arg_start a) L"
    have set_L: "set L = insert (span_of s a) (found_in ms)"
      using Cons.prems(3) by (simp add: am found_in_Cons Some)
    have start: "fst (span_of s a) = arg_start a" by (simp add: span_of_def)
    have "\<forall>x \<in> set L. arg_start a \<le> fst x"
    proof
      fix x assume "x \<in> set L"
      then consider "x = span_of s a" | "x \<in> found_in ms" unfolding set_L by blast
      then show "arg_start a \<le> fst x"
        using start later [of x] ok(2) by cases simp_all
    qed
    from sorted_split [OF Cons.prems(2) this] have L: "L = ?here @ ?rest" .
    have apart: "x \<in> found_in ms \<Longrightarrow> fst x \<noteq> arg_start a" for x using later [of x] ok(2) by auto
    have here: "set ?here = {span_of s a}"
    proof (rule set_eqI)
      show "x \<in> set ?here \<longleftrightarrow> x \<in> {span_of s a}" for x
        using apart [of x] start by (cases "x = span_of s a") (simp_all add: set_L)
    qed
    have rest_found: "set ?rest = found_in ms"
    proof (rule set_eqI)
      show "x \<in> set ?rest \<longleftrightarrow> x \<in> found_in ms" for x
        using apart [of x] start by (cases "x = span_of s a") (auto simp: set_L)
    qed
    obtain xs where xs: "?here = span_of s a # xs" "\<forall>x \<in> set xs. fst x < arg_end a"
    proof (cases "?here")
      case Nil
      with here have "set ([] :: (nat \<times> nat \<times> string) list) = {span_of s a}" by (simp only:)
      then show ?thesis by simp
    next
      case (Cons y ys)
      with here have "insert y (set ys) = {span_of s a}" by (simp only: list.set)
      then have "y = span_of s a" "\<forall>x \<in> set ys. x = span_of s a" by blast+
      moreover from this have "\<forall>x \<in> set ys. fst x < arg_end a" using start ok(2) by auto
      ultimately show ?thesis using Cons that by blast
    qed
    have "sorted (map fst ?rest)" using Cons.prems(2) by (simp add: sorted_filter)
    from Cons.IH [OF ok(3) this rest_found] have rest: "put_markers sql (arg_end a) ?rest = weave sql (arg_end a) ms" .
    have "put_markers sql copied L = put_markers sql copied (span_of s a # xs @ ?rest)"
      using L xs(1) by (metis append_Cons)
    also have "\<dots> = take (arg_start a - copied) (drop copied sql) @ s @ put_markers sql (arg_end a) (xs @ ?rest)"
      using ok len by (simp add: span_of_def get_range_def)
    also have "put_markers sql (arg_end a) (xs @ ?rest) = weave sql (arg_end a) ms"
      using put_markers_skip [OF xs(2)] rest by simp
    finally show ?thesis by (simp add: am Some)
  qed
qed

theorem redact_redis_weaves:
  "redact_redis sql = weave sql 0 (concat (map marked (redis_commands sql)))"
proof -
  let ?found = "concat (map secrets_of (redis_commands sql))"
  have "map fst (concat (map marked (redis_commands sql))) = concat (redis_commands sql)"
    by (simp add: map_concat comp_def)
  moreover have "set (sort_key fst ?found) = found_in (concat (map marked (redis_commands sql)))"
    by (simp add: found_in_concat secrets_of_marked)
  ultimately have "put_markers sql 0 (sort_key fst ?found) = weave sql 0 (concat (map marked (redis_commands sql)))"
    using put_markers_weave redis_commands_ok(1) [of sql] by (metis sorted_sort_key)
  moreover have "put_markers sql 0 [] = sql" by (simp add: get_range_def)
  ultimately show ?thesis
    by (cases "?found = []") (simp_all add: redact_redis_def Let_def del: put_markers.simps concat_eq_Nil_conv)
qed

text \<open>Where nothing is marked, the text is kept.\<close>

lemma weave_unmarked:
  "args_ok copied (length sql) (map fst ms) \<Longrightarrow> \<forall>x \<in> set ms. snd x = None \<Longrightarrow> weave sql copied ms = drop copied sql"
proof (induction ms arbitrary: copied)
  case (Cons am ms)
  obtain a where am: "am = (a, None)" using Cons.prems(2) by (cases am) auto
  have ok: "copied \<le> arg_start a" "arg_start a < arg_end a" "args_ok (arg_end a) (length sql) (map fst ms)"
    using Cons.prems(1) by (simp_all add: am)
  have "drop copied sql = take (arg_start a - copied) (drop copied sql)
      @ take (arg_end a - arg_start a) (drop (arg_start a) sql) @ drop (arg_end a) sql"
    using slice_split [of copied "arg_start a" "length sql" sql]
      slice_split [of "arg_start a" "arg_end a" "length sql" sql] ok args_ok_le [OF ok(3)] by simp
  with Cons.IH [OF ok(3)] Cons.prems(2) show ?case by (simp add: am)
qed simp

subsection \<open>The command selected is one command\<close>

text \<open>The states of the quotes along a text, and whether a line break stands outside them.\<close>

definition quote_step :: "char option \<Rightarrow> char \<Rightarrow> string \<Rightarrow> (char option \<times> string) option" where
  "quote_step q c cs =
     (case q of
        None \<Rightarrow> if c = double_quote \<or> c = single_quote then Some (Some c, cs)
                else if c = line_feed then None else Some (None, cs)
      | Some opener \<Rightarrow>
          if opener = double_quote \<and> c = backslash
             \<or> opener = single_quote \<and> c = backslash \<and> get_at cs 0 = Some single_quote
          then Some (Some opener, tl cs)
          else Some (if c = opener then None else Some opener, cs))"

lemma quote_step_shorter: "quote_step q c cs = Some (q', cs') \<Longrightarrow> length cs' \<le> length cs"
  by (auto simp: quote_step_def split: option.splits if_splits)

function unquoted_break :: "char option \<Rightarrow> string \<Rightarrow> bool" where
  "unquoted_break q [] \<longleftrightarrow> False"
| "unquoted_break q (c # cs) \<longleftrightarrow>
     (case quote_step q c cs of None \<Rightarrow> True | Some (q', cs') \<Rightarrow> unquoted_break q' cs')"
  by pat_completeness auto
termination
  by (relation "measure (\<lambda>(q, cs). length cs)") (auto dest: quote_step_shorter)

text \<open>From a state and a text, the other text is reached outside quotes, crossing no line break.\<close>

function quote_reaches :: "char option \<Rightarrow> string \<Rightarrow> string \<Rightarrow> bool" where
  "quote_reaches q [] rest \<longleftrightarrow> q = None \<and> rest = []"
| "quote_reaches q (c # cs) rest \<longleftrightarrow>
     q = None \<and> rest = c # cs
     \<or> (case quote_step q c cs of None \<Rightarrow> False | Some (q', cs') \<Rightarrow> quote_reaches q' cs' rest)"
  by pat_completeness auto
termination
  by (relation "measure (\<lambda>(q, cs, rest). length cs)") (auto dest: quote_step_shorter)

lemma reaches_refl: "quote_reaches None cs cs"
  by (cases cs) auto

text \<open>What was read up to there, taken alone, has no line break outside quotes.\<close>

lemma quote_step_append:
  "cs \<noteq> [] \<Longrightarrow> quote_step q c (cs @ rest) = map_option (map_prod id (\<lambda>s. s @ rest)) (quote_step q c cs)"
  by (cases cs) (auto simp: quote_step_def get_at_def split: option.splits)

lemma reaches_quiet: "quote_reaches q (mid @ rest) rest \<Longrightarrow> \<not> unquoted_break q mid"
proof (induction q mid rule: unquoted_break.induct)
  case (2 q c cs)
  then obtain q' cs' where step: "quote_step q c (cs @ rest) = Some (q', cs')" "quote_reaches q' cs' rest"
    by (auto split: option.splits prod.splits)
  show ?case
  proof (cases "cs = []")
    case True
    have "quote_step q c [] \<noteq> None" using step(1) True by (auto simp: quote_step_def split: option.splits if_splits)
    then obtain r r' where "quote_step q c [] = Some (r, r')" by auto
    moreover have "r' = []" using quote_step_shorter [OF \<open>quote_step q c [] = Some (r, r')\<close>] by simp
    ultimately show ?thesis by (simp add: True)
  next
    case False
    then obtain cs1 where "quote_step q c cs = Some (q', cs1)" "cs' = cs1 @ rest"
      using step(1) by (auto simp: quote_step_append)
    with 2 step(2) show ?thesis by simp
  qed
qed simp

text \<open>Every span the console cuts is quiet.\<close>

lemma lines_from_quiet:
  assumes "lines_from n cursor cs i start quote spans = Inr out"
    and "cs = drop i sql" "n = length sql" "quote = None \<Longrightarrow> i \<le> n" "start \<le> i"
    and "\<And>rest. quote_reaches (map_option fst quote) cs rest \<Longrightarrow> quote_reaches None (drop start sql) rest"
    and "(a, b) \<in> set out"
  shows "(a, b) \<in> set spans \<or> \<not> unquoted_break None (take (b - a) (drop a sql))"
  using assms
proof (induction n cursor cs i start quote spans rule: lines_from.induct)
  case (1 n cursor i start quote spans)
  then have q: "quote = None" "out = spans @ [(start, n)]" by (auto split: option.splits)
  then have "i = n" using 1 by simp
  have "quote_reaches None (drop start sql @ []) []" using "1.prems"(6) [of "[]"] q by simp
  from reaches_quiet [OF this] show ?case using "1.prems"(3,7) q by auto
next
  case (2 n cursor c cs i start q opened spans)
  have cs: "cs = drop (i + 1) sql" "i < n" using "2.prems"(2,3)
    by (metis Suc_eq_plus1 drop_Suc list.sel(3) tl_drop) (use "2.prems"(2,3) in \<open>metis drop_all linorder_not_less list.discI\<close>)
  show ?case
  proof (cases "q = double_quote \<and> c = backslash
      \<or> q = single_quote \<and> c = backslash \<and> get_at cs 0 = Some single_quote")
    case True
    then have step: "quote_step (Some q) c cs = Some (Some q, tl cs)" by (simp add: quote_step_def)
    show ?thesis
    proof (rule "2.IH"(1) [OF True])
      show "tl cs = drop (i + 2) sql" by (simp add: cs(1) drop_Suc tl_drop)
      show "quote_reaches None (drop start sql) rest"
        if "quote_reaches (map_option fst (Some (q, opened))) (tl cs) rest" for rest
        using that step by (intro "2.prems"(6)) simp
      show "lines_from n cursor (tl cs) (i + 2) start (Some (q, opened)) spans = Inr out"
        using "2.prems"(1) True by (simp only: lines_from.simps if_True)
    qed (use "2.prems" in \<open>simp_all add: le_SucI\<close>)
  next
    case False
    let ?q = "if c = q then None else Some (q, opened)"
    have step: "quote_step (Some q) c cs = Some (map_option fst ?q, cs)"
      unfolding quote_step_def option.case if_not_P [OF False] by simp
    show ?thesis
    proof (rule "2.IH"(2) [OF False])
      show "cs = drop (i + 1) sql" by (rule cs)
      show "quote_reaches None (drop start sql) rest" if "quote_reaches (map_option fst ?q) cs rest" for rest
        using that step by (intro "2.prems"(6)) simp
      show "lines_from n cursor cs (i + 1) start ?q spans = Inr out"
        using "2.prems"(1) False by (simp only: lines_from.simps if_False)
    qed (use "2.prems" cs in \<open>simp_all add: le_SucI\<close>)
  qed
next
  case (3 n cursor c cs i start spans)
  have cs: "cs = drop (i + 1) sql" "i < n" using "3.prems"(2,3)
    by (metis Suc_eq_plus1 drop_Suc list.sel(3) tl_drop) (use "3.prems"(2,3) in \<open>metis drop_all linorder_not_less list.discI\<close>)
  consider (quote) "c = double_quote \<or> c = single_quote" | (line) "c = line_feed" | (plain) "c \<noteq> line_feed"
      "\<not> (c = double_quote \<or> c = single_quote)"
    by blast
  then show ?case
  proof cases
    case quote
    then have step: "quote_step None c cs = Some (Some c, cs)" by (auto simp: quote_step_def)
    show ?thesis
    proof (rule "3.IH"(1) [OF quote])
      show "cs = drop (i + 1) sql" by (rule cs)
      show "quote_reaches None (drop start sql) rest" if "quote_reaches (map_option fst (Some (c, i))) cs rest" for rest
        using that step by (intro "3.prems"(6)) simp
    qed (use "3.prems" quote cs in \<open>auto simp: le_SucI\<close>)
  next
    case plain
    then have step: "quote_step None c cs = Some (None, cs)" by (auto simp: quote_step_def)
    show ?thesis
    proof (rule "3.IH"(3) [OF plain(2,1)])
      show "cs = drop (i + 1) sql" by (rule cs)
      show "quote_reaches None (drop start sql) rest" if "quote_reaches (map_option fst None) cs rest" for rest
        using that step by (intro "3.prems"(6)) simp
    qed (use "3.prems" plain cs in \<open>auto simp: le_SucI\<close>)
  next
    case line
    have "drop start sql = take (i - start) (drop start sql) @ (c # cs)"
      using "3.prems"(2,5) by (metis append_take_drop_id drop_drop le_add_diff_inverse2)
    moreover have "quote_reaches None (drop start sql) (c # cs)" using "3.prems"(6) reaches_refl by simp
    ultimately have quiet: "\<not> unquoted_break None (take (i - start) (drop start sql))"
      using reaches_quiet [of None "take (i - start) (drop start sql)" "c # cs"] by simp
    have not: "\<not> (c = double_quote \<or> c = single_quote)" using line by simp
    show ?thesis
    proof (cases "cursor < i + 1")
      case True
      then have "out = spans @ [(start, i)]" using "3.prems"(1) line by simp
      with "3.prems"(7) quiet show ?thesis by auto
    next
      case False
      then have "(a, b) \<in> set (spans @ [(start, i)]) \<or> \<not> unquoted_break None (take (b - a) (drop a sql))"
        using "3.IH"(2) [OF not line False] "3.prems" line cs by simp
      with quiet show ?thesis by auto
    qed
  qed
qed

text \<open>Trimming a quiet text leaves a quiet text.\<close>

lemma quiet_prefix: "unquoted_break q cs \<Longrightarrow> unquoted_break q (cs @ rest)"
proof (induction q cs rule: unquoted_break.induct)
  case (2 q c cs)
  show ?case
  proof (cases "cs = []")
    case True
    with "2.prems" have "quote_step q c [] = None" by (auto split: option.splits prod.splits dest: quote_step_shorter)
    then have "quote_step q c rest = None" by (auto simp: quote_step_def split: option.splits if_splits)
    with True show ?thesis by simp
  next
    case False
    with 2 show ?thesis by (auto simp: quote_step_append split: option.splits)
  qed
qed simp

lemma quiet_trim_end: "\<not> unquoted_break None s \<Longrightarrow> \<not> unquoted_break None (trim_end s)"
  using trim_end_prefix [of s] quiet_prefix by metis

lemma white_space_unquoted: "w \<in> set white_space \<Longrightarrow> double_quote \<notin> set w \<and> single_quote \<notin> set w"
  by (auto simp: white_space_def)

lemma quiet_plain:
  "double_quote \<notin> set w \<Longrightarrow> single_quote \<notin> set w
    \<Longrightarrow> unquoted_break None (w @ s) \<longleftrightarrow> line_feed \<in> set w \<or> unquoted_break None s"
  by (induction w) (auto simp: quote_step_def)

lemma quiet_trim_start: "\<not> unquoted_break None s \<Longrightarrow> \<not> unquoted_break None (trim_start s)"
proof (induction s rule: trim_start.induct)
  case (1 s)
  show ?case
  proof (cases "ws_lead s = 0")
    case True
    with 1 show ?thesis by (subst trim_start.simps) simp
  next
    case False
    then obtain w where w: "w \<in> set white_space" "starts_with s w" "ws_lead s = length w"
      by (auto simp: ws_lead_def find_Some_iff split: option.splits) (metis nth_mem)
    have "s = w @ drop (ws_lead s) s" using w by (metis append_take_drop_id starts_with_def)
    then have "\<not> unquoted_break None (drop (ws_lead s) s)"
      using "1.prems" quiet_plain white_space_unquoted [OF w(1)] by metis
    with 1(1) [OF False] False show ?thesis by (subst trim_start.simps) simp
  qed
qed

text \<open>What the decoder reads in a quiet text never crosses a line break between two arguments.\<close>

lemma hex_digit_plain: "hex_digit_byte c \<Longrightarrow> c \<noteq> double_quote \<and> c \<noteq> backslash"
  by (auto simp: hex_digit_byte_def in_ranges_def byte_def)

lemma token_quiet:
  "read_token Strict cs i quote current = Inr (arg, j, rest)
    \<Longrightarrow> unquoted_break (map_option fst quote) cs \<longleftrightarrow> unquoted_break None rest"
proof (induction Strict cs i quote current rule: read_token.induct)
  case (3 c cs i current)
  show ?case
  proof (cases "ends_argument c")
    case True
    with 3 show ?thesis by simp
  next
    case False
    then have "c \<noteq> line_feed" by (auto simp: ends_argument_def byte_def)
    with 3 False show ?thesis by (auto simp: quote_step_def split: if_splits)
  qed
next
  case (4 c cs i q opened current)
  show ?case
  proof (cases "q = double_quote \<and> c = backslash")
    case escape: True
    show ?thesis
    proof (cases "hex_escape cs")
      case (Some br)
      obtain b after where br: "br = (b, after)" by fastforce
      with Some obtain x h l where x: "cs = x # h # l # after" "hex_digit_byte h" "hex_digit_byte l"
        by (cases cs rule: hex_escape.cases) (auto split: if_splits)
      have "unquoted_break (Some q) after \<longleftrightarrow> unquoted_break None rest"
        using "4.hyps"(3) "4.prems" escape Some br by auto
      then show ?thesis
        using escape x hex_digit_plain [of h] hex_digit_plain [of l] by (simp add: quote_step_def)
    next
      case None
      with 4 escape show ?thesis by (cases cs) (auto simp: quote_step_def)
    qed
  next
    case False
    show ?thesis
    proof (cases "q = single_quote \<and> c = backslash \<and> get_at cs 0 = Some single_quote")
      case True
      with 4 False show ?thesis by (auto simp: quote_step_def)
    next
      case plain: False
      show ?thesis
      proof (cases "c = q")
        case True
        with 4 False plain show ?thesis by (auto simp: quote_step_def split: option.splits if_splits)
      next
        case other: False
        then have "read_token Strict cs (i + 1) (Some (q, opened)) (current @ [c]) = Inr (arg, j, rest)"
          using "4.prems" False plain by (simp only: read_token.simps if_False)
        with "4.hyps"(6) other False plain show ?thesis by (auto simp: quote_step_def)
      qed
    qed
  qed
qed (auto split: if_splits)

lemma token_error: "read_token Strict cs i quote current \<noteq> Inl (SecondCommand k)"
  by (induction Strict cs i quote current rule: read_token.induct)
    (auto split: if_splits option.splits list.splits)

lemma skip_blanks_quiet:
  assumes "skip_blanks cs i = (rest, start, breaks)" "\<not> unquoted_break None cs"
  shows "breaks = 0 \<and> \<not> unquoted_break None rest"
proof -
  let ?blanks = "takeWhile is_space cs"
  have eq: "breaks = count_list ?blanks line_feed" "rest = dropWhile is_space cs"
    using assms(1) by (auto simp: skip_blanks_def Let_def)
  have "double_quote \<notin> set ?blanks" "single_quote \<notin> set ?blanks"
    using set_takeWhileD [of double_quote is_space cs] set_takeWhileD [of single_quote is_space cs]
    by (auto simp: is_space_def byte_def)
  from quiet_plain [OF this, of rest] assms(2) show ?thesis
    by (simp add: eq count_list_0_iff)
qed

lemma parse_from_quiet:
  "\<not> unquoted_break None cs \<Longrightarrow> parse_from cs i 1 argv \<noteq> Inl (SecondCommand k)"
proof (induction cs i "1 :: nat" argv rule: parse_from.induct)
  case (1 cs i argv)
  obtain rest start breaks where skip: "skip_blanks cs i = (rest, start, breaks)" by (metis prod_cases3)
  note quiet = skip_blanks_quiet [OF skip "1.prems"]
  show ?case
  proof (cases "rest = []")
    case True
    with skip show ?thesis by (subst parse_from.simps) simp
  next
    case False
    show ?thesis
    proof (cases "read_token Strict rest start None []")
      case (Inl e)
      moreover have "e \<noteq> SecondCommand k" using Inl token_error [of rest start None "[]" k] by auto
      ultimately show ?thesis using skip False quiet by (subst parse_from.simps) simp
    next
      case (Inr x)
      obtain arg j rest' where x: "x = (arg, j, rest')" by (metis prod_cases3)
      have "\<not> unquoted_break None rest'" using token_quiet [of rest start None "[]" arg j rest'] Inr x quiet by simp
      with "1.hyps" [OF skip [symmetric] refl False _ Inr x [symmetric] refl] quiet
      show ?thesis using skip False Inr x by (subst parse_from.simps) simp
    qed
  qed
qed

theorem selected_command_is_one:
  assumes "current_command sql cursor = Inr (Some command)"
  shows "parse_argv command \<noteq> Inl (SecondCommand k)"
proof -
  obtain spans where spans: "lines_from (length sql) cursor sql 0 0 None [] = Inr spans"
    using assms by (cases "lines_from (length sql) cursor sql 0 0 None []")
      (simp_all add: current_command_def command_spans_def split: if_splits)
  let ?here = "\<lambda>(start, stop). start \<le> cursor \<and> cursor \<le> stop \<or> cursor < start"
  obtain start stop where hit: "find ?here spans = Some (start, stop)"
      "command = trim (case get_range sql start stop of None \<Rightarrow> [] | Some s \<Rightarrow> s)"
    using assms spans
    by (cases "find ?here spans") (auto simp: current_command_def command_spans_def Let_def split: if_splits)
  then have found: "(start, stop) \<in> set spans" by (auto simp: find_Some_iff in_set_conv_nth)
  have "\<not> unquoted_break None (take (stop - start) (drop start sql))"
    using lines_from_quiet [OF spans, of sql start stop] found by simp
  then have "\<not> unquoted_break None (case get_range sql start stop of None \<Rightarrow> [] | Some s \<Rightarrow> s)"
    by (simp add: get_range_def)
  then have "\<not> unquoted_break None command"
    unfolding hit(2) trim_def by (intro quiet_trim_end quiet_trim_start)
  from parse_from_quiet [OF this] show ?thesis by (simp add: parse_argv_def)
qed

text \<open>Trimming takes Unicode blanks, which the decoder reads as bytes of an argument: a command whose last
  argument ends with one is run without it when the cursor selects it.\<close>

lemma trimmed_blank_changes_the_command:
  "current_command (''GET k'' @ [CHR 0xC2, CHR 0xA0]) 0 = Inr (Some ''GET k'')"
  "parse_argv (''GET k'' @ [CHR 0xC2, CHR 0xA0]) = Inr [''GET'', CHR ''k'' # [CHR 0xC2, CHR 0xA0]]"
proof -
  let ?line = "''GET k'' @ [CHR 0xC2, CHR 0xA0]"
  have spans: "lines_from 7 0 ?line 0 0 None [] = Inr [(0, 7)]" by simp
  have start: "trim_start (CHR ''G'' # s) = CHR ''G'' # s" for s
    by (subst trim_start.simps) (simp add: ws_lead_def white_space_def starts_with_def)
  have stop: "trim_end ?line = ''GET k''"
    by (subst trim_end.simps, subst trim_end.simps) (simp add: ws_trail_def white_space_def ends_with_def)
  have "trim ?line = ''GET k''" using start [of "tl ?line"] stop by (simp add: trim_def)
  moreover have "get_range ?line 0 7 = Some ?line" by (simp add: get_range_def)
  moreover have "is_char_boundary ?line 0" by (simp add: is_char_boundary_def get_at_def)
  moreover have "command_spans ?line 0 = Inr [(0, 7)]" using spans by (simp add: command_spans_def)
  ultimately show "current_command ?line 0 = Inr (Some ''GET k'')"
    by (simp add: current_command_def Let_def del: append_Cons)
  show "parse_argv ?line = Inr [''GET'', CHR ''k'' # [CHR 0xC2, CHR 0xA0]]"
    by (simp add: parse_argv_def parse_from.simps skip_blanks_def is_space_def ends_argument_def byte_def Let_def)
qed

end
