(* ===== verification/Spec2Isabelle.thy ===== *)
theory Spec2Isabelle
  imports Sample_World Retained Editor_Selection Mysql_Split Catalog_Budget Catalog_Text Redaction Agent_Gate
    Redis_Stop Redis_Options Redis_Text Resp_Wire
begin

text \<open>
  Oxyn is a database client: people and AI agents send commands to an executor, which decides,
  journals, runs and announces them. This development models the path of a command through
  that executor, and what the path rests on, from the sources under \<open>src/crates/\<close>.

  \<^bold>\<open>How the parts interact.\<close> A command (\<open>Command_Bus\<close>, \<open>oxyn-core/command.rs\<close>) enters
  \<open>dispatch_as\<close> (\<open>Dispatch\<close>, \<open>oxyn-exec/executor.rs\<close>). The text it carries is read again
  (\<open>Request_Bounds\<close>), which splits it (\<open>Sql_Scanner\<close>, \<open>Sql_Split\<close>, \<open>Mysql_Split\<close>:
  \<open>oxyn-query/split.rs\<close> and \<open>split/mysql.rs\<close>) and classifies each statement (\<open>Sql_Ast\<close>,
  \<open>Float64\<close>, \<open>Classify\<close>: \<open>classify.rs\<close>); the policy gate decides (\<open>Policy_Gate\<close>:
  \<open>oxyn-core/policy.rs\<close>); the decision is journaled and the history opened (\<open>Audit_Records\<close>:
  \<open>oxyn-store/journal.rs\<close>, \<open>history.rs\<close>); the command is set aside (\<open>Approvals\<close>:
  \<open>oxyn-exec/approval.rs\<close>) or runs (\<open>Executor\<close>), which for a statement is one execution
  (\<open>Execution\<close>) on a session (\<open>Sessions\<close>: \<open>sessions.rs\<close>, \<open>cancel.rs\<close>), under a token
  (\<open>Cancel_Token\<close>: \<open>oxyn-core/cancel.rs\<close>), into a retained result (\<open>Retained\<close>:
  \<open>retained.rs\<close>). \<open>Query_Types\<close>, \<open>Connection_Types\<close>, \<open>Local_Requests\<close> and \<open>Declarations\<close>
  are the data these exchange, with the validation each goes through. \<open>Editor_Selection\<close> is the
  statement under the cursor.

  A result is \<open>Result_Buffer\<close>, filled by \<open>Batch_Sink\<close> and written by \<open>Result_Export\<close>
  (\<open>oxyn-data/buffer.rs\<close>, \<open>sink.rs\<close>, \<open>export.rs\<close>). The catalog of a connection is
  \<open>Catalog_Path\<close> (\<open>oxyn-catalog/path.rs\<close>), \<open>Catalog_Model\<close> (\<open>model.rs\<close>, \<open>nesting.rs\<close>),
  \<open>Catalog_Cache\<close> and \<open>Catalog_Scopes\<close> (\<open>cache.rs\<close>, \<open>cache/listing.rs\<close>), with their laws in
  \<open>Catalog_Laws\<close> and \<open>Catalog_Invariant\<close>; \<open>Catalog_Refresh\<close> and \<open>Catalog_Budget\<close>
  (\<open>oxyn-exec/catalog.rs\<close>, \<open>catalog/budget.rs\<close>) read it from a provider, charge and publish it;
  \<open>Catalog_Text\<close> is what an editor inserts of it (\<open>insertion.rs\<close>, \<open>reserved.rs\<close>, \<open>literal.rs\<close>).
  Secrets are masked in texts by \<open>Redaction\<close> and \<open>Redis_Text\<close> (\<open>oxyn-query/redact.rs\<close>,
  \<open>redis.rs\<close>), and what a model is told of a database is selected by \<open>Agent_Selection\<close>, written by \<open>Agent_Context\<close>
  under the tier of the connection, with its laws in \<open>Agent_Gate\<close> (\<open>oxyn-ai/context.rs\<close>,
  \<open>context/\<close>), and fenced by \<open>Untrusted_Fence\<close> (\<open>untrusted.rs\<close>). One driver is modelled, that of Redis: its wire protocol
  (\<open>Resp_Wire\<close>), its commands (\<open>Redis_Argv\<close>, \<open>Redis_Commands\<close>), its connection and options
  (\<open>Redis_Connection\<close>, \<open>Redis_Options\<close>, over \<open>Driver_Metadata\<close>, the interface of drivers) and how a
  statement of it stops (\<open>Redis_Stop\<close>). \<open>Oxyn_Prelude\<close>, \<open>Code_Points\<close> and \<open>Lossy_Text\<close> hold what
  they share, \<open>Sample_World\<close> the concrete inputs of the witnesses.

  \<^bold>\<open>How the model corresponds to the code.\<close> A struct is a record with its fields prefixed, an
  enumeration a datatype with the source's constructors; \<open>Result\<close> is a sum whose left side is
  \<open>oxyn_error\<close>; a text is the list of its bytes, read as characters; \<open>u64\<close> counters are 64-bit
  words; identifiers are tagged numbers, instants and durations numbers. A handler takes the
  state of the executor and returns it: \<open>executor\<close> in \<open>Execution\<close>, whose field \<open>ex_trace\<close> lists, in
  order, the audit writes, the events, and the calls to a driver, the store or a file. What code
  outside the repository answers (a driver, the SQL parser, the keyring, the clock, the blocking
  pool, the tables of the store) is a field of \<open>world\<close> or an argument. A theorem holds for every
  such answer, unless a hypothesis names one.

  \<^bold>\<open>What the lemmas show.\<close> \<open>grows P ex ex'\<close> says that the trace only gained entries that satisfy
  \<open>P\<close>; \<open>Command_Effects\<close> proves, operation by operation, that \<open>execute_command\<close> grows within
  \<open>may_cause\<close>, and \<open>Dispatch_Safety\<close> composes this with the gate and the audit writes. The
  contracts between components are locales: a policy gate (\<open>Policy_Gate\<close>), a queue of approvals
  (\<open>Approvals\<close>), a splitter (\<open>Sql_Split\<close>), each interpreted on the code's definitions.
  \<open>Classify_Safety\<close> shows that the classification of a batch is at least as serious as all it runs.
  What an agent may cause is \<open>agent_effect\<close> before a human's approval and \<open>approved_effect\<close> after it;
  what a published read leaves in the cache is \<open>patch_held\<close>, what a disconnection asks of the servers
  \<open>cancel_asks\<close>.
  The properties of this theory are listed in the order of their importance, C1 first.

  \<^bold>\<open>Bounds and fuel.\<close> No definition runs on fuel. A loop is a \<open>fun\<close> or a \<open>function\<close> with a
  measure: the distance to the end of the text for scanners, the cells not yet cancelled for tokens,
  the charges still held for a reservation. One loop is \<open>while_option\<close>, the eviction of definitions,
  whose end is a theorem (\<open>evict_definitions_ends\<close>): it holds on a well-formed cache only.

  \<^bold>\<open>Not modelled.\<close> Concurrency inside a handler: a handler is one step, and the lemmas on runs
  quantify over sequences of steps. The values of result batches, which are Arrow arrays. The ranking
  of a search in the catalog, in 32-bit floating point. The SQL of the store, the drivers but
  one, the language models, the plugins and the desktop shell, which call libraries more than they
  decide. The log lines (\<open>tracing\<close>).
\<close>

section \<open>The passage point\<close>

text \<open>C1. Whatever the gate decides, what a dispatched command adds to the trace of the executor
  either never reaches a driver, the store or a file, or starts with the journal entry of its own
  decision: written, not denied, under its identifier and its actor (\<open>dispatch_as\<close>, \<open>run\<close>).\<close>

theorem dispatch_is_journaled_first:
  "\<exists>t. ex_trace (snd (dispatch_as w i a cmd cancel ex)) = ex_trace ex @ t \<and> audited i a t"
  by (rule dispatch_as_audited)

text \<open>C2. Behind the default policy, what an agent has run without a human's approval is requests that
  are not mutating, a preview's included: a SQL text only when every statement of it was understood
  as a read, a text of another language only when the driver of its session proved it to be a
  read; the context of a session is never changed. What a human approves is the command the queue
  holds, no other: its text in its language, and previews; it changes data or the context only on a
  connection that is registered, neither production nor read-only.\<close>

theorem agents_only_read:
  "grows (agent_effect (w_lib w) (w_prover w) (ex_sessions ex)) ex
     (snd (dispatch_as (w\<lparr>w_gate := default_gate p\<rparr>) i (Agent agent session) cmd cancel ex))
   \<and> grows (approved_effect p (w_lib w) (w_prover w) ex j) ex
     (snd (approve (w\<lparr>w_gate := default_gate p\<rparr>) who j cancel ex))"
  using dispatch_as_agent [of "w\<lparr>w_gate := default_gate p\<rparr>" p "Agent agent session" ex i cmd cancel]
    approve_agent [of "w\<lparr>w_gate := default_gate p\<rparr>" p ex j who cancel]
  by simp

text \<open>C3. What an agent has run on a Redis session without a human's approval, a preview included, is a
  read the server's command table proved, named on the list of the driver: nothing else of that
  language reaches the driver so.\<close>

theorem agents_only_send_listed_reads:
  "grows (sends_listed_reads (ex_sessions ex)) ex
     (snd (dispatch_as (w\<lparr>w_gate := default_gate p, w_prover := redis_prover\<rparr>) i (Agent agent session) cmd cancel ex))"
  using dispatch_as_agent_redis [of "w\<lparr>w_gate := default_gate p, w_prover := redis_prover\<rparr>" p "Agent agent session" ex i cmd cancel]
  by simp



text \<open>C5. Only an allowed command is run at dispatch: the bounded, reclassified command goes to
  \<open>run\<close>; in the two other branches nothing reaches a driver, the store or a file.\<close>

theorem dispatch_runs_only_the_allowed:
  "let seen = reclassified (w_lib w) (w_prover w) (ex_sessions ex) cmd
   in case decide w ex a seen of
        Allow \<Rightarrow> dispatch_as w i a cmd cancel ex
                   = run_command w i a (bounded_command w ex seen) Allow cancel None ex
      | _ \<Rightarrow> grows is_audit ex (snd (dispatch_as w i a cmd cancel ex))"
  by (auto simp: Let_def dispatch_as_allowed intro!: dispatch_as_not_allowed split: decision.split)

text \<open>C6. What the default policy answers, over every actor, command and environment: 2 for a
  denial, 1 for a required approval, 0 for an authorization.\<close>

theorem default_policy_decides:
  "restrictiveness (authorize p a cmd e) =
    (if is_agent a \<and> agent_forbidden cmd \<or> marking_forbids p cmd
        \<or> is_agent a \<and> is_mutating cmd \<and> is_production (retained_environment p cmd e) then 2
     else if risk_is_some (mutation_risk_of cmd)
        \<or> is_mutating cmd \<and> (is_agent a \<or> is_production (retained_environment p cmd e)) then 1
     else 0)"
  unfolding risk_is_some_def by (rule restrictiveness_authorize)

text \<open>C7. What the caller declares of a request (its intent, its risk and the two flags) has no
  say: the reclassified command is the same whatever it declares.\<close>

theorem declarations_have_no_say:
  "reclassified lib pv sessions (Execute c s
      (r\<lparr>req_intent := i, req_risk := k, transaction_control := t, context_change := x\<rparr>))
     = reclassified lib pv sessions (Execute c s r)"
  using reclassified_request_declared [of r "r\<lparr>req_intent := i, req_risk := k, transaction_control := t, context_change := x\<rparr>"]
  by (simp add: same_text_def)


section \<open>Executions\<close>

text \<open>C9. An execution is announced as finished once and last, or not at all. Either it failed before it
  had a cursor: then no schema was announced and no terminal event published. Or its schema was
  announced, and its last event is its only terminal one and is the one of its result: the failure
  returned, the cancellation, or the completion, with the statistics and the intent returned.\<close>

theorem executions_end_once_and_last:
  fixes res :: "'v outcome result"
  assumes "execute_statement render rw i c s request cancel scope ex = (res, ex')"
  shows "(\<exists>e t. res = Inl e \<and> ex_trace ex' = ex_trace ex @ t \<and> list_all quiet_effect t)
       \<or> (\<exists>t r ev. ex_trace ex' = ex_trace ex @ t @ [Published i (Some c) ev]
            \<and> Published i (Some c) (SchemaReady r) \<in> set t
            \<and> event_is_terminal ev \<and> list_all (\<lambda>e. \<not> is_terminal_effect e) t
            \<and> ((\<exists>e. res = Inl e \<and> ev = event_failed render e)
               \<or> (\<exists>h buffer stats timings sink. res = Inr (Executed r h buffer stats timings sink)
                    \<and> ev = (if sink = SinkCancelled then EvCancelled else Completed r stats (req_intent request)))))"
  using assms by (rule execute_statement_terminal) metis+

theorem executions_end_once_and_last_witness:
  "\<exists>res :: nat outcome result. \<exists>ex'.
     execute_statement (\<lambda>e. []) sample_run (CommandId 5) (ConnectionId 1) (SessionId 1) sample_read 0
       \<lparr>run_preview_limit = None, run_started = 0\<rparr> sample_executor = (res, ex')
     \<and> ((\<exists>e t. res = Inl e \<and> ex_trace ex' = ex_trace sample_executor @ t \<and> list_all quiet_effect t)
       \<or> (\<exists>t r ev. ex_trace ex' = ex_trace sample_executor @ t @ [Published (CommandId 5) (Some (ConnectionId 1)) ev]
            \<and> Published (CommandId 5) (Some (ConnectionId 1)) (SchemaReady r) \<in> set t
            \<and> event_is_terminal ev \<and> list_all (\<lambda>e. \<not> is_terminal_effect e) t
            \<and> ((\<exists>e. res = Inl e \<and> ev = event_failed (\<lambda>e. []) e)
               \<or> (\<exists>h buffer stats timings sink. res = Inr (Executed r h buffer stats timings sink)
                    \<and> ev = (if sink = SinkCancelled then EvCancelled else Completed r stats (req_intent sample_read))))))"
proof -
  obtain res :: "nat outcome result" and ex' where run:
    "execute_statement (\<lambda>e. []) sample_run (CommandId 5) (ConnectionId 1) (SessionId 1) sample_read 0
       \<lparr>run_preview_limit = None, run_started = 0\<rparr> sample_executor = (res, ex')"
    by (meson surj_pair)
  show ?thesis using run executions_end_once_and_last [OF run] by (intro exI conjI)
qed




text \<open>C11. A cancellation cancels exactly what was cancelled before and what a chain of live
  children reaches from the token without passing through one cancelled before: not every descendant,
  for a token that was dropped no longer leads to its children, and a live grandchild under it goes on.\<close>

theorem cancel_is_reachability:
  "(is_cancelled (cancel_token t h) u \<longleftrightarrow> is_cancelled h u \<or> reaches h {t} u)
   \<and> (let family = run_tokens [TNew, TChild 0, TChild 1, TDrop 1] []
      in alive family 0 \<and> alive family 2 \<and> \<not> is_cancelled (cancel_token 0 family) 2)"
proof
  show "let family = run_tokens [TNew, TChild 0, TChild 1, TDrop 1] []
      in alive family 0 \<and> alive family 2 \<and> \<not> is_cancelled (cancel_token 0 family) 2" by code_simp
qed (rule is_cancelled_cancel_token)

text \<open>C12. Approvals: whatever the order of submissions, answers, refusals, expirations and sweeps,
  an identifier is granted at most as often as it was submitted.\<close>

theorem approvals_are_used_once:
  "length (filter (\<lambda>g. pc_id (snd g) = i)
       (fst (run_approvals ops (registry_with_capacity n registry_new))))
     \<le> sum_list (map (submits i) ops)"
  using grants_bounded_by_submissions [OF registry_new_inv, of i ops n]
  by (simp add: waiting_def peek_def registry_new_def registry_with_ttl_def registry_with_capacity_def find_key_def)

text \<open>C13. Over the same runs the registry keeps one entry per identifier and never grows past its
  capacity, neither in what waits nor in what it remembers as expired.\<close>

theorem approval_registry_stays_bounded:
  "registry_inv (snd (run_approvals ops (registry_with_capacity n registry_new)))"
  by (rule run_approvals_inv [OF registry_new_inv])

text \<open>C14. Pruning forgets the oldest of the results nobody else holds, in the order they were stored
  in, and no more of them than it takes to be within the three limits; a result somebody holds is never
  forgotten.\<close>

theorem pruning_is_minimal:
  assumes "retained_inv r" "prune_to cl ml sl r = (evicted, r')"
    and "idle_ids = filter (only_held_here r) (rr_order r)"
    and "memory_held r idle_ids < 2 ^ 64" "file_held r idle_ids < 2 ^ 64"
  shows "(\<exists>k. map Some evicted = map (rr_entries r) (take k idle_ids)
      \<and> rr_entries r' = (\<lambda>i. if i \<in> set (take k idle_ids) then None else rr_entries r i)
      \<and> rr_order r' = filter (\<lambda>i. i \<notin> set (take k idle_ids)) (rr_order r)
      \<and> holds_within cl ml sl r (drop k idle_ids)
      \<and> (\<forall>j < k. \<not> holds_within cl ml sl r (drop j idle_ids)))
    \<and> (\<forall>i s. rr_entries r i = Some s \<and> strong_count (sr_buffer s) \<noteq> 1 \<longrightarrow> rr_entries r' i = Some s)"
proof -
  obtain k where k: "map Some evicted = map (rr_entries r) (take k idle_ids)"
    "rr_entries r' = (\<lambda>i. if i \<in> set (take k idle_ids) then None else rr_entries r i)"
    "rr_order r' = filter (\<lambda>i. i \<notin> set (take k idle_ids)) (rr_order r)"
    "holds_within cl ml sl r (drop k idle_ids)" "\<forall>j < k. \<not> holds_within cl ml sl r (drop j idle_ids)"
    using prune_to_ids [OF assms] by blast
  moreover have "i \<notin> set (take k idle_ids)" if "rr_entries r i = Some s" "strong_count (sr_buffer s) \<noteq> 1" for i s
    using that by (auto simp: assms(3) only_held_here_def dest!: in_set_takeD)
  ultimately show ?thesis by auto
qed

definition sample_stored :: "u64 \<Rightarrow> stored_result" where
  "sample_stored n = \<lparr>sr_connection = ConnectionId 1,
     sr_buffer = \<lparr>resident_bytes = n, cached_bytes = 0, spilled_bytes = 0, strong_count = 1\<rparr>\<rparr>"

definition sample_retained :: retained_results where
  "sample_retained = retained_insert (ResultId 2) (sample_stored 5)
     (retained_insert (ResultId 1) (sample_stored 8) retained_new)"

theorem pruning_is_minimal_witness:
  "\<exists>k evicted r'. prune_to 1 8 0 sample_retained = (evicted, r')
     \<and> map Some evicted = map (rr_entries sample_retained) (take k [ResultId 1, ResultId 2])
     \<and> holds_within 1 8 0 sample_retained (drop k [ResultId 1, ResultId 2])
     \<and> (\<forall>j < k. \<not> holds_within 1 8 0 sample_retained (drop j [ResultId 1, ResultId 2]))"
proof -
  obtain evicted r' where run: "prune_to 1 8 0 sample_retained = (evicted, r')" by fastforce
  have "retained_inv sample_retained"
    by (simp add: sample_retained_def retained_inv_insert retained_inv_new)
  moreover have "[ResultId 1, ResultId 2] = filter (only_held_here sample_retained) (rr_order sample_retained)"
    by (simp add: only_held_here_def sample_retained_def retained_insert_def retained_new_def sample_stored_def)
  moreover have "memory_held sample_retained [ResultId 1, ResultId 2] < 2 ^ 64"
    "file_held sample_retained [ResultId 1, ResultId 2] < 2 ^ 64"
    by (simp_all add: memory_held_def file_held_def sample_retained_def retained_insert_def retained_new_def sample_stored_def)
  ultimately show ?thesis using pruning_is_minimal [of sample_retained 1 8 0 evicted r' "[ResultId 1, ResultId 2]"] run
    by blast
qed

section \<open>What a text is\<close>

text \<open>C15. Whatever the text and the dialect, the fragments of a batch are disjoint slices of it, in
  order, each not empty and without blanks at its ends.\<close>

theorem fragments_are_slices:
  "fragments_ok sql (length sql) (split sql d)"
  by (rule split_ok)

text \<open>C16. The one-pass split under a profile is the grouping of the scanner's stream at its
  semicolons, each group that holds anything but comments giving its fragment.\<close>

theorem split_is_grouping:
  "split_with sql p = concat (map (segment_fragments sql) (segments (length sql) 0 [] (scan sql p)))"
  by (rule split_with_segments)

text \<open>C17. A text is classified as a read exactly when there is something to run and every fragment,
  of the text and of its executable view, is readable and was parsed into statements that all read;
  and no fragment holds a word of a mutation, unless one of its statements is an \<open>EXPLAIN\<close> that executes
  nothing, or one of a table, which may name the mutation it only explains.\<close>

theorem reads_are_understood:
  "class_is_read_only (classify lib sql d)
     \<longleftrightarrow> split (runnable sql d) d \<noteq> [] \<and> list_all (fragment_reads lib d) (split (runnable sql d) d)
       \<and> list_all (fragment_reads lib d) (split sql d)"
  by (rule classify_read_only_iff)

text \<open>C18. A classification is at least as serious, in intent and in risk, as every statement the
  server executes when it executes a statement of the text: an explained one, a \<open>WITH\<close> query, a
  source, a side of a set operation.\<close>

theorem classification_covers_what_runs:
  assumes "f \<in> set (split sql d) \<union> set (split (runnable sql d) d)" "\<not> frag_unreadable f"
    and "parse_sql lib (parser_dialect d) (frag_text f) = Inr stmts" "s \<in> set stmts" "runs s t"
  shows "milder (statement_facts lib t) (class_facts (classify lib sql d))"
  by (rule classify_covers [OF assms])

theorem classification_covers_what_runs_witness:
  "milder (statement_facts sample_library (StDelete None))
     (class_facts (classify sample_library ''select 1; delete from t'' Postgres))"
proof (rule classification_covers_what_runs)
  show "split ''select 1; delete from t'' Postgres ! 1
      \<in> set (split ''select 1; delete from t'' Postgres)
        \<union> set (split (runnable ''select 1; delete from t'' Postgres) Postgres)" by code_simp
  show "\<not> frag_unreadable (split ''select 1; delete from t'' Postgres ! 1)" by code_simp
  show "parse_sql sample_library (parser_dialect Postgres)
      (frag_text (split ''select 1; delete from t'' Postgres ! 1)) = Inr [StDelete None]" by code_simp
qed (auto intro: runs_query_runs_set_expr_runs.intros)



section \<open>Names\<close>

text \<open>C20. A path whose levels are valid reads back from its rendering, whatever dots, quotes and
  blanks its levels hold.\<close>

theorem paths_read_back:
  assumes "path_ok p"
  shows "path_from_str (path_display p) = Inr p"
  by (rule path_display_roundtrip [OF assms])

theorem paths_read_back_witness:
  "path_from_str (path_display \<lparr>cp_catalog = None, cp_namespace = Some ''a.b'', cp_relation = Some ''t''\<rparr>)
     = Inr \<lparr>cp_catalog = None, cp_namespace = Some ''a.b'', cp_relation = Some ''t''\<rparr>"
  by (rule paths_read_back)
    (simp add: path_ok_def path_segments_def present_def map_filter_simps validate_segment_def byte_def)

text \<open>C21. A name an editor inserts is one element for the scanner of its dialect, whatever it holds: a bare
  word, or a quoted name from its first quote to its last. In Snowflake the scanner takes a backslash
  for an escape, so the name must hold none.\<close>

theorem inserted_names_are_one_element:
  assumes "d \<noteq> Snowflake \<or> CHR 0x5C \<notin> set name"
    and "rest = [] \<or> \<not> is_word_byte (hd rest) \<and> hd rest \<noteq> closing_quote (quote_style_for d)"
    and "form = insertion_form name d"
  shows "lex (pre @ form @ rest) (length pre) (hd form) (for_dialect d)
    = (if form = name then Word else Quoted, length pre + length form)"
  by (rule lex_insertion_form [OF assms])

theorem inserted_names_are_one_element_witness:
  "lex (''drop '' @ insertion_form (''T'' @ [CHR 0x22] @ '';x'') Postgres @ '';'') 5 (CHR 0x22) (for_dialect Postgres)
     = (Quoted, 12)"
proof -
  have form: "insertion_form (''T'' @ [CHR 0x22] @ '';x'') Postgres = [CHR 0x22] @ ''T'' @ [CHR 0x22, CHR 0x22] @ '';x'' @ [CHR 0x22]"
    by (simp add: insertion_form_def is_simple_def lower_letter_def byte_def double_char_def)
  show ?thesis
    using inserted_names_are_one_element [of Postgres "''T'' @ [CHR 0x22] @ '';x''" "'';''" _ "''drop ''", OF _ _ refl]
    unfolding form by (simp add: is_word_byte_def is_ascii_alphanumeric_def is_ascii_alphabetic_def is_ascii_digit_def
      byte_def eval_nat_numeral)
qed

text \<open>C22. A value copied as a literal of a dialect is one literal for the scanner of that dialect, from its
  opening quote to its end, whatever the value holds: no value closes its literal early.\<close>

theorem literals_are_one_element:
  assumes "push_string_literal written val d = (Inr (), sql)" "written = [] \<or> \<not> is_word_byte (last written)"
    and "\<not> starts_with rest [CHR 0x27]"
  shows "\<exists>prefix body. sql = written @ prefix @ body \<and> prefix = literal_prefix (escaping_of d) val
    \<and> lex (sql @ rest) (length written + length prefix) (hd body) (for_dialect d) = (SingleQuoted, length sql)"
  by (rule lex_string_literal [OF assms])

theorem literals_are_one_element_witness:
  "lex (''('' @ [CHR 0x27, CHR 0x27, CHR 0x27] @ '');--'' @ [CHR 0x27] @ '')'') 1 (CHR 0x27) (for_dialect Postgres)
     = (SingleQuoted, 9)"
proof -
  have run: "push_string_literal ''('' (CHR 0x27 # '');--'') Postgres
      = (Inr (), ''('' @ [CHR 0x27, CHR 0x27, CHR 0x27] @ '');--'' @ [CHR 0x27])"
    by (simp add: push_string_literal_def refuse_controls_def literal_prefix_def doubles_backslash_def literal_char_def byte_def)
  show ?thesis
    using literals_are_one_element [OF run, of "'')''"]
    by (simp add: literal_prefix_def doubles_backslash_def is_word_byte_def is_ascii_alphanumeric_def is_ascii_alphabetic_def
        is_ascii_digit_def byte_def starts_with_def)
qed

section \<open>Secrets and data in texts\<close>

text \<open>C23. Redacting a SQL text keeps every byte outside the secrets found in it and turns each run of
  secrets, however many literals it is made of, into one marker.\<close>

theorem secrets_are_masked:
  "redact_sql sql d = mask_runs (covers (secret_spans sql d)) sql"
  by (rule redact_sql_masks)

text \<open>C24. Redacting a Redis text is writing its commands again argument by argument, each secret one
  replaced by the marker, with every blank and line break between them as it was.\<close>

theorem redis_secrets_are_replaced:
  "redact_redis sql = weave sql 0 (concat (map marked (redis_commands sql)))"
  by (rule redact_redis_weaves)

text \<open>C25. Whatever a database text holds, the closing line of the fence around it occurs in what the
  model is given once, at the end: no text can close its fence and speak outside it.\<close>

theorem data_cannot_leave_its_fence:
  assumes "one_line nonce" "fenced (with_nonce nonce) raw = xs @ fence_close (with_nonce nonce) @ ys"
  shows "ys = []"
  by (rule fence_closes_last [OF assms])

theorem data_cannot_leave_its_fence_witness:
  "\<exists>xs. fenced (with_nonce [0x61]) [0x62] = xs @ fence_close (with_nonce [0x61]) @ []"
proof -
  obtain xs where xs: "fenced (with_nonce [0x61]) [0x62] = xs @ fence_close (with_nonce [0x61]) @ []"
    by (simp add: fenced_def)
  have "one_line [0x61]" by (simp add: one_line_def)
  from data_cannot_leave_its_fence [OF this xs] xs show ?thesis by blast
qed

text \<open>C26. Under a tier without row values, what the gate gives a model does not depend on the rows
  offered to it, nor on the names of keys: two caches that differ by the names of the keys they list,
  past the prefixes that can be sent, give the same text, as long as what is selected or mentioned
  besides is the same in both.\<close>

theorem key_names_and_rows_stay_home:
  assumes "\<not> allows_row_values (cb_tier b)"
    and "same_outside_keys w (naming_for (cb_language b)) c c'"
    and "filter (told b c) (selection w search sem b c) = filter (told b c') (selection w search sem b c')"
    and "\<And>p. p \<in> set (filter (told b c) (selection w search sem b c)) \<union> set (mentioned_paths (cb_mentions b))
      \<Longrightarrow> answers_alike c c' p"
  shows "ac_block (build w search sem f (b\<lparr>cb_samples := ss\<rparr>) c) = ac_block (build w search sem f b c')"
  by (rule block_outside_keys [OF assms])

theorem key_names_and_rows_stay_home_witness:
  "ac_block (build plain_writers no_search no_scores (with_nonce [])
      ((context_builder_new Metadata)\<lparr>cb_samples := [\<lparr>rs_relation = path_empty, rs_columns = [], rs_rows = []\<rparr>]\<rparr>)
      (key_cache ''al'' ''bo''))
   = ac_block (build plain_writers no_search no_scores (with_nonce []) (context_builder_new Metadata)
      (key_cache ''ca'' ''de''))"
  by (rule key_names_and_rows_stay_home [OF _ key_caches])
    (simp_all only: key_cache_untold, simp_all add: context_builder_new_def mentioned_paths_def map_filter_def)

text \<open>C27. What the gate writes between the fences, the lines that name what was left out apart, fits the
  budget of tokens of the policy, unless the part before the relations alone exceeds it.\<close>

theorem context_stays_in_budget:
  "estimate_tokens (bo_text (assemble w b c re selected))
     \<le> max (estimate_tokens (context_header w b (naming_for (cb_language b)) c re))
          (po_max_context_tokens (cb_policy b))
       + estimate_tokens (concat (bo_left_out (assemble w b c re selected)))"
  by (rule assembled_budget)

text \<open>C28. When every mention is of a listed relation the tier lets be named, and of a field it has, the host
  that completes the catalog before a question loads every relation the gate then describes.\<close>

theorem host_loads_what_is_described:
  assumes "list_all (mention_accepted (cb_tier b) c) (take max_mentions (cb_mentions b))"
  shows "set (ac_relations (build w search sem f b c))
    \<subseteq> set (wanted_relations_ranked search sem c (po_max_relations (cb_policy b)) (cb_focus b) (cb_mentions b)
        (cb_fill b))"
  by (rule described_is_wanted [OF assms])

theorem host_loads_what_is_described_witness:
  "set (ac_relations (build plain_writers no_search no_scores (with_nonce []) (ghost_builder\<lparr>cb_mentions :=
        [MentionRelation (in_schema ''main'' (Some ''t'')) None]\<rparr>) (listed ''main'' KindTable [''a'', ''t''])))
    \<subseteq> {in_schema ''main'' (Some ''t'')}"
proof -
  let ?b = "ghost_builder\<lparr>cb_mentions := [MentionRelation (in_schema ''main'' (Some ''t'')) None]\<rparr>"
  let ?c = "listed ''main'' KindTable [''a'', ''t'']"
  have "list_all (mention_accepted (cb_tier ?b) ?c) (take max_mentions (cb_mentions ?b))"
    by (simp add: ghost_builder_def max_mentions_def lookup_simps listed_simps withholds_def)
  from host_loads_what_is_described [OF this, of plain_writers no_search no_scores "with_nonce []"]
  show ?thesis
    by (simp add: ghost_builder_def wanted_relations_ranked_def selection_simps lookup_simps listed_simps Let_def)
qed

section \<open>The Redis wire\<close>

text \<open>C29. A command encoded for the server and cut by the network anywhere is read back as the list of
  its arguments, whole, and nothing past its last byte is consumed.\<close>

theorem commands_survive_the_wire:
  assumes "steady s" "flat s = encode argv @ rest" "payload cost argv < budget"
    and "length argv < 2 ^ 64" "\<forall>arg \<in> set argv. length arg < 2 ^ 64"
  shows "\<exists>s'. flat s' = rest
    \<and> read_value cost s budget = Inr (VList ArrayAgg (map whole_bulk argv), s', budget - payload cost argv - cost)"
  using commands_read_back [OF assms] by blast

theorem commands_survive_the_wire_witness:
  "\<exists>s'. flat s' = ''rest'' \<and> read_value 0 [Chunk (encode [''GET'', ''k'']), Chunk ''rest''] 10
     = Inr (VList ArrayAgg [whole_bulk ''GET'', whole_bulk ''k''], s', 6)"
  using commands_survive_the_wire [of "[Chunk (encode [''GET'', ''k'']), Chunk ''rest'']" "[''GET'', ''k'']" "''rest''" 0 10]
  by (simp add: steady_def flat_def payload_def encode_def)

text \<open>C30. What is kept of a reply, whatever a server answers, is within its budget but for one line per
  level of nesting.\<close>

theorem replies_stay_within_their_budget:
  assumes "read_value cost s budget = Inr (v, s', budget')"
  shows "kept v + budget' \<le> budget + (max_depth + 1) * max_line"
  by (rule values_keep_to_their_budget [OF assms])

theorem replies_stay_within_their_budget_witness:
  "kept (VList ArrayAgg [whole_bulk ''GET'', whole_bulk ''k'']) + 6 \<le> 10 + (max_depth + 1) * max_line"
proof -
  have "\<exists>s'. steady s' \<and> flat s' = ''rest'' \<and> read_value 0 [Chunk (encode [''GET'', ''k'']), Chunk ''rest''] 10
     = Inr (VList ArrayAgg [whole_bulk ''GET'', whole_bulk ''k''], s', 6)"
    using commands_read_back [of "[Chunk (encode [''GET'', ''k'']), Chunk ''rest'']" "[''GET'', ''k'']" "''rest''" 0 10]
    by (simp add: steady_def flat_def payload_def encode_def)
  then obtain s' where "read_value 0 [Chunk (encode [''GET'', ''k'']), Chunk ''rest''] 10
     = Inr (VList ArrayAgg [whole_bulk ''GET'', whole_bulk ''k''], s', 6)" by blast
  from replies_stay_within_their_budget [OF this] show ?thesis .
qed

section \<open>The catalog\<close>


definition sample_description :: relation where
  "sample_description =
     \<lparr>rel_name = ''t'', rel_kind = KindTable, rel_comment = None, rel_estimated_rows = None,
      rel_size_bytes = None, rel_fields = [], rel_key_order_preview = False\<rparr>"

definition sample_provider :: provider where
  "sample_provider =
     \<lparr>pr_server_info = Inl ECancelled, pr_catalogs = Inr [], pr_namespaces = (\<lambda>_. Inr []),
      pr_relations = (\<lambda>_. Inr []),
      pr_describe = (\<lambda>p. Inr sample_description),
      pr_indexes = (\<lambda>_. Inr []), pr_foreign_keys = (\<lambda>_. Inr []), pr_constraints = (\<lambda>_. Inr []),
      pr_incoming = (\<lambda>_. Inr []), pr_definition = (\<lambda>_. Inl ECancelled), pr_resolution_path = Inr []\<rparr>"

text \<open>The relation \<open>t\<close> of the schema \<open>s\<close>, on a session that lists indexes and not foreign keys.\<close>

definition sample_target :: catalog_path where
  "sample_target = \<lparr>cp_catalog = None, cp_namespace = Some ''s'', cp_relation = Some ''t''\<rparr>"

definition sample_patch :: catalog_patch where
  "sample_patch = empty_patch\<lparr>pa_indexes := Some (sample_target, []), pa_relation := Some (sample_target, sample_description)\<rparr>"

lemma sample_catalog_read:
  "catalog_read sample_provider (flag 4) (\<lambda>_. False) (Relation None (Some ''s'') ''t'') = Inr sample_patch"
proof -
  have "scope_target None (Some ''s'') (Some ''t'') = Inr sample_target"
    by (simp add: scope_target_def from_levels_def present_def List.map_filter_def validate_segment_def
        sample_target_def byte_def)
  moreover have "caps_contains (flag 4) (flag 4)" "\<not> caps_contains (flag 4) (flag 6)"
    by (simp_all add: caps_contains_def flag_def)
  ultimately show ?thesis
    by (simp add: catalog_read_def gated_def check_cancel_def sample_provider_def sample_patch_def empty_patch_def)
qed


text \<open>C32. After the refresh of a relation the cache describes it as the provider does, its types cut to
  the bound; its indexes and foreign keys are the provider's where the session can list them, and
  where it cannot they stay as they were: a source is never said to have none because it cannot say.\<close>

theorem refreshed_relations_say_what_was_read:
  assumes "catalog_read pr caps stop (Relation c n r) = Inr patch"
    and "apply_patch now patch cache = Some (Inr (), cache')"
    and "p = \<lparr>cp_catalog = c, cp_namespace = n, cp_relation = Some r\<rparr>"
  shows "(\<exists>detail. pr_describe pr p = Inr detail
      \<and> cached_relation p cache' = Some (detail\<lparr>rel_fields := bound_fields (rel_fields detail)\<rparr>))
    \<and> cached_indexes p cache' = listed_if caps 4 (pr_indexes pr p) (cached_indexes p cache)
    \<and> cached_foreign_keys p cache' = listed_if caps 6 (pr_foreign_keys pr p) (cached_foreign_keys p cache)"
  by (rule relation_refresh_says [OF assms]) blast

theorem refreshed_relations_say_what_was_read_witness:
  "\<exists>cache'. apply_patch 0 sample_patch cache_new = Some (Inr (), cache')
     \<and> cached_indexes sample_target cache' = Some [] \<and> cached_foreign_keys sample_target cache' = None"
proof -
  obtain cache' where run: "apply_patch 0 sample_patch cache_new = Some (Inr (), cache')"
    using patch_published [OF read_patch_ok [OF sample_catalog_read] cache_new_ok, of 0] by blast
  have "caps_contains (flag 4) (flag 4)" "\<not> caps_contains (flag 4) (flag 6)" by (simp_all add: caps_contains_def flag_def)
  with refreshed_relations_say_what_was_read [OF sample_catalog_read run sample_target_def] run show ?thesis
    by (simp add: listed_if_def sample_provider_def cached_foreign_keys_def relation_node_def namespace_node_def
        catalog_node_def cache_new_def unread_def sample_target_def)
qed







section \<open>Results\<close>

text \<open>C34. A push adds to the result the rows of the batch the limit leaves room for, in order and at
  the end, or nothing at all; the buffer stays in order, with at most the rows of the limit, and holds in
  memory at most its share of the budget. A batch goes to the file only when the memory has no room for
  it, spilling is allowed, and its size in memory and the bytes written before are within the quota.\<close>

theorem pushes_append_within_limits:
  assumes "buffer_ok a b" "push a d batch b = (res, b')"
    and "bi_rows (db_index b) + num_rows a batch \<le> usize_max"
  shows "buffer_ok a b'
    \<and> buffer_rows a b' = buffer_rows a b @ (case res of Inr (Some _) \<Rightarrow> accepted a b batch | _ \<Rightarrow> [])
    \<and> at_most_rows (bl_max_rows (db_limits b')) (length (buffer_rows a b'))
    \<and> bi_resident (db_index b') \<le> resident_budget (db_limits b')
    \<and> (\<exists>new. bi_slots (db_index b') = bi_slots (db_index b) @ new
         \<and> length new = (case res of Inr (Some _) \<Rightarrow> 1 | _ \<Rightarrow> 0)
         \<and> (\<forall>sl \<in> set new. case sl of
               Resident _ \<Rightarrow> usat_add (bi_resident (db_index b)) (ar_memory a batch) \<le> resident_budget (db_limits b)
             | Spilled _ \<Rightarrow> resident_budget (db_limits b) < usat_add (bi_resident (db_index b)) (ar_memory a batch)
                 \<and> bl_allow_spill (db_limits b)
                 \<and> (case bl_max_spill (db_limits b) of None \<Rightarrow> True
                    | Some quota \<Rightarrow> usat_add (bi_spilled (db_index b)) (ar_memory a batch) \<le> quota)))"
proof -
  have inv: "buffer_inv a b" using assms(1) by (simp add: buffer_ok_def)
  obtain new where new: "bi_slots (db_index b') = bi_slots (db_index b) @ new"
    "list_all (slot_within (db_limits b) (db_index b) (ar_memory a batch)) new"
    "length new = (case res of Inr (Some _) \<Rightarrow> 1 | _ \<Rightarrow> 0)"
    by (rule push_placement [OF inv assms(2)])
  have "buffer_ok a b'
    \<and> buffer_rows a b' = buffer_rows a b @ (case res of Inr (Some _) \<Rightarrow> accepted a b batch | _ \<Rightarrow> [])
    \<and> at_most_rows (bl_max_rows (db_limits b')) (length (buffer_rows a b'))
    \<and> bi_resident (db_index b') \<le> resident_budget (db_limits b')"
    using push_ok [OF assms] push_rows [OF inv assms(2)] by (auto simp: buffer_ok_def buffer_inv_def)
  with new show ?thesis unfolding list_all_iff slot_within_def by blast
qed

theorem pushes_append_within_limits_witness:
  "\<exists>res b'. push sample_arrow sample_disk ''abcd'' sample_buffer = (res, b')
     \<and> buffer_rows sample_arrow b' = ''abc''"
proof -
  obtain res b' where run: "push sample_arrow sample_disk ''abcd'' sample_buffer = (res, b')" by fastforce
  have room: "bi_rows (db_index sample_buffer) + num_rows sample_arrow ''abcd'' \<le> usize_max"
    by (simp add: sample_result_defs)
  have "res = Inr (Some 0)"
    using run by (simp add: push_def sample_result_defs check_schema_def plan_def plan_rows_def plan_spill_def
        place_def usat_add_def index_append_def Let_def)
  with pushes_append_within_limits [OF sample_buffer_ok run room] run show ?thesis
    by (simp add: sample_result_defs accepted_def buffer_rows_def)
qed

text \<open>C35. A row read is the row that stands there in the result, whether its batch is in memory, in
  the cache or in the file, and reading changes no row; a row is absent only past the end.\<close>

theorem rows_read_are_the_rows_held:
  assumes "buffer_ok a b" "read_row a c1 poll c2 row b = (r, b')"
  shows "buffer_ok a b' \<and> buffer_rows a b' = buffer_rows a b
    \<and> (r = Inr None \<longrightarrow> length (buffer_rows a b) \<le> row)
    \<and> (\<forall>batch off. r = Inr (Some (batch, off)) \<longrightarrow> row < length (buffer_rows a b)
         \<and> off < num_rows a batch \<and> ar_rows a batch ! off = buffer_rows a b ! row)"
  using read_row_spec [OF assms] by blast

theorem rows_read_are_the_rows_held_witness:
  "buffer_rows sample_arrow (snd (read_row sample_arrow False (\<lambda>_. False) False 0 sample_buffer)) = []"
  using rows_read_are_the_rows_held [OF sample_buffer_ok
      prod.collapse [of "read_row sample_arrow False (\<lambda>_. False) False 0 sample_buffer", symmetric]]
  by (simp add: sample_result_defs buffer_rows_def)

text \<open>C36. A drain that ends leaves a closed buffer that holds every batch that arrived but, at most,
  the end of the last one; it is marked truncated exactly when the drain does not report the
  source exhausted, and then it holds everything.\<close>

theorem drains_lose_nothing_silently:
  assumes "open_sink a s" "\<not> sink_truncated s" "\<not> sk_aborted s" "\<not> sk_awaits_terminal s"
    and "drain_with a render ps s = (Some r, ns, s', rest)"
  shows "\<exists>used. ps = used @ rest \<and> (countable_rows a (sk_buffer s) used \<longrightarrow>
     bi_complete (db_index (sk_buffer s')) \<and> (sink_truncated s' \<longleftrightarrow> r \<noteq> Inr Exhausted)
     \<and> holds_but_last a (buffer_rows a (sk_buffer s)) (arrived a used) (buffer_rows a (sk_buffer s'))
     \<and> (r = Inr Exhausted \<longrightarrow> buffer_rows a (sk_buffer s')
          = buffer_rows a (sk_buffer s) @ rows_of a (arrived a used)))"
  using drain_with_drained [OF assms] unfolding drained_as_def by blast

definition sample_pulls :: "string pull list" where
  "sample_pulls = [sample_pull (Some ''ab''), sample_pull None]"

lemma sample_sink_open: "open_sink sample_arrow (sink_new sample_buffer)"
  "\<not> sink_truncated (sink_new sample_buffer)" "\<not> sk_aborted (sink_new sample_buffer)"
  "\<not> sk_awaits_terminal (sink_new sample_buffer)"
  using sample_buffer_ok
  by (simp_all add: open_sink_def sink_new_def sink_truncated_def sample_result_defs)

lemma sample_drain:
  "\<exists>ns s'. drain_with sample_arrow (\<lambda>_. []) sample_pulls (sink_new sample_buffer)
     = (Some (Inr Exhausted), ns, s', [])"
  by (simp add: drain_with_def sample_pulls_def drain_head_def drain_answer_def receive_def store_def push_def
      check_schema_def plan_def plan_rows_def plan_spill_def place_def usat_add_def index_append_def Let_def
      sink_new_def buffer_pressure_def sample_result_defs record_batch_def)

theorem drains_lose_nothing_silently_witness:
  "\<exists>ns s'. drain_with sample_arrow (\<lambda>_. []) sample_pulls (sink_new sample_buffer)
       = (Some (Inr Exhausted), ns, s', [])
     \<and> buffer_rows sample_arrow (sk_buffer s') = ''ab'' \<and> \<not> sink_truncated s'"
proof -
  from sample_drain obtain ns s' where run: "drain_with sample_arrow (\<lambda>_. []) sample_pulls
      (sink_new sample_buffer) = (Some (Inr Exhausted), ns, s', [])" by blast
  from drains_lose_nothing_silently [OF sample_sink_open run] run show ?thesis
    by (simp add: countable_rows_def sample_pulls_def sample_pull_def rows_of_def sample_arrow_def num_rows_def
        sink_new_def sample_buffer_def buffer_with_limits_def buffer_index_new_def buffer_rows_def usize_max_def)
qed

text \<open>C37. A drain that awaits the source's end returns only once the source has said how it ended;
  what it holds is the beginning of what arrived, and everything when it reports so.\<close>

theorem writes_end_with_their_source:
  assumes "open_sink a s" "\<not> sink_truncated s" "drain_to_end a render ps s = (Some r, ns, s', rest)"
  shows "\<exists>used. ps = used @ rest \<and> (countable_rows a (sk_buffer s) used \<longrightarrow>
     source_ended used \<and> bi_complete (db_index (sk_buffer s')) \<and> holds_prefix a (sk_buffer s) used s'
     \<and> (\<forall>why. r = Inr why \<longrightarrow> (sink_truncated s' \<longleftrightarrow> why \<noteq> Exhausted))
     \<and> (r = Inr Exhausted \<longrightarrow> holds_everything a (sk_buffer s) used s'))"
  using drain_to_end_ended [OF assms] unfolding ended_as_def by blast

lemma sample_drain_to_end:
  "\<exists>ns s'. drain_to_end sample_arrow (\<lambda>_. []) sample_pulls (sink_new sample_buffer)
     = (Some (Inr Exhausted), ns, s', [])"
  by (simp add: drain_to_end_def sample_pulls_def end_head_def end_answer_def store_to_end_def push_def
      check_schema_def plan_def plan_rows_def plan_spill_def place_def usat_add_def index_append_def Let_def
      sink_new_def buffer_pressure_def why_stopped_def sink_truncated_def sample_result_defs record_batch_def)

theorem writes_end_with_their_source_witness:
  "\<exists>ns s'. drain_to_end sample_arrow (\<lambda>_. []) sample_pulls (sink_new sample_buffer)
       = (Some (Inr Exhausted), ns, s', [])
     \<and> holds_everything sample_arrow sample_buffer sample_pulls s'"
proof -
  from sample_drain_to_end obtain ns s' where run: "drain_to_end sample_arrow (\<lambda>_. []) sample_pulls
      (sink_new sample_buffer) = (Some (Inr Exhausted), ns, s', [])" by blast
  from writes_end_with_their_source [OF sample_sink_open(1,2) run] run show ?thesis
    by (simp add: countable_rows_def sample_pulls_def sample_pull_def rows_of_def sample_arrow_def num_rows_def
        sink_new_def sample_buffer_def buffer_with_limits_def buffer_index_new_def buffer_rows_def usize_max_def)
qed

text \<open>C38. When a batch cannot be stored while a drain awaits its source's end, the drain fails, yet it
  closes the buffer as a whole result: the export of what is left is not refused.\<close>

theorem unstored_batches_go_unmarked:
  assumes "open_sink a s" "\<not> sink_truncated s" "buffer_pressure (sk_buffer s) = PReady"
    and "pl_received p = Received (Inr (Some batch))"
    and "push a (pl_disk p) batch (sk_buffer s) = (Inl e, b')" "\<not> (\<exists>why. e = DFull why)"
    and "pl_received q = Received (Inr None)" "\<not> truncated (pl_stats q)"
  shows "\<exists>s'. drain_to_end a render [p, q] s = (Some (Inl (data_to_oxyn render e)), [], s', [])
    \<and> buffer_rows a (sk_buffer s') = buffer_rows a (sk_buffer s)
    \<and> ensure_exportable names (sk_buffer s') Csv opts = Inr ()"
  using failure_closes_without_mark [OF assms] by (auto simp: ensure_exportable_def sink_truncated_def)

definition sample_unstored :: "string pull" where
  "sample_unstored = (sample_pull (Some ''abcdefg''))
     \<lparr>pl_disk := \<lparr>da_create = Some ''no space left'', da_write = DiskWrites\<rparr>\<rparr>"

theorem unstored_batches_go_unmarked_witness:
  "\<exists>s'. drain_to_end sample_arrow (\<lambda>_. []) [sample_unstored, sample_pull None] (sink_new sample_buffer)
       = (Some (Inl (EIo ''no space left'')), [], s', [])
     \<and> buffer_rows sample_arrow (sk_buffer s') = []
     \<and> ensure_exportable [] (sk_buffer s') Csv default_export_options = Inr ()"
proof -
  have unstored: "push sample_arrow (pl_disk sample_unstored) ''abcdefg'' (sk_buffer (sink_new sample_buffer))
      = (Inl (DSpill ''no space left''), sample_buffer)"
    by (simp add: push_def check_schema_def plan_def plan_rows_def plan_spill_def place_def usat_add_def Let_def
        spill_file_of_def sink_new_def sample_unstored_def sample_result_defs)
  have "buffer_pressure (sk_buffer (sink_new sample_buffer)) = PReady"
    by (simp add: buffer_pressure_def sink_new_def sample_result_defs)
  with unstored_batches_go_unmarked [OF sample_sink_open(1,2) _ _ unstored, of "sample_pull None" "\<lambda>_. []"]
  show ?thesis
    by (simp add: sample_unstored_def sample_pull_def default_stats_def buffer_rows_def sink_new_def
        sample_buffer_def buffer_with_limits_def buffer_index_new_def)
qed

text \<open>C39. An export that succeeds had a result nothing was cut from, and hands the writer of its
  format all the rows of the result, in order; the summary counts them.\<close>

theorem exports_are_whole:
  assumes "buffer_ok a b" "export_buffer a fw names poll flushed format opts b = (Inr (s, bytes), b')"
  shows "\<not> truncated (bi_stats (db_index b))
    \<and> (bi_complete (db_index b) \<or> eo_allow_incomplete opts)
    \<and> (\<exists>w bs out. fw_open fw format opts = Inr w \<and> concat (map (ar_rows a) bs) = buffer_rows a b
        \<and> gives (emit_batch fw (format \<noteq> ArrowIpc)) bs ([], w) = Inr out
        \<and> close_output fw format out = Inr bytes \<and> xs_rows s = length (buffer_rows a b))"
  using export_buffer_spec [OF assms] by blast

definition sample_writer :: "(string, unit) format_writer" where
  "sample_writer = \<lparr>fw_open = (\<lambda>_ _. Inr ()), fw_durations_as_text = Inr,
     fw_write = (\<lambda>b w. Inr (w, b @ '';'')), fw_finish = (\<lambda>_. Inr [])\<rparr>"

definition sample_closed :: "string data_buffer" where
  "sample_closed = mark_complete default_stats (snd (push sample_arrow sample_disk ''ab'' sample_buffer))"

lemma sample_closed_ok: "buffer_ok sample_arrow sample_closed"
proof -
  have room: "bi_rows (db_index sample_buffer) + num_rows sample_arrow ''ab'' \<le> usize_max"
    by (simp add: sample_result_defs)
  from push_ok [OF sample_buffer_ok prod.collapse [symmetric] room] show ?thesis
    unfolding sample_closed_def same_rows_view(2) [OF mark_complete_same] .
qed

lemma sample_closed_eq:
  "bi_slots (db_index sample_closed) = [Resident ''ab'']" "bi_complete (db_index sample_closed)"
  "\<not> truncated (bi_stats (db_index sample_closed))" "db_limits sample_closed = sample_limits"
  by (simp_all add: sample_closed_def mark_complete_def push_def check_schema_def plan_def plan_rows_def
      plan_spill_def place_def usat_add_def index_append_def Let_def sample_result_defs record_batch_def)

lemma sample_export:
  "\<exists>s. export_buffer sample_arrow sample_writer [] (\<lambda>_. False) (Inr ()) Csv default_export_options sample_closed
     = (Inr (s, ''ab;''), sample_closed)"
  by (simp add: export_buffer_def ensure_exportable_def sample_closed_eq sample_writer_def read_batch_def
      batch_cancellable_def get_nth_def emit_batch_def close_output_def needs_footer_def)

theorem exports_are_whole_witness:
  "\<exists>s. export_buffer sample_arrow sample_writer [] (\<lambda>_. False) (Inr ()) Csv default_export_options sample_closed
       = (Inr (s, ''ab;''), sample_closed) \<and> xs_rows s = 2"
proof -
  from sample_export obtain s where run: "export_buffer sample_arrow sample_writer [] (\<lambda>_. False) (Inr ()) Csv
      default_export_options sample_closed = (Inr (s, ''ab;''), sample_closed)" by blast
  from exports_are_whole [OF sample_closed_ok run] run show ?thesis
    by (auto simp: buffer_rows_def sample_closed_eq slot_rows_def sample_arrow_def)
qed

text \<open>C40. Exporting to a file replaces it by the whole export, with the permissions it had, or
  leaves the file system as it was: no partial file, no leftover.\<close>

theorem destinations_are_replaced_whole_or_not:
  assumes "\<And>tmp. fa_temporary fa = Inr tmp \<Longrightarrow> fs tmp = None"
    and "replace_atomically fa destination write s fs = (answer, s', fs')"
  shows "case answer of
      Inl e \<Rightarrow> fs' = fs
    | Inr x \<Rightarrow> \<exists>bytes mode. write s = (Inr (x, bytes), s')
        \<and> fs' = fs(destination \<mapsto> FsFile \<lparr>ff_bytes = bytes, ff_mode = mode, ff_readonly = False\<rparr>)
        \<and> (\<exists>kept. destination_permissions destination fs = Inr kept
            \<and> mode = (case kept of None \<Rightarrow> new_file_mode | Some m \<Rightarrow> m))"
  by (rule replace_atomically_spec [OF assms])

definition sample_answers :: fs_answers where
  "sample_answers = \<lparr>fa_cancelled_first = False, fa_temporary = Inr ''.part'', fa_permissions = Inr (),
     fa_sync = Inr (), fa_cancelled_last = False, fa_persist = Inr ()\<rparr>"

theorem destinations_are_replaced_whole_or_not_witness:
  "\<exists>fs'. replace_atomically sample_answers ''out'' (\<lambda>s. (Inr ((), ''new''), s)) () (\<lambda>_. None) = (Inr (), (), fs')
     \<and> fs' ''out'' = Some (FsFile \<lparr>ff_bytes = ''new'', ff_mode = new_file_mode, ff_readonly = False\<rparr>)"
proof -
  obtain fs' where run: "replace_atomically sample_answers ''out'' (\<lambda>s. (Inr ((), ''new''), s)) () (\<lambda>_. None)
      = (Inr (), (), fs')"
    by (simp add: replace_atomically_def sample_answers_def destination_permissions_def Let_def)
  have fresh: "fa_temporary sample_answers = Inr tmp \<Longrightarrow> (\<lambda>_. None) tmp = None" for tmp by simp
  from destinations_are_replaced_whole_or_not [OF fresh run] run show ?thesis
    by (auto simp: destination_permissions_def)
qed

end
